(* ===== verification/Prelude.thy ===== *)
theory Prelude
  imports Main "HOL-Library.Word"
begin

text \<open>
  Shared vocabulary of the development: the machine integer types of the C sources, the status
  codes of \<^verbatim>\<open>src/src/status.h\<close>, the named collections of facts that the component proofs use,
  and generic facts on words, lists and ring buffers.
\<close>

unbundle bit_operations_syntax

type_synonym u8 = "8 word"
type_synonym u16 = "16 word"
type_synonym u32 = "32 word"
type_synonym u64 = "64 word"

text \<open>A pointer to memory obtained from the allocator. The null pointer is \<open>0\<close>.\<close>

type_synonym addr = nat

text \<open>
  \<open>fsm_codes\<close>: the numeric values of the event and configuration enumerations.
  \<open>hal_defs\<close>: definitions of the operating system and hardware layers that are unfolded when a
  client's call is evaluated.
\<close>

named_theorems fsm_codes
named_theorems hal_defs

section \<open>Status codes\<close>

datatype eStatus =
    eSTATUS_SUCCESSFUL
  | eSTATUS_NULL_PARAM
  | eSTATUS_INVALID_VALUE
  | eSTATUS_SYSTEM_ERROR
  | eSTATUS_ACTION_FAILED
  | eSTATUS_INVALID_CONFIG
  | eSTATUS_DEVICE_ERROR

text \<open>The integer value of a status code (the position in the C enumeration).\<close>

fun status_code :: "eStatus \<Rightarrow> nat" where
  "status_code eSTATUS_SUCCESSFUL = 0"
| "status_code eSTATUS_NULL_PARAM = 1"
| "status_code eSTATUS_INVALID_VALUE = 2"
| "status_code eSTATUS_SYSTEM_ERROR = 3"
| "status_code eSTATUS_ACTION_FAILED = 4"
| "status_code eSTATUS_INVALID_CONFIG = 5"
| "status_code eSTATUS_DEVICE_ERROR = 6"

lemma status_code_inj: "status_code a = status_code b \<longleftrightarrow> a = b"
  by (cases a; cases b) simp_all

text \<open>Status codes are ordered by their integer value, as enumerators are in C.\<close>

instantiation eStatus :: linorder
begin

definition less_eq_eStatus :: "eStatus \<Rightarrow> eStatus \<Rightarrow> bool" where
  "less_eq_eStatus a b \<longleftrightarrow> status_code a \<le> status_code b"

definition less_eStatus :: "eStatus \<Rightarrow> eStatus \<Rightarrow> bool" where
  "less_eStatus a b \<longleftrightarrow> status_code a < status_code b"

instance
  by standard (auto simp: less_eq_eStatus_def less_eStatus_def status_code_inj)

end

text \<open>The truth value of a status in a C condition, \<^verbatim>\<open>if(status)\<close>.\<close>

definition failed :: "eStatus \<Rightarrow> bool" where
  "failed s \<longleftrightarrow> status_code s \<noteq> 0"

lemma failed_iff [simp]: "failed s \<longleftrightarrow> s \<noteq> eSTATUS_SUCCESSFUL"
  by (cases s) (simp_all add: failed_def)

lemma success_is_least: "eSTATUS_SUCCESSFUL \<le> s"
  by (simp add: less_eq_eStatus_def)

section \<open>Lists\<close>

text \<open>
  The index of the first element that satisfies a predicate: the shape of the C loops that look
  for a free slot.
\<close>

fun first_index :: "('a \<Rightarrow> bool) \<Rightarrow> 'a list \<Rightarrow> nat option" where
  "first_index P [] = None"
| "first_index P (x # xs) = (if P x then Some 0 else map_option Suc (first_index P xs))"

lemma first_index_None: "first_index P xs = None \<longleftrightarrow> (\<forall>x\<in>set xs. \<not> P x)"
  by (induction xs) auto

lemma first_index_Some:
  "first_index P xs = Some i \<Longrightarrow> i < length xs \<and> P (xs ! i) \<and> (\<forall>j<i. \<not> P (xs ! j))"
proof (induction xs arbitrary: i)
  case (Cons x xs)
  then show ?case
    by (cases i) (auto split: if_splits simp: nth_Cons split: nat.splits)
qed simp

lemma count_filter_update:
  "i < length xs \<Longrightarrow> \<not> P (xs ! i) \<Longrightarrow> P y \<Longrightarrow>
    length (filter P (xs[i := y])) = Suc (length (filter P xs))"
proof (induction xs arbitrary: i)
  case (Cons x xs)
  then show ?case by (cases i) auto
qed simp

lemma count_filter_update_del:
  "i < length xs \<Longrightarrow> P (xs ! i) \<Longrightarrow> \<not> P y \<Longrightarrow>
    Suc (length (filter P (xs[i := y]))) = length (filter P xs)"
proof (induction xs arbitrary: i)
  case (Cons x xs)
  then show ?case by (cases i) auto
qed simp

lemma filter_all_length: "length (filter P xs) = length xs \<longleftrightarrow> (\<forall>x\<in>set xs. P x)"
proof (induction xs)
  case (Cons x xs)
  have "length (filter P xs) \<noteq> Suc (length xs)"
    using length_filter_le [of P xs] by linarith
  with Cons show ?case by auto
qed simp

section \<open>Ring buffers\<close>

text \<open>
  The elements held by a ring buffer: \<open>n\<close> slots from index \<open>h\<close>, wrapping at the length of the
  buffer. Both ring buffers of the program (the event queue of an active object and the message
  queue of the WebSocket server) are read through it.
\<close>

definition ring_contents :: "'a list \<Rightarrow> nat \<Rightarrow> nat \<Rightarrow> 'a list" where
  "ring_contents buf h n = map (\<lambda>i. buf ! ((h + i) mod length buf)) [0..<n]"

lemma ring_contents_length [simp]: "length (ring_contents buf h n) = n"
  by (simp add: ring_contents_def)

lemma ring_contents_0 [simp]: "ring_contents buf h 0 = []"
  by (simp add: ring_contents_def)

lemma ring_contents_push:
  assumes "n < length buf"
  shows "ring_contents (buf[(h + n) mod length buf := x]) h (Suc n) = ring_contents buf h n @ [x]"
proof -
  have "(h + i) mod length buf \<noteq> (h + n) mod length buf" if "i < n" for i
  proof
    assume eq: "(h + i) mod length buf = (h + n) mod length buf"
    then have "int (length buf) dvd int (h + n) - int (h + i)"
      by (metis mod_eq_dvd_iff of_nat_mod)
    then have "length buf dvd n - i"
      using that by (simp add: of_nat_diff [symmetric] del: of_nat_diff)
    with that assms show False
      by (auto dest: dvd_imp_le)
  qed
  moreover have "(h + n) mod length buf < length buf"
    using assms by (intro mod_less_divisor) linarith
  ultimately show ?thesis
    by (auto simp: ring_contents_def) (metis nth_list_update_neq)
qed

lemma ring_contents_pop:
  "ring_contents buf h (Suc n) = buf ! (h mod length buf) # ring_contents buf (Suc h mod length buf) n"
proof -
  have "(Suc h mod length buf + i) mod length buf = (h + Suc i) mod length buf" for i
    by (simp add: mod_simps)
  then show ?thesis
    by (simp add: ring_contents_def upt_conv_Cons map_Suc_upt [symmetric] del: upt_Suc)
qed

lemma ring_contents_mod:
  "ring_contents buf (h mod length buf) n = ring_contents buf h n"
  by (simp add: ring_contents_def mod_simps)

section \<open>Words\<close>

lemma unat_lt_2p: "unat (w :: 'a::len word) < 2 ^ LENGTH('a)"
  by (rule unsigned_less)

lemma unat_of_nat_small: "n < 2 ^ LENGTH('a) \<Longrightarrow> unat (of_nat n :: 'a::len word) = n"
  by (simp add: unat_of_nat)

lemma unat_Suc_mod:
  fixes i c :: "'a::len word"
  assumes "i < c"
  shows "unat ((i + 1) mod c) = Suc (unat i) mod unat c"
proof -
  have "unat i < unat c" using assms by (simp add: word_less_nat_alt)
  moreover note unat_lt_2p [of c]
  ultimately have "Suc (unat i) < 2 ^ LENGTH('a)" by linarith
  then have "unat (i + 1) = Suc (unat i)"
    by (simp add: unat_word_ariths)
  then show ?thesis
    by (simp add: unat_mod)
qed

end
