(* ===== verification/Cfloat.thy ===== *)
theory Cfloat
  imports Complex_Main Prelude "HOL-Library.Log_Nat"
begin

text \<open>
  The C types \<^verbatim>\<open>float\<close> and \<^verbatim>\<open>double\<close> as IEEE binary32 and binary64 numbers with rounding to nearest,
  ties to even. A finite value is the rational number it denotes; the two zeros are not
  distinguished (the program never divides by a variable, so it cannot observe the difference).
  The rounding is executable, and the section of facts shows what the components use: the error
  bound, that representable numbers are kept, and that rounding does not cross one.
\<close>

section \<open>Values and rounding\<close>

datatype cfloat = Fin rat | PInf | NInf | NaN

text \<open>The binary exponent of a nonzero number: \<open>2 powi e \<le> \<bar>x\<bar> < 2 powi (e + 1)\<close>.\<close>

definition fl_exponent :: "rat \<Rightarrow> int" where
  "fl_exponent x =
    (let (n, d) = quotient_of \<bar>x\<bar>;
         k = int (floorlog 2 (nat n)) - int (floorlog 2 (nat d))
     in if (2 :: rat) powi k \<le> \<bar>x\<bar> then k else k - 1)"

definition round_half_even :: "rat \<Rightarrow> int" where
  "round_half_even y =
    (let f = \<lfloor>y\<rfloor>; r = y - of_int f
     in if r < 1 / 2 then f else if 1 / 2 < r then f + 1 else if even f then f else f + 1)"

text \<open>
  A format: precision \<open>p\<close> and the exponent \<open>qmin\<close> of the smallest positive number; numbers of
  magnitude \<open>2 powi emax\<close> and above overflow. The unit in the last place of the result is
  \<open>2 powi fl_quantum\<close>.
\<close>

definition fl_quantum :: "nat \<Rightarrow> int \<Rightarrow> rat \<Rightarrow> int" where
  "fl_quantum p qmin x = max (fl_exponent x - (int p - 1)) qmin"

definition fl_round :: "nat \<Rightarrow> int \<Rightarrow> rat \<Rightarrow> rat" where
  "fl_round p qmin x =
    (if x = 0 then 0
     else let u = (2 :: rat) powi fl_quantum p qmin x in of_int (round_half_even (x / u)) * u)"

definition fl_pack :: "nat \<Rightarrow> int \<Rightarrow> int \<Rightarrow> rat \<Rightarrow> cfloat" where
  "fl_pack p qmin emax x =
    (let y = fl_round p qmin x
     in if (2 :: rat) powi emax \<le> y then PInf else if y \<le> - (2 powi emax) then NInf else Fin y)"

definition fl32 :: "rat \<Rightarrow> cfloat" where "fl32 x = fl_pack 24 (- 149) 128 x"
definition fl64 :: "rat \<Rightarrow> cfloat" where "fl64 x = fl_pack 53 (- 1074) 1024 x"

section \<open>Operations\<close>

fun f_neg :: "cfloat \<Rightarrow> cfloat" where
  "f_neg (Fin x) = Fin (- x)"
| "f_neg PInf = NInf"
| "f_neg NInf = PInf"
| "f_neg NaN = NaN"

text \<open>\<open>rnd\<close> is the rounding of the type the operation is done in.\<close>

fun f_add :: "(rat \<Rightarrow> cfloat) \<Rightarrow> cfloat \<Rightarrow> cfloat \<Rightarrow> cfloat" where
  "f_add rnd NaN y = NaN"
| "f_add rnd x NaN = NaN"
| "f_add rnd PInf NInf = NaN"
| "f_add rnd NInf PInf = NaN"
| "f_add rnd PInf y = PInf"
| "f_add rnd NInf y = NInf"
| "f_add rnd x PInf = PInf"
| "f_add rnd x NInf = NInf"
| "f_add rnd (Fin x) (Fin y) = rnd (x + y)"

definition f_sub :: "(rat \<Rightarrow> cfloat) \<Rightarrow> cfloat \<Rightarrow> cfloat \<Rightarrow> cfloat" where
  "f_sub rnd x y = f_add rnd x (f_neg y)"

definition f_signed_inf :: "rat \<Rightarrow> cfloat" where
  "f_signed_inf s = (if s = 0 then NaN else if 0 < s then PInf else NInf)"

fun f_sign :: "cfloat \<Rightarrow> rat" where
  "f_sign (Fin x) = (if x = 0 then 0 else if 0 < x then 1 else - 1)"
| "f_sign PInf = 1"
| "f_sign NInf = - 1"
| "f_sign NaN = 0"

fun f_mul :: "(rat \<Rightarrow> cfloat) \<Rightarrow> cfloat \<Rightarrow> cfloat \<Rightarrow> cfloat" where
  "f_mul rnd (Fin x) (Fin y) = rnd (x * y)"
| "f_mul rnd NaN y = NaN"
| "f_mul rnd x NaN = NaN"
| "f_mul rnd x y = f_signed_inf (f_sign x * f_sign y)"

text \<open>Division by a finite number that is not zero, the only one the program does.\<close>

fun f_div :: "(rat \<Rightarrow> cfloat) \<Rightarrow> cfloat \<Rightarrow> cfloat \<Rightarrow> cfloat" where
  "f_div rnd (Fin x) (Fin y) = rnd (x / y)"
| "f_div rnd NaN y = NaN"
| "f_div rnd x NaN = NaN"
| "f_div rnd (Fin x) y = Fin 0"
| "f_div rnd x (Fin y) = f_signed_inf (f_sign x * f_sign (Fin y))"
| "f_div rnd x y = NaN"

fun f_less :: "cfloat \<Rightarrow> cfloat \<Rightarrow> bool" where
  "f_less (Fin x) (Fin y) = (x < y)"
| "f_less NaN y = False"
| "f_less x NaN = False"
| "f_less x NInf = False"
| "f_less NInf y = True"
| "f_less PInf y = False"
| "f_less x PInf = True"

text \<open>Conversion between the types, and to an integer (truncation; defined for a finite value).\<close>

fun f_convert :: "(rat \<Rightarrow> cfloat) \<Rightarrow> cfloat \<Rightarrow> cfloat" where
  "f_convert rnd (Fin x) = rnd x"
| "f_convert rnd v = v"

fun f_trunc :: "cfloat \<Rightarrow> int" where
  "f_trunc (Fin x) = (if 0 \<le> x then \<lfloor>x\<rfloor> else \<lceil>x\<rceil>)"
| "f_trunc v = 0"

section \<open>Facts\<close>

lemma round_half_even_int [simp]: "round_half_even (of_int n) = n"
  by (simp add: round_half_even_def)

lemma round_half_even_error: "\<bar>of_int (round_half_even y) - y\<bar> \<le> 1 / 2"
proof -
  have "of_int \<lfloor>y\<rfloor> \<le> y" "y < of_int \<lfloor>y\<rfloor> + 1" by linarith+
  then show ?thesis by (auto simp: round_half_even_def Let_def abs_le_iff)
qed

lemma round_half_even_le: "y \<le> of_int n \<Longrightarrow> round_half_even y \<le> n"
  using round_half_even_error [of y]
proof -
  assume y: "y \<le> of_int n"
  have "round_half_even y < n + 1"
  proof -
    have "of_int (round_half_even y) \<le> y + 1 / 2"
      using round_half_even_error [of y] by linarith
    then have "(of_int (round_half_even y) :: rat) < of_int (n + 1)" using y by simp
    then show ?thesis by (simp only: of_int_less_iff)
  qed
  then show "round_half_even y \<le> n" by simp
qed

lemma round_half_even_ge: "of_int n \<le> y \<Longrightarrow> n \<le> round_half_even y"
proof -
  assume y: "of_int n \<le> y"
  have "y - 1 / 2 \<le> of_int (round_half_even y)"
    using round_half_even_error [of y] by linarith
  then have "(of_int (n - 1) :: rat) < of_int (round_half_even y)" using y by simp
  then show "n \<le> round_half_even y" by (simp only: of_int_less_iff)
qed

lemma floorlog_nat_bounds:
  assumes "0 < n"
  shows "2 powi (int (floorlog 2 n) - 1) \<le> (of_nat n :: rat)"
    "(of_nat n :: rat) < 2 powi int (floorlog 2 n)"
proof -
  have b: "2 ^ (floorlog 2 n - 1) \<le> n" "n < 2 ^ floorlog 2 n"
    using floorlog_bounds [of n 2] assms by auto
  have p: "0 < floorlog 2 n" using assms by (simp add: floorlog_def)
  have "(2 :: rat) powi (int (floorlog 2 n) - 1) = 2 ^ (floorlog 2 n - 1)"
    using p by (metis Suc_leI of_nat_1 of_nat_diff One_nat_def power_int_of_nat)
  moreover have "(2 :: rat) ^ (floorlog 2 n - 1) \<le> of_nat n"
    using b(1) by (metis of_nat_le_iff of_nat_numeral of_nat_power)
  ultimately show "2 powi (int (floorlog 2 n) - 1) \<le> (of_nat n :: rat)" by simp
  have "(of_nat n :: rat) < 2 ^ floorlog 2 n"
    using b(2) by (metis of_nat_less_iff of_nat_numeral of_nat_power)
  then show "(of_nat n :: rat) < 2 powi int (floorlog 2 n)" by simp
qed

lemma fl_exponent_bounds:
  assumes "x \<noteq> 0"
  shows "2 powi fl_exponent x \<le> \<bar>x\<bar>" "\<bar>x\<bar> < 2 powi (fl_exponent x + 1)"
proof -
  obtain n d where q: "quotient_of \<bar>x\<bar> = (n, d)" by (cases "quotient_of \<bar>x\<bar>") auto
  have d0: "0 < d" using quotient_of_denom_pos [OF q] .
  have x: "\<bar>x\<bar> = of_int n / of_int d" using quotient_of_div [OF q] .
  have n0: "0 < n"
  proof -
    have "0 < (of_int n :: rat) / of_int d" using assms x by (metis zero_less_abs_iff)
    then show ?thesis using d0 by (simp add: zero_less_divide_iff)
  qed
  define a b where "a = int (floorlog 2 (nat n))" and "b = int (floorlog 2 (nat d))"
  have na: "2 powi (a - 1) \<le> (of_int n :: rat)" "(of_int n :: rat) < 2 powi a"
    using floorlog_nat_bounds [of "nat n"] n0 by (simp_all add: a_def)
  have db: "2 powi (b - 1) \<le> (of_int d :: rat)" "(of_int d :: rat) < 2 powi b"
    using floorlog_nat_bounds [of "nat d"] d0 by (simp_all add: b_def)
  have lo: "2 powi (a - b - 1) \<le> \<bar>x\<bar>"
  proof -
    have "(2 :: rat) powi (a - b - 1) = 2 powi (a - 1) / 2 powi b"
      by (simp add: power_int_diff)
    also have "\<dots> \<le> of_int n / of_int d"
      using na db d0 n0 by (intro frac_le) auto
    finally show ?thesis by (simp add: x)
  qed
  have hi: "\<bar>x\<bar> < 2 powi (a - b + 1)"
  proof -
    have "of_int n / of_int d < (2 :: rat) powi a / 2 powi (b - 1)"
      using na db n0 by (intro frac_less) auto
    also have "\<dots> = 2 powi (a - b + 1)"
      by (simp add: power_int_diff power_int_add)
    finally show ?thesis by (simp add: x)
  qed
  have e: "fl_exponent x = (if (2 :: rat) powi (a - b) \<le> \<bar>x\<bar> then a - b else a - b - 1)"
    by (simp add: fl_exponent_def q a_def b_def)
  show "2 powi fl_exponent x \<le> \<bar>x\<bar>" "\<bar>x\<bar> < 2 powi (fl_exponent x + 1)"
    using lo hi by (auto simp: e)
qed

lemma two_powi_less: "a < b \<Longrightarrow> (2 :: rat) powi a < 2 powi b"
  by (rule power_int_strict_increasing) simp_all

lemma two_powi_le: "a \<le> b \<Longrightarrow> (2 :: rat) powi a \<le> 2 powi b"
  by (rule power_int_increasing) simp_all

lemma two_powi_less_imp: "(2 :: rat) powi a < 2 powi b \<Longrightarrow> a < b"
  using two_powi_le [of b a] by linarith

lemma floor_plus_one: "y \<notin> \<int> \<Longrightarrow> \<lfloor>- y\<rfloor> = - \<lfloor>y\<rfloor> - (1 :: int)" for y :: rat
  by (metis Ints_of_int ceiling_altdef ceiling_def minus_diff_eq diff_conv_add_uminus minus_minus
      minus_add_distrib)

lemma round_half_even_neg: "round_half_even (- y) = - round_half_even y"
proof (cases "y \<in> \<int>")
  case True
  then obtain n where "y = of_int n" by (auto elim: Ints_cases)
  then show ?thesis by (metis of_int_minus round_half_even_int)
next
  case False
  have f: "\<lfloor>- y\<rfloor> = - \<lfloor>y\<rfloor> - 1" by (rule floor_plus_one [OF False])
  show ?thesis
    by (auto simp: round_half_even_def Let_def f)
qed

lemma fl_quantum_neg: "fl_quantum p qmin (- x) = fl_quantum p qmin x"
  by (simp add: fl_quantum_def fl_exponent_def)

lemma fl_round_neg: "fl_round p qmin (- x) = - fl_round p qmin x"
proof -
  have "round_half_even (- x / u) = - round_half_even (x / u)" for u
    using round_half_even_neg [of "x / u"] by simp
  then show ?thesis by (simp add: fl_round_def fl_quantum_neg Let_def)
qed

text \<open>An integer of at most \<open>p\<close> bits is not crossed by rounding, hence kept.\<close>

lemma fl_round_le_pos:
  assumes x: "0 < x" "x \<le> of_int r" and r: "r < 2 ^ p" and q: "qmin \<le> 0" and p: "0 < p"
  shows "fl_round p qmin x \<le> of_int r"
proof -
  define e where "e = fl_exponent x"
  have "(of_int r :: rat) < 2 ^ p"
    using r by (metis of_int_less_iff of_int_numeral of_int_power)
  moreover have "2 powi e \<le> x" using fl_exponent_bounds(1) [of x] x by (simp add: e_def)
  ultimately have "2 powi e < (2 :: rat) ^ p" using x by linarith
  then have "2 powi e < (2 :: rat) powi int p" by simp
  then have ep: "e < int p" by (rule two_powi_less_imp)
  define Q where "Q = fl_quantum p qmin x"
  have Q0: "Q \<le> 0" using ep q p by (simp add: Q_def fl_quantum_def e_def)
  define u where "u = (2 :: rat) powi Q"
  have u0: "0 < u" by (simp add: u_def)
  define N where "N = r * 2 ^ nat (- Q)"
  have Nu: "of_int N * u = (of_int r :: rat)"
  proof -
    have "(2 :: rat) powi Q = inverse (2 ^ nat (- Q))" using Q0 by (simp add: power_int_def power_one_over inverse_eq_divide)
    then show ?thesis by (simp add: N_def u_def)
  qed
  have "x / u \<le> of_int N"
    using x Nu u0 by (simp add: pos_divide_le_eq)
  then have "round_half_even (x / u) \<le> N" by (rule round_half_even_le)
  then have "of_int (round_half_even (x / u)) * u \<le> of_int N * u"
    using u0 by simp
  moreover have "fl_round p qmin x = of_int (round_half_even (x / u)) * u"
    using x by (simp add: fl_round_def u_def Q_def Let_def)
  ultimately show ?thesis using Nu by simp
qed

lemma fl_round_ge_pos:
  assumes x: "0 < x" "of_int r \<le> x" and r: "r < 2 ^ p" and q: "qmin \<le> 0" and p: "0 < p"
  shows "of_int r \<le> fl_round p qmin x"
proof -
  define e where "e = fl_exponent x"
  define Q where "Q = fl_quantum p qmin x"
  define u where "u = (2 :: rat) powi Q"
  have u0: "0 < u" by (simp add: u_def)
  have fl: "fl_round p qmin x = of_int (round_half_even (x / u)) * u"
    using x by (simp add: fl_round_def u_def Q_def Let_def)
  show ?thesis
  proof (cases "Q \<le> 0")
    case True
    define N where "N = r * 2 ^ nat (- Q)"
    have Nu: "of_int N * u = (of_int r :: rat)"
    proof -
      have "(2 :: rat) powi Q = inverse (2 ^ nat (- Q))" using True by (simp add: power_int_def power_one_over inverse_eq_divide)
      then show ?thesis by (simp add: N_def u_def)
    qed
    have "of_int N \<le> x / u"
      using x Nu u0 by (simp add: pos_le_divide_eq)
    then have "N \<le> round_half_even (x / u)" by (rule round_half_even_ge)
    then have "of_int N * u \<le> of_int (round_half_even (x / u)) * u"
      using u0 by simp
    then show ?thesis using Nu fl by simp
  next
    case False
    then have Qe: "Q = e - (int p - 1)" using q by (auto simp: Q_def fl_quantum_def e_def)
    have two: "(2 :: rat) powi e = 2 ^ (p - 1) * u"
    proof -
      have "(2 :: rat) powi e = 2 powi (int (p - 1) + Q)" using Qe p by (simp add: of_nat_diff)
      also have "\<dots> = 2 powi int (p - 1) * u" by (subst power_int_add) (simp_all add: u_def)
      finally show ?thesis by simp
    qed
    have "of_int (2 ^ (p - 1)) \<le> x / u"
      using fl_exponent_bounds(1) [of x] x two u0 by (simp add: e_def pos_le_divide_eq)
    then have "2 ^ (p - 1) \<le> round_half_even (x / u)" by (rule round_half_even_ge)
    then have "(of_int (2 ^ (p - 1)) :: rat) \<le> of_int (round_half_even (x / u))"
      by (simp only: of_int_le_iff)
    then have "2 ^ (p - 1) * u \<le> fl_round p qmin x"
      using u0 by (simp add: fl)
    moreover have "(of_int r :: rat) < 2 ^ p"
      using r by (metis of_int_less_iff of_int_numeral of_int_power)
    moreover have "(2 :: rat) ^ p \<le> 2 powi e"
    proof -
      have "int p \<le> e" using False Qe by simp
      then show ?thesis using two_powi_le [of "int p" e] by simp
    qed
    ultimately show ?thesis using two by linarith
  qed
qed

lemma fl_round_sign: "0 \<le> x \<Longrightarrow> 0 \<le> fl_round p qmin x"
proof (cases "x = 0")
  case False
  moreover assume "0 \<le> x"
  ultimately have "of_int 0 \<le> x / 2 powi fl_quantum p qmin x" by simp
  then have "0 \<le> round_half_even (x / 2 powi fl_quantum p qmin x)" by (rule round_half_even_ge)
  then show ?thesis by (simp add: fl_round_def Let_def)
qed (simp add: fl_round_def)

lemma fl_round_le:
  assumes "x \<le> of_int r" and "\<bar>r\<bar> < 2 ^ p" and "qmin \<le> 0" and "0 < p"
  shows "fl_round p qmin x \<le> of_int r"
proof (cases "0 < x")
  case True
  then show ?thesis using assms by (intro fl_round_le_pos) auto
next
  case False
  show ?thesis
  proof (cases "0 \<le> r")
    case True
    then show ?thesis using fl_round_sign [of "- x" p qmin] False by (simp add: fl_round_neg)
  next
    case neg: False
    then have "0 < - x" "of_int (- r) \<le> - x" "- r < 2 ^ p" using assms by auto
    then have "of_int (- r) \<le> fl_round p qmin (- x)" using assms(3,4) by (rule fl_round_ge_pos)
    then show ?thesis by (simp add: fl_round_neg)
  qed
qed

lemma fl_round_ge:
  assumes "of_int r \<le> x" and "\<bar>r\<bar> < 2 ^ p" and "qmin \<le> 0" and "0 < p"
  shows "of_int r \<le> fl_round p qmin x"
  using fl_round_le [of "- x" "- r" p qmin] assms by (simp add: fl_round_neg)

lemma fl_round_int:
  "\<bar>r\<bar> < 2 ^ p \<Longrightarrow> qmin \<le> 0 \<Longrightarrow> 0 < p \<Longrightarrow> fl_round p qmin (of_int r) = of_int r"
  by (simp add: antisym fl_round_le fl_round_ge)

text \<open>The relative error of a number in the normal range is at most half a unit in the last place.\<close>

lemma fl_round_error:
  assumes "x \<noteq> 0" and "2 powi (qmin + int p - 1) \<le> \<bar>x\<bar>"
  shows "\<bar>fl_round p qmin x - x\<bar> \<le> \<bar>x\<bar> / 2 ^ p"
proof -
  define e where "e = fl_exponent x"
  define u where "u = (2 :: rat) powi fl_quantum p qmin x"
  have u0: "0 < u" by (simp add: u_def)
  have "(2 :: rat) powi (qmin + int p - 1) < 2 powi (e + 1)"
    using assms fl_exponent_bounds(2) [of x] by (simp add: e_def)
  then have "qmin + int p - 1 < e + 1" by (rule two_powi_less_imp)
  then have "fl_quantum p qmin x = e + 1 - int p" by (simp add: fl_quantum_def e_def)
  then have u: "u = 2 powi e * 2 / 2 ^ p"
    unfolding u_def by (simp add: power_int_diff power_int_add)
  have "\<bar>of_int (round_half_even (x / u)) - x / u\<bar> * u \<le> (1 / 2) * u"
    using round_half_even_error [of "x / u"] u0 by (intro mult_right_mono) auto
  moreover have "\<bar>of_int (round_half_even (x / u)) - x / u\<bar> * u = \<bar>fl_round p qmin x - x\<bar>"
  proof -
    have "\<bar>of_int (round_half_even (x / u)) - x / u\<bar> * u
        = \<bar>(of_int (round_half_even (x / u)) - x / u) * u\<bar>"
      using u0 by (simp add: abs_mult)
    also have "(of_int (round_half_even (x / u)) - x / u) * u = fl_round p qmin x - x"
      using u0 assms(1) by (simp add: fl_round_def u_def [symmetric] Let_def left_diff_distrib)
    finally show ?thesis .
  qed
  moreover have "(1 / 2) * u \<le> \<bar>x\<bar> / 2 ^ p"
    using fl_exponent_bounds(1) [OF assms(1)] by (simp add: u e_def divide_right_mono)
  ultimately show ?thesis by linarith
qed

subsection \<open>Single and double precision\<close>

lemma fl_pack_cases:
  assumes "\<bar>x\<bar> \<le> of_int r" and "r < 2 ^ p" and "qmin \<le> 0" and "0 < p" and "int p \<le> emax"
  shows "fl_pack p qmin emax x = Fin (fl_round p qmin x)" "\<bar>fl_round p qmin x\<bar> \<le> of_int r"
proof -
  have r0: "0 \<le> r" using assms(1) by (metis abs_ge_zero order_trans of_int_0_le_iff)
  show b: "\<bar>fl_round p qmin x\<bar> \<le> of_int r"
    using fl_round_le [of x r p qmin] fl_round_ge [of "- r" x p qmin] assms r0
    by (auto simp: abs_le_iff)
  have "(of_int r :: rat) < 2 ^ p"
    using assms(2) by (metis of_int_less_iff of_int_numeral of_int_power)
  also have "(2 :: rat) ^ p \<le> 2 powi emax" using two_powi_le [of "int p" emax] assms(5) by simp
  finally have "\<bar>fl_round p qmin x\<bar> < 2 powi emax" using b by simp
  then show "fl_pack p qmin emax x = Fin (fl_round p qmin x)"
    by (auto simp: fl_pack_def Let_def abs_less_iff)
qed

definition rnd32 :: "rat \<Rightarrow> rat" where "rnd32 x = fl_round 24 (- 149) x"
definition rnd64 :: "rat \<Rightarrow> rat" where "rnd64 x = fl_round 53 (- 1074) x"

lemma fl32_Fin: "\<bar>x\<bar> \<le> of_int r \<Longrightarrow> r < 2 ^ 24 \<Longrightarrow> fl32 x = Fin (rnd32 x) \<and> \<bar>rnd32 x\<bar> \<le> of_int r"
  using fl_pack_cases [of x r 24 "- 149" 128] by (simp add: fl32_def rnd32_def)

lemma fl64_Fin: "\<bar>x\<bar> \<le> of_int r \<Longrightarrow> r < 2 ^ 53 \<Longrightarrow> fl64 x = Fin (rnd64 x) \<and> \<bar>rnd64 x\<bar> \<le> of_int r"
  using fl_pack_cases [of x r 53 "- 1074" 1024] by (simp add: fl64_def rnd64_def)

lemma rnd32_int: "\<bar>r\<bar> < 2 ^ 24 \<Longrightarrow> rnd32 (of_int r) = of_int r"
  by (simp add: rnd32_def fl_round_int)

lemma fl32_int: "\<bar>r\<bar> < 2 ^ 24 \<Longrightarrow> fl32 (of_int r) = Fin (of_int r)"
  using fl32_Fin [of "of_int r" "\<bar>r\<bar>"] rnd32_int [of r] by simp

lemma fl64_int: "\<bar>r\<bar> < 2 ^ 53 \<Longrightarrow> fl64 (of_int r) = Fin (of_int r)"
  using fl64_Fin [of "of_int r" "\<bar>r\<bar>"] by (simp add: rnd64_def fl_round_int)

lemma rnd32_le: "x \<le> of_int r \<Longrightarrow> \<bar>r\<bar> < 2 ^ 24 \<Longrightarrow> rnd32 x \<le> of_int r"
  by (simp add: rnd32_def fl_round_le)

lemma rnd32_ge: "of_int r \<le> x \<Longrightarrow> \<bar>r\<bar> < 2 ^ 24 \<Longrightarrow> of_int r \<le> rnd32 x"
  by (simp add: rnd32_def fl_round_ge)

lemma rnd32_error: "2 powi (- 126) \<le> \<bar>x\<bar> \<Longrightarrow> \<bar>rnd32 x - x\<bar> \<le> \<bar>x\<bar> / 2 ^ 24"
  using fl_round_error [of x "- 149" 24]
  by (cases "x = 0") (simp_all add: rnd32_def fl_round_def)

lemma rnd64_error: "2 powi (- 1022) \<le> \<bar>x\<bar> \<Longrightarrow> \<bar>rnd64 x - x\<bar> \<le> \<bar>x\<bar> / 2 ^ 53"
  using fl_round_error [of x "- 1074" 53]
  by (cases "x = 0") (simp_all add: rnd64_def fl_round_def)

text \<open>The absolute error, which holds for the numbers near zero as well.\<close>

lemma rnd32_abs_error:
  assumes "\<bar>x\<bar> \<le> b" and "2 powi (- 126) \<le> b"
  shows "\<bar>rnd32 x - x\<bar> \<le> b / 2 ^ 24"
proof (cases "2 powi (- 126) \<le> \<bar>x\<bar>")
  case True
  have "\<bar>x\<bar> / 2 ^ 24 \<le> b / 2 ^ 24" using assms(1) by (simp add: divide_right_mono)
  then show ?thesis using rnd32_error [OF True] by linarith
next
  case False
  show ?thesis
  proof (cases "x = 0")
    case True
    then show ?thesis using assms by (simp add: rnd32_def fl_round_def)
  next
    case x: False
    define u where "u = (2 :: rat) powi fl_quantum 24 (- 149) x"
    have u0: "0 < u" by (simp add: u_def)
    have "2 powi fl_exponent x < (2 :: rat) powi (- 126)"
      using fl_exponent_bounds(1) [OF x] False by linarith
    then have "fl_exponent x < - 126" by (rule two_powi_less_imp)
    then have "fl_quantum 24 (- 149) x = - 149" by (simp add: fl_quantum_def)
    then have u: "u = 2 powi (- 149)" by (simp add: u_def)
    have "\<bar>of_int (round_half_even (x / u)) - x / u\<bar> * u \<le> (1 / 2) * u"
      using round_half_even_error [of "x / u"] u0 by (intro mult_right_mono) auto
    moreover have "\<bar>of_int (round_half_even (x / u)) - x / u\<bar> * u = \<bar>rnd32 x - x\<bar>"
    proof -
      have "\<bar>of_int (round_half_even (x / u)) - x / u\<bar> * u
          = \<bar>(of_int (round_half_even (x / u)) - x / u) * u\<bar>"
        using u0 by (simp add: abs_mult)
      also have "(of_int (round_half_even (x / u)) - x / u) * u = rnd32 x - x"
        using u0 x by (simp add: rnd32_def fl_round_def u_def [symmetric] Let_def left_diff_distrib)
      finally show ?thesis .
    qed
    moreover have "(1 / 2) * u \<le> b / 2 ^ 24"
    proof -
      have "(1 / 2) * u = 2 powi (- 126) / 2 ^ 24"
        by (simp add: u power_int_def power_one_over)
      then show ?thesis using assms(2) by (simp add: divide_right_mono)
    qed
    ultimately show ?thesis by linarith
  qed
qed

lemma rnd32_0 [simp]: "rnd32 0 = 0"
  by (simp add: rnd32_def fl_round_def)

end
