(* ===== verification/Bytes.thy ===== *)
theory Bytes
  imports Prelude
begin

text \<open>
  Memory images of integers and the byte-level helpers of the sensor drivers. The byte order of the
  host is the parameter \<open>be\<close> (\<open>True\<close> for big-endian): the drivers receive structs from the wire
  and must decode them to the same values on both.
\<close>

section \<open>Memory images\<close>

definition host_order :: "bool \<Rightarrow> 'a list \<Rightarrow> 'a list" where
  "host_order be bs = (if be then rev bs else bs)"

lemma host_order_length [simp]: "length (host_order be bs) = length bs"
  by (simp add: host_order_def)

lemma host_order_twice [simp]: "host_order be (host_order be bs) = bs"
  by (simp add: host_order_def)

text \<open>The little-endian value of two and four bytes.\<close>

definition le16 :: "u8 list \<Rightarrow> u16" where
  "le16 bs = ucast (bs ! 0) OR push_bit 8 (ucast (bs ! 1))"

definition le32 :: "u8 list \<Rightarrow> u32" where
  "le32 bs = ucast (bs ! 0) OR push_bit 8 (ucast (bs ! 1)) OR push_bit 16 (ucast (bs ! 2))
     OR push_bit 24 (ucast (bs ! 3))"

definition bytes16 :: "u16 \<Rightarrow> u8 list" where
  "bytes16 w = [ucast w, ucast (drop_bit 8 w)]"

definition bytes32 :: "u32 \<Rightarrow> u8 list" where
  "bytes32 w = [ucast w, ucast (drop_bit 8 w), ucast (drop_bit 16 w), ucast (drop_bit 24 w)]"

text \<open>Storing to and loading from memory.\<close>

definition mem16 :: "bool \<Rightarrow> u16 \<Rightarrow> u8 list" where "mem16 be w = host_order be (bytes16 w)"
definition mem32 :: "bool \<Rightarrow> u32 \<Rightarrow> u8 list" where "mem32 be w = host_order be (bytes32 w)"
definition load16 :: "bool \<Rightarrow> u8 list \<Rightarrow> u16" where "load16 be bs = le16 (host_order be bs)"
definition load32 :: "bool \<Rightarrow> u8 list \<Rightarrow> u32" where "load32 be bs = le32 (host_order be bs)"

text \<open>The helpers of the drivers: they assemble the bytes of the memory image of the argument.\<close>

definition to_little_endian16 :: "bool \<Rightarrow> u16 \<Rightarrow> u16" where
  "to_little_endian16 be w =
    (let buf = mem16 be w in push_bit 0 (ucast (buf ! 0)) OR push_bit 8 (ucast (buf ! 1)))"

definition to_little_endian32 :: "bool \<Rightarrow> u32 \<Rightarrow> u32" where
  "to_little_endian32 be w =
    (let buf = mem32 be w
     in push_bit 0 (ucast (buf ! 0)) OR push_bit 8 (ucast (buf ! 1)) OR
        push_bit 16 (ucast (buf ! 2)) OR push_bit 24 (ucast (buf ! 3)))"

section \<open>Facts\<close>

lemma bytes16_length [simp]: "length (bytes16 w) = 2" "length (mem16 be w) = 2"
  by (simp_all add: bytes16_def mem16_def)

lemma bytes32_length [simp]: "length (bytes32 w) = 4" "length (mem32 be w) = 4"
  by (simp_all add: bytes32_def mem32_def)

lemma not_bit_u8 [simp]: "8 \<le> n \<Longrightarrow> \<not> bit (b :: u8) n"
  by (auto dest: bit_imp_le_length)

lemma le16_bytes16 [simp]: "le16 (bytes16 w) = w"
  by (rule bit_word_eqI) (auto simp: le16_def bytes16_def bit_simps)

lemma le32_bytes32 [simp]: "le32 (bytes32 w) = w"
proof (rule bit_word_eqI)
  fix n assume "n < LENGTH(32)"
  then consider "n < 8" | "8 \<le> n" "n < 16" | "16 \<le> n" "n < 24" | "24 \<le> n" "n < 32" by fastforce
  then show "bit (le32 (bytes32 w)) n = bit w n"
    by cases (auto simp: le32_def bytes32_def bit_simps)
qed

lemma length_2_cases: "length bs = 2 \<Longrightarrow> \<exists>a b. bs = [a, b]"
  by (cases bs; cases "tl bs") auto

lemma length_4_cases: "length bs = 4 \<Longrightarrow> \<exists>a b c d. bs = [a, b, c, d]"
proof -
  assume l: "length bs = 4"
  then obtain a b cs where "bs = a # b # cs" "length cs = 2"
    by (cases bs; cases "tl bs") auto
  then show ?thesis using length_2_cases [of cs] by auto
qed

lemma bytes16_le16: "length bs = 2 \<Longrightarrow> bytes16 (le16 bs) = bs"
  by (drule length_2_cases) (auto simp: le16_def bytes16_def bit_simps intro!: bit_word_eqI)

lemma bytes32_le32: "length bs = 4 \<Longrightarrow> bytes32 (le32 bs) = bs"
  by (drule length_4_cases) (auto simp: le32_def bytes32_def bit_simps intro!: bit_word_eqI)

lemma load_mem [simp]: "load16 be (mem16 be w) = w" "load32 be (mem32 be v) = v"
  by (simp_all add: load16_def mem16_def load32_def mem32_def)

lemma mem_load:
  "length bs = 2 \<Longrightarrow> mem16 be (load16 be bs) = bs"
  "length cs = 4 \<Longrightarrow> mem32 be (load32 be cs) = cs"
  by (simp_all add: load16_def mem16_def load32_def mem32_def bytes16_le16 bytes32_le32)

lemma to_little_endian_mem:
  "to_little_endian16 be w = le16 (mem16 be w)" "to_little_endian32 be v = le32 (mem32 be v)"
  by (simp_all add: to_little_endian16_def to_little_endian32_def le16_def le32_def Let_def)

text \<open>A field received from the wire decodes to its little-endian value whatever the host is.\<close>

lemma to_little_endian_wire [simp]:
  "length bs = 2 \<Longrightarrow> to_little_endian16 be (load16 be bs) = le16 bs"
  "length cs = 4 \<Longrightarrow> to_little_endian32 be (load32 be cs) = le32 cs"
  by (simp_all add: to_little_endian_mem mem_load)

section \<open>Sums of bytes\<close>

definition byte_sum :: "u8 list \<Rightarrow> u8" where
  "byte_sum bs = fold (\<lambda>b s. s + b) bs 0"

lemma fold_byte_sum: "fold (\<lambda>b s. s + b) bs s = s + sum_list bs" for s :: u8
  by (induction bs arbitrary: s) (simp_all add: add.assoc)

lemma byte_sum_sum_list: "byte_sum bs = sum_list bs"
  by (simp add: byte_sum_def fold_byte_sum)

text \<open>Changing one byte changes the sum.\<close>

lemma byte_sum_update:
  "i < length bs \<Longrightarrow> byte_sum (bs[i := b]) = byte_sum bs - bs ! i + b"
  unfolding byte_sum_sum_list
proof (induction bs arbitrary: i)
  case (Cons x xs)
  then show ?case by (cases i) (simp_all add: algebra_simps)
qed simp

lemma byte_sum_detects:
  "i < length bs \<Longrightarrow> byte_sum (bs[i := b]) = byte_sum bs \<longleftrightarrow> b = bs ! i"
  by (simp add: byte_sum_update)

end
