(* ===== verification/Osal.thy ===== *)
theory Osal
  imports Prelude
begin

text \<open>
  The operating system abstraction layer, \<^verbatim>\<open>src/src/osal/osal.c\<close>.

  The functions of this file call the C library and POSIX (\<^verbatim>\<open>malloc\<close>, \<^verbatim>\<open>pthread_mutex_init\<close>,
  \<^verbatim>\<open>timer_settime\<close>, \<^verbatim>\<open>clock_gettime\<close>, ...). What those calls answer is a parameter of the model:
  the state \<open>os\<close> carries one stream \<open>os_answers\<close> with the result of the \<open>n\<close>-th call that can fail,
  and one stream \<open>os_clock\<close> with the \<open>n\<close>-th reading of the monotonic clock. Every theorem holds
  for all streams. The rest of the state is what the layer's own calls establish: the blocks
  allocated and not yet freed, the mutexes locked, the settings of the timers, the threads created
  and not yet joined. Using a block that is not allocated sets \<open>os_ub\<close>; locking a mutex that the
  caller already holds sets \<open>os_stuck\<close>. Functions that take a pointer to a location
  (\<^verbatim>\<open>void** mutex\<close>) take the content of the location as an option, \<open>None\<close> for a null pointer, and
  return the new content.
\<close>

section \<open>State\<close>

record timespec =
  tv_sec :: u64
  tv_nsec :: u64

record itimerspec =
  it_value :: timespec
  it_interval :: timespec

record os =
  os_answers :: "nat \<Rightarrow> int"
  os_asked :: nat
  os_clock :: "nat \<Rightarrow> timespec"
  os_reads :: nat
  os_live :: "addr list"
  os_fresh :: addr
  os_held :: "addr list"
  os_timers :: "addr \<Rightarrow> itimerspec option"
  os_threads :: "addr list"
  os_stuck :: bool
  os_ub :: bool

text \<open>A well-formed state: live blocks are distinct and below the next fresh address.\<close>

definition os_wf :: "os \<Rightarrow> bool" where
  "os_wf s \<longleftrightarrow> distinct (os_live s) \<and> 0 < os_fresh s \<and> (\<forall>p\<in>set (os_live s). 0 < p \<and> p < os_fresh s)"

text \<open>The state of a process that starts.\<close>

definition boot_os :: "(nat \<Rightarrow> int) \<Rightarrow> (nat \<Rightarrow> timespec) \<Rightarrow> os" where
  "boot_os answers clock = \<lparr>os_answers = answers, os_asked = 0, os_clock = clock, os_reads = 0,
     os_live = [], os_fresh = 1, os_held = [], os_timers = (\<lambda>_. None), os_threads = [],
     os_stuck = False, os_ub = False\<rparr>"

lemma boot_os_wf [simp]: "os_wf (boot_os answers clock)"
  by (simp add: os_wf_def boot_os_def)

text \<open>The answer of the next system call that can fail.\<close>

definition ask :: "os \<Rightarrow> int \<times> os" where
  "ask s = (os_answers s (os_asked s), s\<lparr>os_asked := Suc (os_asked s)\<rparr>)"

section \<open>Memory\<close>

text \<open>A zero answer of the allocator is a null pointer.\<close>

definition osal_alloc :: "u64 \<Rightarrow> os \<Rightarrow> addr \<times> os" where
  "osal_alloc sz s =
    (let (r, s) = ask s
     in if r = 0 then (0, s)
        else (os_fresh s, s\<lparr>os_live := os_fresh s # os_live s, os_fresh := Suc (os_fresh s)\<rparr>))"

definition osal_dealloc :: "addr \<Rightarrow> os \<Rightarrow> os" where
  "osal_dealloc p s =
    (if p = 0 then s
     else if p \<in> set (os_live s) then s\<lparr>os_live := remove1 p (os_live s)\<rparr>
     else s\<lparr>os_ub := True\<rparr>)"

section \<open>Mutexes and condition variables\<close>

definition sizeof_pthread_object :: u64 where
  "sizeof_pthread_object = 48"

definition osal_mutex_init :: "addr option \<Rightarrow> os \<Rightarrow> eStatus \<times> addr option \<times> os" where
  "osal_mutex_init loc s =
    (case loc of
       None \<Rightarrow> (eSTATUS_NULL_PARAM, None, s)
     | Some _ \<Rightarrow>
        (let (m, s) = osal_alloc sizeof_pthread_object s
         in if m = 0 then (eSTATUS_SYSTEM_ERROR, Some m, s)
            else let (r, s) = ask s
                 in if r \<noteq> 0 then (eSTATUS_SYSTEM_ERROR, Some m, osal_dealloc m s)
                    else (eSTATUS_SUCCESSFUL, Some m, s)))"

definition osal_mutex_lock :: "addr \<Rightarrow> os \<Rightarrow> os" where
  "osal_mutex_lock m s =
    (if m \<notin> set (os_live s) then s\<lparr>os_ub := True\<rparr>
     else if m \<in> set (os_held s) then s\<lparr>os_stuck := True\<rparr>
     else s\<lparr>os_held := m # os_held s\<rparr>)"

definition osal_mutex_unlock :: "addr \<Rightarrow> os \<Rightarrow> os" where
  "osal_mutex_unlock m s =
    (if m \<notin> set (os_live s) then s\<lparr>os_ub := True\<rparr>
     else s\<lparr>os_held := remove1 m (os_held s)\<rparr>)"

definition osal_mutex_destroy :: "addr \<Rightarrow> os \<Rightarrow> os" where
  "osal_mutex_destroy m s = (if m \<noteq> 0 then osal_dealloc m s else s)"

definition osal_cond_init :: "addr option \<Rightarrow> os \<Rightarrow> eStatus \<times> addr option \<times> os" where
  "osal_cond_init loc s =
    (case loc of
       None \<Rightarrow> (eSTATUS_NULL_PARAM, None, s)
     | Some _ \<Rightarrow>
        (let (c, s) = osal_alloc sizeof_pthread_object s
         in if c = 0 then (eSTATUS_SYSTEM_ERROR, Some c, s)
            else let (r, s) = ask s
                 in if r \<noteq> 0 then (eSTATUS_SYSTEM_ERROR, Some c, osal_dealloc c s)
                    else (eSTATUS_SUCCESSFUL, Some c, s)))"

definition osal_cond_signal :: "addr \<Rightarrow> os \<Rightarrow> os" where
  "osal_cond_signal c s = (if c \<notin> set (os_live s) then s\<lparr>os_ub := True\<rparr> else s)"

definition osal_cond_destroy :: "addr \<Rightarrow> os \<Rightarrow> os" where
  "osal_cond_destroy c s = (if c \<noteq> 0 then osal_dealloc c s else s)"

section \<open>Threads\<close>

text \<open>The entry function is a function pointer, \<open>None\<close> for null.\<close>

definition osal_thread_create ::
    "addr option \<Rightarrow> 'entry option \<Rightarrow> os \<Rightarrow> eStatus \<times> addr option \<times> os" where
  "osal_thread_create loc entry_func s =
    (if loc = None \<or> entry_func = None then (eSTATUS_NULL_PARAM, loc, s)
     else let (t, s) = osal_alloc 8 s
          in if t = 0 then (eSTATUS_SYSTEM_ERROR, Some t, s)
             else let (r, s) = ask s
                  in if r \<noteq> 0 then (eSTATUS_SYSTEM_ERROR, Some t, osal_dealloc t s)
                     else (eSTATUS_SUCCESSFUL, Some t, s\<lparr>os_threads := t # os_threads s\<rparr>))"

definition osal_thread_join :: "addr \<Rightarrow> os \<Rightarrow> os" where
  "osal_thread_join t s =
    (if t \<noteq> 0 then osal_dealloc t (s\<lparr>os_threads := remove1 t (os_threads s)\<rparr>) else s)"

section \<open>Clock and delays\<close>

definition monotonic_ns :: "os \<Rightarrow> u64 \<times> os" where
  "monotonic_ns s =
    (let ts = os_clock s (os_reads s)
     in (tv_sec ts * 1000000000 + tv_nsec ts, s\<lparr>os_reads := Suc (os_reads s)\<rparr>))"

text \<open>The busy-wait loop; \<open>None\<close> if the clock never passes the end of the delay.\<close>

partial_function (option) delay_loop :: "u64 \<Rightarrow> u64 \<Rightarrow> os \<Rightarrow> os option" where
  "delay_loop start duration s =
    (let (t, s') = monotonic_ns s
     in if t - start < duration then delay_loop start duration s' else Some s')"

definition osal_delay_us :: "u64 \<Rightarrow> os \<Rightarrow> os option" where
  "osal_delay_us us s = (let (start, s) = monotonic_ns s in delay_loop start (us * 1000) s)"

definition osal_delay_ms :: "u64 \<Rightarrow> os \<Rightarrow> os option" where
  "osal_delay_ms ms s = osal_delay_us (ms * 1000) s"

section \<open>Timers\<close>

definition eTIMER_TYPE_ONCE :: u32 where "eTIMER_TYPE_ONCE = 0"
definition eTIMER_TYPE_REPEAT :: u32 where "eTIMER_TYPE_REPEAT = 1"

definition timespec_set_ms :: "u64 \<Rightarrow> timespec" where
  "timespec_set_ms ms = \<lparr>tv_sec = ms div 1000, tv_nsec = (ms mod 1000) * 1000000\<rparr>"

definition zero_timespec :: timespec where
  "zero_timespec = \<lparr>tv_sec = 0, tv_nsec = 0\<rparr>"

text \<open>
  A \<^verbatim>\<open>TimerArg\<close>: the handler (a function pointer, possibly null) and its argument. A created timer
  is disarmed.
\<close>

record ('h, 'a) TimerArg =
  handler :: "'h option"
  handler_arg :: 'a

definition osal_timer_init ::
    "addr option \<Rightarrow> ('h, 'a) TimerArg option \<Rightarrow> os \<Rightarrow> eStatus \<times> addr option \<times> os" where
  "osal_timer_init loc timer_arg s =
    (if loc = None \<or> timer_arg = None \<or> handler (the timer_arg) = None
     then (eSTATUS_NULL_PARAM, loc, s)
     else let (t, s) = osal_alloc 8 s
          in if t = 0 then (eSTATUS_SYSTEM_ERROR, Some t, s)
             else let (r, s) = ask s
                  in if r = -1 then (eSTATUS_SYSTEM_ERROR, Some t, osal_dealloc t s)
                     else (eSTATUS_SUCCESSFUL, Some t,
                           s\<lparr>os_timers := (os_timers s)(t \<mapsto>
                               \<lparr>it_value = zero_timespec, it_interval = zero_timespec\<rparr>)\<rparr>))"

definition osal_timer_arm :: "addr \<Rightarrow> u64 \<Rightarrow> u32 \<Rightarrow> os \<Rightarrow> eStatus \<times> os" where
  "osal_timer_arm timer ms ty s =
    (if timer = 0 then (eSTATUS_NULL_PARAM, s)
     else if ty \<noteq> eTIMER_TYPE_REPEAT \<and> ty \<noteq> eTIMER_TYPE_ONCE then (eSTATUS_INVALID_VALUE, s)
     else let its = \<lparr>it_value = timespec_set_ms ms,
                     it_interval = (if ty = eTIMER_TYPE_REPEAT then timespec_set_ms ms
                                    else zero_timespec)\<rparr>;
              (r, s) = ask s
          in if r = -1 then (eSTATUS_SYSTEM_ERROR, s)
             else if os_timers s timer = None then (eSTATUS_SUCCESSFUL, s\<lparr>os_ub := True\<rparr>)
             else (eSTATUS_SUCCESSFUL, s\<lparr>os_timers := (os_timers s)(timer \<mapsto> its)\<rparr>))"

definition osal_timer_disarm :: "addr \<Rightarrow> os \<Rightarrow> eStatus \<times> os" where
  "osal_timer_disarm timer s = osal_timer_arm timer 0 eTIMER_TYPE_REPEAT s"

definition osal_timer_destroy :: "addr \<Rightarrow> os \<Rightarrow> os" where
  "osal_timer_destroy timer s =
    (if timer \<noteq> 0 then osal_dealloc timer (s\<lparr>os_timers := (os_timers s)(timer := None)\<rparr>) else s)"

text \<open>A timer that is running: its time to the next expiration is not zero.\<close>

definition timer_running :: "addr \<Rightarrow> os \<Rightarrow> bool" where
  "timer_running timer s \<longleftrightarrow>
    (case os_timers s timer of None \<Rightarrow> False | Some its \<Rightarrow> it_value its \<noteq> zero_timespec)"

section \<open>Facts about memory\<close>

lemmas osal_defs [hal_defs] =
  ask_def osal_alloc_def osal_dealloc_def osal_mutex_init_def osal_mutex_lock_def
  osal_mutex_unlock_def osal_mutex_destroy_def osal_cond_init_def osal_cond_signal_def
  osal_cond_destroy_def osal_thread_create_def osal_thread_join_def osal_timer_init_def
  osal_timer_arm_def osal_timer_disarm_def osal_timer_destroy_def

lemma osal_alloc_result:
  assumes "osal_alloc sz s = (p, s')" and "os_wf s"
  shows "os_wf s'"
    and "p = 0 \<Longrightarrow> os_live s' = os_live s"
    and "p \<noteq> 0 \<Longrightarrow> os_live s' = p # os_live s \<and> p \<notin> set (os_live s)"
    and "os_ub s' = os_ub s" and "os_held s' = os_held s" and "os_stuck s' = os_stuck s"
    and "os_threads s' = os_threads s" and "os_timers s' = os_timers s"
  using assms
  by (auto simp: osal_alloc_def ask_def os_wf_def Let_def less_Suc_eq split: if_splits)

lemma os_wf_fresh:
  assumes "os_wf s"
  shows "os_fresh s \<notin> set (os_live s)" "Suc (os_fresh s) \<notin> set (os_live s)"
    "Suc (Suc (os_fresh s)) \<notin> set (os_live s)"
  using assms by (fastforce simp: os_wf_def)+

lemma osal_dealloc_live:
  "p \<in> set (os_live s) \<Longrightarrow> p \<noteq> 0 \<Longrightarrow> osal_dealloc p s = s\<lparr>os_live := remove1 p (os_live s)\<rparr>"
  by (simp add: osal_dealloc_def)

lemma os_wf_remove1: "os_wf s \<Longrightarrow> os_wf (s\<lparr>os_live := remove1 p (os_live s)\<rparr>)"
  by (auto simp: os_wf_def dest: notin_set_remove1)

lemma os_wf_ask: "os_wf (s\<lparr>os_asked := n\<rparr>) = os_wf s"
  by (simp add: os_wf_def)

lemma os_wf_live_nonzero: "os_wf s \<Longrightarrow> p \<in> set (os_live s) \<Longrightarrow> 0 < p"
  by (auto simp: os_wf_def)

text \<open>
  Creating a mutex, a condition variable or a thread either succeeds and owns exactly one new
  block, or fails and owns none: the error paths of the layer do not leak.
\<close>

definition creates_one_block :: "os \<Rightarrow> eStatus \<times> addr option \<times> os \<Rightarrow> bool" where
  "creates_one_block s r \<longleftrightarrow>
    (case r of (st, loc, s') \<Rightarrow>
       os_wf s' \<and> os_ub s' = os_ub s \<and> os_held s' = os_held s \<and> os_stuck s' = os_stuck s \<and>
       (if st = eSTATUS_SUCCESSFUL
        then (\<exists>p. loc = Some p \<and> p \<noteq> 0 \<and> p \<notin> set (os_live s) \<and> os_live s' = p # os_live s)
        else st = eSTATUS_SYSTEM_ERROR \<and> os_live s' = os_live s))"

lemma osal_mutex_init_creates: "os_wf s \<Longrightarrow> creates_one_block s (osal_mutex_init (Some l) s)"
  by (auto simp: creates_one_block_def osal_defs os_wf_def Let_def)

lemma osal_cond_init_creates: "os_wf s \<Longrightarrow> creates_one_block s (osal_cond_init (Some l) s)"
  by (auto simp: creates_one_block_def osal_defs os_wf_def Let_def)

lemma osal_thread_create_creates:
  "os_wf s \<Longrightarrow> creates_one_block s (osal_thread_create (Some l) (Some e) s)"
  by (auto simp: creates_one_block_def osal_defs os_wf_def Let_def)

lemma osal_timer_init_creates:
  "os_wf s \<Longrightarrow> handler ta \<noteq> None \<Longrightarrow> creates_one_block s (osal_timer_init (Some l) (Some ta) s)"
  by (auto simp: creates_one_block_def osal_defs os_wf_def Let_def)

section \<open>Facts about the clock\<close>

definition clock_ns :: "os \<Rightarrow> nat \<Rightarrow> u64" where
  "clock_ns s n = tv_sec (os_clock s n) * 1000000000 + tv_nsec (os_clock s n)"

lemma monotonic_ns_eq:
  "monotonic_ns s = (clock_ns s (os_reads s), s\<lparr>os_reads := Suc (os_reads s)\<rparr>)"
  by (simp add: monotonic_ns_def clock_ns_def Let_def)

lemma delay_loop_sound:
  assumes "delay_loop start duration s = Some s'"
  shows "\<exists>n\<ge>os_reads s. duration \<le> clock_ns s n - start \<and> s' = s\<lparr>os_reads := Suc n\<rparr>"
proof (rule delay_loop.raw_induct [OF _ assms, where P = "\<lambda>start duration s s'.
    \<exists>n\<ge>os_reads s. duration \<le> clock_ns s n - start \<and> s' = s\<lparr>os_reads := Suc n\<rparr>"])
  fix f start duration s s'
  assume IH: "\<And>start duration s s'. f start duration s = Some s' \<Longrightarrow>
      \<exists>n\<ge>os_reads s. duration \<le> clock_ns s n - start \<and> s' = s\<lparr>os_reads := Suc n\<rparr>"
    and eq: "(let (t, s') = monotonic_ns s
              in if t - start < duration then f start duration s' else Some s') = Some s'"
  show "\<exists>n\<ge>os_reads s. duration \<le> clock_ns s n - start \<and> s' = s\<lparr>os_reads := Suc n\<rparr>"
  proof (cases "clock_ns s (os_reads s) - start < duration")
    case True
    with eq have "f start duration (s\<lparr>os_reads := Suc (os_reads s)\<rparr>) = Some s'"
      by (simp add: monotonic_ns_eq)
    from IH [OF this] obtain n where "n \<ge> Suc (os_reads s)"
      "duration \<le> clock_ns s n - start" "s' = s\<lparr>os_reads := Suc n\<rparr>"
      by (auto simp: clock_ns_def)
    then show ?thesis by (intro exI [of _ n]) simp
  next
    case False
    with eq show ?thesis
      by (intro exI [of _ "os_reads s"]) (simp add: monotonic_ns_eq not_less)
  qed
qed

lemma delay_loop_complete:
  assumes "os_reads s \<le> n" and "duration \<le> clock_ns s n - start"
  shows "\<exists>s'. delay_loop start duration s = Some s'"
  using assms
proof (induction "n - os_reads s" arbitrary: s)
  case 0
  then have "n = os_reads s" by simp
  with 0 show ?case
    by (subst delay_loop.simps) (simp add: monotonic_ns_eq not_less [symmetric])
next
  case (Suc k)
  let ?s = "s\<lparr>os_reads := Suc (os_reads s)\<rparr>"
  have "\<exists>s'. delay_loop start duration ?s = Some s'"
    using Suc.prems Suc.hyps(2) by (intro Suc.hyps(1)) (auto simp: clock_ns_def)
  then show ?case
    by (subst delay_loop.simps) (auto simp: monotonic_ns_eq)
qed

lemma osal_delay_us_returns_iff:
  "(\<exists>s'. osal_delay_us us s = Some s') \<longleftrightarrow>
    (\<exists>n>os_reads s. us * 1000 \<le> clock_ns s n - clock_ns s (os_reads s))"
proof -
  let ?s = "s\<lparr>os_reads := Suc (os_reads s)\<rparr>"
  have eq: "osal_delay_us us s = delay_loop (clock_ns s (os_reads s)) (us * 1000) ?s"
    by (simp add: osal_delay_us_def monotonic_ns_eq)
  have clk: "clock_ns ?s = clock_ns s" by (simp add: clock_ns_def fun_eq_iff)
  show ?thesis
    unfolding eq
    using delay_loop_sound [of "clock_ns s (os_reads s)" "us * 1000" ?s]
      delay_loop_complete [of ?s _ "us * 1000" "clock_ns s (os_reads s)"]
    unfolding clk by (fastforce simp: Suc_le_eq)
qed

section \<open>Facts about timers\<close>

lemma timespec_set_ms_value:
  "unat (tv_sec (timespec_set_ms ms)) * 10 ^ 9 + unat (tv_nsec (timespec_set_ms ms))
      = unat ms * 10 ^ 6 \<and>
   unat (tv_nsec (timespec_set_ms ms)) < 10 ^ 9"
proof -
  have lt: "unat (ms mod 1000) < 1000" by (simp add: unat_mod)
  have "unat ((ms mod 1000) * 1000000) = unat (ms mod 1000) * 1000000"
    using lt by (subst unat_mult_lem [THEN iffD1]) auto
  moreover have "unat (ms div 1000) * 1000 + unat (ms mod 1000) = unat ms"
    by (simp add: unat_div unat_mod)
  ultimately show ?thesis
    using lt by (simp add: timespec_set_ms_def)
qed

lemma timespec_set_ms_eq_zero: "timespec_set_ms ms = zero_timespec \<longleftrightarrow> ms = 0"
proof
  assume "timespec_set_ms ms = zero_timespec"
  with timespec_set_ms_value [of ms] have "unat ms * 10 ^ 6 = 0"
    by (simp add: zero_timespec_def)
  then show "ms = 0" by (simp add: unat_eq_0)
qed (simp add: timespec_set_ms_def zero_timespec_def)

text \<open>
  Arming a created timer starts it exactly when the interval is not zero, and disarming it stops it
  (the implementation disarms by arming with a zero interval).
\<close>

lemma osal_timer_arm_running:
  assumes "osal_timer_arm timer ms ty s = (eSTATUS_SUCCESSFUL, s')" and "os_timers s timer \<noteq> None"
  shows "timer_running timer s' \<longleftrightarrow> ms \<noteq> 0"
  using assms
  by (auto simp: osal_timer_arm_def timer_running_def ask_def Let_def timespec_set_ms_eq_zero
      split: if_splits)

lemma osal_timer_disarm_stops:
  assumes "osal_timer_disarm timer s = (eSTATUS_SUCCESSFUL, s')" and "os_timers s timer \<noteq> None"
  shows "\<not> timer_running timer s'"
  using osal_timer_arm_running [of timer 0 _ s s'] assms by (simp add: osal_timer_disarm_def)

text \<open>Arming keeps every other part of the state.\<close>

lemma osal_timer_arm_frame:
  assumes "osal_timer_arm timer ms ty s = (st, s')"
  shows "os_live s' = os_live s" "os_held s' = os_held s" "os_stuck s' = os_stuck s"
    "os_threads s' = os_threads s" "os_fresh s' = os_fresh s"
    "os_timers s timer \<noteq> None \<Longrightarrow> os_ub s' = os_ub s"
    "t \<noteq> timer \<Longrightarrow> os_timers s' t = os_timers s t"
  using assms by (auto simp: osal_timer_arm_def ask_def Let_def split: if_splits)

section \<open>Properties\<close>

text \<open>The first reading from \<open>m\<close> on at which the time elapsed since \<open>start\<close> reaches the duration ends
  the busy-wait loop.\<close>

lemma delay_loop_first:
  assumes "os_reads s \<le> n" and "duration \<le> clock_ns s n - start"
    and "list_all (\<lambda>k. clock_ns s k - start < duration) [os_reads s..<n]"
  shows "delay_loop start duration s = Some (s\<lparr>os_reads := Suc n\<rparr>)"
  using assms
proof (induction "n - os_reads s" arbitrary: s)
  case 0
  then have "n = os_reads s" by simp
  with 0 show ?case
    by (subst delay_loop.simps) (simp add: monotonic_ns_eq leD)
next
  case (Suc k)
  let ?s = "s\<lparr>os_reads := Suc (os_reads s)\<rparr>"
  have lt: "os_reads s < n" using Suc.hyps(2) by simp
  then have u: "[os_reads s..<n] = os_reads s # [Suc (os_reads s)..<n]"
    by (simp add: upt_conv_Cons)
  have "delay_loop start duration ?s = Some (?s\<lparr>os_reads := Suc n\<rparr>)"
    using Suc.prems Suc.hyps(2) lt by (intro Suc.hyps(1)) (auto simp: clock_ns_def u)
  moreover have "clock_ns s (os_reads s) - start < duration" using Suc.prems(3) by (simp add: u)
  ultimately show ?case by (subst delay_loop.simps) (simp add: monotonic_ns_eq)
qed

text \<open>The delay ends, and not early: if the \<open>n\<close>-th reading of the clock is the first one that is at
  least the delay (in nanoseconds, modulo 2 to the 64) after the reading taken on entry, the call
  returns right after it, having done nothing but read the clock; if no reading is, it never
  returns.\<close>

lemma osal_delay_us_waits:
  assumes "os_reads s < n" and "us * 1000 \<le> clock_ns s n - clock_ns s (os_reads s)"
    and "list_all (\<lambda>k. clock_ns s k - clock_ns s (os_reads s) < us * 1000) [Suc (os_reads s)..<n]"
  shows "osal_delay_us us s = Some (s\<lparr>os_reads := Suc n\<rparr>) \<and>
    (osal_delay_us us s' = None \<longleftrightarrow>
      (\<forall>m>os_reads s'. clock_ns s' m - clock_ns s' (os_reads s') < us * 1000))"
proof
  let ?s = "s\<lparr>os_reads := Suc (os_reads s)\<rparr>"
  have clk: "clock_ns ?s = clock_ns s" by (simp add: clock_ns_def fun_eq_iff)
  have "delay_loop (clock_ns s (os_reads s)) (us * 1000) ?s = Some (?s\<lparr>os_reads := Suc n\<rparr>)"
    by (rule delay_loop_first) (use assms in \<open>simp_all add: clk\<close>)
  then show "osal_delay_us us s = Some (s\<lparr>os_reads := Suc n\<rparr>)"
    by (simp add: osal_delay_us_def monotonic_ns_eq)
  show "osal_delay_us us s' = None \<longleftrightarrow>
      (\<forall>m>os_reads s'. clock_ns s' m - clock_ns s' (os_reads s') < us * 1000)"
    using osal_delay_us_returns_iff [of us s'] by (cases "osal_delay_us us s'") (auto simp: not_le)
qed

text \<open>A clock that advances by one microsecond per reading.\<close>

definition us_clock :: "nat \<Rightarrow> timespec" where
  "us_clock n = \<lparr>tv_sec = 0, tv_nsec = of_nat (1000 * n)\<rparr>"

lemma osal_delay_us_waits_witness:
  "osal_delay_us 2 (boot_os (\<lambda>_. 0) us_clock) = Some ((boot_os (\<lambda>_. 0) us_clock)\<lparr>os_reads := 3\<rparr>)"
  using osal_delay_us_waits [of "boot_os (\<lambda>_. 0) us_clock" 2 2 "boot_os (\<lambda>_. 0) us_clock"]
  by (simp add: boot_os_def clock_ns_def us_clock_def upt_rec)

text \<open>Timers: arming a created timer for a number of milliseconds sets exactly that interval, as
  seconds and a count of nanoseconds below one second, once or periodically as asked, so the timer
  runs unless the number is zero; disarming stops it; and neither touches another timer.\<close>

lemma osal_timer_arms:
  assumes "os_timers s timer \<noteq> None" and "osal_timer_arm timer ms ty s = (eSTATUS_SUCCESSFUL, s')"
  shows "(\<exists>its. os_timers s' timer = Some its \<and>
      unat (tv_sec (it_value its)) * 10 ^ 9 + unat (tv_nsec (it_value its)) = unat ms * 10 ^ 6 \<and>
      unat (tv_nsec (it_value its)) < 10 ^ 9 \<and>
      it_interval its = (if ty = eTIMER_TYPE_REPEAT then it_value its else zero_timespec)) \<and>
    (timer_running timer s' \<longleftrightarrow> ms \<noteq> 0) \<and>
    \<not> (fst (osal_timer_disarm timer s') = eSTATUS_SUCCESSFUL \<and>
        timer_running timer (snd (osal_timer_disarm timer s'))) \<and>
    (t = timer \<or> os_timers (snd (osal_timer_disarm timer s')) t = os_timers s t)"
proof -
  have set: "os_timers s' timer = Some \<lparr>it_value = timespec_set_ms ms,
      it_interval = (if ty = eTIMER_TYPE_REPEAT then timespec_set_ms ms else zero_timespec)\<rparr>"
    using assms by (auto simp: osal_timer_arm_def ask_def Let_def split: if_splits)
  obtain st s2 where d: "osal_timer_disarm timer s' = (st, s2)" by (cases "osal_timer_disarm timer s'")
  have dis: "st \<noteq> eSTATUS_SUCCESSFUL \<or> \<not> timer_running timer s2"
    using osal_timer_disarm_stops [of timer s' s2] set d by auto
  have other: "t = timer \<or> os_timers s2 t = os_timers s t"
    using osal_timer_arm_frame(7) [OF assms(2), of t]
      osal_timer_arm_frame(7) [OF d [unfolded osal_timer_disarm_def], of t] by auto
  show ?thesis
    using set dis other timespec_set_ms_value [of ms] osal_timer_arm_running [OF assms(2,1)]
    by (simp add: d)
qed

lemma osal_timer_arms_witness:
  "\<exists>s' its. osal_timer_arm 1 2500 eTIMER_TYPE_REPEAT
        ((boot_os (\<lambda>_. 0) us_clock)\<lparr>os_timers := [1 \<mapsto> \<lparr>it_value = zero_timespec,
            it_interval = zero_timespec\<rparr>]\<rparr>) = (eSTATUS_SUCCESSFUL, s') \<and>
     os_timers s' 1 = Some its \<and> it_interval its = it_value its \<and> timer_running 1 s'"
proof -
  let ?s = "(boot_os (\<lambda>_. 0) us_clock)\<lparr>os_timers := [1 \<mapsto> \<lparr>it_value = zero_timespec,
            it_interval = zero_timespec\<rparr>]\<rparr>"
  obtain s' where a: "osal_timer_arm 1 2500 eTIMER_TYPE_REPEAT ?s = (eSTATUS_SUCCESSFUL, s')"
    by (simp add: osal_timer_arm_def ask_def Let_def boot_os_def)
  have "os_timers ?s 1 \<noteq> None" by simp
  from osal_timer_arms [OF this a, of 0] a show ?thesis by auto
qed

text \<open>Creating a mutex, a condition variable, a thread or a timer either succeeds and owns exactly
  one new block of memory, or reports a system error and owns none: whatever the C library answers,
  these error paths leak nothing and no call uses memory that is not allocated.\<close>

lemma osal_creation_balanced:
  assumes "os_wf s" and "handler ta \<noteq> None"
  shows "creates_one_block s (osal_mutex_init (Some l) s) \<and>
    creates_one_block s (osal_cond_init (Some l) s) \<and>
    creates_one_block s (osal_thread_create (Some l) (Some e) s) \<and>
    creates_one_block s (osal_timer_init (Some l) (Some ta) s)"
  using assms by (intro conjI osal_mutex_init_creates osal_cond_init_creates
      osal_thread_create_creates osal_timer_init_creates)

lemma osal_creation_balanced_witness:
  "creates_one_block (boot_os (\<lambda>n. int (n mod 2)) us_clock)
     (osal_timer_init (Some 0) (Some \<lparr>handler = Some (), handler_arg = ()\<rparr>)
       (boot_os (\<lambda>n. int (n mod 2)) us_clock))"
proof -
  have "handler \<lparr>handler = Some (), handler_arg = ()\<rparr> \<noteq> None" by simp
  note c = osal_creation_balanced [OF boot_os_wf this, where l = 0 and e = "()"]
  show ?thesis by (rule c [THEN conjunct2, THEN conjunct2, THEN conjunct2])
qed

end
