(* ===== verification/HalUart.thy ===== *)
theory HalUart
  imports Osal
begin

text \<open>
  The UART driver, \<^verbatim>\<open>src/src/hal/uart/hal_uart.c\<close>: asynchronous reads and writes on serial devices
  through io_uring, with a table of operation slots per device and a completion thread.

  The kernel and liburing are parameters: whether a submission entry is available and how many
  entries a submission takes are answers of the operating system state, the user data that a fresh
  entry carries before it is set is the stream \<open>ring_stale\<close>, and which submitted operation completes
  with which result is an argument of the completion step. Assumed of liburing: the \<open>prep\<close> calls do
  not write the user data of an entry, a failing submission leaves the entries queued, and a
  submission that returns \<open>n\<close> took the first \<open>n\<close> of them. The type \<open>'cb\<close> stands for the callback
  function pointers; the argument of a callback is the number of the active object it points to.
\<close>

section \<open>Configuration\<close>

definition eSINGLE_STOP_BIT :: u16 where "eSINGLE_STOP_BIT = 0"
definition eDOUBLE_STOP_BIT :: u16 where "eDOUBLE_STOP_BIT = 1"
definition eNO_PARITY_BIT :: u16 where "eNO_PARITY_BIT = 0"
definition eODD_PARITY_BIT :: u16 where "eODD_PARITY_BIT = 1"
definition eEVEN_PARITY_BIT :: u16 where "eEVEN_PARITY_BIT = 2"

definition eBAUD9600 :: u32 where "eBAUD9600 = 13"
definition e8BITS_PER_BYTE :: u32 where "e8BITS_PER_BYTE = 3"

definition eUART0_DEVICE :: u32 where "eUART0_DEVICE = 0"
definition eUART1_DEVICE :: u32 where "eUART1_DEVICE = 1"
definition eUART2_DEVICE :: u32 where "eUART2_DEVICE = 2"
definition eUART_DEVICE_COUNT :: u32 where "eUART_DEVICE_COUNT = 3"
definition eUART_MAX_QUEUED_OPERATIONS :: nat where "eUART_MAX_QUEUED_OPERATIONS = 4"

lemmas uart_codes = eSINGLE_STOP_BIT_def eDOUBLE_STOP_BIT_def eNO_PARITY_BIT_def eODD_PARITY_BIT_def
  eEVEN_PARITY_BIT_def eBAUD9600_def e8BITS_PER_BYTE_def eUART0_DEVICE_def eUART1_DEVICE_def
  eUART2_DEVICE_def eUART_DEVICE_COUNT_def eUART_MAX_QUEUED_OPERATIONS_def

text \<open>The flags of \<^verbatim>\<open>termios.h\<close> on Linux.\<close>

definition CSTOPB :: u32 where "CSTOPB = 0x40"
definition CREAD :: u32 where "CREAD = 0x80"
definition PARENB :: u32 where "PARENB = 0x100"
definition PARODD :: u32 where "PARODD = 0x200"
definition CLOCAL :: u32 where "CLOCAL = 0x800"
definition IGNPAR :: u32 where "IGNPAR = 0x4"
definition INPCK :: u32 where "INPCK = 0x10"
definition CSIZE :: u32 where "CSIZE = 0x30"

lemmas termios_flags = CSTOPB_def CREAD_def PARENB_def PARODD_def CLOCAL_def IGNPAR_def INPCK_def
  CSIZE_def

definition word_size_options :: "u32 list" where
  "word_size_options = [0x00, 0x10, 0x20, 0x30]"

definition baud_options :: "u32 list" where
  "baud_options = [0, 1, 2, 3, 4, 5, 6, 7, 8, 9, 10, 11, 12, 13, 14, 15,
     0x1001, 0x1002, 0x1003, 0x1004]"

section \<open>State\<close>

record 'cb OpSlot =
  slot_callback :: "'cb option"
  slot_arg :: "u32 option"
  slot_used :: bool

record 'cb UARTDevice =
  dev_path :: string
  dev_fd :: int
  dev_baud :: u32
  dev_word_size :: u32
  dev_stop_bits :: u16
  dev_parity :: u16
  dev_slots :: "'cb OpSlot list"

record termios =
  c_iflag :: u32
  c_cflag :: u32
  c_vmin :: u8
  c_vtime :: u8
  c_speed :: u32

text \<open>
  A buffer is null, the bytes to transmit, or the address of a receive buffer. The user data of a
  submission entry is null or a pointer to a slot: device and index.
\<close>

datatype uart_buffer = NullBuffer | TxBuffer "u8 list" | RxBuffer addr

datatype sqe_op =
    OpRead int uart_buffer u32
  | OpWrite int uart_buffer u32
  | OpCancelFd int
  | OpNop

record sqe =
  sqe_data :: "(nat \<times> nat) option"
  sqe_op :: sqe_op

record 'cb uart =
  uart_devices :: "'cb UARTDevice list"
  uart_held :: bool
  uart_stuck :: bool
  uart_running :: bool
  uart_thread :: bool
  ring_stale :: "nat \<Rightarrow> (nat \<times> nat) option"
  ring_taken :: nat
  ring_queued :: "sqe list"
  ring_in_flight :: "sqe list"
  ring_live :: bool
  uart_open_fds :: "int list"
  uart_settings :: "int \<Rightarrow> termios option"

definition empty_slot :: "'cb OpSlot" where
  "empty_slot = \<lparr>slot_callback = None, slot_arg = None, slot_used = False\<rparr>"

definition static_uart_device :: "string \<Rightarrow> 'cb UARTDevice" where
  "static_uart_device path = \<lparr>dev_path = path, dev_fd = -1, dev_baud = eBAUD9600,
     dev_word_size = e8BITS_PER_BYTE, dev_stop_bits = eSINGLE_STOP_BIT,
     dev_parity = eNO_PARITY_BIT,
     dev_slots = replicate eUART_MAX_QUEUED_OPERATIONS empty_slot\<rparr>"

definition static_uart :: "(nat \<Rightarrow> (nat \<times> nat) option) \<Rightarrow> 'cb uart" where
  "static_uart stale = \<lparr>uart_devices = [static_uart_device ''/dev/ttyAMA0'',
       static_uart_device ''/dev/ttyAMA1'', static_uart_device ''/dev/ttyAMA2''],
     uart_held = False, uart_stuck = False, uart_running = False, uart_thread = False,
     ring_stale = stale, ring_taken = 0, ring_queued = [], ring_in_flight = [], ring_live = False,
     uart_open_fds = [], uart_settings = (\<lambda>_. None)\<rparr>"

text \<open>The mutex is not recursive: locking it twice on one thread never returns.\<close>

definition uart_lock :: "'cb uart \<Rightarrow> 'cb uart" where
  "uart_lock u = (if uart_held u then u\<lparr>uart_stuck := True\<rparr> else u\<lparr>uart_held := True\<rparr>)"

definition uart_unlock :: "'cb uart \<Rightarrow> 'cb uart" where
  "uart_unlock u = u\<lparr>uart_held := False\<rparr>"

section \<open>Slots\<close>

definition set_slot :: "nat \<Rightarrow> nat \<Rightarrow> ('cb OpSlot \<Rightarrow> 'cb OpSlot) \<Rightarrow> 'cb uart \<Rightarrow> 'cb uart" where
  "set_slot d i g u = u\<lparr>uart_devices := (uart_devices u)[d :=
     (uart_devices u ! d)\<lparr>dev_slots := (dev_slots (uart_devices u ! d))[i :=
        g (dev_slots (uart_devices u ! d) ! i)]\<rparr>]\<rparr>"

definition allocate_slot :: "nat \<Rightarrow> 'cb uart \<Rightarrow> nat option \<times> 'cb uart" where
  "allocate_slot d u =
    (case first_index (\<lambda>x. \<not> slot_used x) (dev_slots (uart_devices u ! d)) of
       None \<Rightarrow> (None, u)
     | Some i \<Rightarrow> (Some i, set_slot d i (slot_used_update (\<lambda>_. True)) u))"

definition free_slot :: "nat \<Rightarrow> nat \<Rightarrow> 'cb uart \<Rightarrow> 'cb uart" where
  "free_slot d i u = set_slot d i (slot_used_update (\<lambda>_. False)) u"

section \<open>The ring\<close>

text \<open>A zero answer: the submission queue is full.\<close>

definition io_uring_get_sqe :: "'cb uart \<Rightarrow> os \<Rightarrow> sqe option \<times> 'cb uart \<times> os" where
  "io_uring_get_sqe u s =
    (let (r, s) = ask s
     in if r = 0 then (None, u, s)
        else (Some \<lparr>sqe_data = ring_stale u (ring_taken u), sqe_op = OpNop\<rparr>,
              u\<lparr>ring_taken := Suc (ring_taken u)\<rparr>, s))"

text \<open>The entry that was filled in becomes the last of the queue.\<close>

definition ring_put :: "sqe \<Rightarrow> 'cb uart \<Rightarrow> 'cb uart" where
  "ring_put e u = u\<lparr>ring_queued := ring_queued u @ [e]\<rparr>"

definition io_uring_submit :: "'cb uart \<Rightarrow> os \<Rightarrow> int \<times> 'cb uart \<times> os" where
  "io_uring_submit u s =
    (let (r, s) = ask s
     in if r < 0 then (r, u, s)
        else (r, u\<lparr>ring_in_flight := ring_in_flight u @ take (nat r) (ring_queued u),
                  ring_queued := drop (nat r) (ring_queued u)\<rparr>, s))"

section \<open>Operations\<close>

text \<open>The termios settings \<^verbatim>\<open>hal_uart_init\<close> computes for a device.\<close>

definition uart_termios :: "'cb UARTDevice \<Rightarrow> termios" where
  "uart_termios dev =
    (let t = \<lparr>c_iflag = 0, c_cflag = CLOCAL OR CREAD, c_vmin = 0, c_vtime = 0, c_speed = 0\<rparr>;
         t = t\<lparr>c_cflag := c_cflag t OR word_size_options ! unat (dev_word_size dev)\<rparr>;
         t = (if dev_stop_bits dev = eSINGLE_STOP_BIT
              then t\<lparr>c_cflag := c_cflag t AND NOT CSTOPB\<rparr>
              else t\<lparr>c_cflag := c_cflag t OR CSTOPB\<rparr>);
         t = (if dev_parity dev = eNO_PARITY_BIT
              then (let t = t\<lparr>c_cflag := c_cflag t AND NOT PARENB\<rparr>
                    in t\<lparr>c_iflag := c_iflag t AND NOT INPCK\<rparr>)
              else (let t = t\<lparr>c_cflag := c_cflag t OR PARENB\<rparr>;
                        t = (if dev_parity dev = eEVEN_PARITY_BIT
                             then t\<lparr>c_cflag := c_cflag t AND NOT PARODD\<rparr>
                             else t\<lparr>c_cflag := c_cflag t OR PARODD\<rparr>);
                        t = t\<lparr>c_iflag := c_iflag t OR INPCK\<rparr>
                    in t\<lparr>c_iflag := c_iflag t OR IGNPAR\<rparr>))
     in t\<lparr>c_vmin := 1, c_vtime := 1\<rparr>)"

definition uart_close :: "int \<Rightarrow> 'cb uart \<Rightarrow> 'cb uart" where
  "uart_close fd u = u\<lparr>uart_open_fds := remove1 fd (uart_open_fds u)\<rparr>"

text \<open>The body of the loop of \<^verbatim>\<open>hal_uart_init\<close> for one device.\<close>

definition uart_setup_device :: "nat \<Rightarrow> 'cb uart \<Rightarrow> os \<Rightarrow> eStatus \<times> 'cb uart \<times> os" where
  "uart_setup_device d u s =
    (let dev = uart_devices u ! d;
         speed = baud_options ! unat (dev_baud dev);
         (r1, s) = ask s
     in if r1 < 0 then (eSTATUS_DEVICE_ERROR, u, s)
        else let (r2, s) = ask s
     in if r2 < 0 then (eSTATUS_DEVICE_ERROR, u, s)
        else let t = (uart_termios dev)\<lparr>c_speed := speed\<rparr>;
                 (fd, s) = ask s;
                 u = u\<lparr>uart_devices := (uart_devices u)[d := dev\<lparr>dev_fd := fd\<rparr>]\<rparr>
     in if fd < 0 then (eSTATUS_DEVICE_ERROR, u, s)
        else let u = u\<lparr>uart_open_fds := fd # uart_open_fds u\<rparr>;
                 (tty, s) = ask s
     in if tty = 0 then (eSTATUS_DEVICE_ERROR, uart_close fd u, s)
        else let (r3, s) = ask s
     in if r3 \<noteq> 0 then (eSTATUS_DEVICE_ERROR, u, s)
        else (eSTATUS_SUCCESSFUL, u\<lparr>uart_settings := (uart_settings u)(fd \<mapsto> t)\<rparr>, s))"

fun uart_setup_devices :: "nat list \<Rightarrow> 'cb uart \<Rightarrow> os \<Rightarrow> eStatus \<times> 'cb uart \<times> os" where
  "uart_setup_devices [] u s = (eSTATUS_SUCCESSFUL, u, s)"
| "uart_setup_devices (d # ds) u s =
    (case uart_setup_device d u s of
       (st, u, s) \<Rightarrow> if failed st then (st, u, s) else uart_setup_devices ds u s)"

definition hal_uart_init :: "'cb uart \<Rightarrow> os \<Rightarrow> eStatus \<times> 'cb uart \<times> os" where
  "hal_uart_init u s =
    (let (st, u, s) = uart_setup_devices [0..<unat eUART_DEVICE_COUNT] u s
     in if failed st then (st, u, s)
        else let (r, s) = ask s
     in if r < 0 then (eSTATUS_SYSTEM_ERROR, u, s)
        else let u = u\<lparr>ring_live := True, uart_running := True\<rparr>;
                 (r, s) = ask s
     in if r \<noteq> 0 then (eSTATUS_SYSTEM_ERROR, u\<lparr>ring_live := False, uart_running := False\<rparr>, s)
        else (eSTATUS_SUCCESSFUL, u\<lparr>uart_thread := True\<rparr>, s))"

text \<open>The common course of a read and a write: \<open>prep\<close> is the operation put on the device.\<close>

definition uart_start_op ::
    "u32 \<Rightarrow> uart_buffer \<Rightarrow> (int \<Rightarrow> sqe_op) \<Rightarrow> 'cb option \<Rightarrow> u32 option \<Rightarrow> 'cb uart \<Rightarrow> os
      \<Rightarrow> eStatus \<times> 'cb uart \<times> os" where
  "uart_start_op device_index buffer prep cb a u s =
    (if eUART_DEVICE_COUNT \<le> device_index then (eSTATUS_INVALID_VALUE, u, s)
     else if buffer = NullBuffer then (eSTATUS_NULL_PARAM, u, s)
     else let d = unat device_index; u = uart_lock u
     in case allocate_slot d u of
          (None, u) \<Rightarrow> (eSTATUS_ACTION_FAILED, uart_unlock u, s)
        | (Some i, u) \<Rightarrow>
           (let u = set_slot d i (\<lambda>x. x\<lparr>slot_callback := cb, slot_arg := a\<rparr>) u
            in case io_uring_get_sqe u s of
                 (None, u, s) \<Rightarrow> (eSTATUS_SYSTEM_ERROR, uart_unlock (free_slot d i u), s)
               | (Some e, u, s) \<Rightarrow>
                  (let e = e\<lparr>sqe_data := Some (d, i)\<rparr>;
                       e = e\<lparr>sqe_op := prep (dev_fd (uart_devices u ! d))\<rparr>;
                       (r, u, s) = io_uring_submit (ring_put e u) s
                   in if r < 0 then (eSTATUS_SYSTEM_ERROR, uart_unlock (free_slot d i u), s)
                      else (eSTATUS_SUCCESSFUL, uart_unlock u, s))))"

definition hal_uart_write ::
    "u32 \<Rightarrow> uart_buffer \<Rightarrow> u32 \<Rightarrow> 'cb option \<Rightarrow> u32 option \<Rightarrow> 'cb uart \<Rightarrow> os
      \<Rightarrow> eStatus \<times> 'cb uart \<times> os" where
  "hal_uart_write device_index buffer len cb a =
    uart_start_op device_index buffer (\<lambda>fd. OpWrite fd buffer len) cb a"

definition hal_uart_read ::
    "u32 \<Rightarrow> uart_buffer \<Rightarrow> u32 \<Rightarrow> 'cb option \<Rightarrow> u32 option \<Rightarrow> 'cb uart \<Rightarrow> os
      \<Rightarrow> eStatus \<times> 'cb uart \<times> os" where
  "hal_uart_read device_index buffer len cb a =
    uart_start_op device_index buffer (\<lambda>fd. OpRead fd buffer len) cb a"

text \<open>The cancellation entry keeps whatever user data it had.\<close>

definition hal_uart_abort :: "u32 \<Rightarrow> 'cb uart \<Rightarrow> os \<Rightarrow> eStatus \<times> 'cb uart \<times> os" where
  "hal_uart_abort device_index u s =
    (if eUART_DEVICE_COUNT \<le> device_index then (eSTATUS_INVALID_VALUE, u, s)
     else let u = uart_lock u
     in case io_uring_get_sqe u s of
          (None, u, s) \<Rightarrow> (eSTATUS_SYSTEM_ERROR, uart_unlock u, s)
        | (Some e, u, s) \<Rightarrow>
           (let e = e\<lparr>sqe_op := OpCancelFd (dev_fd (uart_devices u ! unat device_index))\<rparr>;
                (r, u, s) = io_uring_submit (ring_put e u) s
            in (if r < 0 then eSTATUS_SYSTEM_ERROR else eSTATUS_SUCCESSFUL, uart_unlock u, s)))"

text \<open>
  One iteration of \<^verbatim>\<open>io_completion_thread\<close>: the \<open>k\<close>-th submitted operation completes with the result
  \<open>res\<close>. The callback runs with the mutex held; \<open>call\<close> is what it does to the state of the driver and
  to the state \<open>'s\<close> behind the callbacks.
\<close>

definition io_completion ::
    "('cb \<Rightarrow> u32 option \<Rightarrow> 'cb uart \<Rightarrow> 's \<Rightarrow> os \<Rightarrow> 'cb uart \<times> 's \<times> os) \<Rightarrow> nat \<Rightarrow> int
      \<Rightarrow> 'cb uart \<Rightarrow> 's \<Rightarrow> os \<Rightarrow> 'cb uart \<times> 's \<times> os" where
  "io_completion call k res u x s =
    (let e = ring_in_flight u ! k;
         u = u\<lparr>ring_in_flight := take k (ring_in_flight u) @ drop (Suc k) (ring_in_flight u)\<rparr>;
         u = uart_lock u;
         (u, x, s) =
           (case sqe_data e of
              None \<Rightarrow> (u, x, s)
            | Some (d, i) \<Rightarrow>
               (let slot = dev_slots (uart_devices u ! d) ! i;
                    (u, x, s) = (case slot_callback slot of
                                   Some f \<Rightarrow> if 0 < res then call f (slot_arg slot) u x s
                                             else (u, x, s)
                                 | None \<Rightarrow> (u, x, s))
                in (free_slot d i u, x, s)))
     in (uart_unlock u, x, s))"

definition hal_uart_cleanup :: "'cb uart \<Rightarrow> os \<Rightarrow> 'cb uart \<times> os" where
  "hal_uart_cleanup u s =
    (let u = uart_lock u;
         u = u\<lparr>uart_running := False\<rparr>;
         (u, s) = (case io_uring_get_sqe u s of
                     (None, u, s) \<Rightarrow> (u, s)
                   | (Some e, u, s) \<Rightarrow>
                      (let (r, u, s) = io_uring_submit (ring_put (e\<lparr>sqe_op := OpNop\<rparr>) u) s
                       in (u, s)));
         u = uart_unlock u;
         u = u\<lparr>uart_thread := False\<rparr>;
         u = u\<lparr>ring_live := False\<rparr>;
         u = fold (\<lambda>d u. (uart_close (dev_fd (uart_devices u ! d)) u)\<lparr>uart_devices :=
               (uart_devices u)[d := (uart_devices u ! d)\<lparr>dev_fd := -1\<rparr>]\<rparr>)
               [0..<unat eUART_DEVICE_COUNT] u
     in (u, s))"

section \<open>Slot accounting\<close>

definition slot_of :: "'cb uart \<Rightarrow> nat \<times> nat \<Rightarrow> 'cb OpSlot" where
  "slot_of u p = dev_slots (uart_devices u ! fst p) ! snd p"

definition slot_valid :: "nat \<times> nat \<Rightarrow> bool" where
  "slot_valid p \<longleftrightarrow> fst p < unat eUART_DEVICE_COUNT \<and> snd p < eUART_MAX_QUEUED_OPERATIONS"

text \<open>The operations handed to the ring and not yet completed.\<close>

definition pending :: "'cb uart \<Rightarrow> (nat \<times> nat) option list" where
  "pending u = map sqe_data (ring_in_flight u @ ring_queued u)"

definition uart_wf :: "'cb uart \<Rightarrow> bool" where
  "uart_wf u \<longleftrightarrow> length (uart_devices u) = unat eUART_DEVICE_COUNT \<and>
    (\<forall>d\<in>set (uart_devices u). length (dev_slots d) = eUART_MAX_QUEUED_OPERATIONS) \<and>
    \<not> uart_held u \<and> \<not> uart_stuck u"

text \<open>A slot is in use exactly while one operation that points to it is pending.\<close>

definition uart_inv :: "'cb uart \<Rightarrow> bool" where
  "uart_inv u \<longleftrightarrow> uart_wf u \<and>
    (\<forall>p. count_list (pending u) (Some p) = of_bool (slot_valid p \<and> slot_used (slot_of u p)))"

lemma set_slot_fields [simp]:
  "uart_held (set_slot d i g u) = uart_held u" "uart_stuck (set_slot d i g u) = uart_stuck u"
  "ring_stale (set_slot d i g u) = ring_stale u" "ring_taken (set_slot d i g u) = ring_taken u"
  "ring_queued (set_slot d i g u) = ring_queued u"
  "ring_in_flight (set_slot d i g u) = ring_in_flight u"
  "length (uart_devices (set_slot d i g u)) = length (uart_devices u)"
  by (simp_all add: set_slot_def)

lemma lock_fields [simp]:
  "uart_devices (uart_lock u) = uart_devices u" "uart_devices (uart_unlock u) = uart_devices u"
  "ring_queued (uart_lock u) = ring_queued u" "ring_queued (uart_unlock u) = ring_queued u"
  "ring_in_flight (uart_lock u) = ring_in_flight u"
  "ring_in_flight (uart_unlock u) = ring_in_flight u"
  "ring_stale (uart_lock u) = ring_stale u" "ring_stale (uart_unlock u) = ring_stale u"
  "ring_taken (uart_lock u) = ring_taken u" "ring_taken (uart_unlock u) = ring_taken u"
  by (simp_all add: uart_lock_def uart_unlock_def)

lemma lock_flags [simp]:
  "\<not> uart_held (uart_unlock u)" "uart_stuck (uart_unlock u) = uart_stuck u"
  "\<not> uart_held u \<Longrightarrow> uart_stuck (uart_lock u) = uart_stuck u"
  "\<not> uart_held u \<Longrightarrow> uart_held (uart_lock u)"
  by (simp_all add: uart_lock_def uart_unlock_def)

lemma slot_of_set_slot:
  assumes "d < length (uart_devices u)" and "i < length (dev_slots (uart_devices u ! d))"
  shows "slot_of (set_slot d i g u) p = (if p = (d, i) then g (slot_of u p) else slot_of u p)"
  using assms by (cases p) (auto simp: slot_of_def set_slot_def nth_list_update)

lemma slot_of_cong: "uart_devices u = uart_devices v \<Longrightarrow> slot_of u p = slot_of v p"
  by (simp add: slot_of_def)

lemma set_slot_lengths:
  assumes "d < length (uart_devices u)"
    and "\<forall>x\<in>set (uart_devices u). length (dev_slots x) = n"
  shows "\<forall>x\<in>set (uart_devices (set_slot d i g u)). length (dev_slots x) = n"
  using assms by (auto simp: set_slot_def dest!: set_update_subset_insert [THEN subsetD])

lemma wf_dims:
  assumes "uart_wf u" and "slot_valid (d, i)"
  shows "d < length (uart_devices u)" "i < length (dev_slots (uart_devices u ! d))"
  using assms by (auto simp: uart_wf_def slot_valid_def)

lemma uart_wf_update:
  assumes "uart_wf u" and "length (uart_devices v) = length (uart_devices u)"
    and "\<forall>x\<in>set (uart_devices v). length (dev_slots x) = eUART_MAX_QUEUED_OPERATIONS"
    and "\<not> uart_held v" and "uart_stuck v = uart_stuck u"
  shows "uart_wf v"
  using assms by (simp add: uart_wf_def)

text \<open>The outcome of an operation, by the answers of liburing.\<close>

definition free_index :: "'cb uart \<Rightarrow> nat \<Rightarrow> nat option" where
  "free_index u d = first_index (\<lambda>x. \<not> slot_used x) (dev_slots (uart_devices u ! d))"

lemma free_index_Some:
  assumes "uart_wf u" and "d < unat eUART_DEVICE_COUNT" and "free_index u d = Some i"
  shows "slot_valid (d, i)" "\<not> slot_used (slot_of u (d, i))"
  using assms first_index_Some [of _ "dev_slots (uart_devices u ! d)" i]
  by (auto simp: free_index_def uart_wf_def slot_valid_def slot_of_def)

lemma free_index_None:
  assumes "uart_wf u" and "d < unat eUART_DEVICE_COUNT"
  shows "free_index u d = None \<longleftrightarrow>
    (\<forall>i<eUART_MAX_QUEUED_OPERATIONS. slot_used (slot_of u (d, i)))"
proof -
  have "length (dev_slots (uart_devices u ! d)) = eUART_MAX_QUEUED_OPERATIONS"
    using assms by (simp add: uart_wf_def)
  then show ?thesis
    by (simp add: free_index_def first_index_None slot_of_def all_set_conv_all_nth)
qed

lemma start_op_no_slot:
  assumes "dev < eUART_DEVICE_COUNT" and "buffer \<noteq> NullBuffer" and "uart_wf u"
    and "free_index u (unat dev) = None"
  shows "uart_start_op dev buffer prep cb a u s = (eSTATUS_ACTION_FAILED, u, s)"
proof -
  have "uart_unlock (uart_lock u) = u"
    using assms(3) by (simp add: uart_wf_def uart_lock_def uart_unlock_def)
  then show ?thesis
    using assms
    by (simp add: uart_start_op_def allocate_slot_def free_index_def not_le [symmetric])
qed

text \<open>The state after a slot was taken and its callback set.\<close>

definition prepared :: "u32 \<Rightarrow> nat \<Rightarrow> 'cb option \<Rightarrow> u32 option \<Rightarrow> 'cb uart \<Rightarrow> 'cb uart" where
  "prepared dev i cb a u = set_slot (unat dev) i (\<lambda>x. x\<lparr>slot_callback := cb, slot_arg := a\<rparr>)
     (set_slot (unat dev) i (slot_used_update (\<lambda>_. True)) (uart_lock u))"

lemma start_op_slot:
  assumes "dev < eUART_DEVICE_COUNT" and "buffer \<noteq> NullBuffer"
    and "free_index u (unat dev) = Some i"
  shows "uart_start_op dev buffer prep cb a u s =
    (case io_uring_get_sqe (prepared dev i cb a u) s of
       (None, u, s) \<Rightarrow> (eSTATUS_SYSTEM_ERROR, uart_unlock (free_slot (unat dev) i u), s)
     | (Some e, u, s) \<Rightarrow>
        (let e = \<lparr>sqe_data = Some (unat dev, i), sqe_op = prep (dev_fd (uart_devices u ! unat dev))\<rparr>;
             (r, u, s) = io_uring_submit (ring_put e u) s
         in if r < 0 then (eSTATUS_SYSTEM_ERROR, uart_unlock (free_slot (unat dev) i u), s)
            else (eSTATUS_SUCCESSFUL, uart_unlock u, s)))"
proof -
  have e: "(e :: sqe)\<lparr>sqe_data := x, sqe_op := y\<rparr> = \<lparr>sqe_data = x, sqe_op = y\<rparr>" for e x y
    by simp
  have "\<not> eUART_DEVICE_COUNT \<le> dev" using assms(1) by simp
  then show ?thesis
    using assms(2,3)
    by (simp add: uart_start_op_def allocate_slot_def free_index_def prepared_def Let_def e
        split: prod.split option.split)
qed

lemma prepared_slot:
  assumes "uart_wf u" and "slot_valid (unat dev, i)"
  shows "slot_of (prepared dev i cb a u) p =
    (if p = (unat dev, i) then \<lparr>slot_callback = cb, slot_arg = a, slot_used = True\<rparr>
     else slot_of u p)"
proof -
  let ?u = "set_slot (unat dev) i (slot_used_update (\<lambda>_. True)) (uart_lock u)"
  note d = wf_dims [OF assms]
  have "unat dev < length (uart_devices ?u)" "i < length (dev_slots (uart_devices ?u ! unat dev))"
    using d by (simp_all add: set_slot_def)
  then have "slot_of (prepared dev i cb a u) p =
    (if p = (unat dev, i) then (slot_of ?u p)\<lparr>slot_callback := cb, slot_arg := a\<rparr> else slot_of ?u p)"
    unfolding prepared_def by (rule slot_of_set_slot)
  moreover have "slot_of ?u p = (if p = (unat dev, i) then (slot_of (uart_lock u) p)\<lparr>slot_used := True\<rparr>
      else slot_of (uart_lock u) p)"
    using d by (intro slot_of_set_slot) simp_all
  moreover have "slot_of (uart_lock u) p = slot_of u p" by (simp add: slot_of_def)
  ultimately show ?thesis by (cases "p = (unat dev, i)") simp_all
qed

lemma prepared_wf_devices:
  assumes "uart_wf u" and "slot_valid (unat dev, i)"
  shows "length (uart_devices (prepared dev i cb a u)) = length (uart_devices u)"
    "\<forall>x\<in>set (uart_devices (prepared dev i cb a u)). length (dev_slots x) = eUART_MAX_QUEUED_OPERATIONS"
proof -
  have d: "unat dev < length (uart_devices u)" using wf_dims(1) [OF assms] .
  show "length (uart_devices (prepared dev i cb a u)) = length (uart_devices u)"
    by (simp add: prepared_def)
  show "\<forall>x\<in>set (uart_devices (prepared dev i cb a u)). length (dev_slots x) = eUART_MAX_QUEUED_OPERATIONS"
    unfolding prepared_def
    using assms(1) d by (intro set_slot_lengths) (simp_all add: uart_wf_def)
qed

text \<open>The ring calls change the ring only, and never the list of pending operations.\<close>

lemma io_uring_get_sqe_result:
  assumes "io_uring_get_sqe u s = (e, u', s')"
  shows "uart_devices u' = uart_devices u" "uart_held u' = uart_held u"
    "uart_stuck u' = uart_stuck u" "pending u' = pending u" "ring_stale u' = ring_stale u"
    "os_answers s' = os_answers s"
    "e \<noteq> None \<Longrightarrow> sqe_data (the e) = ring_stale u (ring_taken u)"
  using assms by (auto simp: io_uring_get_sqe_def ask_def pending_def split: if_splits)

lemma io_uring_submit_result:
  assumes "io_uring_submit u s = (r, u', s')"
  shows "uart_devices u' = uart_devices u" "uart_held u' = uart_held u"
    "uart_stuck u' = uart_stuck u" "pending u' = pending u" "ring_stale u' = ring_stale u"
    "os_answers s' = os_answers s" "r \<in> range (os_answers s)"
  using assms
  by (auto simp: io_uring_submit_def ask_def pending_def map_append [symmetric]
      simp del: map_append split: if_splits)

lemma ring_put_fields [simp]:
  "uart_devices (ring_put e u) = uart_devices u" "uart_held (ring_put e u) = uart_held u"
  "uart_stuck (ring_put e u) = uart_stuck u" "ring_stale (ring_put e u) = ring_stale u"
  "pending (ring_put e u) = pending u @ [sqe_data e]"
  by (simp_all add: ring_put_def pending_def)

lemma pending_simps [simp]:
  "pending (uart_lock u) = pending u" "pending (uart_unlock u) = pending u"
  "pending (set_slot d i g u) = pending u" "pending (free_slot d i u) = pending u"
  "pending (prepared dev i cb a u) = pending u"
  by (simp_all add: pending_def free_slot_def prepared_def)

lemma prepared_flags:
  assumes "uart_wf u"
  shows "uart_held (prepared dev i cb a u)" "uart_stuck (prepared dev i cb a u) = uart_stuck u"
    "ring_stale (prepared dev i cb a u) = ring_stale u"
  using assms by (simp_all add: prepared_def uart_wf_def)

lemma valid_device: "dev < eUART_DEVICE_COUNT \<longleftrightarrow> unat dev < unat eUART_DEVICE_COUNT"
  by (simp add: word_less_nat_alt)

lemma uart_inv_unchanged:
  assumes "uart_inv u" and "uart_wf v" and "pending v = pending u"
    and "\<And>p. slot_valid p \<Longrightarrow> slot_used (slot_of v p) = slot_used (slot_of u p)"
  shows "uart_inv v"
  using assms by (auto simp: uart_inv_def)

text \<open>Giving back a slot that was just taken.\<close>

lemma give_back_inv:
  assumes inv: "uart_inv u" and v: "slot_valid (unat dev, i)" "\<not> slot_used (slot_of u (unat dev, i))"
    and w: "uart_devices w = uart_devices (prepared dev i cb a u)" "pending w = pending u"
      "uart_stuck w = uart_stuck u"
  shows "uart_inv (uart_unlock (free_slot (unat dev) i w))"
proof (rule uart_inv_unchanged [OF inv])
  have wf: "uart_wf u" using inv by (simp add: uart_inv_def)
  note p = prepared_wf_devices [OF wf v(1), of cb a, folded w(1)]
  have d: "unat dev < length (uart_devices w)" using p(1) wf_dims(1) [OF wf v(1)] by simp
  then have i: "i < length (dev_slots (uart_devices w ! unat dev))"
    using p(2) v(1) by (simp add: slot_valid_def)
  show "uart_wf (uart_unlock (free_slot (unat dev) i w))"
    using wf p(1) set_slot_lengths [OF d p(2)] w(3) by (simp add: uart_wf_def free_slot_def)
  show "pending (uart_unlock (free_slot (unat dev) i w)) = pending u" by (simp add: w(2))
  fix q
  have "slot_of (free_slot (unat dev) i w) q
      = (if q = (unat dev, i) then (slot_of w q)\<lparr>slot_used := False\<rparr> else slot_of w q)"
    unfolding free_slot_def by (rule slot_of_set_slot [OF d i])
  moreover have "slot_of w q = slot_of (prepared dev i cb a u) q"
    by (rule slot_of_cong) (rule w(1))
  moreover have "slot_of (uart_unlock (free_slot (unat dev) i w)) q = slot_of (free_slot (unat dev) i w) q"
    by (rule slot_of_cong) simp
  ultimately show "slot_used (slot_of (uart_unlock (free_slot (unat dev) i w)) q)
      = slot_used (slot_of u q)"
    using v(2) prepared_slot [OF wf v(1), of cb a q] by auto
qed

text \<open>
  If no submission fails, an operation keeps the accounting and adds exactly one pending operation
  when it succeeds.
\<close>

lemma start_op_inv:
  assumes inv: "uart_inv u" and dev: "dev < eUART_DEVICE_COUNT" and buf: "buffer \<noteq> NullBuffer"
    and ok: "\<forall>n. 0 \<le> os_answers s n"
    and r: "uart_start_op dev buffer prep cb a u s = (st, u', s')"
  shows "uart_inv u' \<and>
    (if st = eSTATUS_SUCCESSFUL
     then (\<exists>i. \<not> slot_used (slot_of u (unat dev, i)) \<and> pending u' = pending u @ [Some (unat dev, i)] \<and>
             slot_of u' (unat dev, i) = \<lparr>slot_callback = cb, slot_arg = a, slot_used = True\<rparr>)
     else pending u' = pending u)"
proof (cases "free_index u (unat dev)")
  case None
  then show ?thesis
    using start_op_no_slot [OF dev buf _ None] inv r by (auto simp: uart_inv_def)
next
  case (Some i)
  have wf: "uart_wf u" using inv by (simp add: uart_inv_def)
  note v = free_index_Some [OF wf dev [unfolded valid_device] Some]
  note pf = prepared_flags [OF wf, of dev i cb a]
  obtain e u1 s1 where g: "io_uring_get_sqe (prepared dev i cb a u) s = (e, u1, s1)"
    by (cases "io_uring_get_sqe (prepared dev i cb a u) s") auto
  note gr = io_uring_get_sqe_result [OF g]
  show ?thesis
  proof (cases e)
    case None
    then show ?thesis
      using r start_op_slot [OF dev buf Some, of prep cb a s] g
        give_back_inv [OF inv v, of u1 cb a] gr pf by auto
  next
    case (Some e0)
    define e1 where "e1 = \<lparr>sqe_data = Some (unat dev, i), sqe_op = prep (dev_fd (uart_devices u1 ! unat dev))\<rparr>"
    obtain r2 u2 s2 where sub: "io_uring_submit (ring_put e1 u1) s1 = (r2, u2, s2)"
      by (cases "io_uring_submit (ring_put e1 u1) s1") auto
    note sr = io_uring_submit_result [OF sub]
    have "0 \<le> r2" using sr(7) ok gr(6) by auto
    then have res: "st = eSTATUS_SUCCESSFUL" "u' = uart_unlock u2"
      using r start_op_slot [OF dev buf \<open>free_index u (unat dev) = Some i\<close>, of prep cb a s] g Some sub
      by (auto simp: e1_def)
    have devs: "uart_devices u' = uart_devices (prepared dev i cb a u)"
      by (simp add: res sr(1) gr(1))
    have pend: "pending u' = pending u @ [Some (unat dev, i)]"
      by (simp add: res sr(4) gr(4) e1_def)
    have slots: "slot_of u' p = (if p = (unat dev, i)
        then \<lparr>slot_callback = cb, slot_arg = a, slot_used = True\<rparr> else slot_of u p)" for p
      using prepared_slot [OF wf v(1), of cb a p] slot_of_cong [OF devs, of p] by simp
    have "uart_wf u'"
      using wf prepared_wf_devices [OF wf v(1), of cb a] res sr(3) gr(3) pf(2) devs
      by (simp add: uart_wf_def)
    then have "uart_inv u'"
      using inv v slots by (auto simp: uart_inv_def pend)
    then show ?thesis using pend slots v(2) res by auto
  qed
qed

text \<open>A completion frees the slot of the operation that completed.\<close>

lemma count_list_remove:
  "k < length xs \<Longrightarrow> count_list xs x = count_list (take k xs @ drop (Suc k) xs) x + of_bool (xs ! k = x)"
proof -
  assume "k < length xs"
  then have "count_list xs x = count_list (take k xs @ xs ! k # drop (Suc k) xs) x"
    by (simp add: id_take_nth_drop [symmetric])
  then show ?thesis by simp
qed

lemma pending_complete:
  assumes "k < length (ring_in_flight u)"
  defines "v \<equiv> u\<lparr>ring_in_flight := take k (ring_in_flight u) @ drop (Suc k) (ring_in_flight u)\<rparr>"
  shows "count_list (pending u) x
    = count_list (pending v) x + of_bool (sqe_data (ring_in_flight u ! k) = x)"
  using assms count_list_remove [of k "map sqe_data (ring_in_flight u)" x]
  by (simp add: pending_def take_map drop_map)

text \<open>The effect of a completion on the state behind the callbacks.\<close>

definition completion_calls ::
    "('cb \<Rightarrow> u32 option \<Rightarrow> 'cb uart \<Rightarrow> 's \<Rightarrow> os \<Rightarrow> 'cb uart \<times> 's \<times> os) \<Rightarrow> 'cb OpSlot \<Rightarrow> int
      \<Rightarrow> 'cb uart \<Rightarrow> 's \<Rightarrow> os \<Rightarrow> 's \<times> os" where
  "completion_calls call slot res u x s =
    (case slot_callback slot of
       Some f \<Rightarrow> if 0 < res then snd (call f (slot_arg slot) u x s) else (x, s)
     | None \<Rightarrow> (x, s))"

lemma io_completion_effect:
  assumes inv: "uart_inv u" and k: "k < length (ring_in_flight u)"
    and data: "sqe_data (ring_in_flight u ! k) = Some p"
    and local: "\<And>f a v x s. fst (call f a v x s) = v"
    and r: "io_completion call k res u x s = (u', x', s')"
  shows "uart_inv u' \<and> slot_valid p \<and> \<not> slot_used (slot_of u' p) \<and>
    (\<exists>v. (x', s') = completion_calls call (slot_of u p) res v x s)"
proof -
  define v where "v = u\<lparr>ring_in_flight := take k (ring_in_flight u) @ drop (Suc k) (ring_in_flight u)\<rparr>"
  obtain d i where p: "p = (d, i)" by (cases p) auto
  have wf: "uart_wf u" using inv by (simp add: uart_inv_def)
  have cnt: "count_list (pending u) x = count_list (pending v) x + of_bool (Some p = x)" for x
    using pending_complete [OF k, of x] data by (simp add: v_def)
  have pv: "slot_valid p"
  proof (rule ccontr)
    assume "\<not> slot_valid p"
    then have "count_list (pending u) (Some p) = 0"
      using inv by (simp add: uart_inv_def del: split_paired_All)
    then show False using cnt [of "Some p"] by simp
  qed
  have lock: "uart_unlock (set_slot d i g (uart_lock v)) = set_slot d i g v" for g
    using wf by (simp add: uart_unlock_def uart_lock_def v_def uart_wf_def set_slot_def)
  have slot: "dev_slots (uart_devices (uart_lock v) ! d) ! i = slot_of u p"
    by (simp add: p slot_of_def v_def)
  have loc: "call f a y x s = (y, snd (call f a y x s))" for f a y x s
    using local [of f a y x s] by (metis prod.collapse)
  have res: "u' = free_slot d i v \<and> (x', s') = completion_calls call (slot_of u p) res (uart_lock v) x s"
  proof (cases "slot_callback (slot_of u p)")
    case None
    then show ?thesis
      using r data slot lock
      by (simp add: io_completion_def Let_def v_def [symmetric] p completion_calls_def free_slot_def)
  next
    case (Some f)
    obtain x1 s1 where c: "call f (slot_arg (slot_of u p)) (uart_lock v) x s = (uart_lock v, x1, s1)"
      using loc by (metis prod.collapse)
    show ?thesis
      using r data slot lock Some c
      by (auto simp: io_completion_def Let_def v_def [symmetric] p completion_calls_def free_slot_def
          split: if_splits)
  qed
  note d = wf_dims [OF wf pv [unfolded p]]
  have dv: "uart_devices v = uart_devices u" by (simp add: v_def)
  have su: "slot_of u' q = (if q = p then (slot_of u q)\<lparr>slot_used := False\<rparr> else slot_of u q)" for q
    using slot_of_set_slot [of d v i "slot_used_update (\<lambda>_. False)" q] d dv slot_of_cong [OF dv]
    by (simp add: res free_slot_def p)
  have "uart_wf u'"
    using wf set_slot_lengths [of d v eUART_MAX_QUEUED_OPERATIONS] d(1)
    by (simp add: res uart_wf_def free_slot_def v_def)
  moreover have "count_list (pending u') (Some q) = of_bool (slot_valid q \<and> slot_used (slot_of u' q))" for q
  proof -
    have "pending u' = pending v" by (simp add: res)
    moreover have "count_list (pending u) (Some q) = of_bool (slot_valid q \<and> slot_used (slot_of u q))"
      using inv unfolding uart_inv_def by blast
    ultimately show ?thesis using cnt [of "Some q"] su [of q] by (auto split: if_splits)
  qed
  ultimately show ?thesis using res pv su by (auto simp: uart_inv_def)
qed

lemma hal_uart_abort_inv:
  assumes inv: "uart_inv u" and stale: "\<forall>n. ring_stale u n = None"
    and r: "hal_uart_abort dev u s = (st, u', s')"
  shows "uart_inv u' \<and> (\<forall>p. slot_of u' p = slot_of u p)"
proof -
  have wf: "uart_wf u" using inv by (simp add: uart_inv_def)
  have unl: "uart_devices w = uart_devices u \<Longrightarrow> uart_stuck w = uart_stuck u \<Longrightarrow>
      (\<forall>p. count_list (pending w) (Some p) = count_list (pending u) (Some p)) \<Longrightarrow>
      uart_inv (uart_unlock w) \<and> (\<forall>p. slot_of (uart_unlock w) p = slot_of u p)" for w
    using inv by (simp add: uart_inv_def uart_wf_def slot_of_def)
  obtain e u1 s1 where g: "io_uring_get_sqe (uart_lock u) s = (e, u1, s1)"
    by (cases "io_uring_get_sqe (uart_lock u) s") auto
  note gr = io_uring_get_sqe_result [OF g]
  have h: "\<not> uart_held u" "\<not> uart_stuck u" using wf by (simp_all add: uart_wf_def)
  show ?thesis
  proof (cases "dev < eUART_DEVICE_COUNT")
    case False
    then have "eUART_DEVICE_COUNT \<le> dev" by simp
    then show ?thesis using r inv by (simp add: hal_uart_abort_def)
  next
    case True
    then have dv: "\<not> eUART_DEVICE_COUNT \<le> dev" by simp
    show ?thesis
    proof (cases e)
      case None
      then show ?thesis
        using r g dv gr h unl [of u1] by (auto simp: hal_uart_abort_def Let_def)
    next
      case (Some e0)
      define e1 where "e1 = e0\<lparr>sqe_op := OpCancelFd (dev_fd (uart_devices u1 ! unat dev))\<rparr>"
      have e1: "sqe_data e1 = None" using gr(7) Some stale by (simp add: e1_def)
      obtain r2 u2 s2 where sub: "io_uring_submit (ring_put e1 u1) s1 = (r2, u2, s2)"
        by (cases "io_uring_submit (ring_put e1 u1) s1") auto
      note sr = io_uring_submit_result [OF sub]
      have "u' = uart_unlock u2"
        using r g dv Some sub by (auto simp: hal_uart_abort_def Let_def e1_def)
      then show ?thesis using unl [of u2] sr gr h e1 by simp
    qed
  qed
qed

text \<open>
  The settings of a device: the word size and baud rate are the configured options, and each flag
  is set exactly when its option is configured.
\<close>

lemma uart_termios_flags:
  assumes "dev_word_size dev < 4"
  shows "c_cflag (uart_termios dev) AND CSIZE = word_size_options ! unat (dev_word_size dev) \<and>
    (c_cflag (uart_termios dev) AND CSTOPB \<noteq> 0 \<longleftrightarrow> dev_stop_bits dev \<noteq> eSINGLE_STOP_BIT) \<and>
    (c_cflag (uart_termios dev) AND PARENB \<noteq> 0 \<longleftrightarrow> dev_parity dev \<noteq> eNO_PARITY_BIT) \<and>
    (c_cflag (uart_termios dev) AND PARODD \<noteq> 0 \<longleftrightarrow>
      dev_parity dev \<noteq> eNO_PARITY_BIT \<and> dev_parity dev \<noteq> eEVEN_PARITY_BIT) \<and>
    (c_iflag (uart_termios dev) AND INPCK \<noteq> 0 \<longleftrightarrow> dev_parity dev \<noteq> eNO_PARITY_BIT) \<and>
    c_cflag (uart_termios dev) AND (CLOCAL OR CREAD) = CLOCAL OR CREAD"
proof -
  have "dev_word_size dev \<in> {0, 1, 2, 3}"
    using assms by (auto simp: word_less_nat_alt word_unat_eq_iff)
  then consider "dev_word_size dev = 0" | "dev_word_size dev = 1" | "dev_word_size dev = 2"
    | "dev_word_size dev = 3" by blast
  then show ?thesis
    by cases (simp_all add: uart_termios_def Let_def termios_flags word_size_options_def uart_codes)
qed

text \<open>Whatever liburing answers, an operation leaves the driver well-formed, its mutex released.\<close>

lemma uart_wf_prepared:
  assumes "uart_wf u" and "slot_valid (unat dev, i)"
    and "uart_devices w = uart_devices (prepared dev i cb a u)" and "uart_stuck w = uart_stuck u"
  shows "uart_wf (uart_unlock w)" "uart_wf (uart_unlock (free_slot (unat dev) i w))"
proof -
  note p = prepared_wf_devices [OF assms(1,2), of cb a, folded assms(3)]
  show "uart_wf (uart_unlock w)"
    using assms(1) p assms(4) by (simp add: uart_wf_def)
  have "unat dev < length (uart_devices w)" using p(1) wf_dims(1) [OF assms(1,2)] by simp
  from set_slot_lengths [OF this p(2)] show "uart_wf (uart_unlock (free_slot (unat dev) i w))"
    using assms(1,4) p(1) by (simp add: uart_wf_def free_slot_def)
qed

lemma start_op_wf:
  assumes wf: "uart_wf u" and r: "uart_start_op dev buffer prep cb a u s = (st, u', s')"
  shows "uart_wf u'"
proof (cases "eUART_DEVICE_COUNT \<le> dev \<or> buffer = NullBuffer")
  case True
  then show ?thesis using assms by (simp add: uart_start_op_def split: if_splits)
next
  case False
  then have dev: "dev < eUART_DEVICE_COUNT" and buf: "buffer \<noteq> NullBuffer" by auto
  show ?thesis
  proof (cases "free_index u (unat dev)")
    case None
    then show ?thesis using start_op_no_slot [OF dev buf wf None, of prep cb a s] wf r by simp
  next
    case (Some i)
    note v = free_index_Some [OF wf dev [unfolded valid_device] Some]
    note pf = prepared_flags [OF wf, of dev i cb a]
    obtain e u1 s1 where g: "io_uring_get_sqe (prepared dev i cb a u) s = (e, u1, s1)"
      by (cases "io_uring_get_sqe (prepared dev i cb a u) s") auto
    note gr = io_uring_get_sqe_result [OF g]
    note op = start_op_slot [OF dev buf Some, of prep cb a s]
    show ?thesis
    proof (cases e)
      case None
      then show ?thesis
        using r op g uart_wf_prepared(2) [OF wf v(1) gr(1)] gr(3) pf(2) by auto
    next
      case (Some e0)
      define e1 where "e1 = \<lparr>sqe_data = Some (unat dev, i), sqe_op = prep (dev_fd (uart_devices u1 ! unat dev))\<rparr>"
      obtain r2 u2 s2 where sub: "io_uring_submit (ring_put e1 u1) s1 = (r2, u2, s2)"
        by (cases "io_uring_submit (ring_put e1 u1) s1") auto
      note sr = io_uring_submit_result [OF sub]
      have d2: "uart_devices u2 = uart_devices (prepared dev i cb a u)" "uart_stuck u2 = uart_stuck u"
        using sr gr pf by simp_all
      then show ?thesis
        using r op g Some sub uart_wf_prepared [OF wf v(1) d2]
        by (auto simp: e1_def split: if_splits)
    qed
  qed
qed

lemma uart_ops_wf:
  "uart_wf u \<Longrightarrow> hal_uart_write dev buffer len cb a u s = (st, u', s') \<Longrightarrow> uart_wf u'"
  "uart_wf u \<Longrightarrow> hal_uart_read dev buffer len cb a u s = (st, u', s') \<Longrightarrow> uart_wf u'"
  by (auto simp: hal_uart_write_def hal_uart_read_def intro: start_op_wf)

lemma hal_uart_abort_wf:
  assumes wf: "uart_wf u" and r: "hal_uart_abort dev u s = (st, u', s')"
  shows "uart_wf u'"
proof -
  have unl: "uart_devices w = uart_devices u \<Longrightarrow> uart_stuck w = uart_stuck u \<Longrightarrow> uart_wf (uart_unlock w)" for w
    using wf by (simp add: uart_wf_def)
  obtain e u1 s1 where g: "io_uring_get_sqe (uart_lock u) s = (e, u1, s1)"
    by (cases "io_uring_get_sqe (uart_lock u) s") auto
  note gr = io_uring_get_sqe_result [OF g]
  have h: "\<not> uart_held u" using wf by (simp add: uart_wf_def)
  obtain r2 u2 s2 where sub: "io_uring_submit (ring_put ((the e)\<lparr>sqe_op :=
      OpCancelFd (dev_fd (uart_devices u1 ! unat dev))\<rparr>) u1) s1 = (r2, u2, s2)"
    by (cases "io_uring_submit (ring_put ((the e)\<lparr>sqe_op :=
      OpCancelFd (dev_fd (uart_devices u1 ! unat dev))\<rparr>) u1) s1") auto
  note sr = io_uring_submit_result [OF sub]
  show ?thesis
    using r g sub unl [of u1] unl [of u2] gr sr h wf
    by (auto simp: hal_uart_abort_def Let_def split: if_splits option.splits)
qed

section \<open>Runs of the driver\<close>

text \<open>The operations of the other threads and the completions, in any order.\<close>

inductive uart_run ::
    "('cb \<Rightarrow> u32 option \<Rightarrow> 'cb uart \<Rightarrow> 's \<Rightarrow> os \<Rightarrow> 'cb uart \<times> 's \<times> os) \<Rightarrow> 'cb uart \<times> 's \<times> os
      \<Rightarrow> 'cb uart \<times> 's \<times> os \<Rightarrow> bool"
  for call where
  nil: "uart_run call c c"
| start_write: "uart_run call c (u, x, s) \<Longrightarrow> hal_uart_write dev buffer len cb a u s = (st, u', s') \<Longrightarrow>
    uart_run call c (u', x, s')"
| start_read: "uart_run call c (u, x, s) \<Longrightarrow> hal_uart_read dev buffer len cb a u s = (st, u', s') \<Longrightarrow>
    uart_run call c (u', x, s')"
| abort: "uart_run call c (u, x, s) \<Longrightarrow> hal_uart_abort dev u s = (st, u', s') \<Longrightarrow>
    uart_run call c (u', x, s')"
| complete: "uart_run call c (u, x, s) \<Longrightarrow> k < length (ring_in_flight u) \<Longrightarrow>
    io_completion call k res u x s = (u', x', s') \<Longrightarrow> uart_run call c (u', x', s')"

text \<open>Callbacks that do not use the driver: they only work on the state behind them.\<close>

definition callbacks_local ::
    "('cb \<Rightarrow> u32 option \<Rightarrow> 'cb uart \<Rightarrow> 's \<Rightarrow> os \<Rightarrow> 'cb uart \<times> 's \<times> os) \<Rightarrow> bool" where
  "callbacks_local call \<longleftrightarrow> (\<forall>f a v x s. fst (call f a v x s) = v \<and>
     os_answers (snd (snd (call f a v x s))) = os_answers s)"

lemma start_op_frame:
  "uart_start_op dev buffer prep cb a u s = (st, u', s') \<Longrightarrow>
    ring_stale u' = ring_stale u \<and> os_answers s' = os_answers s"
  by (auto simp: uart_start_op_def Let_def allocate_slot_def io_uring_get_sqe_def io_uring_submit_def
      ask_def ring_put_def free_slot_def split: if_splits option.splits)

lemma abort_frame:
  "hal_uart_abort dev u s = (st, u', s') \<Longrightarrow>
    ring_stale u' = ring_stale u \<and> os_answers s' = os_answers s"
  by (auto simp: hal_uart_abort_def Let_def io_uring_get_sqe_def io_uring_submit_def ask_def
      ring_put_def split: if_splits)

lemma start_op_inv_any:
  assumes "uart_inv u" and "\<forall>n. 0 \<le> os_answers s n"
    and "uart_start_op dev buffer prep cb a u s = (st, u', s')"
  shows "uart_inv u'"
proof (cases "dev < eUART_DEVICE_COUNT \<and> buffer \<noteq> NullBuffer")
  case True
  then show ?thesis using start_op_inv [OF assms(1) _ _ assms(2,3)] by blast
next
  case False
  then have "eUART_DEVICE_COUNT \<le> dev \<or> buffer = NullBuffer" by auto
  then show ?thesis using assms(1,3) by (auto simp: uart_start_op_def split: if_splits)
qed

lemma completion_no_data:
  assumes "uart_inv u" and "k < length (ring_in_flight u)" and "sqe_data (ring_in_flight u ! k) = None"
    and "io_completion call k res u x s = (u', x', s')"
  shows "uart_inv u' \<and> x' = x \<and> s' = s \<and> ring_stale u' = ring_stale u"
proof -
  let ?v = "u\<lparr>ring_in_flight := take k (ring_in_flight u) @ drop (Suc k) (ring_in_flight u)\<rparr>"
  have u': "u' = uart_unlock (uart_lock ?v)" "x' = x" "s' = s"
    using assms(3,4) by (auto simp: io_completion_def Let_def)
  have "count_list (pending ?v) (Some p) = count_list (pending u) (Some p)" for p
    using pending_complete [OF assms(2), of "Some p"] assms(3) by simp
  moreover have "uart_wf u" using assms(1) by (simp add: uart_inv_def)
  ultimately show ?thesis
    using assms(1) u' by (simp add: uart_inv_def uart_wf_def slot_of_def)
qed

lemma completion_frame:
  assumes "callbacks_local call" and "io_completion call k res u x s = (u', x', s')"
  shows "ring_stale u' = ring_stale u \<and> os_answers s' = os_answers s"
proof -
  have c: "\<exists>x1 s1. call f a v x s = (v, x1, s1) \<and> os_answers s1 = os_answers s" for f a v x s
    using assms(1) unfolding callbacks_local_def by (metis prod.collapse)
  show ?thesis
  proof (cases "sqe_data (ring_in_flight u ! k)")
    case None
    then show ?thesis using assms(2) by (auto simp: io_completion_def Let_def)
  next
    case (Some p)
    obtain d i where p: "p = (d, i)" by (cases p)
    let ?v = "uart_lock (u\<lparr>ring_in_flight := take k (ring_in_flight u) @ drop (Suc k) (ring_in_flight u)\<rparr>)"
    let ?slot = "dev_slots (uart_devices ?v ! d) ! i"
    obtain x1 s1 where c1: "call (the (slot_callback ?slot)) (slot_arg ?slot) ?v x s = (?v, x1, s1)"
      "os_answers s1 = os_answers s" using c by blast
    show ?thesis
      using assms(2) Some c1
      by (cases "slot_callback ?slot")
        (auto simp: io_completion_def Let_def p free_slot_def split: if_splits)
  qed
qed

lemma uart_run_inv:
  assumes "uart_run call c c'" and "uart_inv (fst c)" and "\<forall>n. 0 \<le> os_answers (snd (snd c)) n"
    and "\<forall>n. ring_stale (fst c) n = None" and "callbacks_local call"
  shows "uart_inv (fst c') \<and> (\<forall>n. 0 \<le> os_answers (snd (snd c')) n) \<and>
    (\<forall>n. ring_stale (fst c') n = None)"
  using assms
proof (induction rule: uart_run.induct)
  case (start_write c u x s dev buffer len cb a st u' s')
  then show ?case
    using start_op_inv_any start_op_frame unfolding hal_uart_write_def by (metis fst_conv snd_conv)
next
  case (start_read c u x s dev buffer len cb a st u' s')
  then show ?case
    using start_op_inv_any start_op_frame unfolding hal_uart_read_def by (metis fst_conv snd_conv)
next
  case (abort c u x s dev st u' s')
  then show ?case using hal_uart_abort_inv abort_frame by (metis fst_conv snd_conv)
next
  case (complete c u x s k res u' x' s')
  have loc: "fst (call f a v x s) = v" for f a v x s
    using complete.prems(4) by (simp add: callbacks_local_def)
  have inv: "uart_inv u" using complete by simp
  have "uart_inv u'"
  proof (cases "sqe_data (ring_in_flight u ! k)")
    case None
    then show ?thesis using completion_no_data [OF inv complete.hyps(2) None complete.hyps(3)] by blast
  next
    case (Some p)
    then show ?thesis
      using io_completion_effect [OF inv complete.hyps(2) Some loc complete.hyps(3)] by blast
  qed
  then show ?case
    using complete completion_frame [OF complete.prems(4) complete.hyps(3)] by simp
qed simp

section \<open>Properties\<close>

text \<open>The driver of a program that starts, and callbacks that count their calls.\<close>

definition demo_uart :: "unit uart" where
  "demo_uart = static_uart (\<lambda>_. None)"

definition uart_os :: os where
  "uart_os = boot_os (\<lambda>_. 1) (\<lambda>_. zero_timespec)"

definition count_calls :: "unit \<Rightarrow> u32 option \<Rightarrow> unit uart \<Rightarrow> nat \<Rightarrow> os \<Rightarrow> unit uart \<times> nat \<times> os" where
  "count_calls f a u x s = (u, Suc x, s)"

lemma demo_uart_inv: "uart_inv demo_uart"
proof -
  have "\<not> slot_used (slot_of demo_uart p)" if "slot_valid p" for p
  proof -
    have "fst p = 0 \<or> fst p = 1 \<or> fst p = 2" "snd p < 4"
      using that by (auto simp: slot_valid_def uart_codes)
    then show ?thesis
      by (auto simp: slot_of_def demo_uart_def static_uart_def static_uart_device_def uart_codes
          empty_slot_def)
  qed
  then show ?thesis
    by (auto simp: uart_inv_def uart_wf_def pending_def demo_uart_def static_uart_def
        static_uart_device_def uart_codes)
qed

lemma replicate_4: "replicate 4 x = [x, x, x, x]"
  by (simp add: numeral_eq_Suc)

lemmas demo_uart_defs = demo_uart_def static_uart_def static_uart_device_def uart_codes empty_slot_def
  uart_os_def boot_os_def replicate_4

lemma demo_free_index: "free_index demo_uart 0 = Some 0"
  by (simp add: free_index_def demo_uart_defs)

text \<open>The first write of a program that starts takes slot 0 of its device and is in flight.\<close>

lemma demo_write:
  assumes "hal_uart_write 0 (TxBuffer bs) len cb a demo_uart uart_os = (st, u', s')"
  shows "map sqe_data (ring_in_flight u') = [Some (0, 0)]" "ring_queued u' = []"
    "slot_of u' (0, 0) = \<lparr>slot_callback = cb, slot_arg = a, slot_used = True\<rparr>"
proof -
  have d: "(0 :: u32) < eUART_DEVICE_COUNT" by (simp add: uart_codes)
  have fi: "free_index demo_uart (unat (0 :: u32)) = Some 0" using demo_free_index by simp
  note op = start_op_slot [OF d _ fi, of "TxBuffer bs" "\<lambda>fd. OpWrite fd (TxBuffer bs) len" cb a uart_os]
  have wf: "uart_wf demo_uart" using demo_uart_inv by (simp add: uart_inv_def)
  have v: "slot_valid (unat (0 :: u32), 0)" by (simp add: slot_valid_def uart_codes)
  have ring: "ring_in_flight (prepared 0 0 cb a demo_uart) = []"
    "ring_queued (prepared 0 0 cb a demo_uart) = []"
    by (simp_all add: prepared_def demo_uart_def static_uart_def)
  have "uart_devices u' = uart_devices (prepared 0 0 cb a demo_uart)"
    "map sqe_data (ring_in_flight u') = [Some (0, 0)]" "ring_queued u' = []"
    using assms op ring
    by (auto simp: hal_uart_write_def io_uring_get_sqe_def io_uring_submit_def ask_def uart_os_def
        boot_os_def ring_put_def)
  then show "map sqe_data (ring_in_flight u') = [Some (0, 0)]" "ring_queued u' = []"
    "slot_of u' (0, 0) = \<lparr>slot_callback = cb, slot_arg = a, slot_used = True\<rparr>"
    using prepared_slot [OF wf v, of cb a "(0, 0)"] slot_of_cong [of u' "prepared 0 0 cb a demo_uart"]
    by simp_all
qed

lemma count_calls_local: "callbacks_local count_calls"
  by (simp add: callbacks_local_def count_calls_def)

text \<open>C26. Slots are neither leaked nor shared: in every run of reads, writes, aborts and completions in
  which no submission fails (and a fresh submission entry carries no user data), a slot of a device is
  in use exactly while one operation that refers to it is queued or in flight, and the mutex is
  free after every operation.\<close>

lemma uart_slots_accounted:
  assumes "uart_run call (u, x, s) (u', x', s')" and "uart_inv u" and "callbacks_local call"
    and "\<And>n. 0 \<le> os_answers s n" and "\<And>n. ring_stale u n = None"
  shows "(\<forall>p. count_list (pending u') (Some p) = of_bool (slot_valid p \<and> slot_used (slot_of u' p))) \<and>
    \<not> uart_held u' \<and> \<not> uart_stuck u'"
  using uart_run_inv [OF assms(1)] assms(2-) unfolding uart_inv_def uart_wf_def by fastforce

lemma uart_slots_accounted_witness:
  "\<exists>u' s'. uart_run count_calls (demo_uart, 0, uart_os) (u', 0, s') \<and>
     pending u' = [Some (0, 0)] \<and> slot_used (slot_of u' (0, 0)) \<and> \<not> slot_used (slot_of u' (0, 1))"
proof -
  obtain st u' s' where w: "hal_uart_write 0 (TxBuffer [1, 2]) 2 (Some ()) None demo_uart uart_os
      = (st, u', s')"
    by (metis prod_cases3)
  have p: "pending u' = [Some (0, 0)]"
    using demo_write [OF w] by (simp add: pending_def)
  have r: "uart_run count_calls (demo_uart, 0, uart_os) (u', 0, s')"
    by (rule uart_run.start_write [OF uart_run.nil w])
  have ans: "0 \<le> os_answers uart_os n" "ring_stale demo_uart n = None" for n
    by (simp_all add: uart_os_def boot_os_def demo_uart_def static_uart_def)
  note acc = uart_slots_accounted [OF r demo_uart_inv count_calls_local ans, THEN conjunct1, THEN spec]
  have v: "slot_valid (0, 0)" "slot_valid (0, 1)"
    by (simp_all add: slot_valid_def uart_codes)
  have "of_bool (slot_valid (0, 0) \<and> slot_used (slot_of u' (0, 0))) = (1 :: nat)"
    "of_bool (slot_valid (0, 1) \<and> slot_used (slot_of u' (0, 1))) = (0 :: nat)"
    unfolding acc [symmetric] p by simp_all
  then have "slot_valid (0, 0) \<and> slot_used (slot_of u' (0, 0))"
    "\<not> (slot_valid (0, 1) \<and> slot_used (slot_of u' (0, 1)))"
    unfolding of_bool_eq_1_iff of_bool_eq_0_iff by - assumption+
  with v have "slot_used (slot_of u' (0, 0))" "\<not> slot_used (slot_of u' (0, 1))" by blast+
  then show ?thesis using r p by blast
qed

text \<open>A completion is delivered once: the completed operation leaves the ring and frees its slot;
  the callback registered with it is called, with its argument, exactly when the result is positive,
  and otherwise nothing is called.\<close>

lemma uart_completion_delivered:
  assumes "uart_inv u" and "k < length (ring_in_flight u)"
    and "sqe_data (ring_in_flight u ! k) = Some p" and "callbacks_local call"
    and "io_completion call k res u x s = (u', x', s')"
  shows "uart_inv u' \<and> slot_used (slot_of u p) \<and> \<not> slot_used (slot_of u' p) \<and>
    (\<exists>v. (x', s') = (case slot_callback (slot_of u p) of
        Some f \<Rightarrow> if 0 < res then snd (call f (slot_arg (slot_of u p)) v x s) else (x, s)
      | None \<Rightarrow> (x, s)))"
proof -
  have loc: "fst (call f a v x s) = v" for f a v x s
    using assms(4) by (simp add: callbacks_local_def)
  note e = io_completion_effect [OF assms(1-3) loc assms(5)]
  have "Some p \<in> set (pending u)"
    using nth_mem [OF assms(2)] assms(3) by (force simp: pending_def)
  then have "count_list (pending u) (Some p) \<noteq> 0" by (simp add: count_list_0_iff)
  then have "slot_used (slot_of u p)"
    using assms(1) unfolding uart_inv_def by (metis of_bool_eq(1))
  with e show ?thesis unfolding completion_calls_def by blast
qed

lemma uart_completion_delivered_witness:
  "\<exists>u' s'. uart_run count_calls (demo_uart, 0, uart_os) (u', 1, s') \<and> \<not> slot_used (slot_of u' (0, 0))"
proof -
  let ?P = "\<lambda>u. length (ring_in_flight u) = 1 \<and> sqe_data (ring_in_flight u ! 0) = Some (0, 0) \<and>
    slot_of u (0, 0) = \<lparr>slot_callback = Some (), slot_arg = None, slot_used = True\<rparr>"
  obtain st u1 s1 where w: "hal_uart_write 0 (TxBuffer [1, 2]) 2 (Some ()) None demo_uart uart_os
      = (st, u1, s1)"
    by (metis prod_cases3)
  have p: "?P u1"
    using demo_write [OF w] by (cases "ring_in_flight u1") auto
  have r: "uart_run count_calls (demo_uart, 0, uart_os) (u1, 0, s1)"
    by (rule uart_run.start_write [OF uart_run.nil w])
  have inv: "uart_inv u1"
    using uart_run_inv [OF r] demo_uart_inv count_calls_local
    by (simp add: uart_os_def boot_os_def demo_uart_def static_uart_def)
  obtain u2 x2 s2 where c: "io_completion count_calls 0 2 u1 (0 :: nat) s1 = (u2, x2, s2)"
    by (metis prod_cases3)
  have k: "0 < length (ring_in_flight u1)" and d: "sqe_data (ring_in_flight u1 ! 0) = Some (0, 0)"
    using p by simp_all
  have "\<not> slot_used (slot_of u2 (0, 0)) \<and> x2 = 1"
    using uart_completion_delivered [OF inv k d count_calls_local c] p
    by (auto simp: count_calls_def)
  then show ?thesis using uart_run.complete [OF r k c] by blast
qed

text \<open>The serial settings are the configured ones: the character size and each of the stop bit,
  parity, odd parity and input parity flags is set in the termios structure exactly when the
  configuration of the device asks for it, and the receiver is always enabled.\<close>

lemma uart_settings_configured:
  assumes "dev_word_size dev < 4"
  shows "c_cflag (uart_termios dev) AND CSIZE = word_size_options ! unat (dev_word_size dev) \<and>
    (c_cflag (uart_termios dev) AND CSTOPB \<noteq> 0 \<longleftrightarrow> dev_stop_bits dev \<noteq> eSINGLE_STOP_BIT) \<and>
    (c_cflag (uart_termios dev) AND PARENB \<noteq> 0 \<longleftrightarrow> dev_parity dev \<noteq> eNO_PARITY_BIT) \<and>
    (c_cflag (uart_termios dev) AND PARODD \<noteq> 0 \<longleftrightarrow>
      dev_parity dev \<noteq> eNO_PARITY_BIT \<and> dev_parity dev \<noteq> eEVEN_PARITY_BIT) \<and>
    (c_iflag (uart_termios dev) AND INPCK \<noteq> 0 \<longleftrightarrow> dev_parity dev \<noteq> eNO_PARITY_BIT) \<and>
    c_cflag (uart_termios dev) AND (CLOCAL OR CREAD) = CLOCAL OR CREAD"
  by (rule uart_termios_flags [OF assms])

lemma uart_settings_configured_witness:
  "c_cflag (uart_termios (static_uart_device ''/dev/ttyAMA0'' :: unit UARTDevice)) AND CSIZE = 0x30"
  using uart_settings_configured [of "static_uart_device ''/dev/ttyAMA0'' :: unit UARTDevice"]
  by (simp add: static_uart_device_def uart_codes word_size_options_def)

text \<open>What a failing submission leaves behind: the call reports a system error and gives its slot
  back, but its entry stays in the submission queue and still refers to the slot, which the next
  operation of the device takes; the accounting of slots is broken.\<close>

lemma uart_failed_submit_dangles:
  assumes "uart_inv u" and "dev < eUART_DEVICE_COUNT" and "free_index u (unat dev) = Some i"
    and "os_answers s (os_asked s) \<noteq> 0" and "os_answers s (Suc (os_asked s)) < 0"
  shows "\<exists>u' s'. hal_uart_write dev (TxBuffer bs) len cb a u s = (eSTATUS_SYSTEM_ERROR, u', s') \<and>
    pending u' = pending u @ [Some (unat dev, i)] \<and> \<not> slot_used (slot_of u' (unat dev, i)) \<and>
    \<not> uart_inv u'"
proof -
  have wf: "uart_wf u" using assms(1) by (simp add: uart_inv_def)
  note v = free_index_Some [OF wf assms(2) [unfolded valid_device] assms(3)]
  let ?p = "prepared dev i cb a u"
  obtain e u1 s1 where g: "io_uring_get_sqe ?p s = (Some e, u1, s1)"
    and s1: "os_answers s1 = os_answers s" "os_asked s1 = Suc (os_asked s)"
    using assms(4) by (simp add: io_uring_get_sqe_def ask_def)
  note gr = io_uring_get_sqe_result [OF g]
  define e1 where "e1 = \<lparr>sqe_data = Some (unat dev, i),
      sqe_op = OpWrite (dev_fd (uart_devices u1 ! unat dev)) (TxBuffer bs) len\<rparr>"
  obtain r u2 s2 where sub: "io_uring_submit (ring_put e1 u1) s1 = (r, u2, s2)"
    by (metis prod_cases3)
  note sr = io_uring_submit_result [OF sub]
  have neg: "r < 0" using sub assms(5) s1 by (auto simp: io_uring_submit_def ask_def split: if_splits)
  let ?u' = "uart_unlock (free_slot (unat dev) i u2)"
  have res: "hal_uart_write dev (TxBuffer bs) len cb a u s = (eSTATUS_SYSTEM_ERROR, ?u', s2)"
    unfolding hal_uart_write_def
    using start_op_slot [OF assms(2) _ assms(3), of "TxBuffer bs"] g sub neg by (simp add: e1_def)
  have pend: "pending ?u' = pending u @ [Some (unat dev, i)]"
    by (simp add: sr(4) gr(4) e1_def)
  have devs: "uart_devices u2 = uart_devices ?p" using sr(1) gr(1) by simp
  note pd = prepared_wf_devices [OF wf v(1), of cb a, folded devs]
  have d: "unat dev < length (uart_devices u2)" using pd(1) wf_dims(1) [OF wf v(1)] by simp
  then have il: "i < length (dev_slots (uart_devices u2 ! unat dev))"
    using pd(2) v(1) by (simp add: slot_valid_def)
  have "slot_of ?u' (unat dev, i) = slot_of (free_slot (unat dev) i u2) (unat dev, i)"
    by (rule slot_of_cong) simp
  then have free: "\<not> slot_used (slot_of ?u' (unat dev, i))"
    by (simp add: free_slot_def slot_of_set_slot [OF d il])
  have "count_list (pending ?u') (Some (unat dev, i)) \<noteq> 0" unfolding pend by simp
  then have "\<not> uart_inv ?u'" using free unfolding uart_inv_def by (metis of_bool_eq(1))
  then show ?thesis using res pend free by blast
qed

lemma uart_failed_submit_dangles_witness:
  "\<exists>u' s'. hal_uart_write 0 (TxBuffer [1]) 1 None None demo_uart
       (boot_os (\<lambda>n. if n = 1 then -11 else 1) (\<lambda>_. zero_timespec)) = (eSTATUS_SYSTEM_ERROR, u', s') \<and>
     pending u' = [Some (0, 0)]"
proof -
  have "free_index demo_uart (unat (0 :: u32)) = Some 0" using demo_free_index by simp
  from uart_failed_submit_dangles [OF demo_uart_inv _ this, where
      s = "boot_os (\<lambda>n. if n = 1 then -11 else 1) (\<lambda>_. zero_timespec)" and bs = "[1]" and len = 1
      and cb = None and a = None]
  show ?thesis
    by (auto simp: boot_os_def uart_codes pending_def demo_uart_def static_uart_def)
qed

end
