(* ===== verification/UtilFsm.thy ===== *)
theory UtilFsm
  imports Prelude
begin

text \<open>
  Finite state machines, \<^verbatim>\<open>src/src/util/fsm/fsm.c\<close>, and the contract that the state machines of the
  program keep.

  A machine has a type \<open>'st\<close> of states, one constructor per state function of the source (the values
  of its function pointers), and a type \<open>'a\<close> for the object behind the \<^verbatim>\<open>arg\<close> pointer. A state
  function gets the function it transitions with, so that a body reads like the C body. Calls
  through the function pointer nest (a state function calls \<^verbatim>\<open>util_fsm_transition\<close>, which calls state
  functions): the nesting depth is an explicit number, and \<open>None\<close> stands for a call that exceeds it
  or dereferences a null pointer. The contract \<open>fsm_machine\<close> gives a depth that always suffices and
  shows that a greater one changes nothing.
\<close>

section \<open>Events and machines\<close>

record Event =
  etype :: u32

definition eFSM_EVENT_INIT :: u32 where [fsm_codes]: "eFSM_EVENT_INIT = 0"
definition eFSM_EVENT_ENTRY :: u32 where [fsm_codes]: "eFSM_EVENT_ENTRY = 1"
definition eFSM_EVENT_EXIT :: u32 where [fsm_codes]: "eFSM_EVENT_EXIT = 2"
definition eFSM_EVENT_END :: u32 where [fsm_codes]: "eFSM_EVENT_END = 3"
definition eFSM_EVENT_USER :: u32 where [fsm_codes]: "eFSM_EVENT_USER = 4"

definition init_event :: Event where "init_event = \<lparr>etype = eFSM_EVENT_INIT\<rparr>"
definition exit_event :: Event where "exit_event = \<lparr>etype = eFSM_EVENT_EXIT\<rparr>"
definition entry_event :: Event where "entry_event = \<lparr>etype = eFSM_EVENT_ENTRY\<rparr>"

lemma event_types [simp]:
  "etype init_event = eFSM_EVENT_INIT" "etype exit_event = eFSM_EVENT_EXIT"
  "etype entry_event = eFSM_EVENT_ENTRY"
  by (simp_all add: init_event_def exit_event_def entry_event_def)

text \<open>\<open>current_state = None\<close> is the null function pointer of a machine that was not initialised.\<close>

record ('st, 'a) FSM =
  current_state :: "'st option"
  fsm_arg :: 'a

type_synonym ('st, 'a) transition_fn = "'st \<Rightarrow> ('st, 'a) FSM \<Rightarrow> ('st, 'a) FSM option"
type_synonym ('st, 'a) StateFP =
  "('st, 'a) transition_fn \<Rightarrow> Event \<Rightarrow> ('st, 'a) FSM \<Rightarrow> ('st, 'a) FSM option"

text \<open>
  \<open>call_state\<close> is the call \<^verbatim>\<open>fsm->current_state(fsm, event)\<close>; \<open>util_fsm_transition\<close> is the C function
  (a state function ignores its status). Both take the table of state functions and the depth.
\<close>

function (sequential)
  call_state :: "('st \<Rightarrow> ('st, 'a) StateFP) \<Rightarrow> nat \<Rightarrow> Event \<Rightarrow> ('st, 'a) FSM \<Rightarrow> ('st, 'a) FSM option"
and
  util_fsm_transition :: "('st \<Rightarrow> ('st, 'a) StateFP) \<Rightarrow> nat \<Rightarrow> ('st, 'a) FSM option \<Rightarrow> 'st option
    \<Rightarrow> (eStatus \<times> ('st, 'a) FSM option) option"
where
  "call_state h 0 ev f = None"
| "call_state h (Suc n) ev f =
    (case current_state f of
       None \<Rightarrow> None
     | Some st \<Rightarrow>
        h st (\<lambda>next f. case util_fsm_transition h n (Some f) (Some next) of
                          None \<Rightarrow> None
                        | Some (status, f') \<Rightarrow> f') ev f)"
| "util_fsm_transition h n fsm next_state =
    (case fsm of
       None \<Rightarrow> Some (eSTATUS_NULL_PARAM, None)
     | Some f \<Rightarrow>
        if current_state f = None \<or> next_state = None then Some (eSTATUS_NULL_PARAM, Some f)
        else (case call_state h n exit_event f of
                None \<Rightarrow> None
              | Some f \<Rightarrow>
                 (case call_state h n entry_event (f\<lparr>current_state := next_state\<rparr>) of
                    None \<Rightarrow> None
                  | Some f \<Rightarrow> Some (eSTATUS_SUCCESSFUL, Some f))))"
  by pat_completeness auto
termination
  by (relation "measure (\<lambda>x. case x of Inl (h, n, _) \<Rightarrow> 2 * n | Inr (h, n, _) \<Rightarrow> 2 * n + 1)") auto

text \<open>The transition a state function performs, its status discarded.\<close>

abbreviation transition :: "('st \<Rightarrow> ('st, 'a) StateFP) \<Rightarrow> nat \<Rightarrow> ('st, 'a) transition_fn" where
  "transition h n \<equiv> (\<lambda>next f. case util_fsm_transition h n (Some f) (Some next) of
                          None \<Rightarrow> None
                        | Some (status, f') \<Rightarrow> f')"

definition util_fsm_init ::
    "('st \<Rightarrow> ('st, 'a) StateFP) \<Rightarrow> nat \<Rightarrow> ('st, 'a) FSM option \<Rightarrow> 'st option \<Rightarrow> 'a
      \<Rightarrow> (eStatus \<times> ('st, 'a) FSM option) option" where
  "util_fsm_init h n fsm init_state a =
    (if fsm = None \<or> init_state = None then Some (eSTATUS_NULL_PARAM, fsm)
     else case call_state h n init_event
                 ((the fsm)\<lparr>current_state := init_state, fsm_arg := a\<rparr>) of
            None \<Rightarrow> None
          | Some f \<Rightarrow> Some (eSTATUS_SUCCESSFUL, Some f))"

definition util_fsm_send_event ::
    "('st \<Rightarrow> ('st, 'a) StateFP) \<Rightarrow> nat \<Rightarrow> ('st, 'a) FSM option \<Rightarrow> Event
      \<Rightarrow> (eStatus \<times> ('st, 'a) FSM option) option" where
  "util_fsm_send_event h n fsm event =
    (if fsm = None \<or> current_state (the fsm) = None then Some (eSTATUS_NULL_PARAM, fsm)
     else case call_state h n event (the fsm) of
            None \<Rightarrow> None
          | Some f \<Rightarrow> Some (eSTATUS_SUCCESSFUL, Some f))"

text \<open>A run of the machine over a list of events; \<open>None\<close> if the depth does not suffice.\<close>

fun fsm_run ::
    "('st \<Rightarrow> ('st, 'a) StateFP) \<Rightarrow> nat \<Rightarrow> Event list \<Rightarrow> ('st, 'a) FSM \<Rightarrow> ('st, 'a) FSM option" where
  "fsm_run h n [] f = Some f"
| "fsm_run h n (ev # evs) f =
    (case util_fsm_send_event h n (Some f) ev of
       Some (st, Some f') \<Rightarrow> fsm_run h n evs f'
     | _ \<Rightarrow> None)"

section \<open>The contract of a state machine\<close>

text \<open>
  \<open>J\<close> is an invariant of the machine's object, independent of the current state, and \<open>rank\<close> orders
  the states so that handling ENTRY only transitions downwards. Handling EXIT never transitions,
  and the other events transition at most once, anywhere. Then no call nests deeper than
  \<open>top + 2\<close>.
\<close>

locale fsm_machine =
  fixes h :: "'st \<Rightarrow> ('st, 'a) StateFP"
    and J :: "'a \<Rightarrow> bool"
    and rank :: "'st \<Rightarrow> nat"
    and top :: nat
  assumes rank_top: "rank st \<le> top"
    and exit_local: "current_state f = Some st \<Longrightarrow> J (fsm_arg f) \<Longrightarrow>
      \<exists>f'. h st T exit_event f = Some f' \<and> current_state f' = Some st \<and> J (fsm_arg f')"
    and entry_ranked: "current_state f = Some st \<Longrightarrow> J (fsm_arg f) \<Longrightarrow>
      (\<And>next f'. rank next < rank st \<Longrightarrow> current_state f' = Some st \<Longrightarrow> J (fsm_arg f') \<Longrightarrow>
         \<exists>f''. T next f' = Some f'' \<and> J (fsm_arg f'') \<and> current_state f'' \<noteq> None) \<Longrightarrow>
      \<exists>f'. h st T entry_event f = Some f' \<and> J (fsm_arg f') \<and> current_state f' \<noteq> None"
    and event_total: "current_state f = Some st \<Longrightarrow> J (fsm_arg f) \<Longrightarrow>
      (\<And>next f'. current_state f' = Some st \<Longrightarrow> J (fsm_arg f') \<Longrightarrow>
         \<exists>f''. T next f' = Some f'' \<and> J (fsm_arg f'') \<and> current_state f'' \<noteq> None) \<Longrightarrow>
      \<exists>f'. h st T ev f = Some f' \<and> J (fsm_arg f') \<and> current_state f' \<noteq> None"
    and handler_mono: "(\<And>next f f'. T next f = Some f' \<Longrightarrow> T' next f = Some f') \<Longrightarrow>
      h st T ev f = Some f' \<Longrightarrow> h st T' ev f = Some f'"
begin

lemma entry_total:
  assumes "current_state f = Some st" and "J (fsm_arg f)" and "rank st < n"
  shows "\<exists>f'. call_state h n entry_event f = Some f' \<and> J (fsm_arg f') \<and> current_state f' \<noteq> None"
  using assms
proof (induction "rank st" arbitrary: st f n rule: less_induct)
  case less
  obtain m where n: "n = Suc m" using less.prems(3) by (cases n) auto
  have step: "\<exists>f''. transition h m next f' = Some f'' \<and> J (fsm_arg f'') \<and> current_state f'' \<noteq> None"
    if r: "rank next < rank st" and cs: "current_state f' = Some st" and j: "J (fsm_arg f')"
    for "next" f'
  proof -
    obtain k where m: "m = Suc k" using less.prems(3) n r by (cases m) auto
    obtain f1 where f1: "call_state h m exit_event f' = Some f1" "current_state f1 = Some st"
      "J (fsm_arg f1)"
      using exit_local [OF cs j] by (auto simp: m cs)
    have "\<exists>f2. call_state h m entry_event (f1\<lparr>current_state := Some next\<rparr>) = Some f2 \<and>
        J (fsm_arg f2) \<and> current_state f2 \<noteq> None"
      using less.hyps [OF r, of "f1\<lparr>current_state := Some next\<rparr>" m] f1(3) r less.prems(3) n by simp
    then show ?thesis using f1 cs by auto
  qed
  show ?case
    using entry_ranked [OF less.prems(1,2), of "transition h m"] step
    by (auto simp: n less.prems(1))
qed

lemma transition_total:
  assumes cs: "current_state f = Some st" and j: "J (fsm_arg f)" and n: "rank next < n"
  shows "\<exists>f'. util_fsm_transition h n (Some f) (Some next) = Some (eSTATUS_SUCCESSFUL, Some f') \<and>
    J (fsm_arg f') \<and> current_state f' \<noteq> None"
proof -
  obtain k where k: "n = Suc k" using n by (cases n) auto
  obtain f1 where f1: "call_state h n exit_event f = Some f1" "J (fsm_arg f1)"
    using exit_local [OF cs j] by (auto simp: k cs)
  then have "\<exists>f2. call_state h n entry_event (f1\<lparr>current_state := Some next\<rparr>) = Some f2 \<and>
      J (fsm_arg f2) \<and> current_state f2 \<noteq> None"
    using entry_total [of "f1\<lparr>current_state := Some next\<rparr>" "next" n] n by simp
  then show ?thesis using f1 cs by auto
qed

text \<open>Every event is handled within the depth, and the invariant is kept.\<close>

lemma dispatch_total:
  assumes cs: "current_state f = Some st" and j: "J (fsm_arg f)" and n: "top + 2 \<le> n"
  shows "\<exists>f'. call_state h n ev f = Some f' \<and> J (fsm_arg f') \<and> current_state f' \<noteq> None"
proof -
  obtain m where m: "n = Suc m" "top < m" using n by (cases n) auto
  have "\<exists>f''. transition h m next f' = Some f'' \<and> J (fsm_arg f'') \<and> current_state f'' \<noteq> None"
    if "current_state f' = Some st" "J (fsm_arg f')" for "next" f'
    using transition_total [OF that, of "next" m] rank_top [of "next"] m(2) by fastforce
  then show ?thesis
    using event_total [OF cs j, of "transition h m" ev] by (auto simp: m(1) cs)
qed

lemma init_total:
  assumes "J a" and "top + 2 \<le> n"
  shows "\<exists>f'. util_fsm_init h n (Some f) (Some st) a = Some (eSTATUS_SUCCESSFUL, Some f') \<and>
    J (fsm_arg f') \<and> current_state f' \<noteq> None"
  using dispatch_total [of "f\<lparr>current_state := Some st, fsm_arg := a\<rparr>" st n init_event] assms
  by (auto simp: util_fsm_init_def)

lemma send_event_total:
  assumes "current_state f \<noteq> None" and "J (fsm_arg f)" and "top + 2 \<le> n"
  shows "\<exists>f'. util_fsm_send_event h n (Some f) ev = Some (eSTATUS_SUCCESSFUL, Some f') \<and>
    J (fsm_arg f') \<and> current_state f' \<noteq> None"
  using dispatch_total [of f _ n ev] assms by (auto simp: util_fsm_send_event_def)

lemma run_total:
  assumes "current_state f \<noteq> None" and "J (fsm_arg f)" and "top + 2 \<le> n"
  shows "\<exists>f'. fsm_run h n evs f = Some f' \<and> J (fsm_arg f') \<and> current_state f' \<noteq> None"
  using assms(1,2)
proof (induction evs arbitrary: f)
  case (Cons ev evs)
  obtain f1 where "util_fsm_send_event h n (Some f) ev = Some (eSTATUS_SUCCESSFUL, Some f1)"
    "J (fsm_arg f1)" "current_state f1 \<noteq> None"
    using send_event_total [OF Cons.prems assms(3), of ev] by blast
  then show ?case using Cons.IH [of f1] by simp
qed simp

text \<open>A result does not depend on the depth it was computed with.\<close>

lemma call_state_depth:
  "call_state h n ev f = Some f' \<Longrightarrow> call_state h (Suc n) ev f = Some f'"
proof (induction n arbitrary: ev f f')
  case (Suc n)
  obtain st where cs: "current_state f = Some st"
    using Suc.prems by (cases "current_state f") auto
  have mono: "transition h (Suc n) next g = Some g'" if t: "transition h n next g = Some g'"
    for "next" g g'
  proof (cases "current_state g")
    case None
    with t show ?thesis by simp
  next
    case (Some st')
    with t obtain g1 where "call_state h n exit_event g = Some g1"
      "call_state h n entry_event (g1\<lparr>current_state := Some next\<rparr>) = Some g'"
      by (auto split: option.splits)
    with Some show ?thesis by (simp add: Suc.IH del: call_state.simps)
  qed
  have "h st (transition h n) ev f = Some f'" using Suc.prems cs by simp
  then have "h st (transition h (Suc n)) ev f = Some f'"
    using handler_mono [of "transition h n" "transition h (Suc n)"] mono by blast
  then show ?case by (subst call_state.simps) (simp add: cs del: call_state.simps)
qed simp

lemma call_state_depth_le:
  "call_state h n ev f = Some f' \<Longrightarrow> n \<le> m \<Longrightarrow> call_state h m ev f = Some f'"
proof (induction m)
  case (Suc m)
  then show ?case
    by (cases "n = Suc m") (auto simp del: call_state.simps dest: call_state_depth)
qed (simp del: call_state.simps)

end

end
