(* ===== verification/UtilQueue.thy ===== *)
theory UtilQueue
  imports Osal
begin

text \<open>
  The bounded event queue of an active object, \<^verbatim>\<open>src/src/util/queue/queue.c\<close>, and the contract of a
  bounded first-in first-out queue as a locale, interpreted on it.

  A queue is the C struct with its block of slots: \<open>q_buffer\<close> is the address of the block and
  \<open>q_slots\<close> its contents, \<open>None\<close> for a slot that was never written. Every operation holds the mutex
  from its first access to its last, so operations of different threads are atomic with respect to
  each other. A pop on an empty queue waits on the condition variable, which releases the mutex;
  the model returns \<open>None\<close> and changes nothing.
\<close>

section \<open>Operations\<close>

record 'a Queue =
  q_buffer :: addr
  q_slots :: "'a option list"
  q_capacity :: u32
  q_head :: u32
  q_tail :: u32
  q_size :: u32
  q_mutex :: addr
  q_not_empty :: addr

definition sizeof_ptr :: u64 where
  "sizeof_ptr = 8"

definition util_queue_init ::
    "'a Queue option \<Rightarrow> u32 \<Rightarrow> os \<Rightarrow> eStatus \<times> 'a Queue option \<times> os" where
  "util_queue_init queue cap s =
    (case queue of
       None \<Rightarrow> (eSTATUS_NULL_PARAM, None, s)
     | Some q \<Rightarrow>
        if cap = 0 then (eSTATUS_NULL_PARAM, Some q, s)
        else let (b, s) = osal_alloc (sizeof_ptr * ucast cap) s;
                 q = q\<lparr>q_buffer := b, q_slots := replicate (unat cap) None\<rparr>
             in if b = 0 then (eSTATUS_SYSTEM_ERROR, Some q, s)
                else let q = q\<lparr>q_capacity := cap, q_head := 0, q_tail := 0, q_size := 0\<rparr>;
                         (st, m, s) = osal_mutex_init (Some (q_mutex q)) s;
                         q = q\<lparr>q_mutex := the m\<rparr>
                     in if failed st then (eSTATUS_SYSTEM_ERROR, Some q, osal_dealloc (q_buffer q) s)
                        else let (st, c, s) = osal_cond_init (Some (q_not_empty q)) s;
                                 q = q\<lparr>q_not_empty := the c\<rparr>
                             in if failed st
                                then (eSTATUS_SYSTEM_ERROR, Some q, osal_dealloc (q_buffer q) s)
                                else (eSTATUS_SUCCESSFUL, Some q, s))"

text \<open>
  The push, over the calls of the operating system layer that it makes: \<open>QueueWait\<close> runs the same code where
  a signal also wakes a thread.
\<close>

definition queue_push_code ::
    "(addr \<Rightarrow> 's \<Rightarrow> 's) \<Rightarrow> (addr \<Rightarrow> 's \<Rightarrow> 's) \<Rightarrow> (addr \<Rightarrow> 's \<Rightarrow> 's) \<Rightarrow>
     'a Queue option \<Rightarrow> 'a \<Rightarrow> 's \<Rightarrow> eStatus \<times> 'a Queue option \<times> 's" where
  "queue_push_code lock signal unlock queue element s =
    (case queue of
       None \<Rightarrow> (eSTATUS_NULL_PARAM, None, s)
     | Some q \<Rightarrow>
        if q_buffer q = 0 then (eSTATUS_NULL_PARAM, Some q, s)
        else let s = lock (q_mutex q) s
             in if q_size q = q_capacity q
                then (eSTATUS_ACTION_FAILED, Some q, unlock (q_mutex q) s)
                else let q = q\<lparr>q_slots := (q_slots q)[unat (q_tail q) := Some element]\<rparr>;
                         q = q\<lparr>q_tail := (q_tail q + 1) mod q_capacity q\<rparr>;
                         q = q\<lparr>q_size := q_size q + 1\<rparr>;
                         s = signal (q_not_empty q) s
                     in (eSTATUS_SUCCESSFUL, Some q, unlock (q_mutex q) s))"

definition util_queue_push ::
    "'a Queue option \<Rightarrow> 'a \<Rightarrow> os \<Rightarrow> eStatus \<times> 'a Queue option \<times> os" where
  "util_queue_push = queue_push_code osal_mutex_lock osal_cond_signal osal_mutex_unlock"

lemmas util_queue_push_unfold = util_queue_push_def queue_push_code_def

text \<open>
  \<open>element\<close> is the location the popped element is written to, \<open>None\<close> for a null pointer. The outer
  option is \<open>None\<close> while the caller waits for an element.
\<close>

definition util_queue_pop ::
    "'a Queue option \<Rightarrow> 'a option option \<Rightarrow> os \<Rightarrow>
     (eStatus \<times> 'a option option \<times> 'a Queue option \<times> os) option" where
  "util_queue_pop queue element s =
    (case queue of
       None \<Rightarrow> Some (eSTATUS_NULL_PARAM, element, None, s)
     | Some q \<Rightarrow>
        if q_buffer q = 0 \<or> element = None then Some (eSTATUS_NULL_PARAM, element, Some q, s)
        else let s = osal_mutex_lock (q_mutex q) s
             in if q_size q = 0 then None
                else let element = Some (q_slots q ! unat (q_head q));
                         q = q\<lparr>q_head := (q_head q + 1) mod q_capacity q\<rparr>;
                         q = q\<lparr>q_size := q_size q - 1\<rparr>
                     in Some (eSTATUS_SUCCESSFUL, element, Some q, osal_mutex_unlock (q_mutex q) s))"

definition util_queue_delete :: "'a Queue option \<Rightarrow> os \<Rightarrow> os" where
  "util_queue_delete queue s =
    (case queue of
       None \<Rightarrow> s
     | Some q \<Rightarrow>
        let s = osal_mutex_destroy (q_mutex q) s;
            s = osal_cond_destroy (q_not_empty q) s
        in osal_dealloc (q_buffer q) s)"

section \<open>Abstraction and invariant\<close>

definition queue_wf :: "'a Queue \<Rightarrow> bool" where
  "queue_wf q \<longleftrightarrow>
    q_buffer q \<noteq> 0 \<and> q_capacity q \<noteq> 0 \<and> length (q_slots q) = unat (q_capacity q) \<and>
    q_head q < q_capacity q \<and> q_size q \<le> q_capacity q \<and>
    unat (q_tail q) = (unat (q_head q) + unat (q_size q)) mod unat (q_capacity q) \<and>
    None \<notin> set (ring_contents (q_slots q) (unat (q_head q)) (unat (q_size q)))"

definition queue_list :: "'a Queue \<Rightarrow> 'a list" where
  "queue_list q = map the (ring_contents (q_slots q) (unat (q_head q)) (unat (q_size q)))"

text \<open>The blocks of the queue are allocated and the caller does not hold its mutex.\<close>

definition queue_usable :: "'a Queue \<Rightarrow> os \<Rightarrow> bool" where
  "queue_usable q s \<longleftrightarrow>
    {q_buffer q, q_mutex q, q_not_empty q} \<subseteq> set (os_live s) \<and> q_mutex q \<notin> set (os_held s)"

lemma queue_list_length [simp]: "length (queue_list q) = unat (q_size q)"
  by (simp add: queue_list_def)

lemma queue_list_bounded: "queue_wf q \<Longrightarrow> length (queue_list q) \<le> unat (q_capacity q)"
  by (simp add: queue_wf_def word_le_nat_alt)

lemma queue_list_full_iff:
  "queue_wf q \<Longrightarrow> length (queue_list q) = unat (q_capacity q) \<longleftrightarrow> q_size q = q_capacity q"
  by (simp add: word_unat_eq_iff)

lemma queue_list_empty_iff: "queue_list q = [] \<longleftrightarrow> q_size q = 0"
  by (metis length_0_conv queue_list_length unat_eq_0)

lemma lock_unlock_usable:
  "queue_usable q s \<Longrightarrow>
    osal_mutex_unlock (q_mutex q) (osal_cond_signal (q_not_empty q) (osal_mutex_lock (q_mutex q) s)) = s"
  "queue_usable q s \<Longrightarrow> osal_mutex_unlock (q_mutex q) (osal_mutex_lock (q_mutex q) s) = s"
  by (simp_all add: queue_usable_def osal_defs)

text \<open>A push on a queue with room appends; the operating system state is as before.\<close>

lemma util_queue_push_room:
  assumes wf: "queue_wf q" and us: "queue_usable q s" and room: "q_size q \<noteq> q_capacity q"
  shows "\<exists>q'. util_queue_push (Some q) x s = (eSTATUS_SUCCESSFUL, Some q', s) \<and> queue_wf q' \<and>
    queue_list q' = queue_list q @ [x] \<and> q_capacity q' = q_capacity q \<and>
    (\<forall>s. queue_usable q' s = queue_usable q s)"
proof -
  let ?c = "unat (q_capacity q)" and ?h = "unat (q_head q)" and ?n = "unat (q_size q)"
  let ?sl = "(q_slots q)[unat (q_tail q) := Some x]"
  define q' where "q' = q\<lparr>q_slots := ?sl, q_tail := (q_tail q + 1) mod q_capacity q,
    q_size := q_size q + 1\<rparr>"
  have step: "util_queue_push (Some q) x s = (eSTATUS_SUCCESSFUL, Some q', s)"
    using wf room lock_unlock_usable [OF us]
    by (simp add: util_queue_push_unfold Let_def queue_wf_def q'_def)
  have len: "length (q_slots q) = ?c" and c0: "0 < ?c" and tail: "unat (q_tail q) = (?h + ?n) mod ?c"
    using wf by (auto simp: queue_wf_def unat_gt_0)
  have n: "?n < ?c"
    using wf room by (metis order_le_less queue_wf_def word_less_nat_alt)
  have n1: "unat (q_size q + 1) = Suc ?n"
    using n unat_lt_2p [of "q_capacity q"] by (simp add: unat_word_ariths)
  have tail1: "unat ((q_tail q + 1) mod q_capacity q) = (?h + Suc ?n) mod ?c"
  proof -
    have "q_tail q < q_capacity q" using tail c0 by (simp add: word_less_nat_alt)
    then have "unat ((q_tail q + 1) mod q_capacity q) = Suc (unat (q_tail q)) mod ?c"
      by (rule unat_Suc_mod)
    then show ?thesis by (simp add: tail mod_simps)
  qed
  have ring: "ring_contents ?sl ?h (Suc ?n) = ring_contents (q_slots q) ?h ?n @ [Some x]"
    using ring_contents_push [of ?n "q_slots q" ?h "Some x"] n len tail by simp
  have "queue_wf q'"
    using wf n tail1 n1 ring
    by (simp add: queue_wf_def q'_def word_le_nat_alt)
  moreover have "queue_list q' = queue_list q @ [x]"
    by (simp add: queue_list_def q'_def n1 ring)
  moreover have "q_capacity q' = q_capacity q" "\<forall>s. queue_usable q' s = queue_usable q s"
    by (simp_all add: q'_def queue_usable_def)
  ultimately show ?thesis using step by blast
qed

lemma util_queue_push_full:
  "queue_wf q \<Longrightarrow> queue_usable q s \<Longrightarrow> q_size q = q_capacity q \<Longrightarrow>
    util_queue_push (Some q) x s = (eSTATUS_ACTION_FAILED, Some q, s)"
  by (simp add: util_queue_push_unfold Let_def queue_wf_def lock_unlock_usable)

text \<open>A pop on a nonempty queue takes the oldest element.\<close>

lemma util_queue_pop_some:
  assumes wf: "queue_wf q" and us: "queue_usable q s" and xs: "queue_list q = y # ys"
  shows "\<exists>q'. util_queue_pop (Some q) (Some e) s
        = Some (eSTATUS_SUCCESSFUL, Some (Some y), Some q', s) \<and> queue_wf q' \<and>
    queue_list q' = ys \<and> q_capacity q' = q_capacity q \<and>
    (\<forall>s. queue_usable q' s = queue_usable q s)"
proof -
  let ?c = "unat (q_capacity q)" and ?h = "unat (q_head q)"
  have n0: "q_size q \<noteq> 0" using xs queue_list_empty_iff [of q] by simp
  then obtain n where n: "unat (q_size q) = Suc n"
    by (metis not0_implies_Suc unat_eq_0)
  have n1: "unat (q_size q - 1) = n" using n0 n by (simp add: unat_minus_one)
  have h: "?h < ?c" and len: "length (q_slots q) = ?c"
    using wf by (auto simp: queue_wf_def word_less_nat_alt)
  have h1: "unat ((q_head q + 1) mod q_capacity q) = Suc ?h mod ?c"
    using wf by (intro unat_Suc_mod) (simp add: queue_wf_def)
  define q' where "q' = q\<lparr>q_head := (q_head q + 1) mod q_capacity q, q_size := q_size q - 1\<rparr>"
  have ring: "ring_contents (q_slots q) ?h (unat (q_size q))
      = q_slots q ! ?h # ring_contents (q_slots q) (Suc ?h mod ?c) n"
    using ring_contents_pop [of "q_slots q" ?h n] n len h by simp
  then have y: "q_slots q ! ?h = Some y"
    using xs wf by (cases "q_slots q ! ?h") (auto simp: queue_list_def queue_wf_def)
  have step: "util_queue_pop (Some q) (Some e) s
      = Some (eSTATUS_SUCCESSFUL, Some (Some y), Some q', s)"
    using wf n0 lock_unlock_usable(2) [OF us] y
    by (simp add: util_queue_pop_def Let_def queue_wf_def q'_def)
  have "(?h + Suc n) mod ?c = (Suc ?h mod ?c + n) mod ?c" by (simp add: mod_simps)
  then have "queue_wf q'"
    using wf n n1 h1 ring h
    by (auto simp: queue_wf_def q'_def word_le_nat_alt word_less_nat_alt)
  moreover have "queue_list q' = ys"
    using xs by (simp add: queue_list_def q'_def n1 h1 ring)
  moreover have "q_capacity q' = q_capacity q" "\<forall>s. queue_usable q' s = queue_usable q s"
    by (simp_all add: q'_def queue_usable_def)
  ultimately show ?thesis using step by blast
qed

lemma util_queue_pop_waits:
  "queue_wf q \<Longrightarrow> queue_list q = [] \<Longrightarrow> util_queue_pop (Some q) (Some e) s = None"
  by (simp add: util_queue_pop_def Let_def queue_wf_def queue_list_empty_iff)


section \<open>The contract of a bounded queue\<close>

text \<open>
  A bounded queue over states \<open>'q\<close>: \<open>push\<close> tells whether the element was accepted, \<open>pop\<close> returns
  nothing when there is nothing to take.
\<close>

datatype 'a qop = Push 'a | Pop

text \<open>
  Runs a sequence of operations; the result is the accepted elements, the elements popped, both in
  order, and the final state. A pop that would wait has no effect.
\<close>

fun qrun :: "('a \<Rightarrow> 'q \<Rightarrow> bool \<times> 'q) \<Rightarrow> ('q \<Rightarrow> ('a \<times> 'q) option) \<Rightarrow> 'a qop list \<Rightarrow> 'q
    \<Rightarrow> 'a list \<times> 'a list \<times> 'q" where
  "qrun push pop [] q = ([], [], q)"
| "qrun push pop (Push x # ops) q =
     (let (ok, q') = push x q; (acc, out, q'') = qrun push pop ops q'
      in (if ok then x # acc else acc, out, q''))"
| "qrun push pop (Pop # ops) q =
     (case pop q of
        None \<Rightarrow> qrun push pop ops q
      | Some (x, q') \<Rightarrow> (let (acc, out, q'') = qrun push pop ops q' in (acc, x # out, q'')))"

locale bounded_fifo =
  fixes inv :: "'q \<Rightarrow> bool"
    and contents :: "'q \<Rightarrow> 'a list"
    and cap :: "'q \<Rightarrow> nat"
    and push :: "'a \<Rightarrow> 'q \<Rightarrow> bool \<times> 'q"
    and pop :: "'q \<Rightarrow> ('a \<times> 'q) option"
  assumes bounded: "inv q \<Longrightarrow> length (contents q) \<le> cap q"
    and push_full: "inv q \<Longrightarrow> length (contents q) = cap q \<Longrightarrow> push x q = (False, q)"
    and push_room: "inv q \<Longrightarrow> length (contents q) < cap q \<Longrightarrow>
      \<exists>q'. push x q = (True, q') \<and> inv q' \<and> contents q' = contents q @ [x] \<and> cap q' = cap q"
    and pop_empty: "inv q \<Longrightarrow> contents q = [] \<Longrightarrow> pop q = None"
    and pop_some: "inv q \<Longrightarrow> contents q = y # ys \<Longrightarrow>
      \<exists>q'. pop q = Some (y, q') \<and> inv q' \<and> contents q' = ys \<and> cap q' = cap q"
begin

lemma push_cases:
  assumes "inv q" and "push x q = (ok, q')"
  shows "inv q'" "cap q' = cap q" "contents q' = (if ok then contents q @ [x] else contents q)"
    "ok \<longleftrightarrow> length (contents q) < cap q"
  using bounded [OF assms(1)] push_full [OF assms(1), of x] push_room [OF assms(1), of x] assms
  by (auto simp: le_less)

lemma pop_cases:
  assumes "inv q" and "pop q = Some (y, q')"
  shows "inv q'" "cap q' = cap q" "contents q = y # contents q'"
  using pop_empty [OF assms(1)] pop_some [OF assms(1)] assms
  by (cases "contents q"; fastforce)+

text \<open>Nothing is lost, duplicated or reordered by any sequence of operations.\<close>

lemma fifo:
  assumes "inv q" and "qrun push pop ops q = (acc, out, q')"
  shows "contents q @ acc = out @ contents q' \<and> inv q' \<and> cap q' = cap q"
  using assms
proof (induction ops arbitrary: q acc out)
  case (Cons op ops)
  show ?case
  proof (cases op)
    case (Push x)
    obtain ok q1 where p: "push x q = (ok, q1)" by (cases "push x q") auto
    obtain acc1 where r: "qrun push pop ops q1 = (acc1, out, q')"
      and acc: "acc = (if ok then x # acc1 else acc1)"
      using Cons.prems(2) p Push by (auto split: prod.splits)
    note c = push_cases [OF Cons.prems(1) p]
    show ?thesis using Cons.IH [OF c(1) r] c acc by (auto split: if_splits)
  next
    case Pop
    show ?thesis
    proof (cases "pop q")
      case None
      then show ?thesis using Cons.IH [OF Cons.prems(1)] Cons.prems(2) Pop by simp
    next
      case (Some yq)
      then obtain y q1 where p: "pop q = Some (y, q1)" by (cases yq) auto
      obtain out1 where r: "qrun push pop ops q1 = (acc, out1, q')" and out: "out = y # out1"
        using Cons.prems(2) p Pop by (auto split: prod.splits)
      note c = pop_cases [OF Cons.prems(1) p]
      show ?thesis using Cons.IH [OF c(1) r] c out by simp
    qed
  qed
qed simp

end

section \<open>The event queue implements the contract\<close>

definition queue_push_op :: "'a \<Rightarrow> 'a Queue \<times> os \<Rightarrow> bool \<times> 'a Queue \<times> os" where
  "queue_push_op x qs =
    (case util_queue_push (Some (fst qs)) x (snd qs) of
       (st, q, s) \<Rightarrow> (\<not> failed st, the q, s))"

definition queue_pop_op :: "'a Queue \<times> os \<Rightarrow> ('a \<times> 'a Queue \<times> os) option" where
  "queue_pop_op qs =
    (case util_queue_pop (Some (fst qs)) (Some None) (snd qs) of
       None \<Rightarrow> None
     | Some (st, e, q, s) \<Rightarrow> Some (the (the e), the q, s))"

definition queue_inv :: "os \<Rightarrow> 'a Queue \<times> os \<Rightarrow> bool" where
  "queue_inv s0 qs \<longleftrightarrow> queue_wf (fst qs) \<and> queue_usable (fst qs) s0 \<and> snd qs = s0"

interpretation uq: bounded_fifo "queue_inv s0" "\<lambda>qs. queue_list (fst qs)"
    "\<lambda>qs. unat (q_capacity (fst qs))" queue_push_op queue_pop_op
  for s0
proof (unfold_locales, goal_cases)
  case (1 q)
  then show ?case by (simp add: queue_inv_def queue_list_bounded del: queue_list_length)
next
  case (2 q x)
  then have "q_size (fst q) = q_capacity (fst q)"
    using queue_list_full_iff [of "fst q"] by (simp add: queue_inv_def del: queue_list_length)
  with 2 show ?case
    using util_queue_push_full [of "fst q" "snd q" x]
    by (auto simp: queue_inv_def queue_push_op_def)
next
  case (3 q x)
  then have "q_size (fst q) \<noteq> q_capacity (fst q)" by auto
  with 3 obtain q' where
    "util_queue_push (Some (fst q)) x (snd q) = (eSTATUS_SUCCESSFUL, Some q', snd q)"
    "queue_wf q'" "queue_list q' = queue_list (fst q) @ [x]" "q_capacity q' = q_capacity (fst q)"
    "\<forall>s. queue_usable q' s = queue_usable (fst q) s"
    using util_queue_push_room [of "fst q" "snd q" x] by (auto simp: queue_inv_def)
  with 3 show ?case by (auto simp: queue_inv_def queue_push_op_def)
next
  case (4 q)
  then show ?case by (simp add: queue_inv_def queue_pop_op_def util_queue_pop_waits)
next
  case (5 q y ys)
  then obtain q' where
    "util_queue_pop (Some (fst q)) (Some None) (snd q)
       = Some (eSTATUS_SUCCESSFUL, Some (Some y), Some q', snd q)"
    "queue_wf q'" "queue_list q' = ys" "q_capacity q' = q_capacity (fst q)"
    "\<forall>s. queue_usable q' s = queue_usable (fst q) s"
    using util_queue_pop_some [of "fst q" "snd q" y ys None] by (auto simp: queue_inv_def)
  with 5 show ?case by (auto simp: queue_inv_def queue_pop_op_def)
qed

section \<open>Creation and deletion\<close>

lemma util_queue_init_success:
  assumes "os_wf s" and "cap \<noteq> 0" and "util_queue_init (Some q0) cap s = (eSTATUS_SUCCESSFUL, q, s')"
  shows "\<exists>q'. q = Some q' \<and> queue_wf q' \<and> queue_list q' = [] \<and> q_capacity q' = cap \<and>
    os_live s' = q_not_empty q' # q_mutex q' # q_buffer q' # os_live s \<and>
    os_held s' = os_held s \<and> os_wf s' \<and> os_ub s' = os_ub s \<and> os_stuck s' = os_stuck s \<and>
    (set (os_held s) \<subseteq> set (os_live s) \<longrightarrow> queue_usable q' s')"
  using assms os_wf_fresh [OF assms(1)]
  by (auto simp: util_queue_init_def osal_defs Let_def os_wf_def queue_wf_def queue_list_def
      queue_usable_def word_gt_0 less_Suc_eq split: if_splits)

lemma util_queue_delete_init:
  assumes "os_wf s" and "cap \<noteq> 0" and "util_queue_init (Some q0) cap s = (eSTATUS_SUCCESSFUL, q, s')"
  shows "os_live (util_queue_delete q s') = os_live s \<and> os_ub (util_queue_delete q s') = os_ub s"
proof -
  obtain q' where q: "q = Some q'"
    and live: "os_live s' = q_not_empty q' # q_mutex q' # q_buffer q' # os_live s"
    and wf: "os_wf s'" and ub: "os_ub s' = os_ub s"
    using util_queue_init_success [OF assms] by blast
  have "q_not_empty q' \<noteq> q_mutex q'" "q_not_empty q' \<noteq> q_buffer q'" "q_mutex q' \<noteq> q_buffer q'"
    "q_not_empty q' \<noteq> 0" "q_mutex q' \<noteq> 0" "q_buffer q' \<noteq> 0"
    using wf live by (auto simp: os_wf_def)
  then show ?thesis
    using live ub by (simp add: q util_queue_delete_def osal_defs Let_def)
qed

section \<open>Properties\<close>

text \<open>A queue with room for two elements and a process in which its blocks are allocated.\<close>

definition demo_queue :: "nat Queue" where
  "demo_queue = \<lparr>q_buffer = 1, q_slots = [None, None], q_capacity = 2, q_head = 0, q_tail = 0,
     q_size = 0, q_mutex = 2, q_not_empty = 3\<rparr>"

definition demo_os :: os where
  "demo_os = (boot_os (\<lambda>_. 0) (\<lambda>_. zero_timespec))\<lparr>os_live := [3, 2, 1], os_fresh := 4\<rparr>"

lemma demo_queue_ok: "queue_wf demo_queue" "queue_usable demo_queue demo_os"
  by (simp_all add: demo_queue_def demo_os_def boot_os_def queue_wf_def queue_usable_def)

text \<open>C1. First in, first out: for any sequence of pushes and pops on a well-formed queue, the
  elements held before followed by the accepted ones are the popped ones followed by those still
  held. No element is lost, duplicated or reordered, the capacity is fixed, the queue stays
  well-formed, and every mutex operation is balanced (the operating system state is as before).\<close>

lemma util_queue_fifo:
  assumes "queue_wf q" and "queue_usable q s"
    and "qrun queue_push_op queue_pop_op ops (q, s) = (acc, out, q', s')"
  shows "queue_list q @ acc = out @ queue_list q' \<and> queue_wf q' \<and> queue_usable q' s' \<and>
    q_capacity q' = q_capacity q \<and> s' = s"
  using uq.fifo [of s "(q, s)", OF _ assms(3)] assms(1,2)
  by (auto simp: queue_inv_def word_unat_eq_iff)

lemma util_queue_fifo_witness:
  "\<exists>acc out q' s'. qrun queue_push_op queue_pop_op [Push 7, Push 8, Push 9, Pop] (demo_queue, demo_os)
      = (acc, out, q', s') \<and> acc = [7, 8] \<and> out = [7] \<and> acc = out @ queue_list q' \<and> s' = demo_os"
proof -
  obtain acc out q' s' where r: "qrun queue_push_op queue_pop_op [Push 7, Push 8, Push 9, Pop]
      (demo_queue, demo_os) = (acc, out, q', s')"
    by (metis prod_cases4)
  have "acc = [7, 8]" "out = [7]"
    using r by (auto simp: queue_push_op_def queue_pop_op_def util_queue_push_unfold util_queue_pop_def
        demo_queue_def demo_os_def boot_os_def osal_defs Let_def)
  moreover have "queue_list demo_queue = []" by (simp add: queue_list_empty_iff demo_queue_def)
  ultimately show ?thesis
    using util_queue_fifo [OF demo_queue_ok r] r by auto
qed

text \<open>The outcome of a push and a pop: a push is refused exactly when the queue is full and then
  changes nothing, otherwise it appends; a pop waits exactly when the queue is empty, otherwise it
  returns the oldest element.\<close>

lemma util_queue_outcomes:
  assumes "queue_wf q" and "queue_usable q s"
  shows "(if length (queue_list q) = unat (q_capacity q)
          then util_queue_push (Some q) x s = (eSTATUS_ACTION_FAILED, Some q, s)
          else \<exists>q'. util_queue_push (Some q) x s = (eSTATUS_SUCCESSFUL, Some q', s) \<and>
                 queue_list q' = queue_list q @ [x]) \<and>
    (case queue_list q of
       [] \<Rightarrow> util_queue_pop (Some q) (Some e) s = None
     | y # ys \<Rightarrow> \<exists>q'. util_queue_pop (Some q) (Some e) s
           = Some (eSTATUS_SUCCESSFUL, Some (Some y), Some q', s) \<and> queue_list q' = ys)"
  using util_queue_push_full [OF assms, of x] util_queue_push_room [OF assms, of x]
    util_queue_pop_waits [OF assms(1), of e s] util_queue_pop_some [OF assms, of _ _ e]
    queue_list_full_iff [OF assms(1)]
  by (auto split: list.split)

lemma util_queue_outcomes_witness:
  "(\<exists>q'. util_queue_push (Some demo_queue) 7 demo_os = (eSTATUS_SUCCESSFUL, Some q', demo_os) \<and>
     queue_list q' = [7]) \<and> util_queue_pop (Some demo_queue) (Some None) demo_os = None"
proof -
  have "queue_list demo_queue = []" "q_capacity demo_queue = 2"
    by (simp_all add: queue_list_empty_iff demo_queue_def)
  then show ?thesis
    using util_queue_outcomes [OF demo_queue_ok, of 7 None] by auto
qed

text \<open>Creating and deleting a queue is balanced: a created queue is empty, well-formed and usable,
  and deleting it frees exactly the blocks its creation allocated, without touching a freed block.\<close>

lemma util_queue_lifetime:
  assumes "os_wf s" and "set (os_held s) \<subseteq> set (os_live s)" and "cap \<noteq> 0"
    and "util_queue_init (Some q0) cap s = (eSTATUS_SUCCESSFUL, q, s')"
  shows "\<exists>q'. q = Some q' \<and> queue_wf q' \<and> queue_list q' = [] \<and> q_capacity q' = cap \<and>
    queue_usable q' s' \<and>
    os_live (util_queue_delete q s') = os_live s \<and> os_ub (util_queue_delete q s') = os_ub s"
  using util_queue_init_success [OF assms(1,3,4)] util_queue_delete_init [OF assms(1,3,4)] assms(2)
  by auto

definition init_answers :: "nat \<Rightarrow> int" where
  "init_answers n = [1, 1, 0, 1, 0] ! n"

lemma util_queue_lifetime_witness:
  "\<exists>q s'. util_queue_init (Some demo_queue) 4 (boot_os init_answers (\<lambda>_. zero_timespec))
      = (eSTATUS_SUCCESSFUL, q, s') \<and> os_live (util_queue_delete q s') = []"
proof -
  let ?s = "boot_os init_answers (\<lambda>_. zero_timespec)"
  obtain st q s' where r: "util_queue_init (Some demo_queue) 4 ?s = (st, q, s')"
    by (cases "util_queue_init (Some demo_queue) 4 ?s") auto
  have "st = eSTATUS_SUCCESSFUL"
    using r by (auto simp: util_queue_init_def osal_defs Let_def boot_os_def init_answers_def)
  with r have "util_queue_init (Some demo_queue) 4 ?s = (eSTATUS_SUCCESSFUL, q, s')" by simp
  moreover have "os_live (util_queue_delete q s') = os_live ?s"
    using util_queue_lifetime [OF boot_os_wf _ _ calculation] by (auto simp: boot_os_def)
  ultimately show ?thesis by (auto simp: boot_os_def)
qed

text \<open>The error path of the creation that leaks: when the buffer and the mutex were created and
  the condition variable could not be, the call fails and the mutex stays allocated, although the
  caller gets no queue to delete.\<close>

lemma util_queue_init_leaks_mutex:
  assumes "os_wf s" and "cap \<noteq> 0" and "os_answers s (os_asked s) \<noteq> 0"
    and "os_answers s (os_asked s + 1) \<noteq> 0" and "os_answers s (os_asked s + 2) = 0"
    and "os_answers s (os_asked s + 3) = 0"
  shows "\<exists>q s'. util_queue_init (Some q0) cap s = (eSTATUS_SYSTEM_ERROR, Some q, s') \<and>
    os_live s' = q_mutex q # os_live s \<and> q_mutex q \<notin> set (os_live s)"
proof -
  have "os_fresh s \<noteq> 0" using assms(1) by (simp add: os_wf_def)
  then show ?thesis
    using assms(2-) os_wf_fresh [OF assms(1)]
    by (simp add: util_queue_init_def osal_defs Let_def numeral_eq_Suc)
qed

lemma util_queue_init_leaks_mutex_witness:
  "\<exists>q s'. util_queue_init (Some demo_queue) 4 (boot_os (\<lambda>n. [1, 1, 0, 0] ! n) (\<lambda>_. zero_timespec))
      = (eSTATUS_SYSTEM_ERROR, Some q, s') \<and> os_live s' = [q_mutex q]"
  using util_queue_init_leaks_mutex
    [of "boot_os (\<lambda>n. [1, 1, 0, 0] ! n) (\<lambda>_. zero_timespec)" 4 demo_queue]
  by (simp add: boot_os_def os_wf_def)

end
