(* ===== verification/ActiveObject.thy ===== *)
theory ActiveObject
  imports UtilFsm UtilQueue
begin

text \<open>
  Active objects, \<^verbatim>\<open>src/src/util/active_object/active_object.c\<close>: an event queue, a state machine and
  the thread that feeds the machine from the queue. The operations called by other threads are
  functions; the thread itself (\<^verbatim>\<open>active_entry\<close>) and the posts of the other threads are the steps of
  a relation with labels, so that a run shows what was posted and what was handled, in order.
\<close>

section \<open>Operations\<close>

text \<open>
  In the source the machine's argument points to the object whose first member is the
  \<^verbatim>\<open>ActiveObject\<close>; here the rest of that object is the machine's \<open>fsm_arg\<close>.
\<close>

record ('st, 'a) ActiveObject =
  ao_thread :: addr
  event_queue :: "Event Queue"
  active_fsm :: "('st, 'a) FSM"
  ao_init_state :: "'st option"

definition end_event :: Event where "end_event = \<lparr>etype = eFSM_EVENT_END\<rparr>"

definition util_active_object_init ::
    "('st, 'a) ActiveObject option \<Rightarrow> u32 \<Rightarrow> 'st option \<Rightarrow> os
      \<Rightarrow> eStatus \<times> ('st, 'a) ActiveObject option \<times> os" where
  "util_active_object_init active_object capacity init_state s =
    (if active_object = None \<or> init_state = None then (eSTATUS_NULL_PARAM, active_object, s)
     else let a = (the active_object)\<lparr>ao_init_state := init_state\<rparr>;
              (st, q, s) = util_queue_init (Some (event_queue a)) capacity s;
              a = a\<lparr>event_queue := the q\<rparr>
          in if failed st then (eSTATUS_SYSTEM_ERROR, Some a, s)
             else let (st, t, s) = osal_thread_create (Some (ao_thread a)) (Some ()) s;
                      a = a\<lparr>ao_thread := the t\<rparr>
                  in if failed st
                     then (eSTATUS_SYSTEM_ERROR, Some a, util_queue_delete (Some (event_queue a)) s)
                     else (eSTATUS_SUCCESSFUL, Some a, s))"

definition util_active_object_post ::
    "('st, 'a) ActiveObject option \<Rightarrow> Event option \<Rightarrow> os
      \<Rightarrow> eStatus \<times> ('st, 'a) ActiveObject option \<times> os" where
  "util_active_object_post active_object event s =
    (if active_object = None \<or> event = None then (eSTATUS_NULL_PARAM, active_object, s)
     else let a = the active_object;
              (status, q, s) = util_queue_push (Some (event_queue a)) (the event) s;
              a = a\<lparr>event_queue := the q\<rparr>
          in if status = eSTATUS_ACTION_FAILED \<or> status \<noteq> eSTATUS_SUCCESSFUL
             then (eSTATUS_ACTION_FAILED, Some a, s)
             else (eSTATUS_SUCCESSFUL, Some a, s))"

definition util_active_object_end ::
    "('st, 'a) ActiveObject option \<Rightarrow> os \<Rightarrow> eStatus \<times> ('st, 'a) ActiveObject option \<times> os" where
  "util_active_object_end active_object s = util_active_object_post active_object (Some end_event) s"

definition util_active_object_join :: "('st, 'a) ActiveObject \<Rightarrow> os \<Rightarrow> os" where
  "util_active_object_join a s = osal_thread_join (ao_thread a) s"

definition util_active_object_delete :: "('st, 'a) ActiveObject \<Rightarrow> os \<Rightarrow> os" where
  "util_active_object_delete a s = util_queue_delete (Some (event_queue a)) s"

section \<open>The thread\<close>

text \<open>The thread has not run yet, runs its event loop, or left it.\<close>

datatype phase = Created | Running | Ended

record ('st, 'a) ao_sys =
  sys_ao :: "('st, 'a) ActiveObject"
  sys_phase :: phase
  sys_os :: os

datatype label = Started | Posted Event eStatus | Handled Event | Stopped Event

text \<open>
  One step: the thread initialises the machine, another thread posts an event, or the thread pops
  an event and either leaves the loop (END) or sends it to the machine. The thread takes no step
  while the queue is empty.
\<close>

inductive ao_step :: "('st \<Rightarrow> ('st, 'a) StateFP) \<Rightarrow> nat \<Rightarrow> ('st, 'a) ao_sys \<Rightarrow> label \<Rightarrow> ('st, 'a) ao_sys \<Rightarrow> bool"
  for h n where
  start: "sys_phase S = Created \<Longrightarrow>
    util_fsm_init h n (Some (active_fsm (sys_ao S))) (ao_init_state (sys_ao S))
      (fsm_arg (active_fsm (sys_ao S))) = Some (st, Some f) \<Longrightarrow>
    ao_step h n S Started (S\<lparr>sys_ao := (sys_ao S)\<lparr>active_fsm := f\<rparr>, sys_phase := Running\<rparr>)"
| post: "util_active_object_post (Some (sys_ao S)) (Some e) (sys_os S) = (st, Some a, s) \<Longrightarrow>
    ao_step h n S (Posted e st) (S\<lparr>sys_ao := a, sys_os := s\<rparr>)"
| handle: "sys_phase S = Running \<Longrightarrow>
    util_queue_pop (Some (event_queue (sys_ao S))) (Some None) (sys_os S)
      = Some (st, Some (Some e), Some q, s) \<Longrightarrow>
    etype e \<noteq> eFSM_EVENT_END \<Longrightarrow>
    util_fsm_send_event h n (Some (active_fsm (sys_ao S))) e = Some (st', Some f) \<Longrightarrow>
    ao_step h n S (Handled e)
      (S\<lparr>sys_ao := (sys_ao S)\<lparr>event_queue := q, active_fsm := f\<rparr>, sys_os := s\<rparr>)"
| stop: "sys_phase S = Running \<Longrightarrow>
    util_queue_pop (Some (event_queue (sys_ao S))) (Some None) (sys_os S)
      = Some (st, Some (Some e), Some q, s) \<Longrightarrow>
    etype e = eFSM_EVENT_END \<Longrightarrow>
    ao_step h n S (Stopped e)
      (S\<lparr>sys_ao := (sys_ao S)\<lparr>event_queue := q\<rparr>, sys_phase := Ended, sys_os := s\<rparr>)"

inductive ao_run :: "('st \<Rightarrow> ('st, 'a) StateFP) \<Rightarrow> nat \<Rightarrow> ('st, 'a) ao_sys \<Rightarrow> label list \<Rightarrow> ('st, 'a) ao_sys \<Rightarrow> bool"
  for h n where
  nil: "ao_run h n S [] S"
| more: "ao_step h n S l S' \<Longrightarrow> ao_run h n S' ls S'' \<Longrightarrow> ao_run h n S (l # ls) S''"

inductive_cases ao_stepE: "ao_step h n S l S'"
inductive_cases ao_run_NilE [elim!]: "ao_run h n S [] S'"
inductive_cases ao_run_ConsE [elim!]: "ao_run h n S (l # ls) S'"

text \<open>The events a run accepted into the queue and the events it took out, in order.\<close>

fun accepted :: "label list \<Rightarrow> Event list" where
  "accepted [] = []"
| "accepted (Posted e st # ls) = (if failed st then accepted ls else e # accepted ls)"
| "accepted (l # ls) = accepted ls"

fun taken :: "label list \<Rightarrow> Event list" where
  "taken [] = []"
| "taken (Handled e # ls) = e # taken ls"
| "taken (Stopped e # ls) = e # taken ls"
| "taken (l # ls) = taken ls"

section \<open>Facts\<close>

definition ao_inv :: "('st, 'a) ao_sys \<Rightarrow> bool" where
  "ao_inv S \<longleftrightarrow> queue_wf (event_queue (sys_ao S)) \<and> queue_usable (event_queue (sys_ao S)) (sys_os S)"

lemma post_cases:
  assumes inv: "queue_inv s0 (event_queue a, s)"
    and p: "util_active_object_post (Some a) (Some e) s = (st, Some a', s')"
  shows "queue_inv s0 (event_queue a', s')" "active_fsm a' = active_fsm a"
    "ao_init_state a' = ao_init_state a" "ao_thread a' = ao_thread a"
    "q_capacity (event_queue a') = q_capacity (event_queue a)"
    "st = (if length (queue_list (event_queue a)) < unat (q_capacity (event_queue a))
           then eSTATUS_SUCCESSFUL else eSTATUS_ACTION_FAILED)"
    "queue_list (event_queue a') = queue_list (event_queue a) @ (if failed st then [] else [e])"
proof -
  obtain st1 q1 s1 where u: "util_queue_push (Some (event_queue a)) e s = (st1, q1, s1)"
    by (cases "util_queue_push (Some (event_queue a)) e s") auto
  have op: "queue_push_op e (event_queue a, s) = (\<not> failed st1, the q1, s1)"
    by (simp add: queue_push_op_def u)
  note c = uq.push_cases [OF inv op]
  have res: "st = (if failed st1 then eSTATUS_ACTION_FAILED else eSTATUS_SUCCESSFUL)"
    "a' = a\<lparr>event_queue := the q1\<rparr>" "s' = s1"
    using p u by (auto simp: util_active_object_post_def Let_def split: if_splits)
  show "queue_inv s0 (event_queue a', s')" "active_fsm a' = active_fsm a"
    "ao_init_state a' = ao_init_state a" "ao_thread a' = ao_thread a"
    "q_capacity (event_queue a') = q_capacity (event_queue a)"
    "st = (if length (queue_list (event_queue a)) < unat (q_capacity (event_queue a))
           then eSTATUS_SUCCESSFUL else eSTATUS_ACTION_FAILED)"
    "queue_list (event_queue a') = queue_list (event_queue a) @ (if failed st then [] else [e])"
    using c res by (auto simp: word_unat_eq_iff split: if_splits)
qed

lemma pop_cases_ao:
  assumes inv: "queue_inv s0 (q, s)"
    and p: "util_queue_pop (Some q) (Some None) s = Some (st, Some (Some e), Some q', s')"
  shows "queue_inv s0 (q', s')" "queue_list q = e # queue_list q'" "q_capacity q' = q_capacity q"
proof -
  have op: "queue_pop_op (q, s) = Some (e, q', s')" by (simp add: queue_pop_op_def p)
  show "queue_inv s0 (q', s')" "queue_list q = e # queue_list q'" "q_capacity q' = q_capacity q"
    using uq.pop_cases [OF inv op] by (auto simp: word_unat_eq_iff)
qed

lemma ao_inv_queue_inv: "ao_inv S \<Longrightarrow> queue_inv (sys_os S) (event_queue (sys_ao S), sys_os S)"
  by (simp add: ao_inv_def queue_inv_def)

lemma queue_inv_ao_inv:
  "queue_inv s0 (event_queue (sys_ao S), sys_os S) \<Longrightarrow> ao_inv S"
  by (auto simp: ao_inv_def queue_inv_def)

lemma ao_step_conserves:
  assumes "ao_step h n S l S'" and "ao_inv S"
  shows "ao_inv S' \<and> queue_list (event_queue (sys_ao S)) @ accepted [l]
      = taken [l] @ queue_list (event_queue (sys_ao S'))"
  using assms
proof (cases rule: ao_step.cases)
  case (post e st a s)
  note c = post_cases [OF ao_inv_queue_inv [OF assms(2)] post(3)]
  show ?thesis using c(1,7) post by (auto intro: queue_inv_ao_inv simp: queue_inv_def ao_inv_def)
next
  case (handle st e q s st' f)
  note c = pop_cases_ao [OF ao_inv_queue_inv [OF assms(2)] handle(4)]
  show ?thesis using c handle by (auto simp: queue_inv_def ao_inv_def)
next
  case (stop st e q s)
  note c = pop_cases_ao [OF ao_inv_queue_inv [OF assms(2)] stop(4)]
  show ?thesis using c stop by (auto simp: queue_inv_def ao_inv_def)
qed (simp_all add: ao_inv_def)

lemma accepted_Cons: "accepted (l # ls) = accepted [l] @ accepted ls"
  by (cases l) auto

lemma taken_Cons: "taken (l # ls) = taken [l] @ taken ls"
  by (cases l) auto

lemma ao_run_conserves:
  assumes "ao_run h n S ls S'" and "ao_inv S"
  shows "ao_inv S' \<and> queue_list (event_queue (sys_ao S)) @ accepted ls
      = taken ls @ queue_list (event_queue (sys_ao S'))"
  using assms
proof (induction rule: ao_run.induct)
  case (more S l S' ls S'')
  note c = ao_step_conserves [OF more.hyps(1) more.prems]
  have "queue_list (event_queue (sys_ao S)) @ accepted (l # ls)
      = taken [l] @ queue_list (event_queue (sys_ao S')) @ accepted ls"
    using c by (subst accepted_Cons) (metis append.assoc)
  also have "\<dots> = taken (l # ls) @ queue_list (event_queue (sys_ao S''))"
    using more.IH c by (subst taken_Cons) simp
  finally show ?case using more.IH c by blast
qed simp

text \<open>Once the thread left its loop it never handles another event.\<close>

lemma ao_step_ended:
  "ao_step h n S l S' \<Longrightarrow> sys_phase S = Ended \<Longrightarrow> sys_phase S' = Ended \<and> taken [l] = []"
  by (erule ao_stepE) auto

lemma ao_run_ended:
  "ao_run h n S ls S' \<Longrightarrow> sys_phase S = Ended \<Longrightarrow> sys_phase S' = Ended \<and> taken ls = []"
proof (induction rule: ao_run.induct)
  case (more S l S' ls S'')
  then show ?case using ao_step_ended [OF more.hyps(1)] by (simp add: taken_Cons [of l ls])
qed simp

lemma ao_run_stop_last:
  assumes "ao_run h n S ls S'" and "ls = ls1 @ Stopped e # ls2"
  shows "taken ls2 = [] \<and> etype e = eFSM_EVENT_END \<and> sys_phase S' = Ended"
  using assms
proof (induction arbitrary: ls1 rule: ao_run.induct)
  case (more S l S' ls S'')
  show ?case
  proof (cases ls1)
    case Nil
    then have l: "l = Stopped e" "ls = ls2" using more.prems by auto
    then have "sys_phase S' = Ended" "etype e = eFSM_EVENT_END"
      using more.hyps(1) by (auto elim: ao_stepE)
    then show ?thesis using ao_run_ended [OF more.hyps(2)] l by blast
  next
    case (Cons l' ls1')
    then show ?thesis using more.IH [of ls1'] more.prems by simp
  qed
qed simp

text \<open>The events the machine was given, in order.\<close>

fun handled :: "label list \<Rightarrow> Event list" where
  "handled [] = []"
| "handled (Handled e # ls) = e # handled ls"
| "handled (l # ls) = handled ls"

lemma ao_step_running:
  assumes "ao_step h n S l S'" and "sys_phase S \<noteq> Created"
  shows "sys_phase S' \<noteq> Created \<and>
    (case l of
       Handled e \<Rightarrow> (\<exists>st. util_fsm_send_event h n (Some (active_fsm (sys_ao S))) e
                      = Some (st, Some (active_fsm (sys_ao S'))))
     | _ \<Rightarrow> active_fsm (sys_ao S') = active_fsm (sys_ao S))"
  using assms
proof (cases rule: ao_step.cases)
  case (post e st a s)
  then show ?thesis
    using assms(2)
    by (auto simp: util_active_object_post_def Let_def split: prod.splits if_splits)
qed auto

text \<open>The thread runs the machine over the handled events, one after the other.\<close>

lemma ao_run_machine:
  assumes "ao_run h n S ls S'" and "sys_phase S \<noteq> Created"
  shows "fsm_run h n (handled ls) (active_fsm (sys_ao S)) = Some (active_fsm (sys_ao S'))"
  using assms
proof (induction rule: ao_run.induct)
  case (more S l S' ls S'')
  then show ?case
    using ao_step_running [OF more.hyps(1) more.prems] by (cases l) auto
qed simp

text \<open>A thread whose machine handles every event ends when it reaches a queued END.\<close>

lemma pop_some_ao:
  assumes "ao_inv S" and "queue_list (event_queue (sys_ao S)) = e # es"
  shows "\<exists>q'. util_queue_pop (Some (event_queue (sys_ao S))) (Some None) (sys_os S)
      = Some (eSTATUS_SUCCESSFUL, Some (Some e), Some q', sys_os S) \<and> queue_list q' = es \<and>
    queue_wf q' \<and> queue_usable q' (sys_os S)"
  using util_queue_pop_some [of "event_queue (sys_ao S)" "sys_os S" e es None] assms
    pop_cases_ao [OF ao_inv_queue_inv [OF assms(1)]]
  by (fastforce simp: ao_inv_def queue_inv_def)

context fsm_machine
begin

lemma thread_ends:
  assumes "ao_inv S" and "sys_phase S = Running"
    and "current_state (active_fsm (sys_ao S)) \<noteq> None" and "J (fsm_arg (active_fsm (sys_ao S)))"
    and "top + 2 \<le> n"
    and "queue_list (event_queue (sys_ao S)) = es @ e # rest"
    and "list_all (\<lambda>x. etype x \<noteq> eFSM_EVENT_END) es" and "etype e = eFSM_EVENT_END"
  shows "\<exists>S'. ao_run h n S (map Handled es @ [Stopped e]) S' \<and> sys_phase S' = Ended \<and>
    queue_list (event_queue (sys_ao S')) = rest \<and> J (fsm_arg (active_fsm (sys_ao S')))"
  using assms
proof (induction es arbitrary: S)
  case Nil
  obtain q' where q': "util_queue_pop (Some (event_queue (sys_ao S))) (Some None) (sys_os S)
      = Some (eSTATUS_SUCCESSFUL, Some (Some e), Some q', sys_os S)" "queue_list q' = rest"
    using pop_some_ao [OF Nil.prems(1), of e rest] Nil.prems(6) by auto
  have "ao_run h n S [Stopped e]
      (S\<lparr>sys_ao := (sys_ao S)\<lparr>event_queue := q'\<rparr>, sys_phase := Ended, sys_os := sys_os S\<rparr>)"
    by (rule ao_run.more [OF ao_step.stop [OF Nil.prems(2) q'(1) Nil.prems(8)] ao_run.nil])
  then show ?case
    using q'(2) Nil.prems(4)
    by (intro exI [of _ "S\<lparr>sys_ao := (sys_ao S)\<lparr>event_queue := q'\<rparr>, sys_phase := Ended, sys_os := sys_os S\<rparr>"])
      simp
next
  case (Cons x es)
  obtain q' where q': "util_queue_pop (Some (event_queue (sys_ao S))) (Some None) (sys_os S)
      = Some (eSTATUS_SUCCESSFUL, Some (Some x), Some q', sys_os S)" "queue_list q' = es @ e # rest"
    "queue_wf q'" "queue_usable q' (sys_os S)"
    using pop_some_ao [OF Cons.prems(1), of x "es @ e # rest"] Cons.prems(6) by auto
  obtain f' where f': "util_fsm_send_event h n (Some (active_fsm (sys_ao S))) x
      = Some (eSTATUS_SUCCESSFUL, Some f')" "J (fsm_arg f')" "current_state f' \<noteq> None"
    using send_event_total [OF Cons.prems(3,4,5), of x] by blast
  let ?S = "S\<lparr>sys_ao := (sys_ao S)\<lparr>event_queue := q', active_fsm := f'\<rparr>, sys_os := sys_os S\<rparr>"
  have "etype x \<noteq> eFSM_EVENT_END" using Cons.prems(7) by simp
  then have step: "ao_step h n S (Handled x) ?S"
    using ao_step.handle [OF Cons.prems(2) q'(1) _ f'(1)] by simp
  obtain S' where "ao_run h n ?S (map Handled es @ [Stopped e]) S'" "sys_phase S' = Ended"
    "queue_list (event_queue (sys_ao S')) = rest" "J (fsm_arg (active_fsm (sys_ao S')))"
    using Cons.IH [of ?S] Cons.prems f' q'(2-4) by (auto simp: ao_inv_def)
  then show ?case using ao_run.more [OF step] by auto
qed

end

section \<open>Creation\<close>

text \<open>\<open>s'\<close> is a later state of \<open>s\<close> in which nothing allocated before was freed.\<close>

definition os_extends :: "os \<Rightarrow> os \<Rightarrow> bool" where
  "os_extends s s' \<longleftrightarrow> set (os_live s) \<subseteq> set (os_live s') \<and> os_held s' = os_held s \<and>
    os_ub s' = os_ub s \<and> os_stuck s' = os_stuck s \<and> (os_wf s \<longrightarrow> os_wf s')"

lemma os_extends_refl [simp]: "os_extends s s"
  by (simp add: os_extends_def)

lemma os_extends_trans: "os_extends s s' \<Longrightarrow> os_extends s' s'' \<Longrightarrow> os_extends s s''"
  by (auto simp: os_extends_def)

definition ao_ready :: "('st, 'a) ActiveObject \<Rightarrow> os \<Rightarrow> bool" where
  "ao_ready a s \<longleftrightarrow> queue_wf (event_queue a) \<and> queue_usable (event_queue a) s"

lemma ao_ready_extends: "ao_ready a s \<Longrightarrow> os_extends s s' \<Longrightarrow> ao_ready a s'"
  by (auto simp: ao_ready_def queue_usable_def os_extends_def)

lemma thread_create_success:
  assumes "osal_thread_create (Some l) (Some e) s = (eSTATUS_SUCCESSFUL, t, s')" and "os_wf s"
  shows "os_extends s s' \<and> the t \<noteq> 0 \<and> os_threads s' = the t # os_threads s"
  using assms os_wf_fresh [OF assms(2)]
  by (auto simp: osal_thread_create_def osal_alloc_def ask_def os_extends_def os_wf_def Let_def
      less_Suc_eq split: if_splits)

lemma util_queue_init_threads:
  "util_queue_init q cap s = (st, q', s') \<Longrightarrow> os_threads s' = os_threads s"
  by (auto simp: util_queue_init_def osal_alloc_def osal_dealloc_def osal_mutex_init_def
      osal_cond_init_def ask_def Let_def split: option.splits if_splits prod.splits)

lemma util_active_object_init_success:
  assumes wf: "os_wf s" and cap: "cap \<noteq> 0" and held: "set (os_held s) \<subseteq> set (os_live s)"
    and init: "util_active_object_init (Some a) cap (Some st0) s = (eSTATUS_SUCCESSFUL, r, s')"
  shows "\<exists>a'. r = Some a' \<and> ao_ready a' s' \<and> queue_list (event_queue a') = [] \<and>
    q_capacity (event_queue a') = cap \<and> ao_init_state a' = Some st0 \<and>
    active_fsm a' = active_fsm a \<and> ao_thread a' \<noteq> 0 \<and> os_extends s s' \<and>
    os_threads s' = ao_thread a' # os_threads s"
proof -
  define a0 where "a0 = a\<lparr>ao_init_state := Some st0\<rparr>"
  obtain st q s1 where q: "util_queue_init (Some (event_queue a0)) cap s = (st, q, s1)"
    by (cases "util_queue_init (Some (event_queue a0)) cap s") auto
  then have st: "st = eSTATUS_SUCCESSFUL"
    using init by (auto simp: util_active_object_init_def a0_def Let_def split: if_splits)
  obtain q' where q': "q = Some q'" "queue_wf q'" "queue_list q' = []" "q_capacity q' = cap"
    "os_live s1 = q_not_empty q' # q_mutex q' # q_buffer q' # os_live s"
    "os_held s1 = os_held s" "os_wf s1" "os_ub s1 = os_ub s" "os_stuck s1 = os_stuck s"
    "queue_usable q' s1"
    using util_queue_init_success [OF wf cap q [unfolded st]] held by blast
  obtain st2 t s2 where t: "osal_thread_create (Some (ao_thread a0)) (Some ()) s1 = (st2, t, s2)"
    by (cases "osal_thread_create (Some (ao_thread a0)) (Some ()) s1") auto
  have st2: "st2 = eSTATUS_SUCCESSFUL" and r: "r = Some (a0\<lparr>event_queue := q', ao_thread := the t\<rparr>)"
    and s': "s' = s2"
    using init q t by (auto simp: util_active_object_init_def a0_def st q'(1) Let_def split: if_splits)
  note tc = thread_create_success [OF t [unfolded st2] q'(7)]
  have ext: "os_extends s s1" using q' by (auto simp: os_extends_def)
  have "queue_usable q' s2" using q'(10) tc by (auto simp: queue_usable_def os_extends_def)
  then show ?thesis
    using tc q'(2-4) os_extends_trans [OF ext] util_queue_init_threads [OF q]
    by (simp add: r s' a0_def ao_ready_def)
qed

section \<open>The contract of a module\<close>

text \<open>
  What the module tables of the DDL and APP layers rely on: posting appends to the module's queue or
  reports that it is full, and changes nothing else; ending posts the END event.
\<close>

locale ao_module =
  fixes post :: "Event option \<Rightarrow> 'm \<Rightarrow> os \<Rightarrow> eStatus \<times> 'm option \<times> os"
    and finish :: "'m \<Rightarrow> os \<Rightarrow> eStatus \<times> 'm option \<times> os"
    and queue :: "'m \<Rightarrow> Event Queue"
  assumes post_null: "post None m s = (eSTATUS_NULL_PARAM, Some m, s)"
    and post_some: "queue_inv s (queue m, s) \<Longrightarrow>
      \<exists>m'. post (Some e) m s = (if unat (q_size (queue m)) < unat (q_capacity (queue m))
            then eSTATUS_SUCCESSFUL else eSTATUS_ACTION_FAILED, Some m', s) \<and>
        queue_inv s (queue m', s) \<and> q_capacity (queue m') = q_capacity (queue m) \<and>
        queue_list (queue m') = queue_list (queue m) @
          (if unat (q_size (queue m)) < unat (q_capacity (queue m)) then [e] else [])"
    and finish_end: "finish m s = post (Some end_event) m s"
begin

fun post_all :: "Event list \<Rightarrow> 'm \<Rightarrow> os \<Rightarrow> 'm \<times> os" where
  "post_all [] m s = (m, s)"
| "post_all (e # es) m s = (case post (Some e) m s of (_, m', s) \<Rightarrow> post_all es (the m') s)"

text \<open>A burst of posts keeps as many of the first events as the queue has room for.\<close>

lemma burst:
  assumes "queue_inv s (queue m, s)"
  shows "\<exists>m'. post_all es m s = (m', s) \<and> queue_inv s (queue m', s) \<and>
    queue_list (queue m') = queue_list (queue m) @
      take (unat (q_capacity (queue m)) - length (queue_list (queue m))) es"
  using assms
proof (induction es arbitrary: m)
  case (Cons e es)
  obtain m1 where m1: "post (Some e) m s = (if unat (q_size (queue m)) < unat (q_capacity (queue m))
        then eSTATUS_SUCCESSFUL else eSTATUS_ACTION_FAILED, Some m1, s)"
    "queue_inv s (queue m1, s)" "q_capacity (queue m1) = q_capacity (queue m)"
    "queue_list (queue m1) = queue_list (queue m) @
          (if unat (q_size (queue m)) < unat (q_capacity (queue m)) then [e] else [])"
    using post_some [OF Cons.prems, of e] by blast
  obtain m2 where m2: "post_all es m1 s = (m2, s)" "queue_inv s (queue m2, s)"
    "queue_list (queue m2) = queue_list (queue m1) @
      take (unat (q_capacity (queue m1)) - length (queue_list (queue m1))) es"
    using Cons.IH [OF m1(2)] by blast
  have len: "unat (q_size (queue m1)) = length (queue_list (queue m1))" by simp
  have "unat (q_capacity (queue m)) - unat (q_size (queue m)) = Suc (unat (q_capacity (queue m)) -
      Suc (unat (q_size (queue m))))" if "unat (q_size (queue m)) < unat (q_capacity (queue m))"
    using that by simp
  then have "queue_list (queue m2) = queue_list (queue m) @
      take (unat (q_capacity (queue m)) - length (queue_list (queue m))) (e # es)"
    unfolding m2(3) len m1(3,4)
    by (cases "unat (q_size (queue m)) < unat (q_capacity (queue m))") simp_all
  then show ?case using m1(1) m2(1,2) by simp
qed simp

lemma finish_queues_end:
  assumes "queue_inv s (queue m, s)" and "length (queue_list (queue m)) < unat (q_capacity (queue m))"
  shows "\<exists>m'. finish m s = (eSTATUS_SUCCESSFUL, Some m', s) \<and>
    queue_list (queue m') = queue_list (queue m) @ [end_event]"
  using post_some [OF assms(1), of end_event] assms(2) by (auto simp: finish_end)

end

text \<open>The active object's own operations satisfy the contract.\<close>

lemma util_active_object_post_some:
  assumes "queue_inv s (event_queue a, s)"
  shows "\<exists>a'. util_active_object_post (Some a) (Some e) s =
      (if unat (q_size (event_queue a)) < unat (q_capacity (event_queue a))
       then eSTATUS_SUCCESSFUL else eSTATUS_ACTION_FAILED, Some a', s) \<and>
    queue_inv s (event_queue a', s) \<and> q_capacity (event_queue a') = q_capacity (event_queue a) \<and>
    queue_list (event_queue a') = queue_list (event_queue a) @
      (if unat (q_size (event_queue a)) < unat (q_capacity (event_queue a)) then [e] else [])"
proof -
  obtain st r s' where p: "util_active_object_post (Some a) (Some e) s = (st, r, s')"
    by (cases "util_active_object_post (Some a) (Some e) s") auto
  then obtain a' where r: "r = Some a'"
    by (auto simp: util_active_object_post_def Let_def split: prod.splits if_splits)
  note c = post_cases [OF assms p [unfolded r]]
  have "s' = s" using c(1) by (simp add: queue_inv_def)
  then show ?thesis using c p r by auto
qed

lemma util_active_object_post_null:
  "util_active_object_post (Some a) None s = (eSTATUS_NULL_PARAM, Some a, s)"
  by (simp add: util_active_object_post_def)

lemmas ao_module_laws = util_active_object_post_null util_active_object_post_some util_active_object_end_def

interpretation ao: ao_module "\<lambda>e a. util_active_object_post (Some a) e"
    "\<lambda>a. util_active_object_end (Some a)" event_queue
  by unfold_locales (simp_all only: ao_module_laws)

section \<open>Properties\<close>

text \<open>A running object whose machine ignores every event, with an empty queue.\<close>

definition demo_state :: "unit \<Rightarrow> (unit, unit) StateFP" where
  "demo_state st T ev f = Some f"

definition demo_event_queue :: "Event Queue" where
  "demo_event_queue = \<lparr>q_buffer = 1, q_slots = [None, None], q_capacity = 2, q_head = 0, q_tail = 0,
     q_size = 0, q_mutex = 2, q_not_empty = 3\<rparr>"

definition demo_object :: "(unit, unit) ActiveObject" where
  "demo_object = \<lparr>ao_thread = 4, event_queue = demo_event_queue,
     active_fsm = \<lparr>current_state = Some (), fsm_arg = ()\<rparr>, ao_init_state = Some ()\<rparr>"

definition demo_sys :: "(unit, unit) ao_sys" where
  "demo_sys = \<lparr>sys_ao = demo_object, sys_phase = Running, sys_os = demo_os\<rparr>"

lemmas demo_sys_defs = demo_sys_def demo_object_def demo_event_queue_def demo_os_def boot_os_def

lemma demo_sys_inv: "ao_inv demo_sys" "queue_list demo_event_queue = []"
  by (simp_all add: ao_inv_def demo_sys_defs queue_wf_def queue_usable_def queue_list_def)

text \<open>One event is posted and handled, then END is posted and stops the thread.\<close>

definition demo_labels :: "label list" where
  "demo_labels = [Posted \<lparr>etype = 4\<rparr> eSTATUS_SUCCESSFUL, Handled \<lparr>etype = 4\<rparr>,
     Posted end_event eSTATUS_SUCCESSFUL, Stopped end_event]"

lemma demo_run: "\<exists>S'. ao_run demo_state 2 demo_sys demo_labels S'"
proof -
  let ?e = "\<lparr>etype = 4\<rparr> :: Event"
  define q1 where "q1 = demo_event_queue\<lparr>q_slots := [Some ?e, None], q_tail := 1, q_size := 1\<rparr>"
  define q2 where "q2 = q1\<lparr>q_head := 1, q_size := 0\<rparr>"
  define q3 where "q3 = q2\<lparr>q_slots := [Some ?e, Some end_event], q_tail := 0, q_size := 1\<rparr>"
  define q4 where "q4 = q3\<lparr>q_head := 0, q_size := 0\<rparr>"
  note defs = q1_def q2_def q3_def q4_def demo_sys_defs util_active_object_post_def
    util_queue_push_unfold util_queue_pop_def osal_defs Let_def end_event_def fsm_codes
  let ?S = "\<lambda>q. demo_sys\<lparr>sys_ao := demo_object\<lparr>event_queue := q\<rparr>\<rparr>"
  have s1: "ao_step demo_state 2 demo_sys (Posted ?e eSTATUS_SUCCESSFUL) (?S q1)"
    using ao_step.post [where S = demo_sys and e = ?e and st = eSTATUS_SUCCESSFUL
        and a = "demo_object\<lparr>event_queue := q1\<rparr>" and s = demo_os]
    by (simp add: defs)
  have s2: "ao_step demo_state 2 (?S q1) (Handled ?e) (?S q2)"
    using ao_step.handle [where S = "?S q1" and e = ?e and q = q2 and s = demo_os
        and st = eSTATUS_SUCCESSFUL and st' = eSTATUS_SUCCESSFUL and h = demo_state and n = 2
        and f = "active_fsm demo_object"]
    by (simp add: defs util_fsm_send_event_def demo_state_def numeral_2_eq_2)
  have s3: "ao_step demo_state 2 (?S q2) (Posted end_event eSTATUS_SUCCESSFUL) (?S q3)"
    using ao_step.post [where S = "?S q2" and e = end_event and st = eSTATUS_SUCCESSFUL
        and a = "demo_object\<lparr>event_queue := q3\<rparr>" and s = demo_os]
    by (simp add: defs)
  have s4: "ao_step demo_state 2 (?S q3) (Stopped end_event)
      (?S q3\<lparr>sys_ao := demo_object\<lparr>event_queue := q4\<rparr>, sys_phase := Ended\<rparr>)"
    using ao_step.stop [where S = "?S q3" and e = end_event and q = q4 and s = demo_os
        and st = eSTATUS_SUCCESSFUL]
    by (simp add: defs)
  show ?thesis
    unfolding demo_labels_def
    by (meson s1 s2 s3 s4 ao_run.intros)
qed

text \<open>C2. Events are neither lost, duplicated nor reordered: in every interleaving of posts and thread
  steps, the events queued before followed by those whose post succeeded are the events the thread
  took followed by those still queued. If the thread left its loop, it was for an END event, and it
  takes no event afterwards.\<close>

lemma active_object_order:
  assumes "ao_run h n S ls S'" and "ao_inv S"
  shows "queue_list (event_queue (sys_ao S)) @ accepted ls
      = taken ls @ queue_list (event_queue (sys_ao S')) \<and> ao_inv S' \<and>
    (\<forall>ls1 e ls2. ls = ls1 @ Stopped e # ls2 \<longrightarrow>
       etype e = eFSM_EVENT_END \<and> taken ls2 = [] \<and> sys_phase S' = Ended)"
  using ao_run_conserves [OF assms] ao_run_stop_last [OF assms(1)] by auto

lemma active_object_order_witness:
  "\<exists>S'. ao_run demo_state 2 demo_sys demo_labels S' \<and> queue_list (event_queue (sys_ao S')) = [] \<and>
     sys_phase S' = Ended"
proof -
  obtain S' where r: "ao_run demo_state 2 demo_sys demo_labels S'" using demo_run by blast
  have "demo_labels = butlast demo_labels @ Stopped end_event # []" by (simp add: demo_labels_def)
  then have "sys_phase S' = Ended"
    using active_object_order [OF r demo_sys_inv(1)] by blast
  moreover have "queue_list (event_queue (sys_ao S')) = []"
    using active_object_order [OF r demo_sys_inv(1)] demo_sys_inv(2)
    by (simp add: demo_labels_def demo_sys_def demo_object_def)
  ultimately show ?thesis using r by blast
qed

text \<open>C13. The thread is a sequential interpreter of its machine: after any interleaving with posts of
  other threads, the machine is in the state it reaches when it is run, one call after the other,
  over the handled events in the order they were handled.\<close>

lemma active_object_runs_machine:
  assumes "ao_run h n S ls S'" and "sys_phase S \<noteq> Created"
  shows "fsm_run h n (handled ls) (active_fsm (sys_ao S)) = Some (active_fsm (sys_ao S'))"
  by (rule ao_run_machine [OF assms])

lemma active_object_runs_machine_witness:
  "\<exists>S'. ao_run demo_state 2 demo_sys demo_labels S' \<and>
     fsm_run demo_state 2 [\<lparr>etype = 4\<rparr>] \<lparr>current_state = Some (), fsm_arg = ()\<rparr>
       = Some (active_fsm (sys_ao S'))"
proof -
  obtain S' where r: "ao_run demo_state 2 demo_sys demo_labels S'" using demo_run by blast
  have "sys_phase demo_sys \<noteq> Created" by (simp add: demo_sys_def)
  from active_object_runs_machine [OF r this]
  have "fsm_run demo_state 2 [\<lparr>etype = 4\<rparr>] \<lparr>current_state = Some (), fsm_arg = ()\<rparr>
      = Some (active_fsm (sys_ao S'))"
    by (simp add: demo_labels_def demo_sys_def demo_object_def del: fsm_run.simps)
  with r show ?thesis by blast
qed

end
