(* ===== verification/EventBus.thy ===== *)
theory EventBus
  imports UtilFsm Osal
begin

text \<open>
  The event bus, \<^verbatim>\<open>src/src/util/event_bus/event_bus.c\<close>: a table of subscriptions guarded by a mutex.
  Publishing calls, for every active subscription that matches, the post function stored in it. A
  post function is a value of type \<open>'f\<close>; \<open>call\<close> says what calling it does to the state behind it,
  which is \<open>'s\<close> (the event queues) and the operating system.
\<close>

section \<open>Active object identifiers\<close>

definition eAO_SCHEDULER :: u32 where [fsm_codes]: "eAO_SCHEDULER = 0"
definition eAO_DISTANCE :: u32 where [fsm_codes]: "eAO_DISTANCE = 1"
definition eAO_SERVO :: u32 where [fsm_codes]: "eAO_SERVO = 2"
definition eAO_TEMPERATURE_HUMIDITY :: u32 where [fsm_codes]: "eAO_TEMPERATURE_HUMIDITY = 3"
definition eAO_GPS :: u32 where [fsm_codes]: "eAO_GPS = 4"
definition eAO_BROADCASTER :: u32 where [fsm_codes]: "eAO_BROADCASTER = 5"
definition eAO_COUNT :: u32 where [fsm_codes]: "eAO_COUNT = 6"

definition eEVENT_BUS_MAX_SUBSCRIPTIONS :: nat where
  "eEVENT_BUS_MAX_SUBSCRIPTIONS = 32"

section \<open>Operations\<close>

record 'f Subscription =
  sub_post_fn :: "'f option"
  sub_event :: "Event option"
  sub_ao_id :: u32
  sub_module :: u32
  sub_active :: bool

record 'f event_bus =
  subscriptions :: "'f Subscription list"
  subscription_count :: u32
  bus_mutex :: addr

text \<open>The static table before the first call: zeroed memory.\<close>

definition zero_subscription :: "'f Subscription" where
  "zero_subscription = \<lparr>sub_post_fn = None, sub_event = None, sub_ao_id = 0, sub_module = 0,
     sub_active = False\<rparr>"

definition static_bus :: "'f event_bus" where
  "static_bus = \<lparr>subscriptions = replicate eEVENT_BUS_MAX_SUBSCRIPTIONS zero_subscription,
     subscription_count = 0, bus_mutex = 0\<rparr>"

definition util_event_bus_init :: "'f event_bus \<Rightarrow> os \<Rightarrow> eStatus \<times> 'f event_bus \<times> os" where
  "util_event_bus_init b s =
    (let b = b\<lparr>subscription_count := 0\<rparr>;
         b = b\<lparr>subscriptions := map (sub_active_update (\<lambda>_. False)) (subscriptions b)\<rparr>;
         (st, m, s) = osal_mutex_init (Some (bus_mutex b)) s;
         b = b\<lparr>bus_mutex := the m\<rparr>
     in if failed st then (eSTATUS_SYSTEM_ERROR, b, s) else (eSTATUS_SUCCESSFUL, b, s))"

definition util_event_bus_subscribe ::
    "u32 \<Rightarrow> 'f option \<Rightarrow> u32 \<Rightarrow> Event option \<Rightarrow> 'f event_bus \<Rightarrow> os
      \<Rightarrow> eStatus \<times> 'f event_bus \<times> os" where
  "util_event_bus_subscribe ao_id post_fn module event b s =
    (if eAO_COUNT \<le> ao_id then (eSTATUS_INVALID_VALUE, b, s)
     else if post_fn = None \<or> event = None then (eSTATUS_NULL_PARAM, b, s)
     else let s = osal_mutex_lock (bus_mutex b) s
          in if of_nat eEVENT_BUS_MAX_SUBSCRIPTIONS \<le> subscription_count b
             then (eSTATUS_ACTION_FAILED, b, osal_mutex_unlock (bus_mutex b) s)
             else case first_index (\<lambda>x. \<not> sub_active x) (subscriptions b) of
                    None \<Rightarrow> (eSTATUS_ACTION_FAILED, b, osal_mutex_unlock (bus_mutex b) s)
                  | Some i \<Rightarrow>
                     (let b = b\<lparr>subscriptions := (subscriptions b)[i :=
                            \<lparr>sub_post_fn = post_fn, sub_event = event, sub_ao_id = ao_id,
                              sub_module = module, sub_active = True\<rparr>]\<rparr>;
                          b = b\<lparr>subscription_count := subscription_count b + 1\<rparr>
                      in (eSTATUS_SUCCESSFUL, b, osal_mutex_unlock (bus_mutex b) s)))"

text \<open>
  The publishing loop: the result is whether a subscription matched and the state after the calls.
  A null event or post function in a matching subscription would be dereferenced: \<open>os_ub\<close>.
\<close>

fun publish_loop ::
    "('f \<Rightarrow> u32 \<Rightarrow> Event \<Rightarrow> 's \<Rightarrow> os \<Rightarrow> eStatus \<times> 's \<times> os) \<Rightarrow> u32 \<Rightarrow> u32
      \<Rightarrow> 'f Subscription list \<Rightarrow> bool \<Rightarrow> 's \<Rightarrow> os \<Rightarrow> bool \<times> 's \<times> os" where
  "publish_loop call ao_id event_type [] matched x s = (matched, x, s)"
| "publish_loop call ao_id event_type (sub # subs) matched x s =
    (if sub_active sub \<and> sub_ao_id sub = ao_id
     then (case sub_event sub of
             None \<Rightarrow> publish_loop call ao_id event_type subs matched x (s\<lparr>os_ub := True\<rparr>)
           | Some ev \<Rightarrow>
              if etype ev = event_type
              then (case sub_post_fn sub of
                      None \<Rightarrow> publish_loop call ao_id event_type subs True x (s\<lparr>os_ub := True\<rparr>)
                    | Some f \<Rightarrow> (let (_, x, s) = call f (sub_module sub) ev x s
                                in publish_loop call ao_id event_type subs True x s))
              else publish_loop call ao_id event_type subs matched x s)
     else publish_loop call ao_id event_type subs matched x s)"

definition util_event_bus_publish ::
    "('f \<Rightarrow> u32 \<Rightarrow> Event \<Rightarrow> 's \<Rightarrow> os \<Rightarrow> eStatus \<times> 's \<times> os) \<Rightarrow> u32 \<Rightarrow> u32
      \<Rightarrow> 'f event_bus \<Rightarrow> 's \<Rightarrow> os \<Rightarrow> eStatus \<times> 's \<times> os" where
  "util_event_bus_publish call ao_id event_type b x s =
    (if eAO_COUNT \<le> ao_id then (eSTATUS_INVALID_VALUE, x, s)
     else let s = osal_mutex_lock (bus_mutex b) s;
              (matched, x, s) = publish_loop call ao_id event_type (subscriptions b) False x s;
              s = osal_mutex_unlock (bus_mutex b) s
          in (if matched then eSTATUS_SUCCESSFUL else eSTATUS_ACTION_FAILED, x, s))"

definition util_event_bus_delete :: "'f event_bus \<Rightarrow> os \<Rightarrow> 'f event_bus \<times> os" where
  "util_event_bus_delete b s =
    (let s = osal_mutex_lock (bus_mutex b) s;
         b = b\<lparr>subscriptions := map (sub_active_update (\<lambda>_. False)) (subscriptions b)\<rparr>;
         b = b\<lparr>subscription_count := 0\<rparr>;
         s = osal_mutex_unlock (bus_mutex b) s
     in (b, osal_mutex_destroy (bus_mutex b) s))"

section \<open>Abstraction and invariant\<close>

text \<open>
  Subscriptions are never removed one by one, so the active ones are a prefix of the table and the
  bus is a list of subscriptions in the order they were made.
\<close>

definition bus_list :: "'f event_bus \<Rightarrow> 'f Subscription list" where
  "bus_list b = filter sub_active (subscriptions b)"

definition sub_ok :: "'f Subscription \<Rightarrow> bool" where
  "sub_ok x \<longleftrightarrow> sub_post_fn x \<noteq> None \<and> sub_event x \<noteq> None \<and> sub_ao_id x < eAO_COUNT"

definition bus_wf :: "'f event_bus \<Rightarrow> bool" where
  "bus_wf b \<longleftrightarrow>
    length (subscriptions b) = eEVENT_BUS_MAX_SUBSCRIPTIONS \<and>
    unat (subscription_count b) = length (bus_list b) \<and>
    (\<exists>k. map sub_active (subscriptions b)
          = replicate k True @ replicate (eEVENT_BUS_MAX_SUBSCRIPTIONS - k) False) \<and>
    (\<forall>x\<in>set (bus_list b). sub_ok x)"

definition bus_usable :: "'f event_bus \<Rightarrow> os \<Rightarrow> bool" where
  "bus_usable b s \<longleftrightarrow> bus_mutex b \<in> set (os_live s) \<and> bus_mutex b \<notin> set (os_held s)"

text \<open>The abstract subscription made by a call.\<close>

definition sub_of :: "u32 \<Rightarrow> 'f \<Rightarrow> u32 \<Rightarrow> Event \<Rightarrow> 'f Subscription" where
  "sub_of ao_id f module ev = \<lparr>sub_post_fn = Some f, sub_event = Some ev, sub_ao_id = ao_id,
     sub_module = module, sub_active = True\<rparr>"

definition sub_matches :: "u32 \<Rightarrow> u32 \<Rightarrow> 'f Subscription \<Rightarrow> bool" where
  "sub_matches ao_id ty x \<longleftrightarrow> sub_ao_id x = ao_id \<and> map_option etype (sub_event x) = Some ty"

lemma prefix_active:
  assumes "map sub_active xs = replicate k True @ replicate m False"
  shows "xs = filter sub_active xs @ filter (\<lambda>x. \<not> sub_active x) xs"
    "length (filter sub_active xs) = k"
    "first_index (\<lambda>x. \<not> sub_active x) xs = (if m = 0 then None else Some k)"
  using assms
proof (induction xs arbitrary: k)
  case (Cons x xs)
  {
    case 1
    show ?case
    proof (cases k)
      case 0
      then have "\<forall>y\<in>set (x # xs). \<not> sub_active y"
        using 1 by (metis append_Nil in_set_replicate list.set_map imageI replicate_0)
      then show ?thesis by simp
    next
      case (Suc k')
      then show ?thesis using Cons.IH(1) [of k'] 1 by simp
    qed
  next
    case 2
    show ?case
    proof (cases k)
      case 0
      then have "\<forall>y\<in>set (x # xs). \<not> sub_active y"
        using 2 by (metis append_Nil in_set_replicate list.set_map imageI replicate_0)
      then show ?thesis using 0 by simp
    next
      case (Suc k')
      then show ?thesis using Cons.IH(2) [of k'] 2 by simp
    qed
  next
    case 3
    show ?case
    proof (cases k)
      case 0
      then show ?thesis using 3 by (cases m) auto
    next
      case (Suc k')
      then show ?thesis using Cons.IH(3) [of k'] 3 by simp
    qed
  }
qed auto

lemma bus_lock_unlock:
  "bus_usable b s \<Longrightarrow> osal_mutex_unlock (bus_mutex b) (osal_mutex_lock (bus_mutex b) s) = s"
  by (simp add: bus_usable_def osal_defs)

lemma bus_init_wf:
  assumes "length (subscriptions b) = eEVENT_BUS_MAX_SUBSCRIPTIONS"
    and "util_event_bus_init b s = (eSTATUS_SUCCESSFUL, b', s')" and "os_wf s"
    and "set (os_held s) \<subseteq> set (os_live s)"
  shows "bus_wf b' \<and> bus_list b' = [] \<and> bus_usable b' s' \<and> os_live s' = bus_mutex b' # os_live s \<and>
    os_wf s' \<and> os_held s' = os_held s"
proof -
  obtain st m s1 where m: "osal_mutex_init (Some (bus_mutex b)) s = (st, m, s1)"
    by (cases "osal_mutex_init (Some (bus_mutex b)) s") auto
  note c = osal_mutex_init_creates [OF assms(3), of "bus_mutex b", unfolded m creates_one_block_def]
  have b': "st = eSTATUS_SUCCESSFUL" "s' = s1" "b' = b\<lparr>subscription_count := 0,
      subscriptions := map (sub_active_update (\<lambda>_. False)) (subscriptions b), bus_mutex := the m\<rparr>"
    using assms(2) m by (auto simp: util_event_bus_init_def Let_def split: if_splits)
  have "bus_list b' = []" by (auto simp: bus_list_def b' filter_empty_conv)
  moreover have "bus_wf b'"
    using assms(1) calculation
    by (auto simp: bus_wf_def b' o_def map_replicate_const intro!: exI [of _ 0])
  ultimately show ?thesis
    using c assms(4) by (auto simp: b' bus_usable_def)
qed

lemma subscribe_room:
  assumes wf: "bus_wf b" and us: "bus_usable b s" and ao: "ao_id < eAO_COUNT"
    and room: "length (bus_list b) < eEVENT_BUS_MAX_SUBSCRIPTIONS"
  shows "\<exists>b'. util_event_bus_subscribe ao_id (Some f) module (Some ev) b s
        = (eSTATUS_SUCCESSFUL, b', s) \<and> bus_wf b' \<and> bus_mutex b' = bus_mutex b \<and>
      bus_list b' = bus_list b @ [sub_of ao_id f module ev]"
proof -
  define n where "n = length (bus_list b)"
  let ?act = "sub_active :: 'a Subscription \<Rightarrow> bool"
  obtain k where k: "map sub_active (subscriptions b)
      = replicate k True @ replicate (eEVENT_BUS_MAX_SUBSCRIPTIONS - k) False"
    using wf by (auto simp: bus_wf_def)
  note p = prefix_active [OF k]
  have kn: "k = n" using p(2) by (simp add: n_def bus_list_def)
  have nlt: "n < eEVENT_BUS_MAX_SUBSCRIPTIONS" using room by (simp add: n_def)
  then have fi: "first_index (\<lambda>x. \<not> sub_active x) (subscriptions b) = Some n"
    using p(3) kn by simp
  have cnt: "unat (subscription_count b) = n" using wf by (simp add: bus_wf_def n_def)
  have nfull: "\<not> of_nat eEVENT_BUS_MAX_SUBSCRIPTIONS \<le> subscription_count b"
    using cnt nlt by (simp add: word_le_nat_alt eEVENT_BUS_MAX_SUBSCRIPTIONS_def)
  let ?x = "sub_of ao_id f module ev"
  define b' where "b' = b\<lparr>subscriptions := (subscriptions b)[n := ?x],
    subscription_count := subscription_count b + 1\<rparr>"
  have step: "util_event_bus_subscribe ao_id (Some f) module (Some ev) b s
      = (eSTATUS_SUCCESSFUL, b', s)"
    using ao nfull fi bus_lock_unlock [OF us]
    by (simp add: util_event_bus_subscribe_def Let_def b'_def sub_of_def not_le [symmetric])
  have subs: "subscriptions b = bus_list b @ filter (\<lambda>x. \<not> ?act x) (subscriptions b)"
    using p(1) by (simp add: bus_list_def)
  have rest: "length (filter (\<lambda>x. \<not> ?act x) (subscriptions b)) = eEVENT_BUS_MAX_SUBSCRIPTIONS - n"
  proof -
    have "length (subscriptions b) = eEVENT_BUS_MAX_SUBSCRIPTIONS" using wf by (simp add: bus_wf_def)
    moreover have "length (subscriptions b) = n + length (filter (\<lambda>x. \<not> ?act x) (subscriptions b))"
      using sum_length_filter_compl [of ?act "subscriptions b"] by (simp add: n_def bus_list_def)
    ultimately show ?thesis by simp
  qed
  then obtain y ys where ys: "filter (\<lambda>x. \<not> ?act x) (subscriptions b) = y # ys"
    using nlt by (cases "filter (\<lambda>x. \<not> ?act x) (subscriptions b)") auto
  have upd: "(subscriptions b)[n := ?x] = bus_list b @ ?x # ys"
    by (subst subs) (simp add: ys n_def)
  have inact: "\<forall>z\<in>set ys. \<not> ?act z"
  proof
    fix z assume "z \<in> set ys"
    then have "z \<in> set (filter (\<lambda>x. \<not> ?act x) (subscriptions b))" by (simp add: ys)
    then show "\<not> ?act z" by simp
  qed
  have act: "\<forall>z\<in>set (bus_list b). ?act z" by (simp add: bus_list_def)
  have xact: "?act ?x" by (simp add: sub_of_def)
  have bl: "bus_list b' = bus_list b @ [?x]"
  proof -
    have "filter ?act (bus_list b) = bus_list b" using act by simp
    moreover have "filter ?act ys = []" using inact by simp
    moreover have "subscriptions b' = bus_list b @ ?x # ys" by (simp add: b'_def upd)
    ultimately show ?thesis by (simp add: bus_list_def [of b'] xact)
  qed
  have "map sub_active (subscriptions b') = replicate (Suc n) True
      @ replicate (eEVENT_BUS_MAX_SUBSCRIPTIONS - Suc n) False"
  proof -
    have "map ?act ys = replicate (length ys) False"
      using inact by (simp add: map_replicate_const [symmetric] cong: map_cong)
    moreover have "map ?act (bus_list b) = replicate n True"
      using act by (simp add: map_replicate_const [symmetric] n_def cong: map_cong)
    moreover have "length ys = eEVENT_BUS_MAX_SUBSCRIPTIONS - Suc n"
      using rest ys by simp
    ultimately show ?thesis
      by (simp add: b'_def upd xact replicate_app_Cons_same)
  qed
  moreover have "unat (subscription_count b + 1) = Suc n"
    using cnt nlt by (simp add: unat_word_ariths eEVENT_BUS_MAX_SUBSCRIPTIONS_def)
  moreover have "sub_ok ?x" using ao by (simp add: sub_ok_def sub_of_def)
  moreover have "\<forall>z\<in>set (bus_list b'). sub_ok z" "length (bus_list b') = Suc n"
    using wf bl calculation(3) by (auto simp: bus_wf_def n_def)
  moreover have "length (subscriptions b') = eEVENT_BUS_MAX_SUBSCRIPTIONS"
    "subscription_count b' = subscription_count b + 1"
    using wf by (simp_all add: b'_def bus_wf_def)
  ultimately have "bus_wf b'"
    unfolding bus_wf_def by metis
  then show ?thesis using step bl by (auto simp: b'_def)
qed

lemma subscribe_full:
  assumes "bus_wf b" and "bus_usable b s" and "ao_id < eAO_COUNT"
    and "length (bus_list b) = eEVENT_BUS_MAX_SUBSCRIPTIONS"
  shows "util_event_bus_subscribe ao_id (Some f) module (Some ev) b s = (eSTATUS_ACTION_FAILED, b, s)"
proof -
  have "of_nat eEVENT_BUS_MAX_SUBSCRIPTIONS \<le> subscription_count b"
    using assms by (simp add: bus_wf_def word_le_nat_alt eEVENT_BUS_MAX_SUBSCRIPTIONS_def)
  then show ?thesis
    using assms(3) bus_lock_unlock [OF assms(2)]
    by (simp add: util_event_bus_subscribe_def Let_def not_le [symmetric])
qed

lemma bus_list_bounded: "bus_wf b \<Longrightarrow> length (bus_list b) \<le> eEVENT_BUS_MAX_SUBSCRIPTIONS"
  by (metis bus_list_def bus_wf_def length_filter_le)

text \<open>Publishing calls the matching subscriptions, in order, once each.\<close>

fun deliver ::
    "('f \<Rightarrow> u32 \<Rightarrow> Event \<Rightarrow> 's \<Rightarrow> os \<Rightarrow> eStatus \<times> 's \<times> os) \<Rightarrow> 'f Subscription list
      \<Rightarrow> 's \<Rightarrow> os \<Rightarrow> 's \<times> os" where
  "deliver call [] x s = (x, s)"
| "deliver call (sub # subs) x s =
    (case call (the (sub_post_fn sub)) (sub_module sub) (the (sub_event sub)) x s of
       (_, x, s) \<Rightarrow> deliver call subs x s)"

lemma publish_loop_deliver:
  assumes "\<forall>x\<in>set subs. sub_active x \<longrightarrow> sub_ok x"
  shows "publish_loop call ao_id ty subs m x s =
    (m \<or> filter (sub_matches ao_id ty) (filter sub_active subs) \<noteq> [],
     deliver call (filter (sub_matches ao_id ty) (filter sub_active subs)) x s)"
  using assms
proof (induction subs arbitrary: m x s)
  case (Cons sub subs)
  then show ?case
    by (auto simp: sub_matches_def sub_ok_def Let_def split: prod.split)
qed simp

lemma publish_delivers:
  assumes "bus_wf b" and "ao_id < eAO_COUNT"
  shows "util_event_bus_publish call ao_id ty b x s =
    (let targets = filter (sub_matches ao_id ty) (bus_list b);
         (x, s') = deliver call targets x (osal_mutex_lock (bus_mutex b) s)
     in (if targets = [] then eSTATUS_ACTION_FAILED else eSTATUS_SUCCESSFUL, x,
         osal_mutex_unlock (bus_mutex b) s'))"
proof -
  have "\<forall>x\<in>set (subscriptions b). sub_active x \<longrightarrow> sub_ok x"
    using assms(1) by (auto simp: bus_wf_def bus_list_def)
  then show ?thesis
    using assms(2)
    by (simp add: util_event_bus_publish_def publish_loop_deliver bus_list_def Let_def
        not_le [symmetric] split: prod.split)
qed

lemma bus_delete_empty: "bus_list (fst (util_event_bus_delete b s)) = []"
  by (simp add: util_event_bus_delete_def Let_def bus_list_def filter_empty_conv)

section \<open>Properties\<close>

text \<open>A bus in use, a post function that logs its calls, and two subscriptions.\<close>

definition demo_bus :: "nat event_bus" where
  "demo_bus = static_bus\<lparr>bus_mutex := 1\<rparr>"

definition demo_bus_os :: os where
  "demo_bus_os = (boot_os (\<lambda>_. 0) (\<lambda>_. zero_timespec))\<lparr>os_live := [1], os_fresh := 2\<rparr>"

definition log_call :: "nat \<Rightarrow> u32 \<Rightarrow> Event \<Rightarrow> (nat \<times> u32) list \<Rightarrow> os \<Rightarrow> eStatus \<times> (nat \<times> u32) list \<times> os" where
  "log_call f module ev x s = (eSTATUS_SUCCESSFUL, x @ [(f, etype ev)], s)"

lemma demo_bus_ok: "bus_wf demo_bus" "bus_usable demo_bus demo_bus_os" "bus_list demo_bus = []"
proof -
  show l: "bus_list demo_bus = []"
    by (simp add: bus_list_def demo_bus_def static_bus_def zero_subscription_def)
  have "map sub_active (subscriptions demo_bus) = replicate 32 False"
    by (simp add: demo_bus_def static_bus_def zero_subscription_def eEVENT_BUS_MAX_SUBSCRIPTIONS_def)
  then show "bus_wf demo_bus"
    using l by (auto simp: bus_wf_def demo_bus_def static_bus_def eEVENT_BUS_MAX_SUBSCRIPTIONS_def
        intro: exI [of _ 0])
  show "bus_usable demo_bus demo_bus_os"
    by (simp add: bus_usable_def demo_bus_def demo_bus_os_def boot_os_def)
qed

text \<open>C3. The bus implements the list of its subscriptions: subscribing with a valid identifier, a post
  function and an event appends one subscription, unless all 32 places are taken, and then the call
  is refused and nothing changes; publishing calls the post functions of exactly the subscriptions
  for that object and event type, once each, in the order they were made, and is refused when there
  is none; and after a subscription, a publication that matches it reaches the new one last.\<close>

lemma event_bus_refines_list:
  assumes "bus_wf b" and "bus_usable b s" and "ao_id < eAO_COUNT"
  shows "(if length (bus_list b) < eEVENT_BUS_MAX_SUBSCRIPTIONS
      then \<exists>b'. util_event_bus_subscribe ao_id (Some f) module (Some ev) b s
             = (eSTATUS_SUCCESSFUL, b', s) \<and> bus_wf b' \<and>
           bus_list b' = bus_list b @ [sub_of ao_id f module ev]
      else util_event_bus_subscribe ao_id (Some f) module (Some ev) b s
             = (eSTATUS_ACTION_FAILED, b, s)) \<and>
    util_event_bus_publish call ao_id ty b x s =
      (let targets = filter (sub_matches ao_id ty) (bus_list b);
           (x, s') = deliver call targets x (osal_mutex_lock (bus_mutex b) s)
       in (if targets = [] then eSTATUS_ACTION_FAILED else eSTATUS_SUCCESSFUL, x,
           osal_mutex_unlock (bus_mutex b) s'))"
  using subscribe_room [OF assms, of f module ev] subscribe_full [OF assms, of f module ev]
    publish_delivers [OF assms(1,3), of call ty x s] bus_list_bounded [OF assms(1)]
  by auto

lemma event_bus_refines_list_witness:
  "\<exists>b1 b2. util_event_bus_subscribe 2 (Some 10) 0 (Some \<lparr>etype = 7\<rparr>) demo_bus demo_bus_os
        = (eSTATUS_SUCCESSFUL, b1, demo_bus_os) \<and>
     util_event_bus_subscribe 2 (Some 11) 0 (Some \<lparr>etype = 7\<rparr>) b1 demo_bus_os
        = (eSTATUS_SUCCESSFUL, b2, demo_bus_os) \<and>
     fst (util_event_bus_publish log_call 2 6 b2 [] demo_bus_os) = eSTATUS_ACTION_FAILED \<and>
     fst (snd (util_event_bus_publish log_call 2 7 b2 [] demo_bus_os)) = [(10, 7), (11, 7)]"
proof -
  have ao: "(2 :: u32) < eAO_COUNT" by (simp add: eAO_COUNT_def)
  obtain b1 where b1: "util_event_bus_subscribe 2 (Some 10) 0 (Some \<lparr>etype = 7\<rparr>) demo_bus demo_bus_os
        = (eSTATUS_SUCCESSFUL, b1, demo_bus_os)" "bus_wf b1"
      "bus_list b1 = [sub_of 2 10 0 \<lparr>etype = 7\<rparr>]"
    using event_bus_refines_list [OF demo_bus_ok(1,2) ao, THEN conjunct1, of 10 0 "\<lparr>etype = 7\<rparr>"]
      demo_bus_ok(3)
    by (auto simp: eEVENT_BUS_MAX_SUBSCRIPTIONS_def)
  have "bus_mutex b1 = bus_mutex demo_bus"
    using b1(1) ao by (auto simp: util_event_bus_subscribe_def Let_def split: if_splits option.splits)
  then have us: "bus_usable b1 demo_bus_os" using demo_bus_ok(2) by (simp add: bus_usable_def)
  obtain b2 where b2: "util_event_bus_subscribe 2 (Some 11) 0 (Some \<lparr>etype = 7\<rparr>) b1 demo_bus_os
        = (eSTATUS_SUCCESSFUL, b2, demo_bus_os)" "bus_wf b2"
      "bus_list b2 = [sub_of 2 10 0 \<lparr>etype = 7\<rparr>, sub_of 2 11 0 \<lparr>etype = 7\<rparr>]"
    using event_bus_refines_list [OF b1(2) us ao, THEN conjunct1, of 11 0 "\<lparr>etype = 7\<rparr>"] b1(3)
    by (auto simp: eEVENT_BUS_MAX_SUBSCRIPTIONS_def)
  have "bus_mutex b2 = bus_mutex b1"
    using b2(1) ao by (auto simp: util_event_bus_subscribe_def Let_def split: if_splits option.splits)
  then have us2: "bus_usable b2 demo_bus_os" using us by (simp add: bus_usable_def)
  note pub = event_bus_refines_list [OF b2(2) us2 ao, THEN conjunct2]
  have "fst (util_event_bus_publish log_call 2 6 b2 [] demo_bus_os) = eSTATUS_ACTION_FAILED"
    "fst (snd (util_event_bus_publish log_call 2 7 b2 [] demo_bus_os)) = [(10, 7), (11, 7)]"
    by (simp_all add: pub b2(3) sub_matches_def sub_of_def log_call_def)
  with b1(1) b2(1) show ?thesis by blast
qed

end
