(* ===== verification/DdlFrame.thy ===== *)
theory DdlFrame
  imports Cfloat Bytes HalUart ActiveObject EventBus
begin

text \<open>
  The data shared between the drivers and the application: the frame of every sensor
  (\<^verbatim>\<open>src/src/ddl/*/*_types.h\<close>, \<^verbatim>\<open>src/src/ddl/ddl_frame.h\<close>), and the names of the callback functions
  that the modules hand to the UART driver and to the timers.
\<close>

section \<open>Frames\<close>

record DistanceFrame =
  df_valid :: bool
  df_distance :: cfloat
  df_status :: u8
  df_precision :: u8
  df_strength :: u16

record TemperatureHumidityFrame =
  thf_valid :: bool
  thf_humidity :: cfloat
  thf_temperature :: cfloat

record ServoFrame =
  sf_hor_angle :: cfloat
  sf_ver_angle :: cfloat

record GPSFrame =
  gf_latitude :: cfloat
  gf_longitude :: cfloat
  gf_altitude :: cfloat
  gf_h_acc :: cfloat
  gf_valid :: bool
  gf_fix_type :: u8
  gf_num_satellites :: u8

record DDLFrame =
  dist_frame :: DistanceFrame
  temp_hum_frame :: TemperatureHumidityFrame
  servo_frame :: ServoFrame
  gps_frame :: GPSFrame

definition zero_ddl_frame :: DDLFrame where
  "zero_ddl_frame = \<lparr>
     dist_frame = \<lparr>df_valid = False, df_distance = Fin 0, df_status = 0, df_precision = 0,
       df_strength = 0\<rparr>,
     temp_hum_frame = \<lparr>thf_valid = False, thf_humidity = Fin 0, thf_temperature = Fin 0\<rparr>,
     servo_frame = \<lparr>sf_hor_angle = Fin 0, sf_ver_angle = Fin 0\<rparr>,
     gps_frame = \<lparr>gf_latitude = Fin 0, gf_longitude = Fin 0, gf_altitude = Fin 0,
       gf_h_acc = Fin 0, gf_valid = False, gf_fix_type = 0, gf_num_satellites = 0\<rparr>\<rparr>"

section \<open>Callbacks\<close>

text \<open>
  The functions whose addresses are passed to drivers. Each posts one static event to the active
  object its argument points to; the argument is the object's identifier.
\<close>

datatype callback =
    Distance_timeout_handler
  | Distance_uart_rx_complete_handler
  | Gps_timeout_handler
  | Gps_uart_rx_complete_handler
  | Gps_config_step_done_handler
  | Servo_timeout_handler
  | Scheduler_tick_handler

type_synonym uart_dev = "callback uart"
type_synonym timer_arg = "(callback, u32) TimerArg"

definition null_timer_arg :: timer_arg where
  "null_timer_arg = \<lparr>handler = None, handler_arg = 0\<rparr>"

section \<open>Polled sensors\<close>

text \<open>
  The contract of the sensors that answer a request over the UART: from \<open>idle\<close> a request starts a
  read; a completed or timed-out read ends the request or starts another read, at most \<open>limit\<close> reads
  per request; other events change neither the state nor the count. \<open>ends\<close> are the events that end
  a read.
\<close>

locale polled_sensor =
  fixes step :: "Event \<Rightarrow> 'st \<times> 'a \<Rightarrow> 'st \<times> 'a"
    and idle :: 'st and reading :: 'st
    and attempts :: "'a \<Rightarrow> nat" and limit :: nat
    and request :: u32 and ends :: "u32 set"
  assumes distinct_states: "idle \<noteq> reading"
    and limit_pos: "0 < limit"
    and idle_request: "attempts a = 0 \<Longrightarrow> etype ev = request \<Longrightarrow>
      \<exists>a'. step ev (idle, a) = (reading, a') \<and> attempts a' = 0"
    and idle_other: "attempts a = 0 \<Longrightarrow> etype ev \<noteq> request \<Longrightarrow> 3 \<le> etype ev \<Longrightarrow>
      \<exists>a'. step ev (idle, a) = (idle, a') \<and> attempts a' = 0"
    and read_ends: "attempts a < limit \<Longrightarrow> etype ev \<in> ends \<Longrightarrow>
      \<exists>a'. step ev (reading, a) = (idle, a') \<and> attempts a' = 0 \<or>
           step ev (reading, a) = (reading, a') \<and> attempts a' = Suc (attempts a) \<and>
             Suc (attempts a) < limit"
    and read_other: "attempts a < limit \<Longrightarrow> etype ev \<notin> ends \<Longrightarrow> 3 \<le> etype ev \<Longrightarrow>
      \<exists>a'. step ev (reading, a) = (reading, a') \<and> attempts a' = attempts a"
begin

definition ok :: "'st \<times> 'a \<Rightarrow> bool" where
  "ok x \<longleftrightarrow> fst x = idle \<and> attempts (snd x) = 0 \<or> fst x = reading \<and> attempts (snd x) < limit"

lemma ok_step: "ok x \<Longrightarrow> 3 \<le> etype ev \<Longrightarrow> ok (step ev x)"
  using idle_request [of "snd x" ev] idle_other [of "snd x" ev] read_ends [of "snd x" ev]
    read_other [of "snd x" ev] limit_pos
  by (cases x; cases "etype ev = request"; cases "etype ev \<in> ends") (auto simp: ok_def)

lemma ok_run: "ok x \<Longrightarrow> \<forall>ev\<in>set evs. 3 \<le> etype ev \<Longrightarrow> ok (fold step evs x)"
proof (induction evs arbitrary: x)
  case (Cons ev evs)
  then show ?case using Cons.IH [OF ok_step [OF Cons.prems(1), of ev]] by simp
qed simp

text \<open>A request is over after at most \<open>limit\<close> reads: some prefix of the run is back in \<open>idle\<close>.\<close>

lemma request_ends:
  assumes "ok x" and "\<forall>ev\<in>set evs. 3 \<le> etype ev" and "fst x = reading"
    and "limit - attempts (snd x) \<le> length (filter (\<lambda>ev. etype ev \<in> ends) evs)"
  shows "\<exists>us vs. evs = us @ vs \<and> fst (fold step us x) = idle"
  using assms
proof (induction evs arbitrary: x)
  case Nil
  then show ?case using distinct_states by (auto simp: ok_def)
next
  case (Cons ev evs)
  obtain a where x: "x = (reading, a)" using Cons.prems(3) by (cases x) auto
  have a: "attempts a < limit" using Cons.prems(1) distinct_states by (auto simp: ok_def x)
  have okx: "ok (step ev x)" using Cons.prems(1,2) by (simp add: ok_step)
  show ?case
  proof (cases "fst (step ev x) = idle")
    case True
    then show ?thesis by (intro exI [of _ "[ev]"] exI [of _ evs]) simp
  next
    case False
    then have r: "fst (step ev x) = reading" using okx by (auto simp: ok_def)
    have "limit - attempts (snd (step ev x)) \<le> length (filter (\<lambda>ev. etype ev \<in> ends) evs)"
    proof (cases "etype ev \<in> ends")
      case True
      then have "attempts (snd (step ev x)) = Suc (attempts a)"
        using read_ends [OF a True] False by (auto simp: x)
      then show ?thesis using Cons.prems(4) True by (simp add: x)
    next
      case False
      then have "attempts (snd (step ev x)) = attempts a"
        using read_other [OF a False] Cons.prems(2) by (auto simp: x)
      then show ?thesis using Cons.prems(4) False by (simp add: x)
    qed
    from Cons.IH [OF okx _ r this] Cons.prems(2)
    obtain us vs where "evs = us @ vs" "fst (fold step us (step ev x)) = idle" by auto
    then show ?thesis by (intro exI [of _ "ev # us"] exI [of _ vs]) simp
  qed
qed

end

section \<open>Runs of a machine with a transition table\<close>

text \<open>Events as other threads post them: INIT, ENTRY, EXIT and END are not among them.\<close>

definition user_events :: "Event list \<Rightarrow> bool" where
  "user_events evs \<longleftrightarrow> list_all (\<lambda>ev. eFSM_EVENT_USER \<le> etype ev) evs"

lemma user_events_simps [simp]:
  "user_events []" "user_events (ev # evs) \<longleftrightarrow> eFSM_EVENT_USER \<le> etype ev \<and> user_events evs"
  "user_events (evs @ evs') \<longleftrightarrow> user_events evs \<and> user_events evs'"
  by (simp_all add: user_events_def)

lemma user_events_ge_3: "user_events evs \<Longrightarrow> \<forall>ev\<in>set evs. 3 \<le> etype ev"
  by (auto simp: user_events_def list_all_iff fsm_codes word_le_nat_alt)

text \<open>A machine whose calls agree with a table on the states \<open>S\<close> agrees with it over whole runs.\<close>

lemma fsm_run_table:
  assumes "\<And>st a ev. st \<in> S \<Longrightarrow> eFSM_EVENT_USER \<le> etype ev \<Longrightarrow>
      call_state h n ev \<lparr>current_state = Some st, fsm_arg = a\<rparr> =
        (case step ev (st, a) of (st', a') \<Rightarrow> Some \<lparr>current_state = Some st', fsm_arg = a'\<rparr>)"
    and "\<And>st a ev. st \<in> S \<Longrightarrow> fst (step ev (st, a)) \<in> S"
    and "st \<in> S" and "user_events evs"
  shows "fsm_run h n evs \<lparr>current_state = Some st, fsm_arg = a\<rparr> =
    (case fold step evs (st, a) of (st', a') \<Rightarrow> Some \<lparr>current_state = Some st', fsm_arg = a'\<rparr>)"
  using assms(3,4)
proof (induction evs arbitrary: st a)
  case (Cons ev evs)
  obtain st1 a1 where e: "step ev (st, a) = (st1, a1)" by (cases "step ev (st, a)")
  then have "st1 \<in> S" using assms(2) [OF Cons.prems(1), of ev a] by simp
  then show ?case
    using Cons.IH Cons.prems(2) assms(1) [OF Cons.prems(1), of ev a] e
    by (simp add: util_fsm_send_event_def del: call_state.simps)
qed simp

end
