(* ===== verification/Distance.thy ===== *)
theory Distance
  imports DdlFrame
begin

text \<open>
  The distance sensor, \<^verbatim>\<open>src/src/ddl/distance/\<close>: the frames of the TOFSense sensor, the state
  machine that requests and checks them, and the module's interface.

  The object carries the static variables of the file (the receive buffer and the timer argument)
  and, while an event is handled, the UART driver and the operating system it calls. The receive
  buffer is written by the UART between two events; a theorem that holds for every object holds for
  whatever was received. The byte order \<open>be\<close> of the host is a parameter.
\<close>

section \<open>Configuration and frames\<close>

definition eDISTANCE_EVENT_READ :: u32 where [fsm_codes]: "eDISTANCE_EVENT_READ = eFSM_EVENT_USER"
definition eDISTANCE_EVENT_TIMEOUT :: u32 where [fsm_codes]: "eDISTANCE_EVENT_TIMEOUT = 5"
definition eDISTANCE_EVENT_FRAME_RECEIVED :: u32 where
  [fsm_codes]: "eDISTANCE_EVENT_FRAME_RECEIVED = 6"

definition eDISTANCE_QUEUE_CAPACITY :: u32 where "eDISTANCE_QUEUE_CAPACITY = 4"
definition eDISTANCE_READ_RETRY_MAX :: u32 where "eDISTANCE_READ_RETRY_MAX = 3"
definition eDISTANCE_READ_TIMEOUT_MS :: u64 where "eDISTANCE_READ_TIMEOUT_MS = 100"
definition eDISTANCE_UART_DEVICE :: u32 where "eDISTANCE_UART_DEVICE = eUART0_DEVICE"

definition eFRAME_HEADER_SYNC :: u8 where "eFRAME_HEADER_SYNC = 0x57"
definition eFRAME_REQUEST_MARK :: u8 where "eFRAME_REQUEST_MARK = 0x10"
definition eFRAME_RESPONSE_MARK :: u8 where "eFRAME_RESPONSE_MARK = 0x00"
definition eFRAME_RESERVED :: u16 where "eFRAME_RESERVED = 0xFFFF"
definition eFRAME_ID :: u8 where "eFRAME_ID = 0x00"

lemmas frame_fields = eFRAME_HEADER_SYNC_def eFRAME_REQUEST_MARK_def eFRAME_RESPONSE_MARK_def
  eFRAME_RESERVED_def eFRAME_ID_def

record TOFSenseFrame =
  tof_header :: u8
  tof_mark :: u8
  tof_reserved :: u8
  tof_id :: u8
  tof_system_time :: u32
  tof_dis_1000 :: "u8 list"
  tof_dis_status :: u8
  tof_signal_strength :: u16
  tof_range_percision :: u8
  tof_checksum :: u8

text \<open>The memory of the struct (16 bytes, no padding), and the struct that a memory holds.\<close>

definition tof_store :: "bool \<Rightarrow> TOFSenseFrame \<Rightarrow> u8 list" where
  "tof_store be f = [tof_header f, tof_mark f, tof_reserved f, tof_id f] @
     mem32 be (tof_system_time f) @ tof_dis_1000 f @ [tof_dis_status f] @
     mem16 be (tof_signal_strength f) @ [tof_range_percision f, tof_checksum f]"

definition tof_load :: "bool \<Rightarrow> u8 list \<Rightarrow> TOFSenseFrame" where
  "tof_load be bs = \<lparr>tof_header = bs ! 0, tof_mark = bs ! 1, tof_reserved = bs ! 2, tof_id = bs ! 3,
     tof_system_time = load32 be (take 4 (drop 4 bs)), tof_dis_1000 = take 3 (drop 8 bs),
     tof_dis_status = bs ! 11, tof_signal_strength = load16 be (take 2 (drop 12 bs)),
     tof_range_percision = bs ! 14, tof_checksum = bs ! 15\<rparr>"

text \<open>The packed read command.\<close>

definition read_cmd :: "bool \<Rightarrow> u8 list" where
  "read_cmd be = [eFRAME_HEADER_SYNC, eFRAME_REQUEST_MARK] @ mem16 be eFRAME_RESERVED @ [eFRAME_ID] @
     mem16 be eFRAME_RESERVED @ [0x63]"

definition tof_checksum_of :: "bool \<Rightarrow> TOFSenseFrame \<Rightarrow> u8" where
  "tof_checksum_of be f = byte_sum (take 15 (tof_store be f))"

definition is_frame_valid :: "bool \<Rightarrow> TOFSenseFrame \<Rightarrow> u32 \<Rightarrow> bool" where
  "is_frame_valid be f old_system_time =
    (if tof_header f \<noteq> eFRAME_HEADER_SYNC then False
     else if tof_mark f \<noteq> eFRAME_RESPONSE_MARK then False
     else if tof_id f \<noteq> eFRAME_ID then False
     else if to_little_endian32 be (tof_system_time f) = old_system_time then False
     else if tof_checksum f \<noteq> tof_checksum_of be f then False
     else True)"

section \<open>The object\<close>

record DistanceObject =
  d_frame :: DistanceFrame
  d_timer :: addr
  d_retry :: u32
  d_system_time :: u32
  d_timer_arg :: timer_arg
  d_resp_frame :: TOFSenseFrame
  d_uart :: uart_dev
  d_os :: os

datatype DistanceState =
    distance_init
  | distance_error
  | distance_idle
  | distance_read
  | distance_update

type_synonym distance_fsm = "(DistanceState, DistanceObject) FSM"

text \<open>The address of the receive buffer.\<close>

definition distance_resp_frame :: addr where "distance_resp_frame = 1"

definition update_distance_frame :: "bool \<Rightarrow> DistanceObject \<Rightarrow> TOFSenseFrame \<Rightarrow> DistanceObject" where
  "update_distance_frame be aobj f =
    (let fr = d_frame aobj;
         fr = fr\<lparr>df_valid := True\<rparr>;
         raw = ((0 :: u32) OR push_bit 8 (ucast (tof_dis_1000 f ! 0)) OR
                push_bit 16 (ucast (tof_dis_1000 f ! 1)) OR
                push_bit 24 (ucast (tof_dis_1000 f ! 2))) div 256;
         fr = fr\<lparr>df_distance := f_div fl32 (fl32 (of_nat (unat raw))) (Fin 1000)\<rparr>;
         fr = fr\<lparr>df_status := tof_dis_status f, df_precision := tof_range_percision f,
                 df_strength := to_little_endian16 be (tof_signal_strength f)\<rparr>
     in aobj\<lparr>d_frame := fr, d_system_time := to_little_endian32 be (tof_system_time f)\<rparr>)"

section \<open>State functions\<close>

definition distance_retry_handler ::
    "(DistanceState, DistanceObject) transition_fn \<Rightarrow> distance_fsm \<Rightarrow> distance_fsm option" where
  "distance_retry_handler T f =
    (let aobj = fsm_arg f;
         aobj = aobj\<lparr>d_retry := d_retry aobj + 1\<rparr>
     in if d_retry aobj < eDISTANCE_READ_RETRY_MAX then T distance_read (f\<lparr>fsm_arg := aobj\<rparr>)
        else let aobj = aobj\<lparr>d_frame := (d_frame aobj)\<lparr>df_valid := False\<rparr>\<rparr>
             in T distance_idle (f\<lparr>fsm_arg := aobj\<rparr>))"

definition distance_init_state :: "(DistanceState, DistanceObject) StateFP" where
  "distance_init_state T ev f =
    (let aobj = fsm_arg f
     in if etype ev = eFSM_EVENT_INIT
        then let aobj = aobj\<lparr>d_frame := (d_frame aobj)\<lparr>df_valid := False\<rparr>\<rparr>;
                 aobj = aobj\<lparr>d_timer_arg :=
                   \<lparr>handler = Some Distance_timeout_handler, handler_arg = eAO_DISTANCE\<rparr>\<rparr>;
                 (st, t, s) = osal_timer_init (Some (d_timer aobj)) (Some (d_timer_arg aobj)) (d_os aobj);
                 aobj = aobj\<lparr>d_timer := the t, d_os := s\<rparr>
             in if failed st then T distance_error (f\<lparr>fsm_arg := aobj\<rparr>)
                else T distance_idle (f\<lparr>fsm_arg := aobj\<rparr>)
        else Some f)"

definition distance_error_state :: "(DistanceState, DistanceObject) StateFP" where
  "distance_error_state T ev f =
    (let aobj = fsm_arg f
     in if etype ev = eFSM_EVENT_ENTRY
        then Some (f\<lparr>fsm_arg := aobj\<lparr>d_frame := (d_frame aobj)\<lparr>df_valid := False\<rparr>\<rparr>\<rparr>)
        else Some f)"

definition distance_idle_state :: "(DistanceState, DistanceObject) StateFP" where
  "distance_idle_state T ev f =
    (let aobj = fsm_arg f
     in if etype ev = eFSM_EVENT_ENTRY then Some (f\<lparr>fsm_arg := aobj\<lparr>d_retry := 0\<rparr>\<rparr>)
        else if etype ev = eDISTANCE_EVENT_READ then T distance_read f
        else Some f)"

text \<open>The requests of the READ entry.\<close>

definition distance_start_read :: "bool \<Rightarrow> DistanceObject \<Rightarrow> DistanceObject" where
  "distance_start_read be aobj =
    (let (_, u, s) = hal_uart_write eDISTANCE_UART_DEVICE (TxBuffer (read_cmd be))
                       (of_nat (length (read_cmd be))) None None (d_uart aobj) (d_os aobj);
         (_, u, s) = hal_uart_read eDISTANCE_UART_DEVICE (RxBuffer distance_resp_frame) 16
                       (Some Distance_uart_rx_complete_handler) (Some eAO_DISTANCE) u s;
         (_, s) = osal_timer_arm (d_timer aobj) eDISTANCE_READ_TIMEOUT_MS eTIMER_TYPE_ONCE s
     in aobj\<lparr>d_uart := u, d_os := s\<rparr>)"

definition distance_abort :: "DistanceObject \<Rightarrow> DistanceObject" where
  "distance_abort aobj =
    (let (_, u, s) = hal_uart_abort eDISTANCE_UART_DEVICE (d_uart aobj) (d_os aobj)
     in aobj\<lparr>d_uart := u, d_os := s\<rparr>)"

definition distance_disarm :: "DistanceObject \<Rightarrow> DistanceObject" where
  "distance_disarm aobj =
    (let (_, s) = osal_timer_disarm (d_timer aobj) (d_os aobj) in aobj\<lparr>d_os := s\<rparr>)"

definition distance_read_state :: "bool \<Rightarrow> (DistanceState, DistanceObject) StateFP" where
  "distance_read_state be T ev f =
    (let aobj = fsm_arg f
     in if etype ev = eFSM_EVENT_ENTRY then Some (f\<lparr>fsm_arg := distance_start_read be aobj\<rparr>)
        else if etype ev = eDISTANCE_EVENT_FRAME_RECEIVED then T distance_update f
        else if etype ev = eDISTANCE_EVENT_TIMEOUT
        then distance_retry_handler T (f\<lparr>fsm_arg := distance_abort aobj\<rparr>)
        else if etype ev = eFSM_EVENT_EXIT then Some (f\<lparr>fsm_arg := distance_disarm aobj\<rparr>)
        else Some f)"

definition distance_update_state :: "bool \<Rightarrow> (DistanceState, DistanceObject) StateFP" where
  "distance_update_state be T ev f =
    (let aobj = fsm_arg f
     in if etype ev = eFSM_EVENT_ENTRY
        then if is_frame_valid be (d_resp_frame aobj) (d_system_time aobj)
             then T distance_idle
                    (f\<lparr>fsm_arg := update_distance_frame be aobj (d_resp_frame aobj)\<rparr>)
             else distance_retry_handler T f
        else Some f)"

text \<open>The functions the state pointers point to.\<close>

fun distance_states :: "bool \<Rightarrow> DistanceState \<Rightarrow> (DistanceState, DistanceObject) StateFP" where
  "distance_states be distance_init = distance_init_state"
| "distance_states be distance_error = distance_error_state"
| "distance_states be distance_idle = distance_idle_state"
| "distance_states be distance_read = distance_read_state be"
| "distance_states be distance_update = distance_update_state be"

lemmas distance_state_defs = distance_init_state_def distance_error_state_def
  distance_idle_state_def distance_read_state_def distance_update_state_def
  distance_retry_handler_def

section \<open>The module\<close>

type_synonym distance_ao = "(DistanceState, DistanceObject) ActiveObject"

text \<open>The static callbacks post to the object.\<close>

definition distance_timeout_handler :: "distance_ao \<Rightarrow> os \<Rightarrow> eStatus \<times> distance_ao option \<times> os" where
  "distance_timeout_handler a s =
    util_active_object_post (Some a) (Some \<lparr>etype = eDISTANCE_EVENT_TIMEOUT\<rparr>) s"

definition distance_uart_rx_complete_handler ::
    "distance_ao \<Rightarrow> os \<Rightarrow> eStatus \<times> distance_ao option \<times> os" where
  "distance_uart_rx_complete_handler a s =
    util_active_object_post (Some a) (Some \<lparr>etype = eDISTANCE_EVENT_FRAME_RECEIVED\<rparr>) s"

text \<open>\<open>frame\<close> is the frame of the sensor inside the shared frame, \<open>None\<close> for a null pointer.\<close>

definition ddl_distance_init ::
    "DistanceFrame option \<Rightarrow> distance_ao \<Rightarrow> os \<Rightarrow> eStatus \<times> distance_ao \<times> os" where
  "ddl_distance_init frame a s =
    (case frame of
       None \<Rightarrow> (eSTATUS_NULL_PARAM, a, s)
     | Some fr \<Rightarrow>
        (let a = a\<lparr>active_fsm := (active_fsm a)\<lparr>fsm_arg :=
                     (fsm_arg (active_fsm a))\<lparr>d_frame := fr, d_retry := 0\<rparr>\<rparr>\<rparr>;
             (st, r, s) = util_active_object_init (Some a) eDISTANCE_QUEUE_CAPACITY (Some distance_init) s
         in (st, the r, s)))"

definition ddl_distance_post :: "Event option \<Rightarrow> distance_ao \<Rightarrow> os \<Rightarrow> eStatus \<times> distance_ao option \<times> os" where
  "ddl_distance_post event a s = util_active_object_post (Some a) event s"

definition ddl_distance_end :: "distance_ao \<Rightarrow> os \<Rightarrow> eStatus \<times> distance_ao option \<times> os" where
  "ddl_distance_end a s = util_active_object_end (Some a) s"

definition ddl_distance_join :: "distance_ao \<Rightarrow> os \<Rightarrow> os" where
  "ddl_distance_join a s = util_active_object_join a s"

definition ddl_distance_delete :: "distance_ao \<Rightarrow> os \<Rightarrow> os" where
  "ddl_distance_delete a s =
    osal_timer_destroy (d_timer (fsm_arg (active_fsm a))) (util_active_object_delete a s)"

section \<open>Frames on the wire\<close>

lemma length_16_cases:
  assumes "length bs = 16"
  shows "\<exists>a b c d e f g h i j k l m n p q. bs = [a, b, c, d, e, f, g, h, i, j, k, l, m, n, p, q]"
  using assms by (auto simp: numeral_eq_Suc length_Suc_conv)

text \<open>Loading a received frame and storing it gives back the received bytes, on every host.\<close>

lemma tof_store_load: "length bs = 16 \<Longrightarrow> tof_store be (tof_load be bs) = bs"
  by (drule length_16_cases) (auto simp: tof_store_def tof_load_def mem_load)

lemma tof_load_store:
  "length (tof_dis_1000 f) = 3 \<Longrightarrow> tof_load be (tof_store be f) = f"
  by (cases f) (auto simp: tof_store_def tof_load_def numeral_eq_Suc length_Suc_conv nth_append)

text \<open>Acceptance of a received frame, stated on the bytes.\<close>

lemma is_frame_valid_wire:
  assumes "length bs = 16"
  shows "is_frame_valid be (tof_load be bs) old \<longleftrightarrow>
    bs ! 0 = 0x57 \<and> bs ! 1 = 0 \<and> bs ! 3 = 0 \<and> le32 (take 4 (drop 4 bs)) \<noteq> old \<and>
    bs ! 15 = sum_list (take 15 bs)"
proof -
  have "tof_checksum_of be (tof_load be bs) = sum_list (take 15 bs)"
    using assms by (simp add: tof_checksum_of_def tof_store_load byte_sum_sum_list)
  moreover have "tof_header (tof_load be bs) = bs ! 0" "tof_mark (tof_load be bs) = bs ! 1"
    "tof_id (tof_load be bs) = bs ! 3" "tof_checksum (tof_load be bs) = bs ! 15"
    "tof_system_time (tof_load be bs) = load32 be (take 4 (drop 4 bs))"
    by (simp_all add: tof_load_def)
  ultimately show ?thesis using assms by (simp add: is_frame_valid_def frame_fields)
qed

lemma read_cmd_bytes: "read_cmd be = [0x57, 0x10, 0xFF, 0xFF, 0x00, 0xFF, 0xFF, 0x63]"
  by (simp add: read_cmd_def frame_fields mem16_def bytes16_def host_order_def)

text \<open>A frame that differs from an accepted one in a single byte is not accepted.\<close>

lemma frame_single_byte_error:
  assumes "length bs = 16" and "is_frame_valid be (tof_load be bs) old"
    and "i < 16" and "b \<noteq> bs ! i"
  shows "\<not> is_frame_valid be (tof_load be (bs[i := b])) old"
proof (cases "i = 15")
  case True
  then show ?thesis using assms by (simp add: is_frame_valid_wire)
next
  case False
  then have i: "i < 15" using assms(3) by simp
  have "take 15 (bs[i := b]) = (take 15 bs)[i := b]" by (simp add: take_update_swap)
  moreover have "sum_list ((take 15 bs)[i := b]) \<noteq> sum_list (take 15 bs)"
    using byte_sum_detects [of i "take 15 bs" b] i assms(1,4) by (simp add: byte_sum_sum_list)
  ultimately show ?thesis using assms i by (auto simp: is_frame_valid_wire)
qed

text \<open>
  The decoded distance: the 24-bit little-endian field in millimetres, divided by 1000 and rounded
  to single precision.
\<close>

definition distance_mm :: "u8 list \<Rightarrow> nat" where
  "distance_mm bs = unat (bs ! 8) + 256 * unat (bs ! 9) + 65536 * unat (bs ! 10)"

lemma distance_raw:
  "((0 :: u32) OR push_bit 8 (ucast (a :: u8)) OR push_bit 16 (ucast (b :: u8)) OR
      push_bit 24 (ucast (c :: u8))) div 256
    = of_nat (unat a + 256 * unat b + 65536 * unat c)"
proof -
  let ?w = "(0 :: u32) OR push_bit 8 (ucast a) OR push_bit 16 (ucast b) OR push_bit 24 (ucast c)"
  have "?w div 256 = drop_bit 8 ?w" by (simp add: drop_bit_eq_div)
  also have "\<dots> = ucast a OR push_bit 8 (ucast b) OR push_bit 16 (ucast c)"
    by (rule bit_word_eqI) (auto simp: bit_simps)
  also have "\<dots> = ucast a + push_bit 8 (ucast b) + push_bit 16 (ucast c)"
  proof -
    have d1: "(ucast a :: u32) AND push_bit 8 (ucast b) = 0"
      "(ucast a OR push_bit 8 (ucast b) :: u32) AND push_bit 16 (ucast c) = 0"
      by (rule bit_word_eqI; auto simp: bit_simps)+
    then show ?thesis by (simp add: disjunctive_add_eq_or or.assoc)
  qed
  also have "\<dots> = of_nat (unat a + 256 * unat b + 65536 * unat c)"
    by (simp add: push_bit_eq_mult)
  finally show ?thesis .
qed

lemma update_distance_frame_fields:
  fixes be aobj
  defines "a' bs \<equiv> update_distance_frame be aobj (tof_load be bs)"
  assumes "length bs = 16"
  shows "df_valid (d_frame (a' bs))"
    "df_distance (d_frame (a' bs)) = f_div fl32 (fl32 (of_nat (distance_mm bs))) (Fin 1000)"
    "df_status (d_frame (a' bs)) = bs ! 11" "df_precision (d_frame (a' bs)) = bs ! 14"
    "df_strength (d_frame (a' bs)) = le16 (take 2 (drop 12 bs))"
    "d_system_time (a' bs) = le32 (take 4 (drop 4 bs))" "d_retry (a' bs) = d_retry aobj"
proof -
  have n: "unat (of_nat (unat (bs ! 8) + 256 * unat (bs ! 9) + 65536 * unat (bs ! 10)) :: u32)
      = distance_mm bs"
  proof -
    have "unat (bs ! 8) + 256 * unat (bs ! 9) + 65536 * unat (bs ! 10) < 2 ^ 32"
      using unat_lt_2p [of "bs ! 8"] unat_lt_2p [of "bs ! 9"] unat_lt_2p [of "bs ! 10"] by simp
    then show ?thesis unfolding distance_mm_def by (intro unat_of_nat_small) simp
  qed
  have dis: "tof_dis_1000 (tof_load be bs) ! 0 = bs ! 8" "tof_dis_1000 (tof_load be bs) ! 1 = bs ! 9"
    "tof_dis_1000 (tof_load be bs) ! 2 = bs ! 10"
    using assms by (simp_all add: tof_load_def)
  show "df_distance (d_frame (a' bs)) = f_div fl32 (fl32 (of_nat (distance_mm bs))) (Fin 1000)"
    unfolding assms(1) update_distance_frame_def Let_def dis distance_raw n by simp
  show "df_valid (d_frame (a' bs))" "df_status (d_frame (a' bs)) = bs ! 11"
    "df_precision (d_frame (a' bs)) = bs ! 14"
    "df_strength (d_frame (a' bs)) = le16 (take 2 (drop 12 bs))"
    "d_system_time (a' bs) = le32 (take 4 (drop 4 bs))" "d_retry (a' bs) = d_retry aobj"
    using assms(2) by (simp_all add: assms(1) update_distance_frame_def Let_def tof_load_def)
qed

text \<open>The rounding error of the division is at most one part in \<open>2 ^ 24\<close>.\<close>

lemma distance_value:
  "\<exists>d. f_div fl32 (fl32 (of_nat (distance_mm bs))) (Fin 1000) = Fin d \<and>
    \<bar>d - of_nat (distance_mm bs) / 1000\<bar> \<le> of_nat (distance_mm bs) / 1000 / 2 ^ 24 \<and>
    0 \<le> d \<and> d \<le> 16778"
proof -
  have "distance_mm bs < 2 ^ 24"
    using unat_lt_2p [of "bs ! 8"] unat_lt_2p [of "bs ! 9"] unat_lt_2p [of "bs ! 10"]
    by (simp add: distance_mm_def)
  then have mm: "int (distance_mm bs) < 2 ^ 24" by simp
  have conv: "fl32 (of_nat (distance_mm bs)) = Fin (of_nat (distance_mm bs))"
    using fl32_int [of "int (distance_mm bs)"] mm by simp
  define x where "x = (of_nat (distance_mm bs) / 1000 :: rat)"
  have x: "0 \<le> x" "x \<le> of_int 16778"
  proof -
    have "of_int (int (distance_mm bs)) \<le> (of_int 16778000 :: rat)"
      using mm by (subst of_int_le_iff) simp
    then show "x \<le> of_int 16778" by (simp add: x_def)
  qed (simp add: x_def)
  have r: "fl32 x = Fin (rnd32 x)" using fl32_Fin [of x 16778] x by simp
  have "\<bar>rnd32 x - x\<bar> \<le> x / 2 ^ 24"
  proof (cases "distance_mm bs = 0")
    case True
    then show ?thesis by (simp add: x_def)
  next
    case False
    then have "1 / 1000 \<le> x" by (simp add: x_def divide_right_mono)
    moreover have "(2 :: rat) powi (- 126) \<le> 1 / 1000"
    proof -
      have "(2 :: rat) powi (- 126) \<le> 2 powi (- 10)" by (rule two_powi_le) simp
      also have "(2 :: rat) powi (- 10) \<le> 1 / 1000" by (simp add: power_int_def power_one_over)
      finally show ?thesis .
    qed
    ultimately show ?thesis using rnd32_error [of x] x by linarith
  qed
  moreover have "0 \<le> rnd32 x" "rnd32 x \<le> 16778"
    using rnd32_ge [of 0 x] rnd32_le [of x 16778] x by simp_all
  ultimately show ?thesis by (simp add: conv r x_def [symmetric])
qed

section \<open>The machine as a transition table\<close>

text \<open>
  The specification of the machine: the state and object after an event, without nested calls.
  \<open>distance_retry\<close> is the end of a failed read.
\<close>

definition distance_retry ::
    "bool \<Rightarrow> (DistanceObject \<Rightarrow> DistanceObject) \<Rightarrow> DistanceObject \<Rightarrow> DistanceState \<times> DistanceObject" where
  "distance_retry be leave a =
    (let a = a\<lparr>d_retry := d_retry a + 1\<rparr>
     in if d_retry a < 3 then (distance_read, distance_start_read be (leave a))
        else (distance_idle, (leave (a\<lparr>d_frame := (d_frame a)\<lparr>df_valid := False\<rparr>\<rparr>))\<lparr>d_retry := 0\<rparr>))"

fun distance_step ::
    "bool \<Rightarrow> Event \<Rightarrow> DistanceState \<times> DistanceObject \<Rightarrow> DistanceState \<times> DistanceObject" where
  "distance_step be ev (distance_idle, a) =
    (if etype ev = eDISTANCE_EVENT_READ then (distance_read, distance_start_read be a)
     else (distance_idle, a))"
| "distance_step be ev (distance_read, a) =
    (if etype ev = eDISTANCE_EVENT_FRAME_RECEIVED
     then let a = distance_disarm a
          in if is_frame_valid be (d_resp_frame a) (d_system_time a)
             then (distance_idle, (update_distance_frame be a (d_resp_frame a))\<lparr>d_retry := 0\<rparr>)
             else distance_retry be id a
     else if etype ev = eDISTANCE_EVENT_TIMEOUT
     then distance_retry be distance_disarm (distance_abort a)
     else (distance_read, a))"
| "distance_step be ev (st, a) = (st, a)"

lemma distance_retry_frame [simp]:
  "d_retry (distance_start_read be a) = d_retry a" "d_retry (distance_disarm a) = d_retry a"
  "d_retry (distance_abort a) = d_retry a"
  "d_frame (distance_start_read be a) = d_frame a" "d_frame (distance_disarm a) = d_frame a"
  "d_frame (distance_abort a) = d_frame a"
  "d_resp_frame (distance_disarm a) = d_resp_frame a"
  "d_system_time (distance_start_read be a) = d_system_time a"
  "d_system_time (distance_disarm a) = d_system_time a"
  "d_system_time (distance_abort a) = d_system_time a"
  by (simp_all add: distance_start_read_def distance_disarm_def distance_abort_def Let_def
      split: prod.split)

lemma update_distance_retry [simp]: "d_retry (update_distance_frame be a fr) = d_retry a"
  by (simp add: update_distance_frame_def Let_def)

text \<open>Calls that nest at most three deep; the status of a transition is dropped.\<close>

lemmas distance_codes = fsm_codes

lemma distance_refines_table:
  assumes "current_state f = Some st" and "st = distance_idle \<or> st = distance_read"
    and "eFSM_EVENT_USER \<le> etype ev"
  shows "call_state (distance_states be) (Suc (Suc (Suc n))) ev f =
    (case distance_step be ev (st, fsm_arg f) of
       (st', a') \<Rightarrow> Some \<lparr>current_state = Some st', fsm_arg = a'\<rparr>)"
proof -
  obtain a where f: "f = \<lparr>current_state = Some st, fsm_arg = a\<rparr>" using assms(1) by (cases f) simp
  have ev: "etype ev \<noteq> 0" "etype ev \<noteq> 1" "etype ev \<noteq> 2"
    using assms(3) by (auto simp: fsm_codes word_le_nat_alt)
  show ?thesis
    using assms(2) ev
    by (auto simp: f distance_state_defs distance_retry_def fsm_codes Let_def
        eDISTANCE_READ_RETRY_MAX_def)
qed

section \<open>The contracts\<close>

definition distance_ok :: "DistanceObject \<Rightarrow> bool" where
  "distance_ok a \<longleftrightarrow> uart_wf (d_uart a)"

lemma distance_ok_ops [simp]:
  "distance_ok a \<Longrightarrow> distance_ok (distance_start_read be a)"
  "distance_ok a \<Longrightarrow> distance_ok (distance_abort a)"
  "distance_ok (distance_disarm a) = distance_ok a"
  "distance_ok (update_distance_frame be a fr) = distance_ok a"
  "distance_ok (a\<lparr>d_frame := x\<rparr>) = distance_ok a" "distance_ok (a\<lparr>d_retry := r\<rparr>) = distance_ok a"
  "distance_ok (a\<lparr>d_timer_arg := y\<rparr>) = distance_ok a"
  "distance_ok (a\<lparr>d_timer := t, d_os := s\<rparr>) = distance_ok a"
  by (auto simp: distance_ok_def distance_start_read_def distance_abort_def distance_disarm_def
      update_distance_frame_def Let_def split: prod.split
      dest: uart_ops_wf hal_uart_abort_wf)

fun distance_rank :: "DistanceState \<Rightarrow> nat" where
  "distance_rank distance_update = 1"
| "distance_rank st = 0"

lemma distance_retry_total:
  assumes "\<And>next f'. next = distance_read \<or> next = distance_idle \<Longrightarrow>
      current_state f' = current_state f \<Longrightarrow> distance_ok (fsm_arg f') \<Longrightarrow>
      \<exists>f''. T next f' = Some f'' \<and> distance_ok (fsm_arg f'') \<and> current_state f'' \<noteq> None"
    and "distance_ok (fsm_arg f)"
  shows "\<exists>f'. distance_retry_handler T f = Some f' \<and> distance_ok (fsm_arg f') \<and> current_state f' \<noteq> None"
  using assms by (simp add: distance_retry_handler_def Let_def)

interpretation dist: fsm_machine "distance_states be" distance_ok distance_rank 1 for be
proof (unfold_locales, goal_cases)
  case (1 st)
  then show ?case by (cases st) simp_all
next
  case (2 f st T)
  then show ?case
    by (cases st) (simp_all add: distance_state_defs fsm_codes Let_def)
next
  case (3 f st T)
  then show ?case
    by (cases st)
      (auto simp: distance_state_defs fsm_codes Let_def)
next
  case (4 f st T ev)
  then show ?case
    by (cases st) (auto simp: distance_state_defs Let_def split: prod.split)
next
  case (5 T T' st ev f f')
  then show ?case
    by (cases st) (auto simp: distance_state_defs Let_def split: prod.splits if_splits)
qed

interpretation dist_poll: polled_sensor "distance_step be" distance_idle distance_read
    "\<lambda>a. unat (d_retry a)" 3 eDISTANCE_EVENT_READ
    "{eDISTANCE_EVENT_TIMEOUT, eDISTANCE_EVENT_FRAME_RECEIVED}" for be
proof -
  have inc: "unat (r + 1) = Suc (unat r)" if "unat r < 3" for r :: u32
    using that by (simp add: unat_word_ariths)
  have lt: "r < 3 \<longleftrightarrow> unat r < 3" for r :: u32
    by (simp add: word_less_nat_alt)
  show "polled_sensor (distance_step be) distance_idle distance_read (\<lambda>a. unat (d_retry a)) 3
      eDISTANCE_EVENT_READ {eDISTANCE_EVENT_TIMEOUT, eDISTANCE_EVENT_FRAME_RECEIVED}"
    by unfold_locales
      (auto simp: distance_retry_def fsm_codes Let_def inc lt)
qed

section \<open>Runs\<close>

lemma distance_step_states:
  assumes "st = distance_idle \<or> st = distance_read"
  shows "fst (distance_step be ev (st, a)) = distance_idle \<or> fst (distance_step be ev (st, a)) = distance_read"
  using assms by (auto simp: distance_retry_def Let_def split: if_splits)

lemma distance_run_table:
  assumes "st = distance_idle \<or> st = distance_read" and "user_events evs"
  shows "fsm_run (distance_states be) (n + 3) evs \<lparr>current_state = Some st, fsm_arg = a\<rparr> =
    (case fold (distance_step be) evs (st, a) of
       (st', a') \<Rightarrow> Some \<lparr>current_state = Some st', fsm_arg = a'\<rparr>)"
proof (rule fsm_run_table [where S = "{distance_idle, distance_read}"])
  fix st a and ev :: Event assume "st \<in> {distance_idle, distance_read}" "eFSM_EVENT_USER \<le> etype ev"
  then show "call_state (distance_states be) (n + 3) ev \<lparr>current_state = Some st, fsm_arg = a\<rparr> =
      (case distance_step be ev (st, a) of (st', a') \<Rightarrow> Some \<lparr>current_state = Some st', fsm_arg = a'\<rparr>)"
    using distance_refines_table [of "\<lparr>current_state = Some st, fsm_arg = a\<rparr>" st ev be n]
    by (simp add: numeral_3_eq_3 del: call_state.simps)
qed (use assms distance_step_states in auto)

section \<open>Properties\<close>

text \<open>A sensor object whose receive buffer holds a valid frame: 1.5 m, read at time 7.\<close>

definition demo_frame_bytes :: "u8 list" where
  "demo_frame_bytes = [0x57, 0, 0xFF, 0, 7, 0, 0, 0, 0xDC, 5, 0, 0, 100, 0, 1, 0xA3]"

definition demo_distance :: DistanceObject where
  "demo_distance = \<lparr>d_frame = dist_frame zero_ddl_frame, d_timer = 1, d_retry = 0, d_system_time = 0,
     d_timer_arg = null_timer_arg, d_resp_frame = tof_load False demo_frame_bytes,
     d_uart = static_uart (\<lambda>_. None), d_os = boot_os (\<lambda>_. 1) (\<lambda>_. zero_timespec)\<rparr>"

lemma demo_frame_valid: "length demo_frame_bytes = 16"
    "is_frame_valid False (tof_load False demo_frame_bytes) 0"
proof -
  show l: "length demo_frame_bytes = 16" by (simp add: demo_frame_bytes_def)
  show "is_frame_valid False (tof_load False demo_frame_bytes) 0"
    unfolding is_frame_valid_wire [OF l] by (simp add: demo_frame_bytes_def le32_def)
qed

text \<open>The distance machine implements its transition table: whatever events other threads post, in
  idle and in read, running the nested state functions of the source, with their retries and their
  entry and exit actions, gives the state and the object that the flat table gives.\<close>

lemma distance_implements_table:
  assumes "st = distance_idle \<or> st = distance_read" and "user_events evs"
  shows "fsm_run (distance_states be) (n + 3) evs \<lparr>current_state = Some st, fsm_arg = a\<rparr> =
    (case fold (distance_step be) evs (st, a) of
       (st', a') \<Rightarrow> Some \<lparr>current_state = Some st', fsm_arg = a'\<rparr>)"
  by (rule distance_run_table [OF assms])

lemma distance_implements_table_witness:
  "\<exists>a'. fsm_run (distance_states False) 3 [\<lparr>etype = eDISTANCE_EVENT_READ\<rparr>]
      \<lparr>current_state = Some distance_idle, fsm_arg = demo_distance\<rparr>
      = Some \<lparr>current_state = Some distance_read, fsm_arg = a'\<rparr>"
  using distance_implements_table [of distance_idle "[\<lparr>etype = eDISTANCE_EVENT_READ\<rparr>]" False 0 demo_distance]
  by (simp add: eDISTANCE_EVENT_READ_def del: fsm_run.simps)

text \<open>C16. A request for a distance ends: after at most three timeouts or received frames, valid or not,
  the machine is back in idle, however other events interleave.\<close>

lemma distance_request_ends:
  assumes "unat (d_retry a) < 3" and "user_events evs"
    and "3 \<le> length (filter (\<lambda>ev. etype ev = eDISTANCE_EVENT_TIMEOUT \<or>
           etype ev = eDISTANCE_EVENT_FRAME_RECEIVED) evs)"
  shows "\<exists>us vs a'. evs = us @ vs \<and>
    fsm_run (distance_states be) (n + 3) us \<lparr>current_state = Some distance_read, fsm_arg = a\<rparr>
      = Some \<lparr>current_state = Some distance_idle, fsm_arg = a'\<rparr>"
proof -
  have ok: "dist_poll.ok (distance_read, a)"
    using assms(1) by (simp add: dist_poll.ok_def)
  have "3 - unat (d_retry a)
      \<le> length (filter (\<lambda>ev. etype ev \<in> {eDISTANCE_EVENT_TIMEOUT, eDISTANCE_EVENT_FRAME_RECEIVED}) evs)"
    using assms(3) by simp
  then obtain us vs where e: "evs = us @ vs" "fst (fold (distance_step be) us (distance_read, a)) = distance_idle"
    using dist_poll.request_ends [OF ok user_events_ge_3 [OF assms(2)], of be] by auto
  then have "user_events us" using assms(2) by simp
  then have "fsm_run (distance_states be) (n + 3) us \<lparr>current_state = Some distance_read, fsm_arg = a\<rparr>
      = Some \<lparr>current_state = Some distance_idle, fsm_arg = snd (fold (distance_step be) us (distance_read, a))\<rparr>"
    using distance_run_table [of distance_read us be n a] e(2)
    by (cases "fold (distance_step be) us (distance_read, a)") simp
  with e(1) show ?thesis by blast
qed

lemma distance_request_ends_witness:
  "\<exists>us vs a'. replicate 3 \<lparr>etype = eDISTANCE_EVENT_TIMEOUT\<rparr> = us @ vs \<and>
    fsm_run (distance_states False) 3 us \<lparr>current_state = Some distance_read, fsm_arg = demo_distance\<rparr>
      = Some \<lparr>current_state = Some distance_idle, fsm_arg = a'\<rparr>"
  using distance_request_ends
    [of demo_distance "replicate 3 \<lparr>etype = eDISTANCE_EVENT_TIMEOUT\<rparr>" False 0]
  by (simp add: demo_distance_def user_events_def fsm_codes word_le_nat_alt list_all_iff
      del: fsm_run.simps replicate.simps)

text \<open>C17. What a received frame means: sixteen bytes from the wire are accepted exactly when they start
  with the response header, carry the expected identifier, a time that differs from the last one and
  the sum of the other bytes as checksum; then the frame is marked valid, its distance is the three
  byte little-endian number of millimetres in metres, up to the rounding of single precision (a
  relative error of at most 2 to the -24), and the other fields are the bytes of the frame,
  independent of the byte order of the host.\<close>

lemma distance_frame_meaning:
  assumes "length bs = 16"
  shows "(is_frame_valid be (tof_load be bs) old \<longleftrightarrow>
      bs ! 0 = 0x57 \<and> bs ! 1 = 0 \<and> bs ! 3 = 0 \<and> le32 (take 4 (drop 4 bs)) \<noteq> old \<and>
      bs ! 15 = sum_list (take 15 bs)) \<and>
    (\<exists>d. df_distance (d_frame (update_distance_frame be aobj (tof_load be bs))) = Fin d \<and>
       \<bar>d - of_nat (distance_mm bs) / 1000\<bar> \<le> of_nat (distance_mm bs) / 1000 / 2 ^ 24) \<and>
    df_valid (d_frame (update_distance_frame be aobj (tof_load be bs))) \<and>
    df_status (d_frame (update_distance_frame be aobj (tof_load be bs))) = bs ! 11 \<and>
    df_strength (d_frame (update_distance_frame be aobj (tof_load be bs))) = le16 (take 2 (drop 12 bs)) \<and>
    df_precision (d_frame (update_distance_frame be aobj (tof_load be bs))) = bs ! 14 \<and>
    d_system_time (update_distance_frame be aobj (tof_load be bs)) = le32 (take 4 (drop 4 bs))"
  using is_frame_valid_wire [OF assms, of be old] update_distance_frame_fields [OF assms, of be aobj]
    distance_value [of bs]
  by auto

lemma distance_frame_meaning_witness:
  "is_frame_valid True (tof_load True demo_frame_bytes) 6 \<and> distance_mm demo_frame_bytes = 1500 \<and>
   d_system_time (update_distance_frame True demo_distance (tof_load True demo_frame_bytes)) = 7"
  using distance_frame_meaning [OF demo_frame_valid(1), of True 6 demo_distance]
  by (simp add: demo_frame_bytes_def le32_def distance_mm_def)

text \<open>C18. The checksum detects every damaged byte: if one byte of an accepted frame is received
  differently, the frame is rejected.\<close>

lemma distance_damage_detected:
  assumes "length bs = 16" and "is_frame_valid be (tof_load be bs) old" and "i < 16" and "b \<noteq> bs ! i"
  shows "\<not> is_frame_valid be (tof_load be (bs[i := b])) old"
  by (rule frame_single_byte_error [OF assms])

lemma distance_damage_detected_witness:
  "\<not> is_frame_valid False (tof_load False (demo_frame_bytes[9 := 6])) 0"
  using distance_damage_detected [OF demo_frame_valid, of 9 6] by (simp add: demo_frame_bytes_def)

end
