(* ===== verification/HalI2c.thy ===== *)
theory HalI2c
  imports Osal
begin

text \<open>
  The I2C driver, \<^verbatim>\<open>src/src/hal/i2c/hal_i2c.c\<close>: messages to the one device of the bus through
  \<^verbatim>\<open>ioctl(I2C_RDWR)\<close>. The bus answers with the stream of the operating system state; the model
  records the transfers that were accepted. A pointer is null or carries what it points to: the
  bytes to send, or the room to receive.
\<close>

definition eI2C0_DEVICE :: u32 where "eI2C0_DEVICE = 0"
definition eI2C_DEVICE_COUNT :: u32 where "eI2C_DEVICE_COUNT = 1"
definition I2C_M_RD :: u16 where "I2C_M_RD = 1"
definition I2C_M_TEN :: u16 where "I2C_M_TEN = 0x10"
definition I2C_FUNC_I2C :: u32 where "I2C_FUNC_I2C = 1"
definition I2C_RDWR_IOCTL_MAX_MSGS :: nat where "I2C_RDWR_IOCTL_MAX_MSGS = 42"
definition I2C_MAX_MESSAGE_SIZE_BYTES :: u64 where "I2C_MAX_MESSAGE_SIZE_BYTES = 8"

lemmas i2c_codes = eI2C0_DEVICE_def eI2C_DEVICE_COUNT_def I2C_M_RD_def I2C_M_TEN_def
  I2C_FUNC_I2C_def I2C_RDWR_IOCTL_MAX_MSGS_def I2C_MAX_MESSAGE_SIZE_BYTES_def

record I2CDevice =
  i2c_fd :: int
  i2c_flags :: u16
  i2c_address :: u8

text \<open>A message: the contents of its buffer and the length handed to the driver (16 bits).\<close>

record i2c_msg =
  msg_addr :: u16
  msg_flags :: u16
  msg_len :: u16
  msg_buf :: "u8 list"

record i2c =
  i2c_devices :: "I2CDevice list"
  i2c_open :: "int list"
  i2c_transfers :: "i2c_msg list list"
  i2c_incoming :: "nat \<Rightarrow> u8"
  i2c_received :: nat

text \<open>The bytes the devices of the bus send when they are read are the stream \<open>i2c_incoming\<close>.\<close>

definition static_i2c :: "(nat \<Rightarrow> u8) \<Rightarrow> i2c" where
  "static_i2c incoming = \<lparr>i2c_devices = [\<lparr>i2c_fd = -1, i2c_flags = 0, i2c_address = 0\<rparr>],
     i2c_open = [], i2c_transfers = [], i2c_incoming = incoming, i2c_received = 0\<rparr>"

definition i2c_receive :: "nat \<Rightarrow> i2c \<Rightarrow> u8 list \<times> i2c" where
  "i2c_receive n c = (map (\<lambda>i. i2c_incoming c (i2c_received c + i)) [0..<n],
     c\<lparr>i2c_received := i2c_received c + n\<rparr>)"

definition hal_i2c_transfer :: "u32 \<Rightarrow> i2c_msg list option \<Rightarrow> nat \<Rightarrow> i2c \<Rightarrow> os \<Rightarrow> eStatus \<times> i2c \<times> os" where
  "hal_i2c_transfer device_index messages count c s =
    (if eI2C_DEVICE_COUNT \<le> device_index then (eSTATUS_INVALID_VALUE, c, s)
     else if messages = None then (eSTATUS_NULL_PARAM, c, s)
     else if I2C_RDWR_IOCTL_MAX_MSGS < count then (eSTATUS_INVALID_VALUE, c, s)
     else let (r, s) = ask s
          in if r < 0 then (eSTATUS_DEVICE_ERROR, c, s)
             else (eSTATUS_SUCCESSFUL,
                   c\<lparr>i2c_transfers := i2c_transfers c @ [take count (the messages)]\<rparr>, s))"

definition i2c_setup_device :: "nat \<Rightarrow> i2c \<Rightarrow> os \<Rightarrow> eStatus \<times> i2c \<times> os" where
  "i2c_setup_device d c s =
    (let (fd, s) = ask s;
         dev = (i2c_devices c ! d)\<lparr>i2c_fd := fd\<rparr>;
         c = c\<lparr>i2c_devices := (i2c_devices c)[d := dev]\<rparr>
     in if fd < 0 then (eSTATUS_DEVICE_ERROR, c, s)
        else let c = c\<lparr>i2c_open := fd # i2c_open c\<rparr>;
                 (r, s) = ask s
     in if r < 0 then (eSTATUS_DEVICE_ERROR, c, s)
        else let funcs = (word_of_int r :: u32)
     in if funcs AND I2C_FUNC_I2C = 0 then (eSTATUS_DEVICE_ERROR, c, s)
        else (eSTATUS_SUCCESSFUL,
              c\<lparr>i2c_devices := (i2c_devices c)[d := dev\<lparr>i2c_flags := i2c_flags dev AND NOT I2C_M_TEN\<rparr>]\<rparr>, s))"

fun i2c_setup_devices :: "nat list \<Rightarrow> i2c \<Rightarrow> os \<Rightarrow> eStatus \<times> i2c \<times> os" where
  "i2c_setup_devices [] c s = (eSTATUS_SUCCESSFUL, c, s)"
| "i2c_setup_devices (d # ds) c s =
    (case i2c_setup_device d c s of
       (st, c, s) \<Rightarrow> if failed st then (st, c, s) else i2c_setup_devices ds c s)"

definition hal_i2c_init :: "i2c \<Rightarrow> os \<Rightarrow> eStatus \<times> i2c \<times> os" where
  "hal_i2c_init c s = i2c_setup_devices [0..<unat eI2C_DEVICE_COUNT] c s"

definition hal_i2c_set_address :: "u32 \<Rightarrow> u8 \<Rightarrow> i2c \<Rightarrow> eStatus \<times> i2c" where
  "hal_i2c_set_address device_index address c =
    (if eI2C_DEVICE_COUNT \<le> device_index then (eSTATUS_INVALID_VALUE, c)
     else (eSTATUS_SUCCESSFUL, c\<lparr>i2c_devices := (i2c_devices c)[unat device_index :=
             (i2c_devices c ! unat device_index)\<lparr>i2c_address := address\<rparr>]\<rparr>))"

definition i2c_message :: "I2CDevice \<Rightarrow> u16 \<Rightarrow> u64 \<Rightarrow> u8 list \<Rightarrow> i2c_msg" where
  "i2c_message dev extra len buf =
    \<lparr>msg_addr = ucast (i2c_address dev), msg_flags = i2c_flags dev OR extra, msg_len = ucast len,
      msg_buf = buf\<rparr>"

definition hal_i2c_write :: "u32 \<Rightarrow> u8 list option \<Rightarrow> u64 \<Rightarrow> i2c \<Rightarrow> os \<Rightarrow> eStatus \<times> i2c \<times> os" where
  "hal_i2c_write device_index buffer num_bytes c s =
    (if eI2C_DEVICE_COUNT \<le> device_index then (eSTATUS_INVALID_VALUE, c, s)
     else case buffer of
            None \<Rightarrow> (eSTATUS_NULL_PARAM, c, s)
          | Some bytes \<Rightarrow>
             hal_i2c_transfer device_index
               (Some [i2c_message (i2c_devices c ! unat device_index) 0 num_bytes bytes]) 1 c s)"

text \<open>
  The bytes of the register number, as the loop writes them. The shift distance is computed in
  \<^verbatim>\<open>size_t\<close> and counts bits.
\<close>

definition write_reg_bytes :: "u16 \<Rightarrow> u64 \<Rightarrow> u8 list" where
  "write_reg_bytes reg reg_len =
    map (\<lambda>i. ucast (drop_bit (unat (reg_len - 1 - of_nat i)) (ucast reg :: u32)))
      [0..<unat reg_len]"

text \<open>
  The guard bounds the sum of the lengths, which wraps at 64 bits. A register longer than the
  combined buffer (possible only when the sum wraps) writes past it: \<open>os_ub\<close>.
\<close>

definition hal_i2c_write_reg ::
    "u32 \<Rightarrow> u16 \<Rightarrow> u64 \<Rightarrow> u8 list option \<Rightarrow> u64 \<Rightarrow> i2c \<Rightarrow> os \<Rightarrow> eStatus \<times> i2c \<times> os" where
  "hal_i2c_write_reg device_index reg reg_len buffer num_bytes c s =
    (if eI2C_DEVICE_COUNT \<le> device_index then (eSTATUS_INVALID_VALUE, c, s)
     else case buffer of
            None \<Rightarrow> (eSTATUS_NULL_PARAM, c, s)
          | Some bytes \<Rightarrow>
             (if I2C_MAX_MESSAGE_SIZE_BYTES < num_bytes + reg_len then (eSTATUS_NULL_PARAM, c, s)
              else if I2C_MAX_MESSAGE_SIZE_BYTES < reg_len
              then (eSTATUS_SUCCESSFUL, c, s\<lparr>os_ub := True\<rparr>)
              else hal_i2c_transfer device_index
                     (Some [i2c_message (i2c_devices c ! unat device_index) 0 (reg_len + num_bytes)
                        (write_reg_bytes reg reg_len @ take (unat num_bytes) bytes)]) 1 c s))"

text \<open>
  A read returns the content of the caller's buffer: what the device sent, or what it was when the
  transfer failed.
\<close>

definition hal_i2c_read ::
    "u32 \<Rightarrow> u8 list option \<Rightarrow> u64 \<Rightarrow> i2c \<Rightarrow> os \<Rightarrow> eStatus \<times> u8 list option \<times> i2c \<times> os" where
  "hal_i2c_read device_index buffer num_bytes c s =
    (if eI2C_DEVICE_COUNT \<le> device_index then (eSTATUS_INVALID_VALUE, buffer, c, s)
     else case buffer of
            None \<Rightarrow> (eSTATUS_NULL_PARAM, buffer, c, s)
          | Some bytes \<Rightarrow>
             (let (st, c, s) = hal_i2c_transfer device_index
                    (Some [i2c_message (i2c_devices c ! unat device_index) I2C_M_RD num_bytes bytes]) 1 c s
              in if failed st then (st, buffer, c, s)
                 else let (rx, c) = i2c_receive (unat (ucast num_bytes :: u16)) c
                      in (st, Some rx, c, s)))"

text \<open>The register number is sent as it lies in memory: least significant byte first on this machine.\<close>

definition reg_memory :: "u16 \<Rightarrow> u8 list" where
  "reg_memory reg = [ucast reg, ucast (drop_bit 8 reg)]"

definition hal_i2c_read_reg ::
    "u32 \<Rightarrow> u16 \<Rightarrow> u64 \<Rightarrow> u8 list option \<Rightarrow> u64 \<Rightarrow> i2c \<Rightarrow> os
      \<Rightarrow> eStatus \<times> u8 list option \<times> i2c \<times> os" where
  "hal_i2c_read_reg device_index reg reg_len buffer num_bytes c s =
    (if eI2C_DEVICE_COUNT \<le> device_index then (eSTATUS_INVALID_VALUE, buffer, c, s)
     else case buffer of
            None \<Rightarrow> (eSTATUS_NULL_PARAM, buffer, c, s)
          | Some bytes \<Rightarrow>
             (let dev = i2c_devices c ! unat device_index;
                  (st, c, s) = hal_i2c_transfer device_index
                    (Some [i2c_message dev 0 reg_len (reg_memory reg),
                           i2c_message dev I2C_M_RD num_bytes bytes]) 2 c s
              in if failed st then (st, buffer, c, s)
                 else let (rx, c) = i2c_receive (unat (ucast num_bytes :: u16)) c
                      in (st, Some rx, c, s)))"

definition hal_i2c_cleanup :: "i2c \<Rightarrow> i2c" where
  "hal_i2c_cleanup c =
    fold (\<lambda>d c. c\<lparr>i2c_open := remove1 (i2c_fd (i2c_devices c ! d)) (i2c_open c),
                  i2c_devices := (i2c_devices c)[d := (i2c_devices c ! d)\<lparr>i2c_fd := -1\<rparr>]\<rparr>)
      [0..<unat eI2C_DEVICE_COUNT] c"

section \<open>Facts\<close>

text \<open>
  For registers of one byte the message is the register followed by the data, within the message
  bound; a register of two bytes is not sent as its two bytes, because the shift counts bits.
\<close>

lemma write_reg_bytes_1: "write_reg_bytes reg 1 = [ucast reg]"
  by (auto simp: write_reg_bytes_def bit_simps intro!: bit_word_eqI)

lemma write_reg_bytes_2:
  "write_reg_bytes reg 2 = [ucast (drop_bit 1 reg), ucast reg]"
  by (auto simp: write_reg_bytes_def upt_conv_Cons bit_simps intro!: bit_word_eqI)

lemma write_reg_two_byte_example:
  "write_reg_bytes 0x1234 2 = [0x1A, 0x34]"
  by (simp add: write_reg_bytes_2)

lemma write_reg_sends:
  assumes "device_index < eI2C_DEVICE_COUNT" and "length bytes = unat num_bytes" and "num_bytes < 8"
    and "hal_i2c_write_reg device_index reg 1 (Some bytes) num_bytes c s = (st, c', s')"
  shows "(st = eSTATUS_SUCCESSFUL \<and>
      i2c_transfers c' = i2c_transfers c @
        [[\<lparr>msg_addr = ucast (i2c_address (i2c_devices c ! unat device_index)),
           msg_flags = i2c_flags (i2c_devices c ! unat device_index),
           msg_len = 1 + ucast num_bytes, msg_buf = ucast reg # bytes\<rparr>]]) \<or>
    (st = eSTATUS_DEVICE_ERROR \<and> c' = c)"
proof -
  have d: "\<not> eI2C_DEVICE_COUNT \<le> device_index" using assms(1) by simp
  have "unat num_bytes < 8" using assms(3) by (simp add: word_less_nat_alt)
  then have n: "\<not> I2C_MAX_MESSAGE_SIZE_BYTES < num_bytes + 1" "\<not> I2C_MAX_MESSAGE_SIZE_BYTES < (1 :: u64)"
    by (simp_all add: i2c_codes word_less_nat_alt unat_word_ariths)
  have len: "ucast (1 + num_bytes) = (1 + ucast num_bytes :: u16)"
    by (simp add: word_unat_eq_iff unsigned_ucast_eq take_bit_eq_mod unat_word_ariths mod_mod_cancel
        mod_simps)
  show ?thesis
    using assms(2,4) d n write_reg_bytes_1 [of reg] len
    by (auto simp: hal_i2c_write_reg_def hal_i2c_transfer_def i2c_message_def ask_def
        I2C_RDWR_IOCTL_MAX_MSGS_def Let_def split: if_splits)
qed

section \<open>Properties\<close>

text \<open>A write to a register with a one byte number puts one message on the bus, the register followed
  by the data, addressed to the device and of the length of both, or reports a device error and
  leaves the bus alone; a message that would be longer than eight bytes is refused.\<close>

lemma i2c_write_reg_message:
  assumes "dev < eI2C_DEVICE_COUNT" and "length bytes = unat num_bytes"
    and "hal_i2c_write_reg dev reg 1 (Some bytes) num_bytes c s = (st, c', s')"
  shows "if num_bytes < 8
    then (st = eSTATUS_SUCCESSFUL \<and>
        i2c_transfers c' = i2c_transfers c @
          [[\<lparr>msg_addr = ucast (i2c_address (i2c_devices c ! unat dev)),
             msg_flags = i2c_flags (i2c_devices c ! unat dev),
             msg_len = 1 + ucast num_bytes, msg_buf = ucast reg # bytes\<rparr>]]) \<or>
      (st = eSTATUS_DEVICE_ERROR \<and> c' = c)
    else num_bytes = -1 \<or> (st = eSTATUS_NULL_PARAM \<and> c' = c \<and> s' = s)"
proof (cases "num_bytes < 8")
  case True
  then show ?thesis using write_reg_sends [OF assms(1,2) True assms(3)] by simp
next
  case False
  then have "I2C_MAX_MESSAGE_SIZE_BYTES < num_bytes + 1" if "num_bytes \<noteq> -1"
  proof -
    have "unat (-1 :: u64) = 2 ^ 64 - 1"
      by (simp add: unsigned_minus_1_eq_mask mask_eq_exp_minus_1)
    then have "unat num_bytes \<noteq> 2 ^ 64 - 1" using that word_unat_eq_iff by metis
    moreover have "unat num_bytes < 2 ^ 64"
      using unsigned_less [of num_bytes] by (simp add: of_nat_less_iff)
    ultimately have "unat (num_bytes + 1) = unat num_bytes + 1"
      by (simp add: unat_word_ariths)
    moreover have "8 \<le> unat num_bytes" using False by (simp add: word_less_nat_alt)
    ultimately show ?thesis by (simp add: i2c_codes word_less_nat_alt)
  qed
  moreover have "\<not> eI2C_DEVICE_COUNT \<le> dev" using assms(1) by simp
  ultimately show ?thesis
    using assms(3) False by (auto simp: hal_i2c_write_reg_def split: if_splits)
qed

lemma i2c_write_reg_message_witness:
  "\<exists>st c' s'. hal_i2c_write_reg 0 0xFE 1 (Some [121]) 1 (static_i2c (\<lambda>_. 0))
      (boot_os (\<lambda>_. 1) (\<lambda>_. zero_timespec)) = (st, c', s') \<and>
     (st = eSTATUS_SUCCESSFUL \<longrightarrow> map (map msg_buf) (i2c_transfers c') = [[[0xFE, 121]]])"
proof -
  obtain st c' s' where r: "hal_i2c_write_reg 0 0xFE 1 (Some [121]) 1 (static_i2c (\<lambda>_. 0))
      (boot_os (\<lambda>_. 1) (\<lambda>_. zero_timespec)) = (st, c', s')"
    by (metis prod_cases3)
  from i2c_write_reg_message [OF _ _ r] r show ?thesis
    by (auto simp: i2c_codes static_i2c_def)
qed

text \<open>A register with a two byte number is not sent as its two bytes: the shift of the loop counts
  bits where it should count bytes, so the first byte of the message is the number shifted by one
  bit, and differs from its high byte unless the number fits that accident.\<close>

lemma i2c_write_reg_two_bytes:
  "write_reg_bytes reg 2 = [ucast (drop_bit 1 reg), ucast reg] \<and>
   write_reg_bytes 0x1234 2 \<noteq> [0x12, 0x34]"
  by (simp add: write_reg_bytes_2)

end
