(* ===== verification/Servo.thy ===== *)
theory Servo
  imports DdlFrame HalI2c
begin

text \<open>
  The two-axis servo platform, \<^verbatim>\<open>src/src/ddl/servo/\<close>: the PCA9685 PWM controller over I2C, the
  conversion between angles and pulse widths in single precision, the serpentine scan, the target
  registry and the state machine.

  The object carries the static variables of the file. The pauses of \<^verbatim>\<open>sleep_us\<close> only let time pass
  and have no effect on the state. Converting to \<^verbatim>\<open>uint16_t\<close> a float that is not in its range is
  undefined in C: the model sets \<open>os_ub\<close>.
\<close>

section \<open>Configuration\<close>

definition eSERVO_EVENT_SCAN :: u32 where [fsm_codes]: "eSERVO_EVENT_SCAN = eFSM_EVENT_USER"
definition eSERVO_EVENT_NOISE_DETECTED :: u32 where [fsm_codes]: "eSERVO_EVENT_NOISE_DETECTED = 5"
definition eSERVO_EVENT_LOCK :: u32 where [fsm_codes]: "eSERVO_EVENT_LOCK = 6"
definition eSERVO_EVENT_DIRECTIONS :: u32 where [fsm_codes]: "eSERVO_EVENT_DIRECTIONS = 7"
definition eSERVO_EVENT_ROTATION_TIMEOUT :: u32 where
  [fsm_codes]: "eSERVO_EVENT_ROTATION_TIMEOUT = 8"

definition eSERVO_QUEUE_CAPACITY :: u32 where "eSERVO_QUEUE_CAPACITY = 4"
definition eSERVO_PCA_ADDRESS :: u8 where "eSERVO_PCA_ADDRESS = 0x40"
definition eSERVO_HORIZONTAL_CHANNEL :: u8 where "eSERVO_HORIZONTAL_CHANNEL = 0"
definition eSERVO_VERTICAL_CHANNEL :: u8 where "eSERVO_VERTICAL_CHANNEL = 1"
definition eSERVO_I2C_DEVICE :: u32 where "eSERVO_I2C_DEVICE = eI2C0_DEVICE"

definition REG_MODE1 :: u8 where "REG_MODE1 = 0x00"
definition REG_MODE2 :: u8 where "REG_MODE2 = 0x01"
definition REG_LED0_ON_L :: u16 where "REG_LED0_ON_L = 0x06"
definition REG_PRE_SCALE :: u8 where "REG_PRE_SCALE = 0xFE"
definition MODE1_RESTART :: u8 where "MODE1_RESTART = 0x80"
definition MODE1_AI :: u8 where "MODE1_AI = 0x20"
definition MODE1_SLEEP :: u8 where "MODE1_SLEEP = 0x10"
definition MODE1_ALLCALL :: u8 where "MODE1_ALLCALL = 0x01"
definition MODE2_OUTDRV :: u8 where "MODE2_OUTDRV = 0x04"

definition LEDn_BASE :: "u8 \<Rightarrow> u16" where
  "LEDn_BASE channel = REG_LED0_ON_L + 4 * ucast channel"

definition PWM_FREQ_HZ :: cfloat where "PWM_FREQ_HZ = Fin 50"
definition PCA9685_OSC_HZ :: cfloat where "PCA9685_OSC_HZ = Fin 25000000"
definition PCA9685_PWM_STEPS :: cfloat where "PCA9685_PWM_STEPS = Fin 4096"
definition PCA9685_PRESCALE_MIN :: int where "PCA9685_PRESCALE_MIN = 3"
definition PCA9685_PRESCALE_MAX :: int where "PCA9685_PRESCALE_MAX = 255"
definition SERVO_MIN_PULSE_US :: cfloat where "SERVO_MIN_PULSE_US = Fin 500"
definition SERVO_MAX_PULSE_US :: cfloat where "SERVO_MAX_PULSE_US = Fin 2500"
definition SERVO_MIN_ANGLE_DEG :: cfloat where "SERVO_MIN_ANGLE_DEG = Fin 0"
definition SERVO_MAX_ANGLE_DEG :: cfloat where "SERVO_MAX_ANGLE_DEG = Fin 180"
definition SERVO_MAX_ROTATION_DURATION_MS :: u64 where "SERVO_MAX_ROTATION_DURATION_MS = 500"
definition SERVO_STEP_ANGLE :: cfloat where "SERVO_STEP_ANGLE = Fin 5"
definition SERVO_HORIZONTAL_MIN_ANGLE_DEG :: cfloat where "SERVO_HORIZONTAL_MIN_ANGLE_DEG = Fin 5"
definition SERVO_HORIZONTAL_MAX_ANGLE_DEG :: cfloat where "SERVO_HORIZONTAL_MAX_ANGLE_DEG = Fin 175"
definition SERVO_VERTICAL_MIN_ANGLE_DEG :: cfloat where "SERVO_VERTICAL_MIN_ANGLE_DEG = Fin 45"
definition SERVO_VERTICAL_MAX_ANGLE_DEG :: cfloat where "SERVO_VERTICAL_MAX_ANGLE_DEG = Fin 135"
definition SERVO_DECREASE_ANGLE :: bool where "SERVO_DECREASE_ANGLE = False"
definition SERVO_INCREASE_ANGLE :: bool where "SERVO_INCREASE_ANGLE = True"

lemmas servo_constants = PWM_FREQ_HZ_def PCA9685_OSC_HZ_def PCA9685_PWM_STEPS_def
  SERVO_MIN_PULSE_US_def SERVO_MAX_PULSE_US_def SERVO_MIN_ANGLE_DEG_def SERVO_MAX_ANGLE_DEG_def
  SERVO_STEP_ANGLE_def SERVO_HORIZONTAL_MIN_ANGLE_DEG_def SERVO_HORIZONTAL_MAX_ANGLE_DEG_def
  SERVO_VERTICAL_MIN_ANGLE_DEG_def SERVO_VERTICAL_MAX_ANGLE_DEG_def SERVO_DECREASE_ANGLE_def
  SERVO_INCREASE_ANGLE_def

section \<open>The object\<close>

record ServoAngles =
  hor_angle :: cfloat
  ver_angle :: cfloat

record ServoTarget =
  target_angles :: ServoAngles
  target_seq :: u32

record ServoObject =
  s_frame :: ServoFrame
  s_timer :: addr
  s_timer_arg :: timer_arg
  scan_angles :: ServoAngles
  angle_direction :: bool
  servo_target :: ServoTarget
  servo_target_mutex :: addr
  last_seq :: u32
  s_i2c :: i2c
  s_os :: os

datatype ServoState =
    servo_init
  | servo_error
  | servo_idle
  | servo_scan
  | servo_noise_scan
  | servo_target_lock

type_synonym servo_fsm = "(ServoState, ServoObject) FSM"

section \<open>The PWM controller\<close>

definition clampf :: "cfloat \<Rightarrow> cfloat \<Rightarrow> cfloat \<Rightarrow> cfloat" where
  "clampf x lo hi = (if f_less x lo then lo else if f_less hi x then hi else x)"

definition pca9685_write8 :: "u8 \<Rightarrow> u8 \<Rightarrow> i2c \<Rightarrow> os \<Rightarrow> eStatus \<times> i2c \<times> os" where
  "pca9685_write8 reg val c s = hal_i2c_write_reg eSERVO_I2C_DEVICE (ucast reg) 1 (Some [val]) 1 c s"

text \<open>\<open>out_value\<close> is the location the value is written to.\<close>

definition pca9685_read8 :: "u8 \<Rightarrow> u8 option \<Rightarrow> i2c \<Rightarrow> os \<Rightarrow> eStatus \<times> u8 option \<times> i2c \<times> os" where
  "pca9685_read8 reg out_value c s =
    (case out_value of
       None \<Rightarrow> (eSTATUS_NULL_PARAM, None, c, s)
     | Some v \<Rightarrow>
        (case hal_i2c_read_reg eSERVO_I2C_DEVICE (ucast reg) 1 (Some [v]) 1 c s of
           (st, buf, c, s) \<Rightarrow> (st, Some (the buf ! 0), c, s)))"

text \<open>The prescale value for a frequency.\<close>

definition prescale_of :: "cfloat \<Rightarrow> u8" where
  "prescale_of freq_hz =
    (let prescale_float = f_sub fl32 (f_div fl32 PCA9685_OSC_HZ
                            (f_mul fl32 PCA9685_PWM_STEPS freq_hz)) (Fin 1);
         prescale_int = f_trunc (f_add fl32 prescale_float (Fin (1 / 2)));
         prescale_int = (if prescale_int < PCA9685_PRESCALE_MIN then PCA9685_PRESCALE_MIN
                         else prescale_int);
         prescale_int = (if PCA9685_PRESCALE_MAX < prescale_int then PCA9685_PRESCALE_MAX
                         else prescale_int)
     in word_of_int prescale_int)"

definition pca9685_set_pwm_freq :: "cfloat \<Rightarrow> i2c \<Rightarrow> os \<Rightarrow> eStatus \<times> i2c \<times> os" where
  "pca9685_set_pwm_freq freq_hz c s =
    (let prescale = prescale_of freq_hz;
         (status, old, c, s) = pca9685_read8 REG_MODE1 (Some 0) c s
     in if status \<noteq> eSTATUS_SUCCESSFUL then (status, c, s)
        else let mode1_old = the old;
                 mode1_sleep = (mode1_old AND NOT MODE1_RESTART) OR MODE1_SLEEP;
                 (status, c, s) = pca9685_write8 REG_MODE1 mode1_sleep c s
        in if status \<noteq> eSTATUS_SUCCESSFUL then (status, c, s)
           else let (status, c, s) = pca9685_write8 REG_PRE_SCALE prescale c s
           in if status \<noteq> eSTATUS_SUCCESSFUL then (status, c, s)
              else let (status, c, s) = pca9685_write8 REG_MODE1 mode1_old c s
              in if status \<noteq> eSTATUS_SUCCESSFUL then (status, c, s)
                 else pca9685_write8 REG_MODE1 (mode1_old OR MODE1_RESTART OR MODE1_AI) c s)"

definition pca9685_init :: "i2c \<Rightarrow> os \<Rightarrow> eStatus \<times> i2c \<times> os" where
  "pca9685_init c s =
    (let (status, c, s) = hal_i2c_init c s
     in if status \<noteq> eSTATUS_SUCCESSFUL then (status, c, s)
        else let (status, c) = hal_i2c_set_address eSERVO_I2C_DEVICE eSERVO_PCA_ADDRESS c
        in if status \<noteq> eSTATUS_SUCCESSFUL then (status, c, s)
           else let (status, c, s) = pca9685_write8 REG_MODE2 MODE2_OUTDRV c s
           in if status \<noteq> eSTATUS_SUCCESSFUL then (status, c, s)
              else let (status, c, s) = pca9685_write8 REG_MODE1 MODE1_ALLCALL c s
              in if status \<noteq> eSTATUS_SUCCESSFUL then (status, c, s)
                 else pca9685_set_pwm_freq PWM_FREQ_HZ c s)"

text \<open>The four registers of a channel.\<close>

definition pwm_data :: "u16 \<Rightarrow> u16 \<Rightarrow> u8 list" where
  "pwm_data on off = [ucast (on AND 0xFF), ucast (drop_bit 8 on AND 0x0F),
     ucast (off AND 0xFF), ucast (drop_bit 8 off AND 0x0F)]"

definition pca9685_set_pwm :: "u8 \<Rightarrow> u16 \<Rightarrow> u16 \<Rightarrow> i2c \<Rightarrow> os \<Rightarrow> eStatus \<times> i2c \<times> os" where
  "pca9685_set_pwm channel on off c s =
    (if 15 < channel then (eSTATUS_INVALID_VALUE, c, s)
     else hal_i2c_write_reg eSERVO_I2C_DEVICE (LEDn_BASE channel) 1 (Some (pwm_data on off)) 4 c s)"

definition pwm_counts :: "u8 list \<Rightarrow> u16 \<times> u16" where
  "pwm_counts d = (ucast (d ! 0) OR push_bit 8 (ucast (d ! 1) AND 0x0F),
     ucast (d ! 2) OR push_bit 8 (ucast (d ! 3) AND 0x0F))"

text \<open>The outputs are locations, \<open>None\<close> for a null pointer.\<close>

definition pca9685_get_pwm ::
    "u8 \<Rightarrow> u16 option \<Rightarrow> u16 option \<Rightarrow> i2c \<Rightarrow> os
      \<Rightarrow> eStatus \<times> u16 option \<times> u16 option \<times> i2c \<times> os" where
  "pca9685_get_pwm channel out_on out_off c s =
    (if 15 < channel then (eSTATUS_INVALID_VALUE, out_on, out_off, c, s)
     else let (status, buf, c, s) = hal_i2c_read_reg eSERVO_I2C_DEVICE (LEDn_BASE channel) 1
                                      (Some [0, 0, 0, 0]) 4 c s
     in if status \<noteq> eSTATUS_SUCCESSFUL then (status, out_on, out_off, c, s)
        else let (on, off) = pwm_counts (the buf)
             in (eSTATUS_SUCCESSFUL, map_option (\<lambda>_. on) out_on, map_option (\<lambda>_. off) out_off, c, s))"

section \<open>Angles\<close>

definition counts_per_us :: cfloat where
  "counts_per_us = (let period_us = f_div fl32 (Fin 1000000) PWM_FREQ_HZ
     in f_div fl32 PCA9685_PWM_STEPS period_us)"

text \<open>\<open>None\<close> when the conversion to \<^verbatim>\<open>uint16_t\<close> is undefined.\<close>

definition pulse_us_to_counts :: "cfloat \<Rightarrow> u16 option" where
  "pulse_us_to_counts pulse_us =
    (let counts = f_mul fl32 pulse_us counts_per_us;
         counts = (if f_less counts (Fin 0) then Fin 0 else counts);
         counts = (if f_less (Fin 4095) counts then Fin 4095 else counts)
     in case f_add fl32 counts (Fin (1 / 2)) of
          Fin x \<Rightarrow> Some (word_of_int (f_trunc (Fin x)))
        | _ \<Rightarrow> None)"

definition counts_to_pulse_us :: "u16 \<Rightarrow> cfloat" where
  "counts_to_pulse_us counts = f_div fl32 (Fin (of_nat (unat counts))) counts_per_us"

definition angle_to_pulse_us :: "cfloat \<Rightarrow> cfloat" where
  "angle_to_pulse_us angle_deg =
    f_add fl32 SERVO_MIN_PULSE_US
      (f_mul fl32 (f_div fl32 angle_deg (f_sub fl32 SERVO_MAX_ANGLE_DEG SERVO_MIN_ANGLE_DEG))
        (f_sub fl32 SERVO_MAX_PULSE_US SERVO_MIN_PULSE_US))"

definition servo_set_angle :: "u8 \<Rightarrow> cfloat \<Rightarrow> i2c \<Rightarrow> os \<Rightarrow> eStatus \<times> i2c \<times> os" where
  "servo_set_angle channel angle_deg c s =
    (let angle_deg = clampf angle_deg SERVO_MIN_ANGLE_DEG SERVO_MAX_ANGLE_DEG;
         pulse_us = angle_to_pulse_us angle_deg
     in case pulse_us_to_counts pulse_us of
          None \<Rightarrow> (eSTATUS_SUCCESSFUL, c, s\<lparr>os_ub := True\<rparr>)
        | Some counts \<Rightarrow> pca9685_set_pwm channel 0 counts c s)"

definition servo_get_angle :: "u8 \<Rightarrow> cfloat option \<Rightarrow> i2c \<Rightarrow> os \<Rightarrow> eStatus \<times> cfloat option \<times> i2c \<times> os" where
  "servo_get_angle channel out_angle_deg c s =
    (if out_angle_deg = None then (eSTATUS_NULL_PARAM, None, c, s)
     else let (status, _, off_counts, c, s) = pca9685_get_pwm channel None (Some 0) c s
     in if status \<noteq> eSTATUS_SUCCESSFUL then (status, out_angle_deg, c, s)
        else let pulse_us = counts_to_pulse_us (the off_counts);
                 angle = f_mul fl32 (f_div fl32 (f_sub fl32 pulse_us SERVO_MIN_PULSE_US)
                           (f_sub fl32 SERVO_MAX_PULSE_US SERVO_MIN_PULSE_US))
                           (f_sub fl32 SERVO_MAX_ANGLE_DEG SERVO_MIN_ANGLE_DEG)
             in (eSTATUS_SUCCESSFUL, Some (clampf angle SERVO_MIN_ANGLE_DEG SERVO_MAX_ANGLE_DEG), c, s))"

definition servo_set_both_angles ::
    "ServoAngles \<Rightarrow> ServoObject \<Rightarrow> eStatus \<times> ServoObject" where
  "servo_set_both_angles angles aobj =
    (let (status, c, s) = servo_set_angle eSERVO_HORIZONTAL_CHANNEL (hor_angle angles)
                            (s_i2c aobj) (s_os aobj);
         aobj = aobj\<lparr>s_i2c := c, s_os := s\<rparr>
     in if failed status then (status, aobj)
        else let (status, c, s) = servo_set_angle eSERVO_VERTICAL_CHANNEL (ver_angle angles) c s;
                 aobj = aobj\<lparr>s_i2c := c, s_os := s\<rparr>
             in if status = eSTATUS_SUCCESSFUL
                then (status, aobj\<lparr>s_frame := \<lparr>sf_hor_angle = hor_angle angles,
                        sf_ver_angle = ver_angle angles\<rparr>\<rparr>)
                else (status, aobj))"

text \<open>One step of the serpentine scan.\<close>

definition servo_scan_operation :: "ServoAngles \<times> bool \<Rightarrow> ServoAngles \<times> bool" where
  "servo_scan_operation x =
    (let (a, dir) = x
     in if dir = SERVO_INCREASE_ANGLE \<and> f_less (hor_angle a) SERVO_HORIZONTAL_MAX_ANGLE_DEG
        then (a\<lparr>hor_angle := f_add fl32 (hor_angle a) SERVO_STEP_ANGLE\<rparr>, dir)
        else if dir = SERVO_DECREASE_ANGLE \<and> f_less SERVO_HORIZONTAL_MIN_ANGLE_DEG (hor_angle a)
        then (a\<lparr>hor_angle := f_sub fl32 (hor_angle a) SERVO_STEP_ANGLE\<rparr>, dir)
        else if f_less (ver_angle a) SERVO_VERTICAL_MAX_ANGLE_DEG
        then (a\<lparr>ver_angle := f_add fl32 (ver_angle a) SERVO_STEP_ANGLE\<rparr>, \<not> dir)
        else (\<lparr>hor_angle = SERVO_HORIZONTAL_MIN_ANGLE_DEG, ver_angle = SERVO_VERTICAL_MIN_ANGLE_DEG\<rparr>,
              SERVO_INCREASE_ANGLE))"

definition servo_init_angles :: "ServoObject \<Rightarrow> eStatus \<times> ServoObject" where
  "servo_init_angles aobj =
    (let start = \<lparr>hor_angle = Fin 0, ver_angle = Fin 90\<rparr>;
         aobj = aobj\<lparr>servo_target := \<lparr>target_angles = start, target_seq = 0\<rparr>, scan_angles := start,
                     angle_direction := SERVO_INCREASE_ANGLE\<rparr>;
         (status, c, s) = servo_set_angle eSERVO_HORIZONTAL_CHANNEL (hor_angle (scan_angles aobj))
                            (s_i2c aobj) (s_os aobj);
         aobj = aobj\<lparr>s_i2c := c, s_os := s\<rparr>
     in if failed status then (status, aobj)
        else let (status, c, s) = servo_set_angle eSERVO_VERTICAL_CHANNEL (ver_angle (scan_angles aobj)) c s
             in (status, aobj\<lparr>s_i2c := c, s_os := s\<rparr>))"

definition servo_copy_target :: "ServoObject \<Rightarrow> ServoTarget \<times> ServoObject" where
  "servo_copy_target aobj =
    (let s = osal_mutex_lock (servo_target_mutex aobj) (s_os aobj);
         out = servo_target aobj;
         s = osal_mutex_unlock (servo_target_mutex aobj) s
     in (out, aobj\<lparr>s_os := s\<rparr>))"

definition servo_fsm_destroy :: "ServoObject \<Rightarrow> ServoObject" where
  "servo_fsm_destroy aobj =
    (if servo_target_mutex aobj \<noteq> 0
     then aobj\<lparr>s_os := osal_mutex_destroy (servo_target_mutex aobj) (s_os aobj), servo_target_mutex := 0\<rparr>
     else aobj)"

definition servo_fsm_set_target :: "cfloat \<Rightarrow> cfloat \<Rightarrow> ServoObject \<Rightarrow> eStatus \<times> ServoObject" where
  "servo_fsm_set_target hor ver aobj =
    (if f_less hor SERVO_HORIZONTAL_MIN_ANGLE_DEG \<or> f_less SERVO_HORIZONTAL_MAX_ANGLE_DEG hor
     then (eSTATUS_INVALID_VALUE, aobj)
     else if f_less ver SERVO_VERTICAL_MIN_ANGLE_DEG \<or> f_less SERVO_VERTICAL_MAX_ANGLE_DEG ver
     then (eSTATUS_INVALID_VALUE, aobj)
     else if servo_target_mutex aobj = 0 then (eSTATUS_ACTION_FAILED, aobj)
     else let s = osal_mutex_lock (servo_target_mutex aobj) (s_os aobj);
              t = \<lparr>target_angles = \<lparr>hor_angle = hor, ver_angle = ver\<rparr>,
                   target_seq = target_seq (servo_target aobj) + 1\<rparr>;
              s = osal_mutex_unlock (servo_target_mutex aobj) s
          in (eSTATUS_SUCCESSFUL, aobj\<lparr>servo_target := t, s_os := s\<rparr>))"

section \<open>State functions\<close>

text \<open>The chain of initialisations in the INIT condition stops at the first failure.\<close>

definition servo_init_devices :: "ServoObject \<Rightarrow> bool \<times> ServoObject" where
  "servo_init_devices aobj =
    (let (st, c, s) = pca9685_init (s_i2c aobj) (s_os aobj);
         aobj = aobj\<lparr>s_i2c := c, s_os := s\<rparr>
     in if failed st then (True, aobj)
        else let (st, m, s) = osal_mutex_init (Some (servo_target_mutex aobj)) s;
                 aobj = aobj\<lparr>servo_target_mutex := the m, s_os := s\<rparr>
        in if failed st then (True, aobj)
           else let (st, t, s) = osal_timer_init (Some (s_timer aobj)) (Some (s_timer_arg aobj)) s
                in (failed st, aobj\<lparr>s_timer := the t, s_os := s\<rparr>))"

definition servo_init_state :: "(ServoState, ServoObject) StateFP" where
  "servo_init_state T ev f =
    (let aobj = fsm_arg f
     in if etype ev = eFSM_EVENT_INIT
        then let aobj = aobj\<lparr>s_timer_arg :=
                   \<lparr>handler = Some Servo_timeout_handler, handler_arg = eAO_SERVO\<rparr>\<rparr>;
                 (bad, aobj) = servo_init_devices aobj
             in if bad then T servo_error (f\<lparr>fsm_arg := aobj\<rparr>)
                else T servo_idle (f\<lparr>fsm_arg := aobj\<rparr>)
        else Some f)"

definition servo_error_state :: "(ServoState, ServoObject) StateFP" where
  "servo_error_state T ev f = Some f"

definition servo_idle_entry :: "ServoObject \<Rightarrow> ServoObject" where
  "servo_idle_entry aobj =
    (let (st, aobj) = servo_init_angles aobj
     in if failed st then aobj
        else aobj\<lparr>s_frame := \<lparr>sf_hor_angle = hor_angle (scan_angles aobj),
                sf_ver_angle = ver_angle (scan_angles aobj)\<rparr>\<rparr>)"

definition servo_idle_state :: "(ServoState, ServoObject) StateFP" where
  "servo_idle_state T ev f =
    (if etype ev = eFSM_EVENT_ENTRY then Some (f\<lparr>fsm_arg := servo_idle_entry (fsm_arg f)\<rparr>)
     else if etype ev = eSERVO_EVENT_DIRECTIONS then T servo_scan f
     else Some f)"

definition servo_scan_directions :: "ServoObject \<Rightarrow> ServoObject" where
  "servo_scan_directions aobj =
    (let (angles, dir) = servo_scan_operation (scan_angles aobj, angle_direction aobj);
         aobj = aobj\<lparr>scan_angles := angles, angle_direction := dir\<rparr>;
         (st, aobj) = servo_set_both_angles (scan_angles aobj) aobj
     in if failed st
        then let (_, h, c, s) = servo_get_angle eSERVO_HORIZONTAL_CHANNEL
                                  (Some (hor_angle (scan_angles aobj))) (s_i2c aobj) (s_os aobj);
                 aobj = aobj\<lparr>scan_angles := (scan_angles aobj)\<lparr>hor_angle := the h\<rparr>\<rparr>;
                 (_, v, c, s) = servo_get_angle eSERVO_VERTICAL_CHANNEL
                                  (Some (ver_angle (scan_angles aobj))) c s
             in aobj\<lparr>scan_angles := (scan_angles aobj)\<lparr>ver_angle := the v\<rparr>, s_i2c := c, s_os := s\<rparr>
        else aobj)"

definition servo_scan_state :: "(ServoState, ServoObject) StateFP" where
  "servo_scan_state T ev f =
    (let aobj = fsm_arg f
     in if etype ev = eFSM_EVENT_ENTRY
        then Some (f\<lparr>fsm_arg := snd (servo_set_both_angles (scan_angles aobj) aobj)\<rparr>)
        else if etype ev = eSERVO_EVENT_DIRECTIONS
        then Some (f\<lparr>fsm_arg := servo_scan_directions aobj\<rparr>)
        else if etype ev = eSERVO_EVENT_NOISE_DETECTED then T servo_noise_scan f
        else if etype ev = eSERVO_EVENT_LOCK then T servo_target_lock f
        else Some f)"

definition servo_noise_entry :: "ServoObject \<Rightarrow> ServoObject" where
  "servo_noise_entry aobj =
    (let (target_copy, aobj) = servo_copy_target aobj;
         aobj = aobj\<lparr>scan_angles := target_angles target_copy\<rparr>;
         (_, aobj) = servo_set_both_angles (target_angles target_copy) aobj;
         (_, s) = osal_timer_arm (s_timer aobj) SERVO_MAX_ROTATION_DURATION_MS eTIMER_TYPE_ONCE (s_os aobj)
     in aobj\<lparr>s_os := s\<rparr>)"

definition servo_noise_scan_state :: "(ServoState, ServoObject) StateFP" where
  "servo_noise_scan_state T ev f =
    (let aobj = fsm_arg f
     in if etype ev = eFSM_EVENT_ENTRY then Some (f\<lparr>fsm_arg := servo_noise_entry aobj\<rparr>)
        else if etype ev = eSERVO_EVENT_DIRECTIONS then Some f
        else if etype ev = eSERVO_EVENT_ROTATION_TIMEOUT then T servo_scan f
        else if etype ev = eSERVO_EVENT_NOISE_DETECTED then Some f
        else if etype ev = eFSM_EVENT_EXIT
        then (let (_, s) = osal_timer_disarm (s_timer aobj) (s_os aobj)
              in Some (f\<lparr>fsm_arg := aobj\<lparr>s_os := s\<rparr>\<rparr>))
        else Some f)"

text \<open>Following the target: \<open>always\<close> on entry, otherwise only when its sequence number changed.\<close>

definition servo_follow_target :: "bool \<Rightarrow> ServoObject \<Rightarrow> ServoObject" where
  "servo_follow_target always aobj =
    (let (target_copy, aobj) = servo_copy_target aobj
     in if \<not> always \<and> last_seq aobj = target_seq target_copy then aobj
        else snd (servo_set_both_angles (target_angles target_copy)
               (aobj\<lparr>last_seq := target_seq target_copy\<rparr>)))"

definition servo_target_lock_state :: "(ServoState, ServoObject) StateFP" where
  "servo_target_lock_state T ev f =
    (let aobj = fsm_arg f
     in if etype ev = eFSM_EVENT_ENTRY then Some (f\<lparr>fsm_arg := servo_follow_target True aobj\<rparr>)
        else if etype ev = eSERVO_EVENT_DIRECTIONS
        then Some (f\<lparr>fsm_arg := servo_follow_target False aobj\<rparr>)
        else if etype ev = eSERVO_EVENT_SCAN then T servo_scan f
        else Some f)"

fun servo_states :: "ServoState \<Rightarrow> (ServoState, ServoObject) StateFP" where
  "servo_states servo_init = servo_init_state"
| "servo_states servo_error = servo_error_state"
| "servo_states servo_idle = servo_idle_state"
| "servo_states servo_scan = servo_scan_state"
| "servo_states servo_noise_scan = servo_noise_scan_state"
| "servo_states servo_target_lock = servo_target_lock_state"

lemmas servo_state_defs = servo_init_state_def servo_error_state_def servo_idle_state_def
  servo_scan_state_def servo_noise_scan_state_def servo_target_lock_state_def

section \<open>The module\<close>

type_synonym servo_ao = "(ServoState, ServoObject) ActiveObject"

definition servo_timeout_handler :: "servo_ao \<Rightarrow> os \<Rightarrow> eStatus \<times> servo_ao option \<times> os" where
  "servo_timeout_handler a s =
    util_active_object_post (Some a) (Some \<lparr>etype = eSERVO_EVENT_ROTATION_TIMEOUT\<rparr>) s"

definition ddl_servo_init :: "ServoFrame option \<Rightarrow> servo_ao \<Rightarrow> os \<Rightarrow> eStatus \<times> servo_ao \<times> os" where
  "ddl_servo_init frame a s =
    (case frame of
       None \<Rightarrow> (eSTATUS_NULL_PARAM, a, s)
     | Some fr \<Rightarrow>
        (let a = a\<lparr>active_fsm := (active_fsm a)\<lparr>fsm_arg := (fsm_arg (active_fsm a))\<lparr>s_frame := fr\<rparr>\<rparr>\<rparr>;
             (st, r, s) = util_active_object_init (Some a) eSERVO_QUEUE_CAPACITY (Some servo_init) s
         in (st, the r, s)))"

definition ddl_servo_post :: "Event option \<Rightarrow> servo_ao \<Rightarrow> os \<Rightarrow> eStatus \<times> servo_ao option \<times> os" where
  "ddl_servo_post event a s = util_active_object_post (Some a) event s"

definition ddl_servo_end :: "servo_ao \<Rightarrow> os \<Rightarrow> eStatus \<times> servo_ao option \<times> os" where
  "ddl_servo_end a s = util_active_object_end (Some a) s"

definition ddl_servo_join :: "servo_ao \<Rightarrow> os \<Rightarrow> os" where
  "ddl_servo_join a s = util_active_object_join a s"

definition ddl_servo_delete :: "servo_ao \<Rightarrow> os \<Rightarrow> servo_ao \<times> os" where
  "ddl_servo_delete a s =
    (let s = util_active_object_delete a s;
         aobj = fsm_arg (active_fsm a);
         aobj = aobj\<lparr>s_os := osal_timer_destroy (s_timer aobj) (s_os aobj)\<rparr>
     in (a\<lparr>active_fsm := (active_fsm a)\<lparr>fsm_arg := servo_fsm_destroy aobj\<rparr>\<rparr>, s))"

definition ddl_servo_set_target :: "cfloat \<Rightarrow> cfloat \<Rightarrow> ServoObject \<Rightarrow> eStatus \<times> ServoObject" where
  "ddl_servo_set_target hor ver aobj = servo_fsm_set_target hor ver aobj"

section \<open>Facts about the controller\<close>

text \<open>At 50 Hz the prescale value is 121 (the data sheet's \<open>round (25 MHz / (4096 * 50 Hz)) - 1\<close>).\<close>

lemma powi_small: "2 powi (- 126) \<le> (b :: rat)" if "1 / 2 ^ 20 \<le> b"
proof -
  have "(2 :: rat) powi (- 126) \<le> 2 powi (- 20)" by (rule two_powi_le) simp
  also have "(2 :: rat) powi (- 20) = 1 / 2 ^ 20" by (simp add: power_int_def power_one_over)
  finally show ?thesis using that by simp
qed

text \<open>One rounding of a number of bounded magnitude.\<close>

lemma fl32_bound:
  assumes "\<bar>x\<bar> \<le> of_int r" and "0 < r" and "r < 2 ^ 24"
  shows "fl32 x = Fin (rnd32 x)" "\<bar>rnd32 x - x\<bar> \<le> of_int r / 2 ^ 24"
proof -
  show "fl32 x = Fin (rnd32 x)" using fl32_Fin [OF assms(1,3)] by simp
  have "(1 :: rat) \<le> of_int r" using assms(2) by simp
  then have "1 / 2 ^ 20 \<le> (of_int r :: rat)" by (simp add: field_simps)
  then show "\<bar>rnd32 x - x\<bar> \<le> of_int r / 2 ^ 24"
    using rnd32_abs_error [OF assms(1)] powi_small by blast
qed

lemma fl32_obtain:
  assumes "\<bar>x\<bar> \<le> 1000"
  obtains y where "fl32 x = Fin y" and "y - x \<le> 1 / 16000" and "x - y \<le> 1 / 16000"
proof -
  have "\<bar>x\<bar> \<le> of_int 1000" using assms by simp
  from fl32_bound [OF this] have r: "fl32 x = Fin (rnd32 x)" "\<bar>rnd32 x - x\<bar> \<le> 1000 / 2 ^ 24"
    by simp_all
  have "(1000 :: rat) / 2 ^ 24 \<le> 1 / 16000" by simp
  then have "rnd32 x - x \<le> 1 / 16000" "x - rnd32 x \<le> 1 / 16000" using r(2) by linarith+
  with r(1) that show ?thesis by blast
qed

lemma prescale_50Hz: "prescale_of PWM_FREQ_HZ = 121"
proof -
  have m: "fl32 204800 = Fin 204800" using fl32_int [of 204800] by simp
  have q: "25000000 / 204800 = (15625 / 128 :: rat)" by simp
  obtain a where a: "fl32 (15625 / 128) = Fin a" "a - 15625 / 128 \<le> 1 / 16000" "15625 / 128 - a \<le> 1 / 16000"
    by (rule fl32_obtain [of "15625 / 128"]) simp_all
  have "\<bar>a - 1\<bar> \<le> 1000" using a(2,3) by linarith
  then obtain b where b: "fl32 (a - 1) = Fin b" "b - (a - 1) \<le> 1 / 16000" "(a - 1) - b \<le> 1 / 16000"
    by (rule fl32_obtain)
  have "\<bar>b + 1 / 2\<bar> \<le> 1000" using a(2,3) b(2,3) by linarith
  then obtain c where c: "fl32 (b + 1 / 2) = Fin c" "c - (b + 1 / 2) \<le> 1 / 16000" "(b + 1 / 2) - c \<le> 1 / 16000"
    by (rule fl32_obtain)
  have "121 \<le> c" "c < 122" using a(2,3) b(2,3) c(2,3) by linarith+
  then have "\<lfloor>c\<rfloor> = 121" "0 \<le> c" by (simp_all add: floor_eq_iff)
  then show ?thesis
    by (simp add: prescale_of_def servo_constants f_sub_def m a(1) b(1) c(1) q PCA9685_PRESCALE_MIN_def
        PCA9685_PRESCALE_MAX_def)
qed

lemma counts_per_us_value:
  obtains k where "counts_per_us = Fin k" and "\<bar>k - 256 / 1250\<bar> \<le> 1 / 2 ^ 24"
proof -
  have "fl32 20000 = Fin 20000" using fl32_int [of 20000] by simp
  moreover obtain k where "fl32 (4096 / 20000) = Fin k" "\<bar>k - 4096 / 20000\<bar> \<le> 1 / 2 ^ 24"
    using fl32_bound [of "4096 / 20000" 1] by auto
  ultimately show ?thesis using that [of k] by (simp add: counts_per_us_def servo_constants Let_def)
qed

text \<open>The registers of a channel hold twelve-bit counts.\<close>

lemma high_bits_clear: "w < 4096 \<Longrightarrow> 12 \<le> n \<Longrightarrow> \<not> bit w n" for w :: u16
proof -
  assume w: "w < 4096" and n: "12 \<le> n"
  have "unat w < 2 ^ 12" using w by (simp add: word_less_nat_alt)
  also have "(2 :: nat) ^ 12 \<le> 2 ^ n" using n by (intro power_increasing) auto
  finally have "unat w div 2 ^ n = 0" by simp
  then have "\<not> bit (unat w) n" by (simp add: bit_iff_odd)
  then show "\<not> bit w n" by (simp add: bit_unsigned_iff)
qed

lemma pwm_round_trip:
  assumes "on < 4096" and "off < 4096"
  shows "pwm_counts (pwm_data on off) = (on, off)"
proof -
  have m: "w AND 0xFF = take_bit 8 w" "w AND 0x0F = take_bit 4 w" "v AND 0x0F = take_bit 4 v"
    for w :: u16 and v :: u8
    by (simp_all add: take_bit_eq_mask mask_numeral)
  have t: "n - 8 < 4 \<longleftrightarrow> n < 12" "8 + (n - 8) = n" if "\<not> n < 8" for n :: nat
    using that by auto
  have "(ucast (ucast (take_bit 8 w :: u16) :: u8) OR push_bit 8 (take_bit 4
      (ucast (ucast (take_bit 4 (drop_bit 8 w)) :: u8))) :: u16) = w" if w: "w < 4096" for w :: u16
  proof (rule bit_word_eqI)
    fix n assume "n < LENGTH(16)"
    then show "bit (ucast (ucast (take_bit 8 w :: u16) :: u8) OR push_bit 8 (take_bit 4
      (ucast (ucast (take_bit 4 (drop_bit 8 w)) :: u8))) :: u16) n = bit w n"
      using high_bits_clear [OF w, of n] t [of n] by (cases "n < 8"; cases "n < 12") (auto simp: bit_simps)
  qed
  from this [OF assms(1)] this [OF assms(2)] show ?thesis
    by (simp add: pwm_counts_def pwm_data_def m del: push_bit_and take_bit_and)
qed

section \<open>Counts of an angle\<close>

text \<open>The nominal number of counts of an angle: 500 to 2500 microseconds at 0.2048 counts each.\<close>

definition nominal_counts :: "rat \<Rightarrow> rat" where
  "nominal_counts a = (500 + a * 2000 / 180) * (256 / 1250)"

lemma fl32_obtain_wide:
  assumes "0 \<le> x" and "x \<le> 4000"
  obtains y where "fl32 x = Fin y" and "y - x \<le> 1 / 4000" and "x - y \<le> 1 / 4000"
proof -
  have "\<bar>x\<bar> \<le> of_int 4000" using assms by simp
  from fl32_bound [OF this] have r: "fl32 x = Fin (rnd32 x)" "\<bar>rnd32 x - x\<bar> \<le> 4000 / 2 ^ 24"
    by simp_all
  have "(4000 :: rat) / 2 ^ 24 \<le> 1 / 4000" by simp
  then have "rnd32 x - x \<le> 1 / 4000" "x - rnd32 x \<le> 1 / 4000" using r(2) by linarith+
  with r(1) that show ?thesis by blast
qed

lemma fl32_unit:
  assumes "0 \<le> x" and "x \<le> 1"
  obtains y where "fl32 x = Fin y" and "y - x \<le> 1 / 16000000" and "x - y \<le> 1 / 16000000"
    and "0 \<le> y" and "y \<le> 1"
proof -
  have "\<bar>x\<bar> \<le> of_int 1" using assms by simp
  from fl32_bound [OF this] have r: "fl32 x = Fin (rnd32 x)" "\<bar>rnd32 x - x\<bar> \<le> 1 / 2 ^ 24"
    by simp_all
  have "(1 :: rat) / 2 ^ 24 \<le> 1 / 16000000" by simp
  then have "rnd32 x - x \<le> 1 / 16000000" "x - rnd32 x \<le> 1 / 16000000" using r(2) by linarith+
  moreover have "0 \<le> rnd32 x" "rnd32 x \<le> 1"
    using rnd32_ge [of 0 x] rnd32_le [of x 1] assms by simp_all
  ultimately show ?thesis using r(1) that by blast
qed

lemma angle_pulse:
  assumes "0 \<le> a" and "a \<le> 180"
  obtains p where "angle_to_pulse_us (Fin a) = Fin p" and "500 \<le> p" and "p \<le> 2500"
    and "p - (500 + a * 2000 / 180) \<le> 1 / 1000" and "(500 + a * 2000 / 180) - p \<le> 1 / 1000"
proof -
  have c: "fl32 180 = Fin 180" "fl32 2000 = Fin 2000"
    using fl32_int [of 180] fl32_int [of 2000] by simp_all
  have "0 \<le> a / 180" "a / 180 \<le> 1" using assms by simp_all
  then obtain d where d: "fl32 (a / 180) = Fin d" "d - a / 180 \<le> 1 / 16000000"
    "a / 180 - d \<le> 1 / 16000000" "0 \<le> d" "d \<le> 1"
    by (rule fl32_unit)
  have m0: "0 \<le> d * 2000" "d * 2000 \<le> of_int 2000" "d * 2000 \<le> 4000" using d(4,5) by simp_all
  obtain m where m: "fl32 (d * 2000) = Fin m" "m - d * 2000 \<le> 1 / 4000" "d * 2000 - m \<le> 1 / 4000"
    by (rule fl32_obtain_wide [OF m0(1,3)])
  have m1: "0 \<le> m" "m \<le> 2000"
    using rnd32_ge [of 0 "d * 2000"] rnd32_le [of "d * 2000" 2000] m0 m(1)
      fl32_Fin [of "d * 2000" 2000] by auto
  have p0: "of_int 500 \<le> 500 + m" "500 + m \<le> of_int 2500" "0 \<le> 500 + m" "500 + m \<le> 4000"
    using m1 by simp_all
  obtain p where p: "fl32 (500 + m) = Fin p" "p - (500 + m) \<le> 1 / 4000" "(500 + m) - p \<le> 1 / 4000"
    by (rule fl32_obtain_wide [OF p0(3,4)])
  have p1: "500 \<le> p" "p \<le> 2500"
    using rnd32_ge [of 500 "500 + m"] rnd32_le [of "500 + m" 2500] p0 p(1)
      fl32_Fin [of "500 + m" 2500] by auto
  have e: "a * 2000 / 180 = 2000 * (a / 180)" by simp
  have "p - (500 + a * 2000 / 180) \<le> 1 / 1000" "(500 + a * 2000 / 180) - p \<le> 1 / 1000"
    unfolding e using d(2,3) m(2,3) p(2,3) by linarith+
  moreover have "angle_to_pulse_us (Fin a) = Fin p"
    by (simp add: angle_to_pulse_us_def servo_constants f_sub_def c d(1) m(1) p(1))
  ultimately show ?thesis using that p1 by blast
qed

lemma pulse_counts:
  assumes "500 \<le> p" and "p \<le> 2500"
  obtains n where "pulse_us_to_counts (Fin p) = Some (of_nat n)" and "102 \<le> n" and "n \<le> 512"
    and "of_nat n - p * (256 / 1250) \<le> 51 / 100" and "p * (256 / 1250) - of_nat n \<le> 51 / 100"
proof -
  obtain k where k: "counts_per_us = Fin k" "\<bar>k - 256 / 1250\<bar> \<le> 1 / 2 ^ 24"
    by (rule counts_per_us_value)
  have "\<bar>p * (k - 256 / 1250)\<bar> \<le> 2500 * (1 / 2 ^ 24)"
    unfolding abs_mult using k(2) assms by (intro mult_mono) auto
  also have "(2500 :: rat) * (1 / 2 ^ 24) \<le> 1 / 4000" by simp
  finally have pk: "p * k - p * (256 / 1250) \<le> 1 / 4000" "p * (256 / 1250) - p * k \<le> 1 / 4000"
    unfolding right_diff_distrib by linarith+
  have r: "0 \<le> p * k" "p * k \<le> 4000" using pk assms by linarith+
  then obtain c where c: "fl32 (p * k) = Fin c" "c - p * k \<le> 1 / 4000" "p * k - c \<le> 1 / 4000"
    by (rule fl32_obtain_wide)
  have c1: "0 \<le> c" "c \<le> 513" using c pk assms by linarith+
  have h: "0 \<le> c + 1 / 2" "c + 1 / 2 \<le> 4000" using c1 by simp_all
  then obtain x where x: "fl32 (c + 1 / 2) = Fin x" "x - (c + 1 / 2) \<le> 1 / 4000" "(c + 1 / 2) - x \<le> 1 / 4000"
    by (rule fl32_obtain_wide)
  have x1: "102 \<le> x" "x < 513" using x(2,3) c(2,3) pk assms by linarith+
  define n where "n = nat \<lfloor>x\<rfloor>"
  have n: "int n = \<lfloor>x\<rfloor>" using x1 by (simp add: n_def)
  have fx: "of_nat n \<le> x" "x < of_nat n + 1"
    using floor_correct [of x] by (simp_all add: n [symmetric])
  have "102 \<le> int n" "int n \<le> 512" using x1 unfolding n by (simp_all add: le_floor_iff floor_le_iff)
  moreover have "pulse_us_to_counts (Fin p) = Some (word_of_int (int n))"
    using c1 x1 n by (simp add: pulse_us_to_counts_def k(1) c(1) x(1))
  moreover have "of_nat n - p * (256 / 1250) \<le> 51 / 100" "p * (256 / 1250) - of_nat n \<le> 51 / 100"
    using fx x(2,3) c(2,3) pk by linarith+
  ultimately show ?thesis using that [of n] by simp
qed

lemma clampf_angle:
  assumes "angle \<noteq> NaN"
  obtains a where "clampf angle SERVO_MIN_ANGLE_DEG SERVO_MAX_ANGLE_DEG = Fin a" "0 \<le> a" "a \<le> 180"
    and "\<And>x. angle = Fin x \<Longrightarrow> a = max 0 (min 180 x)"
  using assms by (cases angle) (auto simp: clampf_def servo_constants split: if_splits)

text \<open>Setting an angle writes one message: the channel's registers, with counts within 0.52 of the
  nominal ones.\<close>

lemma servo_set_angle_counts:
  assumes "angle \<noteq> NaN" and "channel \<le> 15"
  obtains a n where "0 \<le> a" "a \<le> 180" "\<And>x. angle = Fin x \<Longrightarrow> a = max 0 (min 180 x)"
    and "102 \<le> n" and "n \<le> 512" and "\<bar>of_nat n - nominal_counts a\<bar> \<le> 52 / 100"
    and "\<And>c s. servo_set_angle channel angle c s
      = hal_i2c_write_reg eSERVO_I2C_DEVICE (LEDn_BASE channel) 1 (Some (pwm_data 0 (of_nat n))) 4 c s"
proof -
  obtain a where a: "clampf angle SERVO_MIN_ANGLE_DEG SERVO_MAX_ANGLE_DEG = Fin a" "0 \<le> a" "a \<le> 180"
    "\<And>x. angle = Fin x \<Longrightarrow> a = max 0 (min 180 x)"
    by (rule clampf_angle [OF assms(1)]) blast
  obtain p where p: "angle_to_pulse_us (Fin a) = Fin p" "500 \<le> p" "p \<le> 2500"
    "p - (500 + a * 2000 / 180) \<le> 1 / 1000" "(500 + a * 2000 / 180) - p \<le> 1 / 1000"
    by (rule angle_pulse [OF a(2,3)])
  obtain n where n: "pulse_us_to_counts (Fin p) = Some (of_nat n)" "102 \<le> n" "n \<le> 512"
    "of_nat n - p * (256 / 1250) \<le> 51 / 100" "p * (256 / 1250) - of_nat n \<le> 51 / 100"
    by (rule pulse_counts [OF p(2,3)])
  define q where "q = 500 + a * 2000 / 180"
  have "\<bar>of_nat n - q * (256 / 1250)\<bar> \<le> 52 / 100"
    using p(4,5) n(4,5) unfolding q_def [symmetric] by linarith
  then have "\<bar>of_nat n - nominal_counts a\<bar> \<le> 52 / 100" by (simp add: nominal_counts_def q_def)
  moreover have "servo_set_angle channel angle c s
      = hal_i2c_write_reg eSERVO_I2C_DEVICE (LEDn_BASE channel) 1 (Some (pwm_data 0 (of_nat n))) 4 c s"
    for c s
    using leD [OF assms(2)] by (simp add: servo_set_angle_def a(1) p(1) n(1) pca9685_set_pwm_def Let_def)
  ultimately show ?thesis using that a n by blast
qed

section \<open>Properties\<close>

text \<open>The pulse registers round-trip: the four bytes written for a pair of counts are read back as
  the same pair, for all counts of the controller's 4096 steps.\<close>

lemma servo_counts_round_trip:
  assumes "on < 4096" and "off < 4096"
  shows "length (pwm_data on off) = 4 \<and> pwm_counts (pwm_data on off) = (on, off)"
  using pwm_round_trip [OF assms] by (simp add: pwm_data_def)

lemma servo_counts_round_trip_witness:
  "pwm_counts (pwm_data 0 307) = (0, 307)"
  using servo_counts_round_trip [of 0 307] by simp

text \<open>Any angle but NaN moves a servo within its range: the command writes one pulse to the
  channel's registers, from 102 to 512 counts of 4096, and it is within 0.52 counts of the ideal
  pulse of the angle clamped to 0 to 180 degrees, single precision and integer rounding included.\<close>

lemma servo_pulse_accuracy:
  assumes "angle \<noteq> NaN" and "channel \<le> 15"
  shows "\<exists>a n. 0 \<le> a \<and> a \<le> 180 \<and> (angle = Fin x \<longrightarrow> a = max 0 (min 180 x)) \<and>
    102 \<le> n \<and> n \<le> 512 \<and> \<bar>of_nat n - (500 + a * 2000 / 180) * (256 / 1250)\<bar> \<le> 52 / 100 \<and>
    servo_set_angle channel angle c s
      = hal_i2c_write_reg eSERVO_I2C_DEVICE (LEDn_BASE channel) 1 (Some (pwm_data 0 (of_nat n))) 4 c s"
proof (rule servo_set_angle_counts [OF assms], goal_cases)
  case (1 a n)
  then show ?case
    unfolding nominal_counts_def by (intro exI [of _ a] exI [of _ n] conjI) simp_all
qed

lemma servo_pulse_accuracy_witness:
  "\<exists>n. 306 \<le> n \<and> n \<le> 308 \<and> servo_set_angle 0 (Fin 90) (static_i2c (\<lambda>_. 0)) (boot_os (\<lambda>_. 1) (\<lambda>_. zero_timespec))
      = hal_i2c_write_reg eSERVO_I2C_DEVICE (LEDn_BASE 0) 1 (Some (pwm_data 0 (of_nat n))) 4
          (static_i2c (\<lambda>_. 0)) (boot_os (\<lambda>_. 1) (\<lambda>_. zero_timespec))"
proof -
  let ?c = "static_i2c (\<lambda>_. 0)" and ?s = "boot_os (\<lambda>_. 1) (\<lambda>_. zero_timespec)"
  have "Fin 90 \<noteq> NaN" "(0 :: u8) \<le> 15" by simp_all
  from servo_pulse_accuracy [OF this, of 90 ?c ?s]
  obtain a :: rat and n :: nat where r: "Fin 90 = Fin 90 \<longrightarrow> a = max 0 (min 180 90)"
    "\<bar>of_nat n - (500 + a * 2000 / 180) * (256 / 1250)\<bar> \<le> 52 / 100"
    "servo_set_angle 0 (Fin 90) ?c ?s
      = hal_i2c_write_reg eSERVO_I2C_DEVICE (LEDn_BASE 0) 1 (Some (pwm_data 0 (of_nat n))) 4 ?c ?s"
    by (elim exE conjE) rule
  have "a = 90" using r(1) by simp
  then have "\<bar>of_nat n - (1536 / 5 :: rat)\<bar> \<le> 52 / 100" using r(2) by simp
  then have "306 \<le> (of_nat n :: rat)" "(of_nat n :: rat) \<le> 308" by linarith+
  then have "306 \<le> n" "n \<le> 308" by simp_all
  then show ?thesis using r(3) by blast
qed

end
