(* ===== verification/ServoControl.thy ===== *)
theory ServoControl
  imports Servo
begin

text \<open>
  The behaviour of the servo module: the serpentine scan covers the grid of directions, angles stay
  in the range of the servo, the target registry, and the contract of the state machine.
\<close>

section \<open>The scan\<close>

lemma f_add5: "\<bar>k\<bar> \<le> 1000 \<Longrightarrow> f_add fl32 (Fin (of_int k)) (Fin 5) = Fin (of_int (k + 5))"
  using fl32_int [of "k + 5"] by simp

lemma f_sub5: "\<bar>k\<bar> \<le> 1000 \<Longrightarrow> f_sub fl32 (Fin (of_int k)) (Fin 5) = Fin (of_int (k - 5))"
  using fl32_int [of "k - 5"] by (simp add: f_sub_def)

text \<open>
  The point of row \<open>r\<close> (19 elevations, 5 degrees apart) at position \<open>c\<close> of its sweep (35 azimuths).
  Rows are swept alternately in both directions; \<open>p\<close> is 1 when the odd rows go up.
\<close>

definition scan_row :: "nat \<Rightarrow> nat \<Rightarrow> nat \<Rightarrow> ServoAngles \<times> bool" where
  "scan_row p r c =
    (\<lparr>hor_angle = Fin (of_int (if even (p + r) then 5 + 5 * int c else 175 - 5 * int c)),
      ver_angle = Fin (of_int (45 + 5 * int r))\<rparr>, even (p + r))"

definition scan_point :: "nat \<Rightarrow> nat \<Rightarrow> ServoAngles \<times> bool" where
  "scan_point p k = scan_row p (k div 35) (k mod 35)"

lemma scan_row_next:
  assumes "c < 34" and "r < 19"
  shows "servo_scan_operation (scan_row p r c) = scan_row p r (Suc c)"
proof -
  have lt: "(of_int (5 + 5 * int c) :: rat) < 175" "(5 :: rat) < of_int (175 - 5 * int c)"
    using assms(1) by (subst of_int_less_iff [symmetric, of _ 175, simplified] | simp)+
  have add: "f_add fl32 (Fin (of_int (5 + 5 * int c))) (Fin 5) = Fin (of_int (5 + 5 * int c + 5))"
    using assms(1) by (intro f_add5) simp
  have sub: "f_sub fl32 (Fin (of_int (175 - 5 * int c))) (Fin 5) = Fin (of_int (175 - 5 * int c - 5))"
    using assms(1) by (intro f_sub5) simp
  show ?thesis
    using lt add sub
    by (cases "even (p + r)")
      (simp_all only: scan_row_def servo_scan_operation_def servo_constants Let_def split_conv
        ServoAngles.simps f_less.simps if_True if_False simp_thms, simp_all add: algebra_simps)
qed

lemma scan_row_end:
  assumes "r < 19"
  shows "servo_scan_operation (scan_row p r 34) =
    (if r < 18 then scan_row p (Suc r) 0 else scan_row 0 0 0)"
proof -
  have lt: "(of_int (45 + 5 * int r) :: rat) < 135 \<longleftrightarrow> r < 18"
  proof -
    have "(of_int (45 + 5 * int r) :: rat) < of_int 135 \<longleftrightarrow> r < 18"
      by (subst of_int_less_iff) auto
    then show ?thesis by simp
  qed
  have add: "f_add fl32 (Fin (of_int (45 + 5 * int r))) (Fin 5) = Fin (of_int (45 + 5 * int r + 5))"
    using assms by (intro f_add5) simp
  show ?thesis
    using lt add
    by (cases "even (p + r)"; cases "r < 18")
      (simp_all only: scan_row_def servo_scan_operation_def servo_constants Let_def split_conv
        ServoAngles.simps f_less.simps if_True if_False simp_thms, simp_all add: algebra_simps)
qed

lemma scan_point_row: "c < 35 \<Longrightarrow> scan_point p (c + 35 * r) = scan_row p r c"
  by (simp add: scan_point_def)

lemma scan_point_next:
  assumes "k < 665"
  shows "servo_scan_operation (scan_point p k) =
    (if k < 664 then scan_point p (Suc k) else scan_point 0 0)"
proof -
  define r c where "r = k div 35" and "c = k mod 35"
  have k: "k = c + 35 * r" and c: "c < 35" by (simp_all add: r_def c_def)
  have r: "r < 19" using assms k by linarith
  have k0: "scan_point 0 0 = scan_row 0 0 0" by (simp add: scan_point_def)
  show ?thesis
  proof (cases "c < 34")
    case True
    then have "Suc k = Suc c + 35 * r" "k < 664" using k r by linarith+
    moreover have "scan_point p (Suc c + 35 * r) = scan_row p r (Suc c)"
      using True by (intro scan_point_row) simp
    ultimately show ?thesis
      using scan_row_next [OF True r, of p] scan_point_row [OF c, of p r] k by simp
  next
    case False
    then have c34: "c = 34" using c by linarith
    then have "Suc k = 0 + 35 * Suc r" "k < 664 \<longleftrightarrow> r < 18" using k r by auto
    moreover have "scan_point p (0 + 35 * Suc r) = scan_row p (Suc r) 0"
      by (intro scan_point_row) simp
    ultimately show ?thesis
      using scan_row_end [OF r, of p] scan_point_row [OF c, of p r] k k0 c34 by simp
  qed
qed

lemma scan_run:
  "k + n < 665 \<Longrightarrow> (servo_scan_operation ^^ n) (scan_point p k) = scan_point p (k + n)"
  by (induction n) (simp_all add: scan_point_next)

lemma scan_to_start:
  assumes "k < 665"
  shows "(servo_scan_operation ^^ (665 - k)) (scan_point p k) = scan_point 0 0"
proof -
  have "665 - k = Suc (664 - k)" using assms by simp
  then have "(servo_scan_operation ^^ (665 - k)) (scan_point p k)
      = servo_scan_operation ((servo_scan_operation ^^ (664 - k)) (scan_point p k))" by simp
  also have "(servo_scan_operation ^^ (664 - k)) (scan_point p k) = scan_point p 664"
    using scan_run [of k "664 - k" p] assms by simp
  finally show ?thesis using scan_point_next [of 664 p] by simp
qed

lemma scan_cycle: "(servo_scan_operation ^^ k) (scan_point 0 0) = scan_point 0 (k mod 665)"
proof -
  have c: "((servo_scan_operation ^^ 665) ^^ q) (scan_point 0 0) = scan_point 0 0" for q
    using scan_to_start [of 0 0] by (induction q) simp_all
  have "(servo_scan_operation ^^ k) (scan_point 0 0)
      = (servo_scan_operation ^^ (k mod 665 + 665 * (k div 665))) (scan_point 0 0)" by simp
  also have "\<dots> = (servo_scan_operation ^^ (k mod 665)) (((servo_scan_operation ^^ 665) ^^ (k div 665)) (scan_point 0 0))"
    by (simp only: funpow_add funpow_mult comp_apply mult.commute)
  also have "\<dots> = scan_point 0 (k mod 665)"
    using scan_run [of 0 "k mod 665" 0] by (simp only: c) simp
  finally show ?thesis .
qed

text \<open>
  From the position the module starts in, the scan enters the cycle after 351 steps: it sweeps the
  elevations 90 to 135 first.
\<close>

definition scan_start :: "ServoAngles \<times> bool" where
  "scan_start = (\<lparr>hor_angle = Fin 0, ver_angle = Fin 90\<rparr>, SERVO_INCREASE_ANGLE)"

text \<open>This is where the initialisation of the angles leaves the object, whatever the servos answer.\<close>

lemma scan_start_init:
  "(scan_angles (snd (servo_init_angles a)), angle_direction (snd (servo_init_angles a))) = scan_start"
  by (simp add: servo_init_angles_def scan_start_def Let_def split: prod.splits)

lemma scan_start_step: "servo_scan_operation scan_start = scan_point 1 315"
  using f_add5 [of 0]
  by (simp add: scan_start_def servo_scan_operation_def servo_constants scan_point_def scan_row_def)

lemma scan_start_run:
  "(servo_scan_operation ^^ (351 + k)) scan_start = scan_point 0 (k mod 665)"
proof -
  have "(servo_scan_operation ^^ (351 + k)) scan_start
      = (servo_scan_operation ^^ k) ((servo_scan_operation ^^ 350) (servo_scan_operation scan_start))"
  proof -
    have "351 + k = k + Suc 350" by simp
    then show ?thesis by (simp only: funpow_add funpow_Suc_right comp_apply)
  qed
  also have "\<dots> = (servo_scan_operation ^^ k) (scan_point 0 0)"
    using scan_to_start [of 315 1] by (simp add: scan_start_step)
  finally show ?thesis by (simp add: scan_cycle)
qed

text \<open>A sweep visits every direction of the grid, none twice.\<close>

lemma scan_row_inj:
  assumes "c < 35" "c' < 35" and eq: "fst (scan_row 0 r c) = fst (scan_row 0 r' c')"
  shows "r = r' \<and> c = c'"
proof -
  have "(of_int (45 + 5 * int r) :: rat) = of_int (45 + 5 * int r')"
    using eq by (simp add: scan_row_def)
  then have r: "r = r'" unfolding of_int_eq_iff by simp
  have "(of_int (if even r then 5 + 5 * int c else 175 - 5 * int c) :: rat)
      = of_int (if even r then 5 + 5 * int c' else 175 - 5 * int c')"
    using eq r by (simp add: scan_row_def)
  then have "c = c'" unfolding of_int_eq_iff by (simp split: if_splits)
  with r show ?thesis by simp
qed

lemma scan_points_distinct: "distinct (map (\<lambda>k. fst (scan_point 0 k)) [0..<665])"
proof -
  have "inj_on (\<lambda>k. fst (scan_point 0 k)) {0..<665}"
  proof (rule inj_onI)
    fix k k' :: nat
    assume "fst (scan_point 0 k) = fst (scan_point 0 k')"
    then have "k div 35 = k' div 35 \<and> k mod 35 = k' mod 35"
      unfolding scan_point_def by (intro scan_row_inj) simp_all
    then show "k = k'" by (metis mult_div_mod_eq)
  qed
  then show ?thesis by (simp add: distinct_map)
qed

lemma scan_points_cover:
  assumes "c < 35" and "r < 19"
  shows "\<exists>k<665. fst (scan_point 0 k) =
    \<lparr>hor_angle = Fin (of_int (5 + 5 * int c)), ver_angle = Fin (of_int (45 + 5 * int r))\<rparr>"
proof (cases "even r")
  case True
  then show ?thesis
    using assms scan_point_row [of c 0 r]
    by (intro exI [of _ "c + 35 * r"]) (simp add: scan_row_def)
next
  case False
  then show ?thesis
    using assms scan_point_row [of "34 - c" 0 r]
    by (intro exI [of _ "34 - c + 35 * r"]) (simp add: scan_row_def of_nat_diff)
qed

text \<open>From any direction the servo can take, a step stays within its range.\<close>

definition angle_in :: "int \<Rightarrow> int \<Rightarrow> cfloat \<Rightarrow> bool" where
  "angle_in lo hi a \<longleftrightarrow> (case a of Fin x \<Rightarrow> of_int lo \<le> x \<and> x \<le> of_int hi | _ \<Rightarrow> False)"

lemma fl32_between:
  assumes "of_int l \<le> x" and "x \<le> of_int h" and "\<bar>l\<bar> \<le> 2000" and "\<bar>h\<bar> \<le> 2000"
  shows "\<exists>y. fl32 x = Fin y \<and> of_int l \<le> y \<and> y \<le> of_int h"
proof -
  have "- 2000 \<le> l" "h \<le> 2000" using assms(3,4) by simp_all
  then have "(of_int (- 2000) :: rat) \<le> of_int l" "(of_int h :: rat) \<le> of_int 2000"
    by (simp_all only: of_int_le_iff)
  then have "\<bar>x\<bar> \<le> of_int 2000" using assms(1,2) by (intro abs_leI) simp_all
  then show ?thesis
    using fl32_Fin [of x 2000] rnd32_ge [OF assms(1)] rnd32_le [OF assms(2)] assms(3,4) by simp
qed

lemma servo_scan_bounds:
  assumes h: "angle_in 0 180 (hor_angle a)" and v: "angle_in 0 180 (ver_angle a)"
    and s: "servo_scan_operation (a, dir) = (a', dir')"
  shows "angle_in 0 180 (hor_angle a') \<and> angle_in 0 180 (ver_angle a')"
proof -
  obtain x y where x: "hor_angle a = Fin x" "0 \<le> x" "x \<le> 180"
    and y: "ver_angle a = Fin y" "0 \<le> y" "y \<le> 180"
    using h v by (auto simp: angle_in_def split: cfloat.splits)
  have up: "\<exists>z. fl32 (x + 5) = Fin z \<and> 0 \<le> z \<and> z \<le> 180" if "x < 175"
    using fl32_between [of 0 "x + 5" 180] x that by simp
  have down: "\<exists>z. fl32 (x - 5) = Fin z \<and> 0 \<le> z \<and> z \<le> 180" if "5 < x"
    using fl32_between [of 0 "x - 5" 180] x that by simp
  have vup: "\<exists>z. fl32 (y + 5) = Fin z \<and> 0 \<le> z \<and> z \<le> 180" if "y < 135"
    using fl32_between [of 0 "y + 5" 180] y that by simp
  show ?thesis
    using s x y up down vup
    by (auto simp: servo_scan_operation_def servo_constants f_sub_def angle_in_def split: if_splits)
qed

text \<open>
  The configured limits (5 to 175, 45 to 135) are not kept: a scan that resumes at a tracked target
  off the grid steps past them.
\<close>

lemma servo_scan_overshoots:
  "hor_angle (fst (servo_scan_operation (\<lparr>hor_angle = Fin 174, ver_angle = Fin 90\<rparr>, True))) = Fin 179"
  "hor_angle (fst (servo_scan_operation (\<lparr>hor_angle = Fin 6, ver_angle = Fin 90\<rparr>, False))) = Fin 1"
  using fl32_int [of 179] fl32_int [of 1]
  by (simp_all add: servo_scan_operation_def servo_constants f_sub_def)

section \<open>The target\<close>

lemma lock_unlock:
  assumes "m \<in> set (os_live s)" and "m \<notin> set (os_held s)"
  shows "osal_mutex_unlock m (osal_mutex_lock m s) = s"
  using assms by (simp add: osal_mutex_unlock_def osal_mutex_lock_def)

lemma servo_set_target_result:
  assumes "servo_target_mutex a \<in> set (os_live (s_os a))" and "os_held (s_os a) = []"
    and "servo_target_mutex a \<noteq> 0"
  shows "servo_fsm_set_target (Fin h) (Fin v) a =
    (if 5 \<le> h \<and> h \<le> 175 \<and> 45 \<le> v \<and> v \<le> 135
     then (eSTATUS_SUCCESSFUL, a\<lparr>servo_target := \<lparr>target_angles = \<lparr>hor_angle = Fin h, ver_angle = Fin v\<rparr>,
             target_seq = target_seq (servo_target a) + 1\<rparr>\<rparr>)
     else (eSTATUS_INVALID_VALUE, a))"
  using assms lock_unlock [of "servo_target_mutex a" "s_os a"]
  by (auto simp: servo_fsm_set_target_def servo_constants Let_def not_less)

text \<open>Both comparisons of a range check are false for a NaN, which is therefore stored.\<close>

lemma servo_set_target_nan:
  assumes "servo_target_mutex a \<in> set (os_live (s_os a))" and "os_held (s_os a) = []"
    and "servo_target_mutex a \<noteq> 0"
  shows "servo_fsm_set_target NaN NaN a =
    (eSTATUS_SUCCESSFUL, a\<lparr>servo_target := \<lparr>target_angles = \<lparr>hor_angle = NaN, ver_angle = NaN\<rparr>,
       target_seq = target_seq (servo_target a) + 1\<rparr>\<rparr>)"
  using assms lock_unlock [of "servo_target_mutex a" "s_os a"]
  by (simp add: servo_fsm_set_target_def servo_constants Let_def)

lemma servo_set_angle_nan: "os_ub (snd (snd (servo_set_angle channel NaN c s)))"
  by (simp add: servo_set_angle_def clampf_def servo_constants angle_to_pulse_us_def f_sub_def
      fl32_int [of 180, simplified] fl32_int [of 2000, simplified] pulse_us_to_counts_def
      counts_per_us_def Let_def)

section \<open>The contract of the machine\<close>

text \<open>No handler ends with the target mutex locked, and none waits for it while holding it.\<close>

definition servo_ok :: "ServoObject \<Rightarrow> bool" where
  "servo_ok a \<longleftrightarrow> os_held (s_os a) = [] \<and> \<not> os_stuck (s_os a)"

definition quiet :: "os \<Rightarrow> os \<Rightarrow> bool" where
  "quiet s s' \<longleftrightarrow> os_held s' = os_held s \<and> os_stuck s' = os_stuck s"

lemma quiet_trans: "quiet s s' \<Longrightarrow> quiet s' s'' \<Longrightarrow> quiet s s''"
  by (simp add: quiet_def)

lemma quiet_refl [simp]: "quiet s s"
  by (simp add: quiet_def)

lemma i2c_transfer_quiet: "hal_i2c_transfer d m n c s = (st, c', s') \<Longrightarrow> quiet s s'"
  by (auto simp: hal_i2c_transfer_def ask_def quiet_def Let_def split: if_splits)

lemma i2c_write_reg_quiet: "hal_i2c_write_reg d r l b n c s = (st, c', s') \<Longrightarrow> quiet s s'"
  by (auto simp: hal_i2c_write_reg_def quiet_def split: if_splits option.splits
      dest: i2c_transfer_quiet [unfolded quiet_def])

lemma i2c_read_reg_quiet: "hal_i2c_read_reg d r l b n c s = (st, b', c', s') \<Longrightarrow> quiet s s'"
  by (auto simp: hal_i2c_read_reg_def quiet_def Let_def split: if_splits option.splits prod.splits
      dest: i2c_transfer_quiet [unfolded quiet_def])

lemma i2c_init_quiet: "i2c_setup_devices ds c s = (st, c', s') \<Longrightarrow> quiet s s'"
proof (induction ds arbitrary: c s)
  case (Cons d ds)
  obtain st1 c1 s1 where 1: "i2c_setup_device d c s = (st1, c1, s1)"
    by (cases "i2c_setup_device d c s") auto
  then have "quiet s s1"
    by (auto simp: i2c_setup_device_def ask_def quiet_def Let_def split: if_splits)
  with Cons 1 show ?case by (auto split: if_splits intro: quiet_trans)
qed simp

lemma servo_set_angle_quiet: "servo_set_angle ch ang c s = (st, c', s') \<Longrightarrow> quiet s s'"
  by (auto simp: servo_set_angle_def pca9685_set_pwm_def quiet_def Let_def
      split: if_splits option.splits dest: i2c_write_reg_quiet [unfolded quiet_def])

lemma servo_get_angle_quiet: "servo_get_angle ch ang c s = (st, x, c', s') \<Longrightarrow> quiet s s'"
  by (auto simp: servo_get_angle_def pca9685_get_pwm_def quiet_def Let_def
      split: if_splits option.splits prod.splits dest: i2c_read_reg_quiet [unfolded quiet_def])

lemma pca9685_write8_quiet: "pca9685_write8 r v c s = (st, c', s') \<Longrightarrow> quiet s s'"
  by (auto simp: pca9685_write8_def dest: i2c_write_reg_quiet)

lemma pca9685_read8_quiet: "pca9685_read8 r (Some v) c s = (st, x, c', s') \<Longrightarrow> quiet s s'"
  by (auto simp: pca9685_read8_def split: prod.splits dest: i2c_read_reg_quiet)

lemma pca9685_set_pwm_freq_quiet:
  "pca9685_set_pwm_freq f c s = (st, c', s') \<Longrightarrow> quiet s s'"
  by (auto simp: pca9685_set_pwm_freq_def Let_def split: prod.splits if_splits
      dest!: pca9685_write8_quiet pca9685_read8_quiet) (auto simp: quiet_def)

lemma pca9685_init_quiet: "pca9685_init c s = (st, c', s') \<Longrightarrow> quiet s s'"
  by (auto simp: pca9685_init_def hal_i2c_init_def Let_def split: prod.splits if_splits
      dest!: pca9685_write8_quiet pca9685_set_pwm_freq_quiet i2c_init_quiet) (auto simp: quiet_def)

lemma servo_ok_quiet: "servo_ok a \<Longrightarrow> quiet (s_os a) s' \<Longrightarrow> servo_ok (a\<lparr>s_os := s'\<rparr>)"
  by (simp add: servo_ok_def quiet_def)

lemma servo_ok_upd [simp]:
  "servo_ok (a\<lparr>s_i2c := c\<rparr>) = servo_ok a" "servo_ok (a\<lparr>s_frame := fr\<rparr>) = servo_ok a"
  "servo_ok (a\<lparr>scan_angles := sa\<rparr>) = servo_ok a" "servo_ok (a\<lparr>angle_direction := d\<rparr>) = servo_ok a"
  "servo_ok (a\<lparr>servo_target := tg\<rparr>) = servo_ok a" "servo_ok (a\<lparr>last_seq := q\<rparr>) = servo_ok a"
  "servo_ok (a\<lparr>s_timer_arg := y\<rparr>) = servo_ok a"
  by (simp_all add: servo_ok_def)

lemma servo_ok_osi: "servo_ok (a\<lparr>s_i2c := c, s_os := s\<rparr>) = servo_ok (a\<lparr>s_os := s\<rparr>)"
  "servo_ok (a\<lparr>s_timer := t, s_os := s\<rparr>) = servo_ok (a\<lparr>s_os := s\<rparr>)"
  "servo_ok (a\<lparr>servo_target_mutex := m, s_os := s\<rparr>) = servo_ok (a\<lparr>s_os := s\<rparr>)"
  by (simp_all add: servo_ok_def)

lemma timer_quiet:
  "osal_timer_arm t ms ty s = (st, s') \<Longrightarrow> quiet s s'"
  "osal_timer_disarm t s = (st, s') \<Longrightarrow> quiet s s'"
  "osal_timer_init l ta s = (st, x, s') \<Longrightarrow> quiet s s'"
  "osal_mutex_init l s = (st, y, s') \<Longrightarrow> quiet s s'"
  by (auto simp: hal_defs quiet_def Let_def split: if_splits option.splits)

lemma lock_unlock_ok:
  "os_held s = [] \<Longrightarrow> quiet s (osal_mutex_unlock m (osal_mutex_lock m s))"
  by (simp add: osal_mutex_unlock_def osal_mutex_lock_def quiet_def)

lemma servo_copy_target_ok: "servo_ok a \<Longrightarrow> servo_copy_target a = (t, a') \<Longrightarrow> servo_ok a'"
  using lock_unlock_ok [of "s_os a" "servo_target_mutex a"]
  by (auto simp: servo_copy_target_def servo_ok_def quiet_def Let_def)

lemma servo_set_both_angles_ok:
  assumes "servo_ok a" and "servo_set_both_angles ang a = (st, a')"
  shows "servo_ok a'"
proof -
  obtain st1 c1 s1 where 1: "servo_set_angle eSERVO_HORIZONTAL_CHANNEL (hor_angle ang) (s_i2c a) (s_os a)
      = (st1, c1, s1)" by (cases "servo_set_angle eSERVO_HORIZONTAL_CHANNEL (hor_angle ang) (s_i2c a) (s_os a)") auto
  obtain st2 c2 s2 where 2: "servo_set_angle eSERVO_VERTICAL_CHANNEL (ver_angle ang) c1 s1 = (st2, c2, s2)"
    by (cases "servo_set_angle eSERVO_VERTICAL_CHANNEL (ver_angle ang) c1 s1") auto
  have "quiet (s_os a) s1" "quiet (s_os a) s2"
    using servo_set_angle_quiet [OF 1] servo_set_angle_quiet [OF 2] by (auto intro: quiet_trans)
  then show ?thesis
    using assms 1 2
    by (auto simp: servo_set_both_angles_def servo_ok_def quiet_def Let_def split: if_splits)
qed

lemma servo_init_angles_ok:
  assumes "servo_ok a" and "servo_init_angles a = (st, a')"
  shows "servo_ok a'"
proof -
  obtain st1 c1 s1 where 1: "servo_set_angle eSERVO_HORIZONTAL_CHANNEL (Fin 0) (s_i2c a) (s_os a)
      = (st1, c1, s1)" by (cases "servo_set_angle eSERVO_HORIZONTAL_CHANNEL (Fin 0) (s_i2c a) (s_os a)") auto
  obtain st2 c2 s2 where 2: "servo_set_angle eSERVO_VERTICAL_CHANNEL (Fin 90) c1 s1 = (st2, c2, s2)"
    by (cases "servo_set_angle eSERVO_VERTICAL_CHANNEL (Fin 90) c1 s1") auto
  have "quiet (s_os a) s1" "quiet (s_os a) s2"
    using servo_set_angle_quiet [OF 1] servo_set_angle_quiet [OF 2] by (auto intro: quiet_trans)
  then show ?thesis
    using assms 1 2 by (auto simp: servo_init_angles_def servo_ok_def quiet_def Let_def split: if_splits)
qed

lemma servo_scan_directions_ok:
  assumes "servo_ok a"
  shows "servo_ok (servo_scan_directions a)"
proof -
  obtain ang dir where sc: "servo_scan_operation (scan_angles a, angle_direction a) = (ang, dir)"
    by (cases "servo_scan_operation (scan_angles a, angle_direction a)") auto
  define a1 where "a1 = a\<lparr>scan_angles := ang, angle_direction := dir\<rparr>"
  obtain st a2 where 2: "servo_set_both_angles ang a1 = (st, a2)"
    by (cases "servo_set_both_angles ang a1") auto
  have ok2: "servo_ok a2"
    using servo_set_both_angles_ok [OF _ 2] assms by (simp add: a1_def)
  obtain st3 h c3 s3 where 3: "servo_get_angle eSERVO_HORIZONTAL_CHANNEL
      (Some (hor_angle (scan_angles a2))) (s_i2c a2) (s_os a2) = (st3, h, c3, s3)"
    by (metis prod_cases4)
  obtain st4 v c4 s4 where 4: "servo_get_angle eSERVO_VERTICAL_CHANNEL
      (Some (ver_angle (scan_angles a2))) c3 s3 = (st4, v, c4, s4)"
    by (metis prod_cases4)
  have "quiet (s_os a2) s4"
    using servo_get_angle_quiet [OF 3] servo_get_angle_quiet [OF 4] by (rule quiet_trans)
  then have "servo_ok (a2\<lparr>s_os := s4\<rparr>)" using ok2 by (rule servo_ok_quiet [rotated])
  then show ?thesis
    using ok2 2 3 4 by (simp add: servo_scan_directions_def sc a1_def [symmetric] servo_ok_osi
        Let_def) (simp add: a1_def servo_ok_def)
qed

lemma servo_init_devices_ok:
  assumes "servo_ok a" and "servo_init_devices a = (bad, a')"
  shows "servo_ok a'"
  using assms
  by (auto simp: servo_init_devices_def servo_ok_def quiet_def Let_def split: prod.splits if_splits
      dest!: pca9685_init_quiet [unfolded quiet_def] timer_quiet(3,4) [unfolded quiet_def])

lemma servo_set_both_angles_snd_ok: "servo_ok a \<Longrightarrow> servo_ok (snd (servo_set_both_angles ang a))"
  by (rule servo_set_both_angles_ok [OF _ surjective_pairing])

lemma servo_follow_target_ok: "servo_ok a \<Longrightarrow> servo_ok (servo_follow_target b a)"
  using servo_copy_target_ok [OF _ surjective_pairing, of a]
  by (cases "servo_copy_target a") (simp add: servo_follow_target_def servo_set_both_angles_snd_ok)

lemma servo_noise_entry_ok:
  assumes "servo_ok a"
  shows "servo_ok (servo_noise_entry a)"
proof -
  obtain tg a1 where 1: "servo_copy_target a = (tg, a1)" by (cases "servo_copy_target a") auto
  obtain st a2 where 2: "servo_set_both_angles (target_angles tg) (a1\<lparr>scan_angles := target_angles tg\<rparr>)
      = (st, a2)" by (cases "servo_set_both_angles (target_angles tg) (a1\<lparr>scan_angles := target_angles tg\<rparr>)") auto
  have "servo_ok a2"
    using servo_set_both_angles_ok [OF _ 2] servo_copy_target_ok [OF assms 1] by simp
  then show ?thesis
    by (auto simp: servo_noise_entry_def 1 2 Let_def split: prod.split intro!: servo_ok_quiet
        dest: timer_quiet(1))
qed

lemma servo_idle_entry_ok: "servo_ok a \<Longrightarrow> servo_ok (servo_idle_entry a)"
  by (auto simp: servo_idle_entry_def Let_def split: prod.split dest: servo_init_angles_ok)

interpretation servo: fsm_machine servo_states servo_ok "\<lambda>_. 0" 0
proof (unfold_locales, goal_cases)
  case (1 st)
  then show ?case by simp
next
  case (2 f st T)
  then show ?case
    by (cases st) (auto simp: servo_state_defs fsm_codes Let_def split: prod.split
        intro: servo_ok_quiet timer_quiet)
next
  case (3 f st T)
  then show ?case
    by (cases st)
      (auto simp: servo_state_defs fsm_codes Let_def servo_idle_entry_ok servo_noise_entry_ok
        servo_follow_target_ok intro: servo_set_both_angles_snd_ok)
next
  case (4 f st T ev)
  then show ?case
    by (cases st)
      (auto simp: servo_state_defs Let_def servo_idle_entry_ok servo_noise_entry_ok
        servo_follow_target_ok servo_scan_directions_ok split: prod.split
        intro: servo_set_both_angles_snd_ok servo_ok_quiet timer_quiet
        dest: servo_init_devices_ok [rotated])
next
  case (5 T T' st ev f f')
  then show ?case
    by (cases st) (auto simp: servo_state_defs Let_def split: prod.splits if_splits)
qed

section \<open>Properties\<close>

text \<open>The scan over any number of steps stays within the range of the servos.\<close>

lemma scan_stays:
  assumes "angle_in 0 180 (hor_angle (fst x))" and "angle_in 0 180 (ver_angle (fst x))"
  shows "angle_in 0 180 (hor_angle (fst ((servo_scan_operation ^^ n) x))) \<and>
    angle_in 0 180 (ver_angle (fst ((servo_scan_operation ^^ n) x)))"
proof (induction n)
  case (Suc n)
  then show ?case
    using servo_scan_bounds [of "fst ((servo_scan_operation ^^ n) x)" "snd ((servo_scan_operation ^^ n) x)"]
    by (simp add: surjective_pairing [symmetric] prod_eq_iff)
qed (use assms in simp)

text \<open>C24. The scan covers the field of view: from the angles and the direction that the initialisation leaves
  in the object, whatever the servos answer, after 351 steps it
  is at the corner (5, 45), and from there it visits the 665 points of the five degree grid over 5
  to 175 by 45 to 135 degrees in a cycle, each point exactly once per cycle.\<close>

lemma servo_scan_covers:
  "(scan_angles (snd (servo_init_angles a)), angle_direction (snd (servo_init_angles a))) = scan_start \<and>
   (servo_scan_operation ^^ (351 + k)) scan_start = scan_point 0 (k mod 665) \<and>
   distinct (map (\<lambda>k. fst (scan_point 0 k)) [0..<665]) \<and>
   (\<lambda>k. fst (scan_point 0 k)) ` {0..<665} =
     (\<lambda>(c, r). \<lparr>hor_angle = Fin (of_int (5 + 5 * int c)), ver_angle = Fin (of_int (45 + 5 * int r))\<rparr>)
       ` ({0..<35} \<times> {0..<19})"
proof (intro conjI)
  show "(scan_angles (snd (servo_init_angles a)), angle_direction (snd (servo_init_angles a))) = scan_start"
    by (rule scan_start_init)
  show "(servo_scan_operation ^^ (351 + k)) scan_start = scan_point 0 (k mod 665)"
    by (rule scan_start_run)
  show "distinct (map (\<lambda>k. fst (scan_point 0 k)) [0..<665])" by (rule scan_points_distinct)
  show "(\<lambda>k. fst (scan_point 0 k)) ` {0..<665} =
     (\<lambda>(c, r). \<lparr>hor_angle = Fin (of_int (5 + 5 * int c)), ver_angle = Fin (of_int (45 + 5 * int r))\<rparr>)
       ` ({0..<35} \<times> {0..<19})" (is "?L = ?R")
  proof (rule card_seteq [symmetric])
    show "finite ?L" by simp
    show "?R \<subseteq> ?L"
    proof
      fix x assume "x \<in> ?R"
      then obtain c r where cr: "c < 35" "r < 19"
        "x = \<lparr>hor_angle = Fin (of_int (5 + 5 * int c)), ver_angle = Fin (of_int (45 + 5 * int r))\<rparr>"
        by auto
      obtain k where "k < 665" "fst (scan_point 0 k) = x"
        using scan_points_cover [OF cr(1,2)] cr(3) by auto
      then show "x \<in> ?L" by force
    qed
    have "card ?L = 665"
      using distinct_card [OF scan_points_distinct] by simp
    moreover have "inj_on (\<lambda>(c, r). \<lparr>hor_angle = Fin (of_int (5 + 5 * int c)),
        ver_angle = Fin (of_int (45 + 5 * int r))\<rparr>) ({0..<35} \<times> {0..<19})"
      by (auto simp: inj_on_def)
    then have "card ?R = 35 * 19" by (simp add: card_image)
    ultimately show "card ?L \<le> card ?R" by simp
  qed
qed

text \<open>The scan never leaves the range of the servos: from any two angles of 0 to 180 degrees, finite
  and exact or not, every number of steps leads to angles of 0 to 180 degrees again.\<close>

lemma servo_scan_in_range:
  assumes "angle_in 0 180 (hor_angle a)" and "angle_in 0 180 (ver_angle a)"
  shows "angle_in 0 180 (hor_angle (fst ((servo_scan_operation ^^ n) (a, dir)))) \<and>
    angle_in 0 180 (ver_angle (fst ((servo_scan_operation ^^ n) (a, dir))))"
  using scan_stays [of "(a, dir)" n] assms by simp

lemma servo_scan_in_range_witness:
  "angle_in 0 180 (hor_angle (fst ((servo_scan_operation ^^ 9) (\<lparr>hor_angle = Fin (1717 / 10),
     ver_angle = Fin (333 / 10)\<rparr>, True))))"
  using servo_scan_in_range [of "\<lparr>hor_angle = Fin (1717 / 10), ver_angle = Fin (333 / 10)\<rparr>" 9 True]
  by (simp add: angle_in_def)

text \<open>The configured limits of the scan do not hold: the direction is reversed after a step that left
  the limits, so from an angle off the grid, such as a tracked target, the platform is driven past
  the horizontal limits of 5 and 175 degrees.\<close>

lemma servo_scan_passes_limits:
  "hor_angle (fst (servo_scan_operation (\<lparr>hor_angle = Fin 174, ver_angle = Fin 90\<rparr>, True))) = Fin 179 \<and>
   hor_angle (fst (servo_scan_operation (\<lparr>hor_angle = Fin 6, ver_angle = Fin 90\<rparr>, False))) = Fin 1 \<and>
   SERVO_HORIZONTAL_MIN_ANGLE_DEG = Fin 5 \<and> SERVO_HORIZONTAL_MAX_ANGLE_DEG = Fin 175"
  using servo_scan_overshoots
  by (simp add: SERVO_HORIZONTAL_MIN_ANGLE_DEG_def SERVO_HORIZONTAL_MAX_ANGLE_DEG_def)

text \<open>A target is accepted exactly when both angles are within the configured limits; an accepted one
  replaces the target and advances its sequence number, under the mutex, and a rejected one changes
  nothing. NaN passes every comparison of the check and is accepted as a target.\<close>

lemma servo_target_accepted:
  assumes "servo_target_mutex a \<in> set (os_live (s_os a))" and "os_held (s_os a) = []"
    and "servo_target_mutex a \<noteq> 0"
  shows "servo_fsm_set_target (Fin h) (Fin v) a =
      (if 5 \<le> h \<and> h \<le> 175 \<and> 45 \<le> v \<and> v \<le> 135
       then (eSTATUS_SUCCESSFUL, a\<lparr>servo_target := \<lparr>target_angles = \<lparr>hor_angle = Fin h, ver_angle = Fin v\<rparr>,
               target_seq = target_seq (servo_target a) + 1\<rparr>\<rparr>)
       else (eSTATUS_INVALID_VALUE, a)) \<and>
    fst (servo_fsm_set_target NaN NaN a) = eSTATUS_SUCCESSFUL"
  using servo_set_target_result [OF assms] servo_set_target_nan [OF assms] by simp

definition demo_servo :: ServoObject where
  "demo_servo = \<lparr>s_frame = servo_frame zero_ddl_frame, s_timer = 1, s_timer_arg = null_timer_arg,
     scan_angles = \<lparr>hor_angle = Fin 0, ver_angle = Fin 90\<rparr>, angle_direction = True,
     servo_target = \<lparr>target_angles = \<lparr>hor_angle = Fin 0, ver_angle = Fin 0\<rparr>, target_seq = 0\<rparr>,
     servo_target_mutex = 2, last_seq = 0, s_i2c = static_i2c (\<lambda>_. 0),
     s_os = (boot_os (\<lambda>_. 1) (\<lambda>_. zero_timespec))\<lparr>os_live := [2, 1], os_fresh := 3\<rparr>\<rparr>"

lemma servo_target_accepted_witness:
  "fst (servo_fsm_set_target (Fin 90) (Fin 60) demo_servo) = eSTATUS_SUCCESSFUL \<and>
   servo_fsm_set_target (Fin 90) (Fin 140) demo_servo = (eSTATUS_INVALID_VALUE, demo_servo)"
proof -
  have a: "servo_target_mutex demo_servo \<in> set (os_live (s_os demo_servo))"
    "os_held (s_os demo_servo) = []" "servo_target_mutex demo_servo \<noteq> 0"
    by (simp_all add: demo_servo_def boot_os_def)
  show ?thesis
    using servo_target_accepted [OF a, of 90 60] servo_target_accepted [OF a, of 90 140] by simp
qed

end
