(* ===== verification/HalGpio.thy ===== *)
theory HalGpio
  imports Osal
begin

text \<open>
  The GPIO driver, \<^verbatim>\<open>src/src/hal/gpio/hal_gpio.c\<close>, over libgpiod. The library's calls answer with the
  stream of the operating system state; the model keeps the handle of each line, the request made
  for it and the last level driven on it.
\<close>

section \<open>Configuration\<close>

definition eGPIO_INPUT :: u8 where "eGPIO_INPUT = 0"
definition eGPIO_OUTPUT :: u8 where "eGPIO_OUTPUT = 1"
definition eGPIO_PULL_NONE :: u8 where "eGPIO_PULL_NONE = 0"
definition eGPIO_PULLUP :: u8 where "eGPIO_PULLUP = 1"
definition eGPIO_PULLDOWN :: u8 where "eGPIO_PULLDOWN = 2"
definition eGPIO_EDGE_NONE :: u8 where "eGPIO_EDGE_NONE = 0"
definition eGPIO_EDGE_RISING :: u8 where "eGPIO_EDGE_RISING = 1"
definition eGPIO_EDGE_FALLING :: u8 where "eGPIO_EDGE_FALLING = 2"
definition eGPIO_EDGE_BOTH :: u8 where "eGPIO_EDGE_BOTH = 3"
definition eGPIO0_DEVICE :: u32 where "eGPIO0_DEVICE = 0"
definition eGPIO1_DEVICE :: u32 where "eGPIO1_DEVICE = 1"
definition eGPIO_DEVICE_COUNT :: u32 where "eGPIO_DEVICE_COUNT = 2"

lemmas gpio_codes = eGPIO_INPUT_def eGPIO_OUTPUT_def eGPIO_PULL_NONE_def eGPIO_PULLUP_def
  eGPIO_PULLDOWN_def eGPIO_EDGE_NONE_def eGPIO_EDGE_RISING_def eGPIO_EDGE_FALLING_def
  eGPIO_EDGE_BOTH_def eGPIO0_DEVICE_def eGPIO1_DEVICE_def eGPIO_DEVICE_COUNT_def

section \<open>State\<close>

datatype request_type = RequestInput | RequestOutput | RequestRising | RequestFalling | RequestBoth
datatype request_bias = BiasDisable | BiasPullUp | BiasPullDown

record GPIODevice =
  gpio_line :: bool
  gpio_pin :: u8
  gpio_direction :: u8
  gpio_pull :: u8
  gpio_edge :: u8

text \<open>
  \<open>gpio_line\<close> tells whether the device has a line handle; \<open>gpio_requests\<close> are the requests the chip
  granted, by pin, and \<open>gpio_levels\<close> the levels driven on the pins, latest first.
\<close>

record gpio =
  gpio_chip :: bool
  gpio_devices :: "GPIODevice list"
  gpio_requests :: "u8 \<Rightarrow> (request_type \<times> request_bias) option"
  gpio_levels :: "(u8 \<times> int) list"

definition static_gpio_device :: "u8 \<Rightarrow> GPIODevice" where
  "static_gpio_device pin = \<lparr>gpio_line = False, gpio_pin = pin, gpio_direction = eGPIO_INPUT,
     gpio_pull = eGPIO_PULL_NONE, gpio_edge = eGPIO_EDGE_NONE\<rparr>"

definition static_gpio :: gpio where
  "static_gpio = \<lparr>gpio_chip = False, gpio_devices = [static_gpio_device 17, static_gpio_device 27],
     gpio_requests = (\<lambda>_. None), gpio_levels = []\<rparr>"

section \<open>Operations\<close>

text \<open>The request configuration of a device, or nothing for an invalid one.\<close>

definition gpio_request_type :: "GPIODevice \<Rightarrow> request_type option" where
  "gpio_request_type d =
    (if gpio_edge d = eGPIO_EDGE_NONE
     then Some (if gpio_direction d = eGPIO_INPUT then RequestInput else RequestOutput)
     else if gpio_edge d = eGPIO_EDGE_RISING then Some RequestRising
     else if gpio_edge d = eGPIO_EDGE_FALLING then Some RequestFalling
     else if gpio_edge d = eGPIO_EDGE_BOTH then Some RequestBoth
     else None)"

definition gpio_request_flags :: "GPIODevice \<Rightarrow> request_bias option" where
  "gpio_request_flags d =
    (if gpio_pull d = eGPIO_PULL_NONE then Some BiasDisable
     else if gpio_pull d = eGPIO_PULLUP then Some BiasPullUp
     else if gpio_pull d = eGPIO_PULLDOWN then Some BiasPullDown
     else None)"

definition gpio_setup_device :: "nat \<Rightarrow> gpio \<Rightarrow> os \<Rightarrow> eStatus \<times> gpio \<times> os" where
  "gpio_setup_device i g s =
    (let (line, s) = ask s;
         g = g\<lparr>gpio_devices := (gpio_devices g)[i := (gpio_devices g ! i)\<lparr>gpio_line := line \<noteq> 0\<rparr>]\<rparr>;
         d = gpio_devices g ! i
     in if line = 0 then (eSTATUS_DEVICE_ERROR, g, s)
        else case gpio_request_type d of
               None \<Rightarrow> (eSTATUS_INVALID_VALUE, g, s)
             | Some ty \<Rightarrow>
                (if gpio_direction d = eGPIO_OUTPUT \<and> gpio_edge d \<noteq> eGPIO_EDGE_NONE
                 then (eSTATUS_INVALID_VALUE, g, s)
                 else case gpio_request_flags d of
                        None \<Rightarrow> (eSTATUS_INVALID_VALUE, g, s)
                      | Some fl \<Rightarrow>
                         (let (r, s) = ask s
                          in if r < 0 then (eSTATUS_DEVICE_ERROR, g, s)
                             else (eSTATUS_SUCCESSFUL,
                                   g\<lparr>gpio_requests := (gpio_requests g)(gpio_pin d \<mapsto> (ty, fl))\<rparr>, s))))"

fun gpio_setup_devices :: "nat list \<Rightarrow> gpio \<Rightarrow> os \<Rightarrow> eStatus \<times> gpio \<times> os" where
  "gpio_setup_devices [] g s = (eSTATUS_SUCCESSFUL, g, s)"
| "gpio_setup_devices (i # is) g s =
    (case gpio_setup_device i g s of
       (st, g, s) \<Rightarrow> if failed st then (st, g, s) else gpio_setup_devices is g s)"

definition hal_gpio_init :: "gpio \<Rightarrow> os \<Rightarrow> eStatus \<times> gpio \<times> os" where
  "hal_gpio_init g s =
    (let (chip, s) = ask s; g = g\<lparr>gpio_chip := chip \<noteq> 0\<rparr>
     in if chip = 0 then (eSTATUS_DEVICE_ERROR, g, s)
        else gpio_setup_devices [0..<unat eGPIO_DEVICE_COUNT] g s)"

text \<open>\<open>buffer\<close> is the location the level is written to, \<open>None\<close> for a null pointer.\<close>

definition hal_gpio_read :: "u32 \<Rightarrow> int option \<Rightarrow> gpio \<Rightarrow> os \<Rightarrow> eStatus \<times> int option \<times> os" where
  "hal_gpio_read device_index buffer g s =
    (if eGPIO_DEVICE_COUNT \<le> device_index then (eSTATUS_INVALID_VALUE, buffer, s)
     else if gpio_direction (gpio_devices g ! unat device_index) \<noteq> eGPIO_INPUT
     then (eSTATUS_DEVICE_ERROR, buffer, s)
     else if buffer = None then (eSTATUS_NULL_PARAM, buffer, s)
     else let (pin_value, s) = ask s
          in if pin_value < 0 then (eSTATUS_DEVICE_ERROR, buffer, s)
             else (eSTATUS_SUCCESSFUL, Some pin_value, s))"

definition hal_gpio_write :: "u32 \<Rightarrow> int \<Rightarrow> gpio \<Rightarrow> os \<Rightarrow> eStatus \<times> gpio \<times> os" where
  "hal_gpio_write device_index val g s =
    (if eGPIO_DEVICE_COUNT \<le> device_index then (eSTATUS_INVALID_VALUE, g, s)
     else let d = gpio_devices g ! unat device_index
     in if gpio_direction d \<noteq> eGPIO_OUTPUT then (eSTATUS_DEVICE_ERROR, g, s)
        else let (r, s) = ask s
        in if r < 0 then (eSTATUS_DEVICE_ERROR, g, s)
           else (eSTATUS_SUCCESSFUL,
                 g\<lparr>gpio_levels := (gpio_pin d, if val \<noteq> 0 then 1 else 0) # gpio_levels g\<rparr>, s))"

definition hal_gpio_set_direction :: "u32 \<Rightarrow> u32 \<Rightarrow> gpio \<Rightarrow> os \<Rightarrow> eStatus \<times> gpio \<times> os" where
  "hal_gpio_set_direction device_index direction g s =
    (if eGPIO_DEVICE_COUNT \<le> device_index then (eSTATUS_INVALID_VALUE, g, s)
     else let i = unat device_index; d = gpio_devices g ! i
     in if direction \<noteq> ucast eGPIO_INPUT \<and> direction \<noteq> ucast eGPIO_OUTPUT
        then (eSTATUS_INVALID_VALUE, g, s)
        else let (status, s) = ask s
        in if status < 0 then (eSTATUS_DEVICE_ERROR, g, s)
           else let g = (if direction = ucast eGPIO_OUTPUT
                         then g\<lparr>gpio_levels := (gpio_pin d, 0) # gpio_levels g\<rparr> else g)
                in (eSTATUS_SUCCESSFUL,
                    g\<lparr>gpio_devices := (gpio_devices g)[i := d\<lparr>gpio_direction := ucast direction\<rparr>]\<rparr>, s))"

definition hal_gpio_cleanup :: "gpio \<Rightarrow> gpio" where
  "hal_gpio_cleanup g =
    (let g = fold (\<lambda>i g. g\<lparr>gpio_requests := (gpio_requests g)(gpio_pin (gpio_devices g ! i) := None)\<rparr>)
               [0..<unat eGPIO_DEVICE_COUNT] g
     in g\<lparr>gpio_chip := False\<rparr>)"

lemmas gpio_ops [hal_defs] = hal_gpio_read_def hal_gpio_write_def hal_gpio_set_direction_def

section \<open>Facts\<close>

definition gpio_wf :: "gpio \<Rightarrow> bool" where
  "gpio_wf g \<longleftrightarrow> length (gpio_devices g) = unat eGPIO_DEVICE_COUNT"

lemma set_direction_wf:
  "gpio_wf g \<Longrightarrow> hal_gpio_set_direction d dir g s = (st, g', s') \<Longrightarrow> gpio_wf g'"
  by (auto simp: gpio_wf_def hal_gpio_set_direction_def Let_def split: if_splits prod.splits)

lemma gpio_write_wf: "gpio_wf g \<Longrightarrow> hal_gpio_write d v g s = (st, g', s') \<Longrightarrow> gpio_wf g'"
  by (auto simp: gpio_wf_def hal_gpio_write_def Let_def split: if_splits prod.splits)

text \<open>
  The direction that was set last decides which accesses are possible: an output cannot be read and
  an input cannot be driven.
\<close>

lemma set_direction_result:
  assumes "gpio_wf g" and "hal_gpio_set_direction d dir g s = (eSTATUS_SUCCESSFUL, g', s')"
  shows "gpio_direction (gpio_devices g' ! unat d) = ucast dir"
    "dir = ucast eGPIO_INPUT \<or> dir = ucast eGPIO_OUTPUT" "d < eGPIO_DEVICE_COUNT"
    "e \<noteq> unat d \<Longrightarrow> gpio_devices g' ! e = gpio_devices g ! e"
proof -
  have "d < eGPIO_DEVICE_COUNT"
    using assms(2) by (auto simp: hal_gpio_set_direction_def split: if_splits)
  moreover from this have "unat d < length (gpio_devices g)"
    using assms(1) by (simp add: gpio_wf_def word_less_nat_alt)
  ultimately show "gpio_direction (gpio_devices g' ! unat d) = ucast dir"
    "dir = ucast eGPIO_INPUT \<or> dir = ucast eGPIO_OUTPUT" "d < eGPIO_DEVICE_COUNT"
    "e \<noteq> unat d \<Longrightarrow> gpio_devices g' ! e = gpio_devices g ! e"
    using assms(2)
    by (auto simp: hal_gpio_set_direction_def Let_def split: if_splits prod.splits)
qed

lemma gpio_direction_exclusive:
  assumes "gpio_wf g" and "hal_gpio_set_direction d dir g s = (eSTATUS_SUCCESSFUL, g', s')"
  shows "(dir = ucast eGPIO_INPUT \<longrightarrow> hal_gpio_write d v g' s' = (eSTATUS_DEVICE_ERROR, g', s')) \<and>
    (dir = ucast eGPIO_OUTPUT \<longrightarrow> hal_gpio_read d b g' s' = (eSTATUS_DEVICE_ERROR, b, s'))"
proof -
  note r = set_direction_result [OF assms]
  have "\<not> eGPIO_DEVICE_COUNT \<le> d" using r(3) by simp
  then show ?thesis
    using r(1) by (auto simp: hal_gpio_write_def hal_gpio_read_def Let_def gpio_codes)
qed

text \<open>The configuration of the program is accepted: only the chip can make the initialisation fail.\<close>

lemma gpio_device_indices: "[0..<unat eGPIO_DEVICE_COUNT] = [0, 1]"
  by (simp add: eGPIO_DEVICE_COUNT_def upt_conv_Cons)

definition gpio_device_valid :: "GPIODevice \<Rightarrow> bool" where
  "gpio_device_valid d \<longleftrightarrow> gpio_request_type d \<noteq> None \<and> gpio_request_flags d \<noteq> None \<and>
    (gpio_direction d = eGPIO_OUTPUT \<longrightarrow> gpio_edge d = eGPIO_EDGE_NONE)"

lemma gpio_line_irrelevant [simp]:
  "gpio_request_type (d\<lparr>gpio_line := b\<rparr>) = gpio_request_type d"
  "gpio_request_flags (d\<lparr>gpio_line := b\<rparr>) = gpio_request_flags d"
  "gpio_device_valid (d\<lparr>gpio_line := b\<rparr>) = gpio_device_valid d"
  by (simp_all add: gpio_request_type_def gpio_request_flags_def gpio_device_valid_def)

lemma gpio_setup_device_result:
  assumes "gpio_setup_device i g s = (st, g', s')" and "i < length (gpio_devices g)"
    and "gpio_device_valid (gpio_devices g ! i)"
  shows "st = eSTATUS_SUCCESSFUL \<or> st = eSTATUS_DEVICE_ERROR"
    "length (gpio_devices g') = length (gpio_devices g)"
    "\<forall>j. j \<noteq> i \<longrightarrow> gpio_devices g' ! j = gpio_devices g ! j"
    "st = eSTATUS_SUCCESSFUL \<Longrightarrow> gpio_requests g' (gpio_pin (gpio_devices g ! i)) =
       Some (the (gpio_request_type (gpio_devices g ! i)), the (gpio_request_flags (gpio_devices g ! i)))"
proof -
  have e: "gpio_device_valid ((gpio_devices g ! i)\<lparr>gpio_line := b\<rparr>)" for b
    using assms(3) by simp
  then obtain ty fl where "gpio_request_type (gpio_devices g ! i) = Some ty"
    "gpio_request_flags (gpio_devices g ! i) = Some fl"
    "gpio_direction (gpio_devices g ! i) = eGPIO_OUTPUT \<Longrightarrow> gpio_edge (gpio_devices g ! i) = eGPIO_EDGE_NONE"
    using assms(3) by (auto simp: gpio_device_valid_def)
  then show "st = eSTATUS_SUCCESSFUL \<or> st = eSTATUS_DEVICE_ERROR"
    "length (gpio_devices g') = length (gpio_devices g)"
    "\<forall>j. j \<noteq> i \<longrightarrow> gpio_devices g' ! j = gpio_devices g ! j"
    "st = eSTATUS_SUCCESSFUL \<Longrightarrow> gpio_requests g' (gpio_pin (gpio_devices g ! i)) =
       Some (the (gpio_request_type (gpio_devices g ! i)), the (gpio_request_flags (gpio_devices g ! i)))"
    using assms(1,2)
    by (auto simp: gpio_setup_device_def ask_def Let_def split: if_splits)
qed

lemma gpio_static_config_valid:
  assumes "hal_gpio_init static_gpio s = (st, g', s')"
  shows "st = eSTATUS_SUCCESSFUL \<or> st = eSTATUS_DEVICE_ERROR"
proof -
  define g0 where "g0 = static_gpio\<lparr>gpio_chip := True\<rparr>"
  have v: "length (gpio_devices g0) = 2" "gpio_device_valid (gpio_devices g0 ! 0)"
    "gpio_device_valid (gpio_devices g0 ! 1)"
    by (simp_all add: g0_def static_gpio_def static_gpio_device_def gpio_device_valid_def
        gpio_request_type_def gpio_request_flags_def)
  have "st = eSTATUS_SUCCESSFUL \<or> st = eSTATUS_DEVICE_ERROR"
    if "gpio_setup_devices [0, 1] g0 s1 = (st, g', s')" for s1
  proof -
    obtain st1 g1 s2 where a: "gpio_setup_device 0 g0 s1 = (st1, g1, s2)"
      by (cases "gpio_setup_device 0 g0 s1") auto
    obtain st2 g2 s3 where b: "gpio_setup_device 1 g1 s2 = (st2, g2, s3)"
      by (cases "gpio_setup_device 1 g1 s2") auto
    note ra = gpio_setup_device_result [OF a]
    have "st2 = eSTATUS_SUCCESSFUL \<or> st2 = eSTATUS_DEVICE_ERROR"
      using gpio_setup_device_result(1) [OF b] ra v by simp
    then show ?thesis
      using that a b ra(1) v by (auto split: if_splits)
  qed
  then show ?thesis
    using assms
    by (auto simp: hal_gpio_init_def gpio_device_indices g0_def Let_def split: if_splits prod.splits)
qed

lemma gpio_cleanup_releases:
  assumes "i < unat eGPIO_DEVICE_COUNT"
  shows "gpio_requests (hal_gpio_cleanup g) (gpio_pin (gpio_devices g ! i)) = None"
proof -
  have "i = 0 \<or> i = 1" using assms by (auto simp: eGPIO_DEVICE_COUNT_def)
  then show ?thesis by (auto simp: hal_gpio_cleanup_def gpio_device_indices)
qed

section \<open>Properties\<close>

text \<open>The direction set last decides the accesses of a line: after it was set to input, driving it is
  refused and changes nothing; after it was set to output, the line was driven low first and reading
  it is refused; the other lines keep their direction.\<close>

lemma gpio_direction_guards:
  assumes "gpio_wf g" and "hal_gpio_set_direction d dir g s = (eSTATUS_SUCCESSFUL, g', s')"
  shows "gpio_wf g' \<and>
    (if dir = ucast eGPIO_OUTPUT
     then hal_gpio_read d b g' s' = (eSTATUS_DEVICE_ERROR, b, s') \<and>
       gpio_levels g' = (gpio_pin (gpio_devices g ! unat d), 0) # gpio_levels g
     else dir = ucast eGPIO_INPUT \<and> hal_gpio_write d v g' s' = (eSTATUS_DEVICE_ERROR, g', s') \<and>
       gpio_levels g' = gpio_levels g) \<and>
    (e = unat d \<or> gpio_devices g' ! e = gpio_devices g ! e)"
proof -
  note r = set_direction_result [OF assms]
  note x = gpio_direction_exclusive [OF assms, where v = v and b = b]
  have "gpio_levels g' = (if dir = ucast eGPIO_OUTPUT
      then (gpio_pin (gpio_devices g ! unat d), 0) # gpio_levels g else gpio_levels g)"
    using assms(2) by (auto simp: hal_gpio_set_direction_def Let_def split: if_splits prod.splits)
  then show ?thesis using r(2) r(4) [of e] x set_direction_wf [OF assms] by auto
qed

lemma gpio_direction_guards_witness:
  "\<exists>g' s'. hal_gpio_set_direction 0 1 static_gpio (boot_os (\<lambda>_. 0) (\<lambda>_. zero_timespec))
      = (eSTATUS_SUCCESSFUL, g', s') \<and> hal_gpio_read 0 (Some 5) g' s' = (eSTATUS_DEVICE_ERROR, Some 5, s') \<and>
     gpio_levels g' = [(17, 0)] \<and> gpio_devices g' ! 1 = static_gpio_device 27"
proof -
  have wf: "gpio_wf static_gpio" by (simp add: gpio_wf_def static_gpio_def gpio_codes)
  obtain g' s' where r: "hal_gpio_set_direction 0 1 static_gpio (boot_os (\<lambda>_. 0) (\<lambda>_. zero_timespec))
      = (eSTATUS_SUCCESSFUL, g', s')"
    by (simp add: hal_gpio_set_direction_def Let_def gpio_codes ask_def boot_os_def)
  from gpio_direction_guards [OF wf r, where b = "Some 5" and e = 1] r show ?thesis
    by (auto simp: gpio_codes static_gpio_def static_gpio_device_def)
qed

end
