(* ===== verification/TempHum.thy ===== *)
theory TempHum
  imports DdlFrame HalGpio
begin

text \<open>
  The AM2302 temperature and humidity sensor, \<^verbatim>\<open>src/src/ddl/temperature_humidity/\<close>: the one-wire
  protocol timed with the monotonic clock, the decoding, the state machine and the module.

  A wait for a level polls the line until the level or a deadline; if the clock never passes the
  deadline it does not return, and the result is \<open>None\<close>. The facts give the condition on the clock
  under which every call returns.
\<close>

section \<open>Configuration\<close>

definition eTEMPERATURE_HUMIDITY_EVENT_READ :: u32 where
  [fsm_codes]: "eTEMPERATURE_HUMIDITY_EVENT_READ = eFSM_EVENT_USER"

definition eTEMPERATURE_HUMIDITY_QUEUE_CAPACITY :: u32 where
  "eTEMPERATURE_HUMIDITY_QUEUE_CAPACITY = 4"
definition eTEMPERATURE_HUMIDITY_RETRY_MAX :: u32 where "eTEMPERATURE_HUMIDITY_RETRY_MAX = 3"
definition eTEMPERATURE_HUMIDITY_GPIO_DEVICE :: u32 where
  "eTEMPERATURE_HUMIDITY_GPIO_DEVICE = eGPIO0_DEVICE"

definition AM2302_START_SIGNAL_HOLD_MS :: u64 where "AM2302_START_SIGNAL_HOLD_MS = 1"
definition AM2302_RESPONSE_TIMEOUT_US :: u64 where "AM2302_RESPONSE_TIMEOUT_US = 300"
definition AM2302_RESPONSE_PHASE_TIMEOUT_US :: u64 where "AM2302_RESPONSE_PHASE_TIMEOUT_US = 150"
definition AM2302_BIT_TIMEOUT_US :: u64 where "AM2302_BIT_TIMEOUT_US = 200"
definition AM2302_BIT_THRESHOLD_US :: u64 where "AM2302_BIT_THRESHOLD_US = 50"
definition AM2302_MIN_READ_INTERVAL_MS :: u64 where "AM2302_MIN_READ_INTERVAL_MS = 2000"
definition AM2302_BIT_COUNT :: nat where "AM2302_BIT_COUNT = 40"
definition AM2302_BYTE_COUNT :: nat where "AM2302_BYTE_COUNT = 5"

section \<open>The object\<close>

record TempHumFrame =
  humidity_hi :: u8
  humidity_lo :: u8
  temperature_hi :: u8
  temperature_lo :: u8
  th_parity :: u8

record TemperatureHumidityObject =
  t_frame :: TemperatureHumidityFrame
  t_retry :: u32
  t_resp_frame :: TempHumFrame
  t_last_read_tick :: u64
  t_gpio :: gpio
  t_os :: os

datatype TempHumState =
    temperature_humidity_init
  | temperature_humidity_error
  | temperature_humidity_idle
  | temperature_humidity_read

type_synonym temp_hum_fsm = "(TempHumState, TemperatureHumidityObject) FSM"

section \<open>The protocol\<close>

definition am2302_get_time_us :: "os \<Rightarrow> u64 \<times> os" where
  "am2302_get_time_us s =
    (let ts = os_clock s (os_reads s)
     in (tv_sec ts * 1000000 + tv_nsec ts div 1000, s\<lparr>os_reads := Suc (os_reads s)\<rparr>))"

text \<open>The polling loop: the status and, on success, the time at which the level was seen.\<close>

partial_function (option) am2302_wait_loop ::
    "gpio \<Rightarrow> int \<Rightarrow> u64 \<Rightarrow> os \<Rightarrow> (eStatus \<times> u64 option \<times> os) option" where
  "am2302_wait_loop g target_level deadline s =
    (let (status, level, s) = hal_gpio_read eTEMPERATURE_HUMIDITY_GPIO_DEVICE (Some 0) g s
     in if status \<noteq> eSTATUS_SUCCESSFUL then Some (eSTATUS_DEVICE_ERROR, None, s)
        else let (now, s) = am2302_get_time_us s
        in if the level = target_level then Some (eSTATUS_SUCCESSFUL, Some now, s)
           else if deadline \<le> now then Some (eSTATUS_ACTION_FAILED, None, s)
           else am2302_wait_loop g target_level deadline s)"

definition am2302_wait_for_level ::
    "gpio \<Rightarrow> int \<Rightarrow> u64 \<Rightarrow> os \<Rightarrow> (eStatus \<times> u64 option \<times> os) option" where
  "am2302_wait_for_level g target_level timeout_us s =
    (let (now, s) = am2302_get_time_us s
     in am2302_wait_loop g target_level (now + timeout_us) s)"

definition am2302_send_read_request :: "gpio \<Rightarrow> os \<Rightarrow> (eStatus \<times> gpio \<times> os) option" where
  "am2302_send_read_request g s =
    (let (status, g, s) = hal_gpio_set_direction eTEMPERATURE_HUMIDITY_GPIO_DEVICE
                            (ucast eGPIO_OUTPUT) g s
     in if status \<noteq> eSTATUS_SUCCESSFUL then Some (status, g, s)
        else case osal_delay_ms AM2302_START_SIGNAL_HOLD_MS s of
               None \<Rightarrow> None
             | Some s \<Rightarrow> Some (hal_gpio_set_direction eTEMPERATURE_HUMIDITY_GPIO_DEVICE
                                (ucast eGPIO_INPUT) g s))"

definition am2302_wait_for_response :: "gpio \<Rightarrow> os \<Rightarrow> (eStatus \<times> os) option" where
  "am2302_wait_for_response g s =
    (case am2302_wait_for_level g 0 AM2302_RESPONSE_TIMEOUT_US s of
       None \<Rightarrow> None
     | Some (status, _, s) \<Rightarrow>
        if failed status then Some (status, s)
        else (case am2302_wait_for_level g 1 AM2302_RESPONSE_PHASE_TIMEOUT_US s of
                None \<Rightarrow> None
              | Some (status, _, s) \<Rightarrow>
                 if status \<noteq> eSTATUS_SUCCESSFUL then Some (status, s)
                 else (case am2302_wait_for_level g 0 AM2302_RESPONSE_PHASE_TIMEOUT_US s of
                         None \<Rightarrow> None
                       | Some (status, _, s) \<Rightarrow>
                          if status \<noteq> eSTATUS_SUCCESSFUL then Some (status, s)
                          else Some (eSTATUS_SUCCESSFUL, s))))"

text \<open>One data bit: the length of the high pulse decides.\<close>

definition am2302_read_bit :: "gpio \<Rightarrow> os \<Rightarrow> (eStatus \<times> bool \<times> os) option" where
  "am2302_read_bit g s =
    (case am2302_wait_for_level g 1 AM2302_BIT_TIMEOUT_US s of
       None \<Rightarrow> None
     | Some (status, t_rise, s) \<Rightarrow>
        if status \<noteq> eSTATUS_SUCCESSFUL then Some (status, False, s)
        else (case am2302_wait_for_level g 0 AM2302_BIT_TIMEOUT_US s of
                None \<Rightarrow> None
              | Some (status, t_fall, s) \<Rightarrow>
                 if status \<noteq> eSTATUS_SUCCESSFUL then Some (status, False, s)
                 else Some (eSTATUS_SUCCESSFUL, AM2302_BIT_THRESHOLD_US < the t_fall - the t_rise, s)))"

text \<open>Shifting a bit into its byte.\<close>

definition store_bit :: "nat \<Rightarrow> bool \<Rightarrow> u8 list \<Rightarrow> u8 list" where
  "store_bit i b bytes =
    bytes[i div 8 := push_bit 1 (bytes ! (i div 8)) OR (if b then 1 else 0)]"

fun read_frame_bits :: "nat list \<Rightarrow> gpio \<Rightarrow> u8 list \<Rightarrow> os \<Rightarrow> (eStatus \<times> u8 list \<times> os) option" where
  "read_frame_bits [] g bytes s = Some (eSTATUS_SUCCESSFUL, bytes, s)"
| "read_frame_bits (i # is) g bytes s =
    (case am2302_read_bit g s of
       None \<Rightarrow> None
     | Some (status, b, s) \<Rightarrow>
        if status \<noteq> eSTATUS_SUCCESSFUL then Some (status, bytes, s)
        else read_frame_bits is g (store_bit i b bytes) s)"

definition frame_of_bytes :: "u8 list \<Rightarrow> TempHumFrame" where
  "frame_of_bytes bs = \<lparr>humidity_hi = bs ! 0, humidity_lo = bs ! 1, temperature_hi = bs ! 2,
     temperature_lo = bs ! 3, th_parity = bs ! 4\<rparr>"

definition am2302_read_frame :: "gpio \<Rightarrow> os \<Rightarrow> (eStatus \<times> TempHumFrame \<times> os) option" where
  "am2302_read_frame g s =
    (case read_frame_bits [0..<AM2302_BIT_COUNT] g (replicate AM2302_BYTE_COUNT 0) s of
       None \<Rightarrow> None
     | Some (status, bytes, s) \<Rightarrow> Some (status, frame_of_bytes bytes, s))"

definition am2302_parity_check :: "TempHumFrame \<Rightarrow> bool" where
  "am2302_parity_check f \<longleftrightarrow>
    humidity_hi f + humidity_lo f + temperature_hi f + temperature_lo f = th_parity f"

definition am2302_decode_frame ::
    "TemperatureHumidityObject \<Rightarrow> TempHumFrame \<Rightarrow> TemperatureHumidityObject" where
  "am2302_decode_frame aobj f =
    (let raw_humidity = (push_bit 8 (ucast (humidity_hi f)) OR ucast (humidity_lo f) :: u16);
         fr = (t_frame aobj)\<lparr>thf_humidity :=
                f_div fl32 (fl32 (of_nat (unat raw_humidity))) (Fin 10)\<rparr>;
         raw_temp = (push_bit 8 (ucast (temperature_hi f)) OR ucast (temperature_lo f) :: u16);
         negative = (raw_temp AND 0x8000 \<noteq> 0);
         magnitude = raw_temp AND 0x7FFF;
         temp_c = f_div fl32 (fl32 (of_nat (unat magnitude))) (Fin 10);
         fr = fr\<lparr>thf_temperature := (if negative then f_neg temp_c else temp_c)\<rparr>
     in aobj\<lparr>t_frame := fr\<rparr>)"

definition am2302_init ::
    "TemperatureHumidityObject \<Rightarrow> eStatus \<times> TemperatureHumidityObject" where
  "am2302_init aobj =
    (let (status, g, s) = hal_gpio_set_direction eTEMPERATURE_HUMIDITY_GPIO_DEVICE
                            (ucast eGPIO_INPUT) (t_gpio aobj) (t_os aobj);
         aobj = aobj\<lparr>t_gpio := g, t_os := s\<rparr>
     in if status = eSTATUS_SUCCESSFUL
        then let (now, s) = am2302_get_time_us s
             in (status, aobj\<lparr>t_last_read_tick := now, t_os := s\<rparr>)
        else (status, aobj))"

definition am2302_read ::
    "TemperatureHumidityObject \<Rightarrow> (eStatus \<times> TemperatureHumidityObject) option" where
  "am2302_read aobj =
    (case am2302_send_read_request (t_gpio aobj) (t_os aobj) of
       None \<Rightarrow> None
     | Some (status, g, s) \<Rightarrow>
        let aobj = aobj\<lparr>t_gpio := g, t_os := s\<rparr>
        in if status \<noteq> eSTATUS_SUCCESSFUL then Some (status, aobj)
           else (case am2302_wait_for_response g s of
                   None \<Rightarrow> None
                 | Some (status, s) \<Rightarrow>
                    let aobj = aobj\<lparr>t_os := s\<rparr>
                    in if status \<noteq> eSTATUS_SUCCESSFUL then Some (status, aobj)
                       else (case am2302_read_frame g s of
                               None \<Rightarrow> None
                             | Some (status, fr, s) \<Rightarrow>
                                let aobj = aobj\<lparr>t_resp_frame := fr, t_os := s\<rparr>
                                in if status \<noteq> eSTATUS_SUCCESSFUL then Some (status, aobj)
                                   else if \<not> am2302_parity_check fr
                                   then Some (eSTATUS_ACTION_FAILED, aobj)
                                   else Some (eSTATUS_SUCCESSFUL, am2302_decode_frame aobj fr))))"

section \<open>State functions\<close>

definition temperature_humidity_init_state :: "(TempHumState, TemperatureHumidityObject) StateFP" where
  "temperature_humidity_init_state T ev f =
    (let aobj = fsm_arg f
     in if etype ev = eFSM_EVENT_INIT
        then let aobj = aobj\<lparr>t_frame := (t_frame aobj)\<lparr>thf_valid := False\<rparr>\<rparr>;
                 (status, aobj) = am2302_init aobj
             in if failed status then T temperature_humidity_error (f\<lparr>fsm_arg := aobj\<rparr>)
                else T temperature_humidity_idle (f\<lparr>fsm_arg := aobj\<rparr>)
        else Some f)"

definition temperature_humidity_error_state :: "(TempHumState, TemperatureHumidityObject) StateFP" where
  "temperature_humidity_error_state T ev f =
    (let aobj = fsm_arg f
     in if etype ev = eFSM_EVENT_ENTRY
        then Some (f\<lparr>fsm_arg := aobj\<lparr>t_frame := (t_frame aobj)\<lparr>thf_valid := False\<rparr>\<rparr>\<rparr>)
        else Some f)"

definition temperature_humidity_idle_state :: "(TempHumState, TemperatureHumidityObject) StateFP" where
  "temperature_humidity_idle_state T ev f =
    (let aobj = fsm_arg f
     in if etype ev = eFSM_EVENT_ENTRY then Some (f\<lparr>fsm_arg := aobj\<lparr>t_retry := 0\<rparr>\<rparr>)
        else if etype ev = eTEMPERATURE_HUMIDITY_EVENT_READ then T temperature_humidity_read f
        else Some f)"

text \<open>The do-while loop of the READ entry; every iteration is one transaction with the sensor.\<close>

partial_function (option) read_retry_loop ::
    "TemperatureHumidityObject \<Rightarrow> (eStatus \<times> TemperatureHumidityObject) option" where
  "read_retry_loop aobj =
    (case am2302_read aobj of
       None \<Rightarrow> None
     | Some (status, aobj) \<Rightarrow>
        if failed status
        then let aobj = aobj\<lparr>t_retry := t_retry aobj + 1\<rparr>
             in if t_retry aobj < eTEMPERATURE_HUMIDITY_RETRY_MAX then read_retry_loop aobj
                else Some (status, aobj)
        else let aobj = aobj\<lparr>t_frame := (t_frame aobj)\<lparr>thf_valid := True\<rparr>\<rparr>;
                 (now, s) = am2302_get_time_us (t_os aobj)
             in Some (status, aobj\<lparr>t_last_read_tick := now, t_os := s\<rparr>))"

definition read_entry :: "TemperatureHumidityObject \<Rightarrow> TemperatureHumidityObject option" where
  "read_entry aobj =
    (let (now, s) = am2302_get_time_us (t_os aobj);
         aobj = aobj\<lparr>t_os := s\<rparr>
     in if AM2302_MIN_READ_INTERVAL_MS * 1000 < now - t_last_read_tick aobj
        then (case read_retry_loop aobj of
                None \<Rightarrow> None
              | Some (status, aobj) \<Rightarrow>
                 if failed status then Some (aobj\<lparr>t_frame := (t_frame aobj)\<lparr>thf_valid := False\<rparr>\<rparr>)
                 else Some aobj)
        else Some aobj)"

definition temperature_humidity_read_state :: "(TempHumState, TemperatureHumidityObject) StateFP" where
  "temperature_humidity_read_state T ev f =
    (if etype ev = eFSM_EVENT_ENTRY
     then (case read_entry (fsm_arg f) of
             None \<Rightarrow> None
           | Some aobj \<Rightarrow> T temperature_humidity_idle (f\<lparr>fsm_arg := aobj\<rparr>))
     else Some f)"

fun temp_hum_states :: "TempHumState \<Rightarrow> (TempHumState, TemperatureHumidityObject) StateFP" where
  "temp_hum_states temperature_humidity_init = temperature_humidity_init_state"
| "temp_hum_states temperature_humidity_error = temperature_humidity_error_state"
| "temp_hum_states temperature_humidity_idle = temperature_humidity_idle_state"
| "temp_hum_states temperature_humidity_read = temperature_humidity_read_state"

lemmas temp_hum_state_defs = temperature_humidity_init_state_def temperature_humidity_error_state_def
  temperature_humidity_idle_state_def temperature_humidity_read_state_def

section \<open>The module\<close>

type_synonym temp_hum_ao = "(TempHumState, TemperatureHumidityObject) ActiveObject"

definition ddl_temperature_humidity_init ::
    "TemperatureHumidityFrame option \<Rightarrow> temp_hum_ao \<Rightarrow> os \<Rightarrow> eStatus \<times> temp_hum_ao \<times> os" where
  "ddl_temperature_humidity_init frame a s =
    (case frame of
       None \<Rightarrow> (eSTATUS_NULL_PARAM, a, s)
     | Some fr \<Rightarrow>
        (let a = a\<lparr>active_fsm := (active_fsm a)\<lparr>fsm_arg :=
                     (fsm_arg (active_fsm a))\<lparr>t_frame := fr, t_retry := 0\<rparr>\<rparr>\<rparr>;
             (st, r, s) = util_active_object_init (Some a) eTEMPERATURE_HUMIDITY_QUEUE_CAPACITY
                            (Some temperature_humidity_init) s
         in (st, the r, s)))"

definition ddl_temperature_humidity_post ::
    "Event option \<Rightarrow> temp_hum_ao \<Rightarrow> os \<Rightarrow> eStatus \<times> temp_hum_ao option \<times> os" where
  "ddl_temperature_humidity_post event a s = util_active_object_post (Some a) event s"

definition ddl_temperature_humidity_end ::
    "temp_hum_ao \<Rightarrow> os \<Rightarrow> eStatus \<times> temp_hum_ao option \<times> os" where
  "ddl_temperature_humidity_end a s = util_active_object_end (Some a) s"

definition ddl_temperature_humidity_join :: "temp_hum_ao \<Rightarrow> os \<Rightarrow> os" where
  "ddl_temperature_humidity_join a s = util_active_object_join a s"

definition ddl_temperature_humidity_delete :: "temp_hum_ao \<Rightarrow> os \<Rightarrow> os" where
  "ddl_temperature_humidity_delete a s = util_active_object_delete a s"

section \<open>The calls return\<close>

definition us_time :: "os \<Rightarrow> nat \<Rightarrow> u64" where
  "us_time s n = tv_sec (os_clock s n) * 1000000 + tv_nsec (os_clock s n) div 1000"

text \<open>After every reading of the clock, the timeouts of the driver (at most 300 microseconds) and a
  millisecond eventually pass.\<close>

definition clock_ok :: "os \<Rightarrow> bool" where
  "clock_ok s \<longleftrightarrow> (\<forall>n t. t \<le> 300 \<longrightarrow> (\<exists>m>n. us_time s n + t \<le> us_time s m)) \<and>
    (\<forall>n. \<exists>m>n. 1000000 \<le> clock_ns s m - clock_ns s n)"

lemma clock_ok_cong: "os_clock s' = os_clock s \<Longrightarrow> clock_ok s' = clock_ok s"
  by (simp add: clock_ok_def us_time_def clock_ns_def)

lemma clock_ok_mono: "clock_ok s \<Longrightarrow> os_clock s' = os_clock s \<Longrightarrow> clock_ok s'"
  using clock_ok_cong by blast

lemma am2302_get_time_us_eq:
  "am2302_get_time_us s = (us_time s (os_reads s), s\<lparr>os_reads := Suc (os_reads s)\<rparr>)"
  by (simp add: am2302_get_time_us_def us_time_def Let_def)

lemma hal_gpio_read_clock:
  "hal_gpio_read d b g s = (st, b', s') \<Longrightarrow> os_clock s' = os_clock s \<and> os_reads s' = os_reads s"
  by (auto simp: hal_gpio_read_def ask_def Let_def split: if_splits)

lemma hal_gpio_set_direction_clock:
  "hal_gpio_set_direction d dir g s = (st, g', s') \<Longrightarrow> os_clock s' = os_clock s"
  by (auto simp: hal_gpio_set_direction_def ask_def Let_def split: if_splits)

text \<open>What the polling loop returns.\<close>

definition wait_result :: "u64 \<Rightarrow> os \<Rightarrow> eStatus \<times> u64 option \<times> os \<Rightarrow> bool" where
  "wait_result deadline s r \<longleftrightarrow>
    (case r of (st, ts, s') \<Rightarrow>
       os_clock s' = os_clock s \<and>
       (st = eSTATUS_SUCCESSFUL \<and> ts \<noteq> None \<or> st = eSTATUS_DEVICE_ERROR \<or>
        st = eSTATUS_ACTION_FAILED \<and> (\<exists>n\<ge>os_reads s. deadline \<le> us_time s n)))"

lemma am2302_wait_loop_result:
  assumes "am2302_wait_loop g lv deadline s = Some r"
  shows "wait_result deadline s r"
proof (rule am2302_wait_loop.raw_induct [OF _ assms, where P = "\<lambda>g lv deadline s r. wait_result deadline s r"])
  fix f g lv deadline s r
  assume IH: "\<And>g lv deadline s r. f g lv deadline s = Some r \<Longrightarrow> wait_result deadline s r"
    and eq: "(let (status, level, s) = hal_gpio_read eTEMPERATURE_HUMIDITY_GPIO_DEVICE (Some 0) g s
       in if status \<noteq> eSTATUS_SUCCESSFUL then Some (eSTATUS_DEVICE_ERROR, None, s)
          else let (now, s) = am2302_get_time_us s
          in if the level = lv then Some (eSTATUS_SUCCESSFUL, Some now, s)
             else if deadline \<le> now then Some (eSTATUS_ACTION_FAILED, None, s)
             else f g lv deadline s) = Some r"
  obtain status level s1 where g: "hal_gpio_read eTEMPERATURE_HUMIDITY_GPIO_DEVICE (Some 0) g s
      = (status, level, s1)" by (metis prod_cases3)
  note c = hal_gpio_read_clock [OF g]
  define s2 where "s2 = s1\<lparr>os_reads := Suc (os_reads s1)\<rparr>"
  have us: "us_time s2 = us_time s" "us_time s1 = us_time s"
    using c by (simp_all add: s2_def us_time_def fun_eq_iff)
  show "wait_result deadline s r"
  proof (cases "status = eSTATUS_SUCCESSFUL \<and> the level \<noteq> lv \<and> \<not> deadline \<le> us_time s1 (os_reads s1)")
    case True
    then have "f g lv deadline s2 = Some r"
      using eq g by (simp add: am2302_get_time_us_eq s2_def)
    from IH [OF this] show ?thesis
      using c us by (auto simp: wait_result_def s2_def dest: Suc_leD)
  next
    case False
    then show ?thesis
      using eq g c us by (auto simp: wait_result_def am2302_get_time_us_eq split: if_splits)
  qed
qed

lemma am2302_wait_loop_returns:
  assumes "deadline \<le> us_time s m" and "os_reads s \<le> m"
  shows "\<exists>r. am2302_wait_loop g lv deadline s = Some r"
  using assms
proof (induction "m - os_reads s" arbitrary: s)
  case 0
  then have m: "m = os_reads s" by simp
  obtain status level s1 where g: "hal_gpio_read eTEMPERATURE_HUMIDITY_GPIO_DEVICE (Some 0) g s
      = (status, level, s1)" by (metis prod_cases3)
  have "us_time s1 = us_time s"
    using hal_gpio_read_clock [OF g] by (simp add: us_time_def fun_eq_iff)
  then show ?case
    using 0 m g hal_gpio_read_clock [OF g]
    by (subst am2302_wait_loop.simps) (simp add: am2302_get_time_us_eq)
next
  case (Suc k)
  obtain status level s1 where g: "hal_gpio_read eTEMPERATURE_HUMIDITY_GPIO_DEVICE (Some 0) g s
      = (status, level, s1)" by (metis prod_cases3)
  note c = hal_gpio_read_clock [OF g]
  define s2 where "s2 = s1\<lparr>os_reads := Suc (os_reads s1)\<rparr>"
  have "us_time s2 = us_time s" using c by (simp add: us_time_def s2_def fun_eq_iff)
  then have "\<exists>r. am2302_wait_loop g lv deadline s2 = Some r"
    using Suc c by (intro Suc.hyps(1)) (auto simp: s2_def)
  then show ?case
    using g by (subst am2302_wait_loop.simps) (auto simp: am2302_get_time_us_eq s2_def)
qed

lemma am2302_wait_for_level_returns:
  assumes "clock_ok s" and "timeout \<le> 300"
  obtains st ts s' where "am2302_wait_for_level g lv timeout s = Some (st, ts, s')"
    "os_clock s' = os_clock s" "st = eSTATUS_SUCCESSFUL \<Longrightarrow> ts \<noteq> None"
    "st = eSTATUS_SUCCESSFUL \<or> st = eSTATUS_DEVICE_ERROR \<or> st = eSTATUS_ACTION_FAILED"
proof -
  let ?s = "s\<lparr>os_reads := Suc (os_reads s)\<rparr>"
  let ?d = "us_time s (os_reads s) + timeout"
  have us: "us_time ?s = us_time s" by (simp add: us_time_def fun_eq_iff)
  obtain m where "m \<ge> Suc (os_reads s)" "?d \<le> us_time s m"
    using assms unfolding clock_ok_def by (metis Suc_leI)
  then have "\<exists>r. am2302_wait_loop g lv ?d ?s = Some r"
    using am2302_wait_loop_returns [of ?d ?s m g lv] us by simp
  then obtain r where r: "am2302_wait_loop g lv ?d ?s = Some r" by blast
  from am2302_wait_loop_result [OF r] r show thesis
    by (cases r) (auto simp: wait_result_def am2302_wait_for_level_def am2302_get_time_us_eq
        intro!: that)
qed

lemma am2302_send_read_request_returns:
  assumes "clock_ok s"
  obtains st g' s' where "am2302_send_read_request g s = Some (st, g', s')" "os_clock s' = os_clock s"
proof -
  obtain st g1 s1 where a: "hal_gpio_set_direction eTEMPERATURE_HUMIDITY_GPIO_DEVICE (ucast eGPIO_OUTPUT) g s
      = (st, g1, s1)" by (metis prod_cases3)
  note c = hal_gpio_set_direction_clock [OF a]
  have ms: "AM2302_START_SIGNAL_HOLD_MS * 1000 * 1000 = 1000000"
    by (simp add: AM2302_START_SIGNAL_HOLD_MS_def)
  have "clock_ok s1" using assms clock_ok_cong [OF c] by simp
  then obtain m where "m > os_reads s1" "1000000 \<le> clock_ns s1 m - clock_ns s1 (os_reads s1)"
    unfolding clock_ok_def by blast
  then obtain s2 where d: "osal_delay_ms AM2302_START_SIGNAL_HOLD_MS s1 = Some s2"
    using osal_delay_us_returns_iff [of "AM2302_START_SIGNAL_HOLD_MS * 1000" s1]
    by (auto simp: osal_delay_ms_def ms)
  have c2: "os_clock s2 = os_clock s1"
    using d by (auto simp: osal_delay_ms_def osal_delay_us_def monotonic_ns_eq
        dest!: delay_loop_sound)
  obtain st2 g2 s3 where b: "hal_gpio_set_direction eTEMPERATURE_HUMIDITY_GPIO_DEVICE (ucast eGPIO_INPUT) g1 s2
      = (st2, g2, s3)" by (metis prod_cases3)
  show thesis
  proof (cases "st = eSTATUS_SUCCESSFUL")
    case True
    then show thesis
      using a d b c c2 hal_gpio_set_direction_clock [OF b]
      by (intro that [of st2 g2 s3]) (simp_all add: am2302_send_read_request_def)
  next
    case False
    then show thesis
      using a c by (intro that [of st g1 s1]) (simp_all add: am2302_send_read_request_def)
  qed
qed

lemma timeouts_small:
  "AM2302_RESPONSE_TIMEOUT_US \<le> 300" "AM2302_RESPONSE_PHASE_TIMEOUT_US \<le> 300"
  "AM2302_BIT_TIMEOUT_US \<le> 300"
  by (simp_all add: AM2302_RESPONSE_TIMEOUT_US_def AM2302_RESPONSE_PHASE_TIMEOUT_US_def
      AM2302_BIT_TIMEOUT_US_def)

lemma am2302_wait_for_response_returns:
  assumes "clock_ok s"
  obtains st s' where "am2302_wait_for_response g s = Some (st, s')" "os_clock s' = os_clock s"
proof -
  obtain st ts s1 where a: "am2302_wait_for_level g 0 AM2302_RESPONSE_TIMEOUT_US s = Some (st, ts, s1)"
    "os_clock s1 = os_clock s" by (rule am2302_wait_for_level_returns [OF assms timeouts_small(1)])
  obtain st2 ts2 s2 where b: "am2302_wait_for_level g 1 AM2302_RESPONSE_PHASE_TIMEOUT_US s1
      = Some (st2, ts2, s2)" "os_clock s2 = os_clock s1"
    by (rule am2302_wait_for_level_returns [OF clock_ok_mono [OF assms a(2)] timeouts_small(2)])
  obtain st3 ts3 s3 where c: "am2302_wait_for_level g 0 AM2302_RESPONSE_PHASE_TIMEOUT_US s2
      = Some (st3, ts3, s3)" "os_clock s3 = os_clock s2"
    by (rule am2302_wait_for_level_returns [OF clock_ok_mono [OF clock_ok_mono [OF assms a(2)] b(2)] timeouts_small(2)])
  have "\<exists>st s'. am2302_wait_for_response g s = Some (st, s') \<and> os_clock s' = os_clock s"
    by (simp add: am2302_wait_for_response_def a b c)
  then show thesis using that by blast
qed

lemma am2302_read_bit_returns:
  assumes "clock_ok s"
  obtains st b s' where "am2302_read_bit g s = Some (st, b, s')" "os_clock s' = os_clock s"
proof -
  obtain st ts s1 where a: "am2302_wait_for_level g 1 AM2302_BIT_TIMEOUT_US s = Some (st, ts, s1)"
    "os_clock s1 = os_clock s" by (rule am2302_wait_for_level_returns [OF assms timeouts_small(3)])
  obtain st2 ts2 s2 where b: "am2302_wait_for_level g 0 AM2302_BIT_TIMEOUT_US s1
      = Some (st2, ts2, s2)" "os_clock s2 = os_clock s1"
    by (rule am2302_wait_for_level_returns [OF clock_ok_mono [OF assms a(2)] timeouts_small(3)])
  have "\<exists>st b s'. am2302_read_bit g s = Some (st, b, s') \<and> os_clock s' = os_clock s"
    by (auto simp: am2302_read_bit_def a b)
  then show thesis using that by blast
qed

lemma read_frame_bits_returns:
  "clock_ok s \<Longrightarrow> \<exists>st bytes' s'. read_frame_bits is g bytes s = Some (st, bytes', s') \<and>
    os_clock s' = os_clock s"
proof (induction "is" arbitrary: bytes s)
  case (Cons i "is")
  obtain st b s1 where a: "am2302_read_bit g s = Some (st, b, s1)" "os_clock s1 = os_clock s"
    by (rule am2302_read_bit_returns [OF Cons.prems])
  then have "clock_ok s1" using Cons.prems clock_ok_cong by blast
  then show ?case using Cons.IH [of s1 "store_bit i b bytes"] a by auto
qed simp

text \<open>A transaction returns; it does not touch the retry count, the time of the last read or the
  validity of the frame.\<close>

lemma am2302_read_returns:
  assumes "clock_ok (t_os a)"
  obtains st a' where "am2302_read a = Some (st, a')" "os_clock (t_os a') = os_clock (t_os a)"
proof -
  obtain st1 g1 s1 where x: "am2302_send_read_request (t_gpio a) (t_os a) = Some (st1, g1, s1)"
    "os_clock s1 = os_clock (t_os a)" by (rule am2302_send_read_request_returns [OF assms])
  have "clock_ok s1" using assms clock_ok_cong [OF x(2)] by simp
  then obtain st2 s2 where y: "am2302_wait_for_response g1 s1 = Some (st2, s2)"
    "os_clock s2 = os_clock s1" by (rule am2302_wait_for_response_returns)
  have "clock_ok s2" using \<open>clock_ok s1\<close> clock_ok_cong [OF y(2)] by simp
  then obtain st3 bs s3 where z: "read_frame_bits [0..<AM2302_BIT_COUNT] g1
      (replicate AM2302_BYTE_COUNT 0) s2 = Some (st3, bs, s3)" "os_clock s3 = os_clock s2"
    using read_frame_bits_returns by blast
  have "\<exists>st a'. am2302_read a = Some (st, a') \<and> os_clock (t_os a') = os_clock (t_os a)"
    using x y z
    by (simp add: am2302_read_def am2302_read_frame_def Let_def am2302_decode_frame_def)
  then show thesis using that by blast
qed

lemma am2302_read_result:
  assumes "am2302_read a = Some (st, a')"
  shows "t_retry a' = t_retry a" "t_last_read_tick a' = t_last_read_tick a"
    "thf_valid (t_frame a') = thf_valid (t_frame a)"
    "if failed st then t_frame a' = t_frame a
     else am2302_parity_check (t_resp_frame a') \<and>
       t_frame a' = t_frame (am2302_decode_frame a (t_resp_frame a'))"
  using assms
  by (auto simp: am2302_read_def Let_def am2302_decode_frame_def split: option.splits if_splits)

lemma read_retry_loop_result:
  assumes "read_retry_loop a = Some r"
  shows "case r of (st, a') \<Rightarrow> unat (t_retry a) < 3 \<longrightarrow>
    (if failed st then t_retry a' = 3 \<and> t_last_read_tick a' = t_last_read_tick a \<and> t_frame a' = t_frame a
     else unat (t_retry a') < 3 \<and> unat (t_retry a) \<le> unat (t_retry a') \<and> thf_valid (t_frame a') \<and>
       am2302_parity_check (t_resp_frame a') \<and>
       thf_temperature (t_frame a') = thf_temperature (t_frame (am2302_decode_frame a' (t_resp_frame a'))) \<and>
       thf_humidity (t_frame a') = thf_humidity (t_frame (am2302_decode_frame a' (t_resp_frame a'))))"
  (is "?P a r")
proof (rule read_retry_loop.raw_induct [OF _ assms, where P = ?P])
  fix f a r
  assume IH: "\<And>a r. f a = Some r \<Longrightarrow> ?P a r"
    and eq: "(case am2302_read a of
       None \<Rightarrow> None
     | Some (status, aobj) \<Rightarrow>
        if failed status
        then let aobj = aobj\<lparr>t_retry := t_retry aobj + 1\<rparr>
             in if t_retry aobj < eTEMPERATURE_HUMIDITY_RETRY_MAX then f aobj else Some (status, aobj)
        else let aobj = aobj\<lparr>t_frame := (t_frame aobj)\<lparr>thf_valid := True\<rparr>\<rparr>;
                 (now, s) = am2302_get_time_us (t_os aobj)
             in Some (status, aobj\<lparr>t_last_read_tick := now, t_os := s\<rparr>)) = Some r"
  obtain st b where rd: "am2302_read a = Some (st, b)" using eq by (cases "am2302_read a") auto
  note res = am2302_read_result [OF rd]
  define c where "c = b\<lparr>t_retry := t_retry b + 1\<rparr>"
  have inc: "unat (t_retry a) < 3 \<Longrightarrow> unat (t_retry a + 1) = Suc (unat (t_retry a))"
    by (simp add: unat_word_ariths)
  show "?P a r"
  proof (cases "failed st \<and> t_retry c < eTEMPERATURE_HUMIDITY_RETRY_MAX")
    case True
    then have "f c = Some r" using eq rd by (simp add: c_def)
    from IH [OF this] show ?thesis
      using res True inc
      by (auto simp: c_def eTEMPERATURE_HUMIDITY_RETRY_MAX_def word_less_nat_alt split: prod.splits
          if_splits)
  next
    case False
    have three: "unat (t_retry a) < 3 \<Longrightarrow> \<not> t_retry a + 1 < 3 \<Longrightarrow> t_retry a + 1 = 3"
      using inc by (simp add: word_less_nat_alt word_unat_eq_iff)
    show ?thesis
      using eq rd res False three
      by (auto simp: c_def eTEMPERATURE_HUMIDITY_RETRY_MAX_def am2302_get_time_us_eq
          am2302_decode_frame_def Let_def split: if_splits)
  qed
qed

lemma read_retry_loop_returns_small:
  "clock_ok (t_os a) \<Longrightarrow> unat (t_retry a) < 3 \<Longrightarrow>
    \<exists>st a'. read_retry_loop a = Some (st, a') \<and> os_clock (t_os a') = os_clock (t_os a)"
proof (induction "3 - unat (t_retry a)" arbitrary: a rule: less_induct)
  case less
  obtain st b where rd: "am2302_read a = Some (st, b)" "os_clock (t_os b) = os_clock (t_os a)"
    by (rule am2302_read_returns [OF less.prems(1)])
  note res = am2302_read_result [OF rd(1)]
  define c where "c = b\<lparr>t_retry := t_retry b + 1\<rparr>"
  have inc: "unat (t_retry c) = Suc (unat (t_retry a))"
    using less.prems(2) res(1) by (simp add: c_def unat_word_ariths)
  show ?case
  proof (cases "failed st \<and> t_retry c < eTEMPERATURE_HUMIDITY_RETRY_MAX")
    case True
    then have "unat (t_retry c) < 3"
      by (simp add: eTEMPERATURE_HUMIDITY_RETRY_MAX_def word_less_nat_alt)
    moreover have "clock_ok (t_os c)"
      using less.prems(1) clock_ok_cong [OF rd(2)] by (simp add: c_def)
    ultimately obtain st' d where "read_retry_loop c = Some (st', d)"
      "os_clock (t_os d) = os_clock (t_os c)"
      using less.hyps [of c] inc less.prems(2) by fastforce
    then show ?thesis
      using rd True by (subst read_retry_loop.simps) (simp add: c_def)
  next
    case False
    then show ?thesis
      using rd by (subst read_retry_loop.simps) (auto simp: c_def am2302_get_time_us_eq)
  qed
qed

lemma read_retry_loop_returns:
  assumes "clock_ok (t_os a)"
  shows "\<exists>st a'. read_retry_loop a = Some (st, a') \<and> os_clock (t_os a') = os_clock (t_os a)"
proof -
  obtain st b where rd: "am2302_read a = Some (st, b)" "os_clock (t_os b) = os_clock (t_os a)"
    by (rule am2302_read_returns [OF assms])
  define c where "c = b\<lparr>t_retry := t_retry b + 1\<rparr>"
  have ck: "clock_ok (t_os c)" using assms clock_ok_cong [OF rd(2)] by (simp add: c_def)
  show ?thesis
  proof (cases "failed st \<and> t_retry c < eTEMPERATURE_HUMIDITY_RETRY_MAX")
    case True
    then have "unat (t_retry c) < 3"
      by (simp add: eTEMPERATURE_HUMIDITY_RETRY_MAX_def word_less_nat_alt)
    then obtain st' d where "read_retry_loop c = Some (st', d)" "os_clock (t_os d) = os_clock (t_os c)"
      using read_retry_loop_returns_small [OF ck] by blast
    then show ?thesis
      using rd True by (subst read_retry_loop.simps) (simp add: c_def)
  next
    case False
    then show ?thesis
      using rd by (subst read_retry_loop.simps) (auto simp: c_def am2302_get_time_us_eq)
  qed
qed

lemma read_entry_returns:
  assumes "clock_ok (t_os a)"
  shows "\<exists>a'. read_entry a = Some a' \<and> os_clock (t_os a') = os_clock (t_os a)"
proof -
  define b where "b = a\<lparr>t_os := (t_os a)\<lparr>os_reads := Suc (os_reads (t_os a))\<rparr>\<rparr>"
  have c: "os_clock (t_os b) = os_clock (t_os a)" by (simp add: b_def)
  obtain st d where "read_retry_loop b = Some (st, d)" "os_clock (t_os d) = os_clock (t_os b)"
    using read_retry_loop_returns [of b] assms clock_ok_cong [OF c] by auto
  then show ?thesis
    using c
    by (cases "failed st") (simp_all add: read_entry_def am2302_get_time_us_eq b_def [symmetric] Let_def)
qed

section \<open>The contract\<close>

fun temp_hum_rank :: "TempHumState \<Rightarrow> nat" where
  "temp_hum_rank temperature_humidity_read = 1"
| "temp_hum_rank st = 0"

lemma am2302_init_clock: "am2302_init a = (st, a') \<Longrightarrow> os_clock (t_os a') = os_clock (t_os a)"
  by (auto simp: am2302_init_def Let_def am2302_get_time_us_eq split: prod.splits if_splits
      dest: hal_gpio_set_direction_clock)

lemma temp_hum_read_total:
  assumes "clock_ok (t_os (fsm_arg f))"
    and "\<And>a'. clock_ok (t_os a') \<Longrightarrow> \<exists>f''. T temperature_humidity_idle (f\<lparr>fsm_arg := a'\<rparr>) = Some f'' \<and> P f''"
  shows "\<exists>f''. (case read_entry (fsm_arg f) of None \<Rightarrow> None
      | Some aobj \<Rightarrow> T temperature_humidity_idle (f\<lparr>fsm_arg := aobj\<rparr>)) = Some f'' \<and> P f''"
proof -
  obtain a' where "read_entry (fsm_arg f) = Some a'" "clock_ok (t_os a')"
    using read_entry_returns [OF assms(1)] clock_ok_mono assms(1) by blast
  then show ?thesis using assms(2) by simp
qed

interpretation temp_hum: fsm_machine temp_hum_states "\<lambda>a. clock_ok (t_os a)" temp_hum_rank 1
proof (unfold_locales, goal_cases)
  case (1 st)
  then show ?case by (cases st) simp_all
next
  case (2 f st T)
  then show ?case
    by (cases st) (simp_all add: temp_hum_state_defs fsm_codes Let_def)
next
  case (3 f st T)
  show ?case
  proof (cases st)
    case temperature_humidity_read
    then show ?thesis
      using 3 temp_hum_read_total [of f T "\<lambda>f'. clock_ok (t_os (fsm_arg f')) \<and> current_state f' \<noteq> None"]
      by (simp add: temp_hum_state_defs)
  qed (use 3 in \<open>auto simp: temp_hum_state_defs fsm_codes Let_def\<close>)
next
  case (4 f st T ev)
  show ?case
  proof (cases st)
    case temperature_humidity_init
    obtain status b where b: "am2302_init ((fsm_arg f)\<lparr>t_frame := (t_frame (fsm_arg f))\<lparr>thf_valid := False\<rparr>\<rparr>)
        = (status, b)" by fastforce
    then have "clock_ok (t_os b)" using am2302_init_clock [OF b] 4(2) by (simp add: clock_ok_mono)
    then show ?thesis
      using 4 b temperature_humidity_init by (auto simp: temp_hum_state_defs Let_def)
  next
    case temperature_humidity_read
    then show ?thesis
      using 4 temp_hum_read_total [of f T "\<lambda>f'. clock_ok (t_os (fsm_arg f')) \<and> current_state f' \<noteq> None"]
      by (simp add: temp_hum_state_defs)
  qed (use 4 in \<open>auto simp: temp_hum_state_defs Let_def\<close>)
next
  case (5 T T' st ev f f')
  then show ?case
    by (cases st) (auto simp: temp_hum_state_defs Let_def split: prod.splits if_splits option.splits)
qed

section \<open>Bits and values\<close>

text \<open>The byte formed by bits, most significant first.\<close>

definition msb_byte :: "bool list \<Rightarrow> u8" where
  "msb_byte bs = fold (\<lambda>b w. push_bit 1 w OR (if b then 1 else 0)) bs 0"

definition pack_bits :: "bool list \<Rightarrow> u8 list" where
  "pack_bits bs = map (\<lambda>j. msb_byte (take 8 (drop (8 * j) bs))) [0..<AM2302_BYTE_COUNT]"

lemma pack_bits_snoc:
  assumes "length bs < 40"
  shows "pack_bits (bs @ [b]) = store_bit (length bs) b (pack_bits bs)"
proof -
  let ?i = "length bs div 8"
  have i: "?i < 5" using assms by simp
  have "msb_byte (take 8 (drop (8 * j) (bs @ [b])))
      = (if j = ?i then push_bit 1 (msb_byte (take 8 (drop (8 * j) bs))) OR (if b then 1 else 0)
         else msb_byte (take 8 (drop (8 * j) bs)))" for j
  proof (cases "j = ?i")
    case True
    have "8 * j \<le> length bs" "length bs - 8 * j < 8" using True by auto
    then have "take 8 (drop (8 * j) (bs @ [b])) = drop (8 * j) bs @ [b]"
      "take 8 (drop (8 * j) bs) = drop (8 * j) bs" by auto
    then show ?thesis using True by (simp add: msb_byte_def)
  next
    case False
    then consider "j < ?i" | "?i < j" by linarith
    then have "take 8 (drop (8 * j) (bs @ [b])) = take 8 (drop (8 * j) bs)"
    proof cases
      case 1
      then have "8 * j + 8 \<le> length bs" by linarith
      then show ?thesis by simp
    next
      case 2
      then have "length bs < 8 * j" by linarith
      then show ?thesis by simp
    qed
    then show ?thesis using False by (simp del: take_append drop_append)
  qed
  then show ?thesis
    using i by (auto simp: pack_bits_def store_bit_def AM2302_BYTE_COUNT_def list_eq_iff_nth_eq
        nth_list_update)
qed

section \<open>The levels on the line\<close>

text \<open>The indices of the samples that the driver takes of the line: the first one from \<open>p\<close> on with the first
  level, the first one after it with the second level, and so on.\<close>

fun edges :: "(nat \<Rightarrow> int) \<Rightarrow> nat \<Rightarrow> int list \<Rightarrow> nat list \<Rightarrow> bool" where
  "edges line p [] [] \<longleftrightarrow> True"
| "edges line p (l # ls) (i # is) \<longleftrightarrow>
    p \<le> i \<and> (\<forall>k\<in>{p..<i}. line k \<noteq> l) \<and> line i = l \<and> edges line (Suc i) ls is"
| "edges line p _ _ \<longleftrightarrow> False"

text \<open>The eighty-three edges of a transaction: the response of the sensor, then rise and fall of forty pulses.\<close>

definition wire_levels :: "int list" where
  "wire_levels = [0, 1, 0] @ concat (replicate 40 [1, 0])"

text \<open>The time that the clock showed at edge \<open>j\<close>: the clock is read once when a wait starts and once after
  every sample.\<close>

definition edge_time :: "os \<Rightarrow> nat list \<Rightarrow> nat \<Rightarrow> u64" where
  "edge_time s is j = us_time s (os_reads s + (is ! j - os_asked s) + j + 1)"

text \<open>The operating system after the edge at sample \<open>i\<close>, the last of \<open>n\<close> edges.\<close>

definition after_edge :: "os \<Rightarrow> nat \<Rightarrow> nat \<Rightarrow> os" where
  "after_edge s n i = s\<lparr>os_asked := Suc i, os_reads := os_reads s + (Suc i - os_asked s) + n\<rparr>"

definition edge_found :: "os \<Rightarrow> int \<Rightarrow> u64 option \<Rightarrow> os \<Rightarrow> bool" where
  "edge_found s l ts s' \<longleftrightarrow> (\<exists>i\<ge>os_asked s. (\<forall>k\<in>{os_asked s..<i}. os_answers s k \<noteq> l) \<and> os_answers s i = l \<and>
    ts = Some (us_time s (os_reads s + (i - os_asked s))) \<and> s' = after_edge s 0 i)"

text \<open>After one sample.\<close>

definition polled :: "os \<Rightarrow> os" where
  "polled s = s\<lparr>os_asked := Suc (os_asked s), os_reads := Suc (os_reads s)\<rparr>"

lemma edge_found_now:
  "os_answers s (os_asked s) = l \<Longrightarrow> edge_found s l (Some (us_time s (os_reads s))) (polled s)"
  unfolding edge_found_def by (rule exI [of _ "os_asked s"]) (simp add: after_edge_def polled_def)

lemma edge_found_later:
  assumes "os_answers s (os_asked s) \<noteq> l" and "edge_found (polled s) l ts s'"
  shows "edge_found s l ts s'"
proof -
  obtain i where i: "Suc (os_asked s) \<le> i" "\<forall>k\<in>{Suc (os_asked s)..<i}. os_answers s k \<noteq> l"
    "os_answers s i = l" "ts = Some (us_time (polled s) (Suc (os_reads s) + (i - Suc (os_asked s))))"
    "s' = after_edge (polled s) 0 i"
    using assms(2) by (auto simp: edge_found_def polled_def)
  have "os_answers s k \<noteq> l" if "k \<in> {os_asked s..<i}" for k
    using i(2) that assms(1) by (cases "k = os_asked s") auto
  moreover have "ts = Some (us_time s (os_reads s + (i - os_asked s)))"
    using i(1,4) by (simp add: polled_def us_time_def Suc_diff_Suc [symmetric])
  moreover have "s' = after_edge s 0 i" using i(1,5) by (simp add: after_edge_def polled_def)
  ultimately show ?thesis using i(1,3) unfolding edge_found_def by (intro exI [of _ i]) auto
qed

lemma wait_loop_edge:
  assumes "am2302_wait_loop g l deadline s = Some (eSTATUS_SUCCESSFUL, ts, s')"
  shows "edge_found s l ts s'"
proof -
  let ?P = "\<lambda>g l deadline s r. case r of (st, ts, s') \<Rightarrow> st = eSTATUS_SUCCESSFUL \<longrightarrow> edge_found s l ts s'"
  have "?P g l deadline s (eSTATUS_SUCCESSFUL, ts, s')"
  proof (rule am2302_wait_loop.raw_induct [OF _ assms, where P = ?P])
    fix f g l deadline s r
    assume IH: "\<And>g l deadline s r. f g l deadline s = Some r \<Longrightarrow> ?P g l deadline s r"
      and eq: "(let (status, level, s) = hal_gpio_read eTEMPERATURE_HUMIDITY_GPIO_DEVICE (Some 0) g s
         in if status \<noteq> eSTATUS_SUCCESSFUL then Some (eSTATUS_DEVICE_ERROR, None, s)
            else let (now, s) = am2302_get_time_us s
            in if the level = l then Some (eSTATUS_SUCCESSFUL, Some now, s)
               else if deadline \<le> now then Some (eSTATUS_ACTION_FAILED, None, s)
               else f g l deadline s) = Some r"
    obtain status level s1 where g: "hal_gpio_read eTEMPERATURE_HUMIDITY_GPIO_DEVICE (Some 0) g s
        = (status, level, s1)" by (metis prod_cases3)
    have ok: "level = Some (os_answers s (os_asked s))" "s1 = s\<lparr>os_asked := Suc (os_asked s)\<rparr>"
      if "status = eSTATUS_SUCCESSFUL"
      using g that by (auto simp: hal_gpio_read_def ask_def Let_def split: if_splits)
    have now: "am2302_get_time_us (s\<lparr>os_asked := Suc (os_asked s)\<rparr>) = (us_time s (os_reads s), polled s)"
      by (simp add: am2302_get_time_us_eq polled_def us_time_def)
    show "?P g l deadline s r"
    proof (cases "status = eSTATUS_SUCCESSFUL")
      case True
      then show ?thesis
        using eq g ok [OF True] now edge_found_now [of s l] edge_found_later [of s l] IH [of g l deadline "polled s" r]
        by (auto split: if_splits)
    qed (use eq g in auto)
  qed
  then show ?thesis by simp
qed

lemma wait_for_level_edge:
  assumes "am2302_wait_for_level g l timeout s = Some (eSTATUS_SUCCESSFUL, ts, s')"
  shows "\<exists>i. edges (os_answers s) (os_asked s) [l] [i] \<and> ts = Some (edge_time s [i] 0) \<and> s' = after_edge s 1 i"
proof -
  let ?s = "s\<lparr>os_reads := Suc (os_reads s)\<rparr>"
  have "am2302_wait_loop g l (us_time s (os_reads s) + timeout) ?s = Some (eSTATUS_SUCCESSFUL, ts, s')"
    using assms by (simp add: am2302_wait_for_level_def am2302_get_time_us_eq)
  from wait_loop_edge [OF this, unfolded edge_found_def] obtain i where "i \<ge> os_asked s" "\<forall>k\<in>{os_asked s..<i}. os_answers s k \<noteq> l"
    "os_answers s i = l" "ts = Some (us_time ?s (os_reads ?s + (i - os_asked s)))" "s' = after_edge ?s 0 i"
    by auto
  then show ?thesis by (intro exI [of _ i]) (simp add: edge_time_def after_edge_def us_time_def)
qed

text \<open>A stretch of the transaction that saw the given levels, and where it left the operating system.\<close>

definition edge_run :: "os \<Rightarrow> int list \<Rightarrow> nat list \<Rightarrow> os \<Rightarrow> bool" where
  "edge_run s ls is s' \<longleftrightarrow> edges (os_answers s) (os_asked s) ls is \<and>
    s' = (if is = [] then s else after_edge s (length is) (last is))"

lemma edges_length: "edges line p ls is \<Longrightarrow> length is = length ls"
  by (induction line p ls "is" rule: edges.induct) simp_all

lemma edges_ge: "edges line p ls is \<Longrightarrow> i \<in> set is \<Longrightarrow> p \<le> i"
  by (induction line p ls "is" rule: edges.induct) auto

lemma edges_append:
  "edges line p ls is \<Longrightarrow> edges line (if is = [] then p else Suc (last is)) ms js \<Longrightarrow>
    edges line p (ls @ ms) (is @ js)"
  by (induction line p ls "is" rule: edges.induct) (auto split: if_splits)

lemma edge_run_append:
  assumes "edge_run s ls is s1" and "edge_run s1 ms js s2"
  shows "edge_run s (ls @ ms) (is @ js) s2"
    and "j < length is \<Longrightarrow> edge_time s (is @ js) j = edge_time s is j"
    and "j < length js \<Longrightarrow> edge_time s (is @ js) (length is + j) = edge_time s1 js j"
proof -
  have e: "edges (os_answers s) (os_asked s) ls is" and e1: "edges (os_answers s1) (os_asked s1) ms js"
    using assms by (simp_all add: edge_run_def)
  have last: "os_asked s \<le> last is" if "is \<noteq> []" using edges_ge [OF e] that by simp
  have later: "Suc (last is) \<le> i" if "is \<noteq> []" "i \<in> set js" for i
    using edges_ge [OF e1 that(2)] that(1) assms(1) by (simp add: edge_run_def after_edge_def)
  have a: "edges (os_answers s) (os_asked s) (ls @ ms) (is @ js)"
    using edges_append [OF e, of ms js] e1 assms(1)
    by (cases "is = []") (simp_all add: edge_run_def after_edge_def)
  show "edge_run s (ls @ ms) (is @ js) s2"
    using a assms last later [of "last js"] by (auto simp: edge_run_def after_edge_def)
  show "edge_time s (is @ js) j = edge_time s is j" if "j < length is"
    using that by (simp add: edge_time_def nth_append)
  show "edge_time s (is @ js) (length is + j) = edge_time s1 js j" if "j < length js"
  proof (cases "is = []")
    case True
    then show ?thesis using assms(1) by (simp add: edge_run_def edge_time_def)
  next
    case False
    have s1: "s1 = after_edge s (length is) (last is)" using assms(1) False by (simp add: edge_run_def)
    have "os_reads s + (js ! j - os_asked s) + (length is + j) + 1 = os_reads s1 + (js ! j - os_asked s1) + j + 1"
      using last [OF False] later [OF False, of "js ! j"] that by (simp add: s1 after_edge_def)
    moreover have "us_time s1 = us_time s" by (simp add: s1 after_edge_def us_time_def fun_eq_iff)
    ultimately show ?thesis by (simp only: edge_time_def nth_append_length_plus)
  qed
qed

lemma wait_for_level_run:
  "am2302_wait_for_level g l timeout s = Some (eSTATUS_SUCCESSFUL, ts, s') \<Longrightarrow>
    \<exists>i. edge_run s [l] [i] s' \<and> ts = Some (edge_time s [i] 0)"
  using wait_for_level_edge [of g l timeout s ts s'] by (auto simp: edge_run_def)

lemma wait_for_response_run:
  assumes "am2302_wait_for_response g s = Some (eSTATUS_SUCCESSFUL, s')"
  shows "\<exists>is. edge_run s [0, 1, 0] is s'"
proof -
  obtain t1 s1 t2 s2 t3 where w: "am2302_wait_for_level g 0 AM2302_RESPONSE_TIMEOUT_US s = Some (eSTATUS_SUCCESSFUL, t1, s1)"
    "am2302_wait_for_level g 1 AM2302_RESPONSE_PHASE_TIMEOUT_US s1 = Some (eSTATUS_SUCCESSFUL, t2, s2)"
    "am2302_wait_for_level g 0 AM2302_RESPONSE_PHASE_TIMEOUT_US s2 = Some (eSTATUS_SUCCESSFUL, t3, s')"
    using assms by (auto simp: am2302_wait_for_response_def split: option.splits if_splits)
  from w [THEN wait_for_level_run] obtain i j k where "edge_run s [0] [i] s1" "edge_run s1 [1] [j] s2"
    "edge_run s2 [0] [k] s'" by blast
  from edge_run_append(1) [OF edge_run_append(1) [OF this(1,2)] this(3)] show ?thesis by auto
qed

lemma read_bit_run:
  assumes "am2302_read_bit g s = Some (eSTATUS_SUCCESSFUL, b, s')"
  shows "\<exists>i j. edge_run s [1, 0] [i, j] s' \<and> b = (50 < edge_time s [i, j] 1 - edge_time s [i, j] 0)"
proof -
  obtain t1 s1 t2 where w: "am2302_wait_for_level g 1 AM2302_BIT_TIMEOUT_US s = Some (eSTATUS_SUCCESSFUL, t1, s1)"
    "am2302_wait_for_level g 0 AM2302_BIT_TIMEOUT_US s1 = Some (eSTATUS_SUCCESSFUL, t2, s')"
    "b = (AM2302_BIT_THRESHOLD_US < the t2 - the t1)"
    using assms by (auto simp: am2302_read_bit_def split: option.splits if_splits)
  obtain i j where r: "edge_run s [1] [i] s1" "edge_run s1 [0] [j] s'"
    "t1 = Some (edge_time s [i] 0)" "t2 = Some (edge_time s1 [j] 0)"
    using w(1,2) [THEN wait_for_level_run] by blast
  note a = edge_run_append [OF r(1,2)]
  have "edge_run s [1, 0] [i, j] s'" "edge_time s [i, j] 0 = edge_time s [i] 0"
    "edge_time s [i, j] 1 = edge_time s1 [j] 0"
    using a(1) a(2) [of 0] a(3) [of 0] by simp_all
  then show ?thesis
    using w(3) r(3,4) by (intro exI [of _ i] exI [of _ j]) (simp add: AM2302_BIT_THRESHOLD_US_def)
qed

text \<open>The bits of a stretch of pulses.\<close>

definition pulse_bits :: "os \<Rightarrow> nat list \<Rightarrow> nat \<Rightarrow> nat \<Rightarrow> bool list" where
  "pulse_bits s is j n = map (\<lambda>k. 50 < edge_time s is (j + 2 * k + 1) - edge_time s is (j + 2 * k)) [0..<n]"

lemma pulse_bits_append:
  assumes "edge_run s ls is s1" and "edge_run s1 ms js s2" and "2 * n \<le> length js"
  shows "pulse_bits s (is @ js) (length is) n = pulse_bits s1 js 0 n"
proof -
  have "edge_time s (is @ js) (length is + 2 * k) = edge_time s1 js (2 * k)"
    "edge_time s (is @ js) (length is + 2 * k + 1) = edge_time s1 js (2 * k + 1)" if "k < n" for k
    using edge_run_append(3) [OF assms(1,2), of "2 * k"] edge_run_append(3) [OF assms(1,2), of "2 * k + 1"]
      that assms(3) by simp_all
  then show ?thesis by (simp add: pulse_bits_def)
qed

lemma pulse_bits_Suc:
  "pulse_bits s is 0 (Suc n) = (50 < edge_time s is 1 - edge_time s is 0) # pulse_bits s is 2 n"
  by (simp add: pulse_bits_def upt_conv_Cons map_Suc_upt [symmetric] del: upt_Suc)

lemma read_frame_bits_run:
  assumes "read_frame_bits [k..<40] g (pack_bits acc) s = Some (eSTATUS_SUCCESSFUL, bytes, s')"
    and "length acc = k" and "k \<le> 40"
  shows "\<exists>is. edge_run s (concat (replicate (40 - k) [1, 0])) is s' \<and>
    bytes = pack_bits (acc @ pulse_bits s is 0 (40 - k))"
  using assms
proof (induction "40 - k" arbitrary: k acc s)
  case 0
  then show ?case by (intro exI [of _ "[]"]) (simp add: edge_run_def pulse_bits_def)
next
  case (Suc m)
  then have k: "k < 40" by simp
  then have up: "[k..<40] = k # [Suc k..<40]" by (simp add: upt_conv_Cons)
  have m: "40 - k = Suc (40 - Suc k)" and mk: "m = 40 - Suc k" using k Suc.hyps(2) by simp_all
  from Suc.prems(1) obtain b s1 where b: "am2302_read_bit g s = Some (eSTATUS_SUCCESSFUL, b, s1)"
    and rest: "read_frame_bits [Suc k..<40] g (store_bit k b (pack_bits acc)) s1
      = Some (eSTATUS_SUCCESSFUL, bytes, s')"
    unfolding up by (auto split: option.splits if_splits prod.splits)
  have "store_bit k b (pack_bits acc) = pack_bits (acc @ [b])"
    using pack_bits_snoc [of acc b] Suc.prems(2) k by simp
  then obtain js where js: "edge_run s1 (concat (replicate (40 - Suc k) [1, 0])) js s'"
    "bytes = pack_bits ((acc @ [b]) @ pulse_bits s1 js 0 (40 - Suc k))"
    using Suc.hyps(1) [OF mk, of "acc @ [b]" s1] Suc.prems(2) rest k by auto
  from read_bit_run [OF b] obtain i j where ij: "edge_run s [1, 0] [i, j] s1"
    "b = (50 < edge_time s [i, j] 1 - edge_time s [i, j] 0)" by blast
  note a = edge_run_append [OF ij(1) js(1)]
  have l: "length js = 2 * (40 - Suc k)"
    using edges_length [of _ _ _ js] js(1) by (auto simp: edge_run_def length_concat sum_list_replicate)
  have "pulse_bits s ([i, j] @ js) 0 (40 - k) = b # pulse_bits s1 js 0 (40 - Suc k)"
    using pulse_bits_append [OF ij(1) js(1), of "40 - Suc k"] a(2) [of 0] a(2) [of 1] l
    unfolding m pulse_bits_Suc by (simp add: ij(2) numeral_2_eq_2)
  then show ?case
    using a(1) js(2) unfolding m by (intro exI [of _ "[i, j] @ js"]) simp
qed

lemma read_frame_run:
  assumes "am2302_read_frame g s = Some (eSTATUS_SUCCESSFUL, fr, s')"
  shows "\<exists>is. edge_run s (concat (replicate 40 [1, 0])) is s' \<and> fr = frame_of_bytes (pack_bits (pulse_bits s is 0 40))"
proof -
  have z: "replicate AM2302_BYTE_COUNT 0 = pack_bits []"
    by (simp add: pack_bits_def AM2302_BYTE_COUNT_def msb_byte_def map_replicate_const)
  obtain bytes where "read_frame_bits [0..<40] g (pack_bits []) s = Some (eSTATUS_SUCCESSFUL, bytes, s')"
    "fr = frame_of_bytes bytes"
    using assms by (auto simp: am2302_read_frame_def z AM2302_BIT_COUNT_def split: option.splits)
  then show ?thesis using read_frame_bits_run [of 0 g "[]" s bytes s'] by auto
qed

lemma transaction_run:
  assumes "am2302_wait_for_response g s = Some (eSTATUS_SUCCESSFUL, s1)"
    and "am2302_read_frame g s1 = Some (eSTATUS_SUCCESSFUL, fr, s2)"
  shows "\<exists>is. edges (os_answers s) (os_asked s) wire_levels is \<and>
    fr = frame_of_bytes (pack_bits (pulse_bits s is 3 40))"
proof -
  obtain as bs where r: "edge_run s [0, 1, 0] as s1" "edge_run s1 (concat (replicate 40 [1, 0])) bs s2"
    "fr = frame_of_bytes (pack_bits (pulse_bits s1 bs 0 40))"
    using wait_for_response_run [OF assms(1)] read_frame_run [OF assms(2)] by blast
  have l: "length as = 3" "length bs = 80"
    using edges_length r(1,2) by (fastforce simp: edge_run_def length_concat sum_list_replicate)+
  have "edge_run s wire_levels (as @ bs) s2"
    using edge_run_append(1) [OF r(1,2)] by (simp only: wire_levels_def)
  moreover have "pulse_bits s (as @ bs) 3 40 = pulse_bits s1 bs 0 40"
    using pulse_bits_append [OF r(1,2), of 40] l by simp
  ultimately show ?thesis using r(3) by (auto simp: edge_run_def)
qed

text \<open>The value of a tenth-unit field, to single precision.\<close>

lemma tenths_value:
  assumes "n < 2 ^ 16"
  shows "\<exists>x. f_div fl32 (fl32 (of_nat n)) (Fin 10) = Fin x \<and>
    \<bar>x - of_nat n / 10\<bar> \<le> of_nat n / 10 / 2 ^ 24 \<and> 0 \<le> x"
proof -
  have c: "fl32 (of_nat n) = Fin (of_nat n)" using fl32_int [of "int n"] assms by simp
  define x where "x = (of_nat n / 10 :: rat)"
  have "(of_int (int n) :: rat) \<le> of_int (2 ^ 16)" using assms by (subst of_int_le_iff) simp
  then have x: "0 \<le> x" "x \<le> of_int (2 ^ 16)" by (simp_all add: x_def)
  have r: "fl32 x = Fin (rnd32 x)" using fl32_Fin [of x "2 ^ 16"] x by simp
  have "\<bar>rnd32 x - x\<bar> \<le> x / 2 ^ 24"
  proof (cases "n = 0")
    case False
    then have "1 / 10 \<le> x" by (simp add: x_def divide_right_mono)
    moreover have "(2 :: rat) powi (- 126) \<le> 2 powi (- 4)" by (rule two_powi_le) simp
    moreover have "(2 :: rat) powi (- 4) \<le> 1 / 10" by (simp add: power_int_def power_one_over)
    ultimately show ?thesis using rnd32_error [of x] x by linarith
  qed (simp add: x_def)
  moreover have "0 \<le> rnd32 x" using rnd32_ge [of 0 x] x by simp
  moreover have "f_div fl32 (fl32 (of_nat n)) (Fin 10) = Fin (rnd32 x)"
    using r by (simp add: c x_def)
  ultimately show ?thesis unfolding x_def by blast
qed

text \<open>The decoded values of four bytes: humidity unsigned, temperature in sign and magnitude.\<close>

definition humidity_tenths :: "TempHumFrame \<Rightarrow> nat" where
  "humidity_tenths f = 256 * unat (humidity_hi f) + unat (humidity_lo f)"

definition temperature_tenths :: "TempHumFrame \<Rightarrow> nat" where
  "temperature_tenths f = 256 * (unat (temperature_hi f) mod 128) + unat (temperature_lo f)"

lemma word_pair:
  "unat (push_bit 8 (ucast (a :: u8)) OR ucast (b :: u8) :: u16) = 256 * unat a + unat b"
proof -
  have "(push_bit 8 (ucast a) AND ucast b :: u16) = 0" by (rule bit_word_eqI) (auto simp: bit_simps)
  then have e: "(push_bit 8 (ucast a) OR ucast b :: u16) = push_bit 8 (ucast a) + ucast b"
    by (simp add: disjunctive_add_eq_or)
  have n: "(push_bit 8 (ucast a) + ucast b :: u16) = of_nat (256 * unat a + unat b)"
    by (simp add: push_bit_eq_mult)
  have "256 * unat a + unat b < 2 ^ 16"
    using unat_lt_2p [of a] unat_lt_2p [of b] by simp
  then show ?thesis unfolding e n by (intro unat_of_nat_small) simp
qed

lemma word_pair_sign:
  "(push_bit 8 (ucast (a :: u8)) OR ucast (b :: u8) :: u16) AND 0x8000 \<noteq> 0 \<longleftrightarrow> bit a 7"
proof -
  let ?w = "push_bit 8 (ucast a) OR ucast b :: u16"
  have "?w AND 0x8000 \<noteq> 0 \<longleftrightarrow> bit ?w 15"
    using and_exp_eq_0_iff_not_bit [of ?w 15] by simp
  then show ?thesis by (simp add: bit_simps)
qed

lemma word_pair_magnitude:
  "unat ((push_bit 8 (ucast (a :: u8)) OR ucast (b :: u8) :: u16) AND 0x7FFF)
    = 256 * (unat a mod 128) + unat b"
proof -
  let ?w = "push_bit 8 (ucast a) OR ucast b :: u16"
  have "?w AND 0x7FFF = take_bit 15 ?w" by (simp add: take_bit_eq_mask mask_numeral)
  then have "unat (?w AND 0x7FFF) = take_bit 15 (unat ?w)" by (simp only: unsigned_take_bit_eq)
  also have "\<dots> = (256 * unat a + unat b) mod 32768" by (simp only: word_pair) (simp add: take_bit_eq_mod)
  also have "\<dots> = 256 * (unat a mod 128) + unat b"
  proof -
    have "256 * (unat a mod 128) + unat b < 32768"
    proof -
      have "unat b < 256" using unat_lt_2p [of b] by simp
      moreover have "unat a mod 128 < 128" by simp
      ultimately show ?thesis by linarith
    qed
    moreover have "(256 * unat a + unat b) mod 32768 = (256 * (unat a mod 128) + unat b) mod 32768"
    proof -
      have "unat a = 128 * (unat a div 128) + unat a mod 128" by simp
      then have "256 * unat a + unat b = 32768 * (unat a div 128) + (256 * (unat a mod 128) + unat b)"
        by linarith
      then show ?thesis by (metis mod_mult_self4 add.commute mult.commute)
    qed
    ultimately show ?thesis by simp
  qed
  finally show ?thesis .
qed

lemma decode_frame_values:
  "\<exists>h m. thf_humidity (t_frame (am2302_decode_frame a f)) = Fin h \<and>
    \<bar>h - of_nat (humidity_tenths f) / 10\<bar> \<le> of_nat (humidity_tenths f) / 10 / 2 ^ 24 \<and>
    thf_temperature (t_frame (am2302_decode_frame a f))
      = Fin (if bit (temperature_hi f) 7 then - m else m) \<and> 0 \<le> m \<and>
    \<bar>m - of_nat (temperature_tenths f) / 10\<bar> \<le> of_nat (temperature_tenths f) / 10 / 2 ^ 24"
proof -
  have "humidity_tenths f < 2 ^ 16"
    using unat_lt_2p [of "humidity_hi f"] unat_lt_2p [of "humidity_lo f"]
    by (simp add: humidity_tenths_def)
  then obtain h where h: "f_div fl32 (fl32 (of_nat (humidity_tenths f))) (Fin 10) = Fin h"
    "\<bar>h - of_nat (humidity_tenths f) / 10\<bar> \<le> of_nat (humidity_tenths f) / 10 / 2 ^ 24"
    using tenths_value by blast
  have "temperature_tenths f < 2 ^ 16"
    using unat_lt_2p [of "temperature_lo f"] mod_less_divisor [of 128 "unat (temperature_hi f)"]
    by (simp add: temperature_tenths_def)
  then obtain m where m: "f_div fl32 (fl32 (of_nat (temperature_tenths f))) (Fin 10) = Fin m"
    "\<bar>m - of_nat (temperature_tenths f) / 10\<bar> \<le> of_nat (temperature_tenths f) / 10 / 2 ^ 24" "0 \<le> m"
    using tenths_value by blast
  have hum: "thf_humidity (t_frame (am2302_decode_frame a f)) = Fin h"
    using h(1) unfolding am2302_decode_frame_def Let_def humidity_tenths_def word_pair by simp
  have "thf_temperature (t_frame (am2302_decode_frame a f))
      = (if bit (temperature_hi f) 7 then f_neg (Fin m) else Fin m)"
    using m(1) unfolding am2302_decode_frame_def Let_def temperature_tenths_def word_pair_magnitude
      word_pair_sign by simp
  then show ?thesis using hum h(2) m(2,3) by auto
qed

section \<open>Properties\<close>

text \<open>A clock that advances by a microsecond per reading, a line that answers every poll with the level
  waited for, and an object of a program that starts.\<close>

definition ticking_clock :: "nat \<Rightarrow> timespec" where
  "ticking_clock n = \<lparr>tv_sec = of_nat (n div 1000000), tv_nsec = of_nat (n mod 1000000 * 1000)\<rparr>"

definition demo_line :: os where
  "demo_line = boot_os (\<lambda>n. if even n then 0 else 1) ticking_clock"

definition demo_temp_hum :: TemperatureHumidityObject where
  "demo_temp_hum = \<lparr>t_frame = temp_hum_frame zero_ddl_frame, t_retry = 0,
     t_resp_frame = frame_of_bytes [0, 0, 0, 0, 0], t_last_read_tick = 0, t_gpio = static_gpio,
     t_os = demo_line\<rparr>"

lemma ticking_us_time:
  assumes "os_clock s = ticking_clock"
  shows "us_time s n = of_nat n"
proof -
  have "unat (of_nat (n mod 1000000 * 1000) :: u64) = n mod 1000000 * 1000"
    by (rule unat_of_nat_small) (use mod_less_divisor [of 1000000 n] in simp)
  then have "(of_nat (n mod 1000000 * 1000) :: u64) div 1000 = of_nat (n mod 1000000)"
    by (simp add: word_unat_eq_iff unat_div unat_of_nat_small del: of_nat_mult)
  then have "us_time s n = of_nat (n div 1000000) * 1000000 + of_nat (n mod 1000000)"
    using assms by (simp add: us_time_def ticking_clock_def)
  also have "\<dots> = of_nat (n div 1000000 * 1000000 + n mod 1000000)"
    by (simp only: of_nat_add of_nat_mult of_nat_numeral)
  finally show ?thesis by (simp only: div_mult_mod_eq)
qed

lemma ticking_clock_ns:
  assumes "os_clock s = ticking_clock"
  shows "clock_ns s n = of_nat (1000 * n)"
proof -
  have "clock_ns s n = of_nat (n div 1000000 * 1000000000 + n mod 1000000 * 1000)"
    using assms by (simp add: clock_ns_def ticking_clock_def)
  moreover have "n div 1000000 * 1000000000 + n mod 1000000 * 1000 = 1000 * n"
    using div_mult_mod_eq [of n 1000000] by linarith
  ultimately show ?thesis by (simp only:)
qed

lemma ticking_clock_ok: "os_clock s = ticking_clock \<Longrightarrow> clock_ok s"
proof -
  assume c: "os_clock s = ticking_clock"
  have "\<exists>m>n. us_time s n + t \<le> us_time s m" for n and t :: u64
  proof (intro exI conjI)
    show "n < n + unat t + 2 ^ 64" by simp
    have "(of_nat (2 ^ 64) :: u64) = 0" unfolding word_of_nat_eq_0_iff by simp
    then have "(of_nat (n + unat t + 2 ^ 64) :: u64) = of_nat n + t"
      by (simp only: of_nat_add add_0_right of_nat_unat ucast_id)
    then show "us_time s n + t \<le> us_time s (n + unat t + 2 ^ 64)"
      by (simp only: ticking_us_time [OF c] order_refl)
  qed
  moreover have "\<exists>m>n. 1000000 \<le> clock_ns s m - clock_ns s n" for n
    by (rule exI [of _ "n + 1000"]) (simp add: ticking_clock_ns [OF c] algebra_simps)
  ultimately show "clock_ok s" by (simp add: clock_ok_def)
qed

text \<open>The driver never hangs: although a read busy-waits on the line and on the clock, every
  sequence of events is handled to its end by the nested state functions, as long as the clock
  advances and whatever the line answers.\<close>

lemma temp_hum_terminates:
  assumes "current_state f \<noteq> None" and "clock_ok (t_os (fsm_arg f))"
  shows "\<exists>f'. fsm_run temp_hum_states (n + 3) evs f = Some f' \<and> current_state f' \<noteq> None"
  using temp_hum.run_total [OF assms, of "n + 3" evs] by auto

lemma temp_hum_terminates_witness:
  "\<exists>f'. fsm_run temp_hum_states 3 (replicate 5 \<lparr>etype = eTEMPERATURE_HUMIDITY_EVENT_READ\<rparr>)
     \<lparr>current_state = Some temperature_humidity_idle, fsm_arg = demo_temp_hum\<rparr> = Some f'"
proof -
  let ?f = "\<lparr>current_state = Some temperature_humidity_idle, fsm_arg = demo_temp_hum\<rparr>"
  have c: "clock_ok (t_os (fsm_arg ?f))"
    by (rule ticking_clock_ok) (simp add: demo_temp_hum_def demo_line_def boot_os_def)
  have "current_state ?f \<noteq> None" by simp
  from temp_hum_terminates [OF this c, of 0 "replicate 5 \<lparr>etype = eTEMPERATURE_HUMIDITY_EVENT_READ\<rparr>"]
  show ?thesis by (auto simp del: fsm_run.simps replicate.simps)
qed

text \<open>C21. The line becomes the values. After its request, a read that succeeds has seen on the samples of
  the line the low, high and low level of the response and then forty pulses, rise and fall; bit \<open>n\<close> is
  set exactly when the clock showed more than 50 microseconds between rise and fall of pulse \<open>n\<close>; the
  five bytes of the frame are these bits, eight to a byte, most significant first; the last byte is the
  sum of the others; and the object has the humidity of the first two bytes and the temperature of the
  next two, in tenths, the top bit being the sign, with a relative error of at most 2 to the -24.\<close>

lemma temp_hum_line_to_values:
  assumes "am2302_read a = Some (eSTATUS_SUCCESSFUL, a')"
  shows "\<exists>g s is h m. am2302_send_read_request (t_gpio a) (t_os a) = Some (eSTATUS_SUCCESSFUL, g, s) \<and>
    edges (os_answers s) (os_asked s) ([0, 1, 0] @ concat (replicate 40 [1, 0])) is \<and>
    (let f = t_resp_frame a';
         bits = map (\<lambda>n. 50 < edge_time s is (2 * n + 4) - edge_time s is (2 * n + 3)) [0..<40]
     in [humidity_hi f, humidity_lo f, temperature_hi f, temperature_lo f, th_parity f]
          = map (\<lambda>j. msb_byte (take 8 (drop (8 * j) bits))) [0, 1, 2, 3, 4] \<and>
        th_parity f = humidity_hi f + humidity_lo f + temperature_hi f + temperature_lo f \<and>
        thf_humidity (t_frame a') = Fin h \<and>
        \<bar>h - of_nat (humidity_tenths f) / 10\<bar> \<le> of_nat (humidity_tenths f) / 10 / 2 ^ 24 \<and>
        thf_temperature (t_frame a') = Fin (if bit (temperature_hi f) 7 then - m else m) \<and> 0 \<le> m \<and>
        \<bar>m - of_nat (temperature_tenths f) / 10\<bar> \<le> of_nat (temperature_tenths f) / 10 / 2 ^ 24)"
proof -
  obtain g s s1 fr s2 where r: "am2302_send_read_request (t_gpio a) (t_os a) = Some (eSTATUS_SUCCESSFUL, g, s)"
    "am2302_wait_for_response g s = Some (eSTATUS_SUCCESSFUL, s1)"
    "am2302_read_frame g s1 = Some (eSTATUS_SUCCESSFUL, fr, s2)" "am2302_parity_check fr"
    and a': "a' = am2302_decode_frame (a\<lparr>t_gpio := g, t_resp_frame := fr, t_os := s2\<rparr>) fr"
    using assms by (auto simp: am2302_read_def Let_def split: option.splits if_splits)
  have f: "t_resp_frame a' = fr" by (simp add: a' am2302_decode_frame_def Let_def)
  obtain "is" where i: "edges (os_answers s) (os_asked s) wire_levels is"
    "fr = frame_of_bytes (pack_bits (pulse_bits s is 3 40))" using transaction_run [OF r(2,3)] by blast
  have bits: "pulse_bits s is 3 40
      = map (\<lambda>n. 50 < edge_time s is (2 * n + 4) - edge_time s is (2 * n + 3)) [0..<40]"
    by (simp add: pulse_bits_def add.commute)
  obtain h m where v: "thf_humidity (t_frame a') = Fin h"
    "\<bar>h - of_nat (humidity_tenths fr) / 10\<bar> \<le> of_nat (humidity_tenths fr) / 10 / 2 ^ 24"
    "thf_temperature (t_frame a') = Fin (if bit (temperature_hi fr) 7 then - m else m)" "0 \<le> m"
    "\<bar>m - of_nat (temperature_tenths fr) / 10\<bar> \<le> of_nat (temperature_tenths fr) / 10 / 2 ^ 24"
    using decode_frame_values [of "a\<lparr>t_gpio := g, t_resp_frame := fr, t_os := s2\<rparr>" fr] unfolding a' by blast
  have p: "[humidity_hi fr, humidity_lo fr, temperature_hi fr, temperature_lo fr, th_parity fr]
      = map (\<lambda>j. msb_byte (take 8 (drop (8 * j) (pulse_bits s is 3 40)))) [0, 1, 2, 3, 4]"
    by (simp add: i(2) frame_of_bytes_def pack_bits_def AM2302_BYTE_COUNT_def upt_conv_Cons)
  have c: "th_parity fr = humidity_hi fr + humidity_lo fr + temperature_hi fr + temperature_lo fr"
    using r(4) by (simp add: am2302_parity_check_def)
  show ?thesis
    unfolding Let_def f
    by (rule exI [of _ g], rule exI [of _ s], rule exI [of _ "is"], rule exI [of _ h], rule exI [of _ m])
      (intro conjI r(1) i(1) [unfolded wire_levels_def] p [unfolded bits] c v)
qed

text \<open>A line that answers every poll with the level waited for.\<close>

lemma wait_immediate:
  assumes "hal_gpio_read eTEMPERATURE_HUMIDITY_GPIO_DEVICE (Some 0) g (s\<lparr>os_reads := Suc (os_reads s)\<rparr>)
      = (eSTATUS_SUCCESSFUL, Some lv, s1)"
  shows "am2302_wait_for_level g lv timeout s = Some (eSTATUS_SUCCESSFUL,
      Some (us_time s1 (os_reads s1)), s1\<lparr>os_reads := Suc (os_reads s1)\<rparr>)"
  using assms
  by (simp add: am2302_wait_for_level_def am2302_get_time_us_eq) (subst am2302_wait_loop.simps,
      simp add: am2302_get_time_us_eq)

lemma demo_poll:
  assumes "os_answers s = os_answers demo_line" and "gpio_devices g = gpio_devices static_gpio"
  shows "hal_gpio_read eTEMPERATURE_HUMIDITY_GPIO_DEVICE (Some 0) g s
    = (eSTATUS_SUCCESSFUL, Some (if even (os_asked s) then 0 else 1), s\<lparr>os_asked := Suc (os_asked s)\<rparr>)"
  using assms
  by (simp add: hal_gpio_read_def ask_def static_gpio_def static_gpio_device_def gpio_codes
      eTEMPERATURE_HUMIDITY_GPIO_DEVICE_def demo_line_def boot_os_def)

lemma demo_wait:
  assumes "os_answers s = os_answers demo_line" and "gpio_devices g = gpio_devices static_gpio"
    and "l = (if even (os_asked s) then 0 else 1)"
  shows "am2302_wait_for_level g l timeout s = Some (eSTATUS_SUCCESSFUL, Some (us_time s (os_reads s + 1)),
    s\<lparr>os_asked := os_asked s + 1, os_reads := os_reads s + 2\<rparr>)"
  using wait_immediate [OF demo_poll [of "s\<lparr>os_reads := Suc (os_reads s)\<rparr>" g]] assms
  by (simp add: us_time_def)

lemma demo_bits:
  "os_answers s = os_answers demo_line \<Longrightarrow> os_clock s = ticking_clock \<Longrightarrow>
    gpio_devices g = gpio_devices static_gpio \<Longrightarrow> odd (os_asked s) \<Longrightarrow> bytes = replicate k 0 \<Longrightarrow>
    \<exists>s'. read_frame_bits is g bytes s = Some (eSTATUS_SUCCESSFUL, bytes, s')"
proof (induction "is" arbitrary: s)
  case (Cons i "is")
  let ?s = "s\<lparr>os_asked := os_asked s + 2, os_reads := os_reads s + 4\<rparr>"
  have us: "us_time t n = of_nat n" if "os_clock t = ticking_clock" for t n
    by (rule ticking_us_time [OF that])
  have "am2302_read_bit g s = Some (eSTATUS_SUCCESSFUL, False, ?s)"
    using Cons.prems by (simp add: am2302_read_bit_def demo_wait AM2302_BIT_THRESHOLD_US_def us)
  moreover have "store_bit i False bytes = bytes"
    using Cons.prems(5) by (cases "i div 8 < k") (simp_all add: store_bit_def list_update_same_conv list_update_beyond)
  ultimately show ?case using Cons.IH [of ?s] Cons.prems by simp
qed simp

lemma demo_request:
  "\<exists>g s. am2302_send_read_request static_gpio (demo_line\<lparr>os_reads := k\<rparr>) = Some (eSTATUS_SUCCESSFUL, g, s) \<and>
     gpio_devices g = gpio_devices static_gpio \<and> os_answers s = os_answers demo_line \<and>
     os_clock s = ticking_clock \<and> even (os_asked s)"
proof -
  let ?out = "static_gpio\<lparr>gpio_levels := (gpio_pin (gpio_devices static_gpio ! 0), 0) # gpio_levels static_gpio,
      gpio_devices := (gpio_devices static_gpio)[0 := (gpio_devices static_gpio ! 0)\<lparr>gpio_direction := eGPIO_OUTPUT\<rparr>]\<rparr>"
  have "hal_gpio_set_direction eTEMPERATURE_HUMIDITY_GPIO_DEVICE (ucast eGPIO_OUTPUT) static_gpio
      (demo_line\<lparr>os_reads := k\<rparr>) = (eSTATUS_SUCCESSFUL, ?out, demo_line\<lparr>os_asked := 1, os_reads := k\<rparr>)"
    by (simp add: hal_gpio_set_direction_def ask_def demo_line_def boot_os_def gpio_codes
        eTEMPERATURE_HUMIDITY_GPIO_DEVICE_def Let_def)
  moreover have "hal_gpio_set_direction eTEMPERATURE_HUMIDITY_GPIO_DEVICE (ucast eGPIO_INPUT) ?out s
      = (eSTATUS_SUCCESSFUL, ?out\<lparr>gpio_devices := gpio_devices static_gpio\<rparr>, s\<lparr>os_asked := Suc (os_asked s)\<rparr>)"
    if "os_answers s = os_answers demo_line" for s
    using that by (simp add: hal_gpio_set_direction_def ask_def demo_line_def boot_os_def gpio_codes
        eTEMPERATURE_HUMIDITY_GPIO_DEVICE_def static_gpio_def static_gpio_device_def)
  moreover obtain n where "osal_delay_ms AM2302_START_SIGNAL_HOLD_MS (demo_line\<lparr>os_asked := 1, os_reads := k\<rparr>)
      = Some (demo_line\<lparr>os_asked := 1, os_reads := n\<rparr>)"
  proof -
    let ?s = "demo_line\<lparr>os_asked := 1, os_reads := k\<rparr>"
    have c: "clock_ns ?s n = of_nat (1000 * n)" for n
      by (rule ticking_clock_ns) (simp add: demo_line_def boot_os_def)
    have z: "os_reads ?s = k" by simp
    have "\<exists>n>os_reads ?s. 1000 * 1000 \<le> clock_ns ?s n - clock_ns ?s (os_reads ?s)"
      unfolding c z by (rule exI [of _ "k + 1000"]) (simp add: algebra_simps)
    then obtain s' where "osal_delay_us 1000 ?s = Some s'" using osal_delay_us_returns_iff by blast
    then show thesis
      using that delay_loop_sound [of _ _ "?s\<lparr>os_reads := Suc (os_reads ?s)\<rparr>" s']
      by (auto simp: osal_delay_ms_def osal_delay_us_def AM2302_START_SIGNAL_HOLD_MS_def monotonic_ns_eq)
  qed
  ultimately show ?thesis
    by (simp add: am2302_send_read_request_def) (simp add: demo_line_def boot_os_def)
qed

lemma demo_read:
  assumes "t_gpio a = static_gpio" and "t_os a = demo_line\<lparr>os_reads := k\<rparr>"
  shows "\<exists>a'. am2302_read a = Some (eSTATUS_SUCCESSFUL, a')"
proof -
  obtain g s where q: "am2302_send_read_request static_gpio (demo_line\<lparr>os_reads := k\<rparr>) = Some (eSTATUS_SUCCESSFUL, g, s)"
    "gpio_devices g = gpio_devices static_gpio" "os_answers s = os_answers demo_line"
    "os_clock s = ticking_clock" "even (os_asked s)" using demo_request by blast
  let ?s = "s\<lparr>os_asked := os_asked s + 3, os_reads := os_reads s + 6\<rparr>"
  have w: "am2302_wait_for_response g s = Some (eSTATUS_SUCCESSFUL, ?s)"
    using q by (simp add: am2302_wait_for_response_def demo_wait)
  obtain s' where "read_frame_bits [0..<AM2302_BIT_COUNT] g (replicate AM2302_BYTE_COUNT 0) ?s
      = Some (eSTATUS_SUCCESSFUL, replicate AM2302_BYTE_COUNT 0, s')"
    using demo_bits [of ?s g "replicate AM2302_BYTE_COUNT 0" AM2302_BYTE_COUNT "[0..<AM2302_BIT_COUNT]"] q by auto
  then have "am2302_read_frame g ?s = Some (eSTATUS_SUCCESSFUL, frame_of_bytes (replicate AM2302_BYTE_COUNT 0), s')"
    by (simp add: am2302_read_frame_def)
  then show ?thesis
    using q(1) w assms by (simp add: am2302_read_def am2302_parity_check_def frame_of_bytes_def AM2302_BYTE_COUNT_def)
qed

lemma temp_hum_line_to_values_witness:
  "\<exists>a'. am2302_read demo_temp_hum = Some (eSTATUS_SUCCESSFUL, a') \<and>
     th_parity (t_resp_frame a') = humidity_hi (t_resp_frame a') + humidity_lo (t_resp_frame a') +
       temperature_hi (t_resp_frame a') + temperature_lo (t_resp_frame a')"
proof -
  have "t_gpio demo_temp_hum = static_gpio" "t_os demo_temp_hum = demo_line\<lparr>os_reads := 0\<rparr>"
    by (simp_all add: demo_temp_hum_def demo_line_def boot_os_def)
  from demo_read [OF this] obtain a' where r: "am2302_read demo_temp_hum = Some (eSTATUS_SUCCESSFUL, a')" by blast
  from temp_hum_line_to_values [OF r] r show ?thesis unfolding Let_def by blast
qed

text \<open>The decoded values: the humidity is the unsigned number of tenths in the first two bytes, the
  temperature the number of tenths in the next two without their top bit, negative exactly when that
  bit is set; both are converted with a relative error of at most 2 to the -24.\<close>

lemma temp_hum_decodes:
  "\<exists>h m. thf_humidity (t_frame (am2302_decode_frame a f)) = Fin h \<and>
    \<bar>h - of_nat (256 * unat (humidity_hi f) + unat (humidity_lo f)) / 10\<bar>
      \<le> of_nat (256 * unat (humidity_hi f) + unat (humidity_lo f)) / 10 / 2 ^ 24 \<and>
    thf_temperature (t_frame (am2302_decode_frame a f))
      = Fin (if bit (temperature_hi f) 7 then - m else m) \<and> 0 \<le> m \<and>
    \<bar>m - of_nat (256 * (unat (temperature_hi f) mod 128) + unat (temperature_lo f)) / 10\<bar>
      \<le> of_nat (256 * (unat (temperature_hi f) mod 128) + unat (temperature_lo f)) / 10 / 2 ^ 24"
  using decode_frame_values [of a f] unfolding humidity_tenths_def temperature_tenths_def .

text \<open>C22. The outcome of a READ: before the minimum interval has passed the clock is read and nothing else
  happens, neither to the object nor on the line; otherwise either a transfer succeeded within three attempts, and the frame is valid and
  decoded from bytes whose checksum holds, or three attempts failed, and the frame is marked invalid
  with its values and the time of the last read unchanged.\<close>

lemma temp_hum_read_outcome:
  assumes "t_retry a = 0" and "read_entry a = Some a'"
  shows "if us_time (t_os a) (os_reads (t_os a)) - t_last_read_tick a \<le> 2000000
    then a' = a\<lparr>t_os := (t_os a)\<lparr>os_reads := Suc (os_reads (t_os a))\<rparr>\<rparr>
    else if thf_valid (t_frame a') \<and> unat (t_retry a') < 3
    then am2302_parity_check (t_resp_frame a') \<and>
      thf_temperature (t_frame a') = thf_temperature (t_frame (am2302_decode_frame a' (t_resp_frame a'))) \<and>
      thf_humidity (t_frame a') = thf_humidity (t_frame (am2302_decode_frame a' (t_resp_frame a')))
    else t_retry a' = 3 \<and> t_frame a' = (t_frame a)\<lparr>thf_valid := False\<rparr> \<and>
      t_last_read_tick a' = t_last_read_tick a"
proof -
  define b where "b = a\<lparr>t_os := (t_os a)\<lparr>os_reads := Suc (os_reads (t_os a))\<rparr>\<rparr>"
  have gate: "AM2302_MIN_READ_INTERVAL_MS * 1000 = 2000000"
    by (simp add: AM2302_MIN_READ_INTERVAL_MS_def)
  show ?thesis
  proof (cases "us_time (t_os a) (os_reads (t_os a)) - t_last_read_tick a \<le> 2000000")
    case True
    then have "\<not> 2000000 < us_time (t_os a) (os_reads (t_os a)) - t_last_read_tick a" by simp
    then have "a' = b"
      using assms(2) by (simp add: read_entry_def am2302_get_time_us_eq gate b_def Let_def)
    then show ?thesis using True assms(1) by (simp add: b_def)
  next
    case False
    then have "2000000 < us_time (t_os a) (os_reads (t_os a)) - t_last_read_tick a" by simp
    then have e: "Some a' = (case read_retry_loop b of None \<Rightarrow> None
        | Some (st, c) \<Rightarrow> Some (if failed st then c\<lparr>t_frame := (t_frame c)\<lparr>thf_valid := False\<rparr>\<rparr> else c))"
      using assms(2)
      by (cases "read_retry_loop b")
        (auto simp: read_entry_def am2302_get_time_us_eq gate b_def [symmetric] Let_def)
    then obtain st c where c: "read_retry_loop b = Some (st, c)"
      by (cases "read_retry_loop b") auto
    have a': "a' = (if failed st then c\<lparr>t_frame := (t_frame c)\<lparr>thf_valid := False\<rparr>\<rparr> else c)"
      using e c by simp
    have "unat (t_retry b) < 3" using assms(1) by (simp add: b_def)
    note r = read_retry_loop_result [OF c, simplified, rule_format, OF this]
    show ?thesis
    proof (cases "failed st")
      case True
      then show ?thesis using r a' False by (simp add: b_def)
    next
      case ok: False
      then show ?thesis using r a' False by (simp add: am2302_decode_frame_def Let_def)
    qed
  qed
qed

lemma temp_hum_read_outcome_witness:
  "read_entry demo_temp_hum = Some (demo_temp_hum\<lparr>t_os := demo_line\<lparr>os_reads := 1\<rparr>\<rparr>) \<and>
   (\<exists>a'. read_entry (demo_temp_hum\<lparr>t_last_read_tick := - 3000000\<rparr>) = Some a' \<and> thf_valid (t_frame a') \<and>
     unat (t_retry a') < 3 \<and> am2302_parity_check (t_resp_frame a'))"
proof
  have os: "t_os demo_temp_hum = demo_line" "os_reads demo_line = 0" "t_last_read_tick demo_temp_hum = 0"
    "t_retry demo_temp_hum = 0" by (simp_all add: demo_temp_hum_def demo_line_def boot_os_def)
  have c: "os_clock demo_line = ticking_clock" by (simp add: demo_line_def boot_os_def)
  obtain a' where r: "read_entry demo_temp_hum = Some a'"
    using read_entry_returns [of demo_temp_hum] ticking_clock_ok [OF c] os(1) by auto
  from temp_hum_read_outcome [OF os(4) r] r
  show "read_entry demo_temp_hum = Some (demo_temp_hum\<lparr>t_os := demo_line\<lparr>os_reads := 1\<rparr>\<rparr>)"
    by (simp add: os ticking_us_time [OF c])
  let ?a = "demo_temp_hum\<lparr>t_last_read_tick := - 3000000\<rparr>"
  let ?b = "?a\<lparr>t_os := demo_line\<lparr>os_reads := 1\<rparr>\<rparr>"
  obtain d where d: "am2302_read ?b = Some (eSTATUS_SUCCESSFUL, d)"
    using demo_read [of ?b 1] by (auto simp: demo_temp_hum_def)
  have us: "us_time demo_line 0 = 0" by (simp add: ticking_us_time [OF c])
  have "read_entry ?a = (case read_retry_loop ?b of None \<Rightarrow> None
      | Some (st, e) \<Rightarrow> if failed st then Some (e\<lparr>t_frame := (t_frame e)\<lparr>thf_valid := False\<rparr>\<rparr>) else Some e)"
    by (simp add: read_entry_def am2302_get_time_us_eq AM2302_MIN_READ_INTERVAL_MS_def os us)
  moreover have "\<exists>e. read_retry_loop ?b = Some (eSTATUS_SUCCESSFUL, e) \<and> thf_valid (t_frame e) \<and> t_retry e = 0"
    using am2302_read_result(1) [OF d] os(4)
    by (subst read_retry_loop.simps) (simp add: d [unfolded One_nat_def] am2302_get_time_us_eq)
  ultimately obtain e where e: "read_entry ?a = Some e" "thf_valid (t_frame e)" "t_retry e = 0" by auto
  have z: "t_retry ?a = 0" using os(4) by simp
  from temp_hum_read_outcome [OF z e(1)] e
  show "\<exists>a'. read_entry ?a = Some a' \<and> thf_valid (t_frame a') \<and> unat (t_retry a') < 3 \<and>
      am2302_parity_check (t_resp_frame a')" by (simp add: os us)
qed

text \<open>C23. The thread of the sensor ends: from any moment at which its loop runs with END in its queue, it
  handles the events queued before END, busy-waiting included, and leaves the loop, provided the
  clock advances.\<close>

lemma temp_hum_thread_ends:
  assumes "ao_inv S" and "sys_phase S = Running"
    and "current_state (active_fsm (sys_ao S)) \<noteq> None" and "clock_ok (t_os (fsm_arg (active_fsm (sys_ao S))))"
    and "queue_list (event_queue (sys_ao S)) = es @ e # rest"
    and "list_all (\<lambda>x. etype x \<noteq> eFSM_EVENT_END) es" and "etype e = eFSM_EVENT_END"
  shows "\<exists>S'. ao_run temp_hum_states (n + 3) S (map Handled es @ [Stopped e]) S' \<and> sys_phase S' = Ended \<and>
    queue_list (event_queue (sys_ao S')) = rest"
  using temp_hum.thread_ends [OF assms(1-4) _ assms(5-7), of "n + 3"] by auto

lemma temp_hum_thread_ends_witness:
  "\<exists>S S'. ao_run temp_hum_states 3 S [Handled \<lparr>etype = eTEMPERATURE_HUMIDITY_EVENT_READ\<rparr>, Stopped end_event] S' \<and>
     sys_phase S' = Ended"
proof -
  let ?e = "\<lparr>etype = eTEMPERATURE_HUMIDITY_EVENT_READ\<rparr> :: Event"
  let ?q = "demo_event_queue\<lparr>q_slots := [Some ?e, Some end_event], q_size := 2\<rparr>"
  let ?S = "\<lparr>sys_ao = \<lparr>ao_thread = 4, event_queue = ?q,
      active_fsm = \<lparr>current_state = Some temperature_humidity_idle, fsm_arg = demo_temp_hum\<rparr>,
      ao_init_state = Some temperature_humidity_init\<rparr>, sys_phase = Running, sys_os = demo_os\<rparr>"
  have l: "queue_list ?q = [?e, end_event]"
    by (simp add: queue_list_def ring_contents_def demo_event_queue_def upt_rec)
  have c: "clock_ok (t_os demo_temp_hum)"
    by (rule ticking_clock_ok) (simp add: demo_temp_hum_def demo_line_def boot_os_def)
  have i: "ao_inv ?S"
    by (simp add: ao_inv_def queue_wf_def queue_usable_def demo_event_queue_def demo_os_def boot_os_def
        ring_contents_def upt_rec)
  have p: "sys_phase ?S = Running" "current_state (active_fsm (sys_ao ?S)) \<noteq> None"
    "clock_ok (t_os (fsm_arg (active_fsm (sys_ao ?S))))"
    "queue_list (event_queue (sys_ao ?S)) = [?e] @ end_event # []"
    "list_all (\<lambda>x. etype x \<noteq> eFSM_EVENT_END) [?e]" "etype end_event = eFSM_EVENT_END"
    using l c by (simp_all add: end_event_def fsm_codes)
  obtain S' where "ao_run temp_hum_states (0 + 3) ?S (map Handled [?e] @ [Stopped end_event]) S' \<and>
      sys_phase S' = Ended \<and> queue_list (event_queue (sys_ao S')) = []"
    using temp_hum_thread_ends [OF i p, of 0] by (rule exE)
  then have "ao_run temp_hum_states 3 ?S [Handled ?e, Stopped end_event] S'" "sys_phase S' = Ended"
    by (simp_all only: add_0 list.map append.simps simp_thms)
  then show ?thesis by (intro exI conjI)
qed

end
