(* ===== verification/Gps.thy ===== *)
theory Gps
  imports DdlFrame
begin

text \<open>
  The GPS receiver, \<^verbatim>\<open>src/src/ddl/gps/\<close>: the UBX frames, the configuration sequence, the state machine
  and the module's interface. As for the distance sensor the object carries the static variables of
  the file, the UART driver and the operating system. The receive buffer is kept as its memory (100
  bytes); a field of the packed struct is a load at its offset, in the byte order \<open>be\<close> of the host.
\<close>

section \<open>Configuration and frames\<close>

definition eGPS_EVENT_READ :: u32 where [fsm_codes]: "eGPS_EVENT_READ = eFSM_EVENT_USER"
definition eGPS_EVENT_TIMEOUT :: u32 where [fsm_codes]: "eGPS_EVENT_TIMEOUT = 5"
definition eGPS_EVENT_FRAME_RECEIVED :: u32 where [fsm_codes]: "eGPS_EVENT_FRAME_RECEIVED = 6"
definition eGPS_EVENT_CONFIGURED :: u32 where [fsm_codes]: "eGPS_EVENT_CONFIGURED = 7"

definition eGPS_QUEUE_CAPACITY :: u32 where "eGPS_QUEUE_CAPACITY = 4"
definition eGPS_READ_RETRY_MAX :: u32 where "eGPS_READ_RETRY_MAX = 3"
definition eGPS_READ_TIMEOUT_MS :: u64 where "eGPS_READ_TIMEOUT_MS = 300"
definition eGPS_UART_DEVICE :: u32 where "eGPS_UART_DEVICE = eUART1_DEVICE"

definition eUBX_SYNC_1 :: u8 where "eUBX_SYNC_1 = 0xB5"
definition eUBX_SYNC_2 :: u8 where "eUBX_SYNC_2 = 0x62"
definition eUBX_CLS_NAV :: u8 where "eUBX_CLS_NAV = 0x01"
definition eUBX_ID_NAV_PVT :: u8 where "eUBX_ID_NAV_PVT = 0x07"
definition eUBX_PVT_PAYLOAD_LEN :: u16 where "eUBX_PVT_PAYLOAD_LEN = 92"
definition eUBX_CLS_CFG :: u8 where "eUBX_CLS_CFG = 0x06"
definition eUBX_ID_CFG_MSG :: u8 where "eUBX_ID_CFG_MSG = 0x01"
definition eUBX_ID_CFG_RATE :: u8 where "eUBX_ID_CFG_RATE = 0x08"
definition eUBX_NMEA_CLASS :: u8 where "eUBX_NMEA_CLASS = 0xF0"

lemmas ubx_codes = eUBX_SYNC_1_def eUBX_SYNC_2_def eUBX_CLS_NAV_def eUBX_ID_NAV_PVT_def
  eUBX_PVT_PAYLOAD_LEN_def eUBX_CLS_CFG_def eUBX_ID_CFG_MSG_def eUBX_ID_CFG_RATE_def
  eUBX_NMEA_CLASS_def

type_synonym UbxNavPvtFrame = "u8 list"

definition sizeof_UbxNavPvtFrame :: nat where "sizeof_UbxNavPvtFrame = 100"

definition ubx_u16 :: "bool \<Rightarrow> nat \<Rightarrow> UbxNavPvtFrame \<Rightarrow> u16" where
  "ubx_u16 be off f = load16 be (take 2 (drop off f))"

definition ubx_u32 :: "bool \<Rightarrow> nat \<Rightarrow> UbxNavPvtFrame \<Rightarrow> u32" where
  "ubx_u32 be off f = load32 be (take 4 (drop off f))"

definition ubx_payload_length :: "bool \<Rightarrow> UbxNavPvtFrame \<Rightarrow> u16" where
  "ubx_payload_length be = ubx_u16 be 4"
definition ubx_i_tow :: "bool \<Rightarrow> UbxNavPvtFrame \<Rightarrow> u32" where "ubx_i_tow be = ubx_u32 be 6"
definition ubx_fix_type :: "UbxNavPvtFrame \<Rightarrow> u8" where "ubx_fix_type f = f ! 26"
definition ubx_num_sv :: "UbxNavPvtFrame \<Rightarrow> u8" where "ubx_num_sv f = f ! 29"
definition ubx_lon :: "bool \<Rightarrow> UbxNavPvtFrame \<Rightarrow> u32" where "ubx_lon be = ubx_u32 be 30"
definition ubx_lat :: "bool \<Rightarrow> UbxNavPvtFrame \<Rightarrow> u32" where "ubx_lat be = ubx_u32 be 34"
definition ubx_height_msl :: "bool \<Rightarrow> UbxNavPvtFrame \<Rightarrow> u32" where "ubx_height_msl be = ubx_u32 be 42"
definition ubx_h_acc :: "bool \<Rightarrow> UbxNavPvtFrame \<Rightarrow> u32" where "ubx_h_acc be = ubx_u32 be 46"

lemmas ubx_fields = ubx_u16_def ubx_u32_def ubx_payload_length_def ubx_i_tow_def ubx_fix_type_def
  ubx_num_sv_def ubx_lon_def ubx_lat_def ubx_height_msl_def ubx_h_acc_def

text \<open>The packed request.\<close>

definition ubx_read_cmd :: "bool \<Rightarrow> u8 list" where
  "ubx_read_cmd be = [eUBX_SYNC_1, eUBX_SYNC_2, eUBX_CLS_NAV, eUBX_ID_NAV_PVT] @ mem16 be 0 @
     [0x08, 0x19]"

definition ubx_checksum :: "u8 list \<Rightarrow> u8 \<times> u8" where
  "ubx_checksum buf = fold (\<lambda>b (ck_a, ck_b). (ck_a + b, ck_b + (ck_a + b))) buf (0, 0)"

text \<open>The C helpers have the same body as those of the distance sensor.\<close>

definition from_little_endian16 :: "bool \<Rightarrow> u16 \<Rightarrow> u16" where
  "from_little_endian16 be w =
    (let buf = mem16 be w in push_bit 0 (ucast (buf ! 0)) OR push_bit 8 (ucast (buf ! 1)))"

definition from_little_endian32 :: "bool \<Rightarrow> u32 \<Rightarrow> u32" where
  "from_little_endian32 be w =
    (let buf = mem32 be w
     in push_bit 0 (ucast (buf ! 0)) OR push_bit 8 (ucast (buf ! 1)) OR
        push_bit 16 (ucast (buf ! 2)) OR push_bit 24 (ucast (buf ! 3)))"

definition from_little_endian_i32 :: "bool \<Rightarrow> u32 \<Rightarrow> int" where
  "from_little_endian_i32 be w = sint (from_little_endian32 be w)"

definition gps_frame_valid :: "bool \<Rightarrow> UbxNavPvtFrame \<Rightarrow> u32 \<Rightarrow> bool" where
  "gps_frame_valid be f old_i_tow =
    (if f ! 0 \<noteq> eUBX_SYNC_1 \<or> f ! 1 \<noteq> eUBX_SYNC_2 then False
     else if f ! 2 \<noteq> eUBX_CLS_NAV \<or> f ! 3 \<noteq> eUBX_ID_NAV_PVT then False
     else if from_little_endian16 be (ubx_payload_length be f) \<noteq> eUBX_PVT_PAYLOAD_LEN then False
     else if from_little_endian32 be (ubx_i_tow be f) = old_i_tow then False
     else let (expected_a, expected_b) = ubx_checksum (take (sizeof_UbxNavPvtFrame - 4) (drop 2 f))
          in if f ! 98 \<noteq> expected_a \<or> f ! 99 \<noteq> expected_b then False else True)"

text \<open>The configuration sequence: class, identifier, payload length and payload (16 bytes).\<close>

record ConfigStep =
  cs_class :: u8
  cs_id :: u8
  cs_length :: u8
  cs_payload :: "u8 list"

definition config_step_of :: "u8 \<Rightarrow> u8 list \<Rightarrow> ConfigStep" where
  "config_step_of msg_id payload = \<lparr>cs_class = eUBX_CLS_CFG, cs_id = msg_id,
     cs_length = of_nat (length payload), cs_payload = payload @ replicate (16 - length payload) 0\<rparr>"

definition config_sequence :: "ConfigStep list" where
  "config_sequence = [
     config_step_of eUBX_ID_CFG_MSG [eUBX_NMEA_CLASS, 0x00, 0x00],
     config_step_of eUBX_ID_CFG_MSG [eUBX_NMEA_CLASS, 0x01, 0x00],
     config_step_of eUBX_ID_CFG_MSG [eUBX_NMEA_CLASS, 0x02, 0x00],
     config_step_of eUBX_ID_CFG_MSG [eUBX_NMEA_CLASS, 0x03, 0x00],
     config_step_of eUBX_ID_CFG_MSG [eUBX_NMEA_CLASS, 0x04, 0x00],
     config_step_of eUBX_ID_CFG_MSG [eUBX_NMEA_CLASS, 0x05, 0x00],
     config_step_of eUBX_ID_CFG_MSG [eUBX_NMEA_CLASS, 0x41, 0x00],
     config_step_of eUBX_ID_CFG_RATE [0xE8, 0x03, 0x01, 0x00, 0x01, 0x00]]"

definition CFG_SEQ_LEN :: u32 where "CFG_SEQ_LEN = of_nat (length config_sequence)"

section \<open>The object\<close>

record GPSObject =
  g_frame :: GPSFrame
  g_timer :: addr
  g_retry :: u32
  g_system_time :: u32
  g_timer_arg :: timer_arg
  g_resp_frame :: UbxNavPvtFrame
  g_config_transmit_buf :: "u8 list"
  g_config_step :: u32
  g_uart :: uart_dev
  g_os :: os

datatype GPSState = gps_init | gps_error | gps_idle | gps_read | gps_update

type_synonym gps_fsm = "(GPSState, GPSObject) FSM"

definition gps_resp_frame :: addr where "gps_resp_frame = 2"

definition update_gps_frame :: "bool \<Rightarrow> GPSObject \<Rightarrow> UbxNavPvtFrame \<Rightarrow> GPSObject" where
  "update_gps_frame be aobj f =
    (let fr = (g_frame aobj)\<lparr>gf_valid := True\<rparr>;
         fr = fr\<lparr>gf_latitude := f_mul fl64 (fl64 (of_int (from_little_endian_i32 be (ubx_lat be f))))
                                  (fl64 (1 / 10 ^ 7))\<rparr>;
         fr = fr\<lparr>gf_longitude := f_mul fl64 (fl64 (of_int (from_little_endian_i32 be (ubx_lon be f))))
                                   (fl64 (1 / 10 ^ 7))\<rparr>;
         fr = fr\<lparr>gf_altitude := f_div fl32
                   (fl32 (of_int (from_little_endian_i32 be (ubx_height_msl be f)))) (Fin 1000)\<rparr>;
         fr = fr\<lparr>gf_fix_type := ubx_fix_type f, gf_num_satellites := ubx_num_sv f\<rparr>;
         fr = fr\<lparr>gf_h_acc := f_div fl32
                   (fl32 (of_nat (unat (from_little_endian32 be (ubx_h_acc be f))))) (Fin 1000)\<rparr>
     in aobj\<lparr>g_frame := fr, g_system_time := from_little_endian32 be (ubx_i_tow be f)\<rparr>)"

text \<open>The loop that copies the payload into the transmit buffer.\<close>

fun copy_payload :: "nat \<Rightarrow> u8 list \<Rightarrow> u8 list \<Rightarrow> u8 list" where
  "copy_payload 0 payload buf = buf"
| "copy_payload (Suc n) payload buf = (copy_payload n payload buf)[6 + n := payload ! n]"

definition config_send_current_step :: "GPSObject \<Rightarrow> GPSObject" where
  "config_send_current_step aobj =
    (let step = config_sequence ! unat (g_config_step aobj);
         n = unat (cs_length step);
         buf = g_config_transmit_buf aobj;
         buf = buf[0 := eUBX_SYNC_1];
         buf = buf[1 := eUBX_SYNC_2];
         buf = buf[2 := cs_class step];
         buf = buf[3 := cs_id step];
         buf = buf[4 := cs_length step];
         buf = buf[5 := 0x00];
         buf = copy_payload n (cs_payload step) buf;
         (checksum_a, checksum_b) = ubx_checksum (take (4 + n) (drop 2 buf));
         buf = buf[6 + n := checksum_a];
         buf = buf[6 + n + 1 := checksum_b];
         frame_len = of_nat (6 + n + 2);
         (_, u, s) = hal_uart_write eGPS_UART_DEVICE (TxBuffer buf) frame_len
                       (Some Gps_config_step_done_handler) (Some eAO_GPS) (g_uart aobj) (g_os aobj)
     in aobj\<lparr>g_config_transmit_buf := buf, g_uart := u, g_os := s\<rparr>)"

section \<open>State functions\<close>

definition gps_retry_handler ::
    "(GPSState, GPSObject) transition_fn \<Rightarrow> gps_fsm \<Rightarrow> gps_fsm option" where
  "gps_retry_handler T f =
    (let aobj = fsm_arg f;
         aobj = aobj\<lparr>g_retry := g_retry aobj + 1\<rparr>
     in if g_retry aobj < eGPS_READ_RETRY_MAX then T gps_read (f\<lparr>fsm_arg := aobj\<rparr>)
        else let aobj = aobj\<lparr>g_frame := (g_frame aobj)\<lparr>gf_valid := False\<rparr>\<rparr>
             in T gps_idle (f\<lparr>fsm_arg := aobj\<rparr>))"

definition gps_init_state :: "(GPSState, GPSObject) StateFP" where
  "gps_init_state T ev f =
    (let aobj = fsm_arg f
     in if etype ev = eFSM_EVENT_INIT
        then let aobj = aobj\<lparr>g_frame := (g_frame aobj)\<lparr>gf_valid := False\<rparr>\<rparr>;
                 aobj = aobj\<lparr>g_timer_arg :=
                   \<lparr>handler = Some Gps_timeout_handler, handler_arg = eAO_GPS\<rparr>\<rparr>;
                 (st, t, s) = osal_timer_init (Some (g_timer aobj)) (Some (g_timer_arg aobj)) (g_os aobj);
                 aobj = aobj\<lparr>g_timer := the t, g_os := s\<rparr>
             in if failed st then T gps_error (f\<lparr>fsm_arg := aobj\<rparr>)
                else let aobj = aobj\<lparr>g_config_step := 0\<rparr>
                     in Some (f\<lparr>fsm_arg := config_send_current_step aobj\<rparr>)
        else if etype ev = eGPS_EVENT_CONFIGURED
        then let aobj = aobj\<lparr>g_config_step := g_config_step aobj + 1\<rparr>
             in if g_config_step aobj < CFG_SEQ_LEN
                then Some (f\<lparr>fsm_arg := config_send_current_step aobj\<rparr>)
                else T gps_idle (f\<lparr>fsm_arg := aobj\<rparr>)
        else Some f)"

definition gps_error_state :: "(GPSState, GPSObject) StateFP" where
  "gps_error_state T ev f =
    (let aobj = fsm_arg f
     in if etype ev = eFSM_EVENT_ENTRY
        then Some (f\<lparr>fsm_arg := aobj\<lparr>g_frame := (g_frame aobj)\<lparr>gf_valid := False\<rparr>\<rparr>\<rparr>)
        else Some f)"

definition gps_idle_state :: "(GPSState, GPSObject) StateFP" where
  "gps_idle_state T ev f =
    (let aobj = fsm_arg f
     in if etype ev = eFSM_EVENT_ENTRY then Some (f\<lparr>fsm_arg := aobj\<lparr>g_retry := 0\<rparr>\<rparr>)
        else if etype ev = eGPS_EVENT_READ then T gps_read f
        else Some f)"

definition gps_start_read :: "bool \<Rightarrow> GPSObject \<Rightarrow> GPSObject" where
  "gps_start_read be aobj =
    (let (_, u, s) = hal_uart_write eGPS_UART_DEVICE (TxBuffer (ubx_read_cmd be))
                       (of_nat (length (ubx_read_cmd be))) None None (g_uart aobj) (g_os aobj);
         (_, u, s) = hal_uart_read eGPS_UART_DEVICE (RxBuffer gps_resp_frame)
                       (of_nat sizeof_UbxNavPvtFrame)
                       (Some Gps_uart_rx_complete_handler) (Some eAO_GPS) u s;
         (_, s) = osal_timer_arm (g_timer aobj) eGPS_READ_TIMEOUT_MS eTIMER_TYPE_ONCE s
     in aobj\<lparr>g_uart := u, g_os := s\<rparr>)"

definition gps_abort :: "GPSObject \<Rightarrow> GPSObject" where
  "gps_abort aobj =
    (let (_, u, s) = hal_uart_abort eGPS_UART_DEVICE (g_uart aobj) (g_os aobj)
     in aobj\<lparr>g_uart := u, g_os := s\<rparr>)"

definition gps_disarm :: "GPSObject \<Rightarrow> GPSObject" where
  "gps_disarm aobj =
    (let (_, s) = osal_timer_disarm (g_timer aobj) (g_os aobj) in aobj\<lparr>g_os := s\<rparr>)"

definition gps_read_state :: "bool \<Rightarrow> (GPSState, GPSObject) StateFP" where
  "gps_read_state be T ev f =
    (let aobj = fsm_arg f
     in if etype ev = eFSM_EVENT_ENTRY then Some (f\<lparr>fsm_arg := gps_start_read be aobj\<rparr>)
        else if etype ev = eGPS_EVENT_FRAME_RECEIVED then T gps_update f
        else if etype ev = eGPS_EVENT_TIMEOUT
        then gps_retry_handler T (f\<lparr>fsm_arg := gps_abort aobj\<rparr>)
        else if etype ev = eFSM_EVENT_EXIT then Some (f\<lparr>fsm_arg := gps_disarm aobj\<rparr>)
        else Some f)"

definition gps_update_state :: "bool \<Rightarrow> (GPSState, GPSObject) StateFP" where
  "gps_update_state be T ev f =
    (let aobj = fsm_arg f
     in if etype ev = eFSM_EVENT_ENTRY
        then if gps_frame_valid be (g_resp_frame aobj) (g_system_time aobj)
             then T gps_idle (f\<lparr>fsm_arg := update_gps_frame be aobj (g_resp_frame aobj)\<rparr>)
             else gps_retry_handler T f
        else Some f)"

fun gps_states :: "bool \<Rightarrow> GPSState \<Rightarrow> (GPSState, GPSObject) StateFP" where
  "gps_states be gps_init = gps_init_state"
| "gps_states be gps_error = gps_error_state"
| "gps_states be gps_idle = gps_idle_state"
| "gps_states be gps_read = gps_read_state be"
| "gps_states be gps_update = gps_update_state be"

lemmas gps_state_defs = gps_init_state_def gps_error_state_def gps_idle_state_def
  gps_read_state_def gps_update_state_def gps_retry_handler_def

section \<open>The module\<close>

type_synonym gps_ao = "(GPSState, GPSObject) ActiveObject"

definition gps_timeout_handler :: "gps_ao \<Rightarrow> os \<Rightarrow> eStatus \<times> gps_ao option \<times> os" where
  "gps_timeout_handler a s =
    util_active_object_post (Some a) (Some \<lparr>etype = eGPS_EVENT_TIMEOUT\<rparr>) s"

definition gps_uart_rx_complete_handler :: "gps_ao \<Rightarrow> os \<Rightarrow> eStatus \<times> gps_ao option \<times> os" where
  "gps_uart_rx_complete_handler a s =
    util_active_object_post (Some a) (Some \<lparr>etype = eGPS_EVENT_FRAME_RECEIVED\<rparr>) s"

definition config_step_done_handler :: "gps_ao \<Rightarrow> os \<Rightarrow> eStatus \<times> gps_ao option \<times> os" where
  "config_step_done_handler a s =
    util_active_object_post (Some a) (Some \<lparr>etype = eGPS_EVENT_CONFIGURED\<rparr>) s"

definition ddl_gps_init :: "GPSFrame option \<Rightarrow> gps_ao \<Rightarrow> os \<Rightarrow> eStatus \<times> gps_ao \<times> os" where
  "ddl_gps_init frame a s =
    (case frame of
       None \<Rightarrow> (eSTATUS_NULL_PARAM, a, s)
     | Some fr \<Rightarrow>
        (let a = a\<lparr>active_fsm := (active_fsm a)\<lparr>fsm_arg :=
                     (fsm_arg (active_fsm a))\<lparr>g_frame := fr, g_retry := 0\<rparr>\<rparr>\<rparr>;
             (st, r, s) = util_active_object_init (Some a) eGPS_QUEUE_CAPACITY (Some gps_init) s
         in (st, the r, s)))"

definition ddl_gps_post :: "Event option \<Rightarrow> gps_ao \<Rightarrow> os \<Rightarrow> eStatus \<times> gps_ao option \<times> os" where
  "ddl_gps_post event a s = util_active_object_post (Some a) event s"

definition ddl_gps_end :: "gps_ao \<Rightarrow> os \<Rightarrow> eStatus \<times> gps_ao option \<times> os" where
  "ddl_gps_end a s = util_active_object_end (Some a) s"

definition ddl_gps_join :: "gps_ao \<Rightarrow> os \<Rightarrow> os" where
  "ddl_gps_join a s = util_active_object_join a s"

definition ddl_gps_delete :: "gps_ao \<Rightarrow> os \<Rightarrow> os" where
  "ddl_gps_delete a s =
    osal_timer_destroy (g_timer (fsm_arg (active_fsm a))) (util_active_object_delete a s)"

section \<open>The machine as a transition table\<close>

definition gps_retry_step ::
    "bool \<Rightarrow> (GPSObject \<Rightarrow> GPSObject) \<Rightarrow> GPSObject \<Rightarrow> GPSState \<times> GPSObject" where
  "gps_retry_step be leave a =
    (let a = a\<lparr>g_retry := g_retry a + 1\<rparr>
     in if g_retry a < 3 then (gps_read, gps_start_read be (leave a))
        else (gps_idle, (leave (a\<lparr>g_frame := (g_frame a)\<lparr>gf_valid := False\<rparr>\<rparr>))\<lparr>g_retry := 0\<rparr>))"

fun gps_step :: "bool \<Rightarrow> Event \<Rightarrow> GPSState \<times> GPSObject \<Rightarrow> GPSState \<times> GPSObject" where
  "gps_step be ev (gps_init, a) =
    (if etype ev = eGPS_EVENT_CONFIGURED
     then let a = a\<lparr>g_config_step := g_config_step a + 1\<rparr>
          in if g_config_step a < CFG_SEQ_LEN then (gps_init, config_send_current_step a)
             else (gps_idle, a\<lparr>g_retry := 0\<rparr>)
     else (gps_init, a))"
| "gps_step be ev (gps_idle, a) =
    (if etype ev = eGPS_EVENT_READ then (gps_read, gps_start_read be a) else (gps_idle, a))"
| "gps_step be ev (gps_read, a) =
    (if etype ev = eGPS_EVENT_FRAME_RECEIVED
     then let a = gps_disarm a
          in if gps_frame_valid be (g_resp_frame a) (g_system_time a)
             then (gps_idle, (update_gps_frame be a (g_resp_frame a))\<lparr>g_retry := 0\<rparr>)
             else gps_retry_step be id a
     else if etype ev = eGPS_EVENT_TIMEOUT then gps_retry_step be gps_disarm (gps_abort a)
     else (gps_read, a))"
| "gps_step be ev (st, a) = (st, a)"

lemma gps_retry_frame [simp]:
  "g_retry (gps_start_read be a) = g_retry a" "g_retry (gps_disarm a) = g_retry a"
  "g_retry (gps_abort a) = g_retry a" "g_retry (config_send_current_step a) = g_retry a"
  "g_frame (gps_start_read be a) = g_frame a" "g_frame (gps_disarm a) = g_frame a"
  "g_frame (gps_abort a) = g_frame a"
  "g_resp_frame (gps_disarm a) = g_resp_frame a"
  "g_system_time (gps_start_read be a) = g_system_time a"
  "g_system_time (gps_disarm a) = g_system_time a" "g_system_time (gps_abort a) = g_system_time a"
  "g_retry (update_gps_frame be a fr) = g_retry a"
  "g_config_step (config_send_current_step a) = g_config_step a"
  by (simp_all add: gps_start_read_def gps_disarm_def gps_abort_def config_send_current_step_def
      update_gps_frame_def Let_def split: prod.split)

lemma gps_refines_table:
  assumes "current_state f = Some st" and "st = gps_init \<or> st = gps_idle \<or> st = gps_read"
    and "eFSM_EVENT_USER \<le> etype ev"
  shows "call_state (gps_states be) (Suc (Suc (Suc n))) ev f =
    (case gps_step be ev (st, fsm_arg f) of
       (st', a') \<Rightarrow> Some \<lparr>current_state = Some st', fsm_arg = a'\<rparr>)"
proof -
  obtain a where f: "f = \<lparr>current_state = Some st, fsm_arg = a\<rparr>" using assms(1) by (cases f) simp
  have ev: "etype ev \<noteq> 0" "etype ev \<noteq> 1" "etype ev \<noteq> 2"
    using assms(3) by (auto simp: fsm_codes word_le_nat_alt)
  show ?thesis
    using assms(2) ev
    by (auto simp: f gps_state_defs gps_retry_step_def fsm_codes Let_def eGPS_READ_RETRY_MAX_def)
qed

section \<open>The contracts\<close>

definition gps_ok :: "GPSObject \<Rightarrow> bool" where
  "gps_ok a \<longleftrightarrow> uart_wf (g_uart a)"

lemma gps_ok_ops [simp]:
  "gps_ok a \<Longrightarrow> gps_ok (gps_start_read be a)"
  "gps_ok a \<Longrightarrow> gps_ok (gps_abort a)" "gps_ok a \<Longrightarrow> gps_ok (config_send_current_step a)"
  "gps_ok (gps_disarm a) = gps_ok a" "gps_ok (update_gps_frame be a fr) = gps_ok a"
  "gps_ok (a\<lparr>g_frame := x\<rparr>) = gps_ok a" "gps_ok (a\<lparr>g_retry := r\<rparr>) = gps_ok a"
  "gps_ok (a\<lparr>g_timer_arg := y\<rparr>) = gps_ok a" "gps_ok (a\<lparr>g_config_step := n\<rparr>) = gps_ok a"
  "gps_ok (a\<lparr>g_timer := t, g_os := s\<rparr>) = gps_ok a"
  by (auto simp: gps_ok_def gps_start_read_def gps_abort_def gps_disarm_def
      update_gps_frame_def config_send_current_step_def Let_def split: prod.split
      dest: uart_ops_wf hal_uart_abort_wf)

fun gps_rank :: "GPSState \<Rightarrow> nat" where
  "gps_rank gps_update = 1"
| "gps_rank st = 0"

interpretation gps: fsm_machine "gps_states be" gps_ok gps_rank 1 for be
proof (unfold_locales, goal_cases)
  case (1 st)
  then show ?case by (cases st) simp_all
next
  case (2 f st T)
  then show ?case
    by (cases st) (simp_all add: gps_state_defs fsm_codes Let_def)
next
  case (3 f st T)
  then show ?case
    by (cases st) (auto simp: gps_state_defs fsm_codes Let_def)
next
  case (4 f st T ev)
  then show ?case
    by (cases st) (auto simp: gps_state_defs Let_def split: prod.split)
next
  case (5 T T' st ev f f')
  then show ?case
    by (cases st) (auto simp: gps_state_defs Let_def split: prod.splits if_splits)
qed

interpretation gps_poll: polled_sensor "gps_step be" gps_idle gps_read
    "\<lambda>a. unat (g_retry a)" 3 eGPS_EVENT_READ "{eGPS_EVENT_TIMEOUT, eGPS_EVENT_FRAME_RECEIVED}" for be
proof -
  have inc: "unat (r + 1) = Suc (unat r)" if "unat r < 3" for r :: u32
    using that by (simp add: unat_word_ariths)
  have lt: "r < 3 \<longleftrightarrow> unat r < 3" for r :: u32
    by (simp add: word_less_nat_alt)
  show "polled_sensor (gps_step be) gps_idle gps_read (\<lambda>a. unat (g_retry a)) 3
      eGPS_EVENT_READ {eGPS_EVENT_TIMEOUT, eGPS_EVENT_FRAME_RECEIVED}"
    by unfold_locales (auto simp: gps_retry_step_def fsm_codes Let_def inc lt)
qed

section \<open>Frames on the wire\<close>

lemma from_little_endian_wire [simp]:
  "length bs = 2 \<Longrightarrow> from_little_endian16 be (load16 be bs) = le16 bs"
  "length cs = 4 \<Longrightarrow> from_little_endian32 be (load32 be cs) = le32 cs"
  using to_little_endian_wire
  by (simp_all add: from_little_endian16_def from_little_endian32_def to_little_endian16_def
      to_little_endian32_def Let_def)

text \<open>Acceptance of a received frame, stated on its bytes.\<close>

lemma gps_frame_valid_wire:
  assumes "length bs = sizeof_UbxNavPvtFrame"
  shows "gps_frame_valid be bs old \<longleftrightarrow>
    take 4 bs = [0xB5, 0x62, 0x01, 0x07] \<and> le16 (take 2 (drop 4 bs)) = 92 \<and>
    le32 (take 4 (drop 6 bs)) \<noteq> old \<and> (bs ! 98, bs ! 99) = ubx_checksum (take 96 (drop 2 bs))"
proof -
  have t: "take 4 bs = [bs ! 0, bs ! 1, bs ! 2, bs ! 3]"
    using assms by (simp add: sizeof_UbxNavPvtFrame_def take_Suc_conv_app_nth numeral_eq_Suc)
  obtain ca cb where c: "ubx_checksum (take 96 (drop 2 bs)) = (ca, cb)"
    by (cases "ubx_checksum (take 96 (drop 2 bs))") auto
  show ?thesis
    using assms c
    by (auto simp: gps_frame_valid_def t sizeof_UbxNavPvtFrame_def ubx_codes ubx_fields)
qed

text \<open>The decoded fields, on every host.\<close>

definition wire_i32 :: "nat \<Rightarrow> u8 list \<Rightarrow> int" where
  "wire_i32 off bs = sint (le32 (take 4 (drop off bs)))"

lemma update_gps_frame_fields:
  fixes be aobj bs
  defines "a' \<equiv> update_gps_frame be aobj bs"
  assumes "length bs = sizeof_UbxNavPvtFrame"
  shows "gf_valid (g_frame a')"
    "gf_latitude (g_frame a') = f_mul fl64 (fl64 (of_int (wire_i32 34 bs))) (fl64 (1 / 10 ^ 7))"
    "gf_longitude (g_frame a') = f_mul fl64 (fl64 (of_int (wire_i32 30 bs))) (fl64 (1 / 10 ^ 7))"
    "gf_altitude (g_frame a') = f_div fl32 (fl32 (of_int (wire_i32 42 bs))) (Fin 1000)"
    "gf_fix_type (g_frame a') = bs ! 26" "gf_num_satellites (g_frame a') = bs ! 29"
    "g_system_time a' = le32 (take 4 (drop 6 bs))"
  using assms(2)
  by (simp_all add: a'_def update_gps_frame_def Let_def from_little_endian_i32_def ubx_fields
      wire_i32_def sizeof_UbxNavPvtFrame_def)

text \<open>
  A coordinate of \<open>n\<close> units of \<open>10 ^ -7\<close> degrees: the two roundings of the conversion lose less than
  one part in \<open>2 ^ 51\<close>.
\<close>

lemma gps_coordinate:
  assumes "\<bar>n\<bar> \<le> 2 ^ 31"
  shows "\<exists>x. f_mul fl64 (fl64 (of_int n)) (fl64 (1 / 10 ^ 7)) = Fin x \<and>
    \<bar>x - of_int n / 10 ^ 7\<bar> \<le> \<bar>of_int n\<bar> / 10 ^ 7 / 2 ^ 51"
proof -
  define k where "k = rnd64 (1 / 10 ^ 7)"
  have kf: "fl64 (1 / 10 ^ 7) = Fin k" "\<bar>k\<bar> \<le> 1"
    using fl64_Fin [of "1 / 10 ^ 7" 1] by (simp_all add: k_def)
  have small: "(2 :: rat) powi (- 1022) \<le> 2 powi (- 30)" by (rule two_powi_le) simp
  have "(2 :: rat) powi (- 30) \<le> 1 / 10 ^ 7" by (simp add: power_int_def power_one_over)
  then have kerr: "\<bar>k - 1 / 10 ^ 7\<bar> \<le> 1 / 10 ^ 7 / 2 ^ 53"
    using rnd64_error [of "1 / 10 ^ 7"] small by (simp add: k_def)
  have kb: "1 / 10 ^ 7 / 2 \<le> k" "\<bar>k\<bar> \<le> 2 / 10 ^ 7"
  proof -
    define c where "c = (1 / 10 ^ 7 :: rat)"
    have "\<bar>k - c\<bar> \<le> c / 2" unfolding c_def by (rule order_trans [OF kerr]) simp
    moreover have "0 < c" by (simp add: c_def)
    ultimately have P: "c / 2 \<le> k" "\<bar>k\<bar> \<le> 2 * c" by linarith+
    show "1 / 10 ^ 7 / 2 \<le> k" by (rule P(1) [unfolded c_def])
    show "\<bar>k\<bar> \<le> 2 / 10 ^ 7" using P(2) unfolding c_def by (simp only: times_divide_eq_right mult_1_right)
  qed
  have nf: "fl64 (of_int n) = Fin (of_int n)" using assms by (intro fl64_int) simp
  have nk: "\<bar>of_int n * k\<bar> \<le> of_int (2 ^ 31)"
  proof -
    have "\<bar>of_int n * k\<bar> \<le> \<bar>of_int n\<bar> * 1"
      unfolding abs_mult using kf(2) by (intro mult_left_mono) auto
    moreover have "\<bar>of_int n :: rat\<bar> \<le> of_int (2 ^ 31)"
      using assms by (metis of_int_abs of_int_le_iff)
    ultimately show ?thesis by simp
  qed
  then have pf: "fl64 (of_int n * k) = Fin (rnd64 (of_int n * k))"
    using fl64_Fin [of "of_int n * k" "2 ^ 31"] by simp
  have perr: "\<bar>rnd64 (of_int n * k) - of_int n * k\<bar> \<le> \<bar>of_int n * k\<bar> / 2 ^ 53"
  proof (cases "n = 0")
    case True
    then show ?thesis by (simp add: rnd64_def fl_round_def)
  next
    case False
    have "1 * (1 / 10 ^ 7 / 2) \<le> \<bar>of_int n\<bar> * \<bar>k\<bar>"
      using False kb(1) by (intro mult_mono) auto
    then have "2 powi (- 30) \<le> \<bar>of_int n * k\<bar>"
      by (simp add: abs_mult power_int_def power_one_over)
    then show ?thesis using small by (intro rnd64_error) linarith
  qed
  define N where "N = \<bar>of_int n :: rat\<bar>"
  have N0: "0 \<le> N" by (simp add: N_def)
  have "\<bar>of_int n * k - of_int n / 10 ^ 7\<bar> = N * \<bar>k - 1 / 10 ^ 7\<bar>"
    by (simp add: N_def abs_mult [symmetric] algebra_simps)
  also have "\<dots> \<le> N * (1 / 10 ^ 7 / 2 ^ 53)"
    using kerr N0 by (rule mult_left_mono)
  finally have e1: "\<bar>of_int n * k - of_int n / 10 ^ 7\<bar> \<le> N / 10 ^ 7 / 2 ^ 53" by simp
  have "\<bar>of_int n * k\<bar> = N * \<bar>k\<bar>" by (simp add: N_def abs_mult)
  also have "\<dots> \<le> N * (2 / 10 ^ 7)"
    by (rule mult_left_mono [OF kb(2) N0])
  finally have e2: "\<bar>of_int n * k\<bar> / 2 ^ 53 \<le> N * (2 / 10 ^ 7) / 2 ^ 53"
    by (rule divide_right_mono) simp
  have "N * (2 / 10 ^ 7) / 2 ^ 53 + N / 10 ^ 7 / 2 ^ 53 \<le> N / 10 ^ 7 / 2 ^ 51"
    using N0 by simp
  then have "\<bar>rnd64 (of_int n * k) - of_int n / 10 ^ 7\<bar> \<le> N / 10 ^ 7 / 2 ^ 51"
    using perr e1 e2 by linarith
  moreover have "f_mul fl64 (fl64 (of_int n)) (fl64 (1 / 10 ^ 7)) = Fin (rnd64 (of_int n * k))"
    unfolding kf(1) nf by (simp add: pf)
  ultimately show ?thesis unfolding N_def by blast
qed

section \<open>The configuration sequence\<close>

text \<open>A UBX frame: sync bytes, class, identifier, length, payload and checksum.\<close>

definition ubx_frame :: "u8 \<Rightarrow> u8 \<Rightarrow> u8 list \<Rightarrow> u8 list" where
  "ubx_frame msg_class msg_id payload =
    (let body = [msg_class, msg_id] @ bytes16 (of_nat (length payload)) @ payload;
         (ck_a, ck_b) = ubx_checksum body
     in [0xB5, 0x62] @ body @ [ck_a, ck_b])"

lemma take_Suc_update: "i < length xs \<Longrightarrow> take (Suc i) (xs[i := v]) = take i xs @ [v]"
  by (simp add: take_Suc_conv_app_nth)

lemma copy_payload_result:
  "n \<le> length payload \<Longrightarrow> 6 + n \<le> length buf \<Longrightarrow>
    length (copy_payload n payload buf) = length buf \<and>
    take (6 + n) (copy_payload n payload buf) = take 6 buf @ take n payload"
proof (induction n)
  case (Suc n)
  then have IH: "length (copy_payload n payload buf) = length buf"
    "take (6 + n) (copy_payload n payload buf) = take 6 buf @ take n payload" by auto
  have "take (6 + Suc n) ((copy_payload n payload buf)[6 + n := payload ! n])
      = take (6 + n) (copy_payload n payload buf) @ [payload ! n]"
    using Suc.prems IH(1) take_Suc_update [of "6 + n" "copy_payload n payload buf" "payload ! n"] by simp
  then show ?case
    using IH Suc.prems by (simp add: take_Suc_conv_app_nth)
qed simp

definition step_ok :: "ConfigStep \<Rightarrow> bool" where
  "step_ok c \<longleftrightarrow> length (cs_payload c) = 16 \<and> unat (cs_length c) \<le> 16"

lemma config_sequence_ok: "\<forall>c\<in>set config_sequence. step_ok c"
  by (simp add: config_sequence_def config_step_of_def step_ok_def)

lemma config_send_frame:
  assumes "length (g_config_transmit_buf a) = 24"
    and "step_ok c" and "c = config_sequence ! unat (g_config_step a)"
  shows "length (g_config_transmit_buf (config_send_current_step a)) = 24 \<and>
    take (unat (cs_length c) + 8) (g_config_transmit_buf (config_send_current_step a))
      = ubx_frame (cs_class c) (cs_id c) (take (unat (cs_length c)) (cs_payload c))"
proof -
  define n where "n = unat (cs_length c)"
  have n: "n \<le> 16" "n \<le> length (cs_payload c)" using assms(2) by (simp_all add: step_ok_def n_def)
  define hd where "hd = [0xB5, 0x62, cs_class c, cs_id c, cs_length c, 0x00 :: u8]"
  define b0 where "b0 = (g_config_transmit_buf a)[0 := 0xB5, 1 := 0x62, 2 := cs_class c,
    3 := cs_id c, 4 := cs_length c, 5 := 0x00]"
  have b0: "length b0 = 24" "take 6 b0 = hd"
    using assms(1) by (auto simp: b0_def hd_def numeral_eq_Suc length_Suc_conv)
  define b1 where "b1 = copy_payload n (cs_payload c) b0"
  have b1: "length b1 = 24" "take (6 + n) b1 = hd @ take n (cs_payload c)"
    using copy_payload_result [of n "cs_payload c" b0] n b0 by (auto simp: b1_def)
  have body: "take (4 + n) (drop 2 b1) = drop 2 hd @ take n (cs_payload c)"
  proof -
    have "take (4 + n) (drop 2 b1) = drop 2 (take (6 + n) b1)" by (simp add: take_drop)
    then show ?thesis by (simp add: b1 hd_def)
  qed
  obtain ca cb where ck: "ubx_checksum (take (4 + n) (drop 2 b1)) = (ca, cb)"
    by (cases "ubx_checksum (take (4 + n) (drop 2 b1))") auto
  have buf: "g_config_transmit_buf (config_send_current_step a) = b1[6 + n := ca, 6 + n + 1 := cb]"
    using ck unfolding b1_def b0_def n_def
    by (simp add: config_send_current_step_def Let_def assms(3) [symmetric] ubx_codes split: prod.split)
  have t: "take (n + 8) (b1[6 + n := ca, 6 + n + 1 := cb]) = take (6 + n) b1 @ [ca, cb]"
  proof -
    have "take (Suc (7 + n)) (b1[6 + n := ca, 7 + n := cb]) = take (7 + n) (b1[6 + n := ca]) @ [cb]"
      using b1(1) n by (intro take_Suc_update) simp
    moreover have "take (Suc (6 + n)) (b1[6 + n := ca]) = take (6 + n) b1 @ [ca]"
      using b1(1) n by (intro take_Suc_update) simp
    ultimately show ?thesis by (simp add: add.commute)
  qed
  have len: "bytes16 (of_nat (length (take n (cs_payload c)))) = [cs_length c, 0]"
  proof -
    have "length (take n (cs_payload c)) = unat (cs_length c)" using n by (simp add: n_def)
    moreover have "unat (cs_length c) < 256" using unat_lt_2p [of "cs_length c"] by simp
    ultimately show ?thesis
      by (auto simp: bytes16_def bit_simps intro!: bit_word_eqI)
  qed
  have "take (n + 8) (g_config_transmit_buf (config_send_current_step a))
      = ubx_frame (cs_class c) (cs_id c) (take n (cs_payload c))"
  proof -
    have "ubx_checksum ([cs_class c, cs_id c] @ [cs_length c, 0] @ take n (cs_payload c)) = (ca, cb)"
      using ck body by (simp add: hd_def)
    then have "ubx_frame (cs_class c) (cs_id c) (take n (cs_payload c))
        = hd @ take n (cs_payload c) @ [ca, cb]"
      unfolding ubx_frame_def len Let_def by (simp add: hd_def)
    then show ?thesis unfolding buf t b1(2) by simp
  qed
  then show ?thesis using b1(1) by (simp add: buf n_def)
qed

text \<open>The frames of the sequence, in order.\<close>

definition config_frame :: "nat \<Rightarrow> u8 list" where
  "config_frame k = (let c = config_sequence ! k
     in ubx_frame (cs_class c) (cs_id c) (take (unat (cs_length c)) (cs_payload c)))"

definition configured_event :: Event where
  "configured_event = \<lparr>etype = eGPS_EVENT_CONFIGURED\<rparr>"

lemma config_sequence_length [simp]: "length config_sequence = 8" "CFG_SEQ_LEN = 8"
  by (simp_all add: config_sequence_def CFG_SEQ_LEN_def)

definition sends_frame :: "nat \<Rightarrow> GPSObject \<Rightarrow> bool" where
  "sends_frame k a \<longleftrightarrow> length (g_config_transmit_buf a) = 24 \<and> g_config_step a = of_nat k \<and>
     take (length (config_frame k)) (g_config_transmit_buf a) = config_frame k"

lemma config_frame_length: "k < 8 \<Longrightarrow> length (config_frame k) = unat (cs_length (config_sequence ! k)) + 8"
proof -
  assume k: "k < 8"
  then have "step_ok (config_sequence ! k)" using config_sequence_ok by simp
  then show ?thesis
    by (auto simp: config_frame_def ubx_frame_def step_ok_def Let_def bytes16_def split: prod.split)
qed

lemma send_step_frame:
  assumes "length (g_config_transmit_buf a) = 24" and "g_config_step a = of_nat k" and "k < 8"
  shows "sends_frame k (config_send_current_step a)"
proof -
  have k: "unat (g_config_step a) = k" using assms(2,3) by (simp add: unat_of_nat_small)
  have "step_ok (config_sequence ! k)" using config_sequence_ok assms(3) by simp
  moreover have "config_sequence ! k = config_sequence ! unat (g_config_step a)"
    by (simp only: k)
  ultimately have "length (g_config_transmit_buf (config_send_current_step a)) = 24"
    "take (length (config_frame k)) (g_config_transmit_buf (config_send_current_step a)) = config_frame k"
    using config_send_frame [OF assms(1)]
    unfolding config_frame_length [OF assms(3)] by (simp_all only: config_frame_def Let_def)
  then show ?thesis by (simp add: sends_frame_def assms(2))
qed

lemma config_run:
  assumes "length (g_config_transmit_buf a) = 24"
    and "start = (gps_init, config_send_current_step (a\<lparr>g_config_step := 0\<rparr>))"
  shows "k < 8 \<Longrightarrow> \<exists>a'. ((gps_step be configured_event) ^^ k) start = (gps_init, a') \<and> sends_frame k a'"
proof (induction k)
  case 0
  show ?case
    using assms by (simp add: send_step_frame)
next
  case (Suc k)
  then obtain a' where a': "((gps_step be configured_event) ^^ k) start = (gps_init, a')"
    "sends_frame k a'" by auto
  let ?b = "a'\<lparr>g_config_step := of_nat (Suc k)\<rparr>"
  have w: "g_config_step a' + 1 = of_nat (Suc k)" using a'(2) by (simp add: sends_frame_def)
  have lt: "(of_nat (Suc k) :: u32) < 8"
    using Suc.prems by (simp add: word_less_nat_alt unat_of_nat_small del: of_nat_Suc)
  have "gps_step be configured_event (gps_init, a') = (gps_init, config_send_current_step ?b)"
    using w lt by (simp add: configured_event_def Let_def del: of_nat_Suc)
  moreover have "sends_frame (Suc k) (config_send_current_step ?b)"
    using a'(2) Suc.prems by (intro send_step_frame) (simp_all add: sends_frame_def)
  ultimately show ?case using a'(1) by simp
qed

lemma config_run_done:
  assumes "length (g_config_transmit_buf a) = 24"
    and "start = (gps_init, config_send_current_step (a\<lparr>g_config_step := 0\<rparr>))"
  shows "\<exists>a'. ((gps_step be configured_event) ^^ 8) start = (gps_idle, a') \<and> g_retry a' = 0"
proof -
  obtain a' where a': "((gps_step be configured_event) ^^ 7) start = (gps_init, a')"
    "sends_frame 7 a'" using config_run [OF assms, of 7 be] by auto
  have eight: "(8 :: nat) = Suc 7" by simp
  have "(gps_step be configured_event ^^ 8) start = gps_step be configured_event (gps_init, a')"
    unfolding eight funpow.simps o_def a'(1) ..
  then show ?thesis using a'(2) by (simp add: configured_event_def sends_frame_def Let_def)
qed

section \<open>Runs\<close>

lemma gps_step_states:
  "st \<in> {gps_init, gps_idle, gps_read} \<Longrightarrow> fst (gps_step be ev (st, a)) \<in> {gps_init, gps_idle, gps_read}"
  by (auto simp: gps_retry_step_def Let_def split: if_splits)

lemma gps_run_table:
  assumes "st \<in> {gps_init, gps_idle, gps_read}" and "user_events evs"
  shows "fsm_run (gps_states be) (n + 3) evs \<lparr>current_state = Some st, fsm_arg = a\<rparr> =
    (case fold (gps_step be) evs (st, a) of
       (st', a') \<Rightarrow> Some \<lparr>current_state = Some st', fsm_arg = a'\<rparr>)"
proof (rule fsm_run_table [where S = "{gps_init, gps_idle, gps_read}"])
  fix st a and ev :: Event assume "st \<in> {gps_init, gps_idle, gps_read}" "eFSM_EVENT_USER \<le> etype ev"
  then show "call_state (gps_states be) (n + 3) ev \<lparr>current_state = Some st, fsm_arg = a\<rparr> =
      (case gps_step be ev (st, a) of (st', a') \<Rightarrow> Some \<lparr>current_state = Some st', fsm_arg = a'\<rparr>)"
    using gps_refines_table [of "\<lparr>current_state = Some st, fsm_arg = a\<rparr>" st ev be n]
    by (simp add: numeral_3_eq_3 del: call_state.simps)
qed (use assms gps_step_states in auto)

text \<open>The events that answer a configuration message count; the others change nothing.\<close>

definition answers :: "Event list \<Rightarrow> nat" where
  "answers evs = length (filter (\<lambda>ev. etype ev = eGPS_EVENT_CONFIGURED) evs)"

lemma answers_simps [simp]:
  "answers [] = 0"
  "answers (evs @ evs') = answers evs + answers evs'"
  "answers [ev] = (if etype ev = eGPS_EVENT_CONFIGURED then 1 else 0)"
  by (simp_all add: answers_def)

lemma gps_step_type: "etype ev = etype ev' \<Longrightarrow> gps_step be ev x = gps_step be ev' x"
  by (cases x; cases "fst x") auto

lemma config_fold:
  assumes "length (g_config_transmit_buf a) = 24"
    and "start = (gps_init, config_send_current_step (a\<lparr>g_config_step := 0\<rparr>))"
  shows "answers evs \<le> 7 \<Longrightarrow> fold (gps_step be) evs start = ((gps_step be configured_event) ^^ answers evs) start"
proof (induction evs rule: rev_induct)
  case (snoc ev evs)
  show ?case
  proof (cases "etype ev = eGPS_EVENT_CONFIGURED")
    case True
    then have "etype ev = etype configured_event" by (simp add: configured_event_def)
    then have "gps_step be ev = gps_step be configured_event"
      by (intro ext gps_step_type)
    then show ?thesis using snoc True by simp
  next
    case False
    have "answers evs < 8" using snoc.prems False by simp
    then obtain a' where "((gps_step be configured_event) ^^ answers evs) start = (gps_init, a')"
      using config_run [OF assms, of "answers evs" be] by blast
    then show ?thesis using snoc False by simp
  qed
qed simp

section \<open>Properties\<close>

text \<open>A frame as the receiver sends it, 35.0 E, 32.0 S, and an object of a program that starts.\<close>

definition demo_pvt :: "u8 list" where
  "demo_pvt = [181, 98, 1, 7, 92, 0, 232, 3, 0, 0] @ replicate 16 0 @ [3, 0, 0, 9, 128, 147, 220, 20,
     0, 48, 237, 236] @ replicate 60 0 @ [103, 46]"

definition demo_gps :: GPSObject where
  "demo_gps = \<lparr>g_frame = gps_frame zero_ddl_frame, g_timer = 0, g_retry = 0, g_system_time = 0,
     g_timer_arg = null_timer_arg, g_resp_frame = demo_pvt, g_config_transmit_buf = replicate 24 0,
     g_config_step = 0, g_uart = static_uart (\<lambda>_. None),
     g_os = boot_os (\<lambda>_. 1) (\<lambda>_. zero_timespec)\<rparr>"

text \<open>The GPS machine implements its transition table: whatever events other threads post, in its
  configuration, idle and read states, running the nested state functions of the source gives the
  state and the object that the flat table gives.\<close>

lemma gps_implements_table:
  assumes "st \<in> {gps_init, gps_idle, gps_read}" and "user_events evs"
  shows "fsm_run (gps_states be) (n + 3) evs \<lparr>current_state = Some st, fsm_arg = a\<rparr> =
    (case fold (gps_step be) evs (st, a) of
       (st', a') \<Rightarrow> Some \<lparr>current_state = Some st', fsm_arg = a'\<rparr>)"
  by (rule gps_run_table [OF assms])

lemma gps_implements_table_witness:
  "\<exists>a'. fsm_run (gps_states False) 3 [\<lparr>etype = eGPS_EVENT_READ\<rparr>]
      \<lparr>current_state = Some gps_idle, fsm_arg = demo_gps\<rparr>
      = Some \<lparr>current_state = Some gps_read, fsm_arg = a'\<rparr>"
  using gps_implements_table [of gps_idle "[\<lparr>etype = eGPS_EVENT_READ\<rparr>]" False 0 demo_gps]
  by (simp add: eGPS_EVENT_READ_def del: fsm_run.simps)

text \<open>C19. The receiver is configured step by step: after the initialisation the first of the eight
  messages is in the transmit buffer, framed with its synchronisation bytes, length and checksum;
  after the answers to the first \<open>k\<close> messages it is the message number \<open>k\<close>, whatever other events
  arrive in between, and after the eighth answer the machine waits in idle with no retries counted.\<close>

lemma gps_configures:
  assumes "length (g_config_transmit_buf a) = 24" and "user_events evs" and "answers evs < 8"
    and "osal_timer_init (Some (g_timer a)) (Some \<lparr>handler = Some Gps_timeout_handler,
           handler_arg = eAO_GPS\<rparr>) (g_os a) = (eSTATUS_SUCCESSFUL, t, s)"
  shows "\<exists>f0 a1 a2. util_fsm_init (gps_states be) (n + 3) (Some f) (Some gps_init) a
      = Some (eSTATUS_SUCCESSFUL, Some f0) \<and>
    fsm_run (gps_states be) (n + 3) evs f0 = Some \<lparr>current_state = Some gps_init, fsm_arg = a1\<rparr> \<and>
    take (length (config_frame (answers evs))) (g_config_transmit_buf a1) = config_frame (answers evs) \<and>
    (answers evs = 7 \<longrightarrow> fsm_run (gps_states be) (n + 3) (evs @ [configured_event]) f0
        = Some \<lparr>current_state = Some gps_idle, fsm_arg = a2\<rparr> \<and> g_retry a2 = 0)"
proof -
  define b where "b = a\<lparr>g_frame := (g_frame a)\<lparr>gf_valid := False\<rparr>,
    g_timer_arg := \<lparr>handler = Some Gps_timeout_handler, handler_arg = eAO_GPS\<rparr>,
    g_timer := the t, g_os := s\<rparr>"
  define c where "c = config_send_current_step (b\<lparr>g_config_step := 0\<rparr>)"
  let ?f0 = "\<lparr>current_state = Some gps_init, fsm_arg = c\<rparr>"
  have f0: "util_fsm_init (gps_states be) (n + 3) (Some f) (Some gps_init) a
      = Some (eSTATUS_SUCCESSFUL, Some ?f0)"
    using assms(4) by (cases f)
      (simp add: util_fsm_init_def numeral_3_eq_3 gps_init_state_def Let_def b_def c_def)
  have buf: "length (g_config_transmit_buf b) = 24" using assms(1) by (simp add: b_def)
  obtain a1 where a1: "((gps_step be configured_event) ^^ answers evs) (gps_init, c) = (gps_init, a1)"
    "sends_frame (answers evs) a1"
    using config_run [OF buf, of "(gps_init, c)" "answers evs" be] assms(3) by (auto simp: c_def)
  have fold: "fold (gps_step be) evs (gps_init, c) = (gps_init, a1)"
    using config_fold [OF buf, of "(gps_init, c)" evs be] assms(3) a1(1) by (simp add: c_def)
  have run: "fsm_run (gps_states be) (n + 3) evs ?f0 = Some \<lparr>current_state = Some gps_init, fsm_arg = a1\<rparr>"
    using gps_run_table [of gps_init evs be n c] assms(2) fold by simp
  have last: "\<exists>a2. fsm_run (gps_states be) (n + 3) (evs @ [configured_event]) ?f0
      = Some \<lparr>current_state = Some gps_idle, fsm_arg = a2\<rparr> \<and> g_retry a2 = 0" if k: "answers evs = 7"
  proof -
    have "user_events (evs @ [configured_event])"
      using assms(2) by (simp add: configured_event_def fsm_codes word_le_nat_alt)
    moreover have "fold (gps_step be) (evs @ [configured_event]) (gps_init, c)
        = (gps_idle, a1\<lparr>g_config_step := g_config_step a1 + 1, g_retry := 0\<rparr>)"
      using fold a1(2) k by (simp add: configured_event_def sends_frame_def Let_def)
    ultimately show ?thesis
      using gps_run_table [of gps_init "evs @ [configured_event]" be n c] by simp
  qed
  show ?thesis
    using f0 run a1(2) last unfolding sends_frame_def by blast
qed

lemma gps_configures_witness:
  "\<exists>f0 a2. fsm_run (gps_states False) 3 (replicate 8 configured_event) f0
      = Some \<lparr>current_state = Some gps_idle, fsm_arg = a2\<rparr>"
proof -
  have ok: "length (g_config_transmit_buf demo_gps) = 24" by (simp add: demo_gps_def)
  have evs: "user_events (replicate 7 configured_event)" "answers (replicate 7 configured_event) = 7"
    by (simp_all add: user_events_def list_all_iff configured_event_def fsm_codes word_le_nat_alt
        answers_def del: replicate.simps)
  obtain t s where t: "osal_timer_init (Some (g_timer demo_gps)) (Some \<lparr>handler = Some Gps_timeout_handler,
           handler_arg = eAO_GPS\<rparr>) (g_os demo_gps) = (eSTATUS_SUCCESSFUL, t, s)"
    by (simp add: demo_gps_def osal_timer_init_def osal_alloc_def ask_def boot_os_def Let_def)
  have eight: "replicate 8 configured_event = replicate 7 configured_event @ [configured_event]"
    by (simp add: numeral_eq_Suc)
  have "answers (replicate 7 configured_event) < 8" by (simp add: evs(2))
  from gps_configures [OF ok evs(1) this t, where be = False and n = 0
      and f = "\<lparr>current_state = None, fsm_arg = demo_gps\<rparr>"] evs(2)
  show ?thesis unfolding eight by auto
qed

text \<open>C20. What a received position means: a hundred bytes are accepted exactly when they start with the
  header of a NAV-PVT message with 92 bytes of payload, carry a time that differs from the last one
  and end with the checksum of the bytes between; then the frame is valid, latitude and longitude
  are the signed little-endian numbers at offsets 34 and 30 in units of 1e-7 degrees, up to a
  relative error of at most 2 to the -51, on hosts of either byte order.\<close>

lemma gps_frame_meaning:
  assumes "length bs = sizeof_UbxNavPvtFrame"
  shows "(gps_frame_valid be bs old \<longleftrightarrow>
      take 4 bs = [0xB5, 0x62, 0x01, 0x07] \<and> le16 (take 2 (drop 4 bs)) = 92 \<and>
      le32 (take 4 (drop 6 bs)) \<noteq> old \<and> (bs ! 98, bs ! 99) = ubx_checksum (take 96 (drop 2 bs))) \<and>
    (\<exists>lat lon. gf_latitude (g_frame (update_gps_frame be aobj bs)) = Fin lat \<and>
       \<bar>lat - of_int (wire_i32 34 bs) / 10 ^ 7\<bar> \<le> \<bar>of_int (wire_i32 34 bs)\<bar> / 10 ^ 7 / 2 ^ 51 \<and>
       gf_longitude (g_frame (update_gps_frame be aobj bs)) = Fin lon \<and>
       \<bar>lon - of_int (wire_i32 30 bs) / 10 ^ 7\<bar> \<le> \<bar>of_int (wire_i32 30 bs)\<bar> / 10 ^ 7 / 2 ^ 51) \<and>
    gf_valid (g_frame (update_gps_frame be aobj bs)) \<and>
    gf_fix_type (g_frame (update_gps_frame be aobj bs)) = bs ! 26 \<and>
    gf_num_satellites (g_frame (update_gps_frame be aobj bs)) = bs ! 29 \<and>
    g_system_time (update_gps_frame be aobj bs) = le32 (take 4 (drop 6 bs))"
proof -
  have b: "\<bar>wire_i32 off bs\<bar> \<le> 2 ^ 31" for off
    using sint_ge [of "le32 (take 4 (drop off bs))"] sint_lt [of "le32 (take 4 (drop off bs))"]
    by (simp add: wire_i32_def)
  show ?thesis
    using gps_frame_valid_wire [OF assms, of be old] update_gps_frame_fields [OF assms, of be aobj]
      gps_coordinate [OF b [of 34]] gps_coordinate [OF b [of 30]]
    by metis
qed

lemma gps_frame_meaning_witness:
  "gps_frame_valid True demo_pvt 999 \<and> wire_i32 34 demo_pvt = -320000000 \<and>
   gf_num_satellites (g_frame (update_gps_frame True demo_gps demo_pvt)) = 9"
proof -
  have r: "replicate 16 (0 :: u8) = [0,0,0,0,0,0,0,0,0,0,0,0,0,0,0,0]"
    "replicate 60 (0 :: u8) = [0,0,0,0,0,0,0,0,0,0,0,0,0,0,0,0,0,0,0,0,0,0,0,0,0,0,0,0,0,0,
       0,0,0,0,0,0,0,0,0,0,0,0,0,0,0,0,0,0,0,0,0,0,0,0,0,0,0,0,0,0]"
    by (simp_all add: numeral_eq_Suc)
  have l: "length demo_pvt = sizeof_UbxNavPvtFrame"
    by (simp add: demo_pvt_def sizeof_UbxNavPvtFrame_def)
  note p = demo_pvt_def [unfolded r, simplified]
  have "take 4 demo_pvt = [0xB5, 0x62, 0x01, 0x07]" "le16 (take 2 (drop 4 demo_pvt)) = 92"
    "le32 (take 4 (drop 6 demo_pvt)) = 1000" "demo_pvt ! 29 = 9"
    "(demo_pvt ! 98, demo_pvt ! 99) = ubx_checksum (take 96 (drop 2 demo_pvt))"
    "wire_i32 34 demo_pvt = -320000000"
    by (simp_all add: p le16_def le32_def ubx_checksum_def wire_i32_def)
  then show ?thesis using gps_frame_meaning [OF l, of True 999 demo_gps] by simp
qed

end
