(* ===== verification/Ddl.thy ===== *)
theory Ddl
  imports Distance ServoControl TempHum Gps
begin

text \<open>
  The device driver layer, \<^verbatim>\<open>src/src/ddl/ddl.c\<close>: the table of the four sensor modules and the
  operations that go through it. Calling through a function pointer of the table is a choice on the
  index; the table's other columns are functions of the index.
\<close>

definition eDDL_MODULE_DISTANCE :: u32 where [fsm_codes]: "eDDL_MODULE_DISTANCE = 0"
definition eDDL_MODULE_SERVO :: u32 where [fsm_codes]: "eDDL_MODULE_SERVO = 1"
definition eDDL_MODULE_TEMPERATURE_HUMIDITY :: u32 where
  [fsm_codes]: "eDDL_MODULE_TEMPERATURE_HUMIDITY = 2"
definition eDDL_MODULE_GPS :: u32 where [fsm_codes]: "eDDL_MODULE_GPS = 3"
definition eDLL_MODULE_COUNT :: u32 where [fsm_codes]: "eDLL_MODULE_COUNT = 4"

text \<open>The post functions that are registered on the event bus.\<close>

datatype post_fn = Ddl_post | App_post

record ddl =
  m_distance :: distance_ao
  m_servo :: servo_ao
  m_temp_hum :: temp_hum_ao
  m_gps :: gps_ao

section \<open>The table\<close>

definition distance_subscribe_events :: "Event list" where
  "distance_subscribe_events = [\<lparr>etype = eDISTANCE_EVENT_READ\<rparr>]"

definition servo_subscribe_events :: "Event list" where
  "servo_subscribe_events = [\<lparr>etype = eSERVO_EVENT_SCAN\<rparr>, \<lparr>etype = eSERVO_EVENT_DIRECTIONS\<rparr>,
     \<lparr>etype = eSERVO_EVENT_NOISE_DETECTED\<rparr>, \<lparr>etype = eSERVO_EVENT_LOCK\<rparr>]"

definition temperature_humidity_subscribe_events :: "Event list" where
  "temperature_humidity_subscribe_events = [\<lparr>etype = eTEMPERATURE_HUMIDITY_EVENT_READ\<rparr>]"

definition gps_subscribe_events :: "Event list" where
  "gps_subscribe_events = [\<lparr>etype = eGPS_EVENT_READ\<rparr>]"

definition ddl_ao_id :: "u32 \<Rightarrow> u32" where
  "ddl_ao_id mi =
    (if mi = eDDL_MODULE_DISTANCE then eAO_DISTANCE
     else if mi = eDDL_MODULE_SERVO then eAO_SERVO
     else if mi = eDDL_MODULE_TEMPERATURE_HUMIDITY then eAO_TEMPERATURE_HUMIDITY
     else eAO_GPS)"

definition ddl_subscribe_events :: "u32 \<Rightarrow> Event list" where
  "ddl_subscribe_events mi =
    (if mi = eDDL_MODULE_DISTANCE then distance_subscribe_events
     else if mi = eDDL_MODULE_SERVO then servo_subscribe_events
     else if mi = eDDL_MODULE_TEMPERATURE_HUMIDITY then temperature_humidity_subscribe_events
     else gps_subscribe_events)"

text \<open>Every module gets the address of the shared frame and keeps the part of its own sensor.\<close>

definition ddl_module_init :: "u32 \<Rightarrow> DDLFrame option \<Rightarrow> ddl \<Rightarrow> os \<Rightarrow> eStatus \<times> ddl \<times> os" where
  "ddl_module_init mi frame w s =
    (if mi = eDDL_MODULE_DISTANCE
     then let (st, a, s) = ddl_distance_init (map_option dist_frame frame) (m_distance w) s
          in (st, w\<lparr>m_distance := a\<rparr>, s)
     else if mi = eDDL_MODULE_SERVO
     then let (st, a, s) = ddl_servo_init (map_option servo_frame frame) (m_servo w) s
          in (st, w\<lparr>m_servo := a\<rparr>, s)
     else if mi = eDDL_MODULE_TEMPERATURE_HUMIDITY
     then let (st, a, s) = ddl_temperature_humidity_init (map_option temp_hum_frame frame) (m_temp_hum w) s
          in (st, w\<lparr>m_temp_hum := a\<rparr>, s)
     else let (st, a, s) = ddl_gps_init (map_option gps_frame frame) (m_gps w) s
          in (st, w\<lparr>m_gps := a\<rparr>, s))"

definition ddl_module_post :: "u32 \<Rightarrow> Event option \<Rightarrow> ddl \<Rightarrow> os \<Rightarrow> eStatus \<times> ddl \<times> os" where
  "ddl_module_post mi event w s =
    (if mi = eDDL_MODULE_DISTANCE
     then let (st, a, s) = ddl_distance_post event (m_distance w) s
          in (st, w\<lparr>m_distance := the a\<rparr>, s)
     else if mi = eDDL_MODULE_SERVO
     then let (st, a, s) = ddl_servo_post event (m_servo w) s in (st, w\<lparr>m_servo := the a\<rparr>, s)
     else if mi = eDDL_MODULE_TEMPERATURE_HUMIDITY
     then let (st, a, s) = ddl_temperature_humidity_post event (m_temp_hum w) s
          in (st, w\<lparr>m_temp_hum := the a\<rparr>, s)
     else let (st, a, s) = ddl_gps_post event (m_gps w) s in (st, w\<lparr>m_gps := the a\<rparr>, s))"

definition ddl_module_end :: "u32 \<Rightarrow> ddl \<Rightarrow> os \<Rightarrow> eStatus \<times> ddl \<times> os" where
  "ddl_module_end mi w s =
    (if mi = eDDL_MODULE_DISTANCE
     then let (st, a, s) = ddl_distance_end (m_distance w) s in (st, w\<lparr>m_distance := the a\<rparr>, s)
     else if mi = eDDL_MODULE_SERVO
     then let (st, a, s) = ddl_servo_end (m_servo w) s in (st, w\<lparr>m_servo := the a\<rparr>, s)
     else if mi = eDDL_MODULE_TEMPERATURE_HUMIDITY
     then let (st, a, s) = ddl_temperature_humidity_end (m_temp_hum w) s
          in (st, w\<lparr>m_temp_hum := the a\<rparr>, s)
     else let (st, a, s) = ddl_gps_end (m_gps w) s in (st, w\<lparr>m_gps := the a\<rparr>, s))"

definition ddl_module_join :: "u32 \<Rightarrow> ddl \<Rightarrow> os \<Rightarrow> os" where
  "ddl_module_join mi w s =
    (if mi = eDDL_MODULE_DISTANCE then ddl_distance_join (m_distance w) s
     else if mi = eDDL_MODULE_SERVO then ddl_servo_join (m_servo w) s
     else if mi = eDDL_MODULE_TEMPERATURE_HUMIDITY then ddl_temperature_humidity_join (m_temp_hum w) s
     else ddl_gps_join (m_gps w) s)"

definition ddl_module_delete :: "u32 \<Rightarrow> ddl \<Rightarrow> os \<Rightarrow> ddl \<times> os" where
  "ddl_module_delete mi w s =
    (if mi = eDDL_MODULE_DISTANCE then (w, ddl_distance_delete (m_distance w) s)
     else if mi = eDDL_MODULE_SERVO
     then let (a, s) = ddl_servo_delete (m_servo w) s in (w\<lparr>m_servo := a\<rparr>, s)
     else if mi = eDDL_MODULE_TEMPERATURE_HUMIDITY
     then (w, ddl_temperature_humidity_delete (m_temp_hum w) s)
     else (w, ddl_gps_delete (m_gps w) s))"

section \<open>Operations\<close>

definition ddl_indices :: "u32 list" where
  "ddl_indices = map of_nat [0..<unat eDLL_MODULE_COUNT]"

text \<open>The inner and the outer loop of \<^verbatim>\<open>ddl_init\<close>, which stop at the first failure.\<close>

fun ddl_subscribe ::
    "u32 \<Rightarrow> Event list \<Rightarrow> post_fn event_bus \<Rightarrow> os \<Rightarrow> eStatus \<times> post_fn event_bus \<times> os" where
  "ddl_subscribe mi [] b s = (eSTATUS_SUCCESSFUL, b, s)"
| "ddl_subscribe mi (ev # evs) b s =
    (let (status, b, s) = util_event_bus_subscribe (ddl_ao_id mi) (Some Ddl_post) mi (Some ev) b s
     in if failed status then (status, b, s) else ddl_subscribe mi evs b s)"

fun ddl_init_modules ::
    "u32 list \<Rightarrow> DDLFrame option \<Rightarrow> ddl \<Rightarrow> post_fn event_bus \<Rightarrow> os
      \<Rightarrow> eStatus \<times> ddl \<times> post_fn event_bus \<times> os" where
  "ddl_init_modules [] frame w b s = (eSTATUS_SUCCESSFUL, w, b, s)"
| "ddl_init_modules (mi # ms) frame w b s =
    (let (status, w, s) = ddl_module_init mi frame w s
     in if failed status then (status, w, b, s)
        else let (status, b, s) = ddl_subscribe mi (ddl_subscribe_events mi) b s
             in if failed status then (status, w, b, s) else ddl_init_modules ms frame w b s)"

definition ddl_init ::
    "DDLFrame option \<Rightarrow> ddl \<Rightarrow> post_fn event_bus \<Rightarrow> os \<Rightarrow> eStatus \<times> ddl \<times> post_fn event_bus \<times> os" where
  "ddl_init frame w b s = ddl_init_modules ddl_indices frame w b s"

definition ddl_post :: "u32 \<Rightarrow> Event option \<Rightarrow> ddl \<Rightarrow> os \<Rightarrow> eStatus \<times> ddl \<times> os" where
  "ddl_post mi event w s =
    (if eDLL_MODULE_COUNT \<le> mi then (eSTATUS_INVALID_VALUE, w, s)
     else ddl_module_post mi event w s)"

fun ddl_end_modules :: "u32 list \<Rightarrow> ddl \<Rightarrow> os \<Rightarrow> eStatus \<times> ddl \<times> os" where
  "ddl_end_modules [] w s = (eSTATUS_SUCCESSFUL, w, s)"
| "ddl_end_modules (mi # ms) w s =
    (let (status, w, s) = ddl_module_end mi w s
     in if failed status then (status, w, s) else ddl_end_modules ms w s)"

definition ddl_end :: "ddl \<Rightarrow> os \<Rightarrow> eStatus \<times> ddl \<times> os" where
  "ddl_end w s = ddl_end_modules ddl_indices w s"

definition ddl_join :: "ddl \<Rightarrow> os \<Rightarrow> os" where
  "ddl_join w s = fold (\<lambda>mi s. ddl_module_join mi w s) ddl_indices s"

definition ddl_delete :: "ddl \<Rightarrow> os \<Rightarrow> ddl \<times> os" where
  "ddl_delete w s = fold (\<lambda>mi (w, s). ddl_module_delete mi w s) ddl_indices (w, s)"

section \<open>The modules keep the contract\<close>

interpretation distance_mod: ao_module ddl_distance_post ddl_distance_end event_queue
  by unfold_locales (simp_all only: ddl_distance_post_def ddl_distance_end_def ao_module_laws)

interpretation servo_mod: ao_module ddl_servo_post ddl_servo_end event_queue
  by unfold_locales (simp_all only: ddl_servo_post_def ddl_servo_end_def ao_module_laws)

interpretation temp_hum_mod: ao_module ddl_temperature_humidity_post ddl_temperature_humidity_end event_queue
  by unfold_locales
    (simp_all only: ddl_temperature_humidity_post_def ddl_temperature_humidity_end_def ao_module_laws)

interpretation gps_mod: ao_module ddl_gps_post ddl_gps_end event_queue
  by unfold_locales (simp_all only: ddl_gps_post_def ddl_gps_end_def ao_module_laws)

lemma ddl_indices_eq: "ddl_indices = [eDDL_MODULE_DISTANCE, eDDL_MODULE_SERVO,
    eDDL_MODULE_TEMPERATURE_HUMIDITY, eDDL_MODULE_GPS]"
  by (simp add: ddl_indices_def fsm_codes upt_conv_Cons)

text \<open>The queue of a module, by the identifier of its active object.\<close>

definition ddl_queue :: "u32 \<Rightarrow> ddl \<Rightarrow> Event Queue" where
  "ddl_queue ao w =
    (if ao = eAO_DISTANCE then event_queue (m_distance w)
     else if ao = eAO_SERVO then event_queue (m_servo w)
     else if ao = eAO_TEMPERATURE_HUMIDITY then event_queue (m_temp_hum w)
     else event_queue (m_gps w))"

definition ddl_aos :: "u32 list" where
  "ddl_aos = [eAO_DISTANCE, eAO_SERVO, eAO_TEMPERATURE_HUMIDITY, eAO_GPS]"

definition ddl_ready :: "ddl \<Rightarrow> os \<Rightarrow> bool" where
  "ddl_ready w s \<longleftrightarrow> (\<forall>ao\<in>set ddl_aos. queue_inv s (ddl_queue ao w, s))"

lemma ddl_ids [simp]:
  "ddl_ao_id eDDL_MODULE_DISTANCE = eAO_DISTANCE" "ddl_ao_id eDDL_MODULE_SERVO = eAO_SERVO"
  "ddl_ao_id eDDL_MODULE_TEMPERATURE_HUMIDITY = eAO_TEMPERATURE_HUMIDITY"
  "ddl_ao_id eDDL_MODULE_GPS = eAO_GPS"
  "ddl_queue eAO_DISTANCE w = event_queue (m_distance w)"
  "ddl_queue eAO_SERVO w = event_queue (m_servo w)"
  "ddl_queue eAO_TEMPERATURE_HUMIDITY w = event_queue (m_temp_hum w)"
  "ddl_queue eAO_GPS w = event_queue (m_gps w)"
  by (simp_all add: ddl_ao_id_def ddl_queue_def fsm_codes)

lemma ddl_distinct [simp]:
  "eAO_DISTANCE \<noteq> eAO_SERVO" "eAO_DISTANCE \<noteq> eAO_TEMPERATURE_HUMIDITY" "eAO_DISTANCE \<noteq> eAO_GPS"
  "eAO_SERVO \<noteq> eAO_DISTANCE" "eAO_SERVO \<noteq> eAO_TEMPERATURE_HUMIDITY" "eAO_SERVO \<noteq> eAO_GPS"
  "eAO_TEMPERATURE_HUMIDITY \<noteq> eAO_DISTANCE" "eAO_TEMPERATURE_HUMIDITY \<noteq> eAO_SERVO"
  "eAO_TEMPERATURE_HUMIDITY \<noteq> eAO_GPS"
  "eAO_GPS \<noteq> eAO_DISTANCE" "eAO_GPS \<noteq> eAO_SERVO" "eAO_GPS \<noteq> eAO_TEMPERATURE_HUMIDITY"
  by (simp_all add: fsm_codes)

lemma ddl_module_post_cases:
  "ddl_module_post eDDL_MODULE_DISTANCE ev w s =
     (case ddl_distance_post ev (m_distance w) s of (st, a, s) \<Rightarrow> (st, w\<lparr>m_distance := the a\<rparr>, s))"
  "ddl_module_post eDDL_MODULE_SERVO ev w s =
     (case ddl_servo_post ev (m_servo w) s of (st, a, s) \<Rightarrow> (st, w\<lparr>m_servo := the a\<rparr>, s))"
  "ddl_module_post eDDL_MODULE_TEMPERATURE_HUMIDITY ev w s =
     (case ddl_temperature_humidity_post ev (m_temp_hum w) s of
        (st, a, s) \<Rightarrow> (st, w\<lparr>m_temp_hum := the a\<rparr>, s))"
  "ddl_module_post eDDL_MODULE_GPS ev w s =
     (case ddl_gps_post ev (m_gps w) s of (st, a, s) \<Rightarrow> (st, w\<lparr>m_gps := the a\<rparr>, s))"
  by (simp_all add: ddl_module_post_def fsm_codes)

lemma ddl_module_cases:
  assumes "mi < eDLL_MODULE_COUNT"
  obtains "mi = eDDL_MODULE_DISTANCE" | "mi = eDDL_MODULE_SERVO"
    | "mi = eDDL_MODULE_TEMPERATURE_HUMIDITY" | "mi = eDDL_MODULE_GPS"
proof -
  have "unat mi < 4" using assms by (simp add: fsm_codes word_less_nat_alt)
  then have "unat mi = 0 \<or> unat mi = 1 \<or> unat mi = 2 \<or> unat mi = 3" by linarith
  then show ?thesis using that by (auto simp: fsm_codes word_unat_eq_iff)
qed

text \<open>What a post to the module of active object \<open>target\<close> does to all queues.\<close>

definition posted ::
    "(u32 \<Rightarrow> 'w \<Rightarrow> Event Queue) \<Rightarrow> u32 list \<Rightarrow> u32 \<Rightarrow> Event \<Rightarrow> 'w \<Rightarrow> 'w \<Rightarrow> os \<Rightarrow> bool" where
  "posted queue aos target e w w' s \<longleftrightarrow>
    (\<forall>ao\<in>set aos. queue_inv s (queue ao w', s) \<and> q_capacity (queue ao w') = q_capacity (queue ao w) \<and>
      queue_list (queue ao w') = queue_list (queue ao w) @
        (if ao = target \<and> unat (q_size (queue ao w)) < unat (q_capacity (queue ao w)) then [e] else []))"

definition post_status :: "Event Queue \<Rightarrow> eStatus" where
  "post_status q = (if unat (q_size q) < unat (q_capacity q) then eSTATUS_SUCCESSFUL else eSTATUS_ACTION_FAILED)"

text \<open>Posting to a module appends to its queue, if there is room, and leaves the others alone.\<close>

lemma ddl_post_queue:
  assumes "ddl_ready w s" and "mi < eDLL_MODULE_COUNT"
  shows "\<exists>w'. ddl_post mi (Some e) w s = (post_status (ddl_queue (ddl_ao_id mi) w), w', s) \<and>
    posted ddl_queue ddl_aos (ddl_ao_id mi) e w w' s"
proof -
  have inv: "queue_inv s (event_queue (m_distance w), s)" "queue_inv s (event_queue (m_servo w), s)"
    "queue_inv s (event_queue (m_temp_hum w), s)" "queue_inv s (event_queue (m_gps w), s)"
    using assms(1) by (simp_all add: ddl_ready_def ddl_aos_def)
  have p: "ddl_post mi (Some e) w s = ddl_module_post mi (Some e) w s"
    using assms(2) by (auto simp: ddl_post_def dest: leD)
  show ?thesis
    using assms(2)
  proof (cases rule: ddl_module_cases)
    case 1
    obtain a where "ddl_distance_post (Some e) (m_distance w) s = (post_status (event_queue (m_distance w)), Some a, s)"
      and "posted (\<lambda>_. event_queue) [0] 0 e (m_distance w) a s"
      using distance_mod.post_some [OF inv(1), of e] by (auto simp: posted_def post_status_def)
    with 1 inv p show ?thesis
      by (intro exI [of _ "w\<lparr>m_distance := a\<rparr>"])
        (simp add: ddl_module_post_cases posted_def ddl_aos_def)
  next
    case 2
    obtain a where "ddl_servo_post (Some e) (m_servo w) s = (post_status (event_queue (m_servo w)), Some a, s)"
      and "posted (\<lambda>_. event_queue) [0] 0 e (m_servo w) a s"
      using servo_mod.post_some [OF inv(2), of e] by (auto simp: posted_def post_status_def)
    with 2 inv p show ?thesis
      by (intro exI [of _ "w\<lparr>m_servo := a\<rparr>"])
        (simp add: ddl_module_post_cases posted_def ddl_aos_def)
  next
    case 3
    obtain a where "ddl_temperature_humidity_post (Some e) (m_temp_hum w) s = (post_status (event_queue (m_temp_hum w)), Some a, s)"
      and "posted (\<lambda>_. event_queue) [0] 0 e (m_temp_hum w) a s"
      using temp_hum_mod.post_some [OF inv(3), of e] by (auto simp: posted_def post_status_def)
    with 3 inv p show ?thesis
      by (intro exI [of _ "w\<lparr>m_temp_hum := a\<rparr>"])
        (simp add: ddl_module_post_cases posted_def ddl_aos_def)
  next
    case 4
    obtain a where "ddl_gps_post (Some e) (m_gps w) s = (post_status (event_queue (m_gps w)), Some a, s)"
      and "posted (\<lambda>_. event_queue) [0] 0 e (m_gps w) a s"
      using gps_mod.post_some [OF inv(4), of e] by (auto simp: posted_def post_status_def)
    with 4 inv p show ?thesis
      by (intro exI [of _ "w\<lparr>m_gps := a\<rparr>"])
        (simp add: ddl_module_post_cases posted_def ddl_aos_def)
  qed
qed

end
