(* ===== verification/Broadcaster.thy ===== *)
theory Broadcaster
  imports DdlFrame
begin

text \<open>
  The broadcaster, \<^verbatim>\<open>src/src/app/broadcaster/\<close>: an active object that copies the live frame of the
  sensors into the snapshot handed to the clients. The object holds two pointers; \<open>br_memory\<close> is the
  part of the memory that holds frames.
\<close>

definition eBROADCASTER_QUEUE_CAPACITY :: u32 where "eBROADCASTER_QUEUE_CAPACITY = 4"
definition eBROADCASTER_EVENT_UPDATE :: u32 where
  [fsm_codes]: "eBROADCASTER_EVENT_UPDATE = eFSM_EVENT_USER"

record BroadcasterObject =
  br_source :: addr
  br_destination :: addr
  br_memory :: "addr \<Rightarrow> DDLFrame"

datatype BroadcasterState = broadcaster_init | broadcaster_idle

type_synonym broadcaster_ao = "(BroadcasterState, BroadcasterObject) ActiveObject"

section \<open>State functions\<close>

text \<open>The four groups of assignments, each field by itself.\<close>

definition copy_distance :: "DistanceFrame \<Rightarrow> DistanceFrame \<Rightarrow> DistanceFrame" where
  "copy_distance src dst = dst\<lparr>df_valid := df_valid src, df_distance := df_distance src,
     df_status := df_status src, df_precision := df_precision src, df_strength := df_strength src\<rparr>"

definition copy_temp_hum ::
    "TemperatureHumidityFrame \<Rightarrow> TemperatureHumidityFrame \<Rightarrow> TemperatureHumidityFrame" where
  "copy_temp_hum src dst = dst\<lparr>thf_valid := thf_valid src, thf_humidity := thf_humidity src,
     thf_temperature := thf_temperature src\<rparr>"

definition copy_servo :: "ServoFrame \<Rightarrow> ServoFrame \<Rightarrow> ServoFrame" where
  "copy_servo src dst = dst\<lparr>sf_hor_angle := sf_hor_angle src, sf_ver_angle := sf_ver_angle src\<rparr>"

definition copy_gps :: "GPSFrame \<Rightarrow> GPSFrame \<Rightarrow> GPSFrame" where
  "copy_gps src dst = dst\<lparr>gf_latitude := gf_latitude src, gf_longitude := gf_longitude src,
     gf_altitude := gf_altitude src, gf_h_acc := gf_h_acc src, gf_valid := gf_valid src,
     gf_fix_type := gf_fix_type src, gf_num_satellites := gf_num_satellites src\<rparr>"

definition copy_frame :: "BroadcasterObject \<Rightarrow> BroadcasterObject" where
  "copy_frame aobj =
    (let src = br_memory aobj (br_source aobj);
         dst = br_memory aobj (br_destination aobj);
         dst = dst\<lparr>dist_frame := copy_distance (dist_frame src) (dist_frame dst)\<rparr>;
         dst = dst\<lparr>temp_hum_frame := copy_temp_hum (temp_hum_frame src) (temp_hum_frame dst)\<rparr>;
         dst = dst\<lparr>servo_frame := copy_servo (servo_frame src) (servo_frame dst)\<rparr>;
         dst = dst\<lparr>gps_frame := copy_gps (gps_frame src) (gps_frame dst)\<rparr>
     in aobj\<lparr>br_memory := (br_memory aobj)(br_destination aobj := dst)\<rparr>)"

definition broadcaster_init_state :: "(BroadcasterState, BroadcasterObject) StateFP" where
  "broadcaster_init_state T ev f =
    (if etype ev = eFSM_EVENT_INIT then T broadcaster_idle f else Some f)"

definition broadcaster_idle_state :: "(BroadcasterState, BroadcasterObject) StateFP" where
  "broadcaster_idle_state T ev f =
    (if etype ev = eFSM_EVENT_ENTRY then Some f
     else if etype ev = eBROADCASTER_EVENT_UPDATE
     then Some (f\<lparr>fsm_arg := copy_frame (fsm_arg f)\<rparr>)
     else Some f)"

fun broadcaster_states :: "BroadcasterState \<Rightarrow> (BroadcasterState, BroadcasterObject) StateFP" where
  "broadcaster_states broadcaster_init = broadcaster_init_state"
| "broadcaster_states broadcaster_idle = broadcaster_idle_state"

section \<open>The module\<close>

definition app_broadcaster_configure ::
    "addr \<Rightarrow> addr \<Rightarrow> broadcaster_ao \<Rightarrow> eStatus \<times> broadcaster_ao" where
  "app_broadcaster_configure source destination a =
    (if source = 0 \<or> destination = 0 then (eSTATUS_NULL_PARAM, a)
     else let aobj = (fsm_arg (active_fsm a))\<lparr>br_source := source, br_destination := destination\<rparr>
          in (eSTATUS_SUCCESSFUL, a\<lparr>active_fsm := (active_fsm a)\<lparr>fsm_arg := aobj\<rparr>\<rparr>))"

definition app_broadcaster_init :: "broadcaster_ao \<Rightarrow> os \<Rightarrow> eStatus \<times> broadcaster_ao \<times> os" where
  "app_broadcaster_init a s =
    (let aobj = fsm_arg (active_fsm a)
     in if br_source aobj = 0 \<or> br_destination aobj = 0 then (eSTATUS_INVALID_CONFIG, a, s)
        else let (st, r, s) = util_active_object_init (Some a) eBROADCASTER_QUEUE_CAPACITY
                                (Some broadcaster_init) s
             in (st, the r, s))"

definition app_broadcaster_post ::
    "Event option \<Rightarrow> broadcaster_ao \<Rightarrow> os \<Rightarrow> eStatus \<times> broadcaster_ao option \<times> os" where
  "app_broadcaster_post event a s = util_active_object_post (Some a) event s"

definition app_broadcaster_end :: "broadcaster_ao \<Rightarrow> os \<Rightarrow> eStatus \<times> broadcaster_ao option \<times> os" where
  "app_broadcaster_end a s = util_active_object_end (Some a) s"

definition app_broadcaster_join :: "broadcaster_ao \<Rightarrow> os \<Rightarrow> os" where
  "app_broadcaster_join a s = util_active_object_join a s"

definition app_broadcaster_delete :: "broadcaster_ao \<Rightarrow> os \<Rightarrow> os" where
  "app_broadcaster_delete a s = util_active_object_delete a s"

section \<open>Facts\<close>

text \<open>No field is left out: after an update the destination equals the source.\<close>

lemma copy_frame_complete:
  "br_memory (copy_frame a) = (br_memory a)(br_destination a := br_memory a (br_source a))"
proof -
  have c1: "copy_distance d d' = d" for d d' by (cases d; cases d') (simp add: copy_distance_def)
  have c2: "copy_temp_hum t t' = t" for t t' by (cases t; cases t') (simp add: copy_temp_hum_def)
  have c3: "copy_servo v v' = v" for v v' by (cases v; cases v') (simp add: copy_servo_def)
  have c4: "copy_gps g g' = g" for g g' by (cases g; cases g') (simp add: copy_gps_def)
  have r: "y\<lparr>dist_frame := dist_frame x, temp_hum_frame := temp_hum_frame x,
      servo_frame := servo_frame x, gps_frame := gps_frame x\<rparr> = x" for x y :: DDLFrame
    by (cases x; cases y) simp
  show ?thesis unfolding copy_frame_def Let_def c1 c2 c3 c4 by (simp add: r)
qed

lemma copy_frame_pointers [simp]:
  "br_source (copy_frame a) = br_source a" "br_destination (copy_frame a) = br_destination a"
  by (simp_all add: copy_frame_def Let_def)

lemma copy_frame_only: "copy_frame a = a\<lparr>br_memory := (br_memory a)(br_destination a := br_memory a (br_source a))\<rparr>"
  unfolding copy_frame_complete [symmetric] by (simp add: copy_frame_def Let_def)

definition broadcaster_ok :: "BroadcasterObject \<Rightarrow> bool" where
  "broadcaster_ok a \<longleftrightarrow> br_source a \<noteq> 0 \<and> br_destination a \<noteq> 0"

interpretation bcast: fsm_machine broadcaster_states broadcaster_ok "\<lambda>_. 0" 0
proof (unfold_locales, goal_cases)
  case (2 f st T)
  then show ?case
    by (cases st) (auto simp: broadcaster_init_state_def broadcaster_idle_state_def fsm_codes)
next
  case (3 f st T)
  then show ?case
    by (cases st) (auto simp: broadcaster_init_state_def broadcaster_idle_state_def fsm_codes)
next
  case (4 f st T ev)
  then show ?case
    by (cases st) (auto simp: broadcaster_init_state_def broadcaster_idle_state_def broadcaster_ok_def)
next
  case (5 T T' st ev f f')
  then show ?case
    by (cases st) (auto simp: broadcaster_init_state_def broadcaster_idle_state_def split: if_splits)
qed simp

text \<open>The effect of an event on the machine in its idle state.\<close>

lemma broadcaster_idle_event:
  assumes "current_state f = Some broadcaster_idle" and "eFSM_EVENT_USER \<le> etype ev"
  shows "call_state broadcaster_states (Suc n) ev f = Some (f\<lparr>fsm_arg :=
    (if etype ev = eBROADCASTER_EVENT_UPDATE then copy_frame (fsm_arg f) else fsm_arg f)\<rparr>)"
  using assms by (cases "etype ev = 1") (auto simp: broadcaster_idle_state_def fsm_codes)

end
