(* ===== verification/Scheduler.thy ===== *)
theory Scheduler
  imports DdlFrame
begin

text \<open>
  The scheduler, \<^verbatim>\<open>src/src/app/scheduler/\<close>: a table of time slots and a periodic timer; on every tick
  the event of the next slot is published on the event bus.

  The machine's argument is the pair of the scheduler's object and the rest of the memory, of type
  \<open>'w\<close>: publishing (\<^verbatim>\<open>util_event_bus_publish\<close>) acts on the latter and is an argument of the state
  functions. Its status is only logged.
\<close>

section \<open>Configuration\<close>

definition eSCHEDULER_EVENT_START :: u32 where [fsm_codes]: "eSCHEDULER_EVENT_START = eFSM_EVENT_USER"
definition eSCHEDULER_EVENT_STOP :: u32 where [fsm_codes]: "eSCHEDULER_EVENT_STOP = 5"
definition eSCHEDULER_EVENT_TICK :: u32 where [fsm_codes]: "eSCHEDULER_EVENT_TICK = 6"

definition eSCHEDULER_QUEUE_CAPACITY :: u32 where "eSCHEDULER_QUEUE_CAPACITY = 4"
definition eSCHEDULER_CYCLE_TIME_MS :: nat where "eSCHEDULER_CYCLE_TIME_MS = 2000"
definition eSCHEDULER_SUBSCRIBERS_MAX :: nat where "eSCHEDULER_SUBSCRIBERS_MAX = 6"
definition eSCHEDULER_TICK_MS :: nat where
  "eSCHEDULER_TICK_MS = eSCHEDULER_CYCLE_TIME_MS div eSCHEDULER_SUBSCRIBERS_MAX"

record Subscriber =
  sb_event :: "Event option"
  sb_ao_id :: u32
  sb_active :: bool

record SchedulerObject =
  sc_timer :: addr
  sc_timer_arg :: timer_arg
  sc_tick :: u32
  sc_subscribers :: "Subscriber list"
  sc_os :: os

datatype SchedulerState = scheduler_init | scheduler_error | scheduler_idle | scheduler_run

type_synonym 'w publish_fn = "u32 \<Rightarrow> u32 \<Rightarrow> 'w \<Rightarrow> eStatus \<times> 'w"
type_synonym scheduler_ao = "(SchedulerState, SchedulerObject) ActiveObject"

definition zero_subscriber :: Subscriber where
  "zero_subscriber = \<lparr>sb_event = None, sb_ao_id = 0, sb_active = False\<rparr>"

section \<open>State functions\<close>

definition scheduler_init_state :: "(SchedulerState, SchedulerObject \<times> 'w) StateFP" where
  "scheduler_init_state T ev f =
    (let (aobj, w) = fsm_arg f
     in if etype ev = eFSM_EVENT_INIT
        then let aobj = aobj\<lparr>sc_timer_arg :=
                   \<lparr>handler = Some Scheduler_tick_handler, handler_arg = eAO_SCHEDULER\<rparr>\<rparr>;
                 (st, t, s) = osal_timer_init (Some (sc_timer aobj)) (Some (sc_timer_arg aobj)) (sc_os aobj);
                 f = f\<lparr>fsm_arg := (aobj\<lparr>sc_timer := the t, sc_os := s\<rparr>, w)\<rparr>
             in if failed st then T scheduler_error f else T scheduler_idle f
        else Some f)"

definition scheduler_error_state :: "(SchedulerState, SchedulerObject \<times> 'w) StateFP" where
  "scheduler_error_state T ev f = Some f"

definition scheduler_idle_state :: "(SchedulerState, SchedulerObject \<times> 'w) StateFP" where
  "scheduler_idle_state T ev f =
    (let (aobj, w) = fsm_arg f
     in if etype ev = eFSM_EVENT_ENTRY then Some (f\<lparr>fsm_arg := (aobj\<lparr>sc_tick := 0\<rparr>, w)\<rparr>)
        else if etype ev = eSCHEDULER_EVENT_START then T scheduler_run f
        else Some f)"

text \<open>
  Publishing the event of a slot. The pointer to the event is dereferenced: \<open>os_ub\<close> when it is null.
\<close>

definition publish_slot ::
    "'w publish_fn \<Rightarrow> Subscriber \<Rightarrow> SchedulerObject \<times> 'w \<Rightarrow> SchedulerObject \<times> 'w" where
  "publish_slot pub sub x =
    (let (aobj, w) = x
     in case sb_event sub of
          None \<Rightarrow> (aobj\<lparr>sc_os := (sc_os aobj)\<lparr>os_ub := True\<rparr>\<rparr>, w)
        | Some ev \<Rightarrow> (aobj, snd (pub (sb_ao_id sub) (etype ev) w)))"

definition scheduler_run_entry :: "'w publish_fn \<Rightarrow> SchedulerObject \<times> 'w \<Rightarrow> SchedulerObject \<times> 'w" where
  "scheduler_run_entry pub x =
    (let (aobj, w) = x;
         (_, s) = osal_timer_arm (sc_timer aobj) (of_nat eSCHEDULER_TICK_MS) eTIMER_TYPE_REPEAT (sc_os aobj)
     in publish_slot pub (sc_subscribers aobj ! 0) (aobj\<lparr>sc_os := s\<rparr>, w))"

definition scheduler_tick :: "'w publish_fn \<Rightarrow> SchedulerObject \<times> 'w \<Rightarrow> SchedulerObject \<times> 'w" where
  "scheduler_tick pub x =
    (let (aobj, w) = x;
         aobj = aobj\<lparr>sc_tick := (sc_tick aobj + 1) mod of_nat eSCHEDULER_SUBSCRIBERS_MAX\<rparr>;
         sub = sc_subscribers aobj ! unat (sc_tick aobj)
     in if sb_active sub then publish_slot pub sub (aobj, w) else (aobj, w))"

definition scheduler_run_state :: "'w publish_fn \<Rightarrow> (SchedulerState, SchedulerObject \<times> 'w) StateFP" where
  "scheduler_run_state pub T ev f =
    (if etype ev = eFSM_EVENT_ENTRY
     then Some (f\<lparr>fsm_arg := scheduler_run_entry pub (fsm_arg f)\<rparr>)
     else if etype ev = eSCHEDULER_EVENT_STOP then T scheduler_idle f
     else if etype ev = eSCHEDULER_EVENT_TICK
     then Some (f\<lparr>fsm_arg := scheduler_tick pub (fsm_arg f)\<rparr>)
     else if etype ev = eFSM_EVENT_EXIT
     then (let (aobj, w) = fsm_arg f;
               (_, s) = osal_timer_disarm (sc_timer aobj) (sc_os aobj)
           in Some (f\<lparr>fsm_arg := (aobj\<lparr>sc_os := s\<rparr>, w)\<rparr>))
     else Some f)"

fun scheduler_states ::
    "'w publish_fn \<Rightarrow> SchedulerState \<Rightarrow> (SchedulerState, SchedulerObject \<times> 'w) StateFP" where
  "scheduler_states pub scheduler_init = scheduler_init_state"
| "scheduler_states pub scheduler_error = scheduler_error_state"
| "scheduler_states pub scheduler_idle = scheduler_idle_state"
| "scheduler_states pub scheduler_run = scheduler_run_state pub"

lemmas scheduler_state_defs = scheduler_init_state_def scheduler_error_state_def
  scheduler_idle_state_def scheduler_run_state_def

section \<open>The module\<close>

definition tick_handler :: "scheduler_ao \<Rightarrow> os \<Rightarrow> eStatus \<times> scheduler_ao option \<times> os" where
  "tick_handler a s = util_active_object_post (Some a) (Some \<lparr>etype = eSCHEDULER_EVENT_TICK\<rparr>) s"

definition app_scheduler_init :: "scheduler_ao \<Rightarrow> os \<Rightarrow> eStatus \<times> scheduler_ao \<times> os" where
  "app_scheduler_init a s =
    (let aobj = (fsm_arg (active_fsm a))\<lparr>sc_tick := 0,
           sc_subscribers := replicate eSCHEDULER_SUBSCRIBERS_MAX zero_subscriber\<rparr>;
         a = a\<lparr>active_fsm := (active_fsm a)\<lparr>fsm_arg := aobj\<rparr>\<rparr>;
         (st, r, s) = util_active_object_init (Some a) eSCHEDULER_QUEUE_CAPACITY (Some scheduler_init) s
     in (st, the r, s))"

definition app_scheduler_subscribe ::
    "u32 \<Rightarrow> u32 \<Rightarrow> Event option \<Rightarrow> scheduler_ao \<Rightarrow> eStatus \<times> scheduler_ao" where
  "app_scheduler_subscribe slot ao_id event a =
    (let aobj = fsm_arg (active_fsm a); i = unat slot
     in if of_nat eSCHEDULER_SUBSCRIBERS_MAX \<le> slot then (eSTATUS_INVALID_VALUE, a)
        else if event = None then (eSTATUS_NULL_PARAM, a)
        else if sb_active (sc_subscribers aobj ! i) then (eSTATUS_ACTION_FAILED, a)
        else let aobj = aobj\<lparr>sc_subscribers := (sc_subscribers aobj)[i :=
                   \<lparr>sb_event = event, sb_ao_id = ao_id, sb_active = True\<rparr>]\<rparr>
             in (eSTATUS_SUCCESSFUL, a\<lparr>active_fsm := (active_fsm a)\<lparr>fsm_arg := aobj\<rparr>\<rparr>))"

definition app_scheduler_post ::
    "Event option \<Rightarrow> scheduler_ao \<Rightarrow> os \<Rightarrow> eStatus \<times> scheduler_ao option \<times> os" where
  "app_scheduler_post event a s = util_active_object_post (Some a) event s"

definition app_scheduler_end :: "scheduler_ao \<Rightarrow> os \<Rightarrow> eStatus \<times> scheduler_ao option \<times> os" where
  "app_scheduler_end a s = util_active_object_end (Some a) s"

definition app_scheduler_join :: "scheduler_ao \<Rightarrow> os \<Rightarrow> os" where
  "app_scheduler_join a s = util_active_object_join a s"

definition app_scheduler_delete :: "scheduler_ao \<Rightarrow> os \<Rightarrow> scheduler_ao \<times> os" where
  "app_scheduler_delete a s =
    (let s = util_active_object_delete a s;
         aobj = fsm_arg (active_fsm a);
         aobj = aobj\<lparr>sc_os := osal_timer_destroy (sc_timer aobj) (sc_os aobj)\<rparr>
     in (a\<lparr>active_fsm := (active_fsm a)\<lparr>fsm_arg := aobj\<rparr>\<rparr>, s))"

section \<open>The contract of the machine\<close>

definition scheduler_ok :: "SchedulerObject \<times> 'w \<Rightarrow> bool" where
  "scheduler_ok x \<longleftrightarrow> length (sc_subscribers (fst x)) = eSCHEDULER_SUBSCRIBERS_MAX \<and>
    unat (sc_tick (fst x)) < eSCHEDULER_SUBSCRIBERS_MAX"

lemma tick_next: "unat ((t + 1) mod of_nat eSCHEDULER_SUBSCRIBERS_MAX :: u32)
    = Suc (unat t) mod eSCHEDULER_SUBSCRIBERS_MAX"
  if "unat t < eSCHEDULER_SUBSCRIBERS_MAX" for t :: u32
proof -
  have "t < 6" using that by (simp add: eSCHEDULER_SUBSCRIBERS_MAX_def word_less_nat_alt)
  then show ?thesis using unat_Suc_mod [of t 6] by (simp add: eSCHEDULER_SUBSCRIBERS_MAX_def)
qed

lemma publish_slot_object:
  "fst (publish_slot pub sub x) = (fst x)\<lparr>sc_os := sc_os (fst (publish_slot pub sub x))\<rparr>"
  by (cases x) (simp add: publish_slot_def split: option.split)

lemma publish_slot_ok [simp]: "scheduler_ok (publish_slot pub sub x) = scheduler_ok x"
  by (subst (1 2) scheduler_ok_def, subst (1 2) publish_slot_object) simp

lemma scheduler_run_entry_ok: "scheduler_ok x \<Longrightarrow> scheduler_ok (scheduler_run_entry pub x)"
  by (cases x) (auto simp: scheduler_run_entry_def Let_def split: prod.split, simp add: scheduler_ok_def)

lemma scheduler_tick_ok:
  assumes "scheduler_ok x"
  shows "scheduler_ok (scheduler_tick pub x)"
proof (cases x)
  case (Pair a w)
  define a1 where "a1 = a\<lparr>sc_tick := (sc_tick a + 1) mod of_nat eSCHEDULER_SUBSCRIBERS_MAX\<rparr>"
  have "unat (sc_tick a1) < eSCHEDULER_SUBSCRIBERS_MAX"
    using assms tick_next [of "sc_tick a"]
    by (simp add: a1_def Pair scheduler_ok_def eSCHEDULER_SUBSCRIBERS_MAX_def)
  then have "scheduler_ok (a1, w)" using assms by (simp add: a1_def Pair scheduler_ok_def)
  then show ?thesis by (simp add: Pair scheduler_tick_def a1_def [symmetric] Let_def)
qed

lemmas scheduler_ops_ok = scheduler_run_entry_ok scheduler_tick_ok

interpretation sched: fsm_machine "scheduler_states pub" scheduler_ok "\<lambda>_. 0" 0 for pub
proof (unfold_locales, goal_cases)
  case (2 f st T)
  then show ?case
    by (cases st) (auto simp: scheduler_state_defs scheduler_ok_def fsm_codes Let_def split: prod.split)
next
  case (3 f st T)
  then show ?case
    by (cases st) (auto simp: scheduler_state_defs scheduler_ops_ok fsm_codes Let_def split: prod.split,
        auto simp: scheduler_ok_def eSCHEDULER_SUBSCRIBERS_MAX_def)
next
  case (4 f st T ev)
  then show ?case
    by (cases st) (auto simp: scheduler_state_defs scheduler_ops_ok Let_def split: prod.split,
        auto simp: scheduler_ok_def eSCHEDULER_SUBSCRIBERS_MAX_def)
next
  case (5 T T' st ev f f')
  then show ?case
    by (cases st) (auto simp: scheduler_state_defs Let_def split: prod.splits if_splits)
qed simp

section \<open>The time slots\<close>

text \<open>What publishing the event of a slot does to the memory.\<close>

definition slot_effect :: "'w publish_fn \<Rightarrow> Subscriber \<Rightarrow> 'w \<Rightarrow> 'w" where
  "slot_effect pub sub w = (if sb_active sub then snd (pub (sb_ao_id sub) (etype (the (sb_event sub))) w) else w)"

definition slots_ok :: "SchedulerObject \<Rightarrow> bool" where
  "slots_ok a \<longleftrightarrow> (\<forall>sub\<in>set (sc_subscribers a). sb_active sub \<longrightarrow> sb_event sub \<noteq> None)"

lemma scheduler_tick_effect:
  assumes "scheduler_ok (a, w)" and "slots_ok a"
  shows "scheduler_tick pub (a, w) =
    (a\<lparr>sc_tick := of_nat (Suc (unat (sc_tick a)) mod eSCHEDULER_SUBSCRIBERS_MAX)\<rparr>,
     slot_effect pub (sc_subscribers a ! (Suc (unat (sc_tick a)) mod eSCHEDULER_SUBSCRIBERS_MAX)) w)"
proof -
  have t: "unat (sc_tick a) < eSCHEDULER_SUBSCRIBERS_MAX" using assms(1) by (simp add: scheduler_ok_def)
  let ?i = "Suc (unat (sc_tick a)) mod eSCHEDULER_SUBSCRIBERS_MAX"
  have n: "unat ((sc_tick a + 1) mod of_nat eSCHEDULER_SUBSCRIBERS_MAX :: u32) = ?i"
    by (rule tick_next [OF t])
  then have e: "(sc_tick a + 1) mod of_nat eSCHEDULER_SUBSCRIBERS_MAX = (of_nat ?i :: u32)"
    unfolding n [symmetric] by simp
  have "sc_subscribers a ! ?i \<in> set (sc_subscribers a)"
    using assms(1) by (simp add: scheduler_ok_def eSCHEDULER_SUBSCRIBERS_MAX_def)
  then have "sb_active (sc_subscribers a ! ?i) \<Longrightarrow> sb_event (sc_subscribers a ! ?i) \<noteq> None"
    using assms(2) by (simp add: slots_ok_def)
  then show ?thesis
    by (auto simp: scheduler_tick_def publish_slot_def slot_effect_def e n [unfolded e] Let_def)
qed

text \<open>After \<open>n\<close> ticks the slots after the current one have been served in turn.\<close>

lemma scheduler_ticks_effect:
  assumes "scheduler_ok (a, w)" and "slots_ok a"
  shows "(scheduler_tick pub ^^ n) (a, w) =
    (a\<lparr>sc_tick := of_nat ((unat (sc_tick a) + n) mod eSCHEDULER_SUBSCRIBERS_MAX)\<rparr>,
     fold (\<lambda>k. slot_effect pub (sc_subscribers a ! ((unat (sc_tick a) + k) mod eSCHEDULER_SUBSCRIBERS_MAX)))
       [1..<Suc n] w)"
proof (induction n)
  case 0
  have "unat (sc_tick a) mod eSCHEDULER_SUBSCRIBERS_MAX = unat (sc_tick a)"
    using assms(1) by (simp add: scheduler_ok_def)
  then show ?case by simp
next
  case (Suc n)
  let ?t = "(unat (sc_tick a) + n) mod eSCHEDULER_SUBSCRIBERS_MAX"
  have t: "?t < eSCHEDULER_SUBSCRIBERS_MAX" by (simp add: eSCHEDULER_SUBSCRIBERS_MAX_def)
  then have u: "unat (of_nat ?t :: u32) = ?t"
    by (intro unat_of_nat_small) (simp add: eSCHEDULER_SUBSCRIBERS_MAX_def)
  have ok: "scheduler_ok (a\<lparr>sc_tick := of_nat ?t\<rparr>, w')" "slots_ok (a\<lparr>sc_tick := of_nat ?t\<rparr>)" for w' :: 'a
    using assms t u by (simp_all add: scheduler_ok_def slots_ok_def)
  have m: "Suc ?t mod eSCHEDULER_SUBSCRIBERS_MAX = (unat (sc_tick a) + Suc n) mod eSCHEDULER_SUBSCRIBERS_MAX"
    by (simp add: mod_simps)
  define a' where "a' = a\<lparr>sc_tick := of_nat ?t\<rparr>"
  note e = scheduler_tick_effect [OF ok, folded a'_def]
  have "unat (sc_tick a') = ?t" "sc_subscribers a' = sc_subscribers a"
    "a'\<lparr>sc_tick := x\<rparr> = a\<lparr>sc_tick := x\<rparr>" for x
    using u by (simp_all add: a'_def)
  note e' = e [unfolded this m]
  have "[1..<Suc (Suc n)] = [1..<Suc n] @ [Suc n]" by simp
  then show ?case
    by (simp only: funpow.simps comp_apply Suc.IH a'_def [symmetric] e' fold_append fold.simps id_apply)
qed

text \<open>The machine in its run state handles a tick in one call.\<close>

lemma scheduler_run_tick:
  "current_state f = Some scheduler_run \<Longrightarrow> etype ev = eSCHEDULER_EVENT_TICK \<Longrightarrow>
    util_fsm_send_event (scheduler_states pub) (Suc n) (Some f) ev
      = Some (eSTATUS_SUCCESSFUL, Some (f\<lparr>fsm_arg := scheduler_tick pub (fsm_arg f)\<rparr>))"
  by (simp add: util_fsm_send_event_def scheduler_run_state_def fsm_codes)

lemma scheduler_start:
  "current_state f = Some scheduler_idle \<Longrightarrow> etype ev = eSCHEDULER_EVENT_START \<Longrightarrow>
    util_fsm_send_event (scheduler_states pub) (Suc (Suc n)) (Some f) ev
      = Some (eSTATUS_SUCCESSFUL, Some \<lparr>current_state = Some scheduler_run,
          fsm_arg = scheduler_run_entry pub (fsm_arg f)\<rparr>)"
  by (cases f) (simp add: util_fsm_send_event_def scheduler_state_defs fsm_codes Let_def split: prod.split)

lemma fsm_run_ticks:
  "current_state f = Some scheduler_run \<Longrightarrow>
    fsm_run (scheduler_states pub) (Suc n) (replicate k \<lparr>etype = eSCHEDULER_EVENT_TICK\<rparr>) f
      = Some (f\<lparr>fsm_arg := (scheduler_tick pub ^^ k) (fsm_arg f)\<rparr>)"
proof (induction k arbitrary: f)
  case (Suc k)
  then show ?case by (simp add: scheduler_run_tick funpow_swap1)
qed simp

text \<open>
  Started in its idle state, the scheduler serves slot 0 at once and then the slots 1, 2, 3, 4, 5,
  0, 1, ... one per tick.
\<close>

lemma scheduler_serves_slots:
  assumes "current_state f = Some scheduler_idle" and "fsm_arg f = (a, w)"
    and "length (sc_subscribers a) = eSCHEDULER_SUBSCRIBERS_MAX" and "sc_tick a = 0"
    and "slots_ok a" and "sb_active (sc_subscribers a ! 0)"
  shows "\<exists>a'. fsm_run (scheduler_states pub) (Suc (Suc n))
      (\<lparr>etype = eSCHEDULER_EVENT_START\<rparr> # replicate k \<lparr>etype = eSCHEDULER_EVENT_TICK\<rparr>) f
    = Some \<lparr>current_state = Some scheduler_run, fsm_arg = (a',
        fold (\<lambda>i. slot_effect pub (sc_subscribers a ! (i mod eSCHEDULER_SUBSCRIBERS_MAX))) [0..<Suc k] w)\<rparr> \<and>
      sc_subscribers a' = sc_subscribers a \<and> sc_tick a' = of_nat (k mod eSCHEDULER_SUBSCRIBERS_MAX)"
proof -
  obtain st s1 where arm: "osal_timer_arm (sc_timer a) (of_nat eSCHEDULER_TICK_MS) eTIMER_TYPE_REPEAT (sc_os a)
      = (st, s1)" by (cases "osal_timer_arm (sc_timer a) (of_nat eSCHEDULER_TICK_MS) eTIMER_TYPE_REPEAT (sc_os a)") auto
  have "sc_subscribers a ! 0 \<in> set (sc_subscribers a)"
    using assms(3) by (simp add: eSCHEDULER_SUBSCRIBERS_MAX_def)
  then have ev: "sb_event (sc_subscribers a ! 0) \<noteq> None"
    using assms(5,6) by (simp add: slots_ok_def)
  define a1 where "a1 = a\<lparr>sc_os := s1\<rparr>"
  define w1 where "w1 = slot_effect pub (sc_subscribers a ! 0) w"
  have entry: "scheduler_run_entry pub (a, w) = (a1, w1)"
    using ev assms(6)
    by (auto simp: scheduler_run_entry_def arm publish_slot_def slot_effect_def a1_def w1_def)
  have ok: "scheduler_ok (a1, w1)" "slots_ok a1"
    using assms(3,4,5) by (simp_all add: scheduler_ok_def slots_ok_def a1_def eSCHEDULER_SUBSCRIBERS_MAX_def)
  have eq: "[0..<Suc k] = 0 # [1..<Suc k]" by (simp add: upt_rec)
  show ?thesis
    using assms(1,2) assms(4)
    by (simp add: scheduler_start fsm_run_ticks entry scheduler_ticks_effect [OF ok] eq del: upt_Suc)
      (simp add: a1_def w1_def)
qed

text \<open>Entering the run state arms the timer with the tick period, leaving it disarms the timer.\<close>

lemma scheduler_timer:
  assumes "os_timers (sc_os a) (sc_timer a) \<noteq> None" and "sc_timer a \<noteq> 0"
    and "os_answers (sc_os a) (os_asked (sc_os a)) \<noteq> -1"
  shows "\<exists>s. osal_timer_arm (sc_timer a) (of_nat eSCHEDULER_TICK_MS) eTIMER_TYPE_REPEAT (sc_os a)
      = (eSTATUS_SUCCESSFUL, s) \<and> os_timers s (sc_timer a) = Some \<lparr>
        it_value = \<lparr>tv_sec = 0, tv_nsec = 333000000\<rparr>, it_interval = \<lparr>tv_sec = 0, tv_nsec = 333000000\<rparr>\<rparr>"
    "\<exists>s. osal_timer_disarm (sc_timer a) (sc_os a) = (eSTATUS_SUCCESSFUL, s) \<and> \<not> timer_running (sc_timer a) s"
  using assms
  by (auto simp: osal_timer_arm_def osal_timer_disarm_def ask_def timespec_set_ms_def timer_running_def
      zero_timespec_def eTIMER_TYPE_REPEAT_def eTIMER_TYPE_ONCE_def eSCHEDULER_TICK_MS_def
      eSCHEDULER_CYCLE_TIME_MS_def eSCHEDULER_SUBSCRIBERS_MAX_def Let_def)

text \<open>Subscribing fills a free slot and refuses everything else.\<close>

lemma app_scheduler_subscribe_cases:
  fixes slot a
  defines "subs \<equiv> sc_subscribers (fsm_arg (active_fsm a))"
  assumes "length subs = eSCHEDULER_SUBSCRIBERS_MAX"
  shows "app_scheduler_subscribe slot ao event a = (st, a') \<Longrightarrow>
    (st = eSTATUS_SUCCESSFUL \<longleftrightarrow> unat slot < eSCHEDULER_SUBSCRIBERS_MAX \<and> event \<noteq> None \<and>
        \<not> sb_active (subs ! unat slot)) \<and>
    sc_subscribers (fsm_arg (active_fsm a')) = (if st = eSTATUS_SUCCESSFUL
      then subs[unat slot := \<lparr>sb_event = event, sb_ao_id = ao, sb_active = True\<rparr>] else subs)"
  using assms
  by (auto simp: app_scheduler_subscribe_def Let_def word_le_nat_alt eSCHEDULER_SUBSCRIBERS_MAX_def
      split: if_splits)

section \<open>Properties\<close>

text \<open>The scheduler serves its slots in turn: started from idle, after START and any number of ticks it
  has published the event of slot 0, then of slots 1 to 5, and so on around the six slots, each
  active slot once per cycle, free slots never, and nothing else.\<close>

lemma scheduler_round_robin:
  assumes "length (sc_subscribers a) = eSCHEDULER_SUBSCRIBERS_MAX" and "sc_tick a = 0"
    and "slots_ok a" and "sb_active (sc_subscribers a ! 0)"
  shows "\<exists>a'. fsm_run (scheduler_states pub) (n + 2)
      (\<lparr>etype = eSCHEDULER_EVENT_START\<rparr> # replicate k \<lparr>etype = eSCHEDULER_EVENT_TICK\<rparr>)
      \<lparr>current_state = Some scheduler_idle, fsm_arg = (a, w)\<rparr>
    = Some \<lparr>current_state = Some scheduler_run, fsm_arg = (a',
        fold (\<lambda>i. slot_effect pub (sc_subscribers a ! (i mod eSCHEDULER_SUBSCRIBERS_MAX))) [0..<Suc k] w)\<rparr> \<and>
      sc_subscribers a' = sc_subscribers a \<and> sc_tick a' = of_nat (k mod eSCHEDULER_SUBSCRIBERS_MAX)"
  using scheduler_serves_slots [of "\<lparr>current_state = Some scheduler_idle, fsm_arg = (a, w)\<rparr>" a w pub n k] assms
  by (simp add: numeral_2_eq_2 del: fsm_run.simps)

text \<open>A table with two registered slots, and a bus that logs what is published.\<close>

definition demo_scheduler :: SchedulerObject where
  "demo_scheduler = \<lparr>sc_timer = 1, sc_timer_arg = null_timer_arg, sc_tick = 0,
     sc_subscribers = [\<lparr>sb_event = Some \<lparr>etype = 4\<rparr>, sb_ao_id = 1, sb_active = True\<rparr>,
       \<lparr>sb_event = Some \<lparr>etype = 7\<rparr>, sb_ao_id = 2, sb_active = True\<rparr>,
       zero_subscriber, zero_subscriber, zero_subscriber, zero_subscriber],
     sc_os = boot_os (\<lambda>_. 0) (\<lambda>_. zero_timespec)\<rparr>"

definition log_publish :: "(u32 \<times> u32) list publish_fn" where
  "log_publish ao ty w = (eSTATUS_SUCCESSFUL, w @ [(ao, ty)])"

lemma scheduler_round_robin_witness:
  "\<exists>a'. fsm_run (scheduler_states log_publish) 2
      (\<lparr>etype = eSCHEDULER_EVENT_START\<rparr> # replicate 7 \<lparr>etype = eSCHEDULER_EVENT_TICK\<rparr>)
      \<lparr>current_state = Some scheduler_idle, fsm_arg = (demo_scheduler, [])\<rparr>
    = Some \<lparr>current_state = Some scheduler_run, fsm_arg = (a', [(1, 4), (2, 7), (1, 4), (2, 7)])\<rparr>"
proof -
  have a: "length (sc_subscribers demo_scheduler) = eSCHEDULER_SUBSCRIBERS_MAX" "sc_tick demo_scheduler = 0"
    "slots_ok demo_scheduler" "sb_active (sc_subscribers demo_scheduler ! 0)"
    by (simp_all add: demo_scheduler_def eSCHEDULER_SUBSCRIBERS_MAX_def slots_ok_def zero_subscriber_def)
  have "[0..<Suc 7] = [0, 1, 2, 3, 4, 5, 6, 7]" by (simp add: upt_rec)
  then have "fold (\<lambda>i. slot_effect log_publish (sc_subscribers demo_scheduler ! (i mod eSCHEDULER_SUBSCRIBERS_MAX)))
      [0..<Suc 7] [] = [(1, 4), (2, 7), (1, 4), (2, 7)]"
    by (simp add: demo_scheduler_def eSCHEDULER_SUBSCRIBERS_MAX_def slot_effect_def log_publish_def
        zero_subscriber_def)
  with scheduler_round_robin [OF a, where pub = log_publish and n = 0 and k = 7 and w = "[]"]
  show ?thesis unfolding add_0 by auto
qed

end
