(* ===== verification/App.thy ===== *)
theory App
  imports Ddl Broadcaster Scheduler
begin

text \<open>
  The application layer, \<^verbatim>\<open>src/src/app/app.c\<close>: the table of the application modules, the start of
  the whole system and its shutdown.

  \<open>app\<close> is the memory of the running program: the objects of all six active objects, the event bus,
  the shared frames and the operating system. The live frame is made of the frames in the objects of
  the sensor modules, which write the parts of it that they were given.
\<close>

definition eAPP_MODULE_SCHEDULER :: u32 where [fsm_codes]: "eAPP_MODULE_SCHEDULER = 0"
definition eAPP_MODULE_BROADCASTER :: u32 where [fsm_codes]: "eAPP_MODULE_BROADCASTER = 1"
definition eAPP_MODULE_COUNT :: u32 where [fsm_codes]: "eAPP_MODULE_COUNT = 2"

text \<open>The addresses of the static frames.\<close>

definition ddl_frame_addr :: addr where "ddl_frame_addr = 1"
definition ddl_snapshot_addr :: addr where "ddl_snapshot_addr = 2"

record app =
  a_ddl :: ddl
  a_scheduler :: scheduler_ao
  a_broadcaster :: broadcaster_ao
  a_bus :: "post_fn event_bus"
  a_os :: os

section \<open>The table\<close>

definition app_ao_id :: "u32 \<Rightarrow> u32" where
  "app_ao_id mi = (if mi = eAPP_MODULE_SCHEDULER then eAO_SCHEDULER else eAO_BROADCASTER)"

definition app_subscribe_event :: "u32 \<Rightarrow> Event" where
  "app_subscribe_event mi =
    (if mi = eAPP_MODULE_SCHEDULER then \<lparr>etype = eSCHEDULER_EVENT_START\<rparr>
     else \<lparr>etype = eBROADCASTER_EVENT_UPDATE\<rparr>)"

definition app_module_init :: "u32 \<Rightarrow> app \<Rightarrow> eStatus \<times> app" where
  "app_module_init mi w =
    (if mi = eAPP_MODULE_SCHEDULER
     then let (st, a, s) = app_scheduler_init (a_scheduler w) (a_os w)
          in (st, w\<lparr>a_scheduler := a, a_os := s\<rparr>)
     else let (st, a, s) = app_broadcaster_init (a_broadcaster w) (a_os w)
          in (st, w\<lparr>a_broadcaster := a, a_os := s\<rparr>))"

text \<open>Posts act on the memory \<open>w\<close> with the operating system state beside it, as the bus calls them.\<close>

definition app_module_post :: "u32 \<Rightarrow> Event option \<Rightarrow> app \<Rightarrow> os \<Rightarrow> eStatus \<times> app \<times> os" where
  "app_module_post mi event w s =
    (if mi = eAPP_MODULE_SCHEDULER
     then let (st, a, s) = app_scheduler_post event (a_scheduler w) s
          in (st, w\<lparr>a_scheduler := the a\<rparr>, s)
     else let (st, a, s) = app_broadcaster_post event (a_broadcaster w) s
          in (st, w\<lparr>a_broadcaster := the a\<rparr>, s))"

definition app_module_end :: "u32 \<Rightarrow> app \<Rightarrow> eStatus \<times> app" where
  "app_module_end mi w =
    (if mi = eAPP_MODULE_SCHEDULER
     then let (st, a, s) = app_scheduler_end (a_scheduler w) (a_os w)
          in (st, w\<lparr>a_scheduler := the a, a_os := s\<rparr>)
     else let (st, a, s) = app_broadcaster_end (a_broadcaster w) (a_os w)
          in (st, w\<lparr>a_broadcaster := the a, a_os := s\<rparr>))"

definition app_module_join :: "u32 \<Rightarrow> app \<Rightarrow> app" where
  "app_module_join mi w =
    (if mi = eAPP_MODULE_SCHEDULER
     then w\<lparr>a_os := app_scheduler_join (a_scheduler w) (a_os w)\<rparr>
     else w\<lparr>a_os := app_broadcaster_join (a_broadcaster w) (a_os w)\<rparr>)"

definition app_module_delete :: "u32 \<Rightarrow> app \<Rightarrow> app" where
  "app_module_delete mi w =
    (if mi = eAPP_MODULE_SCHEDULER
     then let (a, s) = app_scheduler_delete (a_scheduler w) (a_os w)
          in w\<lparr>a_scheduler := a, a_os := s\<rparr>
     else w\<lparr>a_os := app_broadcaster_delete (a_broadcaster w) (a_os w)\<rparr>)"

section \<open>Posting and publishing\<close>

definition app_post :: "u32 \<Rightarrow> Event option \<Rightarrow> app \<Rightarrow> os \<Rightarrow> eStatus \<times> app \<times> os" where
  "app_post mi event w s =
    (if eAPP_MODULE_COUNT \<le> mi then (eSTATUS_INVALID_VALUE, w, s)
     else app_module_post mi event w s)"

text \<open>Calling a post function that the bus holds.\<close>

fun call_post :: "post_fn \<Rightarrow> u32 \<Rightarrow> Event \<Rightarrow> app \<Rightarrow> os \<Rightarrow> eStatus \<times> app \<times> os" where
  "call_post Ddl_post mi ev w s =
    (let (st, d, s) = ddl_post mi (Some ev) (a_ddl w) s in (st, w\<lparr>a_ddl := d\<rparr>, s))"
| "call_post App_post mi ev w s = app_post mi (Some ev) w s"

definition app_publish :: "app publish_fn" where
  "app_publish ao_id ty w =
    (let (st, w', s) = util_event_bus_publish call_post ao_id ty (a_bus w) w (a_os w)
     in (st, w'\<lparr>a_os := s\<rparr>))"

section \<open>Start and shutdown\<close>

definition app_indices :: "u32 list" where
  "app_indices = map of_nat [0..<unat eAPP_MODULE_COUNT]"

fun app_init_modules :: "u32 list \<Rightarrow> app \<Rightarrow> eStatus \<times> app" where
  "app_init_modules [] w = (eSTATUS_SUCCESSFUL, w)"
| "app_init_modules (mi # ms) w =
    (let (status, w) = app_module_init mi w
     in if failed status then (status, w)
        else let (status, b, s) = util_event_bus_subscribe (app_ao_id mi) (Some App_post) mi
                                    (Some (app_subscribe_event mi)) (a_bus w) (a_os w);
                 w = w\<lparr>a_bus := b, a_os := s\<rparr>
             in if failed status then (status, w) else app_init_modules ms w)"

text \<open>The registrations with the scheduler, in order: slot, active object, event.\<close>

definition scheduler_slots :: "(u32 \<times> u32 \<times> Event) list" where
  "scheduler_slots = [
     (0, eAO_DISTANCE, \<lparr>etype = eDISTANCE_EVENT_READ\<rparr>),
     (1, eAO_SERVO, \<lparr>etype = eSERVO_EVENT_DIRECTIONS\<rparr>),
     (2, eAO_TEMPERATURE_HUMIDITY, \<lparr>etype = eTEMPERATURE_HUMIDITY_EVENT_READ\<rparr>),
     (3, eAO_GPS, \<lparr>etype = eGPS_EVENT_READ\<rparr>),
     (4, eAO_BROADCASTER, \<lparr>etype = eBROADCASTER_EVENT_UPDATE\<rparr>)]"

fun app_subscribe_slots :: "(u32 \<times> u32 \<times> Event) list \<Rightarrow> scheduler_ao \<Rightarrow> eStatus \<times> scheduler_ao" where
  "app_subscribe_slots [] a = (eSTATUS_SUCCESSFUL, a)"
| "app_subscribe_slots ((slot, ao, ev) # xs) a =
    (let (status, a) = app_scheduler_subscribe slot ao (Some ev) a
     in if failed status then (status, a) else app_subscribe_slots xs a)"

definition app_init :: "app \<Rightarrow> eStatus \<times> app" where
  "app_init w =
    (let memory = br_memory (fsm_arg (active_fsm (a_broadcaster w)));
         (status, d, b, s) = ddl_init (Some (memory ddl_frame_addr)) (a_ddl w) (a_bus w) (a_os w);
         w = w\<lparr>a_ddl := d, a_bus := b, a_os := s\<rparr>
     in if failed status then (status, w)
        else let (status, a) = app_broadcaster_configure ddl_frame_addr ddl_snapshot_addr (a_broadcaster w);
                 w = w\<lparr>a_broadcaster := a\<rparr>
        in if failed status then (status, w)
           else let (status, w) = app_init_modules app_indices w
           in if failed status then (status, w)
              else let (status, a) = app_subscribe_slots scheduler_slots (a_scheduler w)
                   in (status, w\<lparr>a_scheduler := a\<rparr>))"

fun app_end_modules :: "u32 list \<Rightarrow> app \<Rightarrow> eStatus \<times> app" where
  "app_end_modules [] w = (eSTATUS_SUCCESSFUL, w)"
| "app_end_modules (mi # ms) w =
    (let (status, w) = app_module_end mi w
     in if failed status then (status, w) else app_end_modules ms w)"

definition app_end :: "app \<Rightarrow> eStatus \<times> app" where
  "app_end w =
    (let (status, w) = app_end_modules app_indices w
     in if failed status then (status, w)
        else let (status, d, s) = ddl_end (a_ddl w) (a_os w);
                 w = w\<lparr>a_ddl := d, a_os := s\<rparr>
             in if failed status then (status, w) else (eSTATUS_SUCCESSFUL, w))"

definition app_join :: "app \<Rightarrow> app" where
  "app_join w =
    (let w = fold app_module_join app_indices w
     in w\<lparr>a_os := ddl_join (a_ddl w) (a_os w)\<rparr>)"

definition app_delete :: "app \<Rightarrow> app" where
  "app_delete w =
    (let w = fold app_module_delete app_indices w;
         (d, s) = ddl_delete (a_ddl w) (a_os w)
     in w\<lparr>a_ddl := d, a_os := s\<rparr>)"

section \<open>Frames\<close>

text \<open>The live frame, and the memory of frames as the broadcaster sees it.\<close>

definition live_frame :: "ddl \<Rightarrow> DDLFrame" where
  "live_frame d = \<lparr>
     dist_frame = d_frame (fsm_arg (active_fsm (m_distance d))),
     temp_hum_frame = t_frame (fsm_arg (active_fsm (m_temp_hum d))),
     servo_frame = s_frame (fsm_arg (active_fsm (m_servo d))),
     gps_frame = g_frame (fsm_arg (active_fsm (m_gps d)))\<rparr>"

definition app_get_ddl_snapshot :: "app \<Rightarrow> DDLFrame" where
  "app_get_ddl_snapshot w = br_memory (fsm_arg (active_fsm (a_broadcaster w))) ddl_snapshot_addr"

text \<open>The handlers of the application modules, run in the memory of the program.\<close>

definition broadcaster_handle :: "nat \<Rightarrow> Event \<Rightarrow> app \<Rightarrow> app option" where
  "broadcaster_handle n ev w =
    (let f = active_fsm (a_broadcaster w);
         aobj = fsm_arg f;
         f = f\<lparr>fsm_arg := aobj\<lparr>br_memory := (br_memory aobj)(ddl_frame_addr := live_frame (a_ddl w))\<rparr>\<rparr>
     in case util_fsm_send_event broadcaster_states n (Some f) ev of
          Some (st, Some f') \<Rightarrow> Some (w\<lparr>a_broadcaster := (a_broadcaster w)\<lparr>active_fsm := f'\<rparr>\<rparr>)
        | _ \<Rightarrow> None)"

definition scheduler_handle :: "nat \<Rightarrow> Event \<Rightarrow> app \<Rightarrow> app option" where
  "scheduler_handle n ev w =
    (let f = active_fsm (a_scheduler w)
     in case util_fsm_send_event (scheduler_states app_publish) n
               (Some \<lparr>current_state = current_state f, fsm_arg = (fsm_arg f, w)\<rparr>) ev of
          Some (st, Some f') \<Rightarrow>
            (let (aobj, w') = fsm_arg f'
             in Some (w'\<lparr>a_scheduler := (a_scheduler w')\<lparr>active_fsm :=
                        \<lparr>current_state = current_state f', fsm_arg = aobj\<rparr>\<rparr>\<rparr>))
        | _ \<Rightarrow> None)"

end
