(* ===== verification/AppFacts.thy ===== *)
theory AppFacts
  imports App
begin

text \<open>
  What holds of the whole program after a successful start: every module has an empty queue and a
  thread, the subscriptions on the bus, the slots of the scheduler, and the way of an event from a
  tick of the scheduler to the queue of its module.
\<close>

section \<open>Creating the modules\<close>

text \<open>The blocks of memory of an object: its thread and the three of its queue.\<close>

definition ao_blocks :: "('st, 'a) ActiveObject \<Rightarrow> addr list" where
  "ao_blocks a = [ao_thread a, q_not_empty (event_queue a), q_mutex (event_queue a), q_buffer (event_queue a)]"

definition ao_created ::
    "u32 \<Rightarrow> 'st \<Rightarrow> ('st, 'a) ActiveObject \<Rightarrow> os \<Rightarrow> os \<Rightarrow> bool" where
  "ao_created cap st a s s' \<longleftrightarrow> ao_ready a s' \<and> queue_list (event_queue a) = [] \<and>
    q_capacity (event_queue a) = cap \<and> ao_init_state a = Some st \<and> ao_thread a \<noteq> 0 \<and>
    q_mutex (event_queue a) \<notin> set (os_live s) \<and> os_extends s s' \<and>
    os_threads s' = ao_thread a # os_threads s \<and> os_live s' = ao_blocks a @ os_live s"

lemma thread_create_live:
  assumes "osal_thread_create (Some l) (Some e) s = (eSTATUS_SUCCESSFUL, t, s')"
  shows "os_live s' = the t # os_live s"
  using assms by (auto simp: osal_thread_create_def osal_alloc_def ask_def Let_def split: if_splits)

lemma active_object_created:
  assumes "os_wf s" and "cap \<noteq> 0" and "os_held s = []"
    and "util_active_object_init (Some a) cap (Some st0) s = (eSTATUS_SUCCESSFUL, r, s')"
  shows "ao_created cap st0 (the r) s s'"
proof -
  have "set (os_held s) \<subseteq> set (os_live s)" using assms(3) by simp
  note c = util_active_object_init_success [OF assms(1,2) this assms(4)]
  obtain st q s1 where q: "util_queue_init (Some (event_queue (a\<lparr>ao_init_state := Some st0\<rparr>))) cap s = (st, q, s1)"
    by (cases "util_queue_init (Some (event_queue (a\<lparr>ao_init_state := Some st0\<rparr>))) cap s") auto
  then have st: "st = eSTATUS_SUCCESSFUL" and r: "event_queue (the r) = the q"
    using assms(4) by (auto simp: util_active_object_init_def Let_def split: if_splits prod.splits)
  obtain q' where q': "q = Some q'" "os_live s1 = q_not_empty q' # q_mutex q' # q_buffer q' # os_live s" "os_wf s1"
    using util_queue_init_success [OF assms(1,2) q [unfolded st]] by blast
  then have "q_mutex (event_queue (the r)) \<notin> set (os_live s)" by (simp add: r os_wf_def)
  moreover have "os_live s' = ao_blocks (the r) @ os_live s"
    using assms(4) q st q'(1,2)
    by (auto simp: util_active_object_init_def ao_blocks_def Let_def split: if_splits prod.splits
        dest!: thread_create_live)
  ultimately show ?thesis using c by (auto simp: ao_created_def)
qed

text \<open>The bus and the operating system while the modules are created.\<close>

definition boot_ok :: "post_fn event_bus \<Rightarrow> os \<Rightarrow> bool" where
  "boot_ok b s \<longleftrightarrow> bus_wf b \<and> bus_usable b s \<and> os_wf s \<and> os_held s = []"

lemma boot_ok_extends: "boot_ok b s \<Longrightarrow> os_extends s s' \<Longrightarrow> boot_ok b s'"
  by (auto simp: boot_ok_def bus_usable_def os_extends_def)

lemma bus_subscribe_boot:
  assumes "boot_ok b s" and "ao < eAO_COUNT" and "length (bus_list b) < eEVENT_BUS_MAX_SUBSCRIPTIONS"
  shows "\<exists>b'. util_event_bus_subscribe ao (Some f) mi (Some ev) b s = (eSTATUS_SUCCESSFUL, b', s) \<and>
    boot_ok b' s \<and> bus_mutex b' = bus_mutex b \<and> bus_list b' = bus_list b @ [sub_of ao f mi ev]"
  using subscribe_room [of b s ao f mi ev] assms by (auto simp: boot_ok_def bus_usable_def)

lemma ddl_ao_id_bound: "ddl_ao_id mi < eAO_COUNT"
  by (simp add: ddl_ao_id_def fsm_codes)

lemma ddl_subscribe_boot:
  assumes "boot_ok b s" and "length (bus_list b) + length evs \<le> eEVENT_BUS_MAX_SUBSCRIPTIONS"
  shows "\<exists>b'. ddl_subscribe mi evs b s = (eSTATUS_SUCCESSFUL, b', s) \<and> boot_ok b' s \<and>
    bus_mutex b' = bus_mutex b \<and> bus_list b' = bus_list b @ map (sub_of (ddl_ao_id mi) Ddl_post mi) evs"
  using assms
proof (induction evs arbitrary: b)
  case (Cons ev evs)
  obtain b1 where b1: "util_event_bus_subscribe (ddl_ao_id mi) (Some Ddl_post) mi (Some ev) b s
      = (eSTATUS_SUCCESSFUL, b1, s)" "boot_ok b1 s" "bus_mutex b1 = bus_mutex b"
    "bus_list b1 = bus_list b @ [sub_of (ddl_ao_id mi) Ddl_post mi ev]"
    using bus_subscribe_boot [OF Cons.prems(1) ddl_ao_id_bound] Cons.prems(2) by fastforce
  then show ?case using Cons.IH [of b1] Cons.prems(2) by auto
qed simp

lemma ddl_init_modules_Cons:
  assumes "ddl_init_modules (mi # ms) (Some fr) w b s = (eSTATUS_SUCCESSFUL, w', b', s')"
    and "boot_ok b s"
    and "length (bus_list b) + length (ddl_subscribe_events mi) \<le> eEVENT_BUS_MAX_SUBSCRIPTIONS"
    and "\<And>w1 s1. ddl_module_init mi (Some fr) w s = (eSTATUS_SUCCESSFUL, w1, s1) \<Longrightarrow> os_extends s s1"
  obtains w1 b1 s1 where "ddl_module_init mi (Some fr) w s = (eSTATUS_SUCCESSFUL, w1, s1)"
    and "boot_ok b1 s1" and "bus_mutex b1 = bus_mutex b"
    and "bus_list b1 = bus_list b @ map (sub_of (ddl_ao_id mi) Ddl_post mi) (ddl_subscribe_events mi)"
    and "ddl_init_modules ms (Some fr) w1 b1 s1 = (eSTATUS_SUCCESSFUL, w', b', s')"
proof -
  obtain st w1 s1 where m: "ddl_module_init mi (Some fr) w s = (st, w1, s1)"
    by (cases "ddl_module_init mi (Some fr) w s") auto
  have st: "st = eSTATUS_SUCCESSFUL"
    using assms(1) m by (auto simp: Let_def split: if_splits)
  have ext: "os_extends s s1" using assms(4) m st by blast
  obtain b1 where b1: "ddl_subscribe mi (ddl_subscribe_events mi) b s1 = (eSTATUS_SUCCESSFUL, b1, s1)"
    "boot_ok b1 s1" "bus_mutex b1 = bus_mutex b"
    "bus_list b1 = bus_list b @ map (sub_of (ddl_ao_id mi) Ddl_post mi) (ddl_subscribe_events mi)"
    using ddl_subscribe_boot [OF boot_ok_extends [OF assms(2) ext] assms(3)] by blast
  show ?thesis
    using that [OF m [unfolded st] b1(2,3,4)] assms(1) m st b1(1) by simp
qed

lemma ddl_module_created:
  assumes "boot_ok b s"
  shows
    "ddl_module_init eDDL_MODULE_DISTANCE (Some fr) w s = (eSTATUS_SUCCESSFUL, w', s') \<Longrightarrow>
      ao_created 4 distance_init (m_distance w') s s' \<and> w' = w\<lparr>m_distance := m_distance w'\<rparr>"
    "ddl_module_init eDDL_MODULE_SERVO (Some fr) w s = (eSTATUS_SUCCESSFUL, w', s') \<Longrightarrow>
      ao_created 4 servo_init (m_servo w') s s' \<and> w' = w\<lparr>m_servo := m_servo w'\<rparr>"
    "ddl_module_init eDDL_MODULE_TEMPERATURE_HUMIDITY (Some fr) w s = (eSTATUS_SUCCESSFUL, w', s') \<Longrightarrow>
      ao_created 4 temperature_humidity_init (m_temp_hum w') s s' \<and> w' = w\<lparr>m_temp_hum := m_temp_hum w'\<rparr>"
    "ddl_module_init eDDL_MODULE_GPS (Some fr) w s = (eSTATUS_SUCCESSFUL, w', s') \<Longrightarrow>
      ao_created 4 gps_init (m_gps w') s s' \<and> w' = w\<lparr>m_gps := m_gps w'\<rparr>"
  using assms
  by (auto simp: ddl_module_init_def fsm_codes ddl_distance_init_def ddl_servo_init_def
      ddl_temperature_humidity_init_def ddl_gps_init_def eDISTANCE_QUEUE_CAPACITY_def
      eSERVO_QUEUE_CAPACITY_def eTEMPERATURE_HUMIDITY_QUEUE_CAPACITY_def eGPS_QUEUE_CAPACITY_def
      boot_ok_def Let_def split: prod.splits intro!: active_object_created)

section \<open>A successful start\<close>

definition ddl_subscriptions :: "post_fn Subscription list" where
  "ddl_subscriptions = concat (map (\<lambda>mi. map (sub_of (ddl_ao_id mi) Ddl_post mi)
     (ddl_subscribe_events mi)) ddl_indices)"

definition app_subscriptions :: "post_fn Subscription list" where
  "app_subscriptions = ddl_subscriptions @
     map (\<lambda>mi. sub_of (app_ao_id mi) App_post mi (app_subscribe_event mi)) app_indices"

lemma ddl_subscribe_events_lengths [simp]:
  "length (ddl_subscribe_events eDDL_MODULE_DISTANCE) = 1"
  "length (ddl_subscribe_events eDDL_MODULE_SERVO) = 4"
  "length (ddl_subscribe_events eDDL_MODULE_TEMPERATURE_HUMIDITY) = 1"
  "length (ddl_subscribe_events eDDL_MODULE_GPS) = 1"
  by (simp_all add: ddl_subscribe_events_def fsm_codes distance_subscribe_events_def
      servo_subscribe_events_def temperature_humidity_subscribe_events_def gps_subscribe_events_def)

lemma ao_created_later:
  "ao_created cap st a s s' \<Longrightarrow> os_extends s' s'' \<Longrightarrow> ao_ready a s''"
  by (auto simp: ao_created_def intro: ao_ready_extends)

text \<open>
  The four threads, the seven subscriptions; no queue uses the mutex of the bus.
\<close>

definition modules_started :: "ddl \<Rightarrow> post_fn event_bus \<Rightarrow> os \<Rightarrow> bool" where
  "modules_started d b s \<longleftrightarrow> (\<forall>ao\<in>set ddl_aos. queue_wf (ddl_queue ao d) \<and> queue_usable (ddl_queue ao d) s \<and>
    queue_list (ddl_queue ao d) = [] \<and> q_capacity (ddl_queue ao d) = 4 \<and>
    q_mutex (ddl_queue ao d) \<noteq> bus_mutex b)"

lemma created_queue:
  assumes "ao_created cap st a s s'" and "boot_ok b s" and "os_extends s' s''"
  shows "queue_wf (event_queue a) \<and> queue_usable (event_queue a) s'' \<and> queue_list (event_queue a) = [] \<and>
    q_capacity (event_queue a) = cap \<and> q_mutex (event_queue a) \<noteq> bus_mutex b"
proof -
  have "ao_ready a s''" by (rule ao_created_later [OF assms(1,3)])
  moreover have "bus_mutex b \<in> set (os_live s)" using assms(2) by (simp add: boot_ok_def bus_usable_def)
  ultimately show ?thesis using assms(1) by (auto simp: ao_created_def ao_ready_def)
qed

lemma ddl_init_success:
  assumes init: "ddl_init (Some fr) d b s = (eSTATUS_SUCCESSFUL, d', b', s')"
    and boot: "boot_ok b s" and empty: "bus_list b = []"
  shows "boot_ok b' s' \<and> bus_mutex b' = bus_mutex b \<and> bus_list b' = ddl_subscriptions \<and>
    modules_started d' b' s' \<and> os_extends s s' \<and>
    os_threads s' = [ao_thread (m_gps d'), ao_thread (m_temp_hum d'), ao_thread (m_servo d'),
      ao_thread (m_distance d')] @ os_threads s \<and>
    os_live s' = ao_blocks (m_gps d') @ ao_blocks (m_temp_hum d') @ ao_blocks (m_servo d') @
      ao_blocks (m_distance d') @ os_live s"
proof -
  have cr: "ao_created cap st a s1 s2 \<Longrightarrow> os_extends s1 s2" for cap st a s1 s2 by (simp add: ao_created_def)
  obtain d1 b1 s1 where 1: "ddl_module_init eDDL_MODULE_DISTANCE (Some fr) d s = (eSTATUS_SUCCESSFUL, d1, s1)"
    and b1: "boot_ok b1 s1" "bus_mutex b1 = bus_mutex b" "bus_list b1 = bus_list b @
      map (sub_of (ddl_ao_id eDDL_MODULE_DISTANCE) Ddl_post eDDL_MODULE_DISTANCE) (ddl_subscribe_events eDDL_MODULE_DISTANCE)"
    and r1: "ddl_init_modules [eDDL_MODULE_SERVO, eDDL_MODULE_TEMPERATURE_HUMIDITY, eDDL_MODULE_GPS]
      (Some fr) d1 b1 s1 = (eSTATUS_SUCCESSFUL, d', b', s')"
    by (rule ddl_init_modules_Cons [OF init [unfolded ddl_init_def ddl_indices_eq] boot])
      (simp_all add: empty eEVENT_BUS_MAX_SUBSCRIPTIONS_def cr [OF conjunct1 [OF ddl_module_created(1) [OF boot]]])
  note c1 = ddl_module_created(1) [OF boot 1]
  obtain d2 b2 s2 where 2: "ddl_module_init eDDL_MODULE_SERVO (Some fr) d1 s1 = (eSTATUS_SUCCESSFUL, d2, s2)"
    and b2: "boot_ok b2 s2" "bus_mutex b2 = bus_mutex b1" "bus_list b2 = bus_list b1 @
      map (sub_of (ddl_ao_id eDDL_MODULE_SERVO) Ddl_post eDDL_MODULE_SERVO) (ddl_subscribe_events eDDL_MODULE_SERVO)"
    and r2: "ddl_init_modules [eDDL_MODULE_TEMPERATURE_HUMIDITY, eDDL_MODULE_GPS]
      (Some fr) d2 b2 s2 = (eSTATUS_SUCCESSFUL, d', b', s')"
    by (rule ddl_init_modules_Cons [OF r1 b1(1)])
      (simp_all add: empty b1(3) eEVENT_BUS_MAX_SUBSCRIPTIONS_def cr [OF conjunct1 [OF ddl_module_created(2) [OF b1(1)]]])
  note c2 = ddl_module_created(2) [OF b1(1) 2]
  obtain d3 b3 s3 where 3: "ddl_module_init eDDL_MODULE_TEMPERATURE_HUMIDITY (Some fr) d2 s2 = (eSTATUS_SUCCESSFUL, d3, s3)"
    and b3: "boot_ok b3 s3" "bus_mutex b3 = bus_mutex b2" "bus_list b3 = bus_list b2 @
      map (sub_of (ddl_ao_id eDDL_MODULE_TEMPERATURE_HUMIDITY) Ddl_post eDDL_MODULE_TEMPERATURE_HUMIDITY)
        (ddl_subscribe_events eDDL_MODULE_TEMPERATURE_HUMIDITY)"
    and r3: "ddl_init_modules [eDDL_MODULE_GPS] (Some fr) d3 b3 s3 = (eSTATUS_SUCCESSFUL, d', b', s')"
    by (rule ddl_init_modules_Cons [OF r2 b2(1)])
      (simp_all add: empty b1(3) b2(3) eEVENT_BUS_MAX_SUBSCRIPTIONS_def
        cr [OF conjunct1 [OF ddl_module_created(3) [OF b2(1)]]])
  note c3 = ddl_module_created(3) [OF b2(1) 3]
  obtain d4 b4 s4 where 4: "ddl_module_init eDDL_MODULE_GPS (Some fr) d3 s3 = (eSTATUS_SUCCESSFUL, d4, s4)"
    and b4: "boot_ok b4 s4" "bus_mutex b4 = bus_mutex b3" "bus_list b4 = bus_list b3 @
      map (sub_of (ddl_ao_id eDDL_MODULE_GPS) Ddl_post eDDL_MODULE_GPS) (ddl_subscribe_events eDDL_MODULE_GPS)"
    and r4: "ddl_init_modules [] (Some fr) d4 b4 s4 = (eSTATUS_SUCCESSFUL, d', b', s')"
    by (rule ddl_init_modules_Cons [OF r3 b3(1)])
      (simp_all add: empty b1(3) b2(3) b3(3) eEVENT_BUS_MAX_SUBSCRIPTIONS_def
        cr [OF conjunct1 [OF ddl_module_created(4) [OF b3(1)]]])
  note c4 = ddl_module_created(4) [OF b3(1) 4]
  have fin: "d' = d4" "b' = b4" "s' = s4" using r4 by auto
  have e34: "os_extends s3 s4" and e23: "os_extends s2 s3" and e12: "os_extends s1 s2" and e01: "os_extends s s1"
    using cr [OF conjunct1 [OF c1]] cr [OF conjunct1 [OF c2]] cr [OF conjunct1 [OF c3]]
      cr [OF conjunct1 [OF c4]] by simp_all
  have e: "os_extends s4 s4" "os_extends s3 s4" "os_extends s2 s4" "os_extends s1 s4" "os_extends s s4"
    using os_extends_trans [OF e23 e34] os_extends_trans [OF e12 os_extends_trans [OF e23 e34]]
      os_extends_trans [OF e01 os_extends_trans [OF e12 os_extends_trans [OF e23 e34]]] e34 by simp_all
  have m: "m_distance d4 = m_distance d1" "m_servo d4 = m_servo d2" "m_temp_hum d4 = m_temp_hum d3"
    using arg_cong [OF conjunct2 [OF c2], of m_distance] arg_cong [OF conjunct2 [OF c3], of m_distance]
      arg_cong [OF conjunct2 [OF c4], of m_distance] arg_cong [OF conjunct2 [OF c3], of m_servo]
      arg_cong [OF conjunct2 [OF c4], of m_servo] arg_cong [OF conjunct2 [OF c4], of m_temp_hum]
    by simp_all
  have q: "bus_mutex b' = bus_mutex b" using b1 b2 b3 b4 fin by simp
  have "modules_started d' b' s'"
    using created_queue [OF conjunct1 [OF c1] boot e(4)] created_queue [OF conjunct1 [OF c2] b1(1) e(3)]
      created_queue [OF conjunct1 [OF c3] b2(1) e(2)] created_queue [OF conjunct1 [OF c4] b3(1) e(1)]
      b1(2) b2(2) b3(2) b4(2)
    by (simp add: modules_started_def ddl_aos_def m fin)
  moreover have "bus_list b' = ddl_subscriptions"
    using b1(3) b2(3) b3(3) b4(3) by (simp add: fin empty ddl_subscriptions_def ddl_indices_eq)
  moreover have "os_threads s' = [ao_thread (m_gps d'), ao_thread (m_temp_hum d'), ao_thread (m_servo d'),
      ao_thread (m_distance d')] @ os_threads s"
    using c1 c2 c3 c4 by (simp add: fin m ao_created_def)
  moreover have "os_live s' = ao_blocks (m_gps d') @ ao_blocks (m_temp_hum d') @ ao_blocks (m_servo d') @
      ao_blocks (m_distance d') @ os_live s"
    using c1 c2 c3 c4 by (simp add: fin m ao_created_def)
  ultimately show ?thesis using b4(1) q e(5) by (simp add: fin)
qed

subsection \<open>The application layer\<close>

text \<open>The table of slots the application sets up: five registrations and one empty slot.\<close>

definition scheduler_table :: "Subscriber list" where
  "scheduler_table = map (\<lambda>(slot, ao, ev). \<lparr>sb_event = Some ev, sb_ao_id = ao, sb_active = True\<rparr>)
     scheduler_slots @ [zero_subscriber]"

lemma app_subscribe_slots_result:
  assumes "sc_subscribers (fsm_arg (active_fsm a)) = replicate eSCHEDULER_SUBSCRIBERS_MAX zero_subscriber"
  shows "app_subscribe_slots scheduler_slots a = (eSTATUS_SUCCESSFUL,
    a\<lparr>active_fsm := (active_fsm a)\<lparr>fsm_arg := (fsm_arg (active_fsm a))\<lparr>sc_subscribers := scheduler_table\<rparr>\<rparr>\<rparr>)"
proof -
  have "replicate 6 zero_subscriber = [zero_subscriber, zero_subscriber, zero_subscriber,
      zero_subscriber, zero_subscriber, zero_subscriber]"
    by (simp add: numeral_eq_Suc)
  then show ?thesis
    using assms
    by (simp add: scheduler_slots_def scheduler_table_def app_scheduler_subscribe_def
        eSCHEDULER_SUBSCRIBERS_MAX_def zero_subscriber_def word_le_nat_alt Let_def)
qed

lemma app_scheduler_created:
  assumes "app_scheduler_init a s = (eSTATUS_SUCCESSFUL, a', s')" and "boot_ok b s"
  shows "ao_created 4 scheduler_init a' s s'"
    "sc_subscribers (fsm_arg (active_fsm a')) = replicate eSCHEDULER_SUBSCRIBERS_MAX zero_subscriber"
    "sc_tick (fsm_arg (active_fsm a')) = 0"
proof -
  define a0 where "a0 = a\<lparr>active_fsm := (active_fsm a)\<lparr>fsm_arg := (fsm_arg (active_fsm a))\<lparr>sc_tick := 0,
      sc_subscribers := replicate eSCHEDULER_SUBSCRIBERS_MAX zero_subscriber\<rparr>\<rparr>\<rparr>"
  obtain r where i: "util_active_object_init (Some a0) 4 (Some scheduler_init) s = (eSTATUS_SUCCESSFUL, r, s')"
    and r: "a' = the r"
    using assms(1) by (auto simp: app_scheduler_init_def a0_def eSCHEDULER_QUEUE_CAPACITY_def Let_def
        split: prod.splits)
  have wf: "os_wf s" "os_held s = []" using assms(2) by (simp_all add: boot_ok_def)
  show "ao_created 4 scheduler_init a' s s'"
    unfolding r by (rule active_object_created [OF wf(1) _ wf(2) i]) simp
  have "set (os_held s) \<subseteq> set (os_live s)" using wf by simp
  from util_active_object_init_success [OF wf(1) _ this i]
  have "active_fsm a' = active_fsm a0" by (auto simp: r)
  then show "sc_subscribers (fsm_arg (active_fsm a')) = replicate eSCHEDULER_SUBSCRIBERS_MAX zero_subscriber"
    "sc_tick (fsm_arg (active_fsm a')) = 0"
    by (simp_all add: a0_def)
qed

lemma app_broadcaster_created:
  assumes "app_broadcaster_init a s = (eSTATUS_SUCCESSFUL, a', s')" and "boot_ok b s"
  shows "ao_created 4 broadcaster_init a' s s'" "active_fsm a' = active_fsm a"
proof -
  obtain r where i: "util_active_object_init (Some a) 4 (Some broadcaster_init) s = (eSTATUS_SUCCESSFUL, r, s')"
    and r: "a' = the r"
    using assms(1) by (auto simp: app_broadcaster_init_def eBROADCASTER_QUEUE_CAPACITY_def Let_def
        split: prod.splits if_splits)
  have wf: "os_wf s" "os_held s = []" using assms(2) by (simp_all add: boot_ok_def)
  show "ao_created 4 broadcaster_init a' s s'"
    unfolding r by (rule active_object_created [OF wf(1) _ wf(2) i]) simp
  have "set (os_held s) \<subseteq> set (os_live s)" using wf by simp
  from util_active_object_init_success [OF wf(1) _ this i]
  show "active_fsm a' = active_fsm a" by (auto simp: r)
qed

definition app_queue :: "u32 \<Rightarrow> app \<Rightarrow> Event Queue" where
  "app_queue ao w =
    (if ao = eAO_SCHEDULER then event_queue (a_scheduler w)
     else if ao = eAO_BROADCASTER then event_queue (a_broadcaster w)
     else ddl_queue ao (a_ddl w))"

lemma app_queue_ids [simp]:
  "eAO_SCHEDULER \<noteq> eAO_BROADCASTER" "eAO_BROADCASTER \<noteq> eAO_SCHEDULER"
  "eAO_DISTANCE \<noteq> eAO_SCHEDULER" "eAO_DISTANCE \<noteq> eAO_BROADCASTER"
  "eAO_SERVO \<noteq> eAO_SCHEDULER" "eAO_SERVO \<noteq> eAO_BROADCASTER"
  "eAO_TEMPERATURE_HUMIDITY \<noteq> eAO_SCHEDULER" "eAO_TEMPERATURE_HUMIDITY \<noteq> eAO_BROADCASTER"
  "eAO_GPS \<noteq> eAO_SCHEDULER" "eAO_GPS \<noteq> eAO_BROADCASTER"
  by (simp_all add: fsm_codes)

definition app_aos :: "u32 list" where
  "app_aos = [eAO_SCHEDULER, eAO_BROADCASTER] @ ddl_aos"

definition app_wf :: "app \<Rightarrow> bool" where
  "app_wf w \<longleftrightarrow> bus_wf (a_bus w) \<and> bus_usable (a_bus w) (a_os w) \<and> bus_list (a_bus w) = app_subscriptions \<and>
    (\<forall>ao\<in>set app_aos. queue_wf (app_queue ao w) \<and> queue_usable (app_queue ao w) (a_os w) \<and>
      q_mutex (app_queue ao w) \<noteq> bus_mutex (a_bus w))"

lemma app_indices_eq: "app_indices = [eAPP_MODULE_SCHEDULER, eAPP_MODULE_BROADCASTER]"
  by (simp add: app_indices_def fsm_codes upt_conv_Cons)

lemma app_ao_id_bound: "app_ao_id mi < eAO_COUNT"
  by (simp add: app_ao_id_def fsm_codes)

lemma app_init_modules_Cons:
  assumes "app_init_modules (mi # ms) w = (eSTATUS_SUCCESSFUL, w')"
    and "\<And>w1. app_module_init mi w = (eSTATUS_SUCCESSFUL, w1) \<Longrightarrow> boot_ok (a_bus w1) (a_os w1)"
    and "\<And>w1. app_module_init mi w = (eSTATUS_SUCCESSFUL, w1) \<Longrightarrow>
      length (bus_list (a_bus w1)) < eEVENT_BUS_MAX_SUBSCRIPTIONS"
  obtains w1 b1 where "app_module_init mi w = (eSTATUS_SUCCESSFUL, w1)"
    and "boot_ok b1 (a_os w1)" and "bus_mutex b1 = bus_mutex (a_bus w1)"
    and "bus_list b1 = bus_list (a_bus w1) @ [sub_of (app_ao_id mi) App_post mi (app_subscribe_event mi)]"
    and "app_init_modules ms (w1\<lparr>a_bus := b1\<rparr>) = (eSTATUS_SUCCESSFUL, w')"
proof -
  obtain st w1 where m: "app_module_init mi w = (st, w1)" by (cases "app_module_init mi w") auto
  have st: "st = eSTATUS_SUCCESSFUL" using assms(1) m by (auto simp: Let_def split: if_splits)
  obtain b1 where b1: "util_event_bus_subscribe (app_ao_id mi) (Some App_post) mi (Some (app_subscribe_event mi))
      (a_bus w1) (a_os w1) = (eSTATUS_SUCCESSFUL, b1, a_os w1)" "boot_ok b1 (a_os w1)"
    "bus_mutex b1 = bus_mutex (a_bus w1)"
    "bus_list b1 = bus_list (a_bus w1) @ [sub_of (app_ao_id mi) App_post mi (app_subscribe_event mi)]"
    using bus_subscribe_boot [OF assms(2) app_ao_id_bound assms(3)] m st by blast
  have "w1\<lparr>a_bus := b1, a_os := a_os w1\<rparr> = w1\<lparr>a_bus := b1\<rparr>" by simp
  then show ?thesis using that [OF m [unfolded st] b1(2,3,4)] assms(1) m st b1(1) by simp
qed

text \<open>
  After a successful start: the queues are empty, the six threads were created in this order, each
  object has its four blocks of memory, the slots are assigned and the live frame is the one of the
  sensors.
\<close>

definition app_blocks :: "app \<Rightarrow> addr list" where
  "app_blocks w = ao_blocks (a_broadcaster w) @ ao_blocks (a_scheduler w) @ ao_blocks (m_gps (a_ddl w)) @
     ao_blocks (m_temp_hum (a_ddl w)) @ ao_blocks (m_servo (a_ddl w)) @ ao_blocks (m_distance (a_ddl w))"

definition app_threads :: "app \<Rightarrow> addr list" where
  "app_threads w = [ao_thread (a_broadcaster w), ao_thread (a_scheduler w),
      ao_thread (m_gps (a_ddl w)), ao_thread (m_temp_hum (a_ddl w)), ao_thread (m_servo (a_ddl w)),
      ao_thread (m_distance (a_ddl w))]"

definition app_started :: "app \<Rightarrow> os \<Rightarrow> bool" where
  "app_started w s0 \<longleftrightarrow> app_wf w \<and>
    (\<forall>ao\<in>set app_aos. queue_list (app_queue ao w) = [] \<and> q_capacity (app_queue ao w) = 4) \<and>
    os_threads (a_os w) = app_threads w @ os_threads s0 \<and> os_live (a_os w) = app_blocks w @ os_live s0 \<and>
    boot_ok (a_bus w) (a_os w) \<and>
    sc_subscribers (fsm_arg (active_fsm (a_scheduler w))) = scheduler_table \<and>
    sc_tick (fsm_arg (active_fsm (a_scheduler w))) = 0 \<and>
    br_source (fsm_arg (active_fsm (a_broadcaster w))) = ddl_frame_addr \<and>
    br_destination (fsm_arg (active_fsm (a_broadcaster w))) = ddl_snapshot_addr"

lemma modules_started_extends:
  "modules_started d b s \<Longrightarrow> os_extends s s' \<Longrightarrow> bus_mutex b' = bus_mutex b \<Longrightarrow> modules_started d b' s'"
  by (auto simp: modules_started_def queue_usable_def os_extends_def)

lemma app_init_success:
  assumes init: "app_init w = (eSTATUS_SUCCESSFUL, w')"
    and boot: "boot_ok (a_bus w) (a_os w)" and empty: "bus_list (a_bus w) = []"
  shows "app_started w' (a_os w) \<and> bus_mutex (a_bus w') = bus_mutex (a_bus w)"
proof -
  let ?fr = "br_memory (fsm_arg (active_fsm (a_broadcaster w))) ddl_frame_addr"
  obtain st d b s where dd: "ddl_init (Some ?fr) (a_ddl w) (a_bus w) (a_os w) = (st, d, b, s)"
    by (metis prod_cases4)
  have st: "st = eSTATUS_SUCCESSFUL" using init dd by (auto simp: app_init_def Let_def split: if_splits)
  note D = ddl_init_success [OF dd [unfolded st] boot empty]
  obtain cst ca where conf: "app_broadcaster_configure ddl_frame_addr ddl_snapshot_addr (a_broadcaster w) = (cst, ca)"
    by (cases "app_broadcaster_configure ddl_frame_addr ddl_snapshot_addr (a_broadcaster w)") auto
  have c: "cst = eSTATUS_SUCCESSFUL" "br_source (fsm_arg (active_fsm ca)) = ddl_frame_addr"
    "br_destination (fsm_arg (active_fsm ca)) = ddl_snapshot_addr"
    using conf by (auto simp: app_broadcaster_configure_def ddl_frame_addr_def ddl_snapshot_addr_def Let_def)
  define w1 where "w1 = w\<lparr>a_ddl := d, a_bus := b, a_os := s, a_broadcaster := ca\<rparr>"
  obtain st2 w4 where mods: "app_init_modules [eAPP_MODULE_SCHEDULER, eAPP_MODULE_BROADCASTER] w1 = (st2, w4)"
    by (cases "app_init_modules [eAPP_MODULE_SCHEDULER, eAPP_MODULE_BROADCASTER] w1") auto
  have init2: "(if failed st2 then (st2, w4) else
      (let (status, a) = app_subscribe_slots scheduler_slots (a_scheduler w4) in (status, w4\<lparr>a_scheduler := a\<rparr>)))
      = (eSTATUS_SUCCESSFUL, w')"
    using init dd conf c(1) mods unfolding app_init_def app_indices_eq by (simp add: Let_def st w1_def)
  then have st2: "st2 = eSTATUS_SUCCESSFUL" by (auto split: if_splits)
  have b1: "boot_ok (a_bus w1) (a_os w1)" using D by (simp add: w1_def)
  have len: "length ddl_subscriptions = 7"
    by (simp add: ddl_subscriptions_def ddl_indices_eq)
  have sch: "boot_ok (a_bus w2) (a_os w2) \<and> a_bus w2 = b \<and> a_ddl w2 = d \<and> a_broadcaster w2 = ca \<and>
      ao_created 4 scheduler_init (a_scheduler w2) s (a_os w2) \<and>
      sc_subscribers (fsm_arg (active_fsm (a_scheduler w2))) = replicate eSCHEDULER_SUBSCRIBERS_MAX zero_subscriber \<and>
      sc_tick (fsm_arg (active_fsm (a_scheduler w2))) = 0"
    if m: "app_module_init eAPP_MODULE_SCHEDULER w1 = (eSTATUS_SUCCESSFUL, w2)" for w2
  proof -
    obtain a1 s1 where i: "app_scheduler_init (a_scheduler w1) (a_os w1) = (eSTATUS_SUCCESSFUL, a1, s1)"
      and w2: "w2 = w1\<lparr>a_scheduler := a1, a_os := s1\<rparr>"
      using m by (auto simp: app_module_init_def split: prod.splits)
    note cr = app_scheduler_created [OF i b1]
    have "boot_ok b s1" using boot_ok_extends [OF b1] cr(1) by (simp add: ao_created_def w1_def)
    then show ?thesis using cr by (simp add: w2) (simp add: w1_def)
  qed
  have len1: "length (bus_list (a_bus w2)) < eEVENT_BUS_MAX_SUBSCRIPTIONS"
    if m: "app_module_init eAPP_MODULE_SCHEDULER w1 = (eSTATUS_SUCCESSFUL, w2)" for w2
    using sch [OF m] D len by (simp add: eEVENT_BUS_MAX_SUBSCRIPTIONS_def)
  obtain w2 b2 where m2: "app_module_init eAPP_MODULE_SCHEDULER w1 = (eSTATUS_SUCCESSFUL, w2)"
    and B2: "boot_ok b2 (a_os w2)" "bus_mutex b2 = bus_mutex (a_bus w2)"
      "bus_list b2 = bus_list (a_bus w2) @ [sub_of (app_ao_id eAPP_MODULE_SCHEDULER) App_post
        eAPP_MODULE_SCHEDULER (app_subscribe_event eAPP_MODULE_SCHEDULER)]"
    and r2: "app_init_modules [eAPP_MODULE_BROADCASTER] (w2\<lparr>a_bus := b2\<rparr>) = (eSTATUS_SUCCESSFUL, w4)"
    by (rule app_init_modules_Cons [OF mods [unfolded st2] conjunct1 [OF sch] len1])
  note S = sch [OF m2]
  have br: "boot_ok b2 (a_os w3) \<and> a_bus w3 = b2 \<and> a_ddl w3 = d \<and> a_scheduler w3 = a_scheduler w2 \<and>
      ao_created 4 broadcaster_init (a_broadcaster w3) (a_os w2) (a_os w3) \<and>
      active_fsm (a_broadcaster w3) = active_fsm ca"
    if m: "app_module_init eAPP_MODULE_BROADCASTER (w2\<lparr>a_bus := b2\<rparr>) = (eSTATUS_SUCCESSFUL, w3)" for w3
  proof -
    obtain a1 s1 where i: "app_broadcaster_init (a_broadcaster w2) (a_os w2) = (eSTATUS_SUCCESSFUL, a1, s1)"
      and w3: "w3 = w2\<lparr>a_bus := b2, a_broadcaster := a1, a_os := s1\<rparr>"
      using m by (auto simp: app_module_init_def fsm_codes split: prod.splits)
    note cr = app_broadcaster_created [OF i B2(1)]
    have "boot_ok b2 s1" using boot_ok_extends [OF B2(1)] cr(1) by (simp add: ao_created_def)
    then show ?thesis using cr S by (simp add: w3)
  qed
  have br1: "boot_ok (a_bus w3) (a_os w3)" and len2: "length (bus_list (a_bus w3)) < eEVENT_BUS_MAX_SUBSCRIPTIONS"
    if m: "app_module_init eAPP_MODULE_BROADCASTER (w2\<lparr>a_bus := b2\<rparr>) = (eSTATUS_SUCCESSFUL, w3)" for w3
    using br [OF m] S B2(3) D len by (simp_all add: eEVENT_BUS_MAX_SUBSCRIPTIONS_def)
  obtain w3 b3 where m3: "app_module_init eAPP_MODULE_BROADCASTER (w2\<lparr>a_bus := b2\<rparr>) = (eSTATUS_SUCCESSFUL, w3)"
    and B3: "boot_ok b3 (a_os w3)" "bus_mutex b3 = bus_mutex (a_bus w3)"
      "bus_list b3 = bus_list (a_bus w3) @ [sub_of (app_ao_id eAPP_MODULE_BROADCASTER) App_post
        eAPP_MODULE_BROADCASTER (app_subscribe_event eAPP_MODULE_BROADCASTER)]"
    and r3: "app_init_modules [] (w3\<lparr>a_bus := b3\<rparr>) = (eSTATUS_SUCCESSFUL, w4)"
    by (rule app_init_modules_Cons [OF r2 br1 len2])
  note R = br [OF m3]
  have w4: "w4 = w3\<lparr>a_bus := b3\<rparr>" using r3 by simp
  have sub: "sc_subscribers (fsm_arg (active_fsm (a_scheduler w4))) = replicate eSCHEDULER_SUBSCRIBERS_MAX zero_subscriber"
    using R S by (simp add: w4)
  have w': "w' = w4\<lparr>a_scheduler := (a_scheduler w4)\<lparr>active_fsm := (active_fsm (a_scheduler w4))\<lparr>fsm_arg :=
      (fsm_arg (active_fsm (a_scheduler w4)))\<lparr>sc_subscribers := scheduler_table\<rparr>\<rparr>\<rparr>\<rparr>"
    using init2 app_subscribe_slots_result [OF sub] by (simp add: st2)
  have S': "ao_created 4 scheduler_init (a_scheduler w2) s (a_os w2)"
    and R': "ao_created 4 broadcaster_init (a_broadcaster w3) (a_os w2) (a_os w3)"
    using S R by simp_all
  have e23: "os_extends (a_os w2) (a_os w3)" and es2: "os_extends s (a_os w2)"
    using S' R' by (simp_all add: ao_created_def)
  have mut: "bus_mutex b2 = bus_mutex b" "bus_mutex b3 = bus_mutex b" using S R B2(2) B3(2) by simp_all
  have MS: "modules_started d b s" using D by simp
  have M: "modules_started d b3 (a_os w3)"
    by (rule modules_started_extends [OF MS os_extends_trans [OF es2 e23] mut(2)])
  have QS: "queue_wf (event_queue (a_scheduler w2)) \<and> queue_usable (event_queue (a_scheduler w2)) (a_os w3) \<and>
      queue_list (event_queue (a_scheduler w2)) = [] \<and> q_capacity (event_queue (a_scheduler w2)) = 4 \<and>
      q_mutex (event_queue (a_scheduler w2)) \<noteq> bus_mutex b"
    by (rule created_queue [OF S' _ e23]) (use D in simp)
  have QB: "queue_wf (event_queue (a_broadcaster w3)) \<and> queue_usable (event_queue (a_broadcaster w3)) (a_os w3) \<and>
      queue_list (event_queue (a_broadcaster w3)) = [] \<and> q_capacity (event_queue (a_broadcaster w3)) = 4 \<and>
      q_mutex (event_queue (a_broadcaster w3)) \<noteq> bus_mutex b2"
    by (rule created_queue [OF R' B2(1)]) simp
  have F: "a_bus w' = b3" "a_os w' = a_os w3" "a_ddl w' = d" "a_broadcaster w' = a_broadcaster w3"
    "event_queue (a_scheduler w') = event_queue (a_scheduler w2)"
    "ao_thread (a_scheduler w') = ao_thread (a_scheduler w2)"
    "sc_subscribers (fsm_arg (active_fsm (a_scheduler w'))) = scheduler_table"
    "sc_tick (fsm_arg (active_fsm (a_scheduler w'))) = 0"
    using R S by (simp_all add: w' w4)
  have subs: "bus_list b3 = app_subscriptions"
    using B3(3) R B2(3) S D by (simp add: app_subscriptions_def app_indices_eq)
  have "app_wf w' \<and> (\<forall>ao\<in>set app_aos. queue_list (app_queue ao w') = [] \<and> q_capacity (app_queue ao w') = 4)"
    using M QS QB B3(1) subs mut
    by (simp add: app_wf_def app_aos_def app_queue_def F boot_ok_def modules_started_def ddl_aos_def)
  moreover have "os_threads (a_os w') = app_threads w' @ os_threads (a_os w)"
    using D S' R' by (simp add: F ao_created_def app_threads_def)
  moreover have "os_live (a_os w') = app_blocks w' @ os_live (a_os w)"
    using D S' R' by (simp add: F ao_created_def app_blocks_def ao_blocks_def)
  moreover have "boot_ok (a_bus w') (a_os w')" using B3(1) by (simp add: F)
  moreover have "bus_mutex (a_bus w') = bus_mutex (a_bus w)" using mut(2) D by (simp add: F)
  ultimately show ?thesis
    using R c(2,3) by (simp add: app_started_def F)
qed

lemmas app_init_started = app_init_success [THEN conjunct1]

end
