(* ===== verification/AppRouting.thy ===== *)
theory AppRouting
  imports AppFacts
begin

text \<open>
  The way of an event: publishing on the bus appends it to the queue of the subscribed module and
  changes nothing else; a tick of the scheduler publishes the event of the next slot; an update of
  the broadcaster makes the snapshot equal to the live frame.
\<close>

lemma util_active_object_post_frame:
  "util_active_object_post (Some a) e s = (st, Some a', s') \<Longrightarrow>
    active_fsm a' = active_fsm a \<and> ao_thread a' = ao_thread a \<and> ao_init_state a' = ao_init_state a"
  by (auto simp: util_active_object_post_def Let_def split: if_splits prod.splits)

interpretation scheduler_mod: ao_module app_scheduler_post app_scheduler_end event_queue
  by unfold_locales (simp_all only: app_scheduler_post_def app_scheduler_end_def ao_module_laws)

interpretation broadcaster_mod: ao_module app_broadcaster_post app_broadcaster_end event_queue
  by unfold_locales (simp_all only: app_broadcaster_post_def app_broadcaster_end_def ao_module_laws)

section \<open>Posting\<close>

definition queues_ok :: "app \<Rightarrow> os \<Rightarrow> bool" where
  "queues_ok w s \<longleftrightarrow> (\<forall>ao\<in>set app_aos. queue_inv s (app_queue ao w, s))"

lemma queues_ok_ddl: "queues_ok w s \<Longrightarrow> ddl_ready (a_ddl w) s"
  by (simp add: queues_ok_def ddl_ready_def app_aos_def app_queue_def ddl_aos_def)

text \<open>The identifier of the active object behind a post function and a module index.\<close>

fun post_target :: "post_fn \<Rightarrow> u32 \<Rightarrow> u32" where
  "post_target Ddl_post mi = ddl_ao_id mi"
| "post_target App_post mi = app_ao_id mi"

fun post_valid :: "post_fn \<Rightarrow> u32 \<Rightarrow> bool" where
  "post_valid Ddl_post mi \<longleftrightarrow> mi < eDLL_MODULE_COUNT"
| "post_valid App_post mi \<longleftrightarrow> mi < eAPP_MODULE_COUNT"

text \<open>\<open>w'\<close> differs from \<open>w\<close> in the contents of event queues only, as far as it is observed here.\<close>

definition same_rest :: "app \<Rightarrow> app \<Rightarrow> bool" where
  "same_rest w w' \<longleftrightarrow> a_bus w' = a_bus w \<and> a_os w' = a_os w \<and>
    active_fsm (a_scheduler w') = active_fsm (a_scheduler w) \<and>
    active_fsm (a_broadcaster w') = active_fsm (a_broadcaster w) \<and>
    live_frame (a_ddl w') = live_frame (a_ddl w) \<and> app_blocks w' = app_blocks w"

lemma util_active_object_post_blocks:
  "util_active_object_post (Some a) (Some e) s = (st, r, s') \<Longrightarrow> ao_blocks (the r) = ao_blocks a"
  by (auto simp: util_active_object_post_def util_queue_push_unfold ao_blocks_def Let_def split: prod.splits if_splits)

definition ddl_blocks :: "ddl \<Rightarrow> addr list" where
  "ddl_blocks d = ao_blocks (m_gps d) @ ao_blocks (m_temp_hum d) @ ao_blocks (m_servo d) @ ao_blocks (m_distance d)"

lemma app_blocks_ddl: "app_blocks w = ao_blocks (a_broadcaster w) @ ao_blocks (a_scheduler w) @ ddl_blocks (a_ddl w)"
  by (simp add: app_blocks_def ddl_blocks_def)

lemma ddl_post_blocks: "ddl_post mi (Some e) d s = (st, d', s') \<Longrightarrow> ddl_blocks d' = ddl_blocks d"
  by (auto simp: ddl_post_def ddl_module_post_def ddl_distance_post_def ddl_servo_post_def
      ddl_temperature_humidity_post_def ddl_gps_post_def ddl_blocks_def util_active_object_post_blocks
      split: if_splits prod.splits)

lemma ddl_post_live_frame:
  assumes "ddl_post mi (Some e) d s = (st, d', s')"
  shows "live_frame d' = live_frame d"
proof -
  have q: "active_fsm (the r) = active_fsm a" if "util_active_object_post (Some a) (Some e) s = (st, r, s')"
    for a :: "('st, 'a) ActiveObject" and st r s s'
    using that by (auto simp: util_active_object_post_def Let_def split: prod.splits if_splits)
  show ?thesis
    using assms
    by (auto simp: ddl_post_def ddl_module_post_def ddl_distance_post_def ddl_servo_post_def
        ddl_temperature_humidity_post_def ddl_gps_post_def live_frame_def q split: if_splits prod.splits)
qed

lemma app_module_codes:
  "eAPP_MODULE_BROADCASTER \<noteq> eAPP_MODULE_SCHEDULER" "\<not> eAPP_MODULE_COUNT \<le> eAPP_MODULE_SCHEDULER"
  "\<not> eAPP_MODULE_COUNT \<le> eAPP_MODULE_BROADCASTER"
  by (simp_all add: fsm_codes word_le_nat_alt)

lemma call_post_queue:
  assumes "queues_ok w s" and "post_valid f mi"
  shows "\<exists>w'. call_post f mi e w s = (post_status (app_queue (post_target f mi) w), w', s) \<and>
    posted app_queue app_aos (post_target f mi) e w w' s \<and> same_rest w w'"
proof (cases f)
  case Ddl_post
  then have mi: "mi < eDLL_MODULE_COUNT" using assms(2) by simp
  obtain d where d: "ddl_post mi (Some e) (a_ddl w) s = (post_status (ddl_queue (ddl_ao_id mi) (a_ddl w)), d, s)"
    "posted ddl_queue ddl_aos (ddl_ao_id mi) e (a_ddl w) d s"
    using ddl_post_queue [OF queues_ok_ddl [OF assms(1)] mi] by blast
  have n: "ddl_ao_id mi \<noteq> eAO_SCHEDULER" "ddl_ao_id mi \<noteq> eAO_BROADCASTER"
    by (simp_all add: ddl_ao_id_def)
  have "posted app_queue app_aos (ddl_ao_id mi) e w (w\<lparr>a_ddl := d\<rparr>) s"
    using d(2) assms(1) n by (simp add: posted_def app_aos_def app_queue_def ddl_aos_def queues_ok_def)
  then show ?thesis
    using d(1) n ddl_post_live_frame [OF d(1)] ddl_post_blocks [OF d(1)]
    by (simp add: Ddl_post app_queue_def same_rest_def app_blocks_ddl)
next
  case App_post
  then have "unat mi < 2" using assms(2) by (simp add: fsm_codes word_less_nat_alt)
  then have "unat mi = 0 \<or> unat mi = 1" by linarith
  then consider "mi = eAPP_MODULE_SCHEDULER" | "mi = eAPP_MODULE_BROADCASTER"
    by (auto simp: fsm_codes word_unat_eq_iff)
  then show ?thesis
  proof cases
    case 1
    have "queue_inv s (event_queue (a_scheduler w), s)"
      using assms(1) by (simp add: queues_ok_def app_aos_def app_queue_def)
    from scheduler_mod.post_some [OF this, of e] obtain a where
      a: "app_scheduler_post (Some e) (a_scheduler w) s = (post_status (event_queue (a_scheduler w)), Some a, s)"
      "posted (\<lambda>_. event_queue) [0] 0 e (a_scheduler w) a s"
      by (auto simp: posted_def post_status_def)
    then show ?thesis
      using 1 assms(1) util_active_object_post_frame [OF a(1) [unfolded app_scheduler_post_def]]
        util_active_object_post_blocks [OF a(1) [unfolded app_scheduler_post_def]]
      by (intro exI [of _ "w\<lparr>a_scheduler := a\<rparr>"])
        (simp add: App_post app_post_def app_module_post_def app_ao_id_def posted_def app_aos_def
          app_queue_def ddl_aos_def queues_ok_def same_rest_def app_module_codes app_blocks_def)
  next
    case 2
    have "queue_inv s (event_queue (a_broadcaster w), s)"
      using assms(1) by (simp add: queues_ok_def app_aos_def app_queue_def)
    from broadcaster_mod.post_some [OF this, of e] obtain a where
      a: "app_broadcaster_post (Some e) (a_broadcaster w) s = (post_status (event_queue (a_broadcaster w)), Some a, s)"
      "posted (\<lambda>_. event_queue) [0] 0 e (a_broadcaster w) a s"
      by (auto simp: posted_def post_status_def)
    then show ?thesis
      using 2 assms(1) util_active_object_post_frame [OF a(1) [unfolded app_broadcaster_post_def]]
        util_active_object_post_blocks [OF a(1) [unfolded app_broadcaster_post_def]]
      by (intro exI [of _ "w\<lparr>a_broadcaster := a\<rparr>"])
        (simp add: App_post app_post_def app_module_post_def app_ao_id_def posted_def app_aos_def
          app_queue_def ddl_aos_def queues_ok_def same_rest_def app_module_codes app_blocks_def)
  qed
qed

section \<open>Publishing\<close>

text \<open>Locking the bus does not get in the way of the queues.\<close>

lemma app_wf_locked:
  assumes "app_wf w"
  shows "queues_ok w (osal_mutex_lock (bus_mutex (a_bus w)) (a_os w))"
proof -
  have u: "bus_usable (a_bus w) (a_os w)" using assms by (simp add: app_wf_def)
  then have l: "osal_mutex_lock (bus_mutex (a_bus w)) (a_os w)
      = (a_os w)\<lparr>os_held := bus_mutex (a_bus w) # os_held (a_os w)\<rparr>"
    by (simp add: bus_usable_def osal_mutex_lock_def)
  show ?thesis
    using assms by (auto simp: queues_ok_def queue_inv_def app_wf_def l queue_usable_def)
qed

lemma posted_app_wf:
  assumes wf: "app_wf w" and p: "posted app_queue app_aos target e w w'
      (osal_mutex_lock (bus_mutex (a_bus w)) (a_os w))" and r: "same_rest w w'"
  shows "app_wf w'" "posted app_queue app_aos target e w w' (a_os w)"
proof -
  have u: "bus_usable (a_bus w) (a_os w)" using wf by (simp add: app_wf_def)
  then have l: "osal_mutex_lock (bus_mutex (a_bus w)) (a_os w)
      = (a_os w)\<lparr>os_held := bus_mutex (a_bus w) # os_held (a_os w)\<rparr>"
    by (simp add: bus_usable_def osal_mutex_lock_def)
  have q: "queue_wf (app_queue ao w') \<and> queue_usable (app_queue ao w') (a_os w) \<and>
      q_mutex (app_queue ao w') \<noteq> bus_mutex (a_bus w)" if "ao \<in> set app_aos" for ao
    using p that by (auto simp: posted_def queue_inv_def queue_usable_def l)
  show "app_wf w'" using wf q r by (simp add: app_wf_def same_rest_def)
  show "posted app_queue app_aos target e w w' (a_os w)"
    using p q by (simp add: posted_def queue_inv_def)
qed

text \<open>The pairs of an active object and an event type somebody is subscribed to.\<close>

definition subscribed :: "(u32 \<times> u32) list" where
  "subscribed = [(eAO_DISTANCE, eDISTANCE_EVENT_READ), (eAO_SERVO, eSERVO_EVENT_SCAN),
     (eAO_SERVO, eSERVO_EVENT_DIRECTIONS), (eAO_SERVO, eSERVO_EVENT_NOISE_DETECTED),
     (eAO_SERVO, eSERVO_EVENT_LOCK), (eAO_TEMPERATURE_HUMIDITY, eTEMPERATURE_HUMIDITY_EVENT_READ),
     (eAO_GPS, eGPS_EVENT_READ), (eAO_SCHEDULER, eSCHEDULER_EVENT_START),
     (eAO_BROADCASTER, eBROADCASTER_EVENT_UPDATE)]"

lemma app_subscriptions_eq: "app_subscriptions = [
    sub_of eAO_DISTANCE Ddl_post 0 \<lparr>etype = eDISTANCE_EVENT_READ\<rparr>,
    sub_of eAO_SERVO Ddl_post 1 \<lparr>etype = eSERVO_EVENT_SCAN\<rparr>,
    sub_of eAO_SERVO Ddl_post 1 \<lparr>etype = eSERVO_EVENT_DIRECTIONS\<rparr>,
    sub_of eAO_SERVO Ddl_post 1 \<lparr>etype = eSERVO_EVENT_NOISE_DETECTED\<rparr>,
    sub_of eAO_SERVO Ddl_post 1 \<lparr>etype = eSERVO_EVENT_LOCK\<rparr>,
    sub_of eAO_TEMPERATURE_HUMIDITY Ddl_post 2 \<lparr>etype = eTEMPERATURE_HUMIDITY_EVENT_READ\<rparr>,
    sub_of eAO_GPS Ddl_post 3 \<lparr>etype = eGPS_EVENT_READ\<rparr>,
    sub_of eAO_SCHEDULER App_post 0 \<lparr>etype = eSCHEDULER_EVENT_START\<rparr>,
    sub_of eAO_BROADCASTER App_post 1 \<lparr>etype = eBROADCASTER_EVENT_UPDATE\<rparr>]"
  by (simp add: app_subscriptions_def ddl_subscriptions_def ddl_indices_eq app_indices_eq
      ddl_subscribe_events_def app_subscribe_event_def app_ao_id_def ddl_ao_id_def fsm_codes
      distance_subscribe_events_def servo_subscribe_events_def
      temperature_humidity_subscribe_events_def gps_subscribe_events_def)

text \<open>Every such pair has exactly one subscription, and it belongs to the named active object.\<close>

lemma subscribed_target:
  assumes "(ao, ty) \<in> set subscribed"
  shows "\<exists>f mi. filter (sub_matches ao ty) app_subscriptions = [sub_of ao f mi \<lparr>etype = ty\<rparr>] \<and>
    post_valid f mi \<and> post_target f mi = ao \<and> ao < eAO_COUNT"
  using assms
  by (auto simp: subscribed_def app_subscriptions_eq sub_matches_def sub_of_def fsm_codes
      ddl_ao_id_def app_ao_id_def)

lemma not_subscribed_target:
  assumes "(ao, ty) \<notin> set subscribed"
  shows "filter (sub_matches ao ty) app_subscriptions = []"
  using assms unfolding filter_empty_conv app_subscriptions_eq
  by (simp add: subscribed_def sub_matches_def sub_of_def) blast

text \<open>A published event arrives, once, in the queue of its module, if the queue has room.\<close>

lemma app_publish_subscribed:
  assumes wf: "app_wf w" and sub: "(ao, ty) \<in> set subscribed"
  shows "\<exists>w'. app_publish ao ty w = (eSTATUS_SUCCESSFUL, w') \<and> app_wf w' \<and> same_rest w w' \<and>
    posted app_queue app_aos ao \<lparr>etype = ty\<rparr> w w' (a_os w)"
proof -
  obtain f mi where t: "filter (sub_matches ao ty) app_subscriptions = [sub_of ao f mi \<lparr>etype = ty\<rparr>]"
    "post_valid f mi" "post_target f mi = ao" "ao < eAO_COUNT"
    using subscribed_target [OF sub] by blast
  let ?l = "osal_mutex_lock (bus_mutex (a_bus w)) (a_os w)"
  have b: "bus_wf (a_bus w)" "bus_list (a_bus w) = app_subscriptions" "bus_usable (a_bus w) (a_os w)"
    using wf by (simp_all add: app_wf_def)
  obtain w' where c: "call_post f mi \<lparr>etype = ty\<rparr> w ?l = (post_status (app_queue ao w), w', ?l)"
    "posted app_queue app_aos ao \<lparr>etype = ty\<rparr> w w' ?l" "same_rest w w'"
    using call_post_queue [OF app_wf_locked [OF wf] t(2)] t(3) by blast
  have "util_event_bus_publish call_post ao ty (a_bus w) w (a_os w)
      = (eSTATUS_SUCCESSFUL, w', osal_mutex_unlock (bus_mutex (a_bus w)) ?l)"
    using publish_delivers [OF b(1) t(4), of call_post ty w "a_os w"] t(1) b(2) c(1)
    by (simp add: sub_of_def)
  then have "app_publish ao ty w = (eSTATUS_SUCCESSFUL, w'\<lparr>a_os := a_os w\<rparr>)"
    by (simp add: app_publish_def bus_lock_unlock [OF b(3)])
  moreover have "w'\<lparr>a_os := a_os w\<rparr> = w'" using c(3) by (simp add: same_rest_def)
  ultimately show ?thesis using posted_app_wf [OF wf c(2,3)] c(3) by simp
qed

lemma app_publish_not_subscribed:
  assumes wf: "app_wf w" and sub: "(ao, ty) \<notin> set subscribed"
  shows "app_publish ao ty w =
    (if eAO_COUNT \<le> ao then eSTATUS_INVALID_VALUE else eSTATUS_ACTION_FAILED, w)"
proof -
  have b: "bus_wf (a_bus w)" "bus_list (a_bus w) = app_subscriptions" "bus_usable (a_bus w) (a_os w)"
    using wf by (simp_all add: app_wf_def)
  show ?thesis
  proof (cases "eAO_COUNT \<le> ao")
    case True
    then show ?thesis by (simp add: app_publish_def util_event_bus_publish_def)
  next
    case False
    then have "ao < eAO_COUNT" by simp
    from publish_delivers [OF b(1) this, of call_post ty w "a_os w"] show ?thesis
      using not_subscribed_target [OF sub] b(2) False
      by (simp add: app_publish_def bus_lock_unlock [OF b(3)])
  qed
qed

section \<open>The handlers\<close>

text \<open>A tick of the running scheduler: the event of the next slot goes to its module.\<close>

lemma scheduler_table_nth:
  assumes "i < eSCHEDULER_SUBSCRIBERS_MAX"
  shows "sb_active (scheduler_table ! i) \<longleftrightarrow> i < 5"
    "i < 5 \<Longrightarrow> scheduler_table ! i = \<lparr>sb_event = Some (snd (snd (scheduler_slots ! i))),
      sb_ao_id = fst (snd (scheduler_slots ! i)), sb_active = True\<rparr>"
    "i < 5 \<Longrightarrow> (fst (snd (scheduler_slots ! i)), etype (snd (snd (scheduler_slots ! i)))) \<in> set subscribed"
proof -
  have "i = 0 \<or> i = 1 \<or> i = 2 \<or> i = 3 \<or> i = 4 \<or> i = 5"
    using assms by (auto simp: eSCHEDULER_SUBSCRIBERS_MAX_def)
  then show "sb_active (scheduler_table ! i) \<longleftrightarrow> i < 5"
    "i < 5 \<Longrightarrow> scheduler_table ! i = \<lparr>sb_event = Some (snd (snd (scheduler_slots ! i))),
      sb_ao_id = fst (snd (scheduler_slots ! i)), sb_active = True\<rparr>"
    "i < 5 \<Longrightarrow> (fst (snd (scheduler_slots ! i)), etype (snd (snd (scheduler_slots ! i)))) \<in> set subscribed"
    by (elim disjE; simp add: scheduler_table_def scheduler_slots_def zero_subscriber_def subscribed_def)+
qed

text \<open>The state of the running scheduler.\<close>

definition scheduler_running :: "app \<Rightarrow> bool" where
  "scheduler_running w \<longleftrightarrow> current_state (active_fsm (a_scheduler w)) = Some scheduler_run \<and>
    sc_subscribers (fsm_arg (active_fsm (a_scheduler w))) = scheduler_table \<and>
    unat (sc_tick (fsm_arg (active_fsm (a_scheduler w)))) < eSCHEDULER_SUBSCRIBERS_MAX"

abbreviation scheduler_slot :: "app \<Rightarrow> nat" where
  "scheduler_slot w \<equiv> unat (sc_tick (fsm_arg (active_fsm (a_scheduler w))))"

lemma scheduler_table_ok:
  assumes "sc_subscribers a = scheduler_table"
  shows "length (sc_subscribers a) = eSCHEDULER_SUBSCRIBERS_MAX" "slots_ok a"
  using assms by (auto simp: scheduler_table_def scheduler_slots_def eSCHEDULER_SUBSCRIBERS_MAX_def
      slots_ok_def zero_subscriber_def)

lemma scheduler_handle_tick_eq:
  assumes run: "scheduler_running w" and wf: "app_wf w"
    and i: "i = Suc (scheduler_slot w) mod eSCHEDULER_SUBSCRIBERS_MAX"
  shows "\<exists>w'. scheduler_handle (Suc n) \<lparr>etype = eSCHEDULER_EVENT_TICK\<rparr> w = Some w' \<and>
    scheduler_slot w' = i \<and> scheduler_running w' \<and> a_bus w' = a_bus w \<and> a_os w' = a_os w \<and>
    (\<forall>ao. app_queue ao w' = app_queue ao (slot_effect app_publish (scheduler_table ! i) w)) \<and>
    live_frame (a_ddl w') = live_frame (a_ddl (slot_effect app_publish (scheduler_table ! i) w)) \<and>
    a_bus (slot_effect app_publish (scheduler_table ! i) w) = a_bus w \<and>
    a_os (slot_effect app_publish (scheduler_table ! i) w) = a_os w"
proof -
  define f where "f = active_fsm (a_scheduler w)"
  define a where "a = fsm_arg f"
  define w1 where "w1 = slot_effect app_publish (scheduler_table ! i) w"
  have sub: "sc_subscribers a = scheduler_table" and cs: "current_state f = Some scheduler_run"
    and t: "unat (sc_tick a) < eSCHEDULER_SUBSCRIBERS_MAX"
    using run by (simp_all add: scheduler_running_def f_def a_def)
  have ok: "scheduler_ok (a, w)" "slots_ok a"
    using t scheduler_table_ok [OF sub] by (simp_all add: scheduler_ok_def)
  have i': "i = Suc (unat (sc_tick a)) mod eSCHEDULER_SUBSCRIBERS_MAX" by (simp add: i a_def f_def)
  have ilt: "i < eSCHEDULER_SUBSCRIBERS_MAX" by (simp add: i eSCHEDULER_SUBSCRIBERS_MAX_def)
  then have u: "unat (of_nat i :: u32) = i"
    by (intro unat_of_nat_small) (simp add: eSCHEDULER_SUBSCRIBERS_MAX_def)
  have send: "util_fsm_send_event (scheduler_states app_publish) (Suc n)
      (Some \<lparr>current_state = current_state f, fsm_arg = (a, w)\<rparr>) \<lparr>etype = eSCHEDULER_EVENT_TICK\<rparr>
      = Some (eSTATUS_SUCCESSFUL, Some \<lparr>current_state = Some scheduler_run,
          fsm_arg = (a\<lparr>sc_tick := of_nat i\<rparr>, w1)\<rparr>)"
    using scheduler_tick_effect [OF ok, of app_publish] cs
    by (simp add: scheduler_run_tick i' [symmetric] sub w1_def)
  define w' where "w' = w1\<lparr>a_scheduler := (a_scheduler w1)\<lparr>active_fsm :=
      \<lparr>current_state = Some scheduler_run, fsm_arg = a\<lparr>sc_tick := of_nat i\<rparr>\<rparr>\<rparr>\<rparr>"
  have h: "scheduler_handle (Suc n) \<lparr>etype = eSCHEDULER_EVENT_TICK\<rparr> w = Some w'"
    using send by (simp add: scheduler_handle_def f_def [symmetric] a_def [symmetric] w'_def Let_def)
  have same: "a_bus w1 = a_bus w \<and> a_os w1 = a_os w"
  proof (cases "i < 5")
    case True
    note tn = scheduler_table_nth [OF ilt]
    show ?thesis
      using app_publish_subscribed [OF wf tn(3) [OF True]]
      by (auto simp: w1_def slot_effect_def tn(2) [OF True] same_rest_def)
  next
    case False
    then show ?thesis using scheduler_table_nth(1) [OF ilt] by (simp add: w1_def slot_effect_def)
  qed
  have "app_queue ao w' = app_queue ao w1" for ao by (simp add: w'_def app_queue_def)
  then show ?thesis
    using h same sub u ilt by (simp add: w'_def w1_def [symmetric] scheduler_running_def)
qed

text \<open>A tick keeps the program well formed and posts to one module, or to none in the empty slot.\<close>

lemma scheduler_tick_posts:
  assumes run: "scheduler_running w" and wf: "app_wf w"
    and i: "i = Suc (scheduler_slot w) mod eSCHEDULER_SUBSCRIBERS_MAX"
  shows "\<exists>w'. scheduler_handle (Suc n) \<lparr>etype = eSCHEDULER_EVENT_TICK\<rparr> w = Some w' \<and>
    scheduler_running w' \<and> scheduler_slot w' = i \<and> app_wf w' \<and>
    live_frame (a_ddl w') = live_frame (a_ddl w) \<and>
    (if i < 5 then posted app_queue app_aos (fst (snd (scheduler_slots ! i)))
                     (snd (snd (scheduler_slots ! i))) w w' (a_os w)
     else \<forall>ao\<in>set app_aos. app_queue ao w' = app_queue ao w)"
proof -
  define w1 where "w1 = slot_effect app_publish (scheduler_table ! i) w"
  obtain w' where w': "scheduler_handle (Suc n) \<lparr>etype = eSCHEDULER_EVENT_TICK\<rparr> w = Some w'"
    "scheduler_slot w' = i" "scheduler_running w'" "a_bus w' = a_bus w" "a_os w' = a_os w"
    "\<forall>ao. app_queue ao w' = app_queue ao w1" "live_frame (a_ddl w') = live_frame (a_ddl w1)"
    using scheduler_handle_tick_eq [OF run wf i, of n] by (auto simp: w1_def)
  have ilt: "i < eSCHEDULER_SUBSCRIBERS_MAX" by (simp add: i eSCHEDULER_SUBSCRIBERS_MAX_def)
  note tn = scheduler_table_nth [OF ilt]
  show ?thesis
  proof (cases "i < 5")
    case True
    let ?e = "snd (snd (scheduler_slots ! i))"
    have e: "\<lparr>etype = etype ?e\<rparr> = ?e" by (cases ?e) simp
    have c: "app_wf w1" "posted app_queue app_aos (fst (snd (scheduler_slots ! i))) ?e w w1 (a_os w)"
        "live_frame (a_ddl w1) = live_frame (a_ddl w)" "a_bus w1 = a_bus w" "a_os w1 = a_os w"
      using app_publish_subscribed [OF wf tn(3) [OF True]] e
      by (auto simp: w1_def slot_effect_def tn(2) [OF True] same_rest_def)
    have "app_wf w'" using c(1) w'(4-6) by (simp add: app_wf_def c(4,5))
    then show ?thesis
      using w' True c(2,3) by (simp add: posted_def)
  next
    case False
    then have "w1 = w" using tn(1) by (simp add: w1_def slot_effect_def)
    then show ?thesis using w' False wf by (simp add: app_wf_def)
  qed
qed

text \<open>An update makes the snapshot equal to the live frame, and that is all it does.\<close>

lemma broadcaster_update_snapshot:
  assumes "current_state (active_fsm (a_broadcaster w)) = Some broadcaster_idle"
    and "br_source (fsm_arg (active_fsm (a_broadcaster w))) = ddl_frame_addr"
    and "br_destination (fsm_arg (active_fsm (a_broadcaster w))) = ddl_snapshot_addr"
  shows "\<exists>w'. broadcaster_handle (Suc n) \<lparr>etype = eBROADCASTER_EVENT_UPDATE\<rparr> w = Some w' \<and>
    app_get_ddl_snapshot w' = live_frame (a_ddl w) \<and> a_ddl w' = a_ddl w \<and>
    a_scheduler w' = a_scheduler w \<and> event_queue (a_broadcaster w') = event_queue (a_broadcaster w) \<and>
    (let f = active_fsm (a_broadcaster w); frame = live_frame (a_ddl w)
     in w' = w\<lparr>a_broadcaster := (a_broadcaster w)\<lparr>active_fsm := f\<lparr>fsm_arg := (fsm_arg f)\<lparr>br_memory :=
          (br_memory (fsm_arg f))(ddl_frame_addr := frame, ddl_snapshot_addr := frame)\<rparr>\<rparr>\<rparr>\<rparr>)"
proof -
  have e: "eFSM_EVENT_USER \<le> eBROADCASTER_EVENT_UPDATE" by (simp add: eBROADCASTER_EVENT_UPDATE_def)
  show ?thesis
    using assms e
    by (simp add: broadcaster_handle_def util_fsm_send_event_def broadcaster_idle_event
        app_get_ddl_snapshot_def copy_frame_only Let_def del: call_state.simps)
qed

end
