(* ===== verification/System.thy ===== *)
theory System
  imports AppRouting
begin

text \<open>
  The system as a whole: its start with a cooperating operating system, the routing of events, the
  snapshot, the shutdown, and the memory of a program that starts, on which the properties of the
  application layer are witnessed.
\<close>

section \<open>A program that starts\<close>

definition zero_queue :: "Event Queue" where
  "zero_queue = \<lparr>q_buffer = 0, q_slots = [], q_capacity = 0, q_head = 0, q_tail = 0, q_size = 0,
     q_mutex = 0, q_not_empty = 0\<rparr>"

definition static_object :: "'a \<Rightarrow> ('st, 'a) ActiveObject" where
  "static_object a = \<lparr>ao_thread = 0, event_queue = zero_queue,
     active_fsm = \<lparr>current_state = None, fsm_arg = a\<rparr>, ao_init_state = None\<rparr>"

definition start_answers :: "nat \<Rightarrow> int" where
  "start_answers n = [1, 1, 0, 1, 0, 1, 0] ! (n mod 7)"

definition demo_app :: app where
  "demo_app = \<lparr>a_ddl = \<lparr>m_distance = static_object demo_distance, m_servo = static_object demo_servo,
       m_temp_hum = static_object demo_temp_hum, m_gps = static_object demo_gps\<rparr>,
     a_scheduler = static_object \<lparr>sc_timer = 0, sc_timer_arg = null_timer_arg, sc_tick = 0,
       sc_subscribers = [], sc_os = boot_os (\<lambda>_. 0) us_clock\<rparr>,
     a_broadcaster = static_object \<lparr>br_source = 0, br_destination = 0, br_memory = (\<lambda>_. zero_ddl_frame)\<rparr>,
     a_bus = static_bus\<lparr>bus_mutex := 1\<rparr>,
     a_os = (boot_os start_answers us_clock)\<lparr>os_live := [1], os_fresh := 2\<rparr>\<rparr>"

section \<open>A start whose requests are granted\<close>

text \<open>The answers that are still to come grant every request of the next object's creation.\<close>

definition granted :: "os \<Rightarrow> bool" where
  "granted s \<longleftrightarrow> (\<forall>n. os_answers s (os_asked s + n) = start_answers n)"

lemma start_answers_values:
  "start_answers 0 = 1" "start_answers 1 = 1" "start_answers 2 = 0" "start_answers 3 = 1"
  "start_answers 4 = 0" "start_answers 5 = 1" "start_answers 6 = 0" "start_answers (7 + n) = start_answers n"
  by (simp_all add: start_answers_def)

lemma granted_answers:
  assumes "granted s"
  shows "os_answers s (os_asked s) = 1" "os_answers s (Suc (os_asked s)) = 1"
    "os_answers s (Suc (Suc (os_asked s))) = 0" "os_answers s (Suc (Suc (Suc (os_asked s)))) = 1"
    "os_answers s (Suc (Suc (Suc (Suc (os_asked s))))) = 0"
    "os_answers s (Suc (Suc (Suc (Suc (Suc (os_asked s)))))) = 1"
    "os_answers s (Suc (Suc (Suc (Suc (Suc (Suc (os_asked s))))))) = 0"
    "os_answers s (Suc (Suc (Suc (Suc (Suc (Suc (Suc (os_asked s + n)))))))) = start_answers n"
proof -
  have a: "os_answers s (os_asked s + n) = start_answers n" for n using assms by (simp add: granted_def)
  show "os_answers s (os_asked s) = 1" "os_answers s (Suc (os_asked s)) = 1"
    "os_answers s (Suc (Suc (os_asked s))) = 0" "os_answers s (Suc (Suc (Suc (os_asked s)))) = 1"
    "os_answers s (Suc (Suc (Suc (Suc (os_asked s))))) = 0"
    "os_answers s (Suc (Suc (Suc (Suc (Suc (os_asked s)))))) = 1"
    "os_answers s (Suc (Suc (Suc (Suc (Suc (Suc (os_asked s))))))) = 0"
    "os_answers s (Suc (Suc (Suc (Suc (Suc (Suc (Suc (os_asked s + n)))))))) = start_answers n"
    using a [of 0, unfolded start_answers_values] a [of 1, unfolded start_answers_values]
      a [of 2, unfolded start_answers_values] a [of 3, unfolded start_answers_values]
      a [of 4, unfolded start_answers_values] a [of 5, unfolded start_answers_values]
      a [of 6, unfolded start_answers_values] a [of "7 + n", unfolded start_answers_values(8)]
    by (simp_all add: add.commute [of _ n] numeral_eq_Suc)
qed

lemma active_object_granted:
  assumes "granted s" and "os_wf s" and "cap \<noteq> 0"
  shows "\<exists>a' s'. util_active_object_init (Some a) cap (Some st) s = (eSTATUS_SUCCESSFUL, Some a', s') \<and>
    granted s'"
proof -
  have "os_fresh s \<noteq> 0" using assms(2) by (simp add: os_wf_def)
  then show ?thesis
    using assms(3) granted_answers [OF assms(1)]
    by (simp add: util_active_object_init_def util_queue_init_def osal_alloc_def osal_mutex_init_def
        osal_cond_init_def osal_thread_create_def ask_def Let_def granted_def)
qed

lemma ddl_module_granted:
  assumes "granted s" and "os_wf s"
  shows "\<exists>w' s'. ddl_module_init mi (Some fr) w s = (eSTATUS_SUCCESSFUL, w', s') \<and> granted s'"
proof -
  note g = active_object_granted [OF assms]
  show ?thesis
    using g [of eDISTANCE_QUEUE_CAPACITY "(m_distance w)\<lparr>active_fsm := (active_fsm (m_distance w))\<lparr>fsm_arg :=
          (fsm_arg (active_fsm (m_distance w)))\<lparr>d_frame := dist_frame fr, d_retry := 0\<rparr>\<rparr>\<rparr>" distance_init]
      g [of eSERVO_QUEUE_CAPACITY "(m_servo w)\<lparr>active_fsm := (active_fsm (m_servo w))\<lparr>fsm_arg :=
          (fsm_arg (active_fsm (m_servo w)))\<lparr>s_frame := servo_frame fr\<rparr>\<rparr>\<rparr>" servo_init]
      g [of eTEMPERATURE_HUMIDITY_QUEUE_CAPACITY "(m_temp_hum w)\<lparr>active_fsm := (active_fsm (m_temp_hum w))\<lparr>fsm_arg :=
          (fsm_arg (active_fsm (m_temp_hum w)))\<lparr>t_frame := temp_hum_frame fr, t_retry := 0\<rparr>\<rparr>\<rparr>"
          temperature_humidity_init]
      g [of eGPS_QUEUE_CAPACITY "(m_gps w)\<lparr>active_fsm := (active_fsm (m_gps w))\<lparr>fsm_arg :=
          (fsm_arg (active_fsm (m_gps w)))\<lparr>g_frame := gps_frame fr, g_retry := 0\<rparr>\<rparr>\<rparr>" gps_init]
    by (auto simp: ddl_module_init_def ddl_distance_init_def ddl_servo_init_def
        ddl_temperature_humidity_init_def ddl_gps_init_def eDISTANCE_QUEUE_CAPACITY_def
        eSERVO_QUEUE_CAPACITY_def eTEMPERATURE_HUMIDITY_QUEUE_CAPACITY_def eGPS_QUEUE_CAPACITY_def Let_def)
qed

lemma ddl_init_modules_granted:
  assumes "boot_ok b s" and "granted s" and "\<forall>mi\<in>set ms. mi < eDLL_MODULE_COUNT"
    and "length (bus_list b) + sum_list (map (\<lambda>mi. length (ddl_subscribe_events mi)) ms)
      \<le> eEVENT_BUS_MAX_SUBSCRIPTIONS"
  shows "\<exists>w' b' s'. ddl_init_modules ms (Some fr) w b s = (eSTATUS_SUCCESSFUL, w', b', s') \<and>
    boot_ok b' s' \<and> granted s' \<and>
    length (bus_list b') = length (bus_list b) + sum_list (map (\<lambda>mi. length (ddl_subscribe_events mi)) ms)"
  using assms
proof (induction ms arbitrary: w b s)
  case (Cons mi ms)
  have "os_wf s" using Cons.prems(1) by (simp add: boot_ok_def)
  then obtain w1 s1 where m: "ddl_module_init mi (Some fr) w s = (eSTATUS_SUCCESSFUL, w1, s1)" "granted s1"
    using ddl_module_granted [OF Cons.prems(2)] by blast
  have "mi < eDLL_MODULE_COUNT" using Cons.prems(3) by simp
  then have "os_extends s s1"
    by (rule ddl_module_cases)
      (use ddl_module_created [OF Cons.prems(1), of fr w w1 s1] m(1) in \<open>auto simp: ao_created_def\<close>)
  then have boot: "boot_ok b s1" using boot_ok_extends [OF Cons.prems(1)] by blast
  obtain b1 where b1: "ddl_subscribe mi (ddl_subscribe_events mi) b s1 = (eSTATUS_SUCCESSFUL, b1, s1)"
    "boot_ok b1 s1"
    "bus_list b1 = bus_list b @ map (sub_of (ddl_ao_id mi) Ddl_post mi) (ddl_subscribe_events mi)"
    using ddl_subscribe_boot [OF boot, of "ddl_subscribe_events mi" mi] Cons.prems(4) by auto
  then show ?case
    using Cons.IH [OF b1(2) m(2), of w1] Cons.prems(3,4) m(1) by auto
qed simp

lemma app_init_granted:
  assumes boot: "boot_ok (a_bus w) (a_os w)" and "bus_list (a_bus w) = []" and "granted (a_os w)"
  shows "fst (app_init w) = eSTATUS_SUCCESSFUL"
proof -
  let ?fr = "br_memory (fsm_arg (active_fsm (a_broadcaster w))) ddl_frame_addr"
  have "\<forall>mi\<in>set ddl_indices. mi < eDLL_MODULE_COUNT" "sum_list (map (\<lambda>mi. length (ddl_subscribe_events mi)) ddl_indices) = 7"
    by (simp_all add: ddl_indices_eq) (simp_all add: fsm_codes)
  then obtain d b s where d: "ddl_init (Some ?fr) (a_ddl w) (a_bus w) (a_os w) = (eSTATUS_SUCCESSFUL, d, b, s)"
    "boot_ok b s" "granted s" "length (bus_list b) = 7"
    using ddl_init_modules_granted [OF boot assms(3), of ddl_indices ?fr "a_ddl w"] assms(2)
    by (auto simp: ddl_init_def eEVENT_BUS_MAX_SUBSCRIPTIONS_def)
  obtain br where br: "app_broadcaster_configure ddl_frame_addr ddl_snapshot_addr (a_broadcaster w)
      = (eSTATUS_SUCCESSFUL, br)" "br_source (fsm_arg (active_fsm br)) = ddl_frame_addr"
    "br_destination (fsm_arg (active_fsm br)) = ddl_snapshot_addr"
    by (simp add: app_broadcaster_configure_def ddl_frame_addr_def ddl_snapshot_addr_def Let_def)
  have wf: "os_wf s" using d(2) by (simp add: boot_ok_def)
  obtain sc s1 where sc: "app_scheduler_init (a_scheduler w) s = (eSTATUS_SUCCESSFUL, sc, s1)" "granted s1"
    using active_object_granted [OF d(3) wf, of eSCHEDULER_QUEUE_CAPACITY
        "(a_scheduler w)\<lparr>active_fsm := (active_fsm (a_scheduler w))\<lparr>fsm_arg :=
          (fsm_arg (active_fsm (a_scheduler w)))\<lparr>sc_tick := 0,
             sc_subscribers := replicate eSCHEDULER_SUBSCRIBERS_MAX zero_subscriber\<rparr>\<rparr>\<rparr>" scheduler_init]
    by (auto simp: app_scheduler_init_def eSCHEDULER_QUEUE_CAPACITY_def Let_def simp del: replicate.simps)
  note cr = app_scheduler_created [OF sc(1) d(2)]
  have boot1: "boot_ok b s1" using boot_ok_extends [OF d(2)] cr(1) by (simp add: ao_created_def)
  obtain b1 where b1: "util_event_bus_subscribe (app_ao_id eAPP_MODULE_SCHEDULER) (Some App_post)
      eAPP_MODULE_SCHEDULER (Some (app_subscribe_event eAPP_MODULE_SCHEDULER)) b s1
      = (eSTATUS_SUCCESSFUL, b1, s1)" "boot_ok b1 s1" "length (bus_list b1) = 8"
    using bus_subscribe_boot [OF boot1 app_ao_id_bound] d(4)
    by (fastforce simp: eEVENT_BUS_MAX_SUBSCRIPTIONS_def)
  have wf1: "os_wf s1" using b1(2) by (simp add: boot_ok_def)
  obtain br2 s2 where br2: "app_broadcaster_init br s1 = (eSTATUS_SUCCESSFUL, br2, s2)"
    using active_object_granted [OF sc(2) wf1, of eBROADCASTER_QUEUE_CAPACITY br broadcaster_init] br(2,3)
    by (auto simp: app_broadcaster_init_def eBROADCASTER_QUEUE_CAPACITY_def Let_def ddl_frame_addr_def
        ddl_snapshot_addr_def)
  have boot2: "boot_ok b1 s2"
    using boot_ok_extends [OF b1(2)] app_broadcaster_created(1) [OF br2 b1(2)] by (simp add: ao_created_def)
  obtain b2 where b2: "util_event_bus_subscribe (app_ao_id eAPP_MODULE_BROADCASTER) (Some App_post)
      eAPP_MODULE_BROADCASTER (Some (app_subscribe_event eAPP_MODULE_BROADCASTER)) b1 s2
      = (eSTATUS_SUCCESSFUL, b2, s2)"
    using bus_subscribe_boot [OF boot2 app_ao_id_bound] b1(3)
    by (fastforce simp: eEVENT_BUS_MAX_SUBSCRIPTIONS_def)
  show ?thesis
    using app_subscribe_slots_result [OF cr(2)] app_module_codes
    by (simp add: app_init_def Let_def d(1) br(1) app_indices_eq app_module_init_def sc(1) b1(1) br2 b2)
qed

lemma demo_app_boot: "boot_ok (a_bus demo_app) (a_os demo_app)" "bus_list (a_bus demo_app) = []"
    "granted (a_os demo_app)"
proof -
  show l: "bus_list (a_bus demo_app) = []"
    by (simp add: bus_list_def demo_app_def static_bus_def zero_subscription_def)
  have "map sub_active (subscriptions (a_bus demo_app)) = replicate 32 False"
    by (simp add: demo_app_def static_bus_def zero_subscription_def eEVENT_BUS_MAX_SUBSCRIPTIONS_def)
  then have "bus_wf (a_bus demo_app)"
    using l by (auto simp: bus_wf_def demo_app_def static_bus_def eEVENT_BUS_MAX_SUBSCRIPTIONS_def
        intro: exI [of _ 0])
  then show "boot_ok (a_bus demo_app) (a_os demo_app)"
    by (simp add: boot_ok_def bus_usable_def os_wf_def demo_app_def boot_os_def)
  show "granted (a_os demo_app)" by (simp add: granted_def demo_app_def boot_os_def)
qed

lemma demo_app_started:
  "\<exists>w. app_init demo_app = (eSTATUS_SUCCESSFUL, w) \<and> app_started w (a_os demo_app)"
proof -
  obtain w where w: "app_init demo_app = (eSTATUS_SUCCESSFUL, w)"
    using app_init_granted [OF demo_app_boot] by (cases "app_init demo_app") simp
  from w app_init_started [OF w demo_app_boot(1,2)] show ?thesis by blast
qed

section \<open>Shutdown\<close>

definition queue_room :: "Event Queue \<Rightarrow> bool" where
  "queue_room q \<longleftrightarrow> unat (q_size q) < unat (q_capacity q)"

lemma ddl_module_end_post:
  "mi < eDLL_MODULE_COUNT \<Longrightarrow> ddl_module_end mi d s = ddl_post mi (Some end_event) d s"
  by (auto simp: ddl_post_def ddl_module_end_def ddl_module_post_def distance_mod.finish_end
      servo_mod.finish_end temp_hum_mod.finish_end gps_mod.finish_end dest: leD)

lemma posted_room:
  assumes "posted queue aos target e w w' s" and "ao \<in> set aos" and "ao \<noteq> target"
    and "queue_inv s (queue ao w, s)"
  shows "queue_room (queue ao w') = queue_room (queue ao w)"
proof -
  have q: "queue_list (queue ao w') = queue_list (queue ao w)" "q_capacity (queue ao w') = q_capacity (queue ao w)"
    "queue_inv s (queue ao w', s)"
    using assms(1-3) by (auto simp: posted_def)
  have "length (queue_list (queue ao w')) = length (queue_list (queue ao w))" by (simp only: q(1))
  then show ?thesis by (simp add: queue_room_def q(2))
qed

lemma ddl_end_modules_posts:
  assumes "ddl_ready d s" and "\<forall>mi\<in>set ms. mi < eDLL_MODULE_COUNT"
    and "\<forall>mi\<in>set ms. queue_room (ddl_queue (ddl_ao_id mi) d)" and "distinct (map ddl_ao_id ms)"
    and "\<forall>mi\<in>set ms. ddl_ao_id mi \<in> set ddl_aos"
  shows "\<exists>d'. ddl_end_modules ms d s = (eSTATUS_SUCCESSFUL, d', s) \<and> ddl_ready d' s \<and>
    (\<forall>ao\<in>set ddl_aos. queue_list (ddl_queue ao d') = queue_list (ddl_queue ao d) @
       (if ao \<in> ddl_ao_id ` set ms then [end_event] else []))"
  using assms
proof (induction ms arbitrary: d)
  case (Cons mi ms)
  obtain d1 where d1: "ddl_post mi (Some end_event) d s = (post_status (ddl_queue (ddl_ao_id mi) d), d1, s)"
    "posted ddl_queue ddl_aos (ddl_ao_id mi) end_event d d1 s"
    using ddl_post_queue [OF Cons.prems(1), of mi end_event] Cons.prems(2) by auto
  have room: "post_status (ddl_queue (ddl_ao_id mi) d) = eSTATUS_SUCCESSFUL"
    using Cons.prems(3) by (simp add: post_status_def queue_room_def)
  have ready: "ddl_ready d1 s" using d1(2) by (simp add: ddl_ready_def posted_def)
  have "queue_room (ddl_queue (ddl_ao_id m) d1)" if "m \<in> set ms" for m
  proof -
    have "ddl_ao_id mi \<notin> ddl_ao_id ` set ms" using Cons.prems(4) by simp
    then have "ddl_ao_id m \<noteq> ddl_ao_id mi" using imageI [OF that, of ddl_ao_id] by metis
    moreover have "ddl_ao_id m \<in> set ddl_aos" using that Cons.prems(5) by simp
    ultimately
    show ?thesis
      using posted_room [OF d1(2)] Cons.prems(1,3) that by (simp add: ddl_ready_def)
  qed
  then obtain d' where d': "ddl_end_modules ms d1 s = (eSTATUS_SUCCESSFUL, d', s)" "ddl_ready d' s"
    "\<forall>ao\<in>set ddl_aos. queue_list (ddl_queue ao d') = queue_list (ddl_queue ao d1) @
       (if ao \<in> ddl_ao_id ` set ms then [end_event] else [])"
    using Cons.IH [OF ready] Cons.prems(2,4,5) by auto
  have "queue_list (ddl_queue ao d1) = queue_list (ddl_queue ao d) @ (if ao = ddl_ao_id mi then [end_event] else [])"
    if "ao \<in> set ddl_aos" for ao
    using d1(2) Cons.prems(3) that by (auto simp: posted_def queue_room_def)
  moreover have "ddl_ao_id mi \<notin> ddl_ao_id ` set ms" using Cons.prems(4) by auto
  ultimately show ?case
    using d' d1(1) room ddl_module_end_post [of mi d s] Cons.prems(2) by auto
qed simp

lemma app_module_end_post:
  "app_module_end mi w = (case app_module_post mi (Some end_event) w (a_os w) of
     (st, w', s) \<Rightarrow> (st, w'\<lparr>a_os := s\<rparr>))"
  by (simp add: app_module_end_def app_module_post_def scheduler_mod.finish_end broadcaster_mod.finish_end
      split: prod.split)

lemma app_end_step:
  assumes "queues_ok w (a_os w)" and "mi = eAPP_MODULE_SCHEDULER \<or> mi = eAPP_MODULE_BROADCASTER"
  shows "\<exists>w'. app_module_end mi w = (post_status (app_queue (app_ao_id mi) w), w') \<and> a_os w' = a_os w \<and>
    posted app_queue app_aos (app_ao_id mi) end_event w w' (a_os w)"
proof -
  have v: "post_valid App_post mi" using assms(2) by (auto simp: fsm_codes)
  obtain w' where w': "call_post App_post mi end_event w (a_os w)
      = (post_status (app_queue (app_ao_id mi) w), w', a_os w)"
    "posted app_queue app_aos (app_ao_id mi) end_event w w' (a_os w)" "same_rest w w'"
    using call_post_queue [OF assms(1) v, of end_event] by auto
  have "call_post App_post mi end_event w (a_os w) = app_module_post mi (Some end_event) w (a_os w)"
    using v by (auto simp: app_post_def dest: leD)
  then have "app_module_end mi w = (post_status (app_queue (app_ao_id mi) w), w'\<lparr>a_os := a_os w\<rparr>)"
    using w'(1) by (simp add: app_module_end_post)
  moreover have "w'\<lparr>a_os := a_os w\<rparr> = w'" using w'(3) by (cases w') (simp add: same_rest_def)
  ultimately show ?thesis using w'(2,3) by (simp add: same_rest_def)
qed

lemma app_end_posts_all:
  assumes wf: "app_wf w" and room: "\<forall>ao\<in>set app_aos. queue_room (app_queue ao w)"
  shows "\<exists>w'. app_end w = (eSTATUS_SUCCESSFUL, w') \<and>
    (\<forall>ao\<in>set app_aos. queue_list (app_queue ao w') = queue_list (app_queue ao w) @ [end_event])"
proof -
  let ?s = "a_os w"
  have q0: "queues_ok w ?s"
    using wf by (auto simp: queues_ok_def app_wf_def queue_inv_def)
  have ids: "app_ao_id eAPP_MODULE_SCHEDULER = eAO_SCHEDULER" "app_ao_id eAPP_MODULE_BROADCASTER = eAO_BROADCASTER"
    by (simp_all add: app_ao_id_def fsm_codes)
  have inv: "queue_inv ?s (app_queue ao w, ?s)" if "ao \<in> set app_aos" for ao
    using q0 that by (simp add: queues_ok_def)
  obtain w1 where w1: "app_module_end eAPP_MODULE_SCHEDULER w = (eSTATUS_SUCCESSFUL, w1)" "a_os w1 = ?s"
    "posted app_queue app_aos eAO_SCHEDULER end_event w w1 ?s"
    using app_end_step [OF q0, of eAPP_MODULE_SCHEDULER] room
    by (auto simp: ids post_status_def queue_room_def app_aos_def)
  have q1: "queues_ok w1 ?s" using w1(3) by (simp add: queues_ok_def posted_def)
  have r1: "queue_room (app_queue ao w1)" if "ao \<in> set app_aos" "ao \<noteq> eAO_SCHEDULER" for ao
    using posted_room [OF w1(3) that inv [OF that(1)]] room that(1) by blast
  obtain w2 where w2: "app_module_end eAPP_MODULE_BROADCASTER w1 = (eSTATUS_SUCCESSFUL, w2)" "a_os w2 = ?s"
    "posted app_queue app_aos eAO_BROADCASTER end_event w1 w2 ?s"
    using app_end_step [of w1 eAPP_MODULE_BROADCASTER] r1 [of eAO_BROADCASTER] q1 w1(2)
    by (auto simp: ids post_status_def queue_room_def app_aos_def)
  have q2: "queues_ok w2 ?s" using w2(3) by (simp add: queues_ok_def posted_def)
  have inv1: "queue_inv ?s (app_queue ao w1, ?s)" if "ao \<in> set app_aos" for ao
    using q1 that by (simp add: queues_ok_def)
  have dq: "app_queue ao v = ddl_queue ao (a_ddl v)" "ao \<in> set app_aos" "ao \<noteq> eAO_SCHEDULER"
    "ao \<noteq> eAO_BROADCASTER" if "ao \<in> set ddl_aos" for ao v
    using that by (auto simp: app_queue_def app_aos_def ddl_aos_def fsm_codes)
  have r2: "queue_room (ddl_queue ao (a_ddl w2))" if "ao \<in> set ddl_aos" for ao
    using posted_room [OF w2(3) dq(2) [OF that] dq(4) [OF that] inv1 [OF dq(2) [OF that]]]
      r1 [OF dq(2,3) [OF that]] by (simp add: dq(1) [OF that])
  have aos: "map ddl_ao_id ddl_indices = ddl_aos"
    by (simp add: ddl_indices_eq ddl_aos_def)
  then have img: "ddl_ao_id ` set ddl_indices = set ddl_aos" by (metis list.set_map)
  have cnt: "\<forall>mi\<in>set ddl_indices. mi < eDLL_MODULE_COUNT"
    by (simp add: ddl_indices_eq) (simp add: fsm_codes)
  have "distinct ddl_aos" by (simp add: ddl_aos_def)
  then obtain d where d: "ddl_end (a_ddl w2) ?s = (eSTATUS_SUCCESSFUL, d, ?s)"
    "\<forall>ao\<in>set ddl_aos. queue_list (ddl_queue ao d) = queue_list (ddl_queue ao (a_ddl w2)) @ [end_event]"
    using ddl_end_modules_posts [OF queues_ok_ddl [OF q2] cnt] r2 img aos unfolding ddl_end_def by auto
  have "app_end w = (eSTATUS_SUCCESSFUL, w2\<lparr>a_ddl := d, a_os := ?s\<rparr>)"
    using w1(1) w2(1,2) d(1) by (simp add: app_end_def app_indices_eq)
  moreover have "queue_list (app_queue ao (w2\<lparr>a_ddl := d, a_os := ?s\<rparr>)) = queue_list (app_queue ao w) @ [end_event]"
    if ao: "ao \<in> set app_aos" for ao
  proof (cases "ao \<in> set ddl_aos")
    case True
    have "queue_list (app_queue ao w2) = queue_list (app_queue ao w)"
      using w1(3) w2(3) dq(2-4) [OF True] by (simp add: posted_def)
    then show ?thesis using d(2) True by (simp add: dq(1) [OF True])
  next
    case False
    then consider "ao = eAO_SCHEDULER" | "ao = eAO_BROADCASTER" using ao by (auto simp: app_aos_def)
    then show ?thesis
    proof cases
      case 1
      have "queue_list (app_queue eAO_SCHEDULER w1) = queue_list (app_queue eAO_SCHEDULER w) @ [end_event]"
        using w1(3) room by (simp add: posted_def app_aos_def queue_room_def)
      moreover have "queue_list (app_queue eAO_SCHEDULER w2) = queue_list (app_queue eAO_SCHEDULER w1)"
        using w2(3) by (simp add: posted_def app_aos_def)
      ultimately show ?thesis using 1 by (simp add: app_queue_def)
    next
      case 2
      have "queue_list (app_queue eAO_BROADCASTER w2) = queue_list (app_queue eAO_BROADCASTER w1) @ [end_event]"
        using w2(3) r1 [of eAO_BROADCASTER] by (simp add: posted_def app_aos_def queue_room_def)
      moreover have "queue_list (app_queue eAO_BROADCASTER w1) = queue_list (app_queue eAO_BROADCASTER w)"
        using w1(3) by (simp add: posted_def app_aos_def)
      ultimately show ?thesis using 2 by (simp add: app_queue_def)
    qed
  qed
  ultimately show ?thesis by blast
qed

lemma app_end_refused:
  assumes wf: "app_wf w" and full: "\<not> queue_room (app_queue eAO_SCHEDULER w)"
  shows "\<exists>w'. app_end w = (eSTATUS_ACTION_FAILED, w') \<and>
    (\<forall>ao\<in>set app_aos. queue_list (app_queue ao w') = queue_list (app_queue ao w))"
proof -
  have q0: "queues_ok w (a_os w)"
    using wf by (auto simp: queues_ok_def app_wf_def queue_inv_def)
  have id: "app_ao_id eAPP_MODULE_SCHEDULER = eAO_SCHEDULER" by (simp add: app_ao_id_def)
  obtain w1 where w1: "app_module_end eAPP_MODULE_SCHEDULER w = (eSTATUS_ACTION_FAILED, w1)"
    "posted app_queue app_aos eAO_SCHEDULER end_event w w1 (a_os w)"
    using app_end_step [OF q0, of eAPP_MODULE_SCHEDULER] full
    by (auto simp: id post_status_def queue_room_def)
  have "app_end w = (eSTATUS_ACTION_FAILED, w1)"
    using w1(1) by (simp add: app_end_def app_indices_eq)
  moreover have "\<forall>ao\<in>set app_aos. queue_list (app_queue ao w1) = queue_list (app_queue ao w)"
    using w1(2) full by (simp add: posted_def queue_room_def)
  ultimately show ?thesis by blast
qed

section \<open>Properties\<close>

lemma demo_app_running:
  "\<exists>w. app_wf w \<and> scheduler_running w \<and> scheduler_slot w = 0 \<and>
    current_state (active_fsm (a_broadcaster w)) = Some broadcaster_idle \<and>
    br_source (fsm_arg (active_fsm (a_broadcaster w))) = ddl_frame_addr \<and>
    br_destination (fsm_arg (active_fsm (a_broadcaster w))) = ddl_snapshot_addr \<and>
    (\<forall>ao\<in>set app_aos. queue_list (app_queue ao w) = [] \<and> queue_room (app_queue ao w))"
proof -
  obtain w where w: "app_started w (a_os demo_app)" using demo_app_started by blast
  let ?w = "w\<lparr>a_scheduler := (a_scheduler w)\<lparr>active_fsm := (active_fsm (a_scheduler w))\<lparr>current_state :=
      Some scheduler_run\<rparr>\<rparr>, a_broadcaster := (a_broadcaster w)\<lparr>active_fsm :=
      (active_fsm (a_broadcaster w))\<lparr>current_state := Some broadcaster_idle\<rparr>\<rparr>\<rparr>"
  have q: "app_queue ao ?w = app_queue ao w" for ao by (simp add: app_queue_def)
  have "queue_room (app_queue ao w)" if "ao \<in> set app_aos" for ao
  proof -
    have "queue_list (app_queue ao w) = []" "q_capacity (app_queue ao w) = 4"
      using w that by (simp_all add: app_started_def)
    then have "unat (q_size (app_queue ao w)) = 0" by (simp add: queue_list_empty_iff)
    then show ?thesis using \<open>q_capacity (app_queue ao w) = 4\<close> by (simp add: queue_room_def)
  qed
  then have "app_wf ?w \<and> scheduler_running ?w \<and> scheduler_slot ?w = 0 \<and>
    (\<forall>ao\<in>set app_aos. queue_list (app_queue ao ?w) = [] \<and> queue_room (app_queue ao ?w))"
    using w unfolding q by (simp add: app_started_def app_wf_def q scheduler_running_def eSCHEDULER_SUBSCRIBERS_MAX_def)
  then show ?thesis using w by (intro exI [of _ ?w]) (simp add: app_started_def)
qed

text \<open>C10. A successful start wires the whole system: all six active objects are created, with empty
  queues of capacity four and one thread each, the bus holds their nine subscriptions and no other,
  the five slots of the scheduler are the registered ones and its sixth is free, and the broadcaster
  copies from the live frame to the snapshot; and with an operating system that grants the
  requests the start succeeds.\<close>

lemma app_start_wires_system:
  assumes "boot_ok (a_bus w) (a_os w)" and "bus_list (a_bus w) = []"
  shows "(case app_init w of (st, w') \<Rightarrow> st \<noteq> eSTATUS_SUCCESSFUL \<or> app_started w' (a_os w)) \<and>
    (fst (app_init w) = eSTATUS_SUCCESSFUL \<or> \<not> granted (a_os w))"
  using app_init_started [OF _ assms] app_init_granted [OF assms]
  by (cases "app_init w") auto

lemma app_start_wires_system_witness:
  "\<exists>w. app_init demo_app = (eSTATUS_SUCCESSFUL, w) \<and> app_started w (a_os demo_app)"
  using app_start_wires_system [OF demo_app_boot(1,2)] demo_app_boot(3) by (auto split: prod.splits)

text \<open>C4. Events reach their object: in a well-formed system, publishing one of the nine subscribed pairs of
  object and event type succeeds and appends the event to the queue of that object, if there is
  room, and to no other queue; publishing any other pair is refused and changes nothing.\<close>

lemma app_publish_routes:
  assumes "app_wf w"
  shows "if (ao, ty) \<in> set subscribed
    then \<exists>w'. app_publish ao ty w = (eSTATUS_SUCCESSFUL, w') \<and> app_wf w' \<and>
      posted app_queue app_aos ao \<lparr>etype = ty\<rparr> w w' (a_os w)
    else app_publish ao ty w = (if eAO_COUNT \<le> ao then eSTATUS_INVALID_VALUE else eSTATUS_ACTION_FAILED, w)"
  using app_publish_subscribed [OF assms, of ao ty] app_publish_not_subscribed [OF assms, of ao ty] by auto

lemma app_publish_routes_witness:
  "\<exists>w w'. app_publish eAO_GPS eGPS_EVENT_READ w = (eSTATUS_SUCCESSFUL, w') \<and>
     queue_list (app_queue eAO_GPS w') = [\<lparr>etype = eGPS_EVENT_READ\<rparr>] \<and>
     queue_list (app_queue eAO_SERVO w') = []"
proof -
  obtain w where w: "app_wf w" "\<forall>ao\<in>set app_aos. queue_list (app_queue ao w) = [] \<and> queue_room (app_queue ao w)"
    using demo_app_running by (elim exE conjE) (rule that; assumption)
  have "(eAO_GPS, eGPS_EVENT_READ) \<in> set subscribed" by (simp add: subscribed_def)
  then obtain w' where "app_publish eAO_GPS eGPS_EVENT_READ w = (eSTATUS_SUCCESSFUL, w')"
    "posted app_queue app_aos eAO_GPS \<lparr>etype = eGPS_EVENT_READ\<rparr> w w' (a_os w)"
    using app_publish_routes [OF w(1), of eAO_GPS eGPS_EVENT_READ] by auto
  moreover have "eAO_GPS \<in> set app_aos" "eAO_SERVO \<in> set app_aos" by (simp_all add: app_aos_def ddl_aos_def)
  ultimately have "queue_list (app_queue eAO_GPS w') = [\<lparr>etype = eGPS_EVENT_READ\<rparr>]"
    "queue_list (app_queue eAO_SERVO w') = []" "app_publish eAO_GPS eGPS_EVENT_READ w = (eSTATUS_SUCCESSFUL, w')"
    using w(2) by (simp_all add: posted_def queue_room_def)
  then show ?thesis by blast
qed

text \<open>C8. A tick of the running scheduler serves the next slot of the cycle of six: the event registered
  there is appended to the queue of its object if that has room, and is lost if it is full; no other
  queue changes; the sixth slot is free.\<close>

lemma scheduler_tick_dispatches:
  assumes "scheduler_running w" and "app_wf w"
    and "i = Suc (scheduler_slot w) mod eSCHEDULER_SUBSCRIBERS_MAX"
  shows "\<exists>w'. scheduler_handle (Suc n) \<lparr>etype = eSCHEDULER_EVENT_TICK\<rparr> w = Some w' \<and>
    scheduler_running w' \<and> scheduler_slot w' = i \<and> app_wf w' \<and>
    (if i < 5 then posted app_queue app_aos (fst (snd (scheduler_slots ! i)))
                     (snd (snd (scheduler_slots ! i))) w w' (a_os w)
     else \<forall>ao\<in>set app_aos. app_queue ao w' = app_queue ao w)"
  using scheduler_tick_posts [OF assms, of n] by blast

lemma scheduler_tick_dispatches_witness:
  "\<exists>w w'. scheduler_handle 1 \<lparr>etype = eSCHEDULER_EVENT_TICK\<rparr> w = Some w' \<and>
     queue_list (app_queue eAO_SERVO w') = [\<lparr>etype = eSERVO_EVENT_DIRECTIONS\<rparr>]"
proof -
  obtain w where w: "app_wf w" "scheduler_running w" "scheduler_slot w = 0"
    "\<forall>ao\<in>set app_aos. queue_list (app_queue ao w) = [] \<and> queue_room (app_queue ao w)"
    using demo_app_running by (elim exE conjE) (rule that; assumption)
  have "1 = Suc (scheduler_slot w) mod eSCHEDULER_SUBSCRIBERS_MAX"
    using w(3) by (simp add: eSCHEDULER_SUBSCRIBERS_MAX_def)
  then obtain w' where "scheduler_handle (Suc 0) \<lparr>etype = eSCHEDULER_EVENT_TICK\<rparr> w = Some w'"
    "posted app_queue app_aos (fst (snd (scheduler_slots ! 1))) (snd (snd (scheduler_slots ! 1))) w w' (a_os w)"
    using scheduler_tick_dispatches [OF w(2,1), of 1 0] by auto
  moreover have "eAO_SERVO \<in> set app_aos" by (simp add: app_aos_def ddl_aos_def)
  ultimately have "queue_list (app_queue eAO_SERVO w') = [\<lparr>etype = eSERVO_EVENT_DIRECTIONS\<rparr>]"
    "scheduler_handle 1 \<lparr>etype = eSCHEDULER_EVENT_TICK\<rparr> w = Some w'"
    using w(4) by (simp_all add: posted_def queue_room_def scheduler_slots_def)
  then show ?thesis by blast
qed

text \<open>C12. The snapshot is the live frame: handling UPDATE copies the frames of the four sensors, as they are
  at that moment, into the snapshot that the streaming process reads, and changes nothing else: the
  program after it is the program before it with the memory of the snapshot overwritten (and the
  broadcaster's view of the live frame up to date); the machine stays in its idle state with its two
  pointers, and the bus, the queues, the other objects and the operating system are as before.\<close>

lemma broadcaster_snapshots_live_frame:
  assumes "current_state (active_fsm (a_broadcaster w)) = Some broadcaster_idle"
    and "br_source (fsm_arg (active_fsm (a_broadcaster w))) = ddl_frame_addr"
    and "br_destination (fsm_arg (active_fsm (a_broadcaster w))) = ddl_snapshot_addr"
  shows "\<exists>w'. broadcaster_handle (Suc n) \<lparr>etype = eBROADCASTER_EVENT_UPDATE\<rparr> w = Some w' \<and>
    app_get_ddl_snapshot w' = live_frame (a_ddl w) \<and> a_ddl w' = a_ddl w \<and>
    a_scheduler w' = a_scheduler w \<and> event_queue (a_broadcaster w') = event_queue (a_broadcaster w) \<and>
    (let f = active_fsm (a_broadcaster w); frame = live_frame (a_ddl w)
     in w' = w\<lparr>a_broadcaster := (a_broadcaster w)\<lparr>active_fsm := f\<lparr>fsm_arg := (fsm_arg f)\<lparr>br_memory :=
          (br_memory (fsm_arg f))(ddl_frame_addr := frame, ddl_snapshot_addr := frame)\<rparr>\<rparr>\<rparr>\<rparr>)"
  by (rule broadcaster_update_snapshot [OF assms])

lemma broadcaster_snapshots_live_frame_witness:
  "\<exists>w w'. broadcaster_handle 1 \<lparr>etype = eBROADCASTER_EVENT_UPDATE\<rparr> w = Some w' \<and>
     app_get_ddl_snapshot w' = live_frame (a_ddl w)"
proof -
  obtain w :: app where w: "current_state (active_fsm (a_broadcaster w)) = Some broadcaster_idle"
    "br_source (fsm_arg (active_fsm (a_broadcaster w))) = ddl_frame_addr"
    "br_destination (fsm_arg (active_fsm (a_broadcaster w))) = ddl_snapshot_addr"
    using demo_app_running by (elim exE conjE) (rule that; assumption)
  show ?thesis using broadcaster_snapshots_live_frame [OF w, of 0] by auto
qed

text \<open>C11. Shutdown: when every queue has room, ending the system appends END to the queue of each of the
  six objects, behind the events it still has to handle; but when the queue of the scheduler is
  full, the call fails and no object gets its END, so that none of the threads would be joined.\<close>

lemma app_end_signals_all:
  assumes "app_wf w"
  shows "((\<exists>ao\<in>set app_aos. \<not> queue_room (app_queue ao w)) \<or>
    (\<exists>w'. app_end w = (eSTATUS_SUCCESSFUL, w') \<and>
      (\<forall>ao\<in>set app_aos. queue_list (app_queue ao w') = queue_list (app_queue ao w) @ [end_event]))) \<and>
    (queue_room (app_queue eAO_SCHEDULER w) \<or>
    (\<exists>w'. app_end w = (eSTATUS_ACTION_FAILED, w') \<and>
      (\<forall>ao\<in>set app_aos. queue_list (app_queue ao w') = queue_list (app_queue ao w))))"
  using app_end_posts_all [OF assms] app_end_refused [OF assms] by auto

lemma app_end_signals_all_witness:
  "\<exists>w w'. app_end w = (eSTATUS_SUCCESSFUL, w') \<and>
     (\<forall>ao\<in>set app_aos. queue_list (app_queue ao w') = [end_event])"
proof -
  obtain w where w: "app_wf w" "\<forall>ao\<in>set app_aos. queue_list (app_queue ao w) = [] \<and> queue_room (app_queue ao w)"
    using demo_app_running by (elim exE conjE) (rule that; assumption)
  have "\<not> (\<exists>ao\<in>set app_aos. \<not> queue_room (app_queue ao w))" using w(2) by blast
  then obtain w' where "app_end w = (eSTATUS_SUCCESSFUL, w')"
    "\<forall>ao\<in>set app_aos. queue_list (app_queue ao w') = queue_list (app_queue ao w) @ [end_event]"
    using app_end_signals_all [OF w(1)] by blast
  with w(2) have "\<forall>ao\<in>set app_aos. queue_list (app_queue ao w') = [end_event]" by simp
  then show ?thesis using \<open>app_end w = (eSTATUS_SUCCESSFUL, w')\<close> by blast
qed





end
