(* ===== verification/Hal.thy ===== *)
theory Hal
  imports HalGpio HalUart HalI2c
begin

text \<open>
  The hardware abstraction layer, \<^verbatim>\<open>src/src/hal/hal.c\<close>: the table of drivers, initialised in order
  and cleaned up in order.
\<close>

record 'cb hal =
  hal_gpio :: gpio
  hal_uart :: "'cb uart"
  hal_i2c :: i2c

datatype eHALDriver = HAL_DRIVER_GPIO | HAL_DRIVER_UART | HAL_DRIVER_I2C

definition hal_drivers :: "eHALDriver list" where
  "hal_drivers = [HAL_DRIVER_GPIO, HAL_DRIVER_UART, HAL_DRIVER_I2C]"

fun driver_init :: "eHALDriver \<Rightarrow> 'cb hal \<Rightarrow> os \<Rightarrow> eStatus \<times> 'cb hal \<times> os" where
  "driver_init HAL_DRIVER_GPIO h s =
    (case hal_gpio_init (hal_gpio h) s of (st, g, s) \<Rightarrow> (st, h\<lparr>hal_gpio := g\<rparr>, s))"
| "driver_init HAL_DRIVER_UART h s =
    (case hal_uart_init (hal_uart h) s of (st, u, s) \<Rightarrow> (st, h\<lparr>hal_uart := u\<rparr>, s))"
| "driver_init HAL_DRIVER_I2C h s =
    (case hal_i2c_init (hal_i2c h) s of (st, c, s) \<Rightarrow> (st, h\<lparr>hal_i2c := c\<rparr>, s))"

fun driver_cleanup :: "eHALDriver \<Rightarrow> 'cb hal \<Rightarrow> os \<Rightarrow> 'cb hal \<times> os" where
  "driver_cleanup HAL_DRIVER_GPIO h s = (h\<lparr>hal_gpio := hal_gpio_cleanup (hal_gpio h)\<rparr>, s)"
| "driver_cleanup HAL_DRIVER_UART h s =
    (case hal_uart_cleanup (hal_uart h) s of (u, s) \<Rightarrow> (h\<lparr>hal_uart := u\<rparr>, s))"
| "driver_cleanup HAL_DRIVER_I2C h s = (h\<lparr>hal_i2c := hal_i2c_cleanup (hal_i2c h)\<rparr>, s)"

fun hal_init_loop :: "eHALDriver list \<Rightarrow> 'cb hal \<Rightarrow> os \<Rightarrow> eStatus \<times> 'cb hal \<times> os" where
  "hal_init_loop [] h s = (eSTATUS_SUCCESSFUL, h, s)"
| "hal_init_loop (d # ds) h s =
    (case driver_init d h s of
       (st, h, s) \<Rightarrow> if failed st then (st, h, s) else hal_init_loop ds h s)"

definition hal_init :: "'cb hal \<Rightarrow> os \<Rightarrow> eStatus \<times> 'cb hal \<times> os" where
  "hal_init h s = hal_init_loop hal_drivers h s"

definition hal_cleanup :: "'cb hal \<Rightarrow> os \<Rightarrow> 'cb hal \<times> os" where
  "hal_cleanup h s = fold (\<lambda>d (h, s). driver_cleanup d h s) hal_drivers (h, s)"

section \<open>Facts\<close>

text \<open>The file descriptors of the devices of a driver, the latest opened first.\<close>

lemma uart_device_indices: "[0..<unat eUART_DEVICE_COUNT] = [0, 1, 2]"
  by (simp add: eUART_DEVICE_COUNT_def upt_conv_Cons)

lemma uart_setup_device_success:
  assumes "uart_setup_device d u s = (eSTATUS_SUCCESSFUL, u', s')" and "d < length (uart_devices u)"
  shows "\<exists>fd\<ge>0. uart_devices u' = (uart_devices u)[d := (uart_devices u ! d)\<lparr>dev_fd := fd\<rparr>] \<and>
    uart_open_fds u' = fd # uart_open_fds u \<and>
    uart_settings u' fd = Some ((uart_termios (uart_devices u ! d))\<lparr>
      c_speed := baud_options ! unat (dev_baud (uart_devices u ! d))\<rparr>)"
  using assms by (auto simp: uart_setup_device_def ask_def Let_def split: if_splits)

lemma uart_setup_devices_success:
  assumes "uart_setup_devices [0, 1, 2] u s = (eSTATUS_SUCCESSFUL, u', s')"
    and "length (uart_devices u) = 3"
  shows "length (uart_devices u') = 3 \<and> uart_open_fds u' =
    [dev_fd (uart_devices u' ! 2), dev_fd (uart_devices u' ! 1), dev_fd (uart_devices u' ! 0)]
      @ uart_open_fds u"
proof -
  obtain st1 u1 s1 where a: "uart_setup_device 0 u s = (st1, u1, s1)"
    by (cases "uart_setup_device 0 u s") auto
  obtain st2 u2 s2 where b: "uart_setup_device 1 u1 s1 = (st2, u2, s2)"
    by (cases "uart_setup_device 1 u1 s1") auto
  obtain st3 u3 s3 where c: "uart_setup_device 2 u2 s2 = (st3, u3, s3)"
    by (cases "uart_setup_device 2 u2 s2") auto
  have st: "st1 = eSTATUS_SUCCESSFUL" "st2 = eSTATUS_SUCCESSFUL" "st3 = eSTATUS_SUCCESSFUL" "u' = u3"
    using assms(1) a b c by (auto split: if_splits)
  obtain f1 where f1: "uart_devices u1 = (uart_devices u)[0 := (uart_devices u ! 0)\<lparr>dev_fd := f1\<rparr>]"
    "uart_open_fds u1 = f1 # uart_open_fds u"
    using uart_setup_device_success [OF a [unfolded st]] assms(2) by auto
  obtain f2 where f2: "uart_devices u2 = (uart_devices u1)[1 := (uart_devices u1 ! 1)\<lparr>dev_fd := f2\<rparr>]"
    "uart_open_fds u2 = f2 # uart_open_fds u1"
    using uart_setup_device_success [OF b [unfolded st]] assms(2) f1 by auto
  obtain f3 where f3: "uart_devices u3 = (uart_devices u2)[2 := (uart_devices u2 ! 2)\<lparr>dev_fd := f3\<rparr>]"
    "uart_open_fds u3 = f3 # uart_open_fds u2"
    using uart_setup_device_success [OF c [unfolded st]] assms(2) f1 f2 by auto
  show ?thesis using f1 f2 f3 assms(2) st(4) by simp
qed

lemma hal_uart_init_success:
  assumes "hal_uart_init u s = (eSTATUS_SUCCESSFUL, u', s')" and "length (uart_devices u) = 3"
  shows "length (uart_devices u') = 3" "uart_running u'" "uart_thread u'" "ring_live u'"
    "uart_open_fds u' =
      [dev_fd (uart_devices u' ! 2), dev_fd (uart_devices u' ! 1), dev_fd (uart_devices u' ! 0)]
      @ uart_open_fds u"
proof -
  obtain st v s1 where a: "uart_setup_devices [0, 1, 2] u s = (st, v, s1)"
    by (cases "uart_setup_devices [0, 1, 2] u s") auto
  have st: "st = eSTATUS_SUCCESSFUL"
    and u': "u' = v\<lparr>ring_live := True, uart_running := True, uart_thread := True\<rparr>"
    using assms(1) a
    by (auto simp: hal_uart_init_def uart_device_indices ask_def Let_def split: if_splits)
  show "length (uart_devices u') = 3" "uart_running u'" "uart_thread u'" "ring_live u'"
    "uart_open_fds u' =
      [dev_fd (uart_devices u' ! 2), dev_fd (uart_devices u' ! 1), dev_fd (uart_devices u' ! 0)]
      @ uart_open_fds u"
    using uart_setup_devices_success [OF a [unfolded st] assms(2)] by (simp_all add: u')
qed

lemma uart_open_frame [simp]:
  "uart_open_fds (uart_lock u) = uart_open_fds u" "uart_open_fds (uart_unlock u) = uart_open_fds u"
  "uart_open_fds (ring_put e u) = uart_open_fds u"
  by (simp_all add: uart_lock_def uart_unlock_def ring_put_def)

lemma uart_ring_open_frame:
  "io_uring_get_sqe u s = (e, u', s') \<Longrightarrow> uart_open_fds u' = uart_open_fds u"
  "io_uring_submit u s = (r, u', s') \<Longrightarrow> uart_open_fds u' = uart_open_fds u"
  by (auto simp: io_uring_get_sqe_def io_uring_submit_def ask_def split: if_splits)

lemma hal_uart_cleanup_closes:
  assumes "length (uart_devices u) = 3"
    and "hal_uart_cleanup u s = (u', s')"
    and "uart_open_fds u =
      [dev_fd (uart_devices u ! 2), dev_fd (uart_devices u ! 1), dev_fd (uart_devices u ! 0)] @ fds"
  shows "uart_open_fds u' = fds \<and> \<not> uart_running u' \<and> \<not> uart_thread u' \<and> \<not> ring_live u'"
proof -
  have close: "uart_open_fds (uart_close fd v) = remove1 fd (uart_open_fds v)"
    "uart_devices (uart_close fd v) = uart_devices v" "uart_running (uart_close fd v) = uart_running v"
    "uart_thread (uart_close fd v) = uart_thread v" "ring_live (uart_close fd v) = ring_live v"
    for fd and v :: "'a uart"
    by (simp_all add: uart_close_def)
  obtain v where v: "uart_devices v = uart_devices u" "uart_open_fds v = uart_open_fds u"
    and u': "u' = fold (\<lambda>d u. (uart_close (dev_fd (uart_devices u ! d)) u)\<lparr>uart_devices :=
               (uart_devices u)[d := (uart_devices u ! d)\<lparr>dev_fd := -1\<rparr>]\<rparr>) [0, 1, 2]
             (v\<lparr>uart_thread := False, ring_live := False\<rparr>)"
    and run: "\<not> uart_running v"
  proof -
    define u0 where "u0 = (uart_lock u)\<lparr>uart_running := False\<rparr>"
    obtain e u1 s1 where g: "io_uring_get_sqe u0 s = (e, u1, s1)"
      by (cases "io_uring_get_sqe u0 s") auto
    note gr = io_uring_get_sqe_result [OF g] uart_ring_open_frame(1) [OF g]
    have g1: "\<not> uart_running u1"
      using g by (auto simp: u0_def io_uring_get_sqe_def ask_def split: if_splits)
    show thesis
    proof (cases e)
      case None
      show thesis
        by (rule that [of "uart_unlock u1"])
          (use assms(2) g gr g1 None in \<open>auto simp: hal_uart_cleanup_def Let_def u0_def
            uart_device_indices uart_unlock_def\<close>)
    next
      case (Some e0)
      obtain r2 u2 s2 where sub: "io_uring_submit (ring_put (e0\<lparr>sqe_op := OpNop\<rparr>) u1) s1 = (r2, u2, s2)"
        by (cases "io_uring_submit (ring_put (e0\<lparr>sqe_op := OpNop\<rparr>) u1) s1") auto
      note sr = io_uring_submit_result [OF sub] uart_ring_open_frame(2) [OF sub]
      have g2: "\<not> uart_running u2"
        using sub g1 by (auto simp: io_uring_submit_def ring_put_def ask_def split: if_splits)
      show thesis
        by (rule that [of "uart_unlock u2"])
          (use assms(2) g gr sub sr g2 Some in \<open>auto simp: hal_uart_cleanup_def Let_def u0_def
            uart_device_indices uart_unlock_def\<close>)
    qed
  qed
  show ?thesis
    using assms(1,3) v run by (simp add: u' close)
qed

lemma i2c_device_indices: "[0..<unat eI2C_DEVICE_COUNT] = [0]"
  by (simp add: eI2C_DEVICE_COUNT_def upt_conv_Cons)

lemma hal_i2c_init_success:
  assumes "hal_i2c_init c s = (eSTATUS_SUCCESSFUL, c', s')" and "length (i2c_devices c) = 1"
  shows "length (i2c_devices c') = 1 \<and> i2c_open c' = i2c_fd (i2c_devices c' ! 0) # i2c_open c"
  using assms
  by (auto simp: hal_i2c_init_def i2c_device_indices i2c_setup_device_def ask_def Let_def
      split: if_splits)

text \<open>A successful initialisation starts all three drivers, and the cleanup undoes it.\<close>

definition static_hal :: "(nat \<Rightarrow> (nat \<times> nat) option) \<Rightarrow> (nat \<Rightarrow> u8) \<Rightarrow> 'cb hal" where
  "static_hal stale incoming = \<lparr>hal_gpio = static_gpio, hal_uart = static_uart stale,
     hal_i2c = static_i2c incoming\<rparr>"

definition hal_closed :: "'cb hal \<Rightarrow> bool" where
  "hal_closed h \<longleftrightarrow> \<not> gpio_chip (hal_gpio h) \<and> uart_open_fds (hal_uart h) = [] \<and>
    \<not> uart_running (hal_uart h) \<and> \<not> uart_thread (hal_uart h) \<and> \<not> ring_live (hal_uart h) \<and>
    i2c_open (hal_i2c h) = []"

lemma hal_init_parts:
  assumes "hal_init h s = (eSTATUS_SUCCESSFUL, h', s')"
  obtains s1 s2 where "hal_gpio_init (hal_gpio h) s = (eSTATUS_SUCCESSFUL, hal_gpio h', s1)"
    "hal_uart_init (hal_uart h) s1 = (eSTATUS_SUCCESSFUL, hal_uart h', s2)"
    "hal_i2c_init (hal_i2c h) s2 = (eSTATUS_SUCCESSFUL, hal_i2c h', s')"
  using assms by (fastforce simp: hal_init_def hal_drivers_def split: prod.splits if_splits)

lemma hal_cleanup_closes:
  assumes "hal_init (static_hal stale incoming) s = (eSTATUS_SUCCESSFUL, h, s1)"
    and "hal_cleanup h s2 = (h', s3)"
  shows "hal_closed h'"
proof (rule hal_init_parts [OF assms(1)])
  fix sa sb
  assume "hal_gpio_init (hal_gpio (static_hal stale incoming)) s = (eSTATUS_SUCCESSFUL, hal_gpio h, sa)"
    and u: "hal_uart_init (hal_uart (static_hal stale incoming)) sa = (eSTATUS_SUCCESSFUL, hal_uart h, sb)"
    and c: "hal_i2c_init (hal_i2c (static_hal stale incoming)) sb = (eSTATUS_SUCCESSFUL, hal_i2c h, s1)"
  have len: "length (uart_devices (static_uart stale :: 'a uart)) = 3" by (simp add: static_uart_def)
  note ur = hal_uart_init_success [OF u [unfolded static_hal_def, simplified] len]
  have cr: "length (i2c_devices (hal_i2c h)) = 1 \<and>
      i2c_open (hal_i2c h) = [i2c_fd (i2c_devices (hal_i2c h) ! 0)]"
    using hal_i2c_init_success [OF c] by (simp add: static_hal_def static_i2c_def)
  obtain u' s' where uc: "hal_uart_cleanup (hal_uart h) s2 = (u', s')"
    by (cases "hal_uart_cleanup (hal_uart h) s2") auto
  have "uart_open_fds u' = [] \<and> \<not> uart_running u' \<and> \<not> uart_thread u' \<and> \<not> ring_live u'"
    using hal_uart_cleanup_closes [OF ur(1) uc, of "[]"] ur(5) by (simp add: static_uart_def)
  then show "hal_closed h'"
    using assms(2) uc cr
    by (auto simp: hal_cleanup_def hal_drivers_def hal_closed_def hal_gpio_cleanup_def
        hal_i2c_cleanup_def i2c_device_indices)
qed

section \<open>Properties\<close>

text \<open>Everything the initialisation of the hardware layer opened, the cleanup closes: after a
  successful initialisation and the cleanup, whatever the system calls of the cleanup answer, the
  chip of the lines, the descriptors of the serial and the bus devices and the ring are closed and
  the completion thread has ended.\<close>

lemma hal_lifetime:
  assumes "hal_init (static_hal stale incoming) s = (eSTATUS_SUCCESSFUL, h, s1)"
  shows "hal_closed (fst (hal_cleanup h s2))"
  using hal_cleanup_closes [OF assms, of s2] by (cases "hal_cleanup h s2") auto

text \<open>A process whose system calls answer as on a board with all its devices.\<close>

definition board_answers :: "nat \<Rightarrow> int" where
  "board_answers n = [1, 1, 0, 1, 0,  0, 0, 3, 1, 0,  0, 0, 4, 1, 0,  0, 0, 5, 1, 0,  0, 0,  6, 1] ! n"

lemma hal_lifetime_witness:
  "\<exists>h s1. hal_init (static_hal (\<lambda>_. None) (\<lambda>_. 0) :: unit hal)
      (boot_os board_answers (\<lambda>_. zero_timespec)) = (eSTATUS_SUCCESSFUL, h, s1) \<and>
     uart_running (hal_uart h) \<and> hal_closed (fst (hal_cleanup h s1))"
proof -
  obtain st h s1 where r: "hal_init (static_hal (\<lambda>_. None) (\<lambda>_. 0) :: unit hal)
      (boot_os board_answers (\<lambda>_. zero_timespec)) = (st, h, s1)"
    by (metis prod_cases3)
  moreover have "[0..<2] = [0, 1 :: nat]" "[0..<3] = [0, 1, 2 :: nat]"
    by (simp_all add: upt_conv_Cons)
  ultimately have "st = eSTATUS_SUCCESSFUL" "uart_running (hal_uart h)"
    by (auto simp: i2c_codes hal_init_def hal_drivers_def static_hal_def hal_gpio_init_def gpio_device_indices
        gpio_setup_device_def hal_uart_init_def uart_device_indices uart_setup_device_def
        hal_i2c_init_def i2c_device_indices i2c_setup_device_def ask_def boot_os_def Let_def
        board_answers_def static_gpio_def static_gpio_device_def gpio_codes gpio_request_type_def
        gpio_request_flags_def static_uart_def static_uart_device_def static_i2c_def uart_codes)
  then show ?thesis using r hal_lifetime by blast
qed

end
