(* ===== verification/Cstring.thy ===== *)
theory Cstring
  imports Cfloat "HOL-Library.Char_ord" "HOL-Library.Sublist"
begin

text \<open>
  The functions of \<^verbatim>\<open>string.h\<close>, \<^verbatim>\<open>ctype.h\<close>, \<^verbatim>\<open>stdlib.h\<close> and \<^verbatim>\<open>stdio.h\<close> that the streaming server and the
  logger use. A C string is the list of its characters without the terminating null character; a
  pointer into a string is the suffix it points to, so that \<open>strchr\<close> and \<open>strstr\<close> return an optional
  suffix. The section of facts holds what the components need: numbers that are printed are read
  back, and how long a printed number is.
\<close>

section \<open>Searching\<close>

abbreviation NUL :: char where "NUL \<equiv> CHR 0x00"
abbreviation newline :: char where "newline \<equiv> CHR 0x0A"
abbreviation quote :: char where "quote \<equiv> CHR 0x22"

text \<open>The string at the start of a piece of memory.\<close>

definition c_str :: "string \<Rightarrow> string" where
  "c_str mem = takeWhile (\<lambda>c. c \<noteq> NUL) mem"

fun strchr :: "string \<Rightarrow> char \<Rightarrow> string option" where
  "strchr [] c = None"
| "strchr (x # xs) c = (if x = c then Some (x # xs) else strchr xs c)"

fun strstr :: "string \<Rightarrow> string \<Rightarrow> string option" where
  "strstr [] needle = (if needle = [] then Some [] else None)"
| "strstr (x # xs) needle = (if prefix needle (x # xs) then Some (x # xs) else strstr xs needle)"

definition isspace :: "char \<Rightarrow> bool" where
  "isspace c \<longleftrightarrow> c = CHR '' '' \<or> c \<in> {CHR 0x09, CHR 0x0A, CHR 0x0B, CHR 0x0C, CHR 0x0D}"

definition isdigit :: "char \<Rightarrow> bool" where
  "isdigit c \<longleftrightarrow> 48 \<le> (of_char c :: nat) \<and> (of_char c :: nat) \<le> 57"

section \<open>Reading numbers\<close>

definition digit_value :: "char \<Rightarrow> nat" where
  "digit_value c = of_char c - 48"

text \<open>The value of the digits in front, after \<open>acc\<close>.\<close>

fun read_digits :: "nat \<Rightarrow> string \<Rightarrow> nat" where
  "read_digits acc [] = acc"
| "read_digits acc (c # cs) = (if isdigit c then read_digits (10 * acc + digit_value c) cs else acc)"

text \<open>
  \<^verbatim>\<open>strtol\<close> in base ten, which saturates at the ends of a 64-bit \<^verbatim>\<open>long\<close>, and \<^verbatim>\<open>atoi\<close>, which is the same
  number converted to a 32-bit \<^verbatim>\<open>int\<close>.
\<close>

definition strtol :: "string \<Rightarrow> int" where
  "strtol str =
    (let str = dropWhile isspace str;
         n = (case str of
                [] \<Rightarrow> 0
              | c # cs \<Rightarrow> if c = CHR ''-'' then - int (read_digits 0 cs)
                        else if c = CHR ''+'' then int (read_digits 0 cs)
                        else int (read_digits 0 str))
     in max (- (2 ^ 63)) (min (2 ^ 63 - 1) n))"

definition atoi :: "string \<Rightarrow> int" where
  "atoi str = sint (word_of_int (strtol str) :: u32)"

section \<open>Printing\<close>

definition digit_char :: "nat \<Rightarrow> char" where
  "digit_char d = char_of (48 + d)"

fun show_nat :: "nat \<Rightarrow> string" where
  "show_nat n = (if n < 10 then [digit_char n] else show_nat (n div 10) @ [digit_char (n mod 10)])"

declare show_nat.simps [simp del]

definition show_int :: "int \<Rightarrow> string" where
  "show_int i = (if i < 0 then CHR ''-'' # show_nat (nat (- i)) else show_nat (nat i))"

text \<open>\<^verbatim>\<open>%02d\<close>\<close>

definition show_02d :: "int \<Rightarrow> string" where
  "show_02d i = (if 0 \<le> i \<and> i < 10 then CHR ''0'' # show_int i else show_int i)"

text \<open>
  \<^verbatim>\<open>%.<d>f\<close>: the value rounded to \<open>d\<close> decimals, ties to even. The model of \<^verbatim>\<open>float\<close> does not keep the sign of
  a zero or of a NaN; the argument \<open>neg\<close> is that sign.
\<close>

definition show_decimals :: "nat \<Rightarrow> nat \<Rightarrow> string" where
  "show_decimals d n =
    (let digits = show_nat n;
         digits = replicate (Suc d - length digits) (CHR ''0'') @ digits;
         k = length digits - d
     in take k digits @ (if d = 0 then [] else CHR ''.'' # drop k digits))"

fun show_fixed :: "nat \<Rightarrow> bool \<Rightarrow> cfloat \<Rightarrow> string" where
  "show_fixed d neg (Fin r) =
    (if r < 0 \<or> r = 0 \<and> neg then ''-'' else []) @ show_decimals d (nat (round_half_even (\<bar>r\<bar> * 10 ^ d)))"
| "show_fixed d neg PInf = ''inf''"
| "show_fixed d neg NInf = ''-inf''"
| "show_fixed d neg NaN = (if neg then ''-nan'' else ''nan'')"

definition show_bool :: "bool \<Rightarrow> string" where
  "show_bool b = (if b then ''true'' else ''false'')"

text \<open>\<^verbatim>\<open>snprintf\<close> writes at most \<open>sz - 1\<close> characters and returns how many it wanted to write.\<close>

definition snprintf :: "nat \<Rightarrow> string \<Rightarrow> string \<times> nat" where
  "snprintf sz text = (take (sz - 1) text, length text)"

section \<open>Facts\<close>

lemma c_str_no_nul [simp]: "NUL \<notin> set (c_str mem)"
  by (auto simp: c_str_def dest: set_takeWhileD)

lemma c_str_append_nul: "NUL \<notin> set xs \<Longrightarrow> c_str (xs @ NUL # ys) = xs"
  by (induction xs) (auto simp: c_str_def)

lemma c_str_id: "NUL \<notin> set xs \<Longrightarrow> c_str xs = xs"
  by (auto simp: c_str_def takeWhile_eq_all_conv)

lemma strchr_None: "strchr xs c = None \<longleftrightarrow> c \<notin> set xs"
  by (induction xs) auto

lemma strchr_append: "c \<notin> set xs \<Longrightarrow> strchr (xs @ c # ys) c = Some (c # ys)"
  by (induction xs) auto

lemma strchr_Some: "strchr xs c = Some ys \<longleftrightarrow> (\<exists>zs. xs = zs @ ys \<and> c \<notin> set zs \<and> ys \<noteq> [] \<and> hd ys = c)"
proof (induction xs)
  case (Cons x xs)
  show ?case
  proof (cases "x = c")
    case True
    then show ?thesis by (auto simp: Cons_eq_append_conv)
  next
    case False
    have "(\<exists>zs. x # xs = zs @ ys \<and> c \<notin> set zs \<and> ys \<noteq> [] \<and> hd ys = c) \<longleftrightarrow>
      (\<exists>zs. xs = zs @ ys \<and> c \<notin> set zs \<and> ys \<noteq> [] \<and> hd ys = c)"
      using False by (fastforce simp: Cons_eq_append_conv)
    then show ?thesis using False Cons.IH by simp
  qed
qed auto

lemma strstr_Some: "strstr xs needle = Some ys \<Longrightarrow> \<exists>zs rest. xs = zs @ needle @ rest \<and> ys = needle @ rest"
proof (induction xs)
  case (Cons x xs)
  show ?case
  proof (cases "prefix needle (x # xs)")
    case True
    then show ?thesis using Cons.prems by (auto simp: prefix_def intro: exI [of _ "[]"])
  next
    case False
    then obtain zs rest where "xs = zs @ needle @ rest" "ys = needle @ rest"
      using Cons by auto
    then show ?thesis by (auto intro: exI [of _ "x # zs"])
  qed
qed (auto split: if_splits)

lemma digit_char_isdigit: "d < 10 \<Longrightarrow> isdigit (digit_char d)"
  and digit_char_value: "d < 10 \<Longrightarrow> digit_value (digit_char d) = d"
  by (simp_all add: digit_char_def isdigit_def digit_value_def)

lemma show_nat_isdigit: "c \<in> set (show_nat n) \<Longrightarrow> isdigit c"
proof (induction n rule: show_nat.induct)
  case (1 n)
  then show ?case
    by (subst (asm) (2) show_nat.simps) (auto simp: digit_char_isdigit split: if_splits)
qed

lemma show_nat_not_Nil [simp]: "show_nat n \<noteq> []"
  by (subst show_nat.simps) simp

lemma read_digits_append:
  "\<forall>c\<in>set xs. isdigit c \<Longrightarrow> read_digits acc (xs @ ys) = read_digits (read_digits acc xs) ys"
  by (induction xs arbitrary: acc) auto

lemma read_digits_show_nat: "read_digits 0 (show_nat n) = n"
proof (induction n rule: show_nat.induct)
  case (1 n)
  show ?case
  proof (cases "n < 10")
    case True
    then show ?thesis by (subst show_nat.simps) (simp add: digit_char_isdigit digit_char_value)
  next
    case False
    then have "read_digits 0 (show_nat (n div 10) @ [digit_char (n mod 10)]) = n"
      using 1 by (subst read_digits_append) (auto simp: show_nat_isdigit digit_char_isdigit digit_char_value)
    then show ?thesis using False by (subst show_nat.simps) simp
  qed
qed

lemma read_digits_stop: "rest = [] \<or> \<not> isdigit (hd rest) \<Longrightarrow> read_digits acc rest = acc"
  by (cases rest) auto

lemma isdigit_not_space: "isdigit c \<Longrightarrow> \<not> isspace c"
  by (auto simp: isdigit_def isspace_def)

lemma isdigit_not_sign: "isdigit c \<Longrightarrow> c \<noteq> CHR ''-'' \<and> c \<noteq> CHR ''+''"
  by (auto simp: isdigit_def)

text \<open>A number that is printed is read back, whatever follows it, unless that is a digit.\<close>

lemma atoi_show_int:
  assumes "- (2 ^ 31) \<le> i" and "i < 2 ^ 31" and "rest = [] \<or> \<not> isdigit (hd rest)"
  shows "atoi (show_int i @ rest) = i"
proof -
  have r: "read_digits 0 (show_nat n @ rest) = n" for n
    using assms(3) by (subst read_digits_append) (auto simp: show_nat_isdigit read_digits_show_nat read_digits_stop)
  have "strtol (show_int i @ rest) = i"
  proof (cases "i < 0")
    case True
    then have "dropWhile isspace (show_int i @ rest) = CHR ''-'' # show_nat (nat (- i)) @ rest"
      by (simp add: show_int_def isspace_def)
    then show ?thesis using True assms(1) by (simp add: strtol_def Let_def r)
  next
    case False
    obtain c cs where cs: "show_nat (nat i) = c # cs" by (cases "show_nat (nat i)") auto
    then have "isdigit c" using show_nat_isdigit [of c "nat i"] by simp
    moreover have "show_int i @ rest = c # cs @ rest" using False cs by (simp add: show_int_def)
    moreover have "read_digits 0 (c # cs @ rest) = nat i" using r [of "nat i"] cs by simp
    ultimately have "strtol (show_int i @ rest) = max (- (2 ^ 63)) (min (2 ^ 63 - 1) (int (nat i)))"
      using isdigit_not_space isdigit_not_sign by (simp add: strtol_def Let_def del: read_digits.simps)
    then show ?thesis using False assms(2) by simp
  qed
  then show ?thesis using assms(1,2)
    by (simp add: atoi_def int_word_sint)
qed

text \<open>How long a printed number is.\<close>

lemma show_nat_length: "n < 10 ^ k \<Longrightarrow> 0 < k \<Longrightarrow> length (show_nat n) \<le> k"
proof (induction k arbitrary: n)
  case (Suc k)
  show ?case
  proof (cases "n < 10")
    case True
    then show ?thesis by (subst show_nat.simps) simp
  next
    case False
    then have "n div 10 < 10 ^ k" "0 < k"
      using Suc.prems by (simp_all add: div_less_iff_less_mult mult.commute) (cases k; simp)
    then show ?thesis using Suc.IH [of "n div 10"] False by (subst show_nat.simps) simp
  qed
qed simp

lemma show_decimals_length:
  assumes "n < 10 ^ (k + d)" and "0 < k"
  shows "length (show_decimals d n) \<le> k + d + 1"
proof -
  have "length (show_nat n) \<le> k + d" using show_nat_length [OF assms(1)] assms(2) by simp
  then have digits: "length (replicate (Suc d - length (show_nat n)) CHR ''0'' @ show_nat n) \<le> k + d"
    using assms(2) by simp
  have "length (take j ds @ (if d = 0 then [] else c # drop j ds)) \<le> m + 1"
    if "length ds \<le> m" for j c m and ds :: string
    using that by (auto simp: min_def)
  note this [OF digits]
  then show ?thesis by (simp only: show_decimals_def Let_def)
qed

lemma show_fixed_length:
  assumes "\<bar>r\<bar> * 10 ^ d \<le> of_nat m" and "m < 10 ^ (k + d)" and "0 < k"
  shows "length (show_fixed d neg (Fin r)) \<le> k + d + 2"
proof -
  have "round_half_even (\<bar>r\<bar> * 10 ^ d) \<le> int m"
    using assms(1) by (intro round_half_even_le) simp
  then have "nat (round_half_even (\<bar>r\<bar> * 10 ^ d)) \<le> m" by linarith
  then have "nat (round_half_even (\<bar>r\<bar> * 10 ^ d)) < 10 ^ (k + d)" using assms(2) by linarith
  then show ?thesis using show_decimals_length [OF _ assms(3)] by fastforce
qed

end
