(* ===== verification/Posix.thy ===== *)
theory Posix
  imports Cstring "HOL-Library.Monad_Syntax"
begin

text \<open>
  The operating system as the streaming server of \<^verbatim>\<open>src/pi-streaming\<close> sees it. What its calls answer is
  a parameter of the model, as in \<^verbatim>\<open>Osal\<close>: the stream \<open>px_answers\<close> holds the result of the \<open>n\<close>-th call that
  can fail, a failing call answering minus its error number, and \<open>px_received\<close> what the \<open>n\<close>-th call of
  \<^verbatim>\<open>recv\<close> finds on its socket. The rest of the state is what the calls of the server have done: the
  descriptors it has open, the text it has sent on each of them, the signals it has sent to other
  processes, the processes it has started with their arguments, and how many microseconds it has
  slept. \<open>px_ub\<close> records an access outside an array.
\<close>

section \<open>State\<close>

datatype received = Received string | Recv_error int

record posix =
  px_answers :: "nat \<Rightarrow> int"
  px_asked :: nat
  px_received :: "nat \<Rightarrow> received"
  px_recvs :: nat
  px_fds :: "int list"
  px_sent :: "int \<Rightarrow> string"
  px_signals :: "(int \<times> nat) list"
  px_spawned :: "(int \<times> string list) list"
  px_slept :: nat
  px_ub :: bool

definition EAGAIN :: int where "EAGAIN = 11"
definition ESRCH :: int where "ESRCH = 3"
definition SIGKILL :: nat where "SIGKILL = 9"
definition SIGTERM :: nat where "SIGTERM = 15"

lemmas px_codes = EAGAIN_def ESRCH_def SIGKILL_def SIGTERM_def

definition px_ask :: "posix \<Rightarrow> int \<times> posix" where
  "px_ask s = (px_answers s (px_asked s), s\<lparr>px_asked := Suc (px_asked s)\<rparr>)"

text \<open>The state of a process that starts.\<close>

definition px_start :: "(nat \<Rightarrow> int) \<Rightarrow> (nat \<Rightarrow> received) \<Rightarrow> posix" where
  "px_start answers received = \<lparr>px_answers = answers, px_asked = 0, px_received = received,
     px_recvs = 0, px_fds = [], px_sent = (\<lambda>_. []), px_signals = [], px_spawned = [], px_slept = 0,
     px_ub = False\<rparr>"

section \<open>Calls\<close>

text \<open>A call that opens a descriptor, and \<^verbatim>\<open>close\<close>.\<close>

definition px_open :: "posix \<Rightarrow> int \<times> posix" where
  "px_open s = (let (r, s) = px_ask s in (r, if 0 \<le> r then s\<lparr>px_fds := r # px_fds s\<rparr> else s))"

definition px_close :: "int \<Rightarrow> posix \<Rightarrow> posix" where
  "px_close fd s = s\<lparr>px_fds := remove1 fd (px_fds s)\<rparr>"

text \<open>\<^verbatim>\<open>send\<close>: the answer is the number of characters taken, at most those offered.\<close>

definition px_send :: "int \<Rightarrow> string \<Rightarrow> posix \<Rightarrow> int \<times> posix" where
  "px_send fd text s =
    (let (r, s) = px_ask s
     in if r < 0 then (r, s)
        else let n = min (nat r) (length text)
             in (int n, s\<lparr>px_sent := (px_sent s)(fd := px_sent s fd @ take n text)\<rparr>))"

text \<open>\<^verbatim>\<open>recv\<close> of at most \<open>n\<close> characters; no character means that the peer has closed.\<close>

definition px_recv :: "nat \<Rightarrow> posix \<Rightarrow> received \<times> posix" where
  "px_recv n s =
    ((case px_received s (px_recvs s) of Received bs \<Rightarrow> Received (take n bs) | Recv_error e \<Rightarrow> Recv_error e),
     s\<lparr>px_recvs := Suc (px_recvs s)\<rparr>)"

definition px_kill :: "int \<Rightarrow> nat \<Rightarrow> posix \<Rightarrow> int \<times> posix" where
  "px_kill pid sig s =
    (let (r, s) = px_ask s
     in (r, if sig = 0 then s else s\<lparr>px_signals := px_signals s @ [(pid, sig)]\<rparr>))"

definition px_usleep :: "nat \<Rightarrow> posix \<Rightarrow> posix" where
  "px_usleep us s = s\<lparr>px_slept := px_slept s + us\<rparr>"

text \<open>\<^verbatim>\<open>fork\<close> and, in the child, \<^verbatim>\<open>execl\<close> with the given program and arguments.\<close>

definition px_spawn :: "string list \<Rightarrow> posix \<Rightarrow> int \<times> posix" where
  "px_spawn args s =
    (let (pid, s) = px_ask s
     in if 0 < pid then (pid, s\<lparr>px_spawned := px_spawned s @ [(pid, args)]\<rparr>) else (- 1, s))"

section \<open>Files\<close>

text \<open>What the files of the system are: the text of a file that can be read, whether a path is a named
  pipe, and the access rights of the process.\<close>

record files =
  fs_text :: "string \<Rightarrow> string option"
  fs_fifo :: "string \<Rightarrow> bool"
  fs_readable :: "string \<Rightarrow> bool"
  fs_executable :: "string \<Rightarrow> bool"

end
