(* ===== verification/TransferLoop.thy ===== *)
theory TransferLoop
  imports Prelude
begin

text \<open>
  The loop around a system call that transfers a part of what is left: \<^verbatim>\<open>read\<close>, \<^verbatim>\<open>write\<close> and \<^verbatim>\<open>send\<close> are called
  until everything is transferred, again after an answer that allows it, and given up after any other
  error. The loop may not return: its result is then \<open>None\<close>. The locale states what the call does in
  terms of what it moves, and has what follows for the loop.
\<close>

text \<open>\<open>k\<close> of \<open>amount\<close> items are done; a call answers the number of items it has moved, or an error below
  zero; \<open>good\<close> and \<open>bad\<close> are the results of the loop.\<close>

partial_function (option) transfer ::
    "nat \<Rightarrow> (nat \<Rightarrow> 's \<Rightarrow> int \<times> 's) \<Rightarrow> (int \<Rightarrow> bool) \<Rightarrow> 'r \<Rightarrow> 'r \<Rightarrow> nat \<Rightarrow> 's \<Rightarrow> ('r \<times> 's) option" where
  "transfer amount call again good bad k s =
    (if k < amount
     then (case call k s of (n, s) \<Rightarrow>
             if n < 0
             then if again n then transfer amount call again good bad k s else Some (bad, s)
             else transfer amount call again good bad (k + nat n) s)
     else Some (good, s))"

lemma transfer_done: "amount \<le> k \<Longrightarrow> transfer amount call again good bad k s = Some (good, s)"
  by (subst transfer.simps) simp

lemma transfer_step:
  "k < amount \<Longrightarrow> call k s = (n, s') \<Longrightarrow> transfer amount call again good bad k s =
    (if n < 0 then if again n then transfer amount call again good bad k s' else Some (bad, s')
     else transfer amount call again good bad (k + nat n) s')"
  by (subst transfer.simps) simp

text \<open>Fixed-point induction over the steps of a loop that returns.\<close>

lemma transfer_induct [consumes 1, case_names finish again fail more]:
  assumes run: "transfer amount call again good bad k s = Some x"
    and finish: "\<And>k s. amount \<le> k \<Longrightarrow> P k s (good, s)"
    and again: "\<And>k s n s' x. k < amount \<Longrightarrow> call k s = (n, s') \<Longrightarrow> n < 0 \<Longrightarrow> again n \<Longrightarrow> P k s' x \<Longrightarrow> P k s x"
    and fail: "\<And>k s n s'. k < amount \<Longrightarrow> call k s = (n, s') \<Longrightarrow> n < 0 \<Longrightarrow> \<not> again n \<Longrightarrow> P k s (bad, s')"
    and more: "\<And>k s n s' x. k < amount \<Longrightarrow> call k s = (n, s') \<Longrightarrow> 0 \<le> n \<Longrightarrow> P (k + nat n) s' x \<Longrightarrow> P k s x"
  shows "P k s x"
proof -
  define Q where "Q t c a g b k s x \<longleftrightarrow> (t = amount \<and> c = call \<and> a = again \<and> g = good \<and> b = bad \<longrightarrow> P k s x)"
    for t c a g b k s x
  have "Q amount call again good bad k s x"
  proof (rule transfer.raw_induct [OF _ run], goal_cases)
    case (1 f t c a g b k s x)
    show ?case
      unfolding Q_def
    proof (intro impI, elim conjE)
      assume e: "t = amount" "c = call" "a = again" "g = good" "b = bad"
      have IH: "P k s x" if "f amount call again good bad k s = Some x" for k s x
        using 1(1) [OF that] by (simp add: Q_def)
      obtain n s' where c: "call k s = (n, s')" by fastforce
      show "P k s x"
        using 1(2) IH c e finish again fail more
        by (auto simp: not_less split: if_splits)
    qed
  qed
  then show ?thesis by (simp add: Q_def)
qed

section \<open>Contract\<close>

text \<open>\<open>moved k j s s'\<close>: from \<open>s\<close> to \<open>s'\<close> the items from \<open>k\<close> to \<open>k + j\<close> are moved. \<open>live m s\<close>: one of the calls
  from \<open>s\<close> on, after at most \<open>m\<close> others, moves something or fails; \<open>dead s\<close>: none ever does.\<close>

locale transfer_call =
  fixes amount :: nat
    and call :: "nat \<Rightarrow> 's \<Rightarrow> int \<times> 's"
    and again :: "int \<Rightarrow> bool"
    and moved :: "nat \<Rightarrow> nat \<Rightarrow> 's \<Rightarrow> 's \<Rightarrow> bool"
    and live :: "nat \<Rightarrow> 's \<Rightarrow> bool"
    and dead :: "'s \<Rightarrow> bool"
  assumes moved_none: "moved k 0 s s"
    and moved_more: "moved k i s s' \<Longrightarrow> moved (k + i) j s' s'' \<Longrightarrow> moved k (i + j) s s''"
    and call_error: "k < amount \<Longrightarrow> call k s = (n, s') \<Longrightarrow> n < 0 \<Longrightarrow> moved k 0 s s'"
    and call_moved: "k < amount \<Longrightarrow> call k s = (n, s') \<Longrightarrow> 0 \<le> n \<Longrightarrow> nat n \<le> amount - k \<and> moved k (nat n) s s'"
    and live_waits: "k < amount \<Longrightarrow> call k s = (n, s') \<Longrightarrow> live m s \<Longrightarrow> n = 0 \<or> n < 0 \<and> again n \<Longrightarrow>
      0 < m \<and> live (m - 1) s'"
    and live_goes: "k < amount \<Longrightarrow> call k s = (n, s') \<Longrightarrow> live m s \<Longrightarrow> \<exists>m'. live m' s'"
    and dead_waits: "k < amount \<Longrightarrow> call k s = (n, s') \<Longrightarrow> dead s \<Longrightarrow> (n = 0 \<or> n < 0 \<and> again n) \<and> dead s'"
begin

text \<open>What a loop that returns has moved: everything, or less and an error.\<close>

lemma transfer_moved:
  assumes "transfer amount call again good bad k s = Some (r, s')" and "k \<le> amount"
  shows "\<exists>j\<le>amount - k. moved k j s s' \<and> (r = good \<and> j = amount - k \<or> r = bad \<and> j < amount - k)"
proof -
  have "k \<le> amount \<longrightarrow> (\<exists>j\<le>amount - k. moved k j s (snd x) \<and>
      (fst x = good \<and> j = amount - k \<or> fst x = bad \<and> j < amount - k))"
    if "transfer amount call again good bad k s = Some x" for x
    using that
  proof (induction rule: transfer_induct)
    case (finish k s)
    then show ?case using moved_none by auto
  next
    case (again k s n s' x)
    then show ?case using moved_more [OF call_error [OF again(1-3)], of _ "snd x"] by auto
  next
    case (fail k s n s')
    then show ?case using call_error [OF fail(1-3)] by auto
  next
    case (more k s n s' x)
    note m = call_moved [OF more(1-3)]
    show ?case
    proof
      assume "k \<le> amount"
      moreover have "k + nat n \<le> amount" using m more(1) by linarith
      then obtain j where j: "j \<le> amount - (k + nat n)" "moved (k + nat n) j s' (snd x)"
        "fst x = good \<and> j = amount - (k + nat n) \<or> fst x = bad \<and> j < amount - (k + nat n)"
        using more(4) by blast
      ultimately show "\<exists>j\<le>amount - k. moved k j s (snd x) \<and>
          (fst x = good \<and> j = amount - k \<or> fst x = bad \<and> j < amount - k)"
        using moved_more [OF conjunct2 [OF m] j(2)] m by (intro exI [of _ "nat n + j"]) auto
    qed
  qed
  from this [OF assms(1)] assms(2) show ?thesis by simp
qed

text \<open>A line on which something happens again and again lets the loop return.\<close>

lemma transfer_returns:
  assumes "live m s"
  shows "\<exists>x. transfer amount call again good bad k s = Some x"
  using assms
proof (induction "(amount - k, m)" arbitrary: k m s rule: wf_induct_rule [OF wf_lex_prod [OF wf_less_than wf_less_than]])
  case 1
  show ?case
  proof (cases "k < amount")
    case True
    obtain n s' where c: "call k s = (n, s')" by fastforce
    note step = transfer_step [of k amount call s n s' again good bad, OF True c]
    consider "n = 0 \<or> n < 0 \<and> again n" | "n < 0" "\<not> again n" | "0 < n" by linarith
    then show ?thesis
    proof cases
      case 1
      then have "0 < m \<and> live (m - 1) s'" using live_waits [OF True c] \<open>live m s\<close> by blast
      then show ?thesis
        using 1 step "1.hyps" [of k "m - 1" s'] by auto
    next
      case 3
      obtain m' where "live m' s'" using live_goes [OF True c] \<open>live m s\<close> by blast
      moreover have "amount - (k + nat n) < amount - k" using True 3 by linarith
      ultimately show ?thesis using 3 step "1.hyps" [of "k + nat n" m' s'] by auto
    qed (use step in simp)
  qed (simp add: transfer_done)
qed

text \<open>A line on which nothing ever happens does not.\<close>

lemma transfer_blocks:
  assumes "dead s" and "k < amount"
  shows "transfer amount call again good bad k s = None"
proof -
  have "\<not> (k < amount \<and> dead s)" if "transfer amount call again good bad k s = Some x" for x
    using that
  proof (induction rule: transfer_induct)
    case (more k s n s' x)
    then show ?case using dead_waits [OF more(1,2)] by auto
  next
    case (again k s n s' x)
    then show ?case using dead_waits [OF again(1,2)] by auto
  next
    case (fail k s n s')
    then show ?case using dead_waits [OF fail(1,2)] by auto
  qed simp
  then show ?thesis using assms by (cases "transfer amount call again good bad k s") auto
qed

end

end
