(* ===== verification/UnixSocket.thy ===== *)
theory UnixSocket
  imports Posix TransferLoop
begin

text \<open>
  The connection to the detection process, \<^verbatim>\<open>src/pi-streaming/unix_socket.c\<close>: a Unix domain socket with
  one client, commands sent to it, and messages received from it, each ended by a newline. The
  section on framing proves that the messages are the lines of what arrives, however it is cut into
  pieces, and what a message that is too long does.

  The receive buffer is the array of the code with its 65536 characters, so that what lies behind the
  received text is there too. Removing the old socket file and its access rights have no part in the
  model. The doubles of the START command are printed with the sign of a zero as an argument, see
  \<open>show_fixed\<close>.
\<close>

section \<open>Connection\<close>

definition MAX_MSG_SIZE :: nat where "MAX_MSG_SIZE = 4096"
definition RECV_BUFFER_SIZE :: nat where "RECV_BUFFER_SIZE = 65536"

record IPCConnection =
  server_fd :: int
  client_fd :: int
  recv_buffer :: string
  recv_len :: nat

section \<open>Helpers\<close>

definition set_nonblocking :: "int \<Rightarrow> posix \<Rightarrow> int \<times> posix" where
  "set_nonblocking fd s =
    (let (flags, s) = px_ask s
     in if flags < 0 then (- 1, s)
        else let (r, s) = px_ask s in if r < 0 then (- 1, s) else (0, s))"

text \<open>The loop of \<open>sendall\<close>; it may not return, when the socket takes nothing. The body sends what is left
  and sleeps for a millisecond when the socket is full.\<close>

definition send_call :: "int \<Rightarrow> string \<Rightarrow> nat \<Rightarrow> posix \<Rightarrow> int \<times> posix" where
  "send_call fd buf done_len s =
    (let (n, s) = px_send fd (drop done_len buf) s
     in (n, if n = - EAGAIN then px_usleep 1000 s else s))"

definition sendall_loop :: "int \<Rightarrow> string \<Rightarrow> nat \<Rightarrow> posix \<Rightarrow> (int \<times> posix) option" where
  "sendall_loop fd buf = transfer (length buf) (send_call fd buf) (\<lambda>n. n = - EAGAIN) 0 (- 1)"

definition sendall :: "int \<Rightarrow> string \<Rightarrow> posix \<Rightarrow> (int \<times> posix) option" where
  "sendall fd buf s = sendall_loop fd buf 0 s"

section \<open>Operations\<close>

definition ipc_server_init :: "posix \<Rightarrow> int \<times> IPCConnection \<times> posix" where
  "ipc_server_init s =
    (let conn = \<lparr>server_fd = - 1, client_fd = - 1, recv_buffer = replicate RECV_BUFFER_SIZE NUL,
                 recv_len = 0\<rparr>;
         (fd, s) = px_open s
     in if fd < 0 then (- 1, conn, s)
        else let (r, s) = px_ask s
        in if r < 0 then (- 1, conn, px_close fd s)
           else let (r, s) = px_ask s
           in if r < 0 then (- 1, conn, px_close fd s)
              else (0, conn\<lparr>server_fd := fd\<rparr>, s))"

definition ipc_accept_client :: "IPCConnection \<Rightarrow> posix \<Rightarrow> int \<times> IPCConnection \<times> posix" where
  "ipc_accept_client conn s =
    (if server_fd conn = - 1 then (- 1, conn, s)
     else let (conn, s) = (if client_fd conn \<noteq> - 1
                           then (conn\<lparr>client_fd := - 1\<rparr>, px_close (client_fd conn) s) else (conn, s));
              (fd, s) = px_open s
          in if fd < 0 then (- 1, conn\<lparr>client_fd := - 1\<rparr>, s)
             else let conn = conn\<lparr>client_fd := fd\<rparr>;
                      (_, s) = px_ask s;
                      (r, s) = set_nonblocking (client_fd conn) s
             in if r = - 1 then (- 1, conn\<lparr>client_fd := - 1\<rparr>, px_close (client_fd conn) s)
                else (0, conn\<lparr>recv_len := 0, recv_buffer := (recv_buffer conn)[0 := NUL]\<rparr>, s))"

definition ipc_check_client_connected :: "IPCConnection \<Rightarrow> bool" where
  "ipc_check_client_connected conn \<longleftrightarrow> client_fd conn \<noteq> - 1"

text \<open>The text of the START command.\<close>

definition start_command :: "string \<Rightarrow> cfloat \<Rightarrow> cfloat \<Rightarrow> bool \<Rightarrow> int \<Rightarrow> bool \<Rightarrow> string" where
  "start_command video_path duration_sec fps loop frame_interval neg =
    ''{\"cmd\":\"start\",\"video_path\":\"'' @ video_path @ ''\",\"duration_sec\":'' @ show_fixed 3 neg duration_sec @
    '',\"fps\":'' @ show_fixed 2 neg fps @ '',\"loop\":'' @ show_bool loop @
    '',\"frame_interval\":'' @ show_int frame_interval @ ''}'' @ [newline]"

definition ipc_send_start ::
    "IPCConnection \<Rightarrow> string \<Rightarrow> cfloat \<Rightarrow> cfloat \<Rightarrow> bool \<Rightarrow> int \<Rightarrow> bool \<Rightarrow> posix \<Rightarrow> (int \<times> posix) option" where
  "ipc_send_start conn video_path duration_sec fps loop frame_interval neg s =
    (if client_fd conn = - 1 then Some (- 1, s)
     else let (msg, len) = snprintf MAX_MSG_SIZE
                             (start_command video_path duration_sec fps loop frame_interval neg)
          in if MAX_MSG_SIZE \<le> len then Some (- 1, s) else sendall (client_fd conn) (take len msg) s)"

definition stop_command :: string where
  "stop_command = ''{\"cmd\":\"stop\"}'' @ [newline]"

definition ipc_send_stop :: "IPCConnection \<Rightarrow> posix \<Rightarrow> (int \<times> posix) option" where
  "ipc_send_stop conn s =
    (if client_fd conn = - 1 then Some (- 1, s) else sendall (client_fd conn) stop_command s)"

text \<open>What \<open>ipc_recv_message\<close> puts into its buffer: \<open>recv\<close> writes behind the received text.\<close>

definition store_received :: "string \<Rightarrow> IPCConnection \<Rightarrow> IPCConnection" where
  "store_received bs conn =
    (let l = recv_len conn + length bs
     in conn\<lparr>recv_len := l,
             recv_buffer := (take (recv_len conn) (recv_buffer conn) @ bs @ drop l (recv_buffer conn))[l := NUL]\<rparr>)"

definition recv_more :: "IPCConnection \<Rightarrow> posix \<Rightarrow> bool \<times> IPCConnection \<times> posix" where
  "recv_more conn s =
    (if recv_len conn < RECV_BUFFER_SIZE - 1
     then case px_recv (RECV_BUFFER_SIZE - recv_len conn - 1) s of
            (Received bs, s) \<Rightarrow>
              if bs \<noteq> [] then (True, store_received bs conn, s)
              else (False, conn\<lparr>client_fd := - 1\<rparr>, px_close (client_fd conn) s)
          | (Recv_error e, s) \<Rightarrow>
              if e \<noteq> EAGAIN then (False, conn\<lparr>client_fd := - 1\<rparr>, px_close (client_fd conn) s)
              else (True, conn, s)
     else (True, conn, s))"

text \<open>\<^verbatim>\<open>memmove\<close> of \<open>n\<close> characters from index \<open>i\<close> of the buffer to its start, and whether it stays inside.\<close>

definition move_to_front :: "nat \<Rightarrow> nat \<Rightarrow> string \<Rightarrow> string \<times> bool" where
  "move_to_front i n buf =
    (let moved = take n (drop i buf) in (moved @ drop (length moved) buf, i + n \<le> length buf))"

definition take_message :: "nat \<Rightarrow> IPCConnection \<Rightarrow> posix \<Rightarrow> int \<times> string option \<times> IPCConnection \<times> posix" where
  "take_message buffsize conn s =
    (case strchr (c_str (recv_buffer conn)) newline of
       None \<Rightarrow> (0, None, conn, s)
     | Some rest \<Rightarrow>
        let nl = length (c_str (recv_buffer conn)) - length rest;
            msg_len = (if buffsize \<le> nl then buffsize - 1 else nl);
            message = take msg_len (recv_buffer conn);
            remaining = recv_len conn - (msg_len + 1);
            (buf, inside) = (if 0 < remaining then move_to_front (nl + 1) remaining (recv_buffer conn)
                             else (recv_buffer conn, True))
        in (int msg_len, Some message, conn\<lparr>recv_len := remaining, recv_buffer := buf[remaining := NUL]\<rparr>,
            if inside then s else s\<lparr>px_ub := True\<rparr>))"

text \<open>The result, the message stored in the caller's buffer, if any, and the new states.\<close>

definition ipc_recv_message ::
    "nat \<Rightarrow> IPCConnection \<Rightarrow> posix \<Rightarrow> int \<times> string option \<times> IPCConnection \<times> posix" where
  "ipc_recv_message buffsize conn s =
    (if client_fd conn = - 1 then (- 1, None, conn, s)
     else case recv_more conn s of
            (False, conn, s) \<Rightarrow> (- 1, None, conn, s)
          | (True, conn, s) \<Rightarrow> take_message buffsize conn s)"

definition ipc_get_server_fd :: "IPCConnection \<Rightarrow> int" where
  "ipc_get_server_fd conn = server_fd conn"

definition ipc_get_client_fd :: "IPCConnection \<Rightarrow> int" where
  "ipc_get_client_fd conn = client_fd conn"

definition ipc_disconnect_client :: "IPCConnection \<Rightarrow> posix \<Rightarrow> IPCConnection \<times> posix" where
  "ipc_disconnect_client conn s =
    (if client_fd conn \<noteq> - 1
     then (conn\<lparr>client_fd := - 1, recv_len := 0\<rparr>, px_close (client_fd conn) s) else (conn, s))"

definition ipc_cleanup :: "IPCConnection \<Rightarrow> posix \<Rightarrow> IPCConnection \<times> posix" where
  "ipc_cleanup conn s =
    (let (conn, s) = (if client_fd conn \<noteq> - 1
                      then (conn\<lparr>client_fd := - 1\<rparr>, px_close (client_fd conn) s) else (conn, s))
     in if server_fd conn \<noteq> - 1
        then (conn\<lparr>server_fd := - 1\<rparr>, px_close (server_fd conn) s) else (conn, s))"

section \<open>Sending\<close>

text \<open>The answers of a socket that takes something, or fails, at least once in any \<open>m\<close> calls.\<close>

definition socket_moves :: "nat \<Rightarrow> posix \<Rightarrow> bool" where
  "socket_moves m s \<longleftrightarrow> (\<forall>k. \<exists>j\<le>m. px_answers s (k + j) \<notin> {0, - EAGAIN})"

definition socket_next :: "nat \<Rightarrow> posix \<Rightarrow> bool" where
  "socket_next m s \<longleftrightarrow> (\<exists>l. socket_moves l s) \<and> (\<exists>j\<le>m. px_answers s (px_asked s + j) \<notin> {0, - EAGAIN})"

definition has_sent :: "int \<Rightarrow> string \<Rightarrow> posix \<Rightarrow> posix \<Rightarrow> bool" where
  "has_sent fd text s s' \<longleftrightarrow> px_sent s' = (px_sent s)(fd := px_sent s fd @ text)"

lemma send_call_cases:
  assumes "send_call fd buf k s = (n, s')"
  shows "px_answers s' = px_answers s" "px_asked s' = Suc (px_asked s)"
    "n < 0 \<Longrightarrow> n = px_answers s (px_asked s) \<and> has_sent fd [] s s'"
    "0 \<le> n \<Longrightarrow> nat n \<le> length buf - k \<and> has_sent fd (take (nat n) (drop k buf)) s s'"
    "0 \<le> n \<Longrightarrow> px_answers s (px_asked s) \<noteq> 0 \<Longrightarrow> k < length buf \<Longrightarrow> 0 < n"
    "0 \<le> px_answers s (px_asked s) \<longleftrightarrow> 0 \<le> n" "px_answers s (px_asked s) = 0 \<Longrightarrow> n = 0"
  using assms by (auto simp: send_call_def px_send_def px_ask_def px_usleep_def has_sent_def Let_def min_def
    split: if_splits)

lemma socket_next_exists: "socket_moves m s \<Longrightarrow> \<exists>m. socket_next m s"
  unfolding socket_next_def socket_moves_def by blast

interpretation send: transfer_call "length buf" "send_call fd buf" "\<lambda>n. n = - EAGAIN"
    "\<lambda>k j. has_sent fd (take j (drop k buf))" socket_next "\<lambda>s. \<forall>i. px_answers s i \<in> {0, - EAGAIN}"
  for fd buf
proof (unfold_locales, goal_cases)
  case (1 k s)
  then show ?case by (simp add: has_sent_def)
next
  case (2 k i s s' j s'')
  have "take (i + j) (drop k buf) = take i (drop k buf) @ take j (drop (k + i) buf)"
    by (simp only: take_add drop_drop add.commute [of k i])
  with 2 show ?case by (simp add: has_sent_def)
next
  case (3 k s n s')
  then show ?case using send_call_cases(3) by simp
next
  case (4 k s n s')
  then show ?case using send_call_cases(4) by simp
next
  case (5 k s n s' m)
  note c = send_call_cases [OF 5(2)]
  obtain j l where j: "j \<le> m" "px_answers s (px_asked s + j) \<notin> {0, - EAGAIN}" "socket_moves l s"
    using 5(3) by (auto simp: socket_next_def)
  have "px_answers s (px_asked s) \<in> {0, - EAGAIN}"
    using 5(1,4) c(3,5,6) by (auto simp: not_less)
  then have "j \<noteq> 0" using j(2) by (cases j) auto
  then obtain i where i: "j = Suc i" by (cases j) auto
  have "socket_moves l s'" using j(3) c(1) by (simp add: socket_moves_def)
  moreover have "i \<le> m - 1" "px_answers s' (px_asked s' + i) \<notin> {0, - EAGAIN}" using j i c(1,2) by simp_all
  ultimately show ?case using j(1) i by (auto simp only: socket_next_def)
next
  case (6 k s n s' m)
  then obtain l where "socket_moves l s" by (auto simp: socket_next_def)
  then have "socket_moves l s'" using send_call_cases(1) [OF 6(2)] by (simp add: socket_moves_def)
  then show ?case by (rule socket_next_exists)
next
  case (7 k s n s')
  note c = send_call_cases [OF 7(2)]
  have "px_answers s (px_asked s) = 0 \<or> px_answers s (px_asked s) = - EAGAIN" using 7(3) by auto
  then have "n = 0 \<or> n < 0 \<and> n = - EAGAIN"
  proof
    assume e: "px_answers s (px_asked s) = - EAGAIN"
    then have "n < 0" using c(6) by (simp add: EAGAIN_def)
    then show ?thesis using c(3) e by simp
  qed (use c(7) in simp)
  then show ?case using c(1) 7(3) by simp
qed

lemma sendall_loop_sent:
  assumes "sendall_loop fd buf k s = Some (r, s')" and "k \<le> length buf"
  shows "\<exists>j\<le>length buf - k. has_sent fd (take j (drop k buf)) s s' \<and>
    (r = 0 \<and> j = length buf - k \<or> r = - 1 \<and> j < length buf - k)"
  using send.transfer_moved [OF assms(1) [unfolded sendall_loop_def] assms(2)] .

lemma sendall_loop_blocked:
  "\<forall>i. px_answers s i \<in> {0, - EAGAIN} \<Longrightarrow> k < length buf \<Longrightarrow> sendall_loop fd buf k s = None"
  unfolding sendall_loop_def by (rule send.transfer_blocks)

lemma sendall_loop_returns: "socket_moves m s \<Longrightarrow> \<exists>x. sendall_loop fd buf k s = Some x"
  unfolding sendall_loop_def by (elim socket_next_exists [THEN exE]) (rule send.transfer_returns)

section \<open>Framing\<close>

text \<open>The text received and not yet taken, and when the buffer is consistent.\<close>

definition unread :: "IPCConnection \<Rightarrow> string" where
  "unread conn = take (recv_len conn) (recv_buffer conn)"

definition conn_wf :: "IPCConnection \<Rightarrow> bool" where
  "conn_wf conn \<longleftrightarrow> length (recv_buffer conn) = RECV_BUFFER_SIZE \<and> recv_len conn < RECV_BUFFER_SIZE \<and>
     recv_buffer conn ! recv_len conn = NUL"

lemma unread_length: "conn_wf conn \<Longrightarrow> length (unread conn) = recv_len conn"
  by (simp add: conn_wf_def unread_def)

lemma buffer_split:
  assumes "conn_wf conn"
  shows "recv_buffer conn = unread conn @ NUL # drop (Suc (recv_len conn)) (recv_buffer conn)"
  using assms id_take_nth_drop [of "recv_len conn" "recv_buffer conn"] by (simp add: conn_wf_def unread_def)

lemma store_received_wf:
  assumes "conn_wf conn" and "recv_len conn + length bs < RECV_BUFFER_SIZE"
  shows "conn_wf (store_received bs conn)" "unread (store_received bs conn) = unread conn @ bs"
  using assms by (auto simp: conn_wf_def unread_def store_received_def Let_def)

text \<open>The text that the next call receives.\<close>

definition incoming :: "IPCConnection \<Rightarrow> posix \<Rightarrow> string" where
  "incoming conn s =
    (if client_fd conn \<noteq> - 1 \<and> recv_len conn < RECV_BUFFER_SIZE - 1
     then case px_received s (px_recvs s) of
            Received bs \<Rightarrow> take (RECV_BUFFER_SIZE - recv_len conn - 1) bs
          | Recv_error e \<Rightarrow> []
     else [])"

text \<open>Either the incoming text is stored, or there is none and at most the client is given up.\<close>

lemma recv_more_cases:
  assumes "recv_more conn s = (ok, conn', s')" and "client_fd conn \<noteq> - 1"
  shows "px_ub s' = px_ub s \<and>
    (ok \<and> conn' = store_received (incoming conn s) conn \<and> recv_len conn < RECV_BUFFER_SIZE - 1 \<or>
     incoming conn s = [] \<and> (conn' = conn \<or> \<not> ok \<and> conn' = conn\<lparr>client_fd := - 1\<rparr>))"
proof (cases "recv_len conn < RECV_BUFFER_SIZE - 1")
  case True
  show ?thesis
  proof (cases "px_received s (px_recvs s)")
    case (Received bs)
    then show ?thesis
      using assms True by (auto simp: recv_more_def px_recv_def incoming_def px_close_def split: if_splits)
  next
    case (Recv_error e)
    then show ?thesis
      using assms True by (auto simp: recv_more_def px_recv_def incoming_def px_close_def split: if_splits)
  qed
next
  case False
  then show ?thesis using assms by (simp add: recv_more_def incoming_def)
qed

lemma recv_more_wf:
  assumes "conn_wf conn" and "client_fd conn \<noteq> - 1" and "recv_more conn s = (ok, conn', s')"
  shows "conn_wf conn'" "unread conn' = unread conn @ incoming conn s" "px_ub s' = px_ub s"
    "ok \<Longrightarrow> client_fd conn' = client_fd conn"
proof -
  have drop_fd: "conn_wf (conn\<lparr>client_fd := - 1\<rparr>)" "unread (conn\<lparr>client_fd := - 1\<rparr>) = unread conn"
    using assms(1) by (simp_all add: conn_wf_def unread_def)
  have room: "recv_len conn + length (incoming conn s) < RECV_BUFFER_SIZE" if "recv_len conn < RECV_BUFFER_SIZE - 1"
    using that by (auto simp: incoming_def split: received.split)
  note c = conjunct1 [OF recv_more_cases [OF assms(3,2)]] conjunct2 [OF recv_more_cases [OF assms(3,2)]]
    and st = store_received_wf [OF assms(1) room]
  show "px_ub s' = px_ub s" by (rule c(1))
  show "conn_wf conn'" using c(2) st(1) drop_fd(1) assms(1) by auto
  show "unread conn' = unread conn @ incoming conn s" using c(2) st(2) drop_fd(2) by auto
  show "ok \<Longrightarrow> client_fd conn' = client_fd conn"
    using c(2) by (auto simp: store_received_def Let_def)
qed

lemma unread_no_nul_c_str:
  assumes "conn_wf conn" and "NUL \<notin> set (unread conn)"
  shows "c_str (recv_buffer conn) = unread conn"
  using buffer_split [OF assms(1)] c_str_append_nul [OF assms(2)] by metis

text \<open>A complete line that fits the caller's buffer is taken out of the buffer, and nothing else.\<close>

lemma take_message_line:
  assumes "conn_wf conn" and "NUL \<notin> set (unread conn)" and "unread conn = line @ newline # rest"
    and "newline \<notin> set line" and "length line < buffsize"
  shows "\<exists>conn'. take_message buffsize conn s = (int (length line), Some line, conn', s) \<and>
    conn_wf conn' \<and> unread conn' = rest \<and> client_fd conn' = client_fd conn"
proof -
  have c: "c_str (recv_buffer conn) = line @ newline # rest"
    using unread_no_nul_c_str [OF assms(1,2)] assms(3) by simp
  have buf: "recv_buffer conn = line @ newline # rest @ NUL # drop (Suc (recv_len conn)) (recv_buffer conn)"
    using buffer_split [OF assms(1)] assms(3) by simp
  have len: "recv_len conn = length line + 1 + length rest"
    using unread_length [OF assms(1)] assms(3) by simp
  define tail where "tail = drop (Suc (recv_len conn)) (recv_buffer conn)"
  have buf': "recv_buffer conn = line @ newline # rest @ NUL # tail" using buf by (simp add: tail_def)
  have size: "length line + 2 + length rest + length tail = RECV_BUFFER_SIZE"
    using assms(1) buf' by (simp add: conn_wf_def)
  have moved: "take (length rest) (drop (Suc (length line)) (recv_buffer conn)) = rest"
    by (simp add: buf')
  have msg: "take (length line) (recv_buffer conn) = line" by (simp add: buf')
  show ?thesis
  proof (cases "rest = []")
    case True
    then show ?thesis using c len msg assms(4,5) size
      by (simp add: take_message_def strchr_append conn_wf_def unread_def Let_def nth_list_update buf')
  next
    case False
    then have "0 < length rest" by simp
    then show ?thesis using c len msg moved assms(4,5) size
      by (simp add: take_message_def strchr_append conn_wf_def unread_def Let_def move_to_front_def buf'
        nth_append)
  qed
qed

lemma take_message_none:
  assumes "conn_wf conn" and "newline \<notin> set (c_str (recv_buffer conn))"
  shows "take_message buffsize conn s = (0, None, conn, s)"
  using assms(2) by (simp add: take_message_def strchr_None [THEN iffD2])

text \<open>The complete lines of a text, and what follows the last newline.\<close>

fun split_lines :: "string \<Rightarrow> string list \<times> string" where
  "split_lines [] = ([], [])"
| "split_lines (c # cs) =
    (case split_lines cs of (ls, r) \<Rightarrow>
       if c = newline then ([] # ls, r)
       else case ls of [] \<Rightarrow> ([], c # r) | l # ls \<Rightarrow> ((c # l) # ls, r))"

lemma split_lines_line:
  "newline \<notin> set l \<Longrightarrow> split_lines (l @ newline # r) = (l # fst (split_lines r), snd (split_lines r))"
  by (induction l) (auto split: prod.splits)

lemma split_lines_no_newline: "newline \<notin> set r \<Longrightarrow> split_lines r = ([], r)"
  by (induction r) auto

lemma split_lines_prefix: "\<exists>ls. fst (split_lines (a @ b)) = fst (split_lines a) @ ls"
proof (induction a)
  case (Cons c a)
  then obtain ls where "fst (split_lines (a @ b)) = fst (split_lines a) @ ls" by blast
  then show ?case by (auto split: prod.splits list.splits simp: append_eq_Cons_conv)
qed simp

lemma newline_split:
  assumes "newline \<in> set xs"
  obtains l r where "xs = l @ newline # r" "newline \<notin> set l"
  using split_list_first [OF assms] by blast

lemma ipc_recv_message_step:
  assumes "conn_wf conn" and "ipc_recv_message b conn s = (r, m, conn', s')"
    and "NUL \<notin> set (unread conn @ incoming conn s)"
    and "\<forall>l\<in>set (fst (split_lines (unread conn @ incoming conn s))). length l < b"
  shows "conn_wf conn' \<and> px_ub s' = px_ub s \<and>
    (case m of None \<Rightarrow> unread conn' = unread conn @ incoming conn s
     | Some l \<Rightarrow> unread conn @ incoming conn s = l @ newline # unread conn' \<and> newline \<notin> set l)"
proof (cases "client_fd conn = - 1")
  case True
  then have "m = None" "conn' = conn" "s' = s" "incoming conn s = []"
    using assms(2) by (simp_all add: ipc_recv_message_def incoming_def)
  then show ?thesis using assms(1) by simp
next
  case False
  obtain ok c1 s1 where more: "recv_more conn s = (ok, c1, s1)" by (cases "recv_more conn s") auto
  note w = recv_more_wf [OF assms(1) False more]
  show ?thesis
  proof (cases ok)
    case False
    then show ?thesis using assms(2) more w \<open>client_fd conn \<noteq> - 1\<close> by (auto simp: ipc_recv_message_def)
  next
    case True
    then have t: "take_message b c1 s1 = (r, m, conn', s')"
      using assms(2) more \<open>client_fd conn \<noteq> - 1\<close> by (auto simp: ipc_recv_message_def)
    have nul: "NUL \<notin> set (unread c1)" using w(2) assms(3) by simp
    show ?thesis
    proof (cases "newline \<in> set (unread c1)")
      case False
      then show ?thesis
        using take_message_none [OF w(1)] unread_no_nul_c_str [OF w(1) nul] t w by auto
    next
      case True
      then obtain l rest where l: "unread c1 = l @ newline # rest" "newline \<notin> set l"
        by (rule newline_split)
      then have "length l < b" using assms(4) w(2) by (simp add: split_lines_line)
      from take_message_line [OF w(1) nul l this, of s1] show ?thesis using t w l by auto
    qed
  qed
qed

text \<open>The calls of a client that asks \<open>n\<close> times: the messages, the text that arrived meanwhile, and the
  states.\<close>

fun ipc_run :: "nat \<Rightarrow> nat \<Rightarrow> IPCConnection \<Rightarrow> posix \<Rightarrow> string list \<times> string \<times> IPCConnection \<times> posix" where
  "ipc_run b 0 conn s = ([], [], conn, s)"
| "ipc_run b (Suc n) conn s =
    (let arrived = incoming conn s;
         (_, m, conn, s) = ipc_recv_message b conn s;
         (ms, more, conn, s) = ipc_run b n conn s
     in ((case m of None \<Rightarrow> ms | Some x \<Rightarrow> x # ms), arrived @ more, conn, s))"

lemma ipc_run_lines:
  assumes "conn_wf conn" and "ipc_run b n conn s = (ms, arrived, conn', s')"
    and "NUL \<notin> set (unread conn @ arrived)"
    and "\<forall>l\<in>set (fst (split_lines (unread conn @ arrived))). length l < b"
  shows "conn_wf conn' \<and> px_ub s' = px_ub s \<and>
    split_lines (unread conn @ arrived) = (ms @ fst (split_lines (unread conn')), snd (split_lines (unread conn')))"
  using assms
proof (induction n arbitrary: conn s ms arrived)
  case (Suc n)
  obtain r m c1 s1 where step: "ipc_recv_message b conn s = (r, m, c1, s1)" by (metis prod_cases4)
  obtain ms1 more where run: "ipc_run b n c1 s1 = (ms1, more, conn', s')"
    using Suc.prems(2) step by (auto simp: Let_def split: prod.splits)
  have arrived: "arrived = incoming conn s @ more" and ms: "ms = (case m of None \<Rightarrow> ms1 | Some x \<Rightarrow> x # ms1)"
    using Suc.prems(2) step run by (auto simp: Let_def split: prod.splits)
  have "\<forall>l\<in>set (fst (split_lines (unread conn @ incoming conn s))). length l < b"
    using Suc.prems(4) split_lines_prefix [of "unread conn @ incoming conn s" more] arrived by auto
  note c = ipc_recv_message_step [OF Suc.prems(1) step _ this]
  show ?case
  proof (cases m)
    case None
    then have u: "unread c1 @ more = unread conn @ arrived" using c Suc.prems(3) arrived by simp
    show ?thesis using Suc.IH [OF _ run] c Suc.prems(3,4) None u ms arrived by auto
  next
    case (Some l)
    then have u: "unread conn @ arrived = l @ newline # unread c1 @ more" "newline \<notin> set l"
      using c Suc.prems(3) arrived by auto
    have sp: "split_lines (unread conn @ arrived)
        = (l # fst (split_lines (unread c1 @ more)), snd (split_lines (unread c1 @ more)))"
      unfolding u(1) by (rule split_lines_line [OF u(2)])
    have "NUL \<notin> set (unread c1 @ more)" using Suc.prems(3) u(1) by auto
    moreover have "\<forall>l\<in>set (fst (split_lines (unread c1 @ more))). length l < b"
      using Suc.prems(4) sp by simp
    ultimately show ?thesis using Suc.IH [OF _ run] c Suc.prems(3) Some sp ms arrived by auto
  qed
qed simp

text \<open>After a message that did not fit, a null character lies inside the received text, before every
  newline still to come: no message is found any more.\<close>

definition blocked :: "IPCConnection \<Rightarrow> bool" where
  "blocked conn \<longleftrightarrow> (\<exists>rest tail. recv_buffer conn = rest @ NUL # tail \<and> length rest < recv_len conn \<and>
     NUL \<notin> set rest \<and> newline \<notin> set rest)"

lemma recv_more_blocked:
  assumes "blocked conn" and "recv_more conn s = (ok, conn', s')"
  shows "blocked conn'"
proof -
  obtain rest tail where b: "recv_buffer conn = rest @ NUL # tail" "length rest < recv_len conn"
    "NUL \<notin> set rest" "newline \<notin> set rest"
    using assms(1) by (auto simp: blocked_def)
  have "blocked (store_received bs conn)" for bs
  proof -
    obtain m where m: "recv_len conn = Suc (length rest) + m" using b(2) less_iff_Suc_add by auto
    have "recv_buffer (store_received bs conn) = rest @ NUL #
        (take m tail @ bs @ drop (recv_len conn + length bs) (recv_buffer conn))[m + length bs := NUL]"
      by (simp add: store_received_def Let_def b(1) m list_update_append)
    then show ?thesis using b(2-4) by (auto simp: blocked_def store_received_def Let_def)
  qed
  moreover have "blocked (conn\<lparr>client_fd := fd\<rparr>)" for fd using assms(1) by (simp add: blocked_def)
  ultimately show ?thesis using assms
    by (auto simp: recv_more_def split: if_splits prod.splits received.splits)
qed

lemma blocked_no_message:
  assumes "blocked conn" and "ipc_recv_message b conn s = (r, m, conn', s')"
  shows "m = None \<and> blocked conn'"
proof (cases "client_fd conn = - 1")
  case True
  then show ?thesis using assms by (simp add: ipc_recv_message_def)
next
  case False
  obtain ok c1 s1 where more: "recv_more conn s = (ok, c1, s1)" by (cases "recv_more conn s") auto
  have c1: "blocked c1" by (rule recv_more_blocked [OF assms(1) more])
  then have "newline \<notin> set (c_str (recv_buffer c1))"
    by (auto simp: blocked_def c_str_append_nul)
  then have "take_message b c1 s1 = (0, None, c1, s1)"
    by (simp add: take_message_def strchr_None [THEN iffD2])
  then show ?thesis using assms(2) False more c1 by (cases ok) (simp_all add: ipc_recv_message_def)
qed

lemma blocked_run: "blocked conn \<Longrightarrow> fst (ipc_run b n conn s) = []"
proof (induction n arbitrary: conn s)
  case (Suc n)
  obtain r m c1 s1 where step: "ipc_recv_message b conn s = (r, m, c1, s1)" by (metis prod_cases4)
  show ?case using blocked_no_message [OF Suc.prems step] Suc.IH [of c1 s1] step
    by (auto simp: Let_def split: prod.splits)
qed simp

lemma take_message_too_long:
  assumes "conn_wf conn" and "NUL \<notin> set (unread conn)" and "unread conn = line @ newline # rest"
    and "newline \<notin> set line" and "newline \<notin> set rest" and "0 < b" and "b \<le> length line"
  shows "\<exists>conn' s'. take_message b conn s = (int (b - 1), Some (take (b - 1) line), conn', s') \<and> blocked conn'"
proof -
  have c: "c_str (recv_buffer conn) = line @ newline # rest"
    using unread_no_nul_c_str [OF assms(1,2)] assms(3) by simp
  define tail where "tail = drop (Suc (recv_len conn)) (recv_buffer conn)"
  have buf: "recv_buffer conn = line @ newline # rest @ NUL # tail"
    using buffer_split [OF assms(1)] assms(3) by (simp add: tail_def)
  have len: "recv_len conn = length line + 1 + length rest"
    using unread_length [OF assms(1)] assms(3) by simp
  define n where "n = recv_len conn - b"
  define k where "k = length line - b"
  have n: "n = Suc (length rest + k)" "recv_len conn - (b - 1 + 1) = n" "b < recv_len conn"
    using len assms(6,7) by (simp_all add: n_def k_def)
  have moved: "take n (drop (Suc (length line)) (recv_buffer conn)) = rest @ NUL # take k tail"
    by (simp add: buf n(1))
  let ?moved = "rest @ NUL # take k tail"
  let ?buf = "(?moved @ drop (length ?moved) (recv_buffer conn))[n := NUL]"
  let ?conn = "conn\<lparr>recv_len := n, recv_buffer := ?buf\<rparr>"
  have "?buf = rest @ NUL # (take k tail @ drop (length ?moved) (recv_buffer conn))[k := NUL]"
    by (simp add: n(1) list_update_append)
  then have "blocked ?conn" using n(1) assms(2,3,5) by (auto simp: blocked_def)
  moreover have "take (b - 1) (recv_buffer conn) = take (b - 1) line" using assms(6,7) by (simp add: buf)
  ultimately show ?thesis
    using c assms(4,6,7) n moved
    by (simp add: take_message_def strchr_append Let_def move_to_front_def case_prod_beta)
qed

section \<open>Properties\<close>

text \<open>A connected client whose socket yields the same text with every call.\<close>

definition demo_conn :: IPCConnection where
  "demo_conn = \<lparr>server_fd = 3, client_fd = 4, recv_buffer = replicate RECV_BUFFER_SIZE NUL, recv_len = 0\<rparr>"

definition demo_px :: "int \<Rightarrow> string \<Rightarrow> posix" where
  "demo_px answer piece = px_start (\<lambda>_. answer) (\<lambda>_. Received piece)"

lemma demo_conn_wf: "conn_wf demo_conn" "client_fd demo_conn \<noteq> - 1" "unread demo_conn = []"
  by (simp_all add: conn_wf_def demo_conn_def RECV_BUFFER_SIZE_def unread_def)

lemma demo_incoming: "length piece < RECV_BUFFER_SIZE \<Longrightarrow> incoming demo_conn (demo_px r piece) = piece"
  by (simp add: incoming_def demo_conn_def demo_px_def px_start_def RECV_BUFFER_SIZE_def)

text \<open>C27. The messages received are the lines of what arrives: however the text is cut into pieces by the
  socket, the calls that ask for messages return its complete lines, each once and in order, and what
  is not returned yet is still in the buffer, provided that the text has no null character and every
  line fits the caller's buffer.\<close>

lemma ipc_messages_are_lines:
  assumes "conn_wf conn" and "ipc_run b n conn s = (ms, arrived, conn', s')"
    and "NUL \<notin> set (unread conn @ arrived)"
    and "\<forall>l\<in>set (fst (split_lines (unread conn @ arrived))). length l < b"
  shows "split_lines (unread conn @ arrived)
      = (ms @ fst (split_lines (unread conn')), snd (split_lines (unread conn'))) \<and>
    conn_wf conn' \<and> px_ub s' = px_ub s"
  using ipc_run_lines [OF assms] by simp

lemma ipc_messages_are_lines_witness:
  "\<exists>ms conn' s'. ipc_run 8 1 demo_conn (demo_px 0 (''a'' @ newline # ''b'')) = (ms, (''a'' @ newline # ''b''), conn', s') \<and>
     ms @ fst (split_lines (unread conn')) = [''a'']"
proof -
  obtain ms arrived conn' s' where r: "ipc_run 8 1 demo_conn (demo_px 0 (''a'' @ newline # ''b'')) = (ms, arrived, conn', s')"
    by (metis prod_cases4)
  then have a: "arrived = (''a'' @ newline # ''b'')"
    by (auto simp: Let_def demo_incoming RECV_BUFFER_SIZE_def split: prod.splits)
  from ipc_messages_are_lines [OF demo_conn_wf(1) r, unfolded a demo_conn_wf(3)]
  have "ms @ fst (split_lines (unread conn')) = [''a'']" by simp
  then show ?thesis using r a by blast
qed

text \<open>C33. A message that does not fit the caller's buffer, and behind which no further complete line has
  been received yet, ends the conversation, if nothing received contains a null character: it is
  returned cut to the size of the buffer, and then what is moved to the front of the receive buffer is more than the text
  behind it, with a null character before everything that arrives later, so that no later call ever
  finds a message again.\<close>

lemma ipc_long_message_blocks:
  assumes "conn_wf conn" and "client_fd conn \<noteq> - 1" and "fst (recv_more conn s)"
    and "unread conn @ incoming conn s = line @ newline # rest" and "NUL \<notin> set (line @ rest)"
    and "newline \<notin> set (line @ rest)" and "0 < b" and "b \<le> length line"
  shows "\<exists>conn' s'. ipc_recv_message b conn s = (int (b - 1), Some (take (b - 1) line), conn', s') \<and>
    (\<forall>n. fst (ipc_run b n conn' s') = [])"
proof -
  obtain c1 s1 where more: "recv_more conn s = (True, c1, s1)"
    using assms(3) by (cases "recv_more conn s") auto
  note w = recv_more_wf [OF assms(1,2) more]
  have u: "unread c1 = line @ newline # rest" using w(2) assms(4) by simp
  have "NUL \<notin> set (unread c1)" "newline \<notin> set line" "newline \<notin> set rest" using u assms(5,6) by auto
  from take_message_too_long [OF w(1) this(1) u this(2,3) assms(7,8), of s1]
  show ?thesis using more assms(2) blocked_run by (auto simp: ipc_recv_message_def)
qed

lemma ipc_long_message_blocks_witness:
  "\<exists>conn' s'. ipc_recv_message 2 demo_conn (demo_px 0 (''abc'' @ [newline])) = (1, Some ''a'', conn', s') \<and>
     (\<forall>n. fst (ipc_run 2 n conn' s') = [])"
proof -
  have "fst (recv_more demo_conn (demo_px 0 (''abc'' @ [newline])))"
    by (simp add: recv_more_def px_recv_def demo_conn_def demo_px_def px_start_def RECV_BUFFER_SIZE_def)
  moreover have "unread demo_conn @ incoming demo_conn (demo_px 0 (''abc'' @ [newline])) = ''abc'' @ newline # []"
    using demo_conn_wf(3) by (simp add: demo_incoming RECV_BUFFER_SIZE_def)
  ultimately show ?thesis
    using ipc_long_message_blocks [OF demo_conn_wf(1,2), of "demo_px 0 (''abc'' @ [newline])" "''abc''" "[]" 2] by simp
qed

text \<open>Sending a command: if the socket takes something or fails again and again, the call returns; when it
  reports success the whole text has been sent, once and in order, and when it reports an error a
  proper part of it has; but on a socket that takes nothing for ever it does not return.\<close>

lemma sendall_delivers:
  "(case sendall fd buf s of
      None \<Rightarrow> (\<forall>m. \<not> socket_moves m s)
    | Some (r, s') \<Rightarrow> (\<exists>j. px_sent s' = (px_sent s)(fd := px_sent s fd @ take j buf) \<and>
        (r = 0 \<and> j = length buf \<or> r = - 1 \<and> j < length buf))) \<and>
   (buf = [] \<or> (\<exists>i. px_answers s i \<noteq> - EAGAIN) \<or> sendall fd buf s = None)"
proof (intro conjI)
  show "case sendall fd buf s of
      None \<Rightarrow> (\<forall>m. \<not> socket_moves m s)
    | Some (r, s') \<Rightarrow> (\<exists>j. px_sent s' = (px_sent s)(fd := px_sent s fd @ take j buf) \<and>
        (r = 0 \<and> j = length buf \<or> r = - 1 \<and> j < length buf))"
    using sendall_loop_returns [of _ s fd buf 0] sendall_loop_sent [of fd buf 0 s]
    by (cases "sendall fd buf s") (auto simp: sendall_def has_sent_def)
  show "buf = [] \<or> (\<exists>i. px_answers s i \<noteq> - EAGAIN) \<or> sendall fd buf s = None"
  proof -
    have "(\<forall>i. px_answers s i = - EAGAIN) \<and> buf \<noteq> [] \<longrightarrow> sendall fd buf s = None"
      using sendall_loop_blocked [of s 0 buf fd] by (simp add: sendall_def)
    then show ?thesis by (metis (full_types))
  qed
qed

lemma sendall_delivers_witness:
  "sendall 3 ''hi'' (demo_px (- 11) []) = None \<and> (\<exists>x. sendall 3 ''hi'' (demo_px 1 []) = Some x)"
proof
  have "\<forall>i. px_answers (demo_px (- 11) []) i = - EAGAIN" by (simp add: demo_px_def px_start_def EAGAIN_def)
  then show "sendall 3 ''hi'' (demo_px (- 11) []) = None"
    using sendall_delivers [where fd = 3 and buf = "''hi''" and s = "demo_px (- 11) []"] by blast
  have "socket_moves 0 (demo_px 1 [])" by (simp add: socket_moves_def demo_px_def px_start_def EAGAIN_def)
  then show "\<exists>x. sendall 3 ''hi'' (demo_px 1 []) = Some x"
    using sendall_delivers [where fd = 3 and buf = "''hi''" and s = "demo_px 1 []"] by (auto split: option.splits)
qed

end
