(* ===== verification/WebSocket.thy ===== *)
theory WebSocket
  imports Posix UtilQueue
begin

text \<open>
  The WebSocket server for the Android application, \<^verbatim>\<open>src/pi-streaming/websocket_server.c\<close>: one client,
  and a ring buffer of 256 messages that loses its oldest message when a message comes while it is full.

  The library libwebsockets is a parameter: the state \<open>lws\<close> holds the callbacks that its \<open>n\<close>-th round of
  service delivers, what its calls answer, and its constant \<open>LWS_PRE\<close>; it records the texts handed to it
  for each connection, the connections that wait for a writeable callback and those being closed. A
  connection is a number, \<open>0\<close> for null. The state of the server is an extensible record: what the
  callbacks of the server's user work on is an extension of it, as \<^verbatim>\<open>callback_user_data\<close> is in the code.
\<close>

section \<open>State\<close>

definition WS_MAX_MSG_SIZE :: nat where "WS_MAX_MSG_SIZE = 4096"
definition WS_QUEUE_SIZE :: nat where "WS_QUEUE_SIZE = 256"

datatype lws_event =
    LWS_CALLBACK_PROTOCOL_INIT
  | LWS_CALLBACK_ESTABLISHED nat
  | LWS_CALLBACK_CLOSED nat
  | LWS_CALLBACK_SERVER_WRITEABLE nat
  | LWS_CALLBACK_RECEIVE nat string

record lws =
  lws_PRE :: nat
  lws_answers :: "nat \<Rightarrow> int"
  lws_asked :: nat
  lws_events :: "nat \<Rightarrow> lws_event list"
  lws_rounds :: nat
  lws_written :: "(nat \<times> string) list"
  lws_waiting :: "nat list"
  lws_closing :: "nat list"

record WsQueuedMessage =
  msg_data :: string
  msg_len :: nat

record WebSocketServer =
  ws_lws :: lws
  ws_context :: bool
  client_wsi :: nat
  ws_port :: int
  ws_running :: bool
  client_connected :: bool
  ws_on_connect :: bool
  ws_on_disconnect :: bool
  ws_queue :: "WsQueuedMessage list option"
  queue_head :: nat
  queue_tail :: nat
  queue_count :: nat
  queue_dropped :: nat

text \<open>The calls of the library.\<close>

definition lws_ask :: "lws \<Rightarrow> int \<times> lws" where
  "lws_ask l = (lws_answers l (lws_asked l), l\<lparr>lws_asked := Suc (lws_asked l)\<rparr>)"

definition lws_callback_on_writable :: "nat \<Rightarrow> 'a WebSocketServer_scheme \<Rightarrow> 'a WebSocketServer_scheme" where
  "lws_callback_on_writable wsi ws =
    ws\<lparr>ws_lws := (ws_lws ws)\<lparr>lws_waiting := wsi # lws_waiting (ws_lws ws)\<rparr>\<rparr>"

definition lws_set_timeout :: "nat \<Rightarrow> 'a WebSocketServer_scheme \<Rightarrow> 'a WebSocketServer_scheme" where
  "lws_set_timeout wsi ws =
    ws\<lparr>ws_lws := (ws_lws ws)\<lparr>lws_closing := wsi # lws_closing (ws_lws ws)\<rparr>\<rparr>"

definition lws_write :: "nat \<Rightarrow> string \<Rightarrow> 'a WebSocketServer_scheme \<Rightarrow> int \<times> 'a WebSocketServer_scheme" where
  "lws_write wsi text ws =
    (let (r, l) = lws_ask (ws_lws ws)
     in (r, ws\<lparr>ws_lws := l\<lparr>lws_written := lws_written l @ [(wsi, text)]\<rparr>\<rparr>))"

section \<open>The protocol callback\<close>

definition ws_clear_queue :: "'a WebSocketServer_scheme \<Rightarrow> 'a WebSocketServer_scheme" where
  "ws_clear_queue ws = ws\<lparr>queue_head := 0, queue_tail := 0, queue_count := 0\<rparr>"

text \<open>The callbacks of the user take the whole state and may not return.\<close>

definition ws_established ::
    "('a WebSocketServer_scheme \<Rightarrow> 'a WebSocketServer_scheme option) \<Rightarrow>
     ('a WebSocketServer_scheme \<Rightarrow> 'a WebSocketServer_scheme option) \<Rightarrow>
     nat \<Rightarrow> 'a WebSocketServer_scheme \<Rightarrow> 'a WebSocketServer_scheme option" where
  "ws_established connect disconnect wsi ws =
    do {
      ws \<leftarrow> (if client_connected ws \<and> client_wsi ws \<noteq> 0 \<and> client_wsi ws \<noteq> wsi
            then do {
              let old_wsi = client_wsi ws;
              let ws = ws_clear_queue (ws\<lparr>client_wsi := 0, client_connected := False\<rparr>);
              ws \<leftarrow> (if ws_on_disconnect ws then disconnect ws else Some ws);
              Some (lws_set_timeout old_wsi ws)
            }
            else Some ws);
      let ws = ws\<lparr>client_wsi := wsi, client_connected := True\<rparr>;
      if ws_on_connect ws then connect ws else Some ws
    }"

definition ws_closed ::
    "('a WebSocketServer_scheme \<Rightarrow> 'a WebSocketServer_scheme option) \<Rightarrow>
     nat \<Rightarrow> 'a WebSocketServer_scheme \<Rightarrow> 'a WebSocketServer_scheme option" where
  "ws_closed disconnect wsi ws =
    (if client_wsi ws = wsi
     then let ws = ws_clear_queue (ws\<lparr>client_wsi := 0, client_connected := False\<rparr>)
          in if ws_on_disconnect ws then disconnect ws else Some ws
     else Some ws)"

definition ws_writeable :: "nat \<Rightarrow> 'a WebSocketServer_scheme \<Rightarrow> 'a WebSocketServer_scheme" where
  "ws_writeable wsi ws =
    (if 0 < queue_count ws
     then let msg = the (ws_queue ws) ! queue_tail ws;
              len = (if WS_MAX_MSG_SIZE - lws_PRE (ws_lws ws) < msg_len msg
                     then WS_MAX_MSG_SIZE - lws_PRE (ws_lws ws) else msg_len msg);
              (written, ws) = lws_write wsi (take len (msg_data msg)) ws;
              ws = ws\<lparr>queue_tail := (queue_tail ws + 1) mod WS_QUEUE_SIZE\<rparr>;
              ws = ws\<lparr>queue_count := queue_count ws - 1\<rparr>
          in if 0 < queue_count ws then lws_callback_on_writable wsi ws else ws
     else ws)"

fun ws_callback ::
    "('a WebSocketServer_scheme \<Rightarrow> 'a WebSocketServer_scheme option) \<Rightarrow>
     ('a WebSocketServer_scheme \<Rightarrow> 'a WebSocketServer_scheme option) \<Rightarrow>
     lws_event \<Rightarrow> 'a WebSocketServer_scheme \<Rightarrow> 'a WebSocketServer_scheme option" where
  "ws_callback connect disconnect LWS_CALLBACK_PROTOCOL_INIT ws = Some ws"
| "ws_callback connect disconnect (LWS_CALLBACK_ESTABLISHED wsi) ws =
    (if wsi = 0 then Some ws else ws_established connect disconnect wsi ws)"
| "ws_callback connect disconnect (LWS_CALLBACK_CLOSED wsi) ws =
    (if wsi = 0 then Some ws else ws_closed disconnect wsi ws)"
| "ws_callback connect disconnect (LWS_CALLBACK_SERVER_WRITEABLE wsi) ws =
    (if wsi = 0 then Some ws else Some (ws_writeable wsi ws))"
| "ws_callback connect disconnect (LWS_CALLBACK_RECEIVE wsi text) ws = Some ws"

section \<open>Operations\<close>

text \<open>The server before its initialisation is whatever the memory holds.\<close>

definition ws_init :: "int \<Rightarrow> posix \<Rightarrow> 'a WebSocketServer_scheme \<Rightarrow> int \<times> 'a WebSocketServer_scheme \<times> posix" where
  "ws_init port s ws =
    (let ws = ws\<lparr>ws_context := False, client_wsi := 0, ws_port := port, ws_running := False,
                 client_connected := False, ws_on_connect := False, ws_on_disconnect := False,
                 ws_queue := None, queue_head := 0, queue_tail := 0, queue_count := 0, queue_dropped := 0\<rparr>;
         (r, s) = px_ask s
     in if r = 0 then (- 1, ws, s)
        else let ws = ws\<lparr>ws_queue := Some (replicate WS_QUEUE_SIZE
                          \<lparr>msg_data = replicate WS_MAX_MSG_SIZE NUL, msg_len = 0\<rparr>)\<rparr>;
                 (r, l) = lws_ask (ws_lws ws);
                 ws = ws\<lparr>ws_lws := l\<rparr>
        in if r = 0 then (- 1, ws, s)
           else (0, ws\<lparr>ws_context := True, ws_running := True\<rparr>, s))"

definition ws_set_callbacks :: "bool \<Rightarrow> bool \<Rightarrow> 'a WebSocketServer_scheme \<Rightarrow> 'a WebSocketServer_scheme" where
  "ws_set_callbacks on_connect on_disconnect ws =
    ws\<lparr>ws_on_connect := on_connect, ws_on_disconnect := on_disconnect\<rparr>"

fun lws_dispatch ::
    "(lws_event \<Rightarrow> 'a WebSocketServer_scheme \<Rightarrow> 'a WebSocketServer_scheme option) \<Rightarrow> lws_event list \<Rightarrow>
     'a WebSocketServer_scheme \<Rightarrow> 'a WebSocketServer_scheme option" where
  "lws_dispatch cb [] ws = Some ws"
| "lws_dispatch cb (e # es) ws = do { ws \<leftarrow> cb e ws; lws_dispatch cb es ws }"

definition ws_service ::
    "(lws_event \<Rightarrow> 'a WebSocketServer_scheme \<Rightarrow> 'a WebSocketServer_scheme option) \<Rightarrow>
     'a WebSocketServer_scheme \<Rightarrow> (int \<times> 'a WebSocketServer_scheme) option" where
  "ws_service cb ws =
    (if \<not> ws_running ws \<or> \<not> ws_context ws then Some (- 1, ws)
     else let l = ws_lws ws;
              ws = ws\<lparr>ws_lws := l\<lparr>lws_rounds := Suc (lws_rounds l)\<rparr>\<rparr>
          in do {
            ws \<leftarrow> lws_dispatch cb (lws_events l (lws_rounds l)) ws;
            let (r, l) = lws_ask (ws_lws ws);
            Some (r, ws\<lparr>ws_lws := l\<rparr>)
          })"

definition ws_is_client_connected :: "'a WebSocketServer_scheme \<Rightarrow> bool" where
  "ws_is_client_connected ws = client_connected ws"

definition ws_queue_message :: "string \<Rightarrow> 'a WebSocketServer_scheme \<Rightarrow> int \<times> 'a WebSocketServer_scheme" where
  "ws_queue_message data ws =
    (if \<not> client_connected ws \<or> client_wsi ws = 0 \<or> ws_queue ws = None then (- 1, ws)
     else if WS_MAX_MSG_SIZE \<le> length data then (- 1, ws)
     else let ws = (if WS_QUEUE_SIZE \<le> queue_count ws
                    then ws\<lparr>queue_tail := (queue_tail ws + 1) mod WS_QUEUE_SIZE,
                            queue_count := queue_count ws - 1,
                            queue_dropped := queue_dropped ws + 1\<rparr>
                    else ws);
              queue = the (ws_queue ws);
              msg = queue ! queue_head ws;
              msg = msg\<lparr>msg_data := data @ drop (length data) (msg_data msg), msg_len := length data\<rparr>;
              ws = ws\<lparr>ws_queue := Some (queue[queue_head ws := msg])\<rparr>;
              ws = ws\<lparr>queue_head := (queue_head ws + 1) mod WS_QUEUE_SIZE,
                      queue_count := queue_count ws + 1\<rparr>
          in (0, lws_callback_on_writable (client_wsi ws) ws))"

definition ws_send :: "string \<Rightarrow> 'a WebSocketServer_scheme \<Rightarrow> int \<times> 'a WebSocketServer_scheme" where
  "ws_send message ws = ws_queue_message message ws"

definition ws_send_json :: "string \<Rightarrow> 'a WebSocketServer_scheme \<Rightarrow> int \<times> 'a WebSocketServer_scheme" where
  "ws_send_json json ws = ws_queue_message json ws"

definition ws_get_poll_fd :: "'a WebSocketServer_scheme \<Rightarrow> int" where
  "ws_get_poll_fd ws = - 1"

definition ws_cleanup :: "'a WebSocketServer_scheme \<Rightarrow> 'a WebSocketServer_scheme" where
  "ws_cleanup ws =
    (let ws = (if ws_context ws then ws\<lparr>ws_context := False\<rparr> else ws);
         ws = (if ws_queue ws \<noteq> None then ws\<lparr>ws_queue := None\<rparr> else ws)
     in ws\<lparr>ws_running := False, client_connected := False, client_wsi := 0, queue_head := 0,
           queue_tail := 0, queue_count := 0\<rparr>)"

section \<open>The contract of a queue that keeps the latest messages\<close>

text \<open>A message comes, or a consumer asks for one. A run gives what was taken, by whom, and the queue after it.\<close>

datatype ('a, 'c) latest_op = Put 'a | Take 'c

fun latest_run ::
    "('a \<Rightarrow> 'q \<Rightarrow> 'q) \<Rightarrow> ('c \<Rightarrow> 'q \<Rightarrow> ('a \<times> 'q) option) \<Rightarrow> ('a, 'c) latest_op list \<Rightarrow> 'q \<Rightarrow> ('c \<times> 'a) list \<times> 'q" where
  "latest_run put get [] q = ([], q)"
| "latest_run put get (Put x # ops) q = latest_run put get ops (put x q)"
| "latest_run put get (Take c # ops) q =
    (case get c q of
       None \<Rightarrow> latest_run put get ops q
     | Some (x, q') \<Rightarrow> (let (out, q'') = latest_run put get ops q' in ((c, x) # out, q'')))"

fun puts :: "('a, 'c) latest_op list \<Rightarrow> 'a list" where
  "puts [] = []"
| "puts (Put x # ops) = x # puts ops"
| "puts (Take c # ops) = puts ops"

locale latest_queue =
  fixes inv :: "'q \<Rightarrow> bool"
    and contents :: "'q \<Rightarrow> 'a list"
    and cap :: nat
    and admissible :: "'a \<Rightarrow> bool"
    and consumer :: "'c \<Rightarrow> bool"
    and put :: "'a \<Rightarrow> 'q \<Rightarrow> 'q"
    and get :: "'c \<Rightarrow> 'q \<Rightarrow> ('a \<times> 'q) option"
  assumes bounded: "inv q \<Longrightarrow> length (contents q) \<le> cap"
    and put_law: "inv q \<Longrightarrow> admissible x \<Longrightarrow> inv (put x q) \<and>
      contents (put x q) = (if length (contents q) = cap then tl (contents q) else contents q) @ [x]"
    and get_none: "inv q \<Longrightarrow> contents q = [] \<or> \<not> consumer c \<Longrightarrow> get c q = None"
    and get_law: "inv q \<Longrightarrow> consumer c \<Longrightarrow> contents q = y # ys \<Longrightarrow>
      \<exists>q'. get c q = Some (y, q') \<and> inv q' \<and> contents q' = ys"
begin

lemma put_suffix:
  assumes "inv q" and "admissible x"
  shows "suffix (contents (put x q)) (contents q @ [x])"
  using put_law [OF assms] by (cases "contents q") (auto simp: suffix_def)

lemma get_cases:
  assumes "inv q" and "get c q = Some (y, q')"
  shows "inv q'" "contents q = y # contents q'"
proof -
  have c: "consumer c" using get_none [OF assms(1)] assms(2) by fastforce
  show "inv q'" "contents q = y # contents q'"
    using get_none [OF assms(1)] get_law [OF assms(1) c] assms(2) by (cases "contents q"; fastforce)+
qed

text \<open>Messages come out in order, and those waiting are the latest ones.\<close>

lemma order:
  assumes "inv q" and "\<forall>x\<in>set (puts ops). admissible x" and "latest_run put get ops q = (out, q')"
  shows "inv q' \<and> subseq (map snd out @ contents q') (contents q @ puts ops) \<and>
    suffix (contents q') (contents q @ puts ops)"
  using assms
proof (induction ops arbitrary: q out)
  case (Cons op ops)
  show ?case
  proof (cases op)
    case (Put x)
    have x: "admissible x" using Cons.prems(2) Put by simp
    note s = put_suffix [OF Cons.prems(1) x]
    have i: "inv (put x q)" using put_law [OF Cons.prems(1) x] by simp
    from Cons.IH [OF i] have ih: "inv q'"
      "subseq (map snd out @ contents q') (contents (put x q) @ puts ops)"
      "suffix (contents q') (contents (put x q) @ puts ops)"
      using Cons.prems(2,3) Put by auto
    have "suffix (contents (put x q) @ puts ops) (contents q @ [x] @ puts ops)"
      using s by (auto simp: suffix_def)
    then show ?thesis using ih Put suffix_imp_subseq suffix_order.order_trans subseq_order.order_trans
      by (metis append_Cons append_Nil puts.simps(2))
  next
    case (Take c)
    show ?thesis
    proof (cases "get c q")
      case None
      then show ?thesis using Cons Take by auto
    next
      case (Some yq)
      then obtain y q1 where g: "get c q = Some (y, q1)" by (cases yq) auto
      note gc = get_cases [OF Cons.prems(1) g]
      obtain out1 where r: "latest_run put get ops q1 = (out1, q')" and out: "out = (c, y) # out1"
        using Cons.prems(3) Take g by (auto split: prod.splits)
      from Cons.IH [OF gc(1) _ r] Cons.prems(2) Take
      have "inv q'" "subseq (map snd out1 @ contents q') (contents q1 @ puts ops)"
        "suffix (contents q') (contents q1 @ puts ops)" by auto
      then show ?thesis using gc(2) out Take by (auto simp: suffix_Cons)
    qed
  qed
qed auto

text \<open>Nothing is lost before the queue is full.\<close>

lemma lossless:
  assumes "inv q" and "\<forall>x\<in>set (puts ops). admissible x" and "latest_run put get ops q = (out, q')"
    and "length (contents q) + length (puts ops) \<le> cap"
  shows "map snd out @ contents q' = contents q @ puts ops"
  using assms
proof (induction ops arbitrary: q out)
  case (Cons op ops)
  show ?case
  proof (cases op)
    case (Put x)
    then have "contents (put x q) = contents q @ [x]" "inv (put x q)"
      using put_law [of q x] Cons.prems by auto
    then show ?thesis using Cons.IH [of "put x q" out] Cons.prems Put by simp
  next
    case (Take c)
    show ?thesis
    proof (cases "get c q")
      case None
      then show ?thesis using Cons Take by auto
    next
      case (Some yq)
      then obtain y q1 where g: "get c q = Some (y, q1)" by (cases yq) auto
      note gc = get_cases [OF Cons.prems(1) g]
      obtain out1 where r: "latest_run put get ops q1 = (out1, q')" and out: "out = (c, y) # out1"
        using Cons.prems(3) Take g by (auto split: prod.splits)
      then show ?thesis using Cons.IH [OF gc(1) _ r] gc(2) Cons.prems(2,4) Take by auto
    qed
  qed
qed simp

end

section \<open>The contract of the user of the server\<close>

lemma ws_writeable_result:
  "0 < queue_count ws \<Longrightarrow> \<exists>l. ws_writeable wsi ws =
    (ws\<lparr>queue_tail := (queue_tail ws + 1) mod WS_QUEUE_SIZE, queue_count := queue_count ws - 1\<rparr>)\<lparr>ws_lws := l\<rparr>"
  by (rule exI [of _ "ws_lws (ws_writeable wsi ws)"], rule WebSocketServer.equality)
    (auto simp: ws_writeable_def lws_write_def lws_callback_on_writable_def lws_ask_def Let_def)

lemma ws_clear_queue_frame [simp]:
  "ws_on_connect (ws_clear_queue ws) = ws_on_connect ws" "ws_on_disconnect (ws_clear_queue ws) = ws_on_disconnect ws"
  "ws_lws (ws_clear_queue ws) = ws_lws ws"
  by (simp_all add: ws_clear_queue_def)

text \<open>An invariant of the state, kept by the two callbacks of the user and by what the server does besides calling
  them: taking a message from the queue and calling the library.\<close>

locale ws_user =
  fixes inv :: "'a WebSocketServer_scheme \<Rightarrow> bool"
    and connect :: "'a WebSocketServer_scheme \<Rightarrow> 'a WebSocketServer_scheme option"
    and disconnect :: "'a WebSocketServer_scheme \<Rightarrow> 'a WebSocketServer_scheme option"
  assumes registered: "inv ws \<Longrightarrow> ws_on_connect ws \<and> ws_on_disconnect ws"
    and library: "inv ws \<Longrightarrow> inv (ws\<lparr>ws_lws := l\<rparr>)"
    and taken: "inv ws \<Longrightarrow> 0 < queue_count ws \<Longrightarrow>
      inv (ws\<lparr>queue_tail := (queue_tail ws + 1) mod WS_QUEUE_SIZE, queue_count := queue_count ws - 1\<rparr>)"
    and connected: "inv ws \<Longrightarrow> wsi \<noteq> 0 \<Longrightarrow> connect (ws\<lparr>client_wsi := wsi, client_connected := True\<rparr>) = Some ws' \<Longrightarrow>
      inv ws'"
    and disconnected: "inv ws \<Longrightarrow>
      disconnect (ws_clear_queue (ws\<lparr>client_wsi := 0, client_connected := False\<rparr>)) = Some ws' \<Longrightarrow> inv ws'"
begin

lemma evicted:
  assumes "inv ws" and "disconnect (ws_clear_queue (ws\<lparr>client_wsi := 0, client_connected := False\<rparr>)) = Some ws0"
  shows "inv (lws_set_timeout wsi ws0)"
  using library [OF disconnected [OF assms]] by (simp add: lws_set_timeout_def)

lemma established:
  assumes "inv ws" and "wsi \<noteq> 0" and "ws_established connect disconnect wsi ws = Some ws'"
  shows "inv ws'"
proof -
  have "\<exists>ws1. inv ws1 \<and> (if ws_on_connect ws1 then connect (ws1\<lparr>client_wsi := wsi, client_connected := True\<rparr>)
      else Some (ws1\<lparr>client_wsi := wsi, client_connected := True\<rparr>)) = Some ws'"
  proof (cases "client_connected ws \<and> client_wsi ws \<noteq> 0 \<and> client_wsi ws \<noteq> wsi")
    case True
    then obtain ws0 where d: "disconnect (ws_clear_queue (ws\<lparr>client_wsi := 0, client_connected := False\<rparr>)) = Some ws0"
      and c: "(if ws_on_connect (lws_set_timeout (client_wsi ws) ws0)
        then connect ((lws_set_timeout (client_wsi ws) ws0)\<lparr>client_wsi := wsi, client_connected := True\<rparr>)
        else Some ((lws_set_timeout (client_wsi ws) ws0)\<lparr>client_wsi := wsi, client_connected := True\<rparr>)) = Some ws'"
      using assms(3) registered [OF assms(1)] by (auto simp: ws_established_def Let_def bind_eq_Some_conv)
    show ?thesis using evicted [OF assms(1) d] c by blast
  next
    case False
    then show ?thesis using assms(1,3)
      by (intro exI [of _ ws]) (auto simp: ws_established_def Let_def split: if_splits)
  qed
  then obtain ws1 where "inv ws1" "connect (ws1\<lparr>client_wsi := wsi, client_connected := True\<rparr>) = Some ws'"
    using registered by metis
  then show ?thesis using connected assms(2) by blast
qed

lemma closed:
  assumes "inv ws" and "ws_closed disconnect wsi ws = Some ws'"
  shows "inv ws'"
proof (cases "client_wsi ws = wsi")
  case True
  then have "disconnect (ws_clear_queue (ws\<lparr>client_wsi := 0, client_connected := False\<rparr>)) = Some ws'"
    using assms(2) registered [OF assms(1)] by (simp add: ws_closed_def Let_def)
  then show ?thesis by (rule disconnected [OF assms(1)])
next
  case False
  then show ?thesis using assms by (simp add: ws_closed_def)
qed

lemma writeable: "inv ws \<Longrightarrow> inv (ws_writeable wsi ws)"
proof (cases "0 < queue_count ws")
  case True
  assume i: "inv ws"
  obtain l where "ws_writeable wsi ws =
      (ws\<lparr>queue_tail := (queue_tail ws + 1) mod WS_QUEUE_SIZE, queue_count := queue_count ws - 1\<rparr>)\<lparr>ws_lws := l\<rparr>"
    using ws_writeable_result [OF True] by blast
  then show ?thesis using library [OF taken [OF i True]] by metis
qed (simp add: ws_writeable_def)

lemma callback:
  assumes "inv ws" and "ws_callback connect disconnect e ws = Some ws'"
  shows "inv ws'"
  using assms by (cases e) (auto dest: established closed intro: writeable split: if_splits)

lemma dispatch:
  assumes "inv ws" and "lws_dispatch (ws_callback connect disconnect) es ws = Some ws'"
  shows "inv ws'"
  using assms
proof (induction es arbitrary: ws)
  case (Cons e es)
  then obtain ws1 where "ws_callback connect disconnect e ws = Some ws1"
    "lws_dispatch (ws_callback connect disconnect) es ws1 = Some ws'"
    by (auto simp: bind_eq_Some_conv)
  then show ?case using Cons callback by blast
qed simp

lemma service:
  assumes "inv ws" and "ws_service (ws_callback connect disconnect) ws = Some (r, ws')"
  shows "inv ws'"
proof (cases "ws_running ws \<and> ws_context ws")
  case True
  obtain ws1 where "lws_dispatch (ws_callback connect disconnect) (lws_events (ws_lws ws) (lws_rounds (ws_lws ws)))
      (ws\<lparr>ws_lws := (ws_lws ws)\<lparr>lws_rounds := Suc (lws_rounds (ws_lws ws))\<rparr>\<rparr>) = Some ws1"
    and "\<exists>l. ws' = ws1\<lparr>ws_lws := l\<rparr>"
    using assms(2) True by (auto simp: ws_service_def lws_ask_def Let_def bind_eq_Some_conv)
  then show ?thesis using dispatch library assms(1) by blast
next
  case False
  then show ?thesis using assms by (auto simp: ws_service_def)
qed

end

section \<open>The message queue\<close>

text \<open>The waiting messages, oldest first.\<close>

definition ws_messages :: "'a WebSocketServer_scheme \<Rightarrow> string list" where
  "ws_messages ws =
    map (\<lambda>m. take (msg_len m) (msg_data m)) (ring_contents (the (ws_queue ws)) (queue_tail ws) (queue_count ws))"

definition ws_queue_wf :: "'a WebSocketServer_scheme \<Rightarrow> bool" where
  "ws_queue_wf ws \<longleftrightarrow>
    (\<exists>slots. ws_queue ws = Some slots \<and> length slots = WS_QUEUE_SIZE \<and>
      (\<forall>m\<in>set slots. length (msg_data m) = WS_MAX_MSG_SIZE)) \<and>
    queue_tail ws < WS_QUEUE_SIZE \<and> queue_count ws \<le> WS_QUEUE_SIZE \<and>
    queue_head ws = (queue_tail ws + queue_count ws) mod WS_QUEUE_SIZE"

text \<open>A server with a client, whose queue is consistent.\<close>

definition ws_serving :: "nat \<Rightarrow> nat \<Rightarrow> 'a WebSocketServer_scheme \<Rightarrow> bool" where
  "ws_serving wsi pre ws \<longleftrightarrow> ws_queue_wf ws \<and> client_connected ws \<and> client_wsi ws = wsi \<and> wsi \<noteq> 0 \<and>
     lws_PRE (ws_lws ws) = pre"

text \<open>The operations as the contract has them: queueing a message, and handling the writeable callback of a
  connection, which hands a text to the library. The code does not ask whether the connection is the one of its client:
  while the library closes a connection that was driven out, that connection takes messages as well.\<close>

definition ws_put :: "string \<Rightarrow> 'a WebSocketServer_scheme \<Rightarrow> 'a WebSocketServer_scheme" where
  "ws_put x ws = snd (ws_queue_message x ws)"

definition ws_get :: "nat \<Rightarrow> 'a WebSocketServer_scheme \<Rightarrow> (string \<times> 'a WebSocketServer_scheme) option" where
  "ws_get c ws =
    (if c = 0 \<or> queue_count ws = 0 then None
     else Some (hd (ws_messages ws), ws_writeable c ws))"

text \<open>This is the callback of the library.\<close>

lemma ws_get_callback:
  "ws_callback connect disconnect (LWS_CALLBACK_SERVER_WRITEABLE c) ws =
    Some (case ws_get c ws of None \<Rightarrow> ws | Some (_, ws') \<Rightarrow> ws')"
  by (simp add: ws_get_def ws_writeable_def)

lemma ws_writeable_written:
  assumes "ws_serving wsi pre ws" and "0 < queue_count ws"
  shows "lws_written (ws_lws (ws_writeable c ws))
    = lws_written (ws_lws ws) @ [(c, take (WS_MAX_MSG_SIZE - pre) (hd (ws_messages ws)))]"
proof -
  obtain slots where q: "ws_queue ws = Some slots" "length slots = WS_QUEUE_SIZE" "queue_tail ws < WS_QUEUE_SIZE"
    using assms(1) by (auto simp: ws_serving_def ws_queue_wf_def)
  obtain n where n: "queue_count ws = Suc n" using assms(2) by (cases "queue_count ws") auto
  let ?m = "slots ! queue_tail ws"
  have hd: "hd (ws_messages ws) = take (msg_len ?m) (msg_data ?m)"
    using q n by (simp add: ws_messages_def ring_contents_pop)
  have pre: "lws_PRE (ws_lws ws) = pre" using assms(1) by (simp add: ws_serving_def)
  have "take (if WS_MAX_MSG_SIZE - pre < msg_len ?m then WS_MAX_MSG_SIZE - pre else msg_len ?m) (msg_data ?m)
      = take (WS_MAX_MSG_SIZE - pre) (take (msg_len ?m) (msg_data ?m))"
    by (auto simp: min_def)
  then show ?thesis using assms(2) q(1) hd pre
    by (simp add: ws_writeable_def lws_write_def lws_ask_def lws_callback_on_writable_def Let_def)
qed

lemma ws_get_law:
  assumes "ws_serving wsi pre ws" and "c \<noteq> 0" and "ws_messages ws = y # ys"
  shows "\<exists>ws'. ws_get c ws = Some (y, ws') \<and> ws_serving wsi pre ws' \<and> ws_messages ws' = ys"
proof -
  have len: "length (ws_messages ws) = queue_count ws" by (simp add: ws_messages_def)
  then obtain n where n: "queue_count ws = Suc n" using assms(3) by (cases "queue_count ws") auto
  obtain slots where q: "ws_queue ws = Some slots" "length slots = WS_QUEUE_SIZE" "queue_tail ws < WS_QUEUE_SIZE"
    using assms(1) by (auto simp: ws_serving_def ws_queue_wf_def)
  have "ring_contents slots (queue_tail ws) (Suc n)
      = slots ! queue_tail ws # ring_contents slots ((queue_tail ws + 1) mod WS_QUEUE_SIZE) n"
    using q by (simp add: ring_contents_pop)
  then have ys: "ys = map (\<lambda>m. take (msg_len m) (msg_data m))
      (ring_contents slots ((queue_tail ws + 1) mod WS_QUEUE_SIZE) n)"
    using assms(3) q(1) n by (simp add: ws_messages_def)
  have mod: "((queue_tail ws + 1) mod WS_QUEUE_SIZE + n) mod WS_QUEUE_SIZE
      = (queue_tail ws + Suc n) mod WS_QUEUE_SIZE" by (simp add: mod_simps)
  show ?thesis using assms q n ys mod
    by (auto simp: ws_get_def ws_writeable_def lws_write_def lws_ask_def lws_callback_on_writable_def
      ws_serving_def ws_queue_wf_def ws_messages_def Let_def WS_QUEUE_SIZE_def)
qed

lemma ws_put_law:
  assumes "ws_serving wsi pre ws" and "length x < WS_MAX_MSG_SIZE"
  shows "ws_serving wsi pre (ws_put x ws) \<and> ws_messages (ws_put x ws) =
    (if length (ws_messages ws) = WS_QUEUE_SIZE then tl (ws_messages ws) else ws_messages ws) @ [x]"
proof -
  obtain slots where q: "ws_queue ws = Some slots" "length slots = WS_QUEUE_SIZE"
    "\<forall>m\<in>set slots. length (msg_data m) = WS_MAX_MSG_SIZE" "queue_tail ws < WS_QUEUE_SIZE"
    "queue_count ws \<le> WS_QUEUE_SIZE" "queue_head ws = (queue_tail ws + queue_count ws) mod WS_QUEUE_SIZE"
    using assms(1) by (auto simp: ws_serving_def ws_queue_wf_def)
  have client: "client_connected ws" "client_wsi ws = wsi" "wsi \<noteq> 0" "lws_PRE (ws_lws ws) = pre"
    using assms(1) by (auto simp: ws_serving_def)
  let ?read = "\<lambda>m. take (msg_len m) (msg_data m)"
  define full where "full = (queue_count ws = WS_QUEUE_SIZE)"
  define t where "t = (if full then (queue_tail ws + 1) mod WS_QUEUE_SIZE else queue_tail ws)"
  define n where "n = (if full then queue_count ws - 1 else queue_count ws)"
  have pos: "0 < WS_QUEUE_SIZE" by (simp add: WS_QUEUE_SIZE_def)
  have t: "t < WS_QUEUE_SIZE" "n < WS_QUEUE_SIZE" using q(4-6) pos by (auto simp: t_def n_def full_def)
  have head: "queue_head ws = (t + n) mod WS_QUEUE_SIZE"
  proof (cases full)
    case True
    then have "(t + n) mod WS_QUEUE_SIZE = (queue_tail ws + 1 + (WS_QUEUE_SIZE - 1)) mod WS_QUEUE_SIZE"
      by (simp only: t_def n_def full_def simp_thms if_True mod_add_left_eq)
    moreover have "queue_tail ws + 1 + (WS_QUEUE_SIZE - 1) = queue_tail ws + WS_QUEUE_SIZE" using pos by simp
    ultimately have "(t + n) mod WS_QUEUE_SIZE = (queue_tail ws + WS_QUEUE_SIZE) mod WS_QUEUE_SIZE" by simp
    then show ?thesis using q(6) True by (simp add: full_def)
  qed (simp add: t_def n_def q(6))
  have rest: "map ?read (ring_contents slots t n)
      = (if full then tl (ws_messages ws) else ws_messages ws)"
  proof (cases full)
    case True
    then obtain m where "queue_count ws = Suc m" using pos by (cases "queue_count ws") (auto simp: full_def)
    then show ?thesis using True q(1,2,4)
      by (simp add: ws_messages_def ring_contents_pop t_def n_def)
  qed (simp add: ws_messages_def t_def n_def q(1))
  let ?m = "slots ! queue_head ws"
  let ?new = "?m\<lparr>msg_data := x @ drop (length x) (msg_data ?m), msg_len := length x\<rparr>"
  have h: "queue_head ws < length slots" using head pos q(2) by simp
  have ring: "ring_contents (slots[queue_head ws := ?new]) t (Suc n) = ring_contents slots t n @ [?new]"
    using ring_contents_push [of n slots t] t q(2) head by simp
  have data: "length (msg_data ?new) = WS_MAX_MSG_SIZE" using q(3) h assms(2) by auto
  define ws1 where "ws1 = (if full then ws\<lparr>queue_tail := t, queue_count := n,
      queue_dropped := queue_dropped ws + 1\<rparr> else ws)"
  define ws2 where "ws2 = ws1\<lparr>ws_queue := Some (slots[queue_head ws := ?new]),
      queue_head := (queue_head ws + 1) mod WS_QUEUE_SIZE, queue_count := Suc n\<rparr>"
  have put: "ws_put x ws = lws_callback_on_writable wsi ws2"
    using client q(1,5) assms(2)
    by (auto simp: ws_put_def ws_queue_message_def Let_def ws1_def ws2_def t_def n_def full_def)
  have fields: "queue_tail ws2 = t" "queue_count ws2 = Suc n" "queue_head ws2 = (t + Suc n) mod WS_QUEUE_SIZE"
    "ws_queue ws2 = Some (slots[queue_head ws := ?new])" "client_connected ws2" "client_wsi ws2 = wsi"
    "lws_PRE (ws_lws ws2) = pre"
    using client head by (simp_all add: ws2_def ws1_def t_def n_def mod_simps)
  have "ws_queue_wf ws2" using fields t q(2,3) data
    by (auto simp: ws_queue_wf_def dest!: set_update_subset_insert [THEN subsetD])
  then have "ws_serving wsi pre (ws_put x ws)"
    using fields client(3) put by (simp add: ws_serving_def ws_queue_wf_def lws_callback_on_writable_def)
  moreover have "ws_messages (ws_put x ws) = map ?read (ring_contents slots t n) @ [x]"
    using fields put ring by (simp add: ws_messages_def lws_callback_on_writable_def)
  moreover have "length (ws_messages ws) = WS_QUEUE_SIZE \<longleftrightarrow> full" by (simp add: ws_messages_def full_def)
  ultimately show ?thesis using rest by simp
qed

interpretation wsq: latest_queue "ws_serving wsi pre" ws_messages WS_QUEUE_SIZE
  "\<lambda>x. length x < WS_MAX_MSG_SIZE" "\<lambda>c. c \<noteq> 0" ws_put ws_get for wsi pre
proof (unfold_locales, goal_cases)
  case (1 q)
  then show ?case by (simp add: ws_serving_def ws_queue_wf_def ws_messages_def)
next
  case (2 q x)
  then show ?case by (rule ws_put_law)
next
  case (3 q c)
  moreover have "length (ws_messages q) = queue_count q" by (simp add: ws_messages_def)
  ultimately have "c = 0 \<or> queue_count q = 0" by auto
  then show ?case by (auto simp: ws_get_def)
next
  case (4 q c y ys)
  then show ?case by (rule ws_get_law)
qed

section \<open>Properties\<close>

text \<open>What the library has been handed for a sequence of operations.\<close>

lemma ws_run_written:
  assumes "ws_serving wsi pre ws" and "\<forall>x\<in>set (puts ops). length x < WS_MAX_MSG_SIZE"
    and "latest_run ws_put ws_get ops ws = (out, ws')"
  shows "lws_written (ws_lws ws')
    = lws_written (ws_lws ws) @ map (\<lambda>(c, x). (c, take (WS_MAX_MSG_SIZE - pre) x)) out"
  using assms
proof (induction ops arbitrary: ws out)
  case (Cons op ops)
  show ?case
  proof (cases op)
    case (Put x)
    then have x: "length x < WS_MAX_MSG_SIZE" using Cons.prems(2) by simp
    have "lws_written (ws_lws (ws_put x ws)) = lws_written (ws_lws ws)"
      by (auto simp: ws_put_def ws_queue_message_def lws_callback_on_writable_def Let_def)
    then show ?thesis using Cons.IH [of "ws_put x ws" out] ws_put_law [OF Cons.prems(1) x] Cons.prems(2,3) Put
      by simp
  next
    case (Take c)
    show ?thesis
    proof (cases "ws_get c ws")
      case None
      then show ?thesis using Cons Take by auto
    next
      case (Some yq)
      then obtain y ws1 where g: "ws_get c ws = Some (y, ws1)" by (cases yq) auto
      then have ws1: "ws1 = ws_writeable c ws" "0 < queue_count ws" "y = hd (ws_messages ws)"
        by (auto simp: ws_get_def split: if_splits)
      obtain out1 where r: "latest_run ws_put ws_get ops ws1 = (out1, ws')" and out: "out = (c, y) # out1"
        using Cons.prems(3) Take g by (auto split: prod.splits)
      have "ws_serving wsi pre ws1" by (rule wsq.get_cases [OF Cons.prems(1) g])
      from Cons.IH [OF this _ r] show ?thesis
        using ws_writeable_written [OF Cons.prems(1) ws1(2)] ws1 Cons.prems(2) Take out by simp
    qed
  qed
qed simp

text \<open>C28. The messages of a server with a client: for any sequence of messages queued, each shorter than 4096
  characters, and of writeable callbacks, whichever connection each of these is for (a connection that
  the client has driven out takes messages too), the library is handed, for the connection whose
  callback it was, a part of the messages, each at most once and in order; those waiting are the
  latest ones, and no message leaves the queue without being handed out as long as no more than 256
  messages are queued; of a message longer than 4096 less \<open>LWS_PRE\<close> characters only the beginning is
  handed out.\<close>

lemma ws_messages_latest:
  assumes "ws_serving wsi pre ws" and "\<forall>x\<in>set (puts ops). length x < WS_MAX_MSG_SIZE"
    and "latest_run ws_put ws_get ops ws = (out, ws')"
  shows "lws_written (ws_lws ws')
      = lws_written (ws_lws ws) @ map (\<lambda>(c, x). (c, take (WS_MAX_MSG_SIZE - pre) x)) out \<and>
    subseq (map snd out @ ws_messages ws') (ws_messages ws @ puts ops) \<and>
    suffix (ws_messages ws') (ws_messages ws @ puts ops) \<and>
    (WS_QUEUE_SIZE < length (ws_messages ws) + length (puts ops) \<or>
      map snd out @ ws_messages ws' = ws_messages ws @ puts ops)"
  using ws_run_written [OF assms] wsq.order [OF assms] wsq.lossless [OF assms] by linarith

definition demo_lws :: lws where
  "demo_lws = \<lparr>lws_PRE = 16, lws_answers = (\<lambda>_. 1), lws_asked = 0, lws_events = (\<lambda>_. []), lws_rounds = 0,
     lws_written = [], lws_waiting = [], lws_closing = []\<rparr>"

text \<open>A server with a client and no message.\<close>

definition demo_ws :: WebSocketServer where
  "demo_ws = \<lparr>ws_lws = demo_lws, ws_context = True, client_wsi = 7, ws_port = 8555, ws_running = True,
     client_connected = True, ws_on_connect = False, ws_on_disconnect = False,
     ws_queue = Some (replicate WS_QUEUE_SIZE \<lparr>msg_data = replicate WS_MAX_MSG_SIZE NUL, msg_len = 0\<rparr>),
     queue_head = 0, queue_tail = 0, queue_count = 0, queue_dropped = 0\<rparr>"

lemma demo_ws_serving: "ws_serving 7 16 demo_ws" "ws_messages demo_ws = []"
  by (simp_all add: ws_serving_def ws_queue_wf_def demo_ws_def demo_lws_def ws_messages_def WS_QUEUE_SIZE_def)

text \<open>The first message goes to connection 5, which client 7 has driven out.\<close>

lemma ws_messages_latest_witness:
  "\<exists>out ws'. latest_run ws_put ws_get [Put ''ab'', Take 5, Put ''c'', Take 7] demo_ws = (out, ws') \<and>
     map snd out @ ws_messages ws' = [''ab'', ''c''] \<and>
     lws_written (ws_lws ws') = map (\<lambda>(c, x). (c, take 4080 x)) out"
proof -
  let ?ops = "[Put ''ab'', Take (5 :: nat), Put ''c'', Take 7]"
  obtain out ws' where r: "latest_run ws_put ws_get ?ops demo_ws = (out, ws')"
    by (cases "latest_run ws_put ws_get ?ops demo_ws") auto
  have w: "lws_written (ws_lws demo_ws) = []" "WS_MAX_MSG_SIZE - 16 = 4080"
    by (simp_all add: demo_ws_def demo_lws_def WS_MAX_MSG_SIZE_def)
  have "\<forall>x\<in>set (puts ?ops). length x < WS_MAX_MSG_SIZE" by (simp add: WS_MAX_MSG_SIZE_def)
  note f = ws_messages_latest [OF demo_ws_serving(1) this r, unfolded demo_ws_serving(2) w]
  have "\<not> WS_QUEUE_SIZE < length ([] :: string list) + length (puts ?ops)" by (simp add: WS_QUEUE_SIZE_def)
  then have "map snd out @ ws_messages ws' = [] @ puts ?ops" using f by blast
  moreover have "lws_written (ws_lws ws') = map (\<lambda>(c, x). (c, take 4080 x)) out" using f by simp
  ultimately show ?thesis using r by (intro exI conjI) simp_all
qed

section \<open>Sessions\<close>

text \<open>The calls of the two callbacks of the user, on a record that notes them.\<close>

record WebSocketMonitor = WebSocketServer +
  ws_calls :: "bool list"

definition monitored ::
    "bool \<Rightarrow> ('a WebSocketMonitor_scheme \<Rightarrow> 'a WebSocketMonitor_scheme option) \<Rightarrow>
     'a WebSocketMonitor_scheme \<Rightarrow> 'a WebSocketMonitor_scheme option" where
  "monitored b f ws = f (ws\<lparr>ws_calls := ws_calls ws @ [b]\<rparr>)"

text \<open>Callbacks that return and leave the session alone; they may do anything else.\<close>

definition session_of :: "'a WebSocketMonitor_scheme \<Rightarrow> _" where
  "session_of ws = (client_wsi ws, client_connected ws, ws_on_connect ws, ws_on_disconnect ws, ws_calls ws,
     ws_running ws, ws_context ws, lws_events (ws_lws ws), lws_rounds (ws_lws ws))"

definition keeps_session :: "('a WebSocketMonitor_scheme \<Rightarrow> 'a WebSocketMonitor_scheme option) \<Rightarrow> bool" where
  "keeps_session f \<longleftrightarrow> (\<forall>ws. \<exists>ws'. f ws = Some ws' \<and> session_of ws' = session_of ws)"

text \<open>Several rounds of service.\<close>

fun service_rounds ::
    "(lws_event \<Rightarrow> 'a WebSocketServer_scheme \<Rightarrow> 'a WebSocketServer_scheme option) \<Rightarrow> nat \<Rightarrow>
     'a WebSocketServer_scheme \<Rightarrow> 'a WebSocketServer_scheme option" where
  "service_rounds cb 0 ws = Some ws"
| "service_rounds cb (Suc n) ws = do { (r, ws) \<leftarrow> ws_service cb ws; service_rounds cb n ws }"

text \<open>The connections of the library: one that comes is not null and not one that is open; a number may be
  used again after its connection has been closed.\<close>

fun connections :: "nat set \<Rightarrow> lws_event list \<Rightarrow> bool" where
  "connections A [] \<longleftrightarrow> True"
| "connections A (LWS_CALLBACK_ESTABLISHED c # es) \<longleftrightarrow> c \<noteq> 0 \<and> c \<notin> A \<and> connections (insert c A) es"
| "connections A (LWS_CALLBACK_CLOSED c # es) \<longleftrightarrow> connections (A - {c}) es"
| "connections A (_ # es) \<longleftrightarrow> connections A es"

text \<open>The client: the connection that came last, until it is closed.\<close>

fun last_client :: "nat \<Rightarrow> lws_event list \<Rightarrow> nat" where
  "last_client w [] = w"
| "last_client w (LWS_CALLBACK_ESTABLISHED c # es) = last_client c es"
| "last_client w (LWS_CALLBACK_CLOSED c # es) = last_client (if c = w then 0 else w) es"
| "last_client w (_ # es) = last_client w es"

fun arrivals :: "lws_event list \<Rightarrow> nat" where
  "arrivals [] = 0"
| "arrivals (LWS_CALLBACK_ESTABLISHED c # es) = Suc (arrivals es)"
| "arrivals (_ # es) = arrivals es"

text \<open>Calls that alternate, beginning with a connection.\<close>

fun alternating :: "bool \<Rightarrow> bool list \<Rightarrow> bool" where
  "alternating b [] = True"
| "alternating b (x # xs) = (x = b \<and> alternating (\<not> b) xs)"

text \<open>After \<open>k\<close> arrivals, with the connections \<open>A\<close> open.\<close>

definition session_inv :: "nat \<Rightarrow> nat set \<Rightarrow> 'a WebSocketMonitor_scheme \<Rightarrow> bool" where
  "session_inv k A ws \<longleftrightarrow> ws_on_connect ws \<and> ws_on_disconnect ws \<and> (client_connected ws \<longleftrightarrow> client_wsi ws \<noteq> 0) \<and>
     alternating True (ws_calls ws) \<and> (client_connected ws \<longleftrightarrow> odd (length (ws_calls ws))) \<and>
     (client_wsi ws = 0 \<or> client_wsi ws \<in> A) \<and> length (filter id (ws_calls ws)) = k"

lemma alternating_append:
  "alternating b (xs @ ys) \<longleftrightarrow> alternating b xs \<and> alternating (b \<noteq> odd (length xs)) ys"
proof (induction xs arbitrary: b)
  case (Cons x xs)
  have "((\<not> b) \<noteq> odd (length xs)) = (b \<noteq> odd (length (x # xs)))" by auto
  then show ?case using Cons.IH [of "\<not> b"] by simp
qed simp

lemma session_inv_cong: "session_of ws' = session_of ws \<Longrightarrow> session_inv k A ws' = session_inv k A ws"
  by (simp add: session_inv_def session_of_def)

lemma monitored_returns:
  assumes "keeps_session f"
  obtains ws' where "monitored b f ws = Some ws'" "session_of ws' = session_of (ws\<lparr>ws_calls := ws_calls ws @ [b]\<rparr>)"
  using assms unfolding keeps_session_def monitored_def by blast

definition service_frame :: "'a WebSocketMonitor_scheme \<Rightarrow> 'a WebSocketMonitor_scheme \<Rightarrow> bool" where
  "service_frame ws ws' \<longleftrightarrow> ws_running ws' = ws_running ws \<and> ws_context ws' = ws_context ws \<and>
     lws_events (ws_lws ws') = lws_events (ws_lws ws) \<and> lws_rounds (ws_lws ws') = lws_rounds (ws_lws ws)"

lemma established_session:
  assumes keeps: "keeps_session connect" "keeps_session disconnect"
    and inv: "session_inv k A ws" and c: "c \<noteq> 0" "c \<notin> A"
  shows "\<exists>ws'. ws_established (monitored True connect) (monitored False disconnect) c ws = Some ws' \<and>
    session_inv (Suc k) (insert c A) ws' \<and> client_wsi ws' = c \<and> service_frame ws ws'"
proof (cases "client_connected ws")
  case True
  then have client: "client_wsi ws \<noteq> 0" "client_wsi ws \<noteq> c" using inv c by (auto simp: session_inv_def)
  let ?ws1 = "ws_clear_queue (ws\<lparr>client_wsi := 0, client_connected := False\<rparr>)"
  obtain ws2 where d: "monitored False disconnect ?ws1 = Some ws2"
    "session_of ws2 = session_of (?ws1\<lparr>ws_calls := ws_calls ?ws1 @ [False]\<rparr>)"
    by (rule monitored_returns [OF keeps(2)])
  let ?ws3 = "(lws_set_timeout (client_wsi ws) ws2)\<lparr>client_wsi := c, client_connected := True\<rparr>"
  obtain ws4 where e: "monitored True connect ?ws3 = Some ws4"
    "session_of ws4 = session_of (?ws3\<lparr>ws_calls := ws_calls ?ws3 @ [True]\<rparr>)"
    by (rule monitored_returns [OF keeps(1)])
  have r: "ws_established (monitored True connect) (monitored False disconnect) c ws = Some ws4"
    using inv True client d e by (simp add: ws_established_def session_inv_def session_of_def Let_def
        lws_set_timeout_def ws_clear_queue_def)
  show ?thesis
    using r inv True d(2) e(2) c
    by (simp add: session_inv_def session_of_def service_frame_def lws_set_timeout_def ws_clear_queue_def
        alternating_append)
next
  case False
  let ?ws3 = "ws\<lparr>client_wsi := c, client_connected := True\<rparr>"
  obtain ws4 where e: "monitored True connect ?ws3 = Some ws4"
    "session_of ws4 = session_of (?ws3\<lparr>ws_calls := ws_calls ?ws3 @ [True]\<rparr>)"
    by (rule monitored_returns [OF keeps(1)])
  then show ?thesis
    using inv False c
    by (simp add: ws_established_def session_inv_def session_of_def service_frame_def alternating_append)
qed

lemma closed_session:
  assumes "keeps_session disconnect" and inv: "session_inv k A ws" and "c \<noteq> 0"
  shows "\<exists>ws'. ws_closed (monitored False disconnect) c ws = Some ws' \<and> session_inv k (A - {c}) ws' \<and>
    client_wsi ws' = (if c = client_wsi ws then 0 else client_wsi ws) \<and> service_frame ws ws'"
proof (cases "client_wsi ws = c")
  case True
  let ?ws1 = "ws_clear_queue (ws\<lparr>client_wsi := 0, client_connected := False\<rparr>)"
  obtain ws2 where d: "monitored False disconnect ?ws1 = Some ws2"
    "session_of ws2 = session_of (?ws1\<lparr>ws_calls := ws_calls ?ws1 @ [False]\<rparr>)"
    by (rule monitored_returns [OF assms(1)])
  then show ?thesis
    using inv True assms(3)
    by (auto simp: ws_closed_def session_inv_def session_of_def service_frame_def ws_clear_queue_def
        alternating_append Let_def)
next
  case False
  then show ?thesis using inv by (auto simp: ws_closed_def session_inv_def service_frame_def)
qed

lemma writeable_session: "session_of (ws_writeable c ws) = session_of ws"
  by (simp add: ws_writeable_def session_of_def lws_write_def lws_ask_def lws_callback_on_writable_def Let_def)

lemma callback_session:
  assumes keeps: "keeps_session connect" "keeps_session disconnect"
    and inv: "session_inv k A ws" and conn: "connections A (e # es)"
  shows "\<exists>ws' A'. ws_callback (monitored True connect) (monitored False disconnect) e ws = Some ws' \<and>
    session_inv (k + arrivals [e]) A' ws' \<and> connections A' es \<and>
    client_wsi ws' = last_client (client_wsi ws) [e] \<and> service_frame ws ws'"
proof (cases e)
  case (LWS_CALLBACK_ESTABLISHED c)
  then show ?thesis using established_session [OF keeps inv, of c] conn by auto
next
  case (LWS_CALLBACK_CLOSED c)
  show ?thesis
  proof (cases "c = 0")
    case True
    then have "session_inv k (A - {c}) ws" using inv by (auto simp: session_inv_def)
    then show ?thesis using LWS_CALLBACK_CLOSED True conn by (auto simp: service_frame_def)
  next
    case False
    then show ?thesis using LWS_CALLBACK_CLOSED closed_session [OF keeps(2) inv, of c] conn by auto
  qed
next
  case (LWS_CALLBACK_SERVER_WRITEABLE c)
  note w = writeable_session [of c ws]
  have "session_inv k A (ws_writeable c ws)" "client_wsi (ws_writeable c ws) = client_wsi ws"
    "service_frame ws (ws_writeable c ws)"
    using inv w session_inv_cong [OF w] by (simp_all add: session_of_def service_frame_def)
  then show ?thesis using LWS_CALLBACK_SERVER_WRITEABLE conn inv by (auto simp: service_frame_def)
qed (use inv conn in \<open>auto simp: service_frame_def\<close>)

lemma last_client_append: "last_client w (es @ es') = last_client (last_client w es) es'"
  by (induction w es rule: last_client.induct) simp_all

lemma arrivals_append: "arrivals (es @ es') = arrivals es + arrivals es'"
  by (induction es rule: arrivals.induct) simp_all

lemma dispatch_session:
  assumes keeps: "keeps_session connect" "keeps_session disconnect"
  shows "session_inv k A ws \<Longrightarrow> connections A (es @ later) \<Longrightarrow>
    \<exists>ws' A'. lws_dispatch (ws_callback (monitored True connect) (monitored False disconnect)) es ws = Some ws' \<and>
      session_inv (k + arrivals es) A' ws' \<and> connections A' later \<and>
      client_wsi ws' = last_client (client_wsi ws) es \<and> service_frame ws ws'"
proof (induction es arbitrary: k A ws)
  case Nil
  then show ?case by (auto simp: service_frame_def)
next
  case (Cons e es)
  obtain ws1 A1 where e: "ws_callback (monitored True connect) (monitored False disconnect) e ws = Some ws1"
    "session_inv (k + arrivals [e]) A1 ws1" "connections A1 (es @ later)"
    "client_wsi ws1 = last_client (client_wsi ws) [e]" "service_frame ws ws1"
    using callback_session [OF keeps Cons.prems(1), of e "es @ later"] Cons.prems(2) by auto
  from Cons.IH [OF e(2,3)] show ?case
    using e(1,4,5) arrivals_append [of "[e]" es] last_client_append [of _ "[e]" es]
    by (fastforce simp: service_frame_def add.assoc)
qed

lemma rounds_session:
  assumes keeps: "keeps_session connect" "keeps_session disconnect"
  shows "session_inv k A ws \<Longrightarrow> ws_running ws \<Longrightarrow> ws_context ws \<Longrightarrow>
    es = concat (map (lws_events (ws_lws ws)) [lws_rounds (ws_lws ws)..<lws_rounds (ws_lws ws) + n]) \<Longrightarrow>
    connections A es \<Longrightarrow>
    \<exists>ws' A'. service_rounds (ws_callback (monitored True connect) (monitored False disconnect)) n ws = Some ws' \<and>
      session_inv (k + arrivals es) A' ws' \<and> client_wsi ws' = last_client (client_wsi ws) es"
proof (induction n arbitrary: k A ws es)
  case 0
  then show ?case by auto
next
  case (Suc n)
  let ?l = "ws_lws ws"
  let ?ev = "lws_events ?l (lws_rounds ?l)"
  define later where "later = concat (map (lws_events ?l) [Suc (lws_rounds ?l)..<Suc (lws_rounds ?l) + n])"
  let ?ws = "ws\<lparr>ws_lws := ?l\<lparr>lws_rounds := Suc (lws_rounds ?l)\<rparr>\<rparr>"
  have es: "es = ?ev @ later" unfolding Suc.prems(4) later_def by (simp add: upt_conv_Cons del: upt_Suc)
  have "session_inv k A ?ws" using Suc.prems(1) by (auto simp: session_inv_def)
  from dispatch_session [OF keeps this Suc.prems(5) [unfolded es]] obtain ws1 A1 where
    d: "lws_dispatch (ws_callback (monitored True connect) (monitored False disconnect)) ?ev ?ws = Some ws1"
      "session_inv (k + arrivals ?ev) A1 ws1" "connections A1 later"
      "client_wsi ws1 = last_client (client_wsi ws) ?ev" "service_frame ?ws ws1" by auto
  define ws2 where "ws2 = ws1\<lparr>ws_lws := snd (lws_ask (ws_lws ws1))\<rparr>"
  have s: "ws_service (ws_callback (monitored True connect) (monitored False disconnect)) ws
      = Some (fst (lws_ask (ws_lws ws1)), ws2)"
    using Suc.prems(2,3) d(1) by (simp add: ws_service_def Let_def ws2_def split: prod.splits)
  have i2: "session_inv (k + arrivals ?ev) A1 ws2" "ws_running ws2" "ws_context ws2" "client_wsi ws2 = client_wsi ws1"
    "lws_events (ws_lws ws2) = lws_events ?l" "lws_rounds (ws_lws ws2) = Suc (lws_rounds ?l)"
    using d(2,5) Suc.prems(2,3) by (auto simp: ws2_def session_inv_def service_frame_def lws_ask_def)
  from Suc.IH [OF i2(1-3) _ d(3)] show ?case
    using s d(4) i2(4-6) by (auto simp: es later_def arrivals_append last_client_append add.assoc)
qed

text \<open>C29. Sessions: over any rounds of service, whatever callbacks the library delivers, as long as a connection
  that comes is not null and not one that is still open (a number may come again after its connection was
  closed), and for any callbacks of the user that return and leave the session as it is: the calls to
  \<open>on_connect\<close> and \<open>on_disconnect\<close> alternate, starting with a connection, also when a new client drives
  out the old one; there is one call to \<open>on_connect\<close> for every connection that comes; the client is the
  connection that came last, unless that was closed; and there is a client exactly when the last call was
  a connection.\<close>

lemma ws_sessions_alternate:
  assumes "ws_running ws" and "ws_context ws" and "ws_on_connect ws" and "ws_on_disconnect ws"
    and "client_wsi ws = 0" and "\<not> client_connected ws" and "ws_calls ws = []"
    and "keeps_session connect" and "keeps_session disconnect"
    and "es = concat (map (lws_events (ws_lws ws)) [lws_rounds (ws_lws ws)..<lws_rounds (ws_lws ws) + n])"
    and "connections {} es"
  shows "\<exists>ws'. service_rounds (ws_callback (monitored True connect) (monitored False disconnect)) n ws = Some ws' \<and>
    alternating True (ws_calls ws') \<and> length (filter id (ws_calls ws')) = arrivals es \<and>
    client_wsi ws' = last_client 0 es \<and> (client_connected ws' \<longleftrightarrow> client_wsi ws' \<noteq> 0) \<and>
    (client_connected ws' \<longleftrightarrow> odd (length (ws_calls ws')))"
proof -
  have "session_inv 0 {} ws" using assms(3-7) by (simp add: session_inv_def)
  from rounds_session [OF assms(8,9) this assms(1,2,10,11)] show ?thesis
    using assms(5) by (auto simp: session_inv_def)
qed

definition demo_monitor :: WebSocketMonitor where
  "demo_monitor = \<lparr>ws_lws = demo_lws\<lparr>lws_events := (\<lambda>n. if n = 0 then [LWS_CALLBACK_ESTABLISHED 5,
       LWS_CALLBACK_ESTABLISHED 6, LWS_CALLBACK_CLOSED 5] else [LWS_CALLBACK_ESTABLISHED 5])\<rparr>,
     ws_context = True, client_wsi = 0, ws_port = 8555, ws_running = True,
     client_connected = False, ws_on_connect = True, ws_on_disconnect = True, ws_queue = None,
     queue_head = 0, queue_tail = 0, queue_count = 0, queue_dropped = 0, ws_calls = []\<rparr>"

text \<open>Connection 6 drives out connection 5, and number 5 comes again after it was closed; the callback for a
  connection counts in a field of the server.\<close>

definition count_port :: "WebSocketMonitor \<Rightarrow> WebSocketMonitor option" where
  "count_port ws = Some (ws\<lparr>ws_port := ws_port ws + 1\<rparr>)"

lemma ws_sessions_alternate_witness:
  "\<exists>ws'. service_rounds (ws_callback (monitored True count_port) (monitored False Some)) 2 demo_monitor = Some ws' \<and>
    alternating True (ws_calls ws') \<and> length (filter id (ws_calls ws')) = 3 \<and> client_wsi ws' = 5"
proof -
  let ?es = "[LWS_CALLBACK_ESTABLISHED 5, LWS_CALLBACK_ESTABLISHED 6, LWS_CALLBACK_CLOSED 5, LWS_CALLBACK_ESTABLISHED 5]"
  have s: "ws_running demo_monitor" "ws_context demo_monitor" "ws_on_connect demo_monitor"
    "ws_on_disconnect demo_monitor" "client_wsi demo_monitor = 0" "\<not> client_connected demo_monitor"
    "ws_calls demo_monitor = []" by (simp_all add: demo_monitor_def)
  have k: "keeps_session count_port" "keeps_session (Some :: WebSocketMonitor \<Rightarrow> _)"
    by (simp_all add: keeps_session_def count_port_def session_of_def)
  have e: "?es = concat (map (lws_events (ws_lws demo_monitor))
      [lws_rounds (ws_lws demo_monitor)..<lws_rounds (ws_lws demo_monitor) + 2])" "connections {} ?es"
    by (simp_all add: demo_monitor_def demo_lws_def numeral_2_eq_2)
  from ws_sessions_alternate [OF s k e] show ?thesis by auto
qed

end
