(* ===== verification/Config.thy ===== *)
theory Config
  imports Posix
begin

text \<open>
  The configuration of the streaming server, \<^verbatim>\<open>src/pi-streaming/config.c\<close>: a small reader for the JSON file,
  the defaults, what \<^verbatim>\<open>ffprobe\<close> reports of a video file, and the validation. The files of the system are the
  parameter \<open>files\<close>; the lines \<^verbatim>\<open>ffprobe\<close> prints for a file are a parameter of \<open>config_probe_video\<close>, and so
  is the conversion of a decimal number to a \<^verbatim>\<open>double\<close> of the C library. Messages to the console are left
  out, with \<^verbatim>\<open>config_print\<close>, which does nothing else.

  The section on the round trip proves that a configuration written in the layout of
  \<^verbatim>\<open>streaming_config.json\<close> is read back.
\<close>

section \<open>Configuration\<close>

definition MAX_PATH_LENGTH :: nat where "MAX_PATH_LENGTH = 512"
definition RTSP_NAME_LENGTH :: nat where "RTSP_NAME_LENGTH = 64"

record StreamingConfig =
  video_path :: string
  mediamtx_path :: string
  mediamtx_config :: string
  websocket_port :: int
  rtsp_port :: int
  rtsp_stream_name :: string
  loop_video :: bool
  detection_frame_interval :: int
  video_duration_sec :: cfloat
  video_fps :: cfloat
  video_width :: int
  video_height :: int

definition config_init_defaults :: StreamingConfig where
  "config_init_defaults = \<lparr>
     video_path = '''',
     mediamtx_path = ''./mediamtx'',
     mediamtx_config = ''./mediamtx.yml'',
     websocket_port = 8555,
     rtsp_port = 8554,
     rtsp_stream_name = ''stream'',
     loop_video = False,
     detection_frame_interval = 5,
     video_duration_sec = Fin 0,
     video_fps = Fin 30,
     video_width = 0,
     video_height = 0\<rparr>"

section \<open>Reading JSON\<close>

definition skip_whitespace :: "string \<Rightarrow> string" where
  "skip_whitespace str = dropWhile isspace str"

text \<open>The text from the colon after a key, as the three readers find it.\<close>

definition json_find_colon :: "string \<Rightarrow> string \<Rightarrow> string option" where
  "json_find_colon json key =
    (let search_key = fst (snprintf 128 ([quote] @ key @ [quote]))
     in do {
       key_pos \<leftarrow> strstr json search_key;
       strchr (drop (length search_key) key_pos) (CHR '':'')
     })"

text \<open>The value, or nothing where the code returns \<open>-1\<close> and leaves its argument alone.\<close>

definition json_get_string :: "string \<Rightarrow> string \<Rightarrow> nat \<Rightarrow> string option" where
  "json_get_string json key value_size =
    do {
      colon \<leftarrow> json_find_colon json key;
      quote_start \<leftarrow> strchr colon quote;
      let start = tl quote_start;
      quote_end \<leftarrow> strchr start quote;
      let len = length start - length quote_end;
      let len = (if value_size \<le> len then value_size - 1 else len);
      Some (take len start)
    }"

definition json_get_int :: "string \<Rightarrow> string \<Rightarrow> int option" where
  "json_get_int json key =
    do { colon \<leftarrow> json_find_colon json key; Some (atoi (skip_whitespace (tl colon))) }"

definition json_get_bool :: "string \<Rightarrow> string \<Rightarrow> bool option" where
  "json_get_bool json key =
    do { colon \<leftarrow> json_find_colon json key; Some (prefix ''true'' (skip_whitespace (tl colon))) }"

section \<open>Loading\<close>

definition config_is_fifo :: "files \<Rightarrow> string \<Rightarrow> bool" where
  "config_is_fifo fs path = fs_fifo fs path"

text \<open>A reader leaves the configuration alone when it finds no value.\<close>

definition found :: "'v option \<Rightarrow> ('v \<Rightarrow> StreamingConfig \<Rightarrow> StreamingConfig) \<Rightarrow> StreamingConfig \<Rightarrow> StreamingConfig" where
  "found x store c = (case x of None \<Rightarrow> c | Some v \<Rightarrow> store v c)"

lemma found_Some [simp]: "found (Some v) store c = store v c"
  by (simp add: found_def)

text \<open>The fields read from a text, one after the other.\<close>

definition config_strings :: "string \<Rightarrow> StreamingConfig \<Rightarrow> StreamingConfig" where
  "config_strings json c =
    (let c = found (json_get_string json ''video_path'' MAX_PATH_LENGTH) (\<lambda>v c. c\<lparr>video_path := v\<rparr>) c;
         c = found (json_get_string json ''mediamtx_path'' MAX_PATH_LENGTH) (\<lambda>v c. c\<lparr>mediamtx_path := v\<rparr>) c;
         c = found (json_get_string json ''mediamtx_config'' MAX_PATH_LENGTH)
               (\<lambda>v c. c\<lparr>mediamtx_config := v\<rparr>) c
     in found (json_get_string json ''rtsp_stream_name'' RTSP_NAME_LENGTH)
          (\<lambda>v c. c\<lparr>rtsp_stream_name := v\<rparr>) c)"

definition config_numbers :: "string \<Rightarrow> StreamingConfig \<Rightarrow> StreamingConfig" where
  "config_numbers json c =
    (let c = found (json_get_int json ''websocket_port'') (\<lambda>v c. c\<lparr>websocket_port := v\<rparr>) c;
         c = found (json_get_int json ''rtsp_port'') (\<lambda>v c. c\<lparr>rtsp_port := v\<rparr>) c;
         c = found (json_get_int json ''detection_frame_interval'')
               (\<lambda>v c. c\<lparr>detection_frame_interval := v\<rparr>) c
     in found (json_get_bool json ''loop_video'') (\<lambda>v c. c\<lparr>loop_video := v\<rparr>) c)"

definition config_fields :: "string \<Rightarrow> StreamingConfig \<Rightarrow> StreamingConfig" where
  "config_fields json c = config_numbers json (config_strings json c)"

definition config_load :: "files \<Rightarrow> string \<Rightarrow> StreamingConfig \<Rightarrow> posix \<Rightarrow> int \<times> StreamingConfig \<times> posix" where
  "config_load fs config_path config s =
    (case fs_text fs config_path of
       None \<Rightarrow> (- 1, config, s)
     | Some content \<Rightarrow>
        if length content = 0 \<or> 65536 < length content then (- 1, config, s)
        else let (r, s) = px_ask s
        in if r = 0 then (- 1, config, s)
           else let (bytes_read, s) = px_ask s
           in if bytes_read \<noteq> int (length content) then (- 1, config, s)
              else (0, config_fields (c_str content) config_init_defaults, s))"

section \<open>Probing\<close>

text \<open>One \<^verbatim>\<open>%d\<close> of \<^verbatim>\<open>sscanf\<close>: the number and the rest of the text.\<close>

definition scan_int :: "string \<Rightarrow> (int \<times> string) option" where
  "scan_int str =
    (let str = dropWhile isspace str;
         digits = (case str of [] \<Rightarrow> [] | c # cs \<Rightarrow> if c = CHR ''-'' \<or> c = CHR ''+'' then cs else str)
     in case digits of
          [] \<Rightarrow> None
        | c # cs \<Rightarrow> if isdigit c then Some (atoi str, dropWhile isdigit digits) else None)"

text \<open>\<^verbatim>\<open>sscanf(output, "%d,%d,%31s", &width, &height, fps_str)\<close>\<close>

definition scan_stream :: "string \<Rightarrow> int \<times> int \<times> string \<Rightarrow> int \<times> int \<times> string" where
  "scan_stream output x =
    (case x of (width, height, fps_str) \<Rightarrow>
      case scan_int output of
        None \<Rightarrow> (width, height, fps_str)
      | Some (width, rest) \<Rightarrow>
         if rest = [] \<or> hd rest \<noteq> CHR '','' then (width, height, fps_str)
         else case scan_int (tl rest) of
           None \<Rightarrow> (width, height, fps_str)
         | Some (height, rest) \<Rightarrow>
            if rest = [] \<or> hd rest \<noteq> CHR '','' then (width, height, fps_str)
            else let word = takeWhile (\<lambda>c. \<not> isspace c) (dropWhile isspace (tl rest))
                 in if word = [] then (width, height, fps_str) else (width, height, take 31 word))"

text \<open>\<^verbatim>\<open>sscanf(fps_str, "%d/%d", &num, &den)\<close>, when it finds both numbers\<close>

definition scan_fraction :: "string \<Rightarrow> (int \<times> int) option" where
  "scan_fraction str =
    (case scan_int str of
       None \<Rightarrow> None
     | Some (num, rest) \<Rightarrow>
        if rest = [] \<or> hd rest \<noteq> CHR ''/'' then None
        else map_option (\<lambda>(den, _). (num, den)) (scan_int (tl rest)))"

text \<open>The lines printed by the probe: width, height and rate of the stream, and the duration.\<close>

fun probe_lines ::
    "(string \<Rightarrow> cfloat option) \<Rightarrow> string list \<Rightarrow> cfloat \<times> int \<times> int \<times> string \<Rightarrow> cfloat \<times> int \<times> int \<times> string" where
  "probe_lines strtod [] x = x"
| "probe_lines strtod (line # lines) (duration, dims) =
    (let output = takeWhile (\<lambda>c. c \<noteq> newline) line
     in if strchr output (CHR ''/'') \<noteq> None
        then probe_lines strtod lines (duration, scan_stream output dims)
        else if strchr output (CHR ''.'') \<noteq> None
        then probe_lines strtod lines
               ((case strtod output of None \<Rightarrow> duration | Some d \<Rightarrow> d), dims)
        else probe_lines strtod lines (duration, dims))"

definition probe_fps :: "(string \<Rightarrow> cfloat option) \<Rightarrow> string \<Rightarrow> cfloat" where
  "probe_fps strtod fps_str =
    (if fps_str = [] then Fin 30
     else case scan_fraction fps_str of
            Some (num, den) \<Rightarrow>
              if den \<noteq> 0 then f_div fl64 (fl64 (of_int num)) (fl64 (of_int den))
              else (case strtod fps_str of None \<Rightarrow> Fin 0 | Some d \<Rightarrow> d)
          | None \<Rightarrow> (case strtod fps_str of None \<Rightarrow> Fin 0 | Some d \<Rightarrow> d))"

definition config_probe_video ::
    "(string \<Rightarrow> cfloat option) \<Rightarrow> (string \<Rightarrow> string list) \<Rightarrow> files \<Rightarrow> StreamingConfig \<Rightarrow> posix
      \<Rightarrow> int \<times> StreamingConfig \<times> posix" where
  "config_probe_video strtod ffprobe fs config s =
    (if video_path config = [] then (- 1, config, s)
     else if config_is_fifo fs (video_path config)
     then (0, config\<lparr>video_duration_sec := Fin 0, video_fps := Fin 30, video_width := 1920,
                     video_height := 1080\<rparr>, s)
     else if \<not> fs_readable fs (video_path config) then (- 1, config, s)
     else let (r, s) = px_ask s
     in if r = 0 then (- 1, config, s)
        else let (duration, width, height, fps_str) =
                   probe_lines strtod (ffprobe (video_path config)) (Fin 0, 0, 0, []);
                 (status, s) = px_ask s
        in if status \<noteq> 0 then (- 1, config, s)
           else (0, config\<lparr>video_duration_sec := duration, video_fps := probe_fps strtod fps_str,
                           video_width := width, video_height := height\<rparr>, s))"

section \<open>Validation\<close>

definition config_errors :: "files \<Rightarrow> StreamingConfig \<Rightarrow> nat" where
  "config_errors fs c =
    (if video_path c = [] then 1
     else if \<not> config_is_fifo fs (video_path c) \<and> \<not> fs_readable fs (video_path c) then 1 else 0) +
    (if \<not> fs_executable fs (mediamtx_path c) then 1 else 0) +
    (if \<not> fs_readable fs (mediamtx_config c) then 1 else 0) +
    (if websocket_port c < 1024 \<or> 65535 < websocket_port c then 1 else 0) +
    (if rtsp_port c < 1024 \<or> 65535 < rtsp_port c then 1 else 0) +
    (if detection_frame_interval c < 1 then 1 else 0)"

definition config_validate :: "files \<Rightarrow> StreamingConfig \<Rightarrow> int" where
  "config_validate fs c = (if config_errors fs c = 0 then 0 else - 1)"

section \<open>Facts about the reader\<close>

lemma json_get_string_length:
  assumes "json_get_string json key n = Some v" and "0 < n"
  shows "length v < n"
proof -
  obtain len start where "v = take (if n \<le> len then n - 1 else len) start"
    using assms(1) unfolding json_get_string_def Let_def bind_eq_Some_conv by blast
  then show ?thesis using assms(2) by auto
qed

text \<open>A text of segments without quotes, each preceded by one.\<close>

fun quoted :: "string list \<Rightarrow> string" where
  "quoted [] = []"
| "quoted (s # segs) = quote # s @ quoted segs"

definition plain :: "string \<Rightarrow> bool" where
  "plain s \<longleftrightarrow> quote \<notin> set s"

lemma plain_simps [simp]: "plain []" "plain (c # s) \<longleftrightarrow> c \<noteq> quote \<and> plain s" "plain (s @ t) \<longleftrightarrow> plain s \<and> plain t"
  by (auto simp: plain_def)

lemma strstr_skip:
  "plain s \<Longrightarrow> needle \<noteq> [] \<Longrightarrow> hd needle = quote \<Longrightarrow> strstr (s @ xs) needle = strstr xs needle"
  by (induction s) (auto simp: prefix_def Cons_eq_append_conv)

lemma prefix_quoted:
  assumes "plain s" and "plain k"
  shows "prefix (k @ [quote]) (s @ quoted segs) \<longleftrightarrow> s = k \<and> segs \<noteq> []"
  using assms
proof (induction k arbitrary: s)
  case Nil
  then show ?case by (cases s; cases segs) auto
next
  case (Cons c k)
  show ?case
  proof (cases s)
    case Nil
    then show ?thesis using Cons.prems by (cases segs) auto
  next
    case (Cons d s')
    then show ?thesis using Cons.IH [of s'] Cons.prems by auto
  qed
qed

text \<open>A quoted key is found at the first segment that is the key.\<close>

lemma strstr_quoted:
  assumes "list_all plain (pre @ [k])" and "k \<notin> set pre" and "segs \<noteq> []"
  shows "strstr (quoted (pre @ k # segs)) (quote # k @ [quote]) = Some (quote # k @ quoted segs)"
  using assms
proof (induction pre)
  case Nil
  then show ?case using prefix_quoted [of k k segs] by simp
next
  case (Cons s pre)
  have "\<not> prefix (k @ [quote]) (s @ quoted (pre @ k # segs))"
    using prefix_quoted [of s k "pre @ k # segs"] Cons.prems by auto
  then show ?case using Cons strstr_skip [of s "quote # k @ [quote]"] by auto
qed

lemma json_find_colon_quoted:
  assumes "plain s0" and "list_all plain (pre @ [k])" and "k \<notin> set pre" and "length k < 100"
    and "CHR '':'' \<notin> set before"
  shows "json_find_colon (s0 @ quoted (pre @ k # (before @ CHR '':'' # after) # segs)) k
    = Some (CHR '':'' # after @ quoted segs)"
proof -
  have key: "fst (snprintf 128 (quote # k @ [quote])) = quote # k @ [quote]"
    using assms(4) by (simp add: snprintf_def)
  have "strstr (s0 @ quoted (pre @ k # (before @ CHR '':'' # after) # segs)) (quote # k @ [quote])
      = Some (quote # k @ quoted ((before @ CHR '':'' # after) # segs))"
    using strstr_skip [OF assms(1)] strstr_quoted [OF assms(2,3)] by simp
  then show ?thesis using strchr_append [OF assms(5), of "after @ quoted segs"]
    by (simp add: json_find_colon_def key Let_def)
qed

lemma json_get_string_quoted:
  assumes "plain s0" and "list_all plain (pre @ [k, after, v])" and "k \<notin> set pre" and "length k < 100"
    and "CHR '':'' \<notin> set before" and "segs \<noteq> []" and "length v < n"
  shows "json_get_string (s0 @ quoted (pre @ k # (before @ CHR '':'' # after) # v # segs)) k n = Some v"
proof -
  have "json_find_colon (s0 @ quoted (pre @ k # (before @ CHR '':'' # after) # v # segs)) k
      = Some (CHR '':'' # after @ quoted (v # segs))"
    using json_find_colon_quoted [OF assms(1) _ assms(3,4,5)] assms(2) by simp
  moreover have "strchr (CHR '':'' # after @ quoted (v # segs)) quote = Some (quoted (v # segs))"
    using strchr_append [of quote after "v @ quoted segs"] assms(2) by (simp add: plain_def)
  moreover obtain s segs' where "segs = s # segs'" using assms(6) by (cases segs) auto
  moreover have "strchr (v @ quoted (s # segs')) quote = Some (quoted (s # segs'))"
    using strchr_append [of quote v "s @ quoted segs'"] assms(2) by (simp add: plain_def)
  ultimately show ?thesis using assms(7) by (simp add: json_get_string_def Let_def)
qed

lemma json_get_int_quoted:
  assumes "plain s0" and "list_all plain (pre @ [k])" and "k \<notin> set pre" and "length k < 100"
    and "- (2 ^ 31) \<le> i" and "i < 2 ^ 31" and "rest = [] \<or> \<not> isdigit (hd rest)"
  shows "json_get_int (s0 @ quoted (pre @ k # ('': '' @ show_int i @ rest) # segs)) k = Some i"
proof -
  have seg: "'': '' @ show_int i @ rest = [] @ CHR '':'' # '' '' @ show_int i @ rest" by simp
  have "isdigit (hd (show_nat n))" for n using show_nat_isdigit hd_in_set show_nat_not_Nil by blast
  then have "\<not> isspace (hd (show_int i))" "show_int i \<noteq> []"
    using isdigit_not_space by (auto simp: show_int_def isspace_def)
  then have ws: "skip_whitespace ('' '' @ show_int i @ rest @ quoted segs) = show_int i @ rest @ quoted segs"
    by (cases "show_int i") (auto simp: skip_whitespace_def isspace_def)
  have "rest @ quoted segs = [] \<or> \<not> isdigit (hd (rest @ quoted segs))"
    using assms(7) by (cases rest; cases segs) (auto simp: isdigit_def)
  then have "atoi (show_int i @ rest @ quoted segs) = i" by (rule atoi_show_int [OF assms(5,6)])
  then show ?thesis
    using json_find_colon_quoted [OF assms(1-4), of "[]" "'' '' @ show_int i @ rest" segs] ws
    by (simp add: json_get_int_def)
qed

lemma json_get_bool_quoted:
  assumes "plain s0" and "list_all plain (pre @ [k])" and "k \<notin> set pre" and "length k < 100"
  shows "json_get_bool (s0 @ quoted (pre @ k # ('': '' @ show_bool b @ rest) # segs)) k = Some b"
  using json_find_colon_quoted [OF assms, of "[]" "'' '' @ show_bool b @ rest" segs]
  by (simp add: json_get_bool_def skip_whitespace_def show_bool_def isspace_def)

section \<open>Round trip\<close>

text \<open>The layout of \<^verbatim>\<open>streaming_config.json\<close>: the segments between the quotes.\<close>

definition sep :: string where "sep = '','' @ [newline] @ ''    ''"

definition config_segments :: "StreamingConfig \<Rightarrow> string list" where
  "config_segments c =
    [''video_path'', '': '', video_path c, sep,
     ''mediamtx_path'', '': '', mediamtx_path c, sep,
     ''mediamtx_config'', '': '', mediamtx_config c, sep,
     ''websocket_port'', '': '' @ show_int (websocket_port c) @ sep,
     ''rtsp_port'', '': '' @ show_int (rtsp_port c) @ sep,
     ''rtsp_stream_name'', '': '', rtsp_stream_name c, sep,
     ''loop_video'', '': '' @ show_bool (loop_video c) @ sep,
     ''detection_frame_interval'', '': '' @ show_int (detection_frame_interval c) @ [newline] @ ''}'']"

definition config_json :: "StreamingConfig \<Rightarrow> string" where
  "config_json c = ''{'' @ [newline] @ ''    '' @ quoted (config_segments c)"

definition config_keys :: "string list" where
  "config_keys = [''video_path'', ''mediamtx_path'', ''mediamtx_config'', ''websocket_port'', ''rtsp_port'',
     ''rtsp_stream_name'', ''loop_video'', ''detection_frame_interval'']"

text \<open>Values that can be written: no quote in a string, no string that is itself a key, strings that fit
  their arrays and numbers that fit an \<^verbatim>\<open>int\<close>.\<close>

definition int32 :: "int \<Rightarrow> bool" where "int32 i \<longleftrightarrow> - (2 ^ 31) \<le> i \<and> i < 2 ^ 31"

definition config_writable :: "StreamingConfig \<Rightarrow> bool" where
  "config_writable c \<longleftrightarrow>
    (\<forall>v\<in>{video_path c, mediamtx_path c, mediamtx_config c, rtsp_stream_name c}.
       plain v \<and> NUL \<notin> set v \<and> v \<notin> set config_keys) \<and>
    length (video_path c) < MAX_PATH_LENGTH \<and> length (mediamtx_path c) < MAX_PATH_LENGTH \<and>
    length (mediamtx_config c) < MAX_PATH_LENGTH \<and> length (rtsp_stream_name c) < RTSP_NAME_LENGTH \<and>
    int32 (websocket_port c) \<and> int32 (rtsp_port c) \<and> int32 (detection_frame_interval c)"

lemma plain_show_int [simp]: "plain (show_int i)"
  using show_nat_isdigit by (fastforce simp: plain_def show_int_def isdigit_def)

lemma plain_show_bool [simp]: "plain (show_bool b)"
  by (simp add: show_bool_def plain_def)

lemma plain_sep [simp]: "plain sep" and sep_digit [simp]: "\<not> isdigit (hd sep)" "sep \<noteq> []"
  by (simp_all add: sep_def isdigit_def)

text \<open>The readers on the segments of this layout.\<close>

lemma read_string_segment:
  assumes "config_segments c = pre @ k # '': '' # v # segs" and "list_all plain (pre @ [k, v])"
    and "k \<notin> set pre" and "length k < 100" and "segs \<noteq> []" and "length v < n"
  shows "json_get_string (config_json c) k n = Some v"
proof -
  have "'': '' = [] @ CHR '':'' # '' ''" by simp
  then show ?thesis
    using json_get_string_quoted [of "''{'' @ [newline] @ ''    ''" pre k "'' ''" v "[]" segs n] assms
    by (simp add: config_json_def)
qed

lemma read_int_segment:
  assumes "config_segments c = pre @ k # ('': '' @ show_int i @ rest) # segs" and "list_all plain (pre @ [k])"
    and "k \<notin> set pre" and "length k < 100" and "int32 i" and "rest = [] \<or> \<not> isdigit (hd rest)"
  shows "json_get_int (config_json c) k = Some i"
  using json_get_int_quoted [of "''{'' @ [newline] @ ''    ''" pre k i rest segs] assms
  by (simp add: config_json_def int32_def)

lemma read_bool_segment:
  assumes "config_segments c = pre @ k # ('': '' @ show_bool b @ rest) # segs" and "list_all plain (pre @ [k])"
    and "k \<notin> set pre" and "length k < 100"
  shows "json_get_bool (config_json c) k = Some b"
  using json_get_bool_quoted [of "''{'' @ [newline] @ ''    ''" pre k b rest segs] assms
  by (simp add: config_json_def)

text \<open>A number is never a key, nor is a separator.\<close>

lemma segment_not_key:
  "'': '' @ x \<noteq> k" if "k \<in> set config_keys" for k x
  using that by (auto simp: config_keys_def)

lemma config_fields_json:
  assumes "config_writable c"
  shows "config_fields (config_json c) config_init_defaults
    = c\<lparr>video_duration_sec := Fin 0, video_fps := Fin 30, video_width := 0, video_height := 0\<rparr>"
proof -
  let ?S = "config_segments c"
  have v: "plain (video_path c)" "plain (mediamtx_path c)" "plain (mediamtx_config c)" "plain (rtsp_stream_name c)"
    and n: "length (video_path c) < MAX_PATH_LENGTH" "length (mediamtx_path c) < MAX_PATH_LENGTH"
      "length (mediamtx_config c) < MAX_PATH_LENGTH" "length (rtsp_stream_name c) < RTSP_NAME_LENGTH"
      "int32 (websocket_port c)" "int32 (rtsp_port c)" "int32 (detection_frame_interval c)"
    and key: "\<forall>k\<in>set config_keys. k \<notin> {video_path c, mediamtx_path c, mediamtx_config c, rtsp_stream_name c}"
    using assms by (auto simp: config_writable_def)
  note k = key [unfolded config_keys_def, simplified]
  have 1: "json_get_string (config_json c) ''video_path'' MAX_PATH_LENGTH = Some (video_path c)"
    by (rule read_string_segment [of c "take 0 ?S" _ _ "drop 3 ?S"])
      (simp_all add: config_segments_def v n)
  have 2: "json_get_string (config_json c) ''mediamtx_path'' MAX_PATH_LENGTH = Some (mediamtx_path c)"
    by (rule read_string_segment [of c "take 4 ?S" _ _ "drop 7 ?S"])
      (use k in \<open>simp_all add: config_segments_def v n sep_def\<close>)
  have 3: "json_get_string (config_json c) ''mediamtx_config'' MAX_PATH_LENGTH = Some (mediamtx_config c)"
    by (rule read_string_segment [of c "take 8 ?S" _ _ "drop 11 ?S"])
      (use k in \<open>simp_all add: config_segments_def v n sep_def\<close>)
  have 4: "json_get_int (config_json c) ''websocket_port'' = Some (websocket_port c)"
    by (rule read_int_segment [of c "take 12 ?S" _ _ sep "drop 14 ?S"])
      (use k in \<open>simp_all add: config_segments_def v n sep_def isdigit_def\<close>)
  have 5: "json_get_int (config_json c) ''rtsp_port'' = Some (rtsp_port c)"
    by (rule read_int_segment [of c "take 14 ?S" _ _ sep "drop 16 ?S"])
      (use k in \<open>simp_all add: config_segments_def v n sep_def isdigit_def\<close>)
  have 6: "json_get_string (config_json c) ''rtsp_stream_name'' RTSP_NAME_LENGTH = Some (rtsp_stream_name c)"
    by (rule read_string_segment [of c "take 16 ?S" _ _ "drop 19 ?S"])
      (use k in \<open>simp_all add: config_segments_def v n sep_def\<close>)
  have 7: "json_get_bool (config_json c) ''loop_video'' = Some (loop_video c)"
    by (rule read_bool_segment [of c "take 20 ?S" _ _ sep "drop 22 ?S"])
      (use k in \<open>simp_all add: config_segments_def v n sep_def\<close>)
  have 8: "json_get_int (config_json c) ''detection_frame_interval'' = Some (detection_frame_interval c)"
    by (rule read_int_segment [of c "take 22 ?S" _ _ "[newline] @ ''}''" "[]"])
      (use k in \<open>simp_all add: config_segments_def v n sep_def isdigit_def\<close>)
  show ?thesis by (simp add: config_fields_def config_strings_def config_numbers_def 1 2 3 4 5 6 7 8 config_init_defaults_def)
qed

lemma show_int_chars: "c \<in> set (show_int i) \<Longrightarrow> isdigit c \<or> c = CHR ''-''"
  by (auto simp: show_int_def split: if_splits dest: show_nat_isdigit)

lemma show_int_length:
  assumes "int32 i"
  shows "length (show_int i) \<le> 11"
proof -
  have "length (show_nat (nat \<bar>i\<bar>)) \<le> 10"
    using assms by (intro show_nat_length) (auto simp: int32_def)
  then show ?thesis by (auto simp: show_int_def abs_if)
qed

lemma no_nul_show_int [simp]: "NUL \<notin> set (show_int i)"
  using show_int_chars [of NUL i] by (auto simp: isdigit_def)

lemma no_nul_quoted: "NUL \<notin> set (quoted segs) \<longleftrightarrow> (\<forall>s\<in>set segs. NUL \<notin> set s)"
  by (induction segs) auto

lemma length_quoted: "length (quoted segs) = sum_list (map (\<lambda>s. Suc (length s)) segs)"
  by (induction segs) auto

lemma config_json_text:
  assumes "config_writable c"
  shows "NUL \<notin> set (config_json c)" "0 < length (config_json c)" "length (config_json c) \<le> 65536"
proof -
  have n: "length (video_path c) < 512" "length (mediamtx_path c) < 512" "length (mediamtx_config c) < 512"
    "length (rtsp_stream_name c) < 64" "length (show_int (websocket_port c)) \<le> 11"
    "length (show_int (rtsp_port c)) \<le> 11" "length (show_int (detection_frame_interval c)) \<le> 11"
    using assms show_int_length by (auto simp: config_writable_def MAX_PATH_LENGTH_def RTSP_NAME_LENGTH_def)
  have b: "length (show_bool (loop_video c)) \<le> 5" by (simp add: show_bool_def)
  show "NUL \<notin> set (config_json c)"
    using assms
    by (auto simp: config_json_def no_nul_quoted config_segments_def config_writable_def sep_def show_bool_def)
  show "0 < length (config_json c)" by (simp add: config_json_def)
  show "length (config_json c) \<le> 65536"
    using n b by (simp add: config_json_def length_quoted config_segments_def sep_def)
qed

text \<open>Reading back a number inside a text.\<close>

lemma scan_int_show_int:
  assumes "int32 i" and "rest = [] \<or> \<not> isdigit (hd rest)"
  shows "scan_int (show_int i @ rest) = Some (i, rest)"
proof -
  have drop: "dropWhile isdigit (show_nat n @ rest) = rest" for n
  proof -
    have "dropWhile isdigit (show_nat n @ rest) = dropWhile isdigit rest"
      using show_nat_isdigit by (simp add: dropWhile_append)
    then show ?thesis using assms(2) by (cases rest) auto
  qed
  have at: "atoi (show_int i @ rest) = i"
    using assms by (intro atoi_show_int) (auto simp: int32_def)
  obtain c cs where c: "show_nat (nat \<bar>i\<bar>) = c # cs" by (cases "show_nat (nat \<bar>i\<bar>)") auto
  have dc: "isdigit c" using show_nat_isdigit [of c "nat \<bar>i\<bar>"] c by simp
  have dr: "dropWhile isdigit (c # cs @ rest) = rest" using drop [of "nat \<bar>i\<bar>"] c by simp
  show ?thesis
  proof (cases "i < 0")
    case True
    then have str: "show_int i @ rest = CHR ''-'' # c # cs @ rest" using c by (simp add: show_int_def)
    show ?thesis using at dr dc unfolding str by (simp add: scan_int_def Let_def isspace_def)
  next
    case False
    then have str: "show_int i @ rest = c # cs @ rest" using c by (simp add: show_int_def)
    show ?thesis using at dr dc isdigit_not_space [OF dc] isdigit_not_sign [OF dc] unfolding str
      by (simp add: scan_int_def Let_def)
  qed
qed

text \<open>The line \<^verbatim>\<open>ffprobe\<close> prints for a stream: width, height and the rate as a fraction.\<close>

definition probe_line :: "int \<Rightarrow> int \<Rightarrow> int \<Rightarrow> int \<Rightarrow> string" where
  "probe_line w h num den =
    show_int w @ '','' @ show_int h @ '','' @ show_int num @ ''/'' @ show_int den @ [newline]"

lemma show_int_no_space: "c \<in> set (show_int i) \<Longrightarrow> \<not> isspace c"
  using show_int_chars [of c i] isdigit_not_space by (auto simp: isspace_def)

lemma scan_fraction_show:
  assumes "int32 num" and "int32 den"
  shows "scan_fraction (show_int num @ ''/'' @ show_int den) = Some (num, den)"
  using scan_int_show_int [OF assms(1), of "''/'' @ show_int den"] scan_int_show_int [OF assms(2), of "[]"]
  by (simp add: scan_fraction_def isdigit_def)

lemma scan_stream_probe:
  assumes "int32 w" and "int32 h" and "int32 num" and "int32 den"
  shows "scan_stream (show_int w @ '','' @ show_int h @ '','' @ show_int num @ ''/'' @ show_int den) x
    = (w, h, show_int num @ ''/'' @ show_int den)"
proof -
  define rate where "rate = show_int num @ ''/'' @ show_int den"
  have sp: "\<forall>c\<in>set rate. \<not> isspace c" using show_int_no_space by (auto simp: rate_def isspace_def)
  then have dw: "dropWhile isspace rate = rate" by (subst dropWhile_eq_self_iff) (metis hd_in_set)
  have tw: "takeWhile (\<lambda>c. \<not> isspace c) rate = rate" using sp by (simp add: takeWhile_eq_all_conv)
  have tk: "take 31 rate = rate" "rate \<noteq> []"
    using show_int_length [OF assms(3)] show_int_length [OF assms(4)] by (simp_all add: rate_def)
  show ?thesis
    using scan_int_show_int [OF assms(1), of "'','' @ show_int h @ '','' @ rate"]
      scan_int_show_int [OF assms(2), of "'','' @ rate"]
    unfolding rate_def [symmetric]
    by (cases x) (simp add: scan_stream_def isdigit_def Let_def dw tw tk del: take_all_iff)
qed

section \<open>Properties\<close>

text \<open>C32. A configuration survives its file: when strings without quotes that are not themselves key names,
  which fit their arrays, and 32-bit numbers are written in the layout of the shipped file, loading the
  file gives exactly these values, and the defaults for what the file does not hold.\<close>

lemma config_round_trip:
  assumes "config_writable c" and "fs_text fs path = Some (config_json c)"
    and "px_answers s (px_asked s) \<noteq> 0" and "px_answers s (Suc (px_asked s)) = int (length (config_json c))"
  shows "\<exists>s'. config_load fs path old s
    = (0, c\<lparr>video_duration_sec := Fin 0, video_fps := Fin 30, video_width := 0, video_height := 0\<rparr>, s')"
  using config_json_text [OF assms(1)] config_fields_json [OF assms(1)] assms(2-4)
  by (simp add: config_load_def px_ask_def c_str_id)

text \<open>The configuration that is shipped with the program.\<close>

definition shipped_config :: StreamingConfig where
  "shipped_config = config_init_defaults\<lparr>video_path := ''/tmp/camera_stream.h264'',
     detection_frame_interval := 20\<rparr>"

lemma config_round_trip_witness:
  "\<exists>fs s s'. config_load fs ''streaming_config.json'' config_init_defaults s = (0, shipped_config, s')"
proof -
  have w: "config_writable shipped_config"
    by (simp add: config_writable_def shipped_config_def config_init_defaults_def config_keys_def int32_def
      MAX_PATH_LENGTH_def RTSP_NAME_LENGTH_def)
  define fs where "fs = \<lparr>fs_text = (\<lambda>_. Some (config_json shipped_config)), fs_fifo = (\<lambda>_. True),
    fs_readable = (\<lambda>_. True), fs_executable = (\<lambda>_. True)\<rparr>"
  define s where "s = px_start (\<lambda>_. int (length (config_json shipped_config))) (\<lambda>_. Received [])"
  have "fs_text fs ''streaming_config.json'' = Some (config_json shipped_config)" by (simp add: fs_def)
  moreover have "px_answers s (px_asked s) \<noteq> 0" "px_answers s (Suc (px_asked s)) = int (length (config_json shipped_config))"
    using config_json_text(2) [OF w] by (simp_all add: s_def px_start_def)
  ultimately have "\<exists>s'. config_load fs ''streaming_config.json'' config_init_defaults s
    = (0, shipped_config\<lparr>video_duration_sec := Fin 0, video_fps := Fin 30, video_width := 0, video_height := 0\<rparr>, s')"
    by (rule config_round_trip [OF w])
  moreover have "shipped_config\<lparr>video_duration_sec := Fin 0, video_fps := Fin 30, video_width := 0,
      video_height := 0\<rparr> = shipped_config" by (simp add: shipped_config_def config_init_defaults_def)
  ultimately show ?thesis by auto
qed

text \<open>A string of a loaded configuration is read from the file or is the default.\<close>

lemma config_numbers_strings:
  "video_path (config_numbers json c) = video_path c"
  "mediamtx_path (config_numbers json c) = mediamtx_path c"
  "mediamtx_config (config_numbers json c) = mediamtx_config c"
  "rtsp_stream_name (config_numbers json c) = rtsp_stream_name c"
  by (simp_all add: config_numbers_def found_def Let_def split: option.split)

lemma config_fields_strings:
  fixes json c
  defines "f \<equiv> config_fields json c"
  shows "video_path f = video_path c \<or> json_get_string json ''video_path'' MAX_PATH_LENGTH = Some (video_path f)"
    and "mediamtx_path f = mediamtx_path c \<or>
      json_get_string json ''mediamtx_path'' MAX_PATH_LENGTH = Some (mediamtx_path f)"
    and "mediamtx_config f = mediamtx_config c \<or>
      json_get_string json ''mediamtx_config'' MAX_PATH_LENGTH = Some (mediamtx_config f)"
    and "rtsp_stream_name f = rtsp_stream_name c \<or>
      json_get_string json ''rtsp_stream_name'' RTSP_NAME_LENGTH = Some (rtsp_stream_name f)"
  by (simp_all add: f_def config_fields_def config_numbers_strings config_strings_def found_def Let_def
    split: option.split)

text \<open>Whatever the file holds, a configuration that is loaded has strings that end inside their arrays:
  paths shorter than 512 characters and a stream name shorter than 64.\<close>

lemma config_strings_fit:
  assumes "config_load fs path old s = (0, c, s')"
  shows "length (video_path c) < MAX_PATH_LENGTH \<and> length (mediamtx_path c) < MAX_PATH_LENGTH \<and>
    length (mediamtx_config c) < MAX_PATH_LENGTH \<and> length (rtsp_stream_name c) < RTSP_NAME_LENGTH"
proof -
  obtain json where c: "c = config_fields json config_init_defaults"
    using assms by (auto simp: config_load_def Let_def split: option.splits prod.splits if_splits)
  have pos: "0 < MAX_PATH_LENGTH" "0 < RTSP_NAME_LENGTH" by (simp_all add: MAX_PATH_LENGTH_def RTSP_NAME_LENGTH_def)
  have d: "length (video_path config_init_defaults) < MAX_PATH_LENGTH"
    "length (mediamtx_path config_init_defaults) < MAX_PATH_LENGTH"
    "length (mediamtx_config config_init_defaults) < MAX_PATH_LENGTH"
    "length (rtsp_stream_name config_init_defaults) < RTSP_NAME_LENGTH"
    by (simp_all add: config_init_defaults_def MAX_PATH_LENGTH_def RTSP_NAME_LENGTH_def)
  note f = config_fields_strings [of json config_init_defaults]
  have "length (video_path c) < MAX_PATH_LENGTH"
    using f(1) d(1) json_get_string_length [OF _ pos(1)] unfolding c by (elim disjE) simp_all
  moreover have "length (mediamtx_path c) < MAX_PATH_LENGTH"
    using f(2) d(2) json_get_string_length [OF _ pos(1)] unfolding c by (elim disjE) simp_all
  moreover have "length (mediamtx_config c) < MAX_PATH_LENGTH"
    using f(3) d(3) json_get_string_length [OF _ pos(1)] unfolding c by (elim disjE) simp_all
  moreover have "length (rtsp_stream_name c) < RTSP_NAME_LENGTH"
    using f(4) d(4) json_get_string_length [OF _ pos(2)] unfolding c by (elim disjE) simp_all
  ultimately show ?thesis by simp
qed

lemma config_strings_fit_witness:
  "\<exists>s c s'. config_load \<lparr>fs_text = (\<lambda>_. Some ''{}''), fs_fifo = (\<lambda>_. True), fs_readable = (\<lambda>_. True),
      fs_executable = (\<lambda>_. True)\<rparr> [] config_init_defaults s = (0, c, s') \<and>
    length (rtsp_stream_name c) < RTSP_NAME_LENGTH"
proof -
  let ?fs = "\<lparr>fs_text = (\<lambda>_. Some ''{}''), fs_fifo = (\<lambda>_. True), fs_readable = (\<lambda>_. True),
      fs_executable = (\<lambda>_. True)\<rparr>"
  obtain c s' where r: "config_load ?fs [] config_init_defaults (px_start (\<lambda>_. 2) (\<lambda>_. Received [])) = (0, c, s')"
    by (simp add: config_load_def px_ask_def px_start_def)
  then show ?thesis using config_strings_fit [OF r] by blast
qed

text \<open>The probe of a video file: when \<^verbatim>\<open>ffprobe\<close> prints the line of a stream with width, height and rate,
  and the line with its duration, the configuration gets exactly these dimensions, the duration, and the
  rate rounded to a \<^verbatim>\<open>double\<close>; a rate with denominator zero is read as a decimal number instead.\<close>

lemma config_probe_reads:
  assumes "video_path c \<noteq> []" and "\<not> fs_fifo fs (video_path c)" and "fs_readable fs (video_path c)"
    and "ffprobe (video_path c) = [probe_line w h num den, duration]"
    and "int32 w" and "int32 h" and "int32 num" and "int32 den"
    and "CHR ''.'' \<in> set duration" and "newline \<notin> set duration" and "CHR ''/'' \<notin> set duration"
    and "px_answers s (px_asked s) \<noteq> 0" and "px_answers s (Suc (px_asked s)) = 0"
  shows "\<exists>s'. config_probe_video strtod ffprobe fs c s = (0, c\<lparr>
      video_duration_sec := (case strtod duration of None \<Rightarrow> Fin 0 | Some d \<Rightarrow> d),
      video_fps := (if den \<noteq> 0 then f_div fl64 (fl64 (of_int num)) (fl64 (of_int den))
                    else case strtod (show_int num @ ''/'' @ show_int den) of None \<Rightarrow> Fin 0 | Some d \<Rightarrow> d),
      video_width := w, video_height := h\<rparr>, s')"
proof -
  let ?body = "show_int w @ '','' @ show_int h @ '','' @ show_int num @ ''/'' @ show_int den"
  have nl: "newline \<notin> set (show_int i)" for i using show_int_chars [of newline i] by (auto simp: isdigit_def)
  have line: "takeWhile (\<lambda>c. c \<noteq> newline) (probe_line w h num den) = ?body"
    unfolding probe_line_def append_assoc [symmetric]
    by (subst takeWhile_append2) (use nl in auto)
  have slash: "strchr ?body (CHR ''/'') \<noteq> None" by (simp add: strchr_None)
  have dur: "takeWhile (\<lambda>c. c \<noteq> newline) duration = duration" "strchr duration (CHR ''/'') = None"
    "strchr duration (CHR ''.'') \<noteq> None"
    using assms(9-11) by (auto simp: takeWhile_eq_all_conv strchr_None)
  have lines: "probe_lines strtod [probe_line w h num den, duration] (Fin 0, 0, 0, [])
      = ((case strtod duration of None \<Rightarrow> Fin 0 | Some d \<Rightarrow> d), w, h, show_int num @ ''/'' @ show_int den)"
    using slash by (simp add: line dur scan_stream_probe [OF assms(5-8)] Let_def del: append.simps not_None_eq)
  have fps: "probe_fps strtod (show_int num @ ''/'' @ show_int den)
      = (if den \<noteq> 0 then f_div fl64 (fl64 (of_int num)) (fl64 (of_int den))
         else case strtod (show_int num @ ''/'' @ show_int den) of None \<Rightarrow> Fin 0 | Some d \<Rightarrow> d)"
    using scan_fraction_show [OF assms(7,8)] by (simp add: probe_fps_def)
  show ?thesis using assms(1-4,12,13) lines fps
    by (simp add: config_probe_video_def config_is_fifo_def px_ask_def)
qed

lemma config_probe_reads_witness:
  "\<exists>s s' c. config_probe_video (\<lambda>_. Some (Fin 35)) (\<lambda>_. [probe_line 1920 1080 30 1, ''35.0''])
      \<lparr>fs_text = (\<lambda>_. None), fs_fifo = (\<lambda>_. False), fs_readable = (\<lambda>_. True), fs_executable = (\<lambda>_. True)\<rparr>
      (config_init_defaults\<lparr>video_path := ''v''\<rparr>) s = (0, c, s') \<and>
    video_width c = 1920 \<and> video_duration_sec c = Fin 35"
proof -
  let ?fs = "\<lparr>fs_text = (\<lambda>_. None), fs_fifo = (\<lambda>_. False), fs_readable = (\<lambda>_. True), fs_executable = (\<lambda>_. True)\<rparr>"
  let ?c = "config_init_defaults\<lparr>video_path := ''v''\<rparr>"
  let ?s = "px_start (\<lambda>n. if n = 0 then 1 else 0) (\<lambda>_. Received [])"
  have i: "int32 1920" "int32 1080" "int32 30" "int32 1" by (simp_all add: int32_def)
  have "\<exists>s'. config_probe_video (\<lambda>_. Some (Fin 35)) (\<lambda>_. [probe_line 1920 1080 30 1, ''35.0'']) ?fs ?c ?s = (0, ?c\<lparr>
      video_duration_sec := (case Some (Fin 35) of None \<Rightarrow> Fin 0 | Some d \<Rightarrow> d),
      video_fps := (if (1 :: int) \<noteq> 0 then f_div fl64 (fl64 (of_int 30)) (fl64 (of_int 1))
                    else case Some (Fin 35) of None \<Rightarrow> Fin 0 | Some d \<Rightarrow> d),
      video_width := 1920, video_height := 1080\<rparr>, s')"
    by (rule config_probe_reads [OF _ _ _ _ i]) (auto simp: px_start_def)
  then show ?thesis by fastforce
qed

end
