(* ===== verification/ProcessManager.thy ===== *)
theory ProcessManager
  imports Config
begin

text \<open>
  The child processes of the streaming server, \<^verbatim>\<open>src/pi-streaming/process_manager.c\<close>: the RTSP server
  mediaMTX and the encoder FFmpeg, started with \<^verbatim>\<open>fork\<close> and \<^verbatim>\<open>execl\<close>, stopped with SIGTERM and, when they do
  not go, with SIGKILL. What the kernel answers is the parameter of \<open>posix\<close>; \<open>px_spawned\<close> records the
  programs started with their arguments and \<open>px_signals\<close> the signals sent. Redirecting the output of a
  child has no part in the model.
\<close>

section \<open>State\<close>

record ProcessManager =
  mediamtx_pid :: int
  ffmpeg_pid :: int
  mediamtx_running :: bool
  ffmpeg_running :: bool

definition pm_init :: ProcessManager where
  "pm_init = \<lparr>mediamtx_pid = 0, ffmpeg_pid = 0, mediamtx_running = False, ffmpeg_running = False\<rparr>"

section \<open>Command lines\<close>

definition mediamtx_args :: "StreamingConfig \<Rightarrow> string list" where
  "mediamtx_args config = [mediamtx_path config, mediamtx_path config, mediamtx_config config]"

definition rtsp_url :: "StreamingConfig \<Rightarrow> string" where
  "rtsp_url config =
    fst (snprintf 256 (''rtsp://localhost:'' @ show_int (rtsp_port config) @ ''/'' @ rtsp_stream_name config))"

definition fps_str :: "StreamingConfig \<Rightarrow> string" where
  "fps_str config =
    fst (snprintf 16 (show_fixed 0 False
      (if f_less (Fin 0) (video_fps config) then video_fps config else Fin 30)))"

definition ffmpeg_output :: "StreamingConfig \<Rightarrow> string list" where
  "ffmpeg_output config = [''-an'', ''-f'', ''rtsp'', ''-rtsp_transport'', ''tcp'', rtsp_url config]"

definition ffmpeg_encode :: "StreamingConfig \<Rightarrow> string list" where
  "ffmpeg_encode config =
    [''-i'', video_path config, ''-c:v'', ''libx264'', ''-profile:v'', ''baseline'', ''-level'', ''4.0'',
     ''-preset'', ''ultrafast'', ''-tune'', ''zerolatency'', ''-pix_fmt'', ''yuv420p'', ''-g'', ''30'',
     ''-keyint_min'', ''30'', ''-b:v'', ''5M'', ''-maxrate'', ''6M'', ''-bufsize'', ''10M''] @
    ffmpeg_output config"

text \<open>A named pipe is remuxed, a file is encoded, once or for ever.\<close>

definition ffmpeg_args :: "files \<Rightarrow> StreamingConfig \<Rightarrow> string list" where
  "ffmpeg_args fs config =
    [''/usr/bin/ffmpeg'', ''ffmpeg''] @
    (if config_is_fifo fs (video_path config)
     then [''-probesize'', ''10000000'', ''-analyzeduration'', ''2000000'', ''-fflags'', ''+nobuffer'',
           ''-use_wallclock_as_timestamps'', ''1'', ''-r'', fps_str config, ''-f'', ''h264'',
           ''-i'', video_path config, ''-c:v'', ''copy''] @ ffmpeg_output config
     else if loop_video config
     then [''-re'', ''-stream_loop'', ''-1''] @ ffmpeg_encode config
     else [''-re''] @ ffmpeg_encode config)"

section \<open>Starting\<close>

definition pm_start_mediamtx :: "StreamingConfig \<Rightarrow> ProcessManager \<Rightarrow> posix \<Rightarrow> int \<times> ProcessManager \<times> posix" where
  "pm_start_mediamtx config pm s =
    (if mediamtx_running pm then (0, pm, s)
     else let (pid, s) = px_spawn (mediamtx_args config) s
          in if pid < 0 then (- 1, pm, s)
             else (0, pm\<lparr>mediamtx_pid := pid, mediamtx_running := True\<rparr>, s))"

definition pm_start_ffmpeg ::
    "files \<Rightarrow> StreamingConfig \<Rightarrow> ProcessManager \<Rightarrow> posix \<Rightarrow> int \<times> ProcessManager \<times> posix" where
  "pm_start_ffmpeg fs config pm s =
    (if ffmpeg_running pm then (0, pm, s)
     else let (pid, s) = px_spawn (ffmpeg_args fs config) s
          in if pid < 0 then (- 1, pm, s)
             else (0, pm\<lparr>ffmpeg_pid := pid, ffmpeg_running := True\<rparr>, s))"

section \<open>Stopping\<close>

text \<open>Whether a process is gone, and the loop that waits for it in steps of 100 ms.\<close>

definition pid_gone :: "int \<Rightarrow> posix \<Rightarrow> bool \<times> posix" where
  "pid_gone pid s = (let (r, s) = px_kill pid 0 s in (r = - ESRCH, s))"

fun wait_gone :: "nat \<Rightarrow> int \<Rightarrow> posix \<Rightarrow> bool \<times> posix" where
  "wait_gone 0 pid s = (False, s)"
| "wait_gone (Suc n) pid s =
    (let (gone, s) = pid_gone pid s
     in if gone then (True, s) else wait_gone n pid (px_usleep 100000 s))"

text \<open>SIGTERM, a wait, and SIGKILL when the process is still there.\<close>

definition terminate_child :: "nat \<Rightarrow> int \<Rightarrow> posix \<Rightarrow> posix" where
  "terminate_child polls pid s =
    (let (r, s) = px_kill pid SIGTERM s
     in if r = 0
        then let (gone, s) = wait_gone polls pid s
             in if gone then s else snd (px_kill pid SIGKILL s)
        else s)"

definition pm_stop_mediamtx :: "ProcessManager \<Rightarrow> posix \<Rightarrow> ProcessManager \<times> posix" where
  "pm_stop_mediamtx pm s =
    (if \<not> mediamtx_running pm \<or> mediamtx_pid pm \<le> 0 then (pm, s)
     else (pm\<lparr>mediamtx_pid := 0, mediamtx_running := False\<rparr>, terminate_child 30 (mediamtx_pid pm) s))"

definition pm_stop_ffmpeg :: "ProcessManager \<Rightarrow> posix \<Rightarrow> ProcessManager \<times> posix" where
  "pm_stop_ffmpeg pm s =
    (if \<not> ffmpeg_running pm \<or> ffmpeg_pid pm \<le> 0 then (pm, s)
     else (pm\<lparr>ffmpeg_pid := 0, ffmpeg_running := False\<rparr>, terminate_child 20 (ffmpeg_pid pm) s))"

section \<open>Watching\<close>

definition pm_check_processes :: "ProcessManager \<Rightarrow> posix \<Rightarrow> ProcessManager \<times> posix" where
  "pm_check_processes pm s =
    (let (gone, s) = (if 0 < mediamtx_pid pm then pid_gone (mediamtx_pid pm) s else (False, s));
         pm = (if gone then pm\<lparr>mediamtx_pid := 0, mediamtx_running := False\<rparr> else pm);
         (gone, s) = (if 0 < ffmpeg_pid pm then pid_gone (ffmpeg_pid pm) s else (False, s));
         pm = (if gone then pm\<lparr>ffmpeg_pid := 0, ffmpeg_running := False\<rparr> else pm)
     in (pm, s))"

definition pm_is_mediamtx_running :: "ProcessManager \<Rightarrow> posix \<Rightarrow> bool \<times> ProcessManager \<times> posix" where
  "pm_is_mediamtx_running pm s =
    (let (pm, s) = pm_check_processes pm s in (mediamtx_running pm, pm, s))"

definition pm_is_ffmpeg_running :: "ProcessManager \<Rightarrow> posix \<Rightarrow> bool \<times> ProcessManager \<times> posix" where
  "pm_is_ffmpeg_running pm s =
    (let (pm, s) = pm_check_processes pm s in (ffmpeg_running pm, pm, s))"

definition pm_cleanup :: "ProcessManager \<Rightarrow> posix \<Rightarrow> ProcessManager \<times> posix" where
  "pm_cleanup pm s = (let (pm, s) = pm_stop_ffmpeg pm s in pm_stop_mediamtx pm s)"

text \<open>Waiting until mediaMTX accepts connections: at most \<open>n\<close> attempts, 100 ms apart.\<close>

fun wait_ready :: "nat \<Rightarrow> posix \<Rightarrow> int \<times> posix" where
  "wait_ready 0 s = (- 1, s)"
| "wait_ready (Suc n) s =
    (let (sock, s) = px_open s
     in if sock < 0 then wait_ready n (px_usleep 100000 s)
        else let (r, s) = px_ask s;
                 s = px_close sock s
             in if r = 0 then (0, s) else wait_ready n (px_usleep 100000 s))"

definition pm_wait_for_mediamtx_ready :: "nat \<Rightarrow> posix \<Rightarrow> int \<times> posix" where
  "pm_wait_for_mediamtx_ready timeout_sec s = wait_ready (timeout_sec * 10) s"

section \<open>Facts\<close>

text \<open>A process is recorded as running exactly when its number is.\<close>

definition pm_wf :: "ProcessManager \<Rightarrow> bool" where
  "pm_wf pm \<longleftrightarrow> 0 \<le> mediamtx_pid pm \<and> 0 \<le> ffmpeg_pid pm \<and>
     (mediamtx_running pm \<longleftrightarrow> 0 < mediamtx_pid pm) \<and> (ffmpeg_running pm \<longleftrightarrow> 0 < ffmpeg_pid pm)"

lemma px_spawn_pid: "px_spawn args s = (pid, s') \<Longrightarrow> 0 < pid \<or> pid = - 1"
  by (auto simp: px_spawn_def Let_def split: prod.splits if_splits)

text \<open>What a check may find: each of the children gone.\<close>

definition forget_mediamtx :: "bool \<Rightarrow> ProcessManager \<Rightarrow> ProcessManager" where
  "forget_mediamtx gone pm = (if gone then pm\<lparr>mediamtx_pid := 0, mediamtx_running := False\<rparr> else pm)"

definition forget_ffmpeg :: "bool \<Rightarrow> ProcessManager \<Rightarrow> ProcessManager" where
  "forget_ffmpeg gone pm = (if gone then pm\<lparr>ffmpeg_pid := 0, ffmpeg_running := False\<rparr> else pm)"

lemma pm_check_cases: "\<exists>m f. fst (pm_check_processes pm s) = forget_ffmpeg f (forget_mediamtx m pm)"
proof -
  obtain m s1 where 1: "(if 0 < mediamtx_pid pm then pid_gone (mediamtx_pid pm) s else (False, s)) = (m, s1)"
    by (metis surj_pair)
  let ?pm = "if m then pm\<lparr>mediamtx_pid := 0, mediamtx_running := False\<rparr> else pm"
  obtain f s2 where 2: "(if 0 < ffmpeg_pid ?pm then pid_gone (ffmpeg_pid ?pm) s1 else (False, s1)) = (f, s2)"
    by (metis surj_pair)
  have "fst (pm_check_processes pm s) = forget_ffmpeg f (forget_mediamtx m pm)"
    unfolding pm_check_processes_def 1 Let_def prod.case 2 by (simp add: forget_ffmpeg_def forget_mediamtx_def)
  then show ?thesis by blast
qed

lemma pm_wf_ops:
  shows "pm_wf pm_init"
    and "pm_wf pm \<Longrightarrow> pm_wf (fst (snd (pm_start_mediamtx config pm s)))"
    and "pm_wf pm \<Longrightarrow> pm_wf (fst (snd (pm_start_ffmpeg fs config pm s)))"
    and "pm_wf pm \<Longrightarrow> pm_wf (fst (pm_stop_mediamtx pm s))"
    and "pm_wf pm \<Longrightarrow> pm_wf (fst (pm_stop_ffmpeg pm s))"
    and "pm_wf pm \<Longrightarrow> pm_wf (fst (pm_check_processes pm s))"
proof -
  show "pm_wf (fst (pm_check_processes pm s))" if "pm_wf pm"
  proof -
    have "pm_wf (forget_ffmpeg f (forget_mediamtx m pm))" for m f
      using that by (cases m; cases f) (simp_all add: forget_ffmpeg_def forget_mediamtx_def pm_wf_def)
    then show ?thesis using pm_check_cases [of pm s] by metis
  qed
qed (auto simp: pm_wf_def pm_init_def pm_start_mediamtx_def pm_start_ffmpeg_def pm_stop_mediamtx_def
    pm_stop_ffmpeg_def dest: px_spawn_pid split: prod.splits if_splits)

lemma pid_gone_effect:
  "pid_gone pid s = (px_answers s (px_asked s) = - ESRCH, s\<lparr>px_asked := Suc (px_asked s)\<rparr>)"
  by (simp add: pid_gone_def px_kill_def px_ask_def)

lemma wait_gone_effect:
  assumes "wait_gone n pid s = (gone, s')"
  shows "(gone \<longleftrightarrow> (\<exists>k<n. px_answers s (px_asked s + k) = - ESRCH)) \<and>
    px_signals s' = px_signals s \<and> px_slept s' \<le> px_slept s + 100000 * n"
  using assms
proof (induction n arbitrary: s)
  case (Suc n)
  show ?case
  proof (cases "px_answers s (px_asked s) = - ESRCH")
    case True
    then show ?thesis using Suc.prems by (auto simp: pid_gone_effect)
  next
    case False
    let ?s = "px_usleep 100000 (s\<lparr>px_asked := Suc (px_asked s)\<rparr>)"
    have "wait_gone n pid ?s = (gone, s')" using Suc.prems False by (simp add: pid_gone_effect)
    from Suc.IH [OF this] have ih: "gone \<longleftrightarrow> (\<exists>k<n. px_answers s (px_asked s + Suc k) = - ESRCH)"
      "px_signals s' = px_signals s" "px_slept s' \<le> px_slept s + 100000 + 100000 * n"
      by (simp_all add: px_usleep_def)
    have "(\<exists>k<Suc n. px_answers s (px_asked s + k) = - ESRCH) \<longleftrightarrow>
        (\<exists>k<n. px_answers s (px_asked s + Suc k) = - ESRCH)"
      using False by (metis Suc_less_eq add.right_neutral less_Suc_eq_0_disj)
    then show ?thesis using ih by simp
  qed
qed simp

text \<open>The process is still there when all polls have been made.\<close>

definition outlives :: "nat \<Rightarrow> posix \<Rightarrow> bool" where
  "outlives polls s \<longleftrightarrow> px_answers s (px_asked s) = 0 \<and>
     (\<forall>k<polls. px_answers s (Suc (px_asked s) + k) \<noteq> - ESRCH)"

lemma terminate_child_effect:
  "px_signals (terminate_child polls pid s)
     = px_signals s @ [(pid, SIGTERM)] @ (if outlives polls s then [(pid, SIGKILL)] else [])"
  "px_slept (terminate_child polls pid s) \<le> px_slept s + 100000 * polls"
proof -
  let ?s = "s\<lparr>px_asked := Suc (px_asked s), px_signals := px_signals s @ [(pid, SIGTERM)]\<rparr>"
  have k: "px_kill pid SIGTERM s = (px_answers s (px_asked s), ?s)"
    by (simp add: px_kill_def px_ask_def px_codes)
  obtain gone s1 where w: "wait_gone polls pid ?s = (gone, s1)" by (cases "wait_gone polls pid ?s") auto
  note e = wait_gone_effect [OF w]
  have gone: "px_answers s (px_asked s) = 0 \<Longrightarrow> gone \<longleftrightarrow> \<not> outlives polls s"
    using e by (auto simp: outlives_def)
  have kill: "px_signals (snd (px_kill pid SIGKILL s1)) = px_signals s1 @ [(pid, SIGKILL)]"
    "px_slept (snd (px_kill pid SIGKILL s1)) = px_slept s1"
    by (simp_all add: px_kill_def px_ask_def px_codes)
  show "px_signals (terminate_child polls pid s)
     = px_signals s @ [(pid, SIGTERM)] @ (if outlives polls s then [(pid, SIGKILL)] else [])"
    using e gone kill(1) by (auto simp: terminate_child_def k w outlives_def)
  show "px_slept (terminate_child polls pid s) \<le> px_slept s + 100000 * polls"
    using e kill(2) by (auto simp: terminate_child_def k w)
qed

lemma wait_ready_bounded: "px_slept (snd (wait_ready n s)) \<le> px_slept s + 100000 * n"
proof (induction n arbitrary: s)
  case (Suc n)
  obtain sock s1 where 1: "px_open s = (sock, s1)" by (cases "px_open s") auto
  obtain r s2 where 2: "px_ask s1 = (r, s2)" by (cases "px_ask s1") auto
  have slept: "px_slept s1 = px_slept s" "px_slept (px_close sock s2) = px_slept s"
    using 1 2 by (auto simp: px_open_def px_ask_def px_close_def Let_def split: if_splits)
  show ?case
    using Suc.IH [of "px_usleep 100000 s1"] Suc.IH [of "px_usleep 100000 (px_close sock s2)"] slept
    by (simp add: 1 2 Let_def px_usleep_def)
qed simp

section \<open>Properties\<close>

text \<open>C31. Stopping a child: the recorded process gets SIGTERM, and SIGKILL exactly when it accepted that signal
  and was still there in each of the polls that follow, 20 for FFmpeg and 30 for mediaMTX; it takes at
  most two or three seconds, and afterwards the child is recorded as not running.\<close>

lemma pm_stop_escalates:
  assumes "pm_wf pm" and "ffmpeg_running pm" and "mediamtx_running pm"
  shows "(case pm_stop_ffmpeg pm s of (pm', s') \<Rightarrow>
      pm' = pm\<lparr>ffmpeg_pid := 0, ffmpeg_running := False\<rparr> \<and>
      px_signals s' = px_signals s @ [(ffmpeg_pid pm, SIGTERM)] @
        (if outlives 20 s then [(ffmpeg_pid pm, SIGKILL)] else []) \<and>
      px_slept s' \<le> px_slept s + 2000000) \<and>
    (case pm_stop_mediamtx pm s of (pm', s') \<Rightarrow>
      pm' = pm\<lparr>mediamtx_pid := 0, mediamtx_running := False\<rparr> \<and>
      px_signals s' = px_signals s @ [(mediamtx_pid pm, SIGTERM)] @
        (if outlives 30 s then [(mediamtx_pid pm, SIGKILL)] else []) \<and>
      px_slept s' \<le> px_slept s + 3000000)"
  using assms terminate_child_effect(1) terminate_child_effect(2) [of 20 "ffmpeg_pid pm" s]
    terminate_child_effect(2) [of 30 "mediamtx_pid pm" s]
  by (simp add: pm_wf_def pm_stop_ffmpeg_def pm_stop_mediamtx_def)

lemma pm_stop_escalates_witness:
  "px_signals (snd (pm_stop_ffmpeg \<lparr>mediamtx_pid = 8, ffmpeg_pid = 9, mediamtx_running = True,
      ffmpeg_running = True\<rparr> (px_start (\<lambda>_. 0) (\<lambda>_. Received [])))) = [(9, SIGTERM), (9, SIGKILL)]"
proof -
  let ?pm = "\<lparr>mediamtx_pid = 8, ffmpeg_pid = 9, mediamtx_running = True, ffmpeg_running = True\<rparr>"
  let ?s = "px_start (\<lambda>_. 0) (\<lambda>_. Received [])"
  have "outlives 20 ?s" by (simp add: outlives_def px_start_def ESRCH_def)
  moreover have "pm_wf ?pm" by (simp add: pm_wf_def)
  ultimately show ?thesis using pm_stop_escalates [of ?pm ?s]
    by (auto simp: px_start_def split: prod.splits)
qed

text \<open>The process table of the server is consistent: under any of the operations a child is recorded as
  running exactly when a positive process number is recorded for it, and starting a child that runs
  starts no second one.\<close>

lemma pm_consistent:
  assumes "pm_wf pm"
  shows "pm_wf (fst (snd (pm_start_mediamtx config pm s))) \<and> pm_wf (fst (snd (pm_start_ffmpeg fs config pm s))) \<and>
    pm_wf (fst (pm_stop_mediamtx pm s)) \<and> pm_wf (fst (pm_stop_ffmpeg pm s)) \<and>
    pm_wf (fst (pm_check_processes pm s)) \<and> pm_wf (fst (pm_cleanup pm s)) \<and>
    (\<not> ffmpeg_running pm \<or> pm_start_ffmpeg fs config pm s = (0, pm, s)) \<and>
    (\<not> mediamtx_running pm \<or> pm_start_mediamtx config pm s = (0, pm, s))"
proof -
  have "pm_wf (fst (pm_cleanup pm s))"
    using pm_wf_ops(4) [OF pm_wf_ops(5) [OF assms]]
    by (metis (no_types, lifting) pm_cleanup_def case_prod_beta)
  then show ?thesis using pm_wf_ops(2-6) [OF assms] by (simp add: pm_start_ffmpeg_def pm_start_mediamtx_def)
qed

lemma pm_consistent_witness:
  "pm_wf (fst (snd (pm_start_mediamtx config_init_defaults pm_init (px_start (\<lambda>_. 0) (\<lambda>_. Received [])))))"
  using pm_consistent [OF pm_wf_ops(1)] by blast

end
