(* ===== verification/Log.thy ===== *)
theory Log
  imports Cstring
begin

text \<open>
  The logger, \<^verbatim>\<open>src/src/util/log/log.c\<close>: a line with the time, the level and the place of the call, written
  to the console in color, to a file, or to both. The sink is a constant of the configuration in the
  code and an argument here, so that every branch is in the model; \<^verbatim>\<open>log_config.h\<close> selects the console.
  What the clock, the mutexes and the writes answer are the stream \<open>log_answers\<close>; the formatted text of
  the user is an argument, as \<^verbatim>\<open>printf\<close> produces it.
\<close>

section \<open>State\<close>

datatype log_sink = LOG_SINK_STDOUT | LOG_SINK_FILE | LOG_SINK_STDOUT_AND_FILE

definition LOG_SINK_SELECT :: log_sink where "LOG_SINK_SELECT = LOG_SINK_STDOUT"
definition LOG_CONFIG_LOG_LINE_MAXLEN :: nat where "LOG_CONFIG_LOG_LINE_MAXLEN = 1024"
definition LOG_CONFIG_USER_MSG_MAXLEN :: nat where "LOG_CONFIG_USER_MSG_MAXLEN = 512"
definition ISO8601_TIME_LENGTH :: nat where "ISO8601_TIME_LENGTH = 18"
definition CONSOLE_COLOR_LENGTH :: nat where "CONSOLE_COLOR_LENGTH = 5"
definition LOG_LEVEL_NONE :: nat where "LOG_LEVEL_NONE = 4"

definition log_escape :: "string \<Rightarrow> string" where
  "log_escape code = CHR 0x1B # ''['' @ code @ ''m''"

definition console_colors :: "string list" where
  "console_colors = map log_escape [''97'', ''92'', ''33'', ''91'', ''39'']"

definition log_level_name :: "string list" where
  "log_level_name = [''DEBUG'', ''INFO'', ''WARNING'', ''ERROR'']"

text \<open>The broken-down local time.\<close>

record tm =
  tm_mday :: int
  tm_mon :: int
  tm_year :: int
  tm_hour :: int
  tm_min :: int
  tm_sec :: int

text \<open>What the program has written, and what the clock, the mutexes and the writes answer, in the order of the
  calls. The time is an argument of the operations that read it.\<close>

record logger =
  log_fd :: int
  log_console :: "string list"
  log_file :: "string list"
  log_answers :: "nat \<Rightarrow> int"
  log_asked :: nat

definition log_ask :: "logger \<Rightarrow> int \<times> logger" where
  "log_ask l = (log_answers l (log_asked l), l\<lparr>log_asked := Suc (log_asked l)\<rparr>)"

definition EINTR :: int where "EINTR = 4"

section \<open>Time\<close>

text \<open>The text of a time, and the whole call: nothing when it fails.\<close>

definition iso8601_text :: "tm \<Rightarrow> string" where
  "iso8601_text t = show_02d (tm_mday t) @ ''-'' @ show_02d (tm_mon t + 1) @ ''-'' @ show_02d (tm_year t - 100) @
     ''T'' @ show_02d (tm_hour t) @ '':'' @ show_02d (tm_min t) @ '':'' @ show_02d (tm_sec t)"

definition fill_iso8601_time :: "int \<Rightarrow> tm option \<Rightarrow> logger \<Rightarrow> string option \<times> logger" where
  "fill_iso8601_time now ptime l =
    (if now < 0 then (None, l)
     else let (r, l) = log_ask l
     in if r \<noteq> 0 then (None, l)
        else case ptime of
          None \<Rightarrow> (None, snd (log_ask l))
        | Some t \<Rightarrow>
           let (buffer, ret) = snprintf ISO8601_TIME_LENGTH (iso8601_text t);
               (r, l) = log_ask l
           in if r \<noteq> 0 then (None, l)
              else if ret \<noteq> ISO8601_TIME_LENGTH - 1 then (None, l)
              else (Some buffer, l))"

section \<open>Sinks\<close>

definition log_to_stdout :: "string \<Rightarrow> nat \<Rightarrow> nat \<Rightarrow> logger \<Rightarrow> logger" where
  "log_to_stdout log_line len level l =
    (let (colored, ret) = snprintf LOG_CONFIG_LOG_LINE_MAXLEN
                            (console_colors ! level @ log_line @ console_colors ! LOG_LEVEL_NONE)
     in if ret < len + CONSOLE_COLOR_LENGTH * 2 \<or> LOG_CONFIG_LOG_LINE_MAXLEN \<le> ret then l
        else let (r, l) = log_ask l
             in l\<lparr>log_console := log_console l @ [take (nat r) (take ret colored)]\<rparr>)"

text \<open>The loop around \<^verbatim>\<open>fsync\<close>, which is repeated when it is interrupted.\<close>

partial_function (option) log_fsync :: "logger \<Rightarrow> logger option" where
  "log_fsync l =
    (let (ret, l) = log_ask l in if ret = - EINTR then log_fsync l else Some l)"

definition log_to_file :: "string \<Rightarrow> nat \<Rightarrow> logger \<Rightarrow> logger option" where
  "log_to_file log_line len l =
    (let (r, l) = log_ask l;
         l = l\<lparr>log_file := log_file l @ [take (nat r) (take len log_line)]\<rparr>
     in if r \<noteq> int len then Some l else log_fsync l)"

section \<open>Operations\<close>

definition log_init :: "log_sink \<Rightarrow> logger \<Rightarrow> eStatus \<times> logger" where
  "log_init sink l =
    (if sink = LOG_SINK_STDOUT_AND_FILE \<or> sink = LOG_SINK_FILE
     then let (fd, l) = log_ask l;
              l = l\<lparr>log_fd := fd\<rparr>
          in if log_fd l < 0 then (eSTATUS_SYSTEM_ERROR, l) else (eSTATUS_SUCCESSFUL, l)
     else if sink \<noteq> LOG_SINK_STDOUT then (eSTATUS_INVALID_CONFIG, l)
     else (eSTATUS_SUCCESSFUL, l))"

text \<open>The descriptor is closed but kept in the variable.\<close>

definition log_exit :: "logger \<Rightarrow> logger" where
  "log_exit l = (if 0 \<le> log_fd l then snd (log_ask l) else l)"

definition log_text :: "nat \<Rightarrow> string \<Rightarrow> int \<Rightarrow> string \<Rightarrow> string \<Rightarrow> string \<Rightarrow> string" where
  "log_text level file line func time_str user_msg =
    ''['' @ time_str @ '']['' @ log_level_name ! level @ '']: '' @ file @ '':'' @ show_int line @
    '': In function '' @ [CHR 0x27] @ func @ [CHR 0x27] @ '': '' @ user_msg @ [newline]"

definition log_write :: "log_sink \<Rightarrow> nat \<Rightarrow> string \<Rightarrow> nat \<Rightarrow> logger \<Rightarrow> logger option" where
  "log_write sink level log_line ret l =
    (case sink of
       LOG_SINK_STDOUT_AND_FILE \<Rightarrow> log_to_file log_line ret (log_to_stdout log_line ret level l)
     | LOG_SINK_STDOUT \<Rightarrow> Some (log_to_stdout log_line ret level l)
     | LOG_SINK_FILE \<Rightarrow> log_to_file log_line ret l)"

definition log_private ::
    "log_sink \<Rightarrow> int \<Rightarrow> tm option \<Rightarrow> nat \<Rightarrow> string \<Rightarrow> int \<Rightarrow> string \<Rightarrow> string \<Rightarrow> logger \<Rightarrow> logger option" where
  "log_private sink now ptime level file line func message l =
    (let (time_str, l) = fill_iso8601_time now ptime l
     in case time_str of
          None \<Rightarrow> Some l
        | Some time_str \<Rightarrow>
           let (user_msg, ret) = snprintf LOG_CONFIG_USER_MSG_MAXLEN message
           in if LOG_CONFIG_USER_MSG_MAXLEN \<le> ret then Some l
              else let (log_line, ret) = snprintf LOG_CONFIG_LOG_LINE_MAXLEN
                                           (log_text level file line func time_str user_msg)
              in if LOG_CONFIG_LOG_LINE_MAXLEN \<le> ret then Some l
                 else let (r, l) = log_ask l
                 in if r \<noteq> 0 then Some l
                    else map_option (\<lambda>l. snd (log_ask l)) (log_write sink level log_line ret l))"

section \<open>Facts\<close>

lemma console_color_length: "level \<le> 4 \<Longrightarrow> length (console_colors ! level) = CONSOLE_COLOR_LENGTH"
  by (auto simp: console_colors_def log_escape_def CONSOLE_COLOR_LENGTH_def le_Suc_eq numeral_eq_Suc)

lemma show_02d_length: "0 \<le> i \<Longrightarrow> i < 100 \<Longrightarrow> length (show_02d i) = 2"
proof -
  assume i: "0 \<le> i" "i < 100"
  show "length (show_02d i) = 2"
  proof (cases "i < 10")
    case True
    then show ?thesis using i by (simp add: show_02d_def show_int_def show_nat.simps)
  next
    case False
    then have "nat i div 10 < 10" "\<not> nat i < 10" using i by auto
    then show ?thesis using False i
      by (simp add: show_02d_def show_int_def show_nat.simps [of "nat i"] show_nat.simps [of "nat i div 10"])
  qed
qed

text \<open>A time of this century.\<close>

definition tm_ok :: "tm \<Rightarrow> bool" where
  "tm_ok t \<longleftrightarrow> 0 \<le> tm_mday t \<and> tm_mday t < 100 \<and> 0 \<le> tm_mon t \<and> tm_mon t < 12 \<and>
     100 \<le> tm_year t \<and> tm_year t < 200 \<and> 0 \<le> tm_hour t \<and> tm_hour t < 100 \<and>
     0 \<le> tm_min t \<and> tm_min t < 100 \<and> 0 \<le> tm_sec t \<and> tm_sec t < 100"

lemma iso8601_text_length: "tm_ok t \<Longrightarrow> length (iso8601_text t) = 17"
  by (simp add: iso8601_text_def tm_ok_def show_02d_length)

section \<open>Properties\<close>

text \<open>A message reaches the console, whole and between its color codes, exactly when it is shorter than
  512 characters and its line shorter than 1014, at a time of this century and with a console that takes
  what it is given: a line of 1014 to 1023 characters still fits the buffer of a line, but not with the
  colors, and is dropped.\<close>

lemma log_line_on_console:
  assumes "0 \<le> now" and "tm_ok t" and "level \<le> 3" and "log_answers l = (\<lambda>n. if n = log_asked l + 3 then w else 0)"
    and "1024 \<le> w" and "full_line = log_text level file line func (iso8601_text t) message"
  shows "\<exists>l'. log_private LOG_SINK_SELECT now (Some t) level file line func message l = Some l' \<and>
    log_console l' = log_console l @
      (if length message < 512 \<and> length full_line < 1014
       then [console_colors ! level @ full_line @ console_colors ! LOG_LEVEL_NONE] else [])"
proof -
  have len: "length (iso8601_text t) = 17" using assms(2) by (rule iso8601_text_length)
  let ?l = "\<lambda>n. l\<lparr>log_asked := log_asked l + n\<rparr>"
  have ask: "log_ask (?l n) = (if n = 3 then w else 0, ?l (Suc n))" for n
    by (simp add: log_ask_def assms(4))
  have ask0: "log_ask l = (0, ?l 1)" by (simp add: log_ask_def assms(4))
  have ask1: "log_ask (?l 1) = (0, ?l 2)" by (simp add: log_ask_def assms(4) numeral_2_eq_2)
  have time: "fill_iso8601_time now (Some t) l = (Some (iso8601_text t), ?l 2)"
    using assms(1) len
    by (simp add: fill_iso8601_time_def snprintf_def ISO8601_TIME_LENGTH_def ask0 ask1 del: One_nat_def)
  show ?thesis
  proof (cases "length message < 512 \<and> length full_line < 1024")
    case False
    then show ?thesis using assms(6)
      by (auto simp: log_private_def time snprintf_def LOG_CONFIG_USER_MSG_MAXLEN_def
        LOG_CONFIG_LOG_LINE_MAXLEN_def Let_def ask)
  next
    case True
    then have msg: "take 511 message = message" "take 1023 full_line = full_line" by simp_all
    have run: "log_private LOG_SINK_SELECT now (Some t) level file line func message l
        = Some (snd (log_ask (log_to_stdout full_line (length full_line) level (?l 3))))"
      using True msg assms(6) ask [of 2]
      by (simp add: log_private_def time snprintf_def LOG_CONFIG_USER_MSG_MAXLEN_def
        LOG_CONFIG_LOG_LINE_MAXLEN_def Let_def log_write_def LOG_SINK_SELECT_def)
    have colors: "length (console_colors ! level) = 5" "length (console_colors ! LOG_LEVEL_NONE) = 5"
      using console_color_length assms(3) by (simp_all add: CONSOLE_COLOR_LENGTH_def LOG_LEVEL_NONE_def)
    have "log_console (log_to_stdout full_line (length full_line) level (?l 3)) = log_console l @
      (if length full_line < 1014 then [console_colors ! level @ full_line @ console_colors ! LOG_LEVEL_NONE] else [])"
      using colors ask [of 3] assms(5)
      by (auto simp: log_to_stdout_def snprintf_def LOG_CONFIG_LOG_LINE_MAXLEN_def CONSOLE_COLOR_LENGTH_def)
    then show ?thesis using True by (simp add: run log_ask_def)
  qed
qed

definition demo_logger :: logger where
  "demo_logger = \<lparr>log_fd = - 1, log_console = [], log_file = [],
     log_answers = (\<lambda>n. if n = 3 then 1024 else 0), log_asked = 0\<rparr>"

definition demo_tm :: tm where
  "demo_tm = \<lparr>tm_mday = 7, tm_mon = 10, tm_year = 125, tm_hour = 12, tm_min = 0, tm_sec = 59\<rparr>"

lemma log_line_on_console_witness:
  "\<exists>l. log_private LOG_SINK_SELECT 0 (Some demo_tm) 3 ''main.c'' 30 ''main'' ''failed'' demo_logger = Some l \<and>
    log_console l = [console_colors ! 3 @
      log_text 3 ''main.c'' 30 ''main'' (iso8601_text demo_tm) ''failed'' @ console_colors ! LOG_LEVEL_NONE]"
proof -
  have tm: "tm_ok demo_tm" by (simp add: tm_ok_def demo_tm_def)
  have len: "length (iso8601_text demo_tm) = 17" using tm by (rule iso8601_text_length)
  have "length (show_int 30) = 2" using show_02d_length [of 30] by (simp add: show_02d_def)
  then have "length (log_text 3 ''main.c'' 30 ''main'' (iso8601_text demo_tm) ''failed'') < 1014"
    by (simp add: log_text_def len log_level_name_def)
  then show ?thesis
    using log_line_on_console [of 0 demo_tm 3 demo_logger 1024 _ "''main.c''" 30 "''main''" "''failed''"] tm
    by (simp add: demo_logger_def)
qed

end
