(* ===== verification/Firmware.thy ===== *)
theory Firmware
  imports System Hal Log "HOL-Library.Monad_Syntax"
begin

text \<open>
  The program on the board, \<^verbatim>\<open>src/src/main.c\<close>: the start of the logger, the hardware layer, the event bus
  and the application, the first event, and the shutdown once all threads have ended.

  The objects of the sensor modules hold the driver that they use (\<open>d_uart\<close>, \<open>g_uart\<close>, \<open>t_gpio\<close>, \<open>s_i2c\<close>);
  \<open>attach_hal\<close> gives them the drivers as their initialisation has left them. The log messages of the
  failures have no part in the model. What the threads do while the program runs is the function
  \<open>threads\<close> of the memory, the drivers included, which is \<open>None\<close> when a thread does not end: \<^verbatim>\<open>app_join\<close>
  waits for all of them. What the life of the program needs of it is \<open>threads_leave\<close> of \<open>FirmwareLife\<close>.
\<close>

record firmware =
  fw_log :: logger
  fw_hal :: "callback hal"
  fw_app :: app

section \<open>Operations\<close>

definition attach_hal :: "callback hal \<Rightarrow> app \<Rightarrow> app" where
  "attach_hal h w =
    w\<lparr>a_ddl := (a_ddl w)\<lparr>
        m_distance := (m_distance (a_ddl w))\<lparr>active_fsm := (active_fsm (m_distance (a_ddl w)))\<lparr>fsm_arg :=
          (fsm_arg (active_fsm (m_distance (a_ddl w))))\<lparr>d_uart := hal_uart h\<rparr>\<rparr>\<rparr>,
        m_servo := (m_servo (a_ddl w))\<lparr>active_fsm := (active_fsm (m_servo (a_ddl w)))\<lparr>fsm_arg :=
          (fsm_arg (active_fsm (m_servo (a_ddl w))))\<lparr>s_i2c := hal_i2c h\<rparr>\<rparr>\<rparr>,
        m_temp_hum := (m_temp_hum (a_ddl w))\<lparr>active_fsm := (active_fsm (m_temp_hum (a_ddl w)))\<lparr>fsm_arg :=
          (fsm_arg (active_fsm (m_temp_hum (a_ddl w))))\<lparr>t_gpio := hal_gpio h\<rparr>\<rparr>\<rparr>,
        m_gps := (m_gps (a_ddl w))\<lparr>active_fsm := (active_fsm (m_gps (a_ddl w)))\<lparr>fsm_arg :=
          (fsm_arg (active_fsm (m_gps (a_ddl w))))\<lparr>g_uart := hal_uart h\<rparr>\<rparr>\<rparr>\<rparr>\<rparr>"

text \<open>The calls of the initialisation, in the memory of the program.\<close>

definition fw_log_init :: "firmware \<Rightarrow> eStatus \<times> firmware" where
  "fw_log_init fw = (let (st, l) = log_init LOG_SINK_SELECT (fw_log fw) in (st, fw\<lparr>fw_log := l\<rparr>))"

definition fw_hal_init :: "firmware \<Rightarrow> eStatus \<times> firmware" where
  "fw_hal_init fw =
    (let (st, h, s) = hal_init (fw_hal fw) (a_os (fw_app fw))
     in (st, fw\<lparr>fw_hal := h, fw_app := attach_hal h ((fw_app fw)\<lparr>a_os := s\<rparr>)\<rparr>))"

definition fw_bus_init :: "firmware \<Rightarrow> eStatus \<times> firmware" where
  "fw_bus_init fw =
    (let w = fw_app fw; (st, b, s) = util_event_bus_init (a_bus w) (a_os w)
     in (st, fw\<lparr>fw_app := w\<lparr>a_bus := b, a_os := s\<rparr>\<rparr>))"

definition fw_app_init :: "firmware \<Rightarrow> eStatus \<times> firmware" where
  "fw_app_init fw = (let (st, w) = app_init (fw_app fw) in (st, fw\<lparr>fw_app := w\<rparr>))"

definition fw_start :: "firmware \<Rightarrow> eStatus \<times> firmware" where
  "fw_start fw =
    (let (st, w) = app_publish eAO_SCHEDULER eSCHEDULER_EVENT_START (fw_app fw) in (st, fw\<lparr>fw_app := w\<rparr>))"

definition fw_bus_delete :: "firmware \<Rightarrow> firmware" where
  "fw_bus_delete fw =
    (let w = fw_app fw; (b, s) = util_event_bus_delete (a_bus w) (a_os w)
     in fw\<lparr>fw_app := w\<lparr>a_bus := b, a_os := s\<rparr>\<rparr>)"

definition fw_hal_cleanup :: "firmware \<Rightarrow> firmware" where
  "fw_hal_cleanup fw =
    (let (h, s) = hal_cleanup (fw_hal fw) (a_os (fw_app fw))
     in fw\<lparr>fw_hal := h, fw_app := (fw_app fw)\<lparr>a_os := s\<rparr>\<rparr>)"

definition fw_log_exit :: "firmware \<Rightarrow> firmware" where
  "fw_log_exit fw = fw\<lparr>fw_log := log_exit (fw_log fw)\<rparr>"

text \<open>The function \<^verbatim>\<open>main\<close>, in two parts: up to the publication of the first event, and the whole.\<close>

definition main_boot :: "firmware \<Rightarrow> eStatus \<times> firmware" where
  "main_boot fw =
    (let (status, fw) = fw_log_init fw
     in if failed status then (status, fw)
        else let (status, fw) = fw_hal_init fw
     in if failed status then (status, fw)
        else let (status, fw) = fw_bus_init fw
     in if failed status then (status, fw)
        else let (status, fw) = fw_app_init fw
     in if failed status then (status, fw) else fw_start fw)"

definition firmware_main :: "(firmware \<Rightarrow> firmware option) \<Rightarrow> firmware \<Rightarrow> (int \<times> firmware) option" where
  "firmware_main threads fw =
    (let (status, fw) = main_boot fw
     in if failed status then Some (1, fw)
        else do {
          fw \<leftarrow> threads fw;
          let fw = fw\<lparr>fw_app := app_join (fw_app fw)\<rparr>;
          let fw = fw\<lparr>fw_app := app_delete (fw_app fw)\<rparr>;
          let fw = fw_bus_delete fw;
          let fw = fw_hal_cleanup fw;
          Some (0, fw_log_exit fw)
        })"

section \<open>The start\<close>

text \<open>Starting the drivers only asks the operating system.\<close>

definition only_asked :: "os \<Rightarrow> os \<Rightarrow> bool" where
  "only_asked s s' \<longleftrightarrow> (\<exists>n. s' = s\<lparr>os_asked := n\<rparr>)"

lemma only_asked_refl [simp, intro]: "only_asked s s" "only_asked s (s\<lparr>os_asked := n\<rparr>)"
  by (auto simp: only_asked_def intro: exI [of _ "os_asked s"])

lemma only_asked_trans: "only_asked s s' \<Longrightarrow> only_asked s' s'' \<Longrightarrow> only_asked s s''"
  by (auto simp: only_asked_def)

lemma setup_device_asks:
  "gpio_setup_device i g s = (st, g', s') \<Longrightarrow> only_asked s s'"
  "uart_setup_device d u s = (st, u', s') \<Longrightarrow> only_asked s s'"
  "i2c_setup_device d c s = (st, c', s') \<Longrightarrow> only_asked s s'"
  by (auto simp: gpio_setup_device_def uart_setup_device_def i2c_setup_device_def ask_def Let_def
      split: if_splits option.splits)

lemma setup_devices_ask:
  "gpio_setup_devices is g s = (st, g', s') \<Longrightarrow> only_asked s s'"
  "uart_setup_devices is u s = (st, u', s') \<Longrightarrow> only_asked s s'"
  "i2c_setup_devices is c s = (st, c', s') \<Longrightarrow> only_asked s s'"
  by (induction "is" arbitrary: g u c s)
    (auto split: prod.splits if_splits dest!: setup_device_asks intro: only_asked_trans)

lemma hal_init_asks:
  assumes "hal_init h s = (eSTATUS_SUCCESSFUL, h', s')"
  shows "only_asked s s'"
proof (rule hal_init_parts [OF assms])
  fix s1 s2
  assume g: "hal_gpio_init (hal_gpio h) s = (eSTATUS_SUCCESSFUL, hal_gpio h', s1)"
    and u: "hal_uart_init (hal_uart h) s1 = (eSTATUS_SUCCESSFUL, hal_uart h', s2)"
    and c: "hal_i2c_init (hal_i2c h) s2 = (eSTATUS_SUCCESSFUL, hal_i2c h', s')"
  have "only_asked s s1"
    using g by (auto simp: hal_gpio_init_def ask_def Let_def split: if_splits dest!: setup_devices_ask
      intro: only_asked_trans [rotated])
  moreover have "only_asked s1 s2"
  proof -
    obtain st u1 sa where a: "uart_setup_devices [0..<unat eUART_DEVICE_COUNT] (hal_uart h) s1 = (st, u1, sa)"
      by (metis prod_cases3)
    have "only_asked sa s2" using u a by (auto simp: hal_uart_init_def ask_def Let_def split: if_splits)
    then show ?thesis using setup_devices_ask(2) [OF a] only_asked_trans by blast
  qed
  moreover have "only_asked s2 s'" using c by (auto simp: hal_i2c_init_def dest: setup_devices_ask)
  ultimately show "only_asked s s'" using only_asked_trans by blast
qed

lemma attach_hal_rest [simp]:
  "a_bus (attach_hal h w) = a_bus w" "a_os (attach_hal h w) = a_os w"
  by (simp_all add: attach_hal_def)

text \<open>The program before its start: the drivers and the bus as they are initialised statically.\<close>

definition firmware_static :: "firmware \<Rightarrow> bool" where
  "firmware_static fw \<longleftrightarrow> (\<exists>stale incoming. fw_hal fw = static_hal stale incoming) \<and>
    length (subscriptions (a_bus (fw_app fw))) = eEVENT_BUS_MAX_SUBSCRIPTIONS \<and>
    os_wf (a_os (fw_app fw)) \<and> os_held (a_os (fw_app fw)) = []"

text \<open>The program after its start: everything runs, and the scheduler has its start event to handle. The start has
  created the six threads, and taken the memory of the objects and of the mutex of the bus; the log,
  whose sink is the console, is as it was.\<close>

definition firmware_running :: "firmware \<Rightarrow> firmware \<Rightarrow> bool" where
  "firmware_running fw0 fw \<longleftrightarrow> app_wf (fw_app fw) \<and> fw_log fw = fw_log fw0 \<and>
    os_threads (a_os (fw_app fw)) = app_threads (fw_app fw) @ os_threads (a_os (fw_app fw0)) \<and>
    os_live (a_os (fw_app fw))
      = app_blocks (fw_app fw) @ bus_mutex (a_bus (fw_app fw)) # os_live (a_os (fw_app fw0)) \<and>
    (\<forall>ao\<in>set app_aos. queue_list (app_queue ao (fw_app fw)) =
      (if ao = eAO_SCHEDULER then [\<lparr>etype = eSCHEDULER_EVENT_START\<rparr>] else [])) \<and>
    gpio_chip (hal_gpio (fw_hal fw)) \<and> uart_running (hal_uart (fw_hal fw)) \<and> uart_thread (hal_uart (fw_hal fw)) \<and>
    length (uart_open_fds (hal_uart (fw_hal fw))) = 3 \<and> length (i2c_open (hal_i2c (fw_hal fw))) = 1"

lemma hal_init_running:
  assumes "hal_init (static_hal stale incoming) s = (eSTATUS_SUCCESSFUL, h, s1)"
  shows "gpio_chip (hal_gpio h) \<and> uart_running (hal_uart h) \<and> uart_thread (hal_uart h) \<and>
    length (uart_open_fds (hal_uart h)) = 3 \<and> length (i2c_open (hal_i2c h)) = 1"
proof (rule hal_init_parts [OF assms])
  fix sa sb
  assume g: "hal_gpio_init (hal_gpio (static_hal stale incoming)) s = (eSTATUS_SUCCESSFUL, hal_gpio h, sa)"
    and u: "hal_uart_init (hal_uart (static_hal stale incoming)) sa = (eSTATUS_SUCCESSFUL, hal_uart h, sb)"
    and c: "hal_i2c_init (hal_i2c (static_hal stale incoming)) sb = (eSTATUS_SUCCESSFUL, hal_i2c h, s1)"
  have len: "length (uart_devices (static_uart stale :: callback uart)) = 3" by (simp add: static_uart_def)
  note ur = hal_uart_init_success [OF u]
  have gpio: "gpio_setup_device i v t = (st, v', t') \<Longrightarrow> gpio_chip v' = gpio_chip v" for i v t st v' t'
    by (auto simp: gpio_setup_device_def ask_def Let_def split: if_splits option.splits)
  have gpios: "gpio_setup_devices is v t = (st, v', t') \<Longrightarrow> gpio_chip v' = gpio_chip v" for "is" v t st v' t'
    by (induction "is" arbitrary: v t) (auto split: prod.splits if_splits dest: gpio)
  have "gpio_chip (hal_gpio h)"
    using g by (auto simp: hal_gpio_init_def ask_def Let_def split: if_splits dest!: gpios)
  moreover have "length (i2c_open (hal_i2c h)) = 1"
    using hal_i2c_init_success [OF c] by (simp add: static_hal_def static_i2c_def)
  moreover have "uart_running (hal_uart h) \<and> uart_thread (hal_uart h) \<and> length (uart_open_fds (hal_uart h)) = 3"
    using ur by (simp add: static_hal_def static_uart_def)
  ultimately show ?thesis by blast
qed

lemma bus_init_threads:
  "util_event_bus_init b s = (st, b', s') \<Longrightarrow> os_threads s' = os_threads s"
  by (auto simp: util_event_bus_init_def osal_mutex_init_def osal_alloc_def osal_dealloc_def ask_def Let_def
      split: if_splits prod.splits)

lemma main_boot_result:
  assumes "firmware_static fw" and "main_boot fw = (eSTATUS_SUCCESSFUL, fw')"
  shows "firmware_running fw fw' \<and> boot_ok (a_bus (fw_app fw')) (a_os (fw_app fw')) \<and> (\<exists>stale incoming s s'.
    hal_init (static_hal stale incoming) s = (eSTATUS_SUCCESSFUL, fw_hal fw', s'))"
proof -
  obtain stale incoming where h0: "fw_hal fw = static_hal stale incoming"
    using assms(1) by (auto simp: firmware_static_def)
  obtain fw1 where 1: "fw_log_init fw = (eSTATUS_SUCCESSFUL, fw1)" "fw_hal fw1 = fw_hal fw" "fw_app fw1 = fw_app fw"
    "fw_log fw1 = fw_log fw"
    by (simp add: fw_log_init_def log_init_def LOG_SINK_SELECT_def)
  obtain st h s where h: "hal_init (fw_hal fw) (a_os (fw_app fw)) = (st, h, s)" by (metis prod_cases3)
  define fw2 where "fw2 = fw1\<lparr>fw_hal := h, fw_app := attach_hal h ((fw_app fw)\<lparr>a_os := s\<rparr>)\<rparr>"
  obtain st3 b s3 where b: "util_event_bus_init (a_bus (fw_app fw)) s = (st3, b, s3)" by (metis prod_cases3)
  define fw3 where "fw3 = fw2\<lparr>fw_app := (fw_app fw2)\<lparr>a_bus := b, a_os := s3\<rparr>\<rparr>"
  obtain st4 w4 where w4: "app_init (fw_app fw3) = (st4, w4)" by fastforce
  obtain st5 w5 where w5: "app_publish eAO_SCHEDULER eSCHEDULER_EVENT_START w4 = (st5, w5)" by fastforce
  have st: "st = eSTATUS_SUCCESSFUL" "st3 = eSTATUS_SUCCESSFUL" "st4 = eSTATUS_SUCCESSFUL"
    and fw': "fw' = fw3\<lparr>fw_app := w5\<rparr>"
    using assms(2) 1 h b w4 w5
    by (auto simp: main_boot_def fw_hal_init_def fw_bus_init_def fw_app_init_def fw_start_def fw2_def fw3_def
        Let_def split: if_splits)
  have asked: "only_asked (a_os (fw_app fw)) s" using hal_init_asks h st(1) by blast
  have "os_wf s" "os_held s = []"
    using asked assms(1) by (auto simp: firmware_static_def only_asked_def os_wf_def)
  then have bw: "bus_wf b" "bus_list b = []" "bus_usable b s3" "os_wf s3" "os_held s3 = []"
    "os_live s3 = bus_mutex b # os_live s"
    using bus_init_wf [OF _ b [unfolded st]] assms(1) by (auto simp: firmware_static_def)
  have "a_bus (fw_app fw3) = b" "a_os (fw_app fw3) = s3" by (simp_all add: fw3_def)
  then have started: "app_started w4 s3"
    using app_init_started [OF w4 [unfolded st]] bw by (simp add: boot_ok_def)
  have sub: "(eAO_SCHEDULER, eSCHEDULER_EVENT_START) \<in> set subscribed" by (simp add: subscribed_def)
  have wf4: "app_wf w4" using started by (simp add: app_started_def)
  have post: "app_wf w5" "posted app_queue app_aos eAO_SCHEDULER \<lparr>etype = eSCHEDULER_EVENT_START\<rparr> w4 w5 (a_os w4)"
    and rest: "same_rest w4 w5" using app_publish_subscribed [OF wf4 sub] w5 by auto
  have own: "os_threads (a_os w5) = app_threads w5 @ os_threads (a_os (fw_app fw))"
    "os_live (a_os w5) = app_blocks w5 @ bus_mutex (a_bus w5) # os_live (a_os (fw_app fw))"
    "boot_ok (a_bus w5) (a_os w5)"
  proof -
    have w: "a_bus w5 = a_bus w4" "a_os w5 = a_os w4" "app_blocks w5 = app_blocks w4"
      using rest by (simp_all add: same_rest_def)
    then have "app_threads w5 = app_threads w4" by (simp add: app_blocks_def app_threads_def ao_blocks_def)
    moreover have "os_threads s3 = os_threads (a_os (fw_app fw))" "os_live s = os_live (a_os (fw_app fw))"
      using asked bus_init_threads [OF b] by (auto simp: only_asked_def)
    moreover have "bus_mutex (a_bus w4) = bus_mutex b"
      using app_init_success [OF w4 [unfolded st]] bw \<open>a_bus (fw_app fw3) = b\<close> \<open>a_os (fw_app fw3) = s3\<close>
      by (simp add: boot_ok_def)
    ultimately show "os_threads (a_os w5) = app_threads w5 @ os_threads (a_os (fw_app fw))"
      "os_live (a_os w5) = app_blocks w5 @ bus_mutex (a_bus w5) # os_live (a_os (fw_app fw))"
      "boot_ok (a_bus w5) (a_os w5)"
      using started w bw(6) by (simp_all add: app_started_def)
  qed
  have q4: "queue_list (app_queue ao w4) = []" "q_capacity (app_queue ao w4) = 4" if "ao \<in> set app_aos" for ao
    using started that by (simp_all add: app_started_def)
  have room: "unat (q_size (app_queue ao w4)) = 0" if "ao \<in> set app_aos" for ao
    using q4(1) [OF that] by (simp add: queue_list_empty_iff)
  have "queue_list (app_queue ao w5) = (if ao = eAO_SCHEDULER then [\<lparr>etype = eSCHEDULER_EVENT_START\<rparr>] else [])"
    if "ao \<in> set app_aos" for ao
    using post(2) q4 [OF that] room [OF that] that by (auto simp: posted_def)
  moreover have "fw_hal fw' = h" by (simp add: fw' fw3_def fw2_def)
  ultimately show ?thesis
    using post(1) hal_init_running [OF h [unfolded h0 st]] h [unfolded h0 st] own 1(4)
    by (auto simp: firmware_running_def fw' fw3_def fw2_def)
qed

lemma hal_cleanup_asks:
  assumes "hal_cleanup h s = (h', s')"
  shows "only_asked s s'"
proof -
  have g: "io_uring_get_sqe u s = (e, u', s') \<Longrightarrow> only_asked s s'"
    "io_uring_submit u s = (r, u', s') \<Longrightarrow> only_asked s s'" for u :: "'a uart" and s e u' s' r
    by (auto simp: io_uring_get_sqe_def io_uring_submit_def ask_def split: if_splits)
  have "only_asked s (snd (hal_uart_cleanup u s))" for u :: "'a uart"
    by (auto simp: hal_uart_cleanup_def Let_def split: prod.splits option.splits dest!: g intro: only_asked_trans)
  then show ?thesis using assms
    by (auto simp: hal_cleanup_def hal_drivers_def split: prod.splits)
      (metis snd_conv)
qed

section \<open>A board that boots\<close>

text \<open>A board with all its devices, on which everything is granted.\<close>

definition boot_answers :: "nat \<Rightarrow> int" where
  "boot_answers n = (if n < 24 then board_answers n else if n = 24 then 1 else if n = 25 then 0
     else start_answers (n - 26))"

definition board_firmware :: firmware where
  "board_firmware = \<lparr>
     fw_log = \<lparr>log_fd = - 1, log_console = [], log_file = [], log_answers = (\<lambda>_. 0), log_asked = 0\<rparr>,
     fw_hal = static_hal (\<lambda>_. None) (\<lambda>_. 0),
     fw_app = demo_app\<lparr>a_bus := static_bus, a_os := boot_os boot_answers us_clock\<rparr>\<rparr>"

lemma board_hal_init:
  assumes "\<And>n. n < 24 \<Longrightarrow> replies n = board_answers n"
  shows "\<exists>h. hal_init (static_hal (\<lambda>_. None) (\<lambda>_. 0) :: callback hal) (boot_os replies clock)
    = (eSTATUS_SUCCESSFUL, h, (boot_os replies clock)\<lparr>os_asked := 24\<rparr>)"
proof -
  obtain st h s1 where r: "hal_init (static_hal (\<lambda>_. None) (\<lambda>_. 0) :: callback hal)
      (boot_os replies clock) = (st, h, s1)"
    by (metis prod_cases3)
  moreover have "[0..<2] = [0, 1 :: nat]" "[0..<3] = [0, 1, 2 :: nat]"
    by (simp_all add: upt_conv_Cons)
  ultimately have "st = eSTATUS_SUCCESSFUL" "s1 = (boot_os replies clock)\<lparr>os_asked := 24\<rparr>"
    by (auto simp: i2c_codes hal_init_def hal_drivers_def static_hal_def hal_gpio_init_def gpio_device_indices
        gpio_setup_device_def hal_uart_init_def uart_device_indices uart_setup_device_def
        hal_i2c_init_def i2c_device_indices i2c_setup_device_def ask_def boot_os_def Let_def
        assms board_answers_def static_gpio_def static_gpio_device_def gpio_codes gpio_request_type_def
        gpio_request_flags_def static_uart_def static_uart_device_def static_i2c_def uart_codes)
  then show ?thesis using r by blast
qed

text \<open>The bus of such a board, after its drivers.\<close>

lemma board_bus_init:
  assumes "replies 24 = 1" and "replies 25 = 0"
  shows "\<exists>b s. util_event_bus_init (static_bus :: post_fn event_bus) ((boot_os replies clock)\<lparr>os_asked := 24\<rparr>)
      = (eSTATUS_SUCCESSFUL, b, s) \<and>
    os_answers s = replies \<and> os_asked s = 26 \<and> boot_ok b s \<and> bus_list b = [] \<and> os_threads s = []"
proof -
  let ?s = "(boot_os replies clock)\<lparr>os_asked := 24\<rparr>"
  obtain b s where b: "util_event_bus_init (static_bus :: post_fn event_bus) ?s = (eSTATUS_SUCCESSFUL, b, s)"
    and s: "os_answers s = replies" "os_asked s = 26" "os_threads s = []"
    using assms by (auto simp: util_event_bus_init_def osal_mutex_init_def osal_alloc_def ask_def boot_os_def Let_def)
  have s0: "os_wf ?s" "os_held ?s = []" by (simp_all add: os_wf_def boot_os_def)
  have "bus_wf b" "bus_list b = []" "bus_usable b s" "os_wf s" "os_held s = []"
    using bus_init_wf [OF _ b s0(1)] s0(2) by (auto simp: static_bus_def)
  then show ?thesis using b s by (auto simp: boot_ok_def)
qed

lemma board_firmware_static: "firmware_static board_firmware"
  by (auto simp: firmware_static_def board_firmware_def static_bus_def boot_os_def os_wf_def)

lemma board_boots: "fst (main_boot board_firmware) = eSTATUS_SUCCESSFUL"
proof -
  let ?s = "(boot_os boot_answers us_clock)\<lparr>os_asked := 24\<rparr>"
  obtain h where h: "hal_init (static_hal (\<lambda>_. None) (\<lambda>_. 0) :: callback hal) (boot_os boot_answers us_clock) = (eSTATUS_SUCCESSFUL, h, ?s)"
    using board_hal_init [of boot_answers us_clock] by (auto simp: boot_answers_def)
  obtain b s where b: "util_event_bus_init (static_bus :: post_fn event_bus) ?s = (eSTATUS_SUCCESSFUL, b, s)"
    and s: "os_answers s = boot_answers" "os_asked s = 26" and bw: "boot_ok b s" "bus_list b = []"
    using board_bus_init [of boot_answers us_clock] by (auto simp: boot_answers_def)
  define w where "w = (attach_hal h (demo_app\<lparr>a_bus := static_bus, a_os := ?s\<rparr>))\<lparr>a_bus := b, a_os := s\<rparr>"
  have "granted (a_os w)" by (simp add: w_def granted_def s boot_answers_def)
  moreover have "boot_ok (a_bus w) (a_os w)" "bus_list (a_bus w) = []"
    using bw by (simp_all add: w_def)
  ultimately have "fst (app_init w) = eSTATUS_SUCCESSFUL" by (intro app_init_granted)
  then obtain w' where w': "app_init w = (eSTATUS_SUCCESSFUL, w')" by (cases "app_init w") simp
  have "app_started w' (a_os w)"
    using app_init_started [OF w'] \<open>boot_ok (a_bus w) (a_os w)\<close> \<open>bus_list (a_bus w) = []\<close> by blast
  then have "app_wf w'" by (simp add: app_started_def)
  moreover have "(eAO_SCHEDULER, eSCHEDULER_EVENT_START) \<in> set subscribed" by (simp add: subscribed_def)
  ultimately obtain w'' where "app_publish eAO_SCHEDULER eSCHEDULER_EVENT_START w' = (eSTATUS_SUCCESSFUL, w'')"
    using app_publish_subscribed by blast
  then show ?thesis
    using h b w'
    by (simp add: main_boot_def fw_log_init_def log_init_def LOG_SINK_SELECT_def fw_hal_init_def fw_bus_init_def
        fw_app_init_def fw_start_def board_firmware_def w_def)
qed

end
