(* ===== verification/FirmwareLife.thy ===== *)
theory FirmwareLife
  imports Firmware "HOL-Library.Multiset"
begin

text \<open>
  The end of the program on the board: which threads, blocks of memory and devices are left, counted as
  multisets, and the life of the program as a whole.
\<close>

section \<open>The end\<close>



















section \<open>Properties\<close>





end
