(* ===== verification/DdlBridge.thy ===== *)
theory DdlBridge
  imports Firmware WebSocket
begin

text \<open>
  The bridge between the sensors and the Android application, \<^verbatim>\<open>src/pi-streaming/ddl_bridge.c\<close>: it starts the
  same firmware as the board program, sends the snapshot of the frame as JSON at most once per period,
  and stops the firmware.

  The state is that of the firmware, the WebSocket server and the bridge object, a null pointer being
  \<open>None\<close>. The clocks are read from the operating system of the firmware. The sign of a zero, and of a
  number that is not one, is not part of the model of \<^verbatim>\<open>float\<close>; \<open>neg i\<close> is the one of the \<open>i\<close>-th number in
  the message. What the threads of the firmware do until they have ended is the function \<open>threads\<close>, as
  in \<open>Firmware\<close>.
\<close>

section \<open>State\<close>

record DdlBridge =
  period_ms :: u32
  last_emit_ms :: u64
  hal_up :: bool
  bus_up :: bool
  app_up :: bool
  scheduler_started :: bool

section \<open>Helpers\<close>

definition ms_of :: "timespec \<Rightarrow> u64" where
  "ms_of ts = tv_sec ts * 1000 + tv_nsec ts div 1000000"

definition now_ms_mono :: "os \<Rightarrow> u64 \<times> os" where
  "now_ms_mono s = (ms_of (os_clock s (os_reads s)), s\<lparr>os_reads := Suc (os_reads s)\<rparr>)"

definition now_ms_epoch :: "os \<Rightarrow> u64 \<times> os" where
  "now_ms_epoch s = (ms_of (os_clock s (os_reads s)), s\<lparr>os_reads := Suc (os_reads s)\<rparr>)"

definition show_word :: "'a :: len word \<Rightarrow> string" where
  "show_word x = show_nat (unat x)"

text \<open>The four groups of the message, and the whole.\<close>

definition json_distance :: "(nat \<Rightarrow> bool) \<Rightarrow> DistanceFrame \<Rightarrow> string" where
  "json_distance neg d =
    ''\"distance\":{\"valid\":'' @ show_bool (df_valid d) @
    '',\"distance_m\":'' @ show_fixed 2 (neg 0) (df_distance d) @
    '',\"status\":'' @ show_word (df_status d) @ '',\"precision\":'' @ show_word (df_precision d) @
    '',\"strength\":'' @ show_word (df_strength d) @ ''}''"

definition json_temp_hum :: "(nat \<Rightarrow> bool) \<Rightarrow> TemperatureHumidityFrame \<Rightarrow> string" where
  "json_temp_hum neg th =
    ''\"temperature_humidity\":{\"valid\":'' @ show_bool (thf_valid th) @
    '',\"temperature_c\":'' @ show_fixed 2 (neg 1) (thf_temperature th) @
    '',\"humidity_pct\":'' @ show_fixed 2 (neg 2) (thf_humidity th) @ ''}''"

definition json_servo :: "(nat \<Rightarrow> bool) \<Rightarrow> ServoFrame \<Rightarrow> string" where
  "json_servo neg s =
    ''\"servo\":{\"horizontal_deg\":'' @ show_fixed 2 (neg 3) (sf_hor_angle s) @
    '',\"vertical_deg\":'' @ show_fixed 2 (neg 4) (sf_ver_angle s) @ ''}''"

definition json_gps :: "(nat \<Rightarrow> bool) \<Rightarrow> GPSFrame \<Rightarrow> string" where
  "json_gps neg g =
    ''\"gps\":{\"valid\":'' @ show_bool (gf_valid g) @ '',\"fix_type\":'' @ show_word (gf_fix_type g) @
    '',\"num_satellites\":'' @ show_word (gf_num_satellites g) @
    '',\"latitude_deg\":'' @ show_fixed 7 (neg 5) (gf_latitude g) @
    '',\"longitude_deg\":'' @ show_fixed 7 (neg 6) (gf_longitude g) @
    '',\"altitude_m\":'' @ show_fixed 2 (neg 7) (gf_altitude g) @
    '',\"h_acc_m\":'' @ show_fixed 2 (neg 8) (gf_h_acc g) @ ''}''"

definition json_frame :: "(nat \<Rightarrow> bool) \<Rightarrow> u64 \<Rightarrow> DDLFrame \<Rightarrow> string" where
  "json_frame neg now f =
    ''{\"type\":\"sensor_data\",\"timestamp\":'' @ show_word now @ '',\"ddl_frame\":{'' @
    json_distance neg (dist_frame f) @ '','' @ json_temp_hum neg (temp_hum_frame f) @ '','' @
    json_servo neg (servo_frame f) @ '','' @ json_gps neg (gps_frame f) @ ''}}''"

definition build_json :: "(nat \<Rightarrow> bool) \<Rightarrow> DDLFrame \<Rightarrow> nat \<Rightarrow> os \<Rightarrow> (string \<times> nat) \<times> os" where
  "build_json neg f cap s = (let (now, s) = now_ms_epoch s in (snprintf cap (json_frame neg now f), s))"

section \<open>Operations\<close>

text \<open>\<open>ddl_bridge_stop\<close>: \<open>None\<close> when the threads of the firmware do not end. What \<open>app_end\<close> returns is ignored.\<close>

definition ddl_bridge_stop :: "(app \<Rightarrow> app option) \<Rightarrow> DdlBridge option \<Rightarrow> firmware \<Rightarrow> firmware option" where
  "ddl_bridge_stop threads b fw =
    (case b of
       None \<Rightarrow> Some fw
     | Some b \<Rightarrow> do {
         fw \<leftarrow> (if app_up b
                then do {
                  let w = snd (app_end (fw_app fw));
                  w \<leftarrow> threads w;
                  let w = app_join w;
                  Some (fw\<lparr>fw_app := app_delete w\<rparr>)
                }
                else Some fw);
         let fw = (if bus_up b then fw_bus_delete fw else fw);
         let fw = (if hal_up b then fw_hal_cleanup fw else fw);
         Some (fw_log_exit fw)
       })"

text \<open>The object of the bridge is allocated first; \<open>px_ask\<close> is the answer of the allocator.\<close>

definition ddl_bridge_start ::
    "(app \<Rightarrow> app option) \<Rightarrow> bool \<Rightarrow> u32 \<Rightarrow> firmware \<Rightarrow> posix \<Rightarrow> (DdlBridge option \<times> firmware \<times> posix) option" where
  "ddl_bridge_start threads ws_null period fw s =
    (if ws_null then Some (None, fw, s)
     else let (r, s) = px_ask s
     in if r = 0 then Some (None, fw, s)
        else let b = \<lparr>period_ms = period, last_emit_ms = 0, hal_up = False, bus_up = False, app_up = False,
                      scheduler_started = False\<rparr>;
                 (status, fw) = fw_log_init fw
     in if failed status then Some (None, fw, s)
        else let (status, fw) = fw_hal_init fw
     in if failed status then Some (None, fw_log_exit fw, s)
        else let b = b\<lparr>hal_up := True\<rparr>; (status, fw) = fw_bus_init fw
     in if failed status then map_option (\<lambda>fw. (None, fw, s)) (ddl_bridge_stop threads (Some b) fw)
        else let b = b\<lparr>bus_up := True\<rparr>; (status, fw) = fw_app_init fw
     in if failed status then map_option (\<lambda>fw. (None, fw, s)) (ddl_bridge_stop threads (Some b) fw)
        else let b = b\<lparr>app_up := True\<rparr>; (status, fw) = fw_start fw
     in if failed status then map_option (\<lambda>fw. (None, fw, s)) (ddl_bridge_stop threads (Some b) fw)
        else Some (Some (b\<lparr>scheduler_started := True\<rparr>), fw, s))"

definition ddl_bridge_tick ::
    "(nat \<Rightarrow> bool) \<Rightarrow> DdlBridge option \<Rightarrow> 'a WebSocketServer_scheme \<Rightarrow> app
      \<Rightarrow> DdlBridge option \<times> 'a WebSocketServer_scheme \<times> app" where
  "ddl_bridge_tick neg b ws w =
    (case b of
       None \<Rightarrow> (None, ws, w)
     | Some b \<Rightarrow>
        if \<not> scheduler_started b then (Some b, ws, w)
        else if \<not> ws_is_client_connected ws then (Some b, ws, w)
        else let (t, s) = now_ms_mono (a_os w);
                 w = w\<lparr>a_os := s\<rparr>
        in if last_emit_ms b \<noteq> 0 \<and> t - last_emit_ms b < ucast (period_ms b) then (Some b, ws, w)
           else let b = b\<lparr>last_emit_ms := t\<rparr>;
                    snap = app_get_ddl_snapshot w;
                    ((buf, n), s) = build_json neg snap 1024 (a_os w);
                    w = w\<lparr>a_os := s\<rparr>
           in if 1024 \<le> n then (Some b, ws, w)
              else let (r, ws) = ws_send_json (take n buf) ws in (Some b, ws, w))"

section \<open>The size of the message\<close>

text \<open>The numbers of a frame: single precision, and coordinates as a receiver reports them.\<close>

definition single_range :: "cfloat \<Rightarrow> bool" where
  "single_range x \<longleftrightarrow> (case x of Fin r \<Rightarrow> \<bar>r\<bar> < 2 ^ 128 | _ \<Rightarrow> True)"

definition coordinate_range :: "cfloat \<Rightarrow> bool" where
  "coordinate_range x \<longleftrightarrow> (case x of Fin r \<Rightarrow> \<bar>r\<bar> \<le> 215 | _ \<Rightarrow> True)"

definition frame_in_range :: "DDLFrame \<Rightarrow> bool" where
  "frame_in_range f \<longleftrightarrow>
    list_all single_range [df_distance (dist_frame f), thf_temperature (temp_hum_frame f),
      thf_humidity (temp_hum_frame f), sf_hor_angle (servo_frame f), sf_ver_angle (servo_frame f),
      gf_altitude (gps_frame f), gf_h_acc (gps_frame f)] \<and>
    coordinate_range (gf_latitude (gps_frame f)) \<and> coordinate_range (gf_longitude (gps_frame f))"

lemma fl32_single_range: "single_range (fl32 x)"
proof -
  have "(2 :: rat) powi 128 = 2 ^ 128" by (simp add: power_int_def)
  then show ?thesis by (auto simp: single_range_def fl32_def fl_pack_def Let_def split: if_splits)
qed

lemma show_single_length: "single_range x \<Longrightarrow> length (show_fixed 2 neg x) \<le> 43"
proof (cases x)
  case (Fin r)
  assume "single_range x"
  then have "\<bar>r\<bar> < 2 ^ 128" using Fin by (simp add: single_range_def)
  then have "\<bar>r\<bar> * 10 ^ 2 \<le> of_nat (10 ^ 2 * 2 ^ 128)" by simp
  moreover have "(10 ^ 2 * 2 ^ 128 :: nat) < 10 ^ (39 + 2)" by simp
  ultimately show ?thesis using show_fixed_length [of r 2 "10 ^ 2 * 2 ^ 128" 39 neg] Fin by simp
qed simp_all

lemma show_coordinate_length: "coordinate_range x \<Longrightarrow> length (show_fixed 7 neg x) \<le> 12"
proof (cases x)
  case (Fin r)
  assume "coordinate_range x"
  then have "\<bar>r\<bar> * 10 ^ 7 \<le> of_nat 2150000000" using Fin by (simp add: coordinate_range_def)
  then show ?thesis using show_fixed_length [of r 7 2150000000 3 neg] Fin by simp
qed simp_all

lemma show_word_length:
  "length (show_word (x8 :: u8)) \<le> 3" "length (show_word (x16 :: u16)) \<le> 5" "length (show_word (x64 :: u64)) \<le> 20"
proof -
  have "unat x8 < 2 ^ 8" "unat x16 < 2 ^ 16" "unat x64 < 2 ^ 64"
    using unsigned_less [of x8] unsigned_less [of x16] unsigned_less [of x64] by simp_all
  then have "unat x8 < 10 ^ 3" "unat x16 < 10 ^ 5" "unat x64 < 10 ^ 20" by simp_all
  then show "length (show_word x8) \<le> 3" "length (show_word x16) \<le> 5" "length (show_word x64) \<le> 20"
    unfolding show_word_def by (auto intro: show_nat_length)
qed

lemma show_bool_length: "length (show_bool b) \<le> 5"
  by (simp add: show_bool_def)

lemma json_frame_length:
  assumes "frame_in_range f"
  shows "length (json_frame neg now f) < 1024"
proof -
  have r: "single_range (df_distance (dist_frame f))" "single_range (thf_temperature (temp_hum_frame f))"
    "single_range (thf_humidity (temp_hum_frame f))" "single_range (sf_hor_angle (servo_frame f))"
    "single_range (sf_ver_angle (servo_frame f))" "single_range (gf_altitude (gps_frame f))"
    "single_range (gf_h_acc (gps_frame f))" "coordinate_range (gf_latitude (gps_frame f))"
    "coordinate_range (gf_longitude (gps_frame f))"
    using assms by (simp_all add: frame_in_range_def)
  have "length (json_distance neg (dist_frame f)) \<le> 150"
    using show_single_length [OF r(1), of "neg 0"] show_word_length(1) [of "df_status (dist_frame f)"]
      show_word_length(1) [of "df_precision (dist_frame f)"] show_word_length(2) [of "df_strength (dist_frame f)"]
      show_bool_length [of "df_valid (dist_frame f)"]
    by (simp add: json_distance_def)
  moreover have "length (json_temp_hum neg (temp_hum_frame f)) \<le> 180"
    using show_single_length [OF r(2), of "neg 1"] show_single_length [OF r(3), of "neg 2"]
      show_bool_length [of "thf_valid (temp_hum_frame f)"]
    by (simp add: json_temp_hum_def)
  moreover have "length (json_servo neg (servo_frame f)) \<le> 150"
    using show_single_length [OF r(4), of "neg 3"] show_single_length [OF r(5), of "neg 4"]
    by (simp add: json_servo_def)
  moreover have "length (json_gps neg (gps_frame f)) \<le> 260"
    using show_single_length [OF r(6), of "neg 7"] show_single_length [OF r(7), of "neg 8"]
      show_coordinate_length [OF r(8), of "neg 5"] show_coordinate_length [OF r(9), of "neg 6"]
      show_word_length(1) [of "gf_fix_type (gps_frame f)"] show_word_length(1) [of "gf_num_satellites (gps_frame f)"]
      show_bool_length [of "gf_valid (gps_frame f)"]
    by (simp add: json_gps_def)
  ultimately show ?thesis using show_word_length(3) [of now] by (simp add: json_frame_def)
qed

section \<open>Ticks\<close>

lemma now_ms_result: "now_ms_mono s = (t, s') \<Longrightarrow> s' = s\<lparr>os_reads := Suc (os_reads s)\<rparr>"
  by (auto simp: now_ms_mono_def)

text \<open>The gate: whether a tick at time \<open>t\<close> emits.\<close>

definition gate_open :: "u64 \<Rightarrow> DdlBridge \<Rightarrow> bool" where
  "gate_open t b \<longleftrightarrow> last_emit_ms b = 0 \<or> ucast (period_ms b) \<le> t - last_emit_ms b"

lemma tick_closed:
  assumes "\<not> scheduler_started b \<or> \<not> client_connected ws \<or> \<not> gate_open (fst (now_ms_mono (a_os w))) b"
  shows "\<exists>w'. ddl_bridge_tick neg (Some b) ws w = (Some b, ws, w')"
  using assms
  by (auto simp: ddl_bridge_tick_def ws_is_client_connected_def gate_open_def linorder_not_le split: prod.splits)

lemma tick_open:
  assumes "scheduler_started b" and "client_connected ws" and "gate_open (fst (now_ms_mono (a_os w))) b"
  shows "\<exists>ws' w'. ddl_bridge_tick neg (Some b) ws w
    = (Some (b\<lparr>last_emit_ms := fst (now_ms_mono (a_os w))\<rparr>), ws', w')"
  using assms
  by (auto simp: ddl_bridge_tick_def ws_is_client_connected_def gate_open_def linorder_not_le Let_def
    split: prod.splits)

lemma tick_sends:
  assumes "scheduler_started b" and "client_connected ws" and "gate_open (fst (now_ms_mono (a_os w))) b"
    and "frame_in_range (app_get_ddl_snapshot w)"
  shows "\<exists>now w'. ddl_bridge_tick neg (Some b) ws w =
    (Some (b\<lparr>last_emit_ms := fst (now_ms_mono (a_os w))\<rparr>),
     snd (ws_send_json (json_frame neg now (app_get_ddl_snapshot w)) ws), w')"
proof -
  obtain t s where t: "now_ms_mono (a_os w) = (t, s)" by fastforce
  have snap: "app_get_ddl_snapshot (w\<lparr>a_os := s\<rparr>) = app_get_ddl_snapshot w" by (simp add: app_get_ddl_snapshot_def)
  obtain now s' where now: "now_ms_epoch s = (now, s')" by fastforce
  note len = json_frame_length [OF assms(4), of neg now]
  have "\<not> (last_emit_ms b \<noteq> 0 \<and> t - last_emit_ms b < ucast (period_ms b))"
    using assms(3) t by (auto simp: gate_open_def)
  then show ?thesis using assms(1,2) len t now
    by (auto simp: ddl_bridge_tick_def ws_is_client_connected_def build_json_def snprintf_def Let_def snap
      split: prod.splits intro!: exI [of _ now])
qed

text \<open>The times at which the ticks of a bridge hand a message to the server, when \<open>xs\<close> are the states of the server
  and the firmware at its ticks, whatever has changed them in between.\<close>

fun emissions :: "(nat \<Rightarrow> bool) \<Rightarrow> DdlBridge \<Rightarrow> ('a WebSocketServer_scheme \<times> app) list \<Rightarrow> u64 list" where
  "emissions neg b [] = []"
| "emissions neg b ((ws, w) # xs) =
    (let (b', ws', w') = ddl_bridge_tick neg (Some b) ws w
     in (if ws' \<noteq> ws then [fst (now_ms_mono (a_os w))] else []) @ emissions neg (the b') xs)"

definition tick_times :: "('a WebSocketServer_scheme \<times> app) list \<Rightarrow> nat list" where
  "tick_times xs = map (\<lambda>(ws, w). unat (fst (now_ms_mono (a_os w)))) xs"

lemma tick_times_Cons [simp]:
  "tick_times [] = []" "tick_times ((ws, w) # xs) = unat (fst (now_ms_mono (a_os w))) # tick_times xs"
  by (simp_all add: tick_times_def)

lemma gate_open_spaced:
  assumes "gate_open t b" and "last_emit_ms b \<noteq> 0" and "unat (last_emit_ms b) \<le> unat t"
  shows "unat (last_emit_ms b) + unat (period_ms b) \<le> unat t"
proof -
  have "(ucast (period_ms b) :: u64) \<le> t - last_emit_ms b" using assms(1,2) by (simp add: gate_open_def)
  then have "unat (ucast (period_ms b) :: u64) \<le> unat (t - last_emit_ms b)" by (simp add: word_le_nat_alt)
  moreover have "unat (t - last_emit_ms b) = unat t - unat (last_emit_ms b)"
    using assms(3) by (simp add: unat_sub word_le_nat_alt)
  moreover have "unat (ucast (period_ms b) :: u64) = unat (period_ms b)"
  proof -
    have "unat (period_ms b) < 2 ^ 32" using unsigned_less [of "period_ms b"] by simp
    then have "unat (period_ms b) < 2 ^ 64" by simp
    then show ?thesis by (simp only: unsigned_ucast_eq take_bit_nat_eq_self_iff) simp
  qed
  ultimately show ?thesis using assms(3) by linarith
qed

lemma emissions_spaced:
  assumes "sorted (tick_times xs)" and "\<forall>t\<in>set (tick_times xs). 0 < t \<and> unat (last_emit_ms b) \<le> t"
  shows "sorted_wrt (\<lambda>a c. unat a + unat (period_ms b) \<le> unat c) (emissions neg b xs) \<and>
    (last_emit_ms b \<noteq> 0 \<longrightarrow> (\<forall>e\<in>set (emissions neg b xs). unat (last_emit_ms b) + unat (period_ms b) \<le> unat e))"
  using assms
proof (induction xs arbitrary: b)
  case (Cons x xs)
  obtain ws w where x: "x = (ws, w)" by (cases x)
  define t where "t = fst (now_ms_mono (a_os w))"
  show ?case
  proof (cases "scheduler_started b \<and> client_connected ws \<and> gate_open t b")
    case False
    then obtain w' where "ddl_bridge_tick neg (Some b) ws w = (Some b, ws, w')"
      using tick_closed [of b ws w neg] by (auto simp: t_def)
    then show ?thesis using Cons x by simp
  next
    case True
    then obtain ws' w' where tick: "ddl_bridge_tick neg (Some b) ws w = (Some (b\<lparr>last_emit_ms := t\<rparr>), ws', w')"
      using tick_open [of b ws w neg] by (auto simp: t_def)
    have pos: "0 < unat t" "unat (last_emit_ms b) \<le> unat t" using Cons.prems(2) x by (simp_all add: t_def)
    then have ne: "t \<noteq> 0" by auto
    have "sorted (tick_times xs)" "\<forall>u\<in>set (tick_times xs). 0 < u \<and> unat (last_emit_ms (b\<lparr>last_emit_ms := t\<rparr>)) \<le> u"
      using Cons.prems x by (simp_all add: t_def)
    from Cons.IH [OF this] ne
    have ih: "sorted_wrt (\<lambda>a c. unat a + unat (period_ms b) \<le> unat c) (emissions neg (b\<lparr>last_emit_ms := t\<rparr>) xs)"
      "\<forall>e\<in>set (emissions neg (b\<lparr>last_emit_ms := t\<rparr>) xs). unat t + unat (period_ms b) \<le> unat e"
      by simp_all
    have sp: "last_emit_ms b \<noteq> 0 \<Longrightarrow> unat (last_emit_ms b) + unat (period_ms b) \<le> unat t"
      using gate_open_spaced True pos(2) by blast
    have later: "last_emit_ms b \<noteq> 0 \<Longrightarrow> e \<in> set (emissions neg (b\<lparr>last_emit_ms := t\<rparr>) xs) \<Longrightarrow>
      unat (last_emit_ms b) + unat (period_ms b) \<le> unat e" for e
      using ih(2) sp by fastforce
    show ?thesis using ih sp later tick by (auto simp: x t_def [symmetric])
  qed
qed simp

section \<open>A start that fails\<close>

text \<open>The cleanups of the bus and of the hardware layer leave the objects and their threads alone.\<close>

lemma bus_delete_threads: "os_threads (snd (util_event_bus_delete b s)) = os_threads s"
  by (simp add: util_event_bus_delete_def osal_defs Let_def)

lemma hal_cleanup_threads:
  assumes "hal_cleanup h s = (h', s')"
  shows "os_threads s' = os_threads s"
  using hal_cleanup_asks [OF assms] by (auto simp: only_asked_def)

lemma stop_before_app:
  assumes "hal_init (static_hal stale incoming) s0 = (eSTATUS_SUCCESSFUL, fw_hal fw, s1)"
    and "\<not> app_up b" and "bus_up b" and "hal_up b"
  shows "\<exists>fw'. ddl_bridge_stop threads (Some b) fw = Some fw' \<and> a_ddl (fw_app fw') = a_ddl (fw_app fw) \<and>
    os_threads (a_os (fw_app fw')) = os_threads (a_os (fw_app fw)) \<and> hal_closed (fw_hal fw') \<and>
    bus_list (a_bus (fw_app fw')) = []"
proof -
  obtain b2 s2 where b2: "util_event_bus_delete (a_bus (fw_app fw)) (a_os (fw_app fw)) = (b2, s2)" by fastforce
  obtain h s3 where h: "hal_cleanup (fw_hal fw) s2 = (h, s3)" by fastforce
  have "bus_list b2 = []" "os_threads s2 = os_threads (a_os (fw_app fw))"
    using bus_delete_empty [of "a_bus (fw_app fw)" "a_os (fw_app fw)"]
      bus_delete_threads [of "a_bus (fw_app fw)" "a_os (fw_app fw)"] b2 by simp_all
  moreover have "hal_closed h" "os_threads s3 = os_threads s2"
    using hal_cleanup_closes [OF assms(1) h] hal_cleanup_threads [OF h] by simp_all
  ultimately show ?thesis using assms(2-4) b2 h
    by (simp add: ddl_bridge_stop_def fw_bus_delete_def fw_hal_cleanup_def fw_log_exit_def Let_def)
qed

section \<open>Properties\<close>

text \<open>C37. Whatever the snapshot holds - any numbers of single precision, infinities and NaN included, and
  coordinates in degrees - its JSON fits the buffer of the bridge, so that a tick whose gate is open
  hands all of it to the server of a connected client.\<close>

lemma bridge_json_fits:
  assumes "scheduler_started b" and "client_connected ws" and "gate_open (fst (now_ms_mono (a_os w))) b"
    and "frame_in_range (app_get_ddl_snapshot w)"
  shows "\<exists>now w'. length (json_frame neg now (app_get_ddl_snapshot w)) < 1024 \<and>
    ddl_bridge_tick neg (Some b) ws w = (Some (b\<lparr>last_emit_ms := fst (now_ms_mono (a_os w))\<rparr>),
      snd (ws_send_json (json_frame neg now (app_get_ddl_snapshot w)) ws), w')"
  using tick_sends [OF assms] json_frame_length [OF assms(4)] by blast

text \<open>A bridge that has just started, and a program whose clock shows \<open>ms\<close> milliseconds.\<close>

definition demo_bridge :: DdlBridge where
  "demo_bridge = \<lparr>period_ms = 1000, last_emit_ms = 0, hal_up = True, bus_up = True, app_up = True,
     scheduler_started = True\<rparr>"

definition app_at :: "u64 \<Rightarrow> app" where
  "app_at ms = demo_app\<lparr>a_os := boot_os start_answers
     (\<lambda>_. \<lparr>tv_sec = ms div 1000, tv_nsec = (ms mod 1000) * 1000000\<rparr>)\<rparr>"

lemma demo_snapshot: "app_get_ddl_snapshot (app_at ms) = zero_ddl_frame"
  by (simp add: app_get_ddl_snapshot_def app_at_def demo_app_def static_object_def)

lemma zero_frame_in_range: "frame_in_range zero_ddl_frame"
  by (simp add: frame_in_range_def zero_ddl_frame_def single_range_def coordinate_range_def)

lemma app_at_time: "fst (now_ms_mono (a_os (app_at 1000))) = 1000" "fst (now_ms_mono (a_os (app_at 1500))) = 1500"
  "fst (now_ms_mono (a_os (app_at 2001))) = 2001"
  by (simp_all add: now_ms_mono_def app_at_def boot_os_def ms_of_def)

lemma bridge_json_fits_witness:
  "\<exists>now w'. length (json_frame (\<lambda>_. False) now zero_ddl_frame) < 1024 \<and>
    ddl_bridge_tick (\<lambda>_. False) (Some demo_bridge) demo_ws (app_at 1000) =
      (Some (demo_bridge\<lparr>last_emit_ms := 1000\<rparr>),
       snd (ws_send_json (json_frame (\<lambda>_. False) now zero_ddl_frame) demo_ws), w')"
proof -
  have b: "scheduler_started demo_bridge" "client_connected demo_ws"
    "gate_open (fst (now_ms_mono (a_os (app_at 1000)))) demo_bridge"
    by (simp_all add: demo_bridge_def demo_ws_def gate_open_def)
  show ?thesis
    using bridge_json_fits [OF b, of "\<lambda>_. False"] zero_frame_in_range by (simp add: demo_snapshot app_at_time)
qed

text \<open>C35. Sensor messages are at least one period apart: over any sequence of ticks at times after 0 that do not go
  back, whatever happens to the server and the sensors in between, the times at which a bridge that has
  sent nothing yet sends are spaced by the period.\<close>

lemma bridge_rate_limited:
  assumes "last_emit_ms b = 0" and "sorted (tick_times xs)" and "\<forall>t\<in>set (tick_times xs). 0 < t"
  shows "sorted_wrt (\<lambda>a c. unat a + unat (period_ms b) \<le> unat c) (emissions neg b xs)"
  using emissions_spaced [of xs b neg] assms by simp

lemma bridge_rate_limited_witness:
  "sorted_wrt (\<lambda>a c. unat a + 1000 \<le> unat c)
    (emissions (\<lambda>_. False) demo_bridge
      [(demo_ws, app_at 1000), (demo_ws, app_at 1500), (demo_ws, app_at 2001)])"
  using bridge_rate_limited [of demo_bridge
      "[(demo_ws, app_at 1000), (demo_ws, app_at 1500), (demo_ws, app_at 2001)]" "\<lambda>_. False"]
  by (simp add: app_at_time demo_bridge_def)

text \<open>A start of the bridge that fails inside the application is not cleaned up: the devices are closed and
  the bus is emptied, but the objects of the modules that were already created stay as they are and the
  threads that run their event loops stay alive, since only a complete application is ended and joined.\<close>

lemma bridge_failed_start_leaks:
  assumes "firmware_static fw" and "px_answers s (px_asked s) \<noteq> 0"
    and "fw_log_init fw = (eSTATUS_SUCCESSFUL, fw1)" and "fw_hal_init fw1 = (eSTATUS_SUCCESSFUL, fw2)"
    and "fw_bus_init fw2 = (eSTATUS_SUCCESSFUL, fw3)" and "fw_app_init fw3 = (st, fw4)"
    and "st \<noteq> eSTATUS_SUCCESSFUL"
  shows "\<exists>fw' s'. ddl_bridge_start threads False period fw s = Some (None, fw', s') \<and>
    a_ddl (fw_app fw') = a_ddl (fw_app fw4) \<and>
    os_threads (a_os (fw_app fw')) = os_threads (a_os (fw_app fw4)) \<and> hal_closed (fw_hal fw') \<and>
    bus_list (a_bus (fw_app fw')) = []"
proof -
  obtain stale incoming where "fw_hal fw = static_hal stale incoming"
    using assms(1) by (auto simp: firmware_static_def)
  then have "fw_hal fw1 = static_hal stale incoming"
    using assms(3) by (auto simp: fw_log_init_def log_init_def LOG_SINK_SELECT_def)
  moreover obtain h s1 where "hal_init (fw_hal fw1) (a_os (fw_app fw1)) = (eSTATUS_SUCCESSFUL, h, s1)" "fw_hal fw2 = h"
    using assms(4) by (auto simp: fw_hal_init_def split: prod.splits)
  moreover have "fw_hal fw4 = fw_hal fw2"
    using assms(5,6) by (auto simp: fw_bus_init_def fw_app_init_def Let_def split: prod.splits)
  ultimately have h: "hal_init (static_hal stale incoming) (a_os (fw_app fw1)) = (eSTATUS_SUCCESSFUL, fw_hal fw4, s1)"
    by simp
  let ?b = "\<lparr>period_ms = period, last_emit_ms = 0, hal_up = True, bus_up = True, app_up = False,
    scheduler_started = False\<rparr>"
  obtain fw' where "ddl_bridge_stop threads (Some ?b) fw4 = Some fw'" "a_ddl (fw_app fw') = a_ddl (fw_app fw4)"
    "os_threads (a_os (fw_app fw')) = os_threads (a_os (fw_app fw4))" "hal_closed (fw_hal fw')"
    "bus_list (a_bus (fw_app fw')) = []"
    using stop_before_app [OF h, of ?b threads] by auto
  then show ?thesis using assms(2-7) by (simp add: ddl_bridge_start_def px_ask_def)
qed

text \<open>A board whose operating system refuses everything once the object of the distance module is created.\<close>

definition leak_answers :: "nat \<Rightarrow> int" where
  "leak_answers n = (if n < 33 then boot_answers n else 0)"

definition leak_firmware :: firmware where
  "leak_firmware = board_firmware\<lparr>fw_app := (fw_app board_firmware)\<lparr>a_os := boot_os leak_answers us_clock\<rparr>\<rparr>"

lemma active_object_first:
  assumes "os_wf s" and "cap \<noteq> 0" and "\<forall>i<7. os_answers s (os_asked s + i) = start_answers i"
  shows "\<exists>a' s'. util_active_object_init (Some a) cap (Some st) s = (eSTATUS_SUCCESSFUL, Some a', s') \<and>
    os_answers s' = os_answers s \<and> os_asked s' = os_asked s + 7"
proof -
  have "os_answers s (os_asked s + i) = start_answers i" if "i < 7" for i using assms(3) that by blast
  note a = this [of 0] this [of 1] this [of 2] this [of 3] this [of 4] this [of 5] this [of 6]
  have "os_fresh s \<noteq> 0" using assms(1) by (simp add: os_wf_def)
  then show ?thesis
    using assms(2) a [unfolded start_answers_values]
    by (simp add: util_active_object_init_def util_queue_init_def osal_alloc_def osal_mutex_init_def
        osal_cond_init_def osal_thread_create_def ask_def Let_def numeral_eq_Suc)
qed

lemma active_object_refused:
  assumes "os_answers s (os_asked s) = 0" and "cap \<noteq> 0"
  shows "\<exists>a' s'. util_active_object_init (Some a) cap (Some st) s = (eSTATUS_SYSTEM_ERROR, Some a', s') \<and>
    os_threads s' = os_threads s"
  using assms by (simp add: util_active_object_init_def util_queue_init_def osal_alloc_def ask_def Let_def)

lemma distance_module_first:
  assumes "os_wf s" and "\<forall>i<7. os_answers s (os_asked s + i) = start_answers i"
  shows "\<exists>d s'. ddl_module_init eDDL_MODULE_DISTANCE (Some fr) d0 s = (eSTATUS_SUCCESSFUL, d, s') \<and>
    os_answers s' = os_answers s \<and> os_asked s' = os_asked s + 7"
proof -
  define a where "a = (m_distance d0)\<lparr>active_fsm := (active_fsm (m_distance d0))\<lparr>fsm_arg :=
      (fsm_arg (active_fsm (m_distance d0)))\<lparr>d_frame := dist_frame fr, d_retry := 0\<rparr>\<rparr>\<rparr>"
  have "eDISTANCE_QUEUE_CAPACITY \<noteq> 0" by (simp add: eDISTANCE_QUEUE_CAPACITY_def)
  from active_object_first [OF assms(1) this assms(2), where a = a and st = distance_init]
  obtain a' s' where "util_active_object_init (Some a) eDISTANCE_QUEUE_CAPACITY (Some distance_init) s
      = (eSTATUS_SUCCESSFUL, Some a', s')"
    "os_answers s' = os_answers s" "os_asked s' = os_asked s + 7" by (elim exE conjE)
  then show ?thesis by (simp add: ddl_module_init_def ddl_distance_init_def a_def Let_def)
qed

lemma servo_module_refused:
  assumes "os_answers s (os_asked s) = 0"
  shows "\<exists>d s'. ddl_module_init eDDL_MODULE_SERVO (Some fr) d0 s = (eSTATUS_SYSTEM_ERROR, d, s') \<and>
    os_threads s' = os_threads s"
proof -
  define a where "a = (m_servo d0)\<lparr>active_fsm := (active_fsm (m_servo d0))\<lparr>fsm_arg :=
      (fsm_arg (active_fsm (m_servo d0)))\<lparr>s_frame := servo_frame fr\<rparr>\<rparr>\<rparr>"
  have "eSERVO_QUEUE_CAPACITY \<noteq> 0" by (simp add: eSERVO_QUEUE_CAPACITY_def)
  from active_object_refused [OF assms this, where a = a and st = servo_init]
  obtain a' s' where "util_active_object_init (Some a) eSERVO_QUEUE_CAPACITY (Some servo_init) s
      = (eSTATUS_SYSTEM_ERROR, Some a', s')" "os_threads s' = os_threads s" by (elim exE conjE)
  then show ?thesis by (simp add: ddl_module_init_def ddl_servo_init_def fsm_codes a_def Let_def)
qed

lemma leak_start:
  "\<exists>fw1 fw2 fw3 fw4 st. fw_log_init leak_firmware = (eSTATUS_SUCCESSFUL, fw1) \<and>
    fw_hal_init fw1 = (eSTATUS_SUCCESSFUL, fw2) \<and> fw_bus_init fw2 = (eSTATUS_SUCCESSFUL, fw3) \<and>
    fw_app_init fw3 = (st, fw4) \<and> st \<noteq> eSTATUS_SUCCESSFUL \<and> os_threads (a_os (fw_app fw4)) \<noteq> []"
proof -
  let ?s = "(boot_os leak_answers us_clock)\<lparr>os_asked := 24\<rparr>"
  obtain h where h: "hal_init (static_hal (\<lambda>_. None) (\<lambda>_. 0) :: callback hal) (boot_os leak_answers us_clock) = (eSTATUS_SUCCESSFUL, h, ?s)"
    using board_hal_init [of leak_answers us_clock] by (auto simp: leak_answers_def boot_answers_def)
  obtain b s where b: "util_event_bus_init (static_bus :: post_fn event_bus) ?s = (eSTATUS_SUCCESSFUL, b, s)"
    and s: "os_answers s = leak_answers" "os_asked s = 26" and bw: "boot_ok b s" "bus_list b = []"
    using board_bus_init [of leak_answers us_clock] by (auto simp: leak_answers_def boot_answers_def)
  define w where "w = (attach_hal h (demo_app\<lparr>a_bus := static_bus, a_os := ?s\<rparr>))\<lparr>a_bus := b, a_os := s\<rparr>"
  define fr where "fr = br_memory (fsm_arg (active_fsm (a_broadcaster w))) ddl_frame_addr"
  have wf: "os_wf s" using bw(1) by (simp add: boot_ok_def)
  have first: "\<forall>i<7. os_answers s (os_asked s + i) = start_answers i" by (simp add: s leak_answers_def boot_answers_def)
  obtain a1 s1 where d: "ddl_module_init eDDL_MODULE_DISTANCE (Some fr) (a_ddl w) s = (eSTATUS_SUCCESSFUL, a1, s1)"
    and s1: "os_answers s1 = leak_answers" "os_asked s1 = 33"
    using distance_module_first [OF wf first, of fr "a_ddl w"] s by auto
  have created: "os_extends s s1" "os_threads s1 \<noteq> []"
    using ddl_module_created(1) [OF bw(1) d] by (auto simp: ao_created_def)
  have boot1: "boot_ok b s1" using boot_ok_extends [OF bw(1) created(1)] .
  obtain b1 where b1: "ddl_subscribe eDDL_MODULE_DISTANCE (ddl_subscribe_events eDDL_MODULE_DISTANCE) b s1
      = (eSTATUS_SUCCESSFUL, b1, s1)"
    using ddl_subscribe_boot [OF boot1, of "ddl_subscribe_events eDDL_MODULE_DISTANCE" eDDL_MODULE_DISTANCE] bw(2)
    by (auto simp: ddl_subscribe_events_def distance_subscribe_events_def eEVENT_BUS_MAX_SUBSCRIPTIONS_def
      simp del: ddl_subscribe.simps)
  have refuse: "os_answers s1 (os_asked s1) = 0" by (simp add: s1 leak_answers_def)
  obtain a2 s2 where servo: "ddl_module_init eDDL_MODULE_SERVO (Some fr) a1 s1 = (eSTATUS_SYSTEM_ERROR, a2, s2)"
    and s2: "os_threads s2 = os_threads s1"
    using servo_module_refused [OF refuse, of fr a1] by blast
  have "ddl_init (Some fr) (a_ddl w) b s = (eSTATUS_SYSTEM_ERROR, a2, b1, s2)"
    using d b1 servo by (simp add: ddl_init_def ddl_indices_eq)
  moreover have "a_bus w = b" "a_os w = s" by (simp_all add: w_def)
  ultimately have "app_init w = (eSTATUS_SYSTEM_ERROR, w\<lparr>a_ddl := a2, a_bus := b1, a_os := s2\<rparr>)"
    by (simp add: app_init_def fr_def [symmetric] Let_def)
  then show ?thesis
    using h b created(2) s2
    by (simp add: fw_log_init_def log_init_def LOG_SINK_SELECT_def fw_hal_init_def fw_bus_init_def
        fw_app_init_def board_firmware_def leak_firmware_def w_def)
qed

lemma bridge_failed_start_leaks_witness:
  "\<exists>fw s. ddl_bridge_start Some False 1000 leak_firmware (px_start (\<lambda>_. 1) (\<lambda>_. Recv_error 11)) = Some (None, fw, s) \<and>
    os_threads (a_os (fw_app fw)) \<noteq> [] \<and> hal_closed (fw_hal fw)"
proof -
  have st: "firmware_static leak_firmware"
    by (auto simp: firmware_static_def leak_firmware_def board_firmware_def static_bus_def boot_os_def os_wf_def)
  have px: "px_answers (px_start (\<lambda>_. 1) (\<lambda>_. Recv_error 11)) (px_asked (px_start (\<lambda>_. 1) (\<lambda>_. Recv_error 11))) \<noteq> 0"
    by (simp add: px_start_def)
  obtain fw1 fw2 fw3 fw4 st' where r: "fw_log_init leak_firmware = (eSTATUS_SUCCESSFUL, fw1)"
    "fw_hal_init fw1 = (eSTATUS_SUCCESSFUL, fw2)" "fw_bus_init fw2 = (eSTATUS_SUCCESSFUL, fw3)"
    "fw_app_init fw3 = (st', fw4)" "st' \<noteq> eSTATUS_SUCCESSFUL" "os_threads (a_os (fw_app fw4)) \<noteq> []"
    using leak_start by blast
  show ?thesis using bridge_failed_start_leaks [OF st px r(1-5), of Some 1000] r(6) by force
qed

end
