(* ===== verification/StreamMain.thy ===== *)
theory StreamMain
  imports UnixSocket WebSocket ProcessManager DdlBridge
begin

text \<open>
  The streaming server, \<^verbatim>\<open>src/pi-streaming/main.c\<close>: its start, its main loop, which moves the detections of the
  Python process to the Android application, the reaction to that application coming and going, and
  its end.

  \<open>AppState\<close> extends the WebSocket server, as its callbacks get the whole state, by the other parts of
  the structure of that name, the local variables of the loop, and the world: the operating system,
  the files and the firmware. The signs of zeros in printed numbers (\<open>neg_start\<close>, \<open>neg_json\<close>) and what the
  threads of the firmware do until they end (\<open>env_threads\<close>) are the record \<open>env\<close>.

  A callback that tells the application that the stream is ready serves the WebSocket again: the
  depth of that nesting is the fuel of \<open>stream_service\<close>, and \<open>None\<close> is a call that does not return, for want
  of fuel or because the socket of the Python process takes nothing for ever. Signals set \<open>g_running\<close>
  to false; here the loop makes as many rounds as there are entries in its list.
\<close>

section \<open>State\<close>

record AppState = WebSocketServer +
  app_config :: StreamingConfig
  app_ipc :: IPCConnection
  app_pm :: ProcessManager
  app_bridge :: "DdlBridge option"
  python_connected :: bool
  android_connected :: bool
  streaming_active :: bool
  ws_service_counter :: nat
  total_processed :: nat
  app_px :: posix
  app_files :: files
  app_fw :: firmware

record env =
  neg_start :: bool
  neg_json :: "nat \<Rightarrow> bool"
  env_threads :: "app \<Rightarrow> app option"

definition DDL_BRIDGE_INTERVAL_MS :: u32 where "DDL_BRIDGE_INTERVAL_MS = 1000"
definition MAX_FFMPEG_TRIES :: nat where "MAX_FFMPEG_TRIES = 4"

section \<open>The calls of the components\<close>

definition app_send_start :: "env \<Rightarrow> AppState \<Rightarrow> (int \<times> AppState) option" where
  "app_send_start env app =
    (let c = app_config app
     in map_option (\<lambda>(r, s). (r, app\<lparr>app_px := s\<rparr>))
          (ipc_send_start (app_ipc app) (video_path c) (video_duration_sec c) (video_fps c) (loop_video c)
            (detection_frame_interval c) (neg_start env) (app_px app)))"

definition app_send_stop :: "AppState \<Rightarrow> (int \<times> AppState) option" where
  "app_send_stop app =
    map_option (\<lambda>(r, s). (r, app\<lparr>app_px := s\<rparr>)) (ipc_send_stop (app_ipc app) (app_px app))"

definition app_start_ffmpeg :: "AppState \<Rightarrow> int \<times> AppState" where
  "app_start_ffmpeg app =
    (let (r, pm, s) = pm_start_ffmpeg (app_files app) (app_config app) (app_pm app) (app_px app)
     in (r, app\<lparr>app_pm := pm, app_px := s\<rparr>))"

definition app_stop_ffmpeg :: "AppState \<Rightarrow> AppState" where
  "app_stop_ffmpeg app =
    (let (pm, s) = pm_stop_ffmpeg (app_pm app) (app_px app) in app\<lparr>app_pm := pm, app_px := s\<rparr>)"

definition app_ffmpeg_running :: "AppState \<Rightarrow> bool \<times> AppState" where
  "app_ffmpeg_running app =
    (let (r, pm, s) = pm_is_ffmpeg_running (app_pm app) (app_px app) in (r, app\<lparr>app_pm := pm, app_px := s\<rparr>))"

definition app_usleep :: "nat \<Rightarrow> AppState \<Rightarrow> AppState" where
  "app_usleep us app = app\<lparr>app_px := px_usleep us (app_px app)\<rparr>"

definition app_is_fifo :: "AppState \<Rightarrow> bool" where
  "app_is_fifo app = config_is_fifo (app_files app) (video_path (app_config app))"

text \<open>\<^verbatim>\<open>unlink\<close> and \<^verbatim>\<open>mkfifo\<close> of the path of the video.\<close>

definition app_unlink :: "AppState \<Rightarrow> AppState" where
  "app_unlink app =
    (let path = video_path (app_config app); fs = app_files app; (r, s) = px_ask (app_px app)
     in app\<lparr>app_px := s,
            app_files := (if r = 0 then fs\<lparr>fs_fifo := (fs_fifo fs)(path := False),
                                           fs_readable := (fs_readable fs)(path := False)\<rparr> else fs)\<rparr>)"

definition app_mkfifo :: "AppState \<Rightarrow> int \<times> AppState" where
  "app_mkfifo app =
    (let path = video_path (app_config app); fs = app_files app; (r, s) = px_ask (app_px app)
     in (r, app\<lparr>app_px := s,
            app_files := (if r = 0 then fs\<lparr>fs_fifo := (fs_fifo fs)(path := True),
                                           fs_readable := (fs_readable fs)(path := True)\<rparr> else fs)\<rparr>))"

section \<open>Starting a stream\<close>

text \<open>\<open>service\<close> is \<^verbatim>\<open>ws_service\<close> with the callbacks of this program.\<close>

definition ready_message :: "StreamingConfig \<Rightarrow> string" where
  "ready_message c =
    fst (snprintf 256 (''{\"event\":\"stream_ready\",\"rtsp_port\":'' @ show_int (rtsp_port c) @
      '',\"stream_name\":\"'' @ rtsp_stream_name c @ ''\"}''))"

definition send_stream_ready :: "(AppState \<Rightarrow> (int \<times> AppState) option) \<Rightarrow> AppState \<Rightarrow> AppState option" where
  "send_stream_ready service app =
    do {
      let (_, app) = ws_send (ready_message (app_config app)) app;
      (_, app) \<leftarrow> service app;
      Some app
    }"

text \<open>The loop of the attempts: \<open>left\<close> of them, of which the next is number \<open>attempt\<close>.\<close>

fun camera_attempts :: "env \<Rightarrow> nat \<Rightarrow> nat \<Rightarrow> AppState \<Rightarrow> (bool \<times> AppState) option" where
  "camera_attempts env 0 attempt app = do { (_, app) \<leftarrow> app_send_stop app; Some (False, app) }"
| "camera_attempts env (Suc left) attempt app =
    (let (r, app) = app_start_ffmpeg app
     in if r \<noteq> 0 then do { (_, app) \<leftarrow> app_send_stop app; Some (False, app) }
        else do {
          let app = app_usleep 500000 app;
          (r, app) \<leftarrow> (if attempt = 1 then app_send_start env app else Some (0, app));
          if r \<noteq> 0 then Some (False, app_stop_ffmpeg app)
          else do {
            let app = app_usleep 3000000 app;
            let (running, app) = app_ffmpeg_running app;
            if running then Some (True, app\<lparr>streaming_active := True\<rparr>)
            else camera_attempts env left (attempt + 1) app
          }
        })"

definition start_camera_stream :: "env \<Rightarrow> AppState \<Rightarrow> (bool \<times> AppState) option" where
  "start_camera_stream env app =
    (if streaming_active app then Some (True, app)
     else if \<not> python_connected app then Some (False, app)
     else let (running, app) = app_ffmpeg_running app;
              app = (if running then app_stop_ffmpeg app else app);
              app = app_unlink app;
              (r, app) = app_mkfifo app
          in if r \<noteq> 0 then Some (False, app) else camera_attempts env MAX_FFMPEG_TRIES 1 app)"

definition start_file_stream :: "env \<Rightarrow> AppState \<Rightarrow> (bool \<times> AppState) option" where
  "start_file_stream env app =
    (if streaming_active app then Some (True, app)
     else if \<not> python_connected app then Some (False, app)
     else do {
       let (running, app) = app_ffmpeg_running app;
       let app = (if running then app_stop_ffmpeg app else app);
       (r, app) \<leftarrow> app_send_start env app;
       if r \<noteq> 0 then Some (False, app)
       else do {
         let app = app_usleep 100000 app;
         let (r, app) = app_start_ffmpeg app;
         if r \<noteq> 0 then do { (_, app) \<leftarrow> app_send_stop app; Some (False, app) }
         else Some (True, (app_usleep 1000000 app)\<lparr>streaming_active := True\<rparr>)
       }
     })"

section \<open>The Android application\<close>

definition on_android_connect ::
    "env \<Rightarrow> (AppState \<Rightarrow> (int \<times> AppState) option) \<Rightarrow> AppState \<Rightarrow> AppState option" where
  "on_android_connect env service app =
    (let app = app\<lparr>android_connected := True\<rparr>
     in if \<not> python_connected app then Some app
        else do {
          (ok, app) \<leftarrow> (if app_is_fifo app then start_camera_stream env app else start_file_stream env app);
          if ok then send_stream_ready service app else Some app
        })"

definition on_android_disconnect :: "AppState \<Rightarrow> AppState option" where
  "on_android_disconnect app =
    (let app = app\<lparr>android_connected := False\<rparr>
     in if \<not> app_is_fifo app \<and> streaming_active app
        then do {
          (_, app) \<leftarrow> (if python_connected app then app_send_stop app else Some (0, app));
          let app = app_stop_ffmpeg app;
          Some (app\<lparr>streaming_active := False\<rparr>)
        }
        else Some app)"

fun stream_service :: "env \<Rightarrow> nat \<Rightarrow> AppState \<Rightarrow> (int \<times> AppState) option" where
  "stream_service env 0 app = None"
| "stream_service env (Suc n) app =
    ws_service (ws_callback (on_android_connect env (stream_service env n)) on_android_disconnect) app"

section \<open>The main loop\<close>

definition forward_detection :: "string \<Rightarrow> AppState \<Rightarrow> AppState" where
  "forward_detection json app =
    (if android_connected app then snd (ws_send_json json app) else app)"

definition app_recv_message :: "AppState \<Rightarrow> int \<times> string option \<times> AppState" where
  "app_recv_message app =
    (let (len, msg, conn, s) = ipc_recv_message MAX_MSG_SIZE (app_ipc app) (app_px app)
     in (len, msg, app\<lparr>app_ipc := conn, app_px := s\<rparr>))"

text \<open>At most \<open>batch_limit\<close> messages: the last length, how many there were, the state.\<close>

fun read_batch :: "nat \<Rightarrow> int \<Rightarrow> nat \<Rightarrow> AppState \<Rightarrow> int \<times> nat \<times> AppState" where
  "read_batch 0 len msg_count app = (len, msg_count, app)"
| "read_batch (Suc batch_limit) len msg_count app =
    (let (len, msg, app) = app_recv_message app
     in if 0 < len
        then read_batch batch_limit len (msg_count + 1) (forward_detection (the msg) app)
        else (len, msg_count, app))"

definition serve_python :: "env \<Rightarrow> nat \<Rightarrow> AppState \<Rightarrow> (bool \<times> AppState) option" where
  "serve_python env n app =
    (if python_connected app \<and> ipc_check_client_connected (app_ipc app)
     then do {
       let (len, msg_count, app) = read_batch 10 0 0 app;
       let app = app\<lparr>total_processed := total_processed app + msg_count\<rparr>;
       app \<leftarrow> (if 0 < msg_count then map_option snd (stream_service env n app) else Some app);
       Some (0 < msg_count,
         if len < 0
         then let app = app\<lparr>python_connected := False\<rparr>
              in if streaming_active app then (app_stop_ffmpeg app)\<lparr>streaming_active := False\<rparr> else app
         else app)
     }
     else Some (False, app))"

definition serve_android :: "env \<Rightarrow> nat \<Rightarrow> AppState \<Rightarrow> AppState option" where
  "serve_android env n app =
    (let app = app\<lparr>ws_service_counter := ws_service_counter app + 1\<rparr>
     in if 10 \<le> ws_service_counter app
        then map_option (\<lambda>(_, app). app\<lparr>ws_service_counter := 0\<rparr>) (stream_service env n app)
        else Some app)"

definition serve_sensors :: "env \<Rightarrow> AppState \<Rightarrow> AppState" where
  "serve_sensors env app =
    (let (b, app, w) = ddl_bridge_tick (neg_json env) (app_bridge app) app (fw_app (app_fw app))
     in app\<lparr>app_bridge := b, app_fw := (app_fw app)\<lparr>fw_app := w\<rparr>\<rparr>)"

definition check_playback :: "AppState \<Rightarrow> AppState option" where
  "check_playback app =
    (if streaming_active app \<and> \<not> loop_video (app_config app) \<and> \<not> app_is_fifo app
     then do {
       let (pm, s) = pm_check_processes (app_pm app) (app_px app);
       let app = app\<lparr>app_pm := pm, app_px := s\<rparr>;
       let (running, app) = app_ffmpeg_running app;
       if running then Some app
       else do {
         (_, app) \<leftarrow> (if python_connected app then app_send_stop app else Some (0, app));
         Some (app\<lparr>streaming_active := False\<rparr>)
       }
     }
     else Some app)"

definition main_round :: "env \<Rightarrow> nat \<Rightarrow> AppState \<Rightarrow> AppState option" where
  "main_round env n app =
    do {
      (did_work, app) \<leftarrow> serve_python env n app;
      app \<leftarrow> serve_android env n app;
      let app = serve_sensors env app;
      let app = (if did_work then app else app_usleep 100 app);
      check_playback app
    }"

text \<open>Before each round the threads of the firmware have moved: \<open>fs\<close> lists what they did.\<close>

fun main_loop :: "env \<Rightarrow> nat \<Rightarrow> (app \<Rightarrow> app) list \<Rightarrow> AppState \<Rightarrow> AppState option" where
  "main_loop env n [] app = Some app"
| "main_loop env n (f # fs) app =
    do {
      app \<leftarrow> main_round env n (app\<lparr>app_fw := (app_fw app)\<lparr>fw_app := f (fw_app (app_fw app))\<rparr>\<rparr>);
      main_loop env n fs app
    }"

section \<open>Start and end\<close>

definition app_pm_cleanup :: "AppState \<Rightarrow> AppState" where
  "app_pm_cleanup app =
    (let (pm, s) = pm_cleanup (app_pm app) (app_px app) in app\<lparr>app_pm := pm, app_px := s\<rparr>)"

definition app_ipc_cleanup :: "AppState \<Rightarrow> AppState" where
  "app_ipc_cleanup app =
    (let (conn, s) = ipc_cleanup (app_ipc app) (app_px app) in app\<lparr>app_ipc := conn, app_px := s\<rparr>)"

text \<open>The exit code \<open>1\<close> of a start that fails, with the state it leaves behind, or the state of the loop. The
  conversion of decimal numbers and the output of \<^verbatim>\<open>ffprobe\<close> are parameters, as in \<open>Config\<close>.\<close>

definition boot_config ::
    "(string \<Rightarrow> cfloat option) \<Rightarrow> (string \<Rightarrow> string list) \<Rightarrow> string \<Rightarrow> AppState \<Rightarrow> int \<times> AppState" where
  "boot_config strtod ffprobe path app =
    (let (r, c, s) = config_load (app_files app) path (app_config app) (app_px app);
         app = app\<lparr>app_config := c, app_px := s\<rparr>
     in if r \<noteq> 0 then (1, app)
        else let (r, c, s) = config_probe_video strtod ffprobe (app_files app) (app_config app) (app_px app);
                 app = app\<lparr>app_config := c, app_px := s\<rparr>
     in if r \<noteq> 0 then (1, app)
        else if config_validate (app_files app) (app_config app) \<noteq> 0 then (1, app) else (0, app))"

definition boot_servers :: "AppState \<Rightarrow> int \<times> AppState" where
  "boot_servers app =
    (let app = app\<lparr>app_pm := pm_init\<rparr>;
         (r, pm, s) = pm_start_mediamtx (app_config app) (app_pm app) (app_px app);
         app = app\<lparr>app_pm := pm, app_px := s\<rparr>
     in if r \<noteq> 0 then (1, app)
        else let (r, s) = pm_wait_for_mediamtx_ready 10 (app_px app);
                 app = app\<lparr>app_px := s\<rparr>
     in if r \<noteq> 0 then (1, app_pm_cleanup app)
        else let (r, app, s) = ws_init (websocket_port (app_config app)) (app_px app) app;
                 app = app\<lparr>app_px := s\<rparr>
     in if r \<noteq> 0 then (1, app_pm_cleanup app) else (0, ws_set_callbacks True True app))"

definition boot_peers :: "env \<Rightarrow> AppState \<Rightarrow> (int \<times> AppState) option" where
  "boot_peers env app =
    do {
      (b, fw, s) \<leftarrow> ddl_bridge_start (env_threads env) False DDL_BRIDGE_INTERVAL_MS (app_fw app) (app_px app);
      let app = app\<lparr>app_bridge := b, app_fw := fw, app_px := s\<rparr>;
      if b = None then Some (1, app_pm_cleanup (ws_cleanup app))
      else do {
        let (r, conn, s) = ipc_server_init (app_px app);
        let app = app\<lparr>app_ipc := conn, app_px := s\<rparr>;
        if r \<noteq> 0 then Some (1, app_pm_cleanup (ws_cleanup app))
        else do {
          let (r, conn, s) = ipc_accept_client (app_ipc app) (app_px app);
          let app = app\<lparr>app_ipc := conn, app_px := s\<rparr>;
          if r \<noteq> 0 then Some (1, app_pm_cleanup (ws_cleanup (app_ipc_cleanup app)))
          else do {
            let app = app\<lparr>python_connected := True\<rparr>;
            if app_is_fifo app
            then map_option (\<lambda>(_, app). (0, app)) (start_camera_stream env app)
            else Some (0, app)
          }
        }
      }
    }"

definition main_shutdown :: "env \<Rightarrow> AppState \<Rightarrow> AppState option" where
  "main_shutdown env app =
    do {
      app \<leftarrow> (if streaming_active app
             then do {
               (_, app) \<leftarrow> (if python_connected app then app_send_stop app else Some (0, app));
               Some (app_stop_ffmpeg app)
             }
             else Some app);
      fw \<leftarrow> ddl_bridge_stop (env_threads env) (app_bridge app) (app_fw app);
      let app = app_ipc_cleanup (app\<lparr>app_fw := fw\<rparr>);
      Some (app_pm_cleanup (ws_cleanup app))
    }"

definition stream_main ::
    "(string \<Rightarrow> cfloat option) \<Rightarrow> (string \<Rightarrow> string list) \<Rightarrow> env \<Rightarrow> nat \<Rightarrow> string \<Rightarrow> (app \<Rightarrow> app) list
      \<Rightarrow> AppState \<Rightarrow> (int \<times> AppState) option" where
  "stream_main strtod ffprobe env n path fs app =
    (let app = app\<lparr>python_connected := False, android_connected := False, streaming_active := False\<rparr>;
         (r, app) = boot_config strtod ffprobe path app
     in if r \<noteq> 0 then Some (r, app)
        else let (r, app) = boot_servers app
     in if r \<noteq> 0 then Some (r, app)
        else do {
          (r, app) \<leftarrow> boot_peers env app;
          if r \<noteq> 0 then Some (r, app)
          else do {
            app \<leftarrow> main_loop env n fs (app\<lparr>ws_service_counter := 0, total_processed := 0\<rparr>);
            app \<leftarrow> main_shutdown env app;
            Some (0, app)
          }
        })"

section \<open>The arguments\<close>

definition DEFAULT_CONFIG_PATH :: string where
  "DEFAULT_CONFIG_PATH = ''./streaming_config.json''"

text \<open>The lines of the usage text.\<close>

definition print_usage :: "string \<Rightarrow> string list" where
  "print_usage program =
    [''Usage: '' @ program @ '' [config_file]'',
     [],
     ''Arguments:'',
     ''  config_file   Path to JSON configuration file'',
     ''                (default: ./streaming_config.json)'',
     [],
     ''Example:'',
     ''  '' @ program,
     ''  '' @ program @ '' /path/to/config.json'']"

text \<open>The exit status and the usage text, or the path of the configuration.\<close>

definition main_arguments :: "string list \<Rightarrow> (int \<times> string list) + string" where
  "main_arguments argv =
    (if 2 < length argv then Inl (1, print_usage (argv ! 0))
     else if length argv = 2
          then if argv ! 1 = ''-h'' \<or> argv ! 1 = ''--help'' then Inl (0, print_usage (argv ! 0)) else Inr (argv ! 1)
          else Inr DEFAULT_CONFIG_PATH)"

definition stream_program ::
    "(string \<Rightarrow> cfloat option) \<Rightarrow> (string \<Rightarrow> string list) \<Rightarrow> env \<Rightarrow> nat \<Rightarrow> string list \<Rightarrow> (app \<Rightarrow> app) list
      \<Rightarrow> AppState \<Rightarrow> (int \<times> string list \<times> AppState) option" where
  "stream_program strtod ffprobe env n argv fs app =
    (case main_arguments argv of
       Inl (status, usage) \<Rightarrow> Some (status, usage, app)
     | Inr config_path \<Rightarrow>
        map_option (\<lambda>(status, app). (status, [], app)) (stream_main strtod ffprobe env n config_path fs app))"

end
