(* ===== verification/StreamFacts.thy ===== *)
theory StreamFacts
  imports StreamMain
begin

text \<open>
  The streaming server at work: what its operations change, the invariant of its state, and that every
  callback, every round of the loop and the start keep or establish it. The contract \<open>ws_user\<close> of the
  WebSocket server is met by the callbacks of this program, whatever their nesting.
\<close>

section \<open>What the operations change\<close>

lemma app_send_effect:
  "app_send_start env app = Some (r, app') \<Longrightarrow> \<exists>s. app' = app\<lparr>app_px := s\<rparr>"
  "app_send_stop app = Some (r, app') \<Longrightarrow> \<exists>s. app' = app\<lparr>app_px := s\<rparr>"
  by (auto simp: app_send_start_def app_send_stop_def Let_def)

text \<open>The state without the child processes, the system, the files and the flag of the stream, and a step that
  changes only these.\<close>

definition no_files :: files where
  "no_files = \<lparr>fs_text = (\<lambda>_. None), fs_fifo = (\<lambda>_. False), fs_readable = (\<lambda>_. False), fs_executable = (\<lambda>_. False)\<rparr>"

definition rest_of :: "AppState \<Rightarrow> AppState" where
  "rest_of app = app\<lparr>app_pm := pm_init, app_px := px_start (\<lambda>_. 0) (\<lambda>_. Received []), app_files := no_files,
     streaming_active := False\<rparr>"

lemma rest_of_update [simp]:
  "rest_of (app\<lparr>app_px := s\<rparr>) = rest_of app" "rest_of (app\<lparr>app_pm := pm\<rparr>) = rest_of app"
  "rest_of (app\<lparr>app_files := fs\<rparr>) = rest_of app" "rest_of (app\<lparr>streaming_active := b\<rparr>) = rest_of app"
  "rest_of (app\<lparr>app_pm := pm, app_px := s\<rparr>) = rest_of app"
  "rest_of (app\<lparr>app_px := s, app_files := fs\<rparr>) = rest_of app"
  by (simp_all add: rest_of_def)

lemma rest_of_fields:
  assumes "rest_of app' = rest_of app"
  shows "python_connected app' = python_connected app" "android_connected app' = android_connected app"
    "client_connected app' = client_connected app" "client_wsi app' = client_wsi app"
    "ws_on_connect app' = ws_on_connect app" "ws_on_disconnect app' = ws_on_disconnect app"
    "app_ipc app' = app_ipc app" "app_config app' = app_config app" "ws_lws app' = ws_lws app"
    "ws_queue app' = ws_queue app" "queue_head app' = queue_head app" "queue_tail app' = queue_tail app"
    "queue_count app' = queue_count app"
proof -
  have "f app' = f app" if "\<And>x. f (rest_of x) = f x" for f :: "AppState \<Rightarrow> 'b"
    using that [of app] that [of app'] assms by simp
  note * = this
  show "python_connected app' = python_connected app" "android_connected app' = android_connected app"
    "client_connected app' = client_connected app" "client_wsi app' = client_wsi app"
    "ws_on_connect app' = ws_on_connect app" "ws_on_disconnect app' = ws_on_disconnect app"
    "app_ipc app' = app_ipc app" "app_config app' = app_config app" "ws_lws app' = ws_lws app"
    "ws_queue app' = ws_queue app" "queue_head app' = queue_head app" "queue_tail app' = queue_tail app"
    "queue_count app' = queue_count app"
    by (rule *, simp add: rest_of_def)+
qed

definition stream_step :: "bool \<Rightarrow> AppState \<Rightarrow> AppState \<Rightarrow> bool" where
  "stream_step active app app' \<longleftrightarrow> rest_of app' = rest_of app \<and> streaming_active app' = active \<and>
    (pm_wf (app_pm app) \<longrightarrow> pm_wf (app_pm app'))"

lemma stream_step_refl: "stream_step (streaming_active app) app app"
  by (simp add: stream_step_def)

lemma stream_step_trans [trans]:
  "stream_step a app app' \<Longrightarrow> stream_step b app' app'' \<Longrightarrow> stream_step b app app''"
  by (simp add: stream_step_def)

lemma stream_step_active: "stream_step a app app' \<Longrightarrow> streaming_active app' = a"
  by (simp add: stream_step_def)

lemma stream_step_set: "stream_step a app app' \<Longrightarrow> stream_step b app (app'\<lparr>streaming_active := b\<rparr>)"
  by (simp add: stream_step_def)

lemma app_step:
  "app_send_start env app = Some (r, app') \<Longrightarrow> stream_step (streaming_active app) app app'"
  "app_send_stop app = Some (r, app') \<Longrightarrow> stream_step (streaming_active app) app app'"
  "stream_step (streaming_active app) app (app_usleep us app)"
  by (auto simp: app_usleep_def stream_step_def dest!: app_send_effect)

lemma app_start_ffmpeg_step:
  assumes "app_start_ffmpeg app = (r, app')"
  shows "stream_step (streaming_active app) app app' \<and> (r = 0 \<longrightarrow> ffmpeg_running (app_pm app'))"
proof -
  obtain pm s where p: "pm_start_ffmpeg (app_files app) (app_config app) (app_pm app) (app_px app) = (r, pm, s)"
    and a: "app' = app\<lparr>app_pm := pm, app_px := s\<rparr>"
    using assms by (auto simp: app_start_ffmpeg_def split: prod.splits)
  have "pm_wf (app_pm app) \<Longrightarrow> pm_wf pm"
    using pm_wf_ops(3) [of "app_pm app" "app_files app" "app_config app" "app_px app"] p by simp
  moreover have "r = 0 \<Longrightarrow> ffmpeg_running pm"
    using p by (auto simp: pm_start_ffmpeg_def split: if_splits prod.splits)
  ultimately show ?thesis by (simp add: a stream_step_def)
qed

lemma app_stop_ffmpeg_step: "stream_step (streaming_active app) app (app_stop_ffmpeg app)"
proof -
  obtain pm s where p: "pm_stop_ffmpeg (app_pm app) (app_px app) = (pm, s)" by fastforce
  have "pm_wf (app_pm app) \<Longrightarrow> pm_wf pm" using pm_wf_ops(5) [of "app_pm app" "app_px app"] p by simp
  then show ?thesis using p by (simp add: app_stop_ffmpeg_def stream_step_def)
qed

lemma app_ffmpeg_running_step:
  assumes "app_ffmpeg_running app = (r, app')"
  shows "stream_step (streaming_active app) app app' \<and> r = ffmpeg_running (app_pm app')"
proof -
  obtain pm s where p: "pm_check_processes (app_pm app) (app_px app) = (pm, s)" by fastforce
  have "pm_wf (app_pm app) \<Longrightarrow> pm_wf pm" using pm_wf_ops(6) [of "app_pm app" "app_px app"] p by simp
  then show ?thesis using p assms
    by (auto simp: app_ffmpeg_running_def pm_is_ffmpeg_running_def stream_step_def)
qed

lemma app_file_step:
  "stream_step (streaming_active app) app (app_unlink app)"
  "app_mkfifo app = (r, app') \<Longrightarrow> stream_step (streaming_active app) app app'"
  by (auto simp: app_unlink_def app_mkfifo_def stream_step_def Let_def split: prod.splits)

text \<open>A stream that has started runs FFmpeg.\<close>

lemma camera_attempts_step:
  assumes "camera_attempts env left attempt app = Some (ok, app')" and "\<not> streaming_active app"
  shows "stream_step ok app app' \<and> (ok \<longrightarrow> ffmpeg_running (app_pm app'))"
  using assms
proof (induction left arbitrary: attempt app)
  case 0
  then show ?case using app_step(2) by (fastforce simp: bind_eq_Some_conv)
next
  case (Suc left)
  obtain r app1 where 1: "app_start_ffmpeg app = (r, app1)" by fastforce
  note s1 = app_start_ffmpeg_step [OF 1]
  have a1: "\<not> streaming_active app1" using s1 Suc.prems(2) stream_step_active by blast
  show ?case
  proof (cases "r = 0")
    case False
    then obtain x where "app_send_stop app1 = Some (x, app')" "\<not> ok"
      using Suc.prems(1) 1 by (auto simp: bind_eq_Some_conv)
    then show ?thesis using app_step(2) [of app1 x app'] s1 a1 by (simp add: stream_step_def)
  next
    case True
    define app2 where "app2 = app_usleep 500000 app1"
    have s2: "stream_step False app app2" "\<not> streaming_active app2"
      using s1 app_step(3) [of app1 500000] a1 by (simp_all add: stream_step_def app2_def)
    obtain r3 app3 where 3: "(if attempt = 1 then app_send_start env app2 else Some (0, app2)) = Some (r3, app3)"
      and rest: "(if r3 \<noteq> 0 then Some (False, app_stop_ffmpeg app3)
          else do {
            let app = app_usleep 3000000 app3;
            let (running, app) = app_ffmpeg_running app;
            if running then Some (True, app\<lparr>streaming_active := True\<rparr>)
            else camera_attempts env left (attempt + 1) app
          }) = Some (ok, app')"
      using Suc.prems(1) 1 True unfolding app2_def by (auto simp: bind_eq_Some_conv Let_def)
    have s3: "stream_step False app app3" "\<not> streaming_active app3"
      using 3 app_step(1) [of env app2 r3 app3] s2
      by (cases "attempt = 1"; simp add: stream_step_def)+
    show ?thesis
    proof (cases "r3 = 0")
      case False
      then have "\<not> ok" "app' = app_stop_ffmpeg app3" using rest by auto
      then show ?thesis using app_stop_ffmpeg_step [of app3] s3 by (simp add: stream_step_def)
    next
      case True
      obtain run app4 where 4: "app_ffmpeg_running (app_usleep 3000000 app3) = (run, app4)" by fastforce
      have s4: "stream_step False app app4" "\<not> streaming_active app4" "run = ffmpeg_running (app_pm app4)"
        using app_ffmpeg_running_step [OF 4] app_step(3) [of app3 3000000] s3 by (simp_all add: stream_step_def)
      show ?thesis
      proof (cases run)
        case True
        then show ?thesis using rest \<open>r3 = 0\<close> 4 s4 by (auto simp: stream_step_def)
      next
        case False
        then have "camera_attempts env left (attempt + 1) app4 = Some (ok, app')"
          using rest \<open>r3 = 0\<close> 4 by simp
        from Suc.IH [OF this s4(2)] show ?thesis using s4(1) stream_step_trans by blast
      qed
    qed
  qed
qed

lemma restart_ffmpeg_step:
  assumes "app_ffmpeg_running app = (running, app1)" and "\<not> streaming_active app"
  shows "stream_step False app (if running then app_stop_ffmpeg app1 else app1)"
  using app_ffmpeg_running_step [OF assms(1)] app_stop_ffmpeg_step [of app1] assms(2)
  by (simp add: stream_step_def)

text \<open>What starting a stream does: nothing without the Python process, and otherwise a step after which the stream
  is active when the start succeeded.\<close>

definition stream_ready :: "AppState \<Rightarrow> bool" where
  "stream_ready app \<longleftrightarrow> (streaming_active app \<longrightarrow> python_connected app \<and> ffmpeg_running (app_pm app))"

lemma start_stream_step:
  assumes "start_camera_stream env app = Some (ok, app') \<or> start_file_stream env app = Some (ok, app')"
    and "stream_ready app"
  shows "stream_step ok app app' \<and> stream_ready app'"
proof (cases "streaming_active app \<or> \<not> python_connected app")
  case True
  then show ?thesis using assms
    by (auto simp: start_camera_stream_def start_file_stream_def stream_step_def stream_ready_def)
next
  case False
  obtain running app0 where 0: "app_ffmpeg_running app = (running, app0)" by fastforce
  define app1 where "app1 = (if running then app_stop_ffmpeg app0 else app0)"
  have s1: "stream_step False app app1" using restart_ffmpeg_step [OF 0] False by (simp add: app1_def)
  then have a1: "\<not> streaming_active app1" by (simp add: stream_step_def)
  have finish: ?thesis if "stream_step ok app app'" "ok \<longrightarrow> ffmpeg_running (app_pm app')"
    using that False rest_of_fields(1) [of app' app] by (simp add: stream_ready_def stream_step_def)
  from assms(1) show ?thesis
  proof
    assume c: "start_camera_stream env app = Some (ok, app')"
    obtain r app2 where 2: "app_mkfifo (app_unlink app1) = (r, app2)" by fastforce
    have s2: "stream_step False app app2" "\<not> streaming_active app2"
      using s1 app_file_step(1) [of app1] app_file_step(2) [OF 2] by (simp_all add: stream_step_def)
    have c': "(if r \<noteq> 0 then Some (False, app2) else camera_attempts env MAX_FFMPEG_TRIES 1 app2) = Some (ok, app')"
      using c False 0 2 by (simp add: start_camera_stream_def app1_def Let_def)
    show ?thesis
    proof (cases "r = 0")
      case True
      then have "camera_attempts env MAX_FFMPEG_TRIES 1 app2 = Some (ok, app')" using c' by simp
      from camera_attempts_step [OF this s2(2)] show ?thesis using s2(1) finish stream_step_trans by blast
    next
      case False
      then show ?thesis using c' s2 finish by auto
    qed
  next
    assume f: "start_file_stream env app = Some (ok, app')"
    obtain r app2 where 2: "app_send_start env app1 = Some (r, app2)"
      and f': "(if r \<noteq> 0 then Some (False, app2)
        else do {
          let app = app_usleep 100000 app2;
          let (r, app) = app_start_ffmpeg app;
          if r \<noteq> 0 then do { (_, app) \<leftarrow> app_send_stop app; Some (False, app) }
          else Some (True, (app_usleep 1000000 app)\<lparr>streaming_active := True\<rparr>)
        }) = Some (ok, app')"
      using f False 0 by (auto simp: start_file_stream_def app1_def bind_eq_Some_conv Let_def)
    have s2: "stream_step False app app2" using s1 a1 app_step(1) [OF 2] by (simp add: stream_step_def)
    show ?thesis
    proof (cases "r = 0")
      case False
      then show ?thesis using f' s2 finish by auto
    next
      case True
      obtain r3 app3 where 3: "app_start_ffmpeg (app_usleep 100000 app2) = (r3, app3)" by fastforce
      have s3: "stream_step False app app3" "r3 = 0 \<Longrightarrow> ffmpeg_running (app_pm app3)"
        using s2 app_start_ffmpeg_step [OF 3] app_step(3) [of app2 100000] by (simp_all add: stream_step_def)
      show ?thesis
      proof (cases "r3 = 0")
        case True
        then have "ok" "app' = (app_usleep 1000000 app3)\<lparr>streaming_active := True\<rparr>"
          using f' \<open>r = 0\<close> 3 by auto
        then show ?thesis using s3 True by (intro finish) (auto simp: stream_step_def app_usleep_def)
      next
        case False
        then obtain x where "app_send_stop app3 = Some (x, app')" "\<not> ok"
          using f' \<open>r = 0\<close> 3 by (auto simp: bind_eq_Some_conv)
        then show ?thesis using app_step(2) [of app3 x app'] s3 by (intro finish) (auto simp: stream_step_def)
      qed
    qed
  qed
qed

section \<open>The invariant\<close>

lemma ws_queue_message_frame [simp]:
  fixes app :: AppState
  shows "python_connected (snd (ws_queue_message x app)) = python_connected app"
    "android_connected (snd (ws_queue_message x app)) = android_connected app"
    "client_connected (snd (ws_queue_message x app)) = client_connected app"
    "client_wsi (snd (ws_queue_message x app)) = client_wsi app"
    "ws_on_connect (snd (ws_queue_message x app)) = ws_on_connect app"
    "ws_on_disconnect (snd (ws_queue_message x app)) = ws_on_disconnect app"
    "streaming_active (snd (ws_queue_message x app)) = streaming_active app"
    "app_pm (snd (ws_queue_message x app)) = app_pm app" "app_px (snd (ws_queue_message x app)) = app_px app"
    "app_ipc (snd (ws_queue_message x app)) = app_ipc app" "app_config (snd (ws_queue_message x app)) = app_config app"
    "app_files (snd (ws_queue_message x app)) = app_files app"
  by (simp_all add: ws_queue_message_def lws_callback_on_writable_def Let_def)

lemma ws_queue_message_wf: "ws_queue_wf ws \<Longrightarrow> ws_queue_wf (snd (ws_queue_message x ws))"
proof (cases "client_connected ws \<and> client_wsi ws \<noteq> 0 \<and> length x < WS_MAX_MSG_SIZE")
  case True
  assume "ws_queue_wf ws"
  then have "ws_serving (client_wsi ws) (lws_PRE (ws_lws ws)) ws" using True by (simp add: ws_serving_def)
  from ws_put_law [OF this] True show ?thesis by (simp add: ws_put_def ws_serving_def)
next
  case False
  assume "ws_queue_wf ws"
  moreover have "snd (ws_queue_message x ws) = ws" using False by (auto simp: ws_queue_message_def)
  ultimately show ?thesis by simp
qed

definition stream_ok :: "AppState \<Rightarrow> bool" where
  "stream_ok app \<longleftrightarrow> ws_on_connect app \<and> ws_on_disconnect app \<and> (client_connected app \<longleftrightarrow> android_connected app) \<and>
    (client_connected app \<longleftrightarrow> client_wsi app \<noteq> 0) \<and> stream_ready app \<and> pm_wf (app_pm app) \<and> ws_queue_wf app"

text \<open>What holds between the callbacks: the invariant, while the Python process and its connection stay as they
  are.\<close>

definition service_inv :: "bool \<Rightarrow> IPCConnection \<Rightarrow> AppState \<Rightarrow> bool" where
  "service_inv p conn app \<longleftrightarrow> stream_ok app \<and> python_connected app = p \<and> app_ipc app = conn"

lemma ws_queue_wf_cong:
  assumes "ws_queue_wf app" and "ws_queue app' = ws_queue app" and "queue_head app' = queue_head app"
    and "queue_tail app' = queue_tail app" and "queue_count app' = queue_count app"
  shows "ws_queue_wf app'"
  using assms by (simp add: ws_queue_wf_def)

lemma service_inv_step:
  assumes "service_inv p conn app" and "stream_step b app app'" and "stream_ready app'"
  shows "service_inv p conn app'"
proof -
  have r: "rest_of app' = rest_of app" "pm_wf (app_pm app')"
    using assms by (simp_all add: stream_step_def service_inv_def stream_ok_def)
  note f = rest_of_fields [OF r(1)]
  have "ws_queue_wf app'"
    by (rule ws_queue_wf_cong [of app]) (use assms(1) f in \<open>simp_all add: service_inv_def stream_ok_def\<close>)
  then show ?thesis using assms(1,3) r(2) f by (auto simp: service_inv_def stream_ok_def)
qed

lemma on_android_connect_keeps:
  assumes "\<And>x r x'. service_inv p conn x \<Longrightarrow> service x = Some (r, x') \<Longrightarrow> service_inv p conn x'"
    and "service_inv p conn app" and "wsi \<noteq> 0"
    and "on_android_connect env service (app\<lparr>client_wsi := wsi, client_connected := True\<rparr>) = Some app'"
  shows "service_inv p conn app'"
proof -
  define app1 where "app1 = app\<lparr>client_wsi := wsi, client_connected := True, android_connected := True\<rparr>"
  have "ws_queue_wf app1"
    by (rule ws_queue_wf_cong [of app]) (use assms(2) in \<open>simp_all add: app1_def service_inv_def stream_ok_def\<close>)
  then have 1: "service_inv p conn app1" "stream_ready app1"
    using assms(2,3) by (auto simp: app1_def service_inv_def stream_ok_def stream_ready_def)
  have run: "(if \<not> python_connected app1 then Some app1
      else do {
        (ok, app) \<leftarrow> (if app_is_fifo app1 then start_camera_stream env app1 else start_file_stream env app1);
        if ok then send_stream_ready service app else Some app
      }) = Some app'"
    using assms(4) by (simp only: on_android_connect_def app1_def Let_def)
  show ?thesis
  proof (cases "python_connected app1")
    case False
    then have "app' = app1" using run by simp
    then show ?thesis using 1 by simp
  next
    case True
    obtain ok app2 where 2: "(if app_is_fifo app1 then start_camera_stream env app1 else start_file_stream env app1)
        = Some (ok, app2)"
      and rest: "(if ok then send_stream_ready service app2 else Some app2) = Some app'"
      using run True by (auto simp: bind_eq_Some_conv)
    have "start_camera_stream env app1 = Some (ok, app2) \<or> start_file_stream env app1 = Some (ok, app2)"
      using 2 by (auto split: if_splits)
    from start_stream_step [OF this 1(2)] have i2: "service_inv p conn app2"
      using service_inv_step 1(1) by blast
    show ?thesis
    proof (cases ok)
      case False
      then show ?thesis using rest i2 by simp
    next
      case True
      define app3 where "app3 = snd (ws_send (ready_message (app_config app2)) app2)"
      have i3: "service_inv p conn app3"
        using i2 ws_queue_message_wf [of app2] by (auto simp: app3_def ws_send_def service_inv_def stream_ok_def stream_ready_def)
      obtain r where "service app3 = Some (r, app')"
        using rest True by (auto simp: send_stream_ready_def app3_def bind_eq_Some_conv split: prod.splits)
      then show ?thesis using assms(1) i3 by blast
    qed
  qed
qed

lemma on_android_disconnect_keeps:
  assumes "service_inv p conn app"
    and "on_android_disconnect (ws_clear_queue (app\<lparr>client_wsi := 0, client_connected := False\<rparr>)) = Some app'"
  shows "service_inv p conn app'"
proof -
  define app1 where "app1 = (ws_clear_queue (app\<lparr>client_wsi := 0, client_connected := False\<rparr>))\<lparr>android_connected := False\<rparr>"
  have 1: "service_inv p conn app1"
    using assms(1) by (auto simp: app1_def service_inv_def stream_ok_def stream_ready_def ws_clear_queue_def
      ws_queue_wf_def WS_QUEUE_SIZE_def)
  have run: "(if \<not> app_is_fifo app1 \<and> streaming_active app1
      then do {
        (_, app) \<leftarrow> (if python_connected app1 then app_send_stop app1 else Some (0, app1));
        Some ((app_stop_ffmpeg app)\<lparr>streaming_active := False\<rparr>)
      }
      else Some app1) = Some app'"
    using assms(2) by (simp only: on_android_disconnect_def app1_def Let_def)
  show ?thesis
  proof (cases "\<not> app_is_fifo app1 \<and> streaming_active app1")
    case False
    then have "app' = app1" using run by auto
    then show ?thesis using 1 by simp
  next
    case True
    then obtain x app2 where 2: "(if python_connected app1 then app_send_stop app1 else Some (0, app1)) = Some (x, app2)"
      and app': "app' = (app_stop_ffmpeg app2)\<lparr>streaming_active := False\<rparr>"
      using run by (auto simp: bind_eq_Some_conv)
    have "stream_step (streaming_active app1) app1 app2"
      using 2 app_step(2) [of app1 x app2] stream_step_refl by (auto split: if_splits)
    then have "stream_step False app1 app'"
      using app_stop_ffmpeg_step [of app2] by (simp add: app' stream_step_def)
    moreover have "stream_ready app'" by (simp add: app' stream_ready_def)
    ultimately show ?thesis using service_inv_step [OF 1] by blast
  qed
qed

text \<open>The callbacks of the program meet the contract of the server's user, whatever they may call.\<close>

lemma stream_callbacks:
  assumes "\<And>x r x'. service_inv p conn x \<Longrightarrow> service x = Some (r, x') \<Longrightarrow> service_inv p conn x'"
  shows "ws_user (service_inv p conn) (on_android_connect env service) on_android_disconnect"
proof (unfold_locales, goal_cases)
  case (1 ws)
  then show ?case by (simp add: service_inv_def stream_ok_def)
next
  case (2 ws l)
  then show ?case by (auto simp: service_inv_def stream_ok_def stream_ready_def ws_queue_wf_def)
next
  case (3 ws)
  have "ws_queue_wf (ws\<lparr>queue_tail := (queue_tail ws + 1) mod WS_QUEUE_SIZE, queue_count := queue_count ws - 1\<rparr>)"
  proof -
    obtain m where m: "queue_count ws = Suc m" using 3(2) by (cases "queue_count ws") auto
    have "((queue_tail ws + 1) mod WS_QUEUE_SIZE + m) mod WS_QUEUE_SIZE = (queue_tail ws + Suc m) mod WS_QUEUE_SIZE"
      by (simp add: mod_simps)
    moreover have "0 < WS_QUEUE_SIZE" by (simp add: WS_QUEUE_SIZE_def)
    ultimately show ?thesis using 3(1) m by (auto simp: service_inv_def stream_ok_def ws_queue_wf_def)
  qed
  then show ?case using 3(1) by (auto simp: service_inv_def stream_ok_def stream_ready_def)
next
  case (4 ws wsi ws')
  show ?case by (rule on_android_connect_keeps [OF _ 4]) (rule assms)
next
  case (5 ws ws')
  then show ?case by (rule on_android_disconnect_keeps)
qed

lemma stream_service_keeps:
  "service_inv p conn app \<Longrightarrow> stream_service env n app = Some (r, app') \<Longrightarrow> service_inv p conn app'"
proof (induction n arbitrary: app r app')
  case (Suc n)
  show ?case
    using ws_user.service [OF stream_callbacks, of p conn "stream_service env n" app env r app'] Suc by simp
qed simp

interpretation stream_user: ws_user "service_inv p conn" "on_android_connect env (stream_service env n)" on_android_disconnect
  for p conn env n
  by (rule stream_callbacks) (rule stream_service_keeps)

section \<open>Rounds\<close>

lemma take_message_wf:
  assumes "conn_wf conn" and "take_message b conn s = (r, m, conn', s')"
  shows "conn_wf conn' \<and> client_fd conn' = client_fd conn \<and> 0 \<le> r"
proof -
  have len: "length (fst (move_to_front i n buf)) = length buf" for i n buf
    by (simp add: move_to_front_def Let_def)
  have wf: "conn_wf (conn\<lparr>recv_len := k, recv_buffer := buf[k := NUL]\<rparr>)"
    if "length buf = RECV_BUFFER_SIZE" "k \<le> recv_len conn" for k buf
    using that assms(1) by (simp add: conn_wf_def)
  show ?thesis
  proof (cases "strchr (c_str (recv_buffer conn)) newline")
    case None
    then show ?thesis using assms by (simp add: take_message_def)
  next
    case (Some rest)
    define nl where "nl = length (c_str (recv_buffer conn)) - length rest"
    define k where "k = (if b \<le> nl then b - 1 else nl)"
    define remaining where "remaining = recv_len conn - (k + 1)"
    obtain buf inside where b: "(if 0 < remaining then move_to_front (nl + 1) remaining (recv_buffer conn)
        else (recv_buffer conn, True)) = (buf, inside)" by fastforce
    have "length buf = RECV_BUFFER_SIZE"
      using b len [of "nl + 1" remaining "recv_buffer conn"] assms(1) by (auto simp: conn_wf_def split: if_splits)
    moreover have "remaining \<le> recv_len conn" by (simp add: remaining_def)
    moreover have "take_message b conn s = (int k, Some (take k (recv_buffer conn)),
        conn\<lparr>recv_len := remaining, recv_buffer := buf[remaining := NUL]\<rparr>, if inside then s else s\<lparr>px_ub := True\<rparr>)"
      by (simp only: take_message_def Some option.case Let_def nl_def [symmetric] k_def [symmetric]
        remaining_def [symmetric] b prod.case)
    then have "r = int k" "conn' = conn\<lparr>recv_len := remaining, recv_buffer := buf[remaining := NUL]\<rparr>"
      using assms(2) by simp_all
    ultimately show ?thesis using wf by simp
  qed
qed

lemma ipc_recv_message_wf:
  assumes "conn_wf conn" and "client_fd conn \<noteq> - 1" and "ipc_recv_message b conn s = (r, m, conn', s')"
  shows "conn_wf conn' \<and> (client_fd conn' = - 1 \<longleftrightarrow> r < 0)"
proof -
  obtain ok c1 s1 where 1: "recv_more conn s = (ok, c1, s1)" by (metis prod_cases3)
  note w = recv_more_wf [OF assms(1,2) 1]
  show ?thesis
  proof (cases ok)
    case True
    then have "take_message b c1 s1 = (r, m, conn', s')" using assms(2,3) 1 by (simp add: ipc_recv_message_def)
    from take_message_wf [OF w(1) this] show ?thesis using w(4) [OF True] assms(2) by auto
  next
    case False
    have "client_fd c1 = - 1"
      using 1 False by (auto simp: recv_more_def px_recv_def split: if_splits received.splits)
    then show ?thesis using assms(2,3) 1 w(1) False by (auto simp: ipc_recv_message_def)
  qed
qed

lemma stream_ok_update [simp]:
  "stream_ok (app\<lparr>app_ipc := conn\<rparr>) = stream_ok app" "stream_ok (app\<lparr>app_px := s\<rparr>) = stream_ok app"
  "stream_ok (app\<lparr>app_ipc := conn, app_px := s\<rparr>) = stream_ok app"
  "stream_ok (app\<lparr>total_processed := k\<rparr>) = stream_ok app" "stream_ok (app\<lparr>ws_service_counter := k\<rparr>) = stream_ok app"
  "stream_ok (app\<lparr>app_fw := fw\<rparr>) = stream_ok app" "stream_ok (app\<lparr>app_bridge := br\<rparr>) = stream_ok app"
  "stream_ok (app\<lparr>app_bridge := br, app_fw := fw\<rparr>) = stream_ok app"
  by (simp_all add: stream_ok_def stream_ready_def ws_queue_wf_def)

lemma stream_ok_message: "stream_ok app \<Longrightarrow> stream_ok (snd (ws_queue_message x app))"
  using ws_queue_message_wf [of app x] by (auto simp: stream_ok_def stream_ready_def)

lemma forward_detection_keeps:
  "stream_ok app \<Longrightarrow> stream_ok (forward_detection x app) \<and> app_ipc (forward_detection x app) = app_ipc app \<and>
    python_connected (forward_detection x app) = python_connected app \<and> app_px (forward_detection x app) = app_px app"
  by (simp add: forward_detection_def ws_send_json_def stream_ok_message)

lemma read_batch_keeps:
  assumes "stream_ok app" and "python_connected app" and "conn_wf (app_ipc app)" and "client_fd (app_ipc app) \<noteq> - 1"
    and "read_batch k l c app = (len, count, app')" and "0 < k \<or> 0 \<le> l"
  shows "stream_ok app' \<and> python_connected app' \<and> conn_wf (app_ipc app') \<and>
    (client_fd (app_ipc app') = - 1 \<longleftrightarrow> len < 0)"
  using assms
proof (induction k arbitrary: l c app)
  case (Suc k)
  obtain r m conn s where r: "ipc_recv_message MAX_MSG_SIZE (app_ipc app) (app_px app) = (r, m, conn, s)"
    by (metis prod_cases4)
  define app1 where "app1 = app\<lparr>app_ipc := conn, app_px := s\<rparr>"
  note w = ipc_recv_message_wf [OF Suc.prems(3,4) r]
  have 1: "stream_ok app1" "python_connected app1" "app_ipc app1 = conn"
    using Suc.prems(1,2) by (simp_all add: app1_def)
  show ?case
  proof (cases "0 < r")
    case True
    define app2 where "app2 = forward_detection (the m) app1"
    have 2: "stream_ok app2" "python_connected app2" "app_ipc app2 = conn"
      using forward_detection_keeps [OF 1(1), of "the m"] 1(2,3) by (simp_all add: app2_def)
    have "read_batch k r (c + 1) app2 = (len, count, app')"
      using Suc.prems(5) r True by (simp add: app_recv_message_def app1_def app2_def)
    from Suc.IH [OF 2(1,2) _ _ this] show ?thesis using 2(3) w True by auto
  next
    case False
    then show ?thesis using Suc.prems(5) r 1 w by (auto simp: app_recv_message_def app1_def)
  qed
qed auto

definition stream_inv :: "AppState \<Rightarrow> bool" where
  "stream_inv app \<longleftrightarrow> stream_ok app \<and> conn_wf (app_ipc app) \<and>
    (python_connected app \<longleftrightarrow> client_fd (app_ipc app) \<noteq> - 1)"

lemma stream_inv_step:
  assumes "stream_inv app" and "stream_step b app app'" and "stream_ready app'"
  shows "stream_inv app'"
proof -
  have "service_inv (python_connected app) (app_ipc app) app" using assms(1) by (simp add: stream_inv_def service_inv_def)
  from service_inv_step [OF this assms(2,3)] show ?thesis using assms(1) by (auto simp: stream_inv_def service_inv_def)
qed

lemma stream_inv_service:
  assumes "stream_inv app" and "stream_service env n app = Some (r, app')"
  shows "stream_inv app'"
proof -
  have "service_inv (python_connected app) (app_ipc app) app" using assms(1) by (simp add: stream_inv_def service_inv_def)
  from stream_service_keeps [OF this assms(2)] show ?thesis using assms(1) by (auto simp: stream_inv_def service_inv_def)
qed

lemma serve_python_keeps:
  assumes "stream_inv app" and "serve_python env n app = Some (w, app')"
  shows "stream_inv app'"
proof (cases "python_connected app \<and> ipc_check_client_connected (app_ipc app)")
  case False
  then show ?thesis using assms by (auto simp: serve_python_def)
next
  case True
  obtain len count app1 where 1: "read_batch 10 0 0 app = (len, count, app1)" by (metis prod_cases3)
  have k: "stream_ok app1" "python_connected app1" "conn_wf (app_ipc app1)" "client_fd (app_ipc app1) = - 1 \<longleftrightarrow> len < 0"
    using read_batch_keeps [OF _ _ _ _ 1] assms(1) True by (auto simp: stream_inv_def ipc_check_client_connected_def)
  define app2 where "app2 = app1\<lparr>total_processed := total_processed app1 + count\<rparr>"
  have i2: "service_inv True (app_ipc app1) app2" using k by (simp add: app2_def service_inv_def)
  obtain app3 where 3: "(if 0 < count then map_option snd (stream_service env n app2) else Some app2) = Some app3"
    and app': "app' = (if len < 0
         then if streaming_active (app3\<lparr>python_connected := False\<rparr>)
              then (app_stop_ffmpeg (app3\<lparr>python_connected := False\<rparr>))\<lparr>streaming_active := False\<rparr>
              else app3\<lparr>python_connected := False\<rparr>
         else app3)"
    using assms(2) True 1 by (auto simp: serve_python_def app2_def bind_eq_Some_conv Let_def)
  have i3: "service_inv True (app_ipc app1) app3"
    using 3 i2 stream_service_keeps [of True "app_ipc app1" app2 env n] by (auto split: if_splits)
  show ?thesis
  proof (cases "len < 0")
    case False
    then show ?thesis using i3 k app' by (simp add: stream_inv_def service_inv_def)
  next
    case True
    define app4 where "app4 = app3\<lparr>python_connected := False\<rparr>"
    have a: "app' = (if streaming_active app4 then (app_stop_ffmpeg app4)\<lparr>streaming_active := False\<rparr> else app4)"
      using app' True by (simp add: app4_def)
    define app5 where "app5 = (if streaming_active app4 then app_stop_ffmpeg app4 else app4)\<lparr>streaming_active := False\<rparr>"
    have a5: "app' = app5" using a by (simp add: app5_def)
    have i4: "service_inv False (app_ipc app1) (app4\<lparr>streaming_active := False\<rparr>)"
      using i3 by (auto simp: app4_def service_inv_def stream_ok_def stream_ready_def ws_queue_wf_def)
    have "stream_step False (app4\<lparr>streaming_active := False\<rparr>) app5"
      using app_stop_ffmpeg_step [of app4] by (auto simp: app5_def stream_step_def)
    from service_inv_step [OF i4 this] have "service_inv False (app_ipc app1) app'"
      by (simp add: a5) (simp add: app5_def stream_ready_def)
    then show ?thesis using k True by (simp add: stream_inv_def service_inv_def)
  qed
qed

lemma bridge_tick_server:
  assumes "ddl_bridge_tick neg b app w = (b', app', w')"
  shows "app' = app \<or> (\<exists>x. app' = snd (ws_queue_message x app))"
proof (rule disjCI)
  assume no: "\<nexists>x. app' = snd (ws_queue_message x app)"
  have "ws_queue_message x app \<noteq> (r, app')" for x r using no by (metis snd_conv)
  then show "app' = app"
    using assms by (auto simp: ddl_bridge_tick_def ws_send_json_def Let_def split: option.splits if_splits prod.splits)
qed

lemma stream_inv_update [simp]:
  "stream_inv (app\<lparr>app_fw := fw\<rparr>) = stream_inv app" "stream_inv (app\<lparr>app_bridge := br, app_fw := fw\<rparr>) = stream_inv app"
  "stream_inv (app\<lparr>app_bridge := br\<rparr>) = stream_inv app"
  "stream_inv (app\<lparr>ws_service_counter := k\<rparr>) = stream_inv app" "stream_inv (app\<lparr>app_px := s\<rparr>) = stream_inv app"
  "stream_inv (app\<lparr>total_processed := k\<rparr>) = stream_inv app"
  "stream_inv (app\<lparr>ws_service_counter := j, total_processed := k\<rparr>) = stream_inv app"
  by (simp_all add: stream_inv_def) (simp add: stream_ok_def stream_ready_def ws_queue_wf_def)?

lemma serve_sensors_keeps: "stream_inv app \<Longrightarrow> stream_inv (serve_sensors env app)"
proof -
  assume i: "stream_inv app"
  obtain b app' w where t: "ddl_bridge_tick (neg_json env) (app_bridge app) app (fw_app (app_fw app)) = (b, app', w)"
    by (metis prod_cases3)
  have "stream_inv (snd (ws_queue_message x app))" for x
    using i by (simp add: stream_inv_def stream_ok_message)
  then have "stream_inv app'" using bridge_tick_server [OF t] i by auto
  then show ?thesis using t by (simp add: serve_sensors_def)
qed

lemma serve_android_keeps:
  assumes "stream_inv app" and "serve_android env n app = Some app'"
  shows "stream_inv app'"
proof -
  define app1 where "app1 = app\<lparr>ws_service_counter := ws_service_counter app + 1\<rparr>"
  have i: "stream_inv app1" using assms(1) by (simp add: app1_def)
  show ?thesis
  proof (cases "10 \<le> ws_service_counter app1")
    case True
    then obtain r app2 where "stream_service env n app1 = Some (r, app2)" "app' = app2\<lparr>ws_service_counter := 0\<rparr>"
      using assms(2) by (auto simp: serve_android_def app1_def)
    then show ?thesis using stream_inv_service [OF i] by simp
  next
    case False
    then show ?thesis using assms(2) i by (auto simp: serve_android_def app1_def)
  qed
qed

lemma check_playback_keeps:
  assumes "stream_inv app" and "check_playback app = Some app'"
  shows "stream_inv app'"
proof (cases "streaming_active app \<and> \<not> loop_video (app_config app) \<and> \<not> app_is_fifo app")
  case False
  then show ?thesis using assms by (auto simp: check_playback_def)
next
  case True
  obtain pm s where c: "pm_check_processes (app_pm app) (app_px app) = (pm, s)" by fastforce
  define app1 where "app1 = app\<lparr>app_pm := pm, app_px := s\<rparr>"
  have s1: "stream_step True app app1"
    using True pm_wf_ops(6) [of "app_pm app" "app_px app"] c by (simp add: app1_def stream_step_def)
  obtain running app2 where 2: "app_ffmpeg_running app1 = (running, app2)" by fastforce
  have s2: "stream_step True app app2" "running = ffmpeg_running (app_pm app2)"
    using app_ffmpeg_running_step [OF 2] s1 by (simp_all add: stream_step_def)
  have run: "(if running then Some app2
       else do {
         (_, app) \<leftarrow> (if python_connected app2 then app_send_stop app2 else Some (0, app2));
         Some (app\<lparr>streaming_active := False\<rparr>)
       }) = Some app'"
    using assms(2) True c 2 by (simp add: check_playback_def app1_def)
  show ?thesis
  proof (cases running)
    case True
    have "python_connected app" using assms(1) \<open>streaming_active app \<and> _\<close>
      by (auto simp: stream_inv_def stream_ok_def stream_ready_def)
    then have "stream_ready app2"
      using rest_of_fields(1) [of app2 app] s2 True by (simp add: stream_ready_def stream_step_def)
    then show ?thesis using run True stream_inv_step [OF assms(1) s2(1)] by simp
  next
    case False
    then obtain x app3 where 3: "(if python_connected app2 then app_send_stop app2 else Some (0, app2)) = Some (x, app3)"
      and app': "app' = app3\<lparr>streaming_active := False\<rparr>"
      using run by (auto simp: bind_eq_Some_conv)
    have "stream_step (streaming_active app2) app2 app3"
      using 3 app_step(2) [of app2 x app3] stream_step_refl by (auto split: if_splits)
    then have "stream_step False app app'" using s2(1) by (simp add: app' stream_step_def)
    moreover have "stream_ready app'" by (simp add: app' stream_ready_def)
    ultimately show ?thesis using stream_inv_step [OF assms(1)] by blast
  qed
qed

lemma main_round_keeps:
  assumes "stream_inv app" and "main_round env n app = Some app'"
  shows "stream_inv app'"
proof -
  obtain w app1 app2 where 1: "serve_python env n app = Some (w, app1)" and 2: "serve_android env n app1 = Some app2"
    and 3: "check_playback (if w then serve_sensors env app2 else app_usleep 100 (serve_sensors env app2)) = Some app'"
    using assms(2) by (auto simp: main_round_def bind_eq_Some_conv Let_def)
  have "stream_inv (serve_sensors env app2)"
    using serve_sensors_keeps [OF serve_android_keeps [OF serve_python_keeps [OF assms(1) 1] 2]] .
  then have "stream_inv (if w then serve_sensors env app2 else app_usleep 100 (serve_sensors env app2))"
    by (simp add: app_usleep_def)
  from check_playback_keeps [OF this 3] show ?thesis .
qed

lemma main_loop_keeps: "stream_inv app \<Longrightarrow> main_loop env n fs app = Some app' \<Longrightarrow> stream_inv app'"
proof (induction fs arbitrary: app)
  case (Cons f fs)
  then obtain app1 where 1: "main_round env n (app\<lparr>app_fw := (app_fw app)\<lparr>fw_app := f (fw_app (app_fw app))\<rparr>\<rparr>) = Some app1"
    and 2: "main_loop env n fs app1 = Some app'" by (auto simp: bind_eq_Some_conv)
  have "stream_inv app1" using main_round_keeps [OF _ 1] Cons.prems(1) by simp
  then show ?case using Cons.IH 2 by blast
qed simp

section \<open>The start\<close>

definition servers_up :: "AppState \<Rightarrow> bool" where
  "servers_up app \<longleftrightarrow> stream_ok app \<and> \<not> client_connected app \<and> \<not> streaming_active app"

lemma boot_servers_up:
  assumes "boot_servers app = (0, app')" and "\<not> android_connected app" and "\<not> streaming_active app"
  shows "servers_up app'"
proof -
  define app1 where "app1 = app\<lparr>app_pm := pm_init\<rparr>"
  obtain r2 pm s2 where 2: "pm_start_mediamtx (app_config app1) (app_pm app1) (app_px app1) = (r2, pm, s2)"
    by (metis prod_cases3)
  obtain r3 s3 where 3: "pm_wait_for_mediamtx_ready 10 s2 = (r3, s3)" by fastforce
  define app3 where "app3 = app1\<lparr>app_pm := pm, app_px := s3\<rparr>"
  obtain r4 app4 s4 where 4: "ws_init (websocket_port (app_config app3)) (app_px app3) app3 = (r4, app4, s4)"
    by (metis prod_cases3)
  have r: "r2 = 0 \<and> r3 = 0 \<and> r4 = 0" "app' = ws_set_callbacks True True (app4\<lparr>app_px := s4\<rparr>)"
    using assms(1) 2 3 4 by (auto simp: boot_servers_def app1_def app3_def Let_def split: if_splits)
  have "pm_wf pm" using pm_wf_ops(1) pm_wf_ops(2) [of pm_init "app_config app1" "app_px app1"] 2 by (simp add: app1_def)
  moreover have "\<not> android_connected app3" "\<not> streaming_active app3" "app_pm app3 = pm"
    using assms(2,3) by (simp_all add: app3_def app1_def)
  ultimately show ?thesis using 4 r
    by (auto simp: ws_init_def ws_set_callbacks_def servers_up_def stream_ok_def stream_ready_def ws_queue_wf_def
      WS_QUEUE_SIZE_def Let_def split: if_splits prod.splits)
qed

lemma ipc_server_init_wf: "ipc_server_init s = (r, conn, s') \<Longrightarrow> conn_wf conn"
  by (auto simp: ipc_server_init_def conn_wf_def RECV_BUFFER_SIZE_def Let_def split: prod.splits if_splits)

lemma ipc_accept_client_wf:
  assumes "conn_wf conn" and "ipc_accept_client conn s = (0, conn', s')"
  shows "conn_wf conn' \<and> client_fd conn' \<noteq> - 1"
  using assms
  by (auto simp: ipc_accept_client_def conn_wf_def RECV_BUFFER_SIZE_def Let_def split: prod.splits if_splits)

lemma boot_peers_inv:
  assumes "servers_up app" and "boot_peers env app = Some (0, app')"
  shows "stream_inv app'"
proof -
  obtain b fw s where 1: "ddl_bridge_start (env_threads env) False DDL_BRIDGE_INTERVAL_MS (app_fw app) (app_px app)
      = Some (b, fw, s)"
    using assms(2) by (auto simp: boot_peers_def bind_eq_Some_conv)
  define app1 where "app1 = app\<lparr>app_bridge := b, app_fw := fw, app_px := s\<rparr>"
  obtain r2 c2 s2 where 2: "ipc_server_init s = (r2, c2, s2)" by (metis prod_cases3)
  obtain r3 c3 s3 where 3: "ipc_accept_client c2 s2 = (r3, c3, s3)" by (metis prod_cases3)
  define app3 where "app3 = app1\<lparr>app_ipc := c3, app_px := s3, python_connected := True\<rparr>"
  have r: "r2 = 0" "r3 = 0" "(if app_is_fifo app3 then map_option (\<lambda>(_, app). (0, app)) (start_camera_stream env app3)
      else Some (0, app3)) = Some (0, app')"
    using assms(2) 1 2 3 by (auto simp: boot_peers_def app1_def app3_def Let_def split: if_splits)
  have "conn_wf c3 \<and> client_fd c3 \<noteq> - 1" using ipc_accept_client_wf [OF ipc_server_init_wf [OF 2]] 3 r(2) by blast
  then have i3: "stream_inv app3" "stream_ready app3"
    using assms(1) by (auto simp: app3_def app1_def servers_up_def stream_inv_def stream_ok_def stream_ready_def ws_queue_wf_def)
  show ?thesis
  proof (cases "app_is_fifo app3")
    case True
    then obtain ok where c: "start_camera_stream env app3 = Some (ok, app')" using r(3) by auto
    then show ?thesis using start_stream_step [of env app3 ok app'] stream_inv_step [OF i3(1)] i3(2) by blast
  next
    case False
    then show ?thesis using r(3) i3 by simp
  qed
qed

end
