(* ===== verification/StreamLive.thy ===== *)
theory StreamLive
  imports StreamFacts
begin

text \<open>
  That the streaming server goes on: what its operations leave alone in the operating system, how many
  processes the start of the camera starts, and that every operation returns when the socket of the
  Python process moves and the service of the WebSocket is not entered again and again by new
  applications.
\<close>

section \<open>Starting the camera\<close>

text \<open>What sending leaves alone.\<close>

definition same_spawned :: "posix \<Rightarrow> posix \<Rightarrow> bool" where
  "same_spawned s s' \<longleftrightarrow> px_spawned s' = px_spawned s \<and> px_answers s' = px_answers s"

lemma sendall_loop_spawned:
  assumes "sendall_loop fd buf k s = Some x"
  shows "same_spawned s (snd x)"
proof -
  have call: "same_spawned s s'" if "send_call fd buf k s = (n, s')" for k s n s'
    using that by (auto simp: send_call_def same_spawned_def px_send_def px_ask_def px_usleep_def Let_def split: if_splits)
  show ?thesis
    using assms unfolding sendall_loop_def
    by (induction rule: transfer_induct) (use call in \<open>force simp: same_spawned_def\<close>)+
qed

lemma app_send_spawned:
  "app_send_start env app = Some (r, app') \<Longrightarrow> same_spawned (app_px app) (app_px app')"
  "app_send_stop app = Some (r, app') \<Longrightarrow> same_spawned (app_px app) (app_px app')"
  using sendall_loop_spawned
  by (auto simp: app_send_start_def app_send_stop_def ipc_send_start_def ipc_send_stop_def sendall_def same_spawned_def
    Let_def split: if_splits prod.splits)

lemma wait_gone_spawned: "same_spawned s (snd (wait_gone n pid s))"
proof (induction n arbitrary: s)
  case (Suc n)
  show ?case using Suc.IH [of "px_usleep 100000 (s\<lparr>px_asked := Suc (px_asked s)\<rparr>)"]
    by (simp add: pid_gone_effect same_spawned_def px_usleep_def)
qed (simp add: same_spawned_def)

lemma pm_spawned:
  "same_spawned s (snd (pm_stop_ffmpeg pm s))" "same_spawned s (snd (pm_check_processes pm s))"
proof -
  have k: "same_spawned s (snd (px_kill pid sig s))" for pid sig s
    by (simp add: px_kill_def px_ask_def same_spawned_def)
  have "same_spawned s (terminate_child n pid s)" for n pid
    using k [of s pid SIGTERM] k [of _ pid SIGKILL] wait_gone_spawned [of _ n pid]
    by (auto simp: terminate_child_def same_spawned_def split: prod.splits) (metis snd_conv)+
  then show "same_spawned s (snd (pm_stop_ffmpeg pm s))" by (simp add: pm_stop_ffmpeg_def same_spawned_def)
  show "same_spawned s (snd (pm_check_processes pm s))"
    by (auto simp: pm_check_processes_def pid_gone_effect same_spawned_def Let_def)
qed

lemma app_spawned:
  "same_spawned (app_px app) (app_px (app_stop_ffmpeg app))"
  "app_ffmpeg_running app = (r, app') \<Longrightarrow> same_spawned (app_px app) (app_px app')"
  "same_spawned (app_px app) (app_px (app_usleep us app))"
  "same_spawned (app_px app) (app_px (app_unlink app))"
  "app_mkfifo app = (e, app') \<Longrightarrow> same_spawned (app_px app) (app_px app')"
  using pm_spawned(1) [of "app_px app" "app_pm app"] pm_spawned(2) [of "app_px app" "app_pm app"]
  by (auto simp: app_stop_ffmpeg_def app_ffmpeg_running_def pm_is_ffmpeg_running_def app_usleep_def px_usleep_def
    app_unlink_def app_mkfifo_def px_ask_def same_spawned_def Let_def split: prod.splits)

text \<open>At most \<open>n\<close> processes are started, each with the arguments that the configuration asks for, which stay the
  same.\<close>

definition launches :: "nat \<Rightarrow> AppState \<Rightarrow> AppState \<Rightarrow> bool" where
  "launches n app app' \<longleftrightarrow>
    (\<exists>pids. length pids \<le> n \<and> px_spawned (app_px app') = px_spawned (app_px app) @
       map (\<lambda>p. (p, ffmpeg_args (app_files app) (app_config app))) pids) \<and>
    px_answers (app_px app') = px_answers (app_px app) \<and> app_files app' = app_files app \<and>
    app_config app' = app_config app"

lemma launches_trans:
  assumes "launches m app app1" and "launches n app1 app2"
  shows "launches (m + n) app app2"
proof -
  obtain ps qs where "length ps \<le> m" "length qs \<le> n"
    "px_spawned (app_px app2) = px_spawned (app_px app) @
       map (\<lambda>p. (p, ffmpeg_args (app_files app) (app_config app))) (ps @ qs)"
    using assms by (auto simp: launches_def)
  then show ?thesis using assms by (auto simp: launches_def intro!: exI [of _ "ps @ qs"])
qed

lemma launches_mono: "launches m app app' \<Longrightarrow> m \<le> n \<Longrightarrow> launches n app app'"
  unfolding launches_def by (meson le_trans)

lemma launches_none:
  assumes "same_spawned (app_px app) (app_px app')" and "app_files app' = app_files app" and "app_config app' = app_config app"
  shows "launches 0 app app'"
  using assms by (simp add: launches_def same_spawned_def)

lemma app_launches:
  "app_send_start env app = Some (e, app') \<Longrightarrow> launches 0 app app'"
  "app_send_stop app = Some (e, app') \<Longrightarrow> launches 0 app app'"
  "launches 0 app (app_stop_ffmpeg app)"
  "app_ffmpeg_running app = (r, app') \<Longrightarrow> launches 0 app app'"
  "launches 0 app (app_usleep us app)"
  using pm_spawned(1) [of "app_px app" "app_pm app"] pm_spawned(2) [of "app_px app" "app_pm app"]
  by (auto intro!: launches_none intro: app_send_spawned dest: app_send_effect simp: app_stop_ffmpeg_def
    app_ffmpeg_running_def pm_is_ffmpeg_running_def app_usleep_def px_usleep_def same_spawned_def split: prod.splits)

lemma app_start_ffmpeg_launches:
  assumes "app_start_ffmpeg app = (r, app')"
  shows "launches 1 app app'"
proof -
  have "(\<exists>pids. length pids \<le> 1 \<and> px_spawned s = px_spawned (app_px app) @ map (\<lambda>p. (p, x)) pids) \<and>
      px_answers s = px_answers (app_px app)"
    if "px_spawn x (app_px app) = (pid, s)" for pid s x
  proof (cases "0 < pid")
    case True
    then show ?thesis using that
      by (auto simp: px_spawn_def px_ask_def Let_def split: if_splits intro!: exI [of _ "[pid]"])
  next
    case False
    then show ?thesis using that by (auto simp: px_spawn_def px_ask_def Let_def split: if_splits)
  qed
  then show ?thesis using assms
    by (auto simp: app_start_ffmpeg_def pm_start_ffmpeg_def launches_def Let_def split: if_splits prod.splits)
qed

lemma camera_attempts_launches:
  assumes "camera_attempts env left attempt app = Some (ok, app')"
  shows "launches left app app'"
  using assms
proof (induction left arbitrary: attempt app)
  case 0
  then show ?case using app_launches(2) by (fastforce simp: bind_eq_Some_conv)
next
  case (Suc left)
  obtain r app1 where 1: "app_start_ffmpeg app = (r, app1)" by fastforce
  note l1 = app_start_ffmpeg_launches [OF 1]
  show ?case
  proof (cases "r = 0")
    case False
    then obtain x where "app_send_stop app1 = Some (x, app')"
      using Suc.prems 1 by (auto simp: bind_eq_Some_conv)
    from launches_trans [OF l1 app_launches(2) [OF this]] show ?thesis by (rule launches_mono) simp
  next
    case True
    obtain r3 app3 where 3: "(if attempt = 1 then app_send_start env (app_usleep 500000 app1)
          else Some (0, app_usleep 500000 app1)) = Some (r3, app3)"
      and rest: "(if r3 \<noteq> 0 then Some (False, app_stop_ffmpeg app3)
          else do {
            let app = app_usleep 3000000 app3;
            let (running, app) = app_ffmpeg_running app;
            if running then Some (True, app\<lparr>streaming_active := True\<rparr>)
            else camera_attempts env left (attempt + 1) app
          }) = Some (ok, app')"
      using Suc.prems 1 True by (auto simp: bind_eq_Some_conv Let_def)
    have "launches 0 (app_usleep 500000 app1) app3"
      using 3 app_launches(1) app_launches(5) [of app3 0] by (auto simp: launches_def split: if_splits)
    from launches_trans [OF launches_trans [OF l1 app_launches(5)] this] have l3: "launches 1 app app3" by simp
    show ?thesis
    proof (cases "r3 = 0")
      case False
      then have "app' = app_stop_ffmpeg app3" using rest by auto
      with launches_trans [OF l3 app_launches(3)] show ?thesis by (auto intro: launches_mono)
    next
      case True
      obtain run app4 where 4: "app_ffmpeg_running (app_usleep 3000000 app3) = (run, app4)" by fastforce
      from launches_trans [OF launches_trans [OF l3 app_launches(5)] app_launches(4) [OF 4]]
      have l4: "launches 1 app app4" by simp
      show ?thesis
      proof (cases run)
        case True
        then have "app' = app4\<lparr>streaming_active := True\<rparr>" using rest \<open>r3 = 0\<close> 4 by auto
        then show ?thesis using l4 by (simp add: launches_def) (metis le_SucI le0 One_nat_def Suc_le_mono le_trans)
      next
        case False
        then have "camera_attempts env left (attempt + 1) app4 = Some (ok, app')"
          using rest \<open>r3 = 0\<close> 4 by simp
        from launches_trans [OF l4 Suc.IH [OF this]] show ?thesis by simp
      qed
    qed
  qed
qed

section \<open>Operations that return\<close>

text \<open>The socket of the Python process moves: a property of the answers of the system, which no operation
  changes.\<close>

definition moves :: "nat \<Rightarrow> AppState \<Rightarrow> bool" where
  "moves m app \<longleftrightarrow> socket_moves m (app_px app)"

lemma moves_cong: "px_answers (app_px app') = px_answers (app_px app) \<Longrightarrow> moves m app' = moves m app"
  by (simp add: moves_def socket_moves_def)

lemma moves_launches: "launches n app app' \<Longrightarrow> moves m app' = moves m app"
  by (rule moves_cong) (simp add: launches_def)

lemma moves_update [simp]:
  "moves m (app\<lparr>streaming_active := b\<rparr>) = moves m app" "moves m (app\<lparr>android_connected := b\<rparr>) = moves m app"
  "moves m (app\<lparr>ws_service_counter := k\<rparr>) = moves m app" "moves m (app\<lparr>app_fw := fw\<rparr>) = moves m app"
  by (simp_all add: moves_def)

lemma sendall_returns: "socket_moves m s \<Longrightarrow> \<exists>x. sendall fd buf s = Some x"
  using sendall_loop_returns [of m s fd buf 0] by (simp add: sendall_def)

lemma app_send_returns:
  assumes "moves m app"
  shows "\<exists>r app'. app_send_start env app = Some (r, app') \<and> moves m app'"
    "\<exists>r app'. app_send_stop app = Some (r, app') \<and> moves m app'"
proof -
  have s: "\<exists>r s. sendall fd buf (app_px app) = Some (r, s)" for fd buf
    using sendall_returns [of m "app_px app" fd buf] assms by (auto simp: moves_def)
  have "\<exists>r app'. app_send_start env app = Some (r, app')"
    using s by (auto simp: app_send_start_def ipc_send_start_def Let_def split: prod.splits)
  then show "\<exists>r app'. app_send_start env app = Some (r, app') \<and> moves m app'"
    using app_launches(1) moves_launches assms by metis
  have "\<exists>r app'. app_send_stop app = Some (r, app')"
    using s [of "client_fd (app_ipc app)" stop_command] by (auto simp: app_send_stop_def ipc_send_stop_def)
  then show "\<exists>r app'. app_send_stop app = Some (r, app') \<and> moves m app'"
    using app_launches(2) moves_launches assms by metis
qed

lemma camera_attempts_returns:
  assumes "moves m app"
  shows "\<exists>ok app'. camera_attempts env left attempt app = Some (ok, app') \<and> moves m app'"
proof -
  have "\<exists>ok app'. camera_attempts env left attempt app = Some (ok, app')"
    using assms
  proof (induction left arbitrary: attempt app)
    case 0
    then show ?case using app_send_returns(2) by fastforce
  next
    case (Suc left)
    obtain r app1 where 1: "app_start_ffmpeg app = (r, app1)" by fastforce
    have m1: "moves m app1" using moves_launches [OF app_start_ffmpeg_launches [OF 1]] Suc.prems by simp
    define app2 where "app2 = app_usleep 500000 app1"
    have m2: "moves m app2" using m1 moves_launches [OF app_launches(5)] by (simp add: app2_def)
    then obtain e app3 where 3: "(if attempt = 1 then app_send_start env app2 else Some (0, app2)) = Some (e, app3)"
      and m3: "moves m app3" using app_send_returns(1) [OF m2, of env] by (cases "attempt = 1") auto
    obtain run app4 where 4: "app_ffmpeg_running (app_usleep 3000000 app3) = (run, app4)" by fastforce
    have "moves m app4" using m3 moves_launches [OF app_launches(5)] moves_launches [OF app_launches(4) [OF 4]] by simp
    then obtain ok app' where 5: "camera_attempts env left (attempt + 1) app4 = Some (ok, app')" using Suc.IH by blast
    obtain x app5 where 6: "app_send_stop app1 = Some (x, app5)" using app_send_returns(2) [OF m1] by blast
    show ?case using 1 3 4 5 6 by (auto simp: app2_def Let_def)
  qed
  then show ?thesis using moves_launches [OF camera_attempts_launches] assms by metis
qed

lemma app_file_moves:
  "moves m (app_unlink app) = moves m app" "app_mkfifo app = (r, app') \<Longrightarrow> moves m app' = moves m app"
  by (auto intro!: moves_cong simp: app_unlink_def app_mkfifo_def px_ask_def Let_def)

lemma start_stream_returns:
  assumes "moves m app"
  shows "\<exists>ok app'. start_camera_stream env app = Some (ok, app') \<and> moves m app'"
    "\<exists>ok app'. start_file_stream env app = Some (ok, app') \<and> moves m app'"
proof -
  obtain running app0 where 0: "app_ffmpeg_running app = (running, app0)" by fastforce
  define app1 where "app1 = (if running then app_stop_ffmpeg app0 else app0)"
  have m1: "moves m app1"
    using assms moves_launches [OF app_launches(4) [OF 0]] moves_launches [OF app_launches(3)] by (simp add: app1_def)
  obtain r app2 where 2: "app_mkfifo (app_unlink app1) = (r, app2)" by fastforce
  have "moves m app2" using m1 app_file_moves(1) app_file_moves(2) [OF 2] by simp
  from camera_attempts_returns [OF this, of env MAX_FFMPEG_TRIES 1] \<open>moves m app2\<close>
  show "\<exists>ok app'. start_camera_stream env app = Some (ok, app') \<and> moves m app'"
    using assms 0 2 by (auto simp: start_camera_stream_def app1_def [symmetric] Let_def)
  obtain e app3 where 3: "app_send_start env app1 = Some (e, app3)" "moves m app3"
    using app_send_returns(1) [OF m1] by blast
  obtain f app4 where 4: "app_start_ffmpeg (app_usleep 100000 app3) = (f, app4)" by fastforce
  have m4: "moves m app4" "moves m (app_usleep 1000000 app4)"
    using 3(2) moves_launches [OF app_launches(5)] moves_launches [OF app_start_ffmpeg_launches [OF 4]] by simp_all
  obtain x app5 where 5: "app_send_stop app4 = Some (x, app5)" "moves m app5"
    using app_send_returns(2) [OF m4(1)] by blast
  show "\<exists>ok app'. start_file_stream env app = Some (ok, app') \<and> moves m app'"
    using assms 0 3 4 5 m4 by (auto simp: start_file_stream_def app1_def [symmetric] Let_def)
qed

section \<open>The contract of callbacks that return\<close>

text \<open>Callbacks that return from every state of \<open>inv\<close>: \<open>disconnect\<close> in such a state again, \<open>connect\<close> in a state
  of \<open>conn_inv\<close>. What the server itself changes, the client, the queue and the library's state without its
  events, does not matter.\<close>

fun connects :: "lws_event list \<Rightarrow> nat" where
  "connects [] = 0"
| "connects (LWS_CALLBACK_ESTABLISHED wsi # es) = Suc (connects es)"
| "connects (e # es) = connects es"

locale ws_returns =
  fixes inv :: "'a WebSocketServer_scheme \<Rightarrow> bool"
    and conn_inv :: "'a WebSocketServer_scheme \<Rightarrow> bool"
    and connect :: "'a WebSocketServer_scheme \<Rightarrow> 'a WebSocketServer_scheme option"
    and disconnect :: "'a WebSocketServer_scheme \<Rightarrow> 'a WebSocketServer_scheme option"
  assumes library: "inv ws \<Longrightarrow> lws_events l = lws_events (ws_lws ws) \<Longrightarrow> lws_rounds l = lws_rounds (ws_lws ws) \<Longrightarrow>
      inv (ws\<lparr>ws_lws := l\<rparr>)"
    and client: "inv ws \<Longrightarrow> inv (ws\<lparr>client_wsi := wsi, client_connected := b\<rparr>)"
    and queued: "inv ws \<Longrightarrow> inv (ws\<lparr>queue_head := h, queue_tail := t, queue_count := c\<rparr>)"
    and connect_returns: "inv ws \<Longrightarrow> \<exists>ws'. connect ws = Some ws' \<and> conn_inv ws'"
    and disconnect_returns: "inv ws \<Longrightarrow> \<exists>ws'. disconnect ws = Some ws' \<and> inv ws'"
    and weaken: "inv ws \<Longrightarrow> conn_inv ws"
begin

lemma disconnected_returns:
  assumes "inv ws"
  shows "\<exists>ws'. (if b then disconnect (ws_clear_queue (ws\<lparr>client_wsi := 0, client_connected := False\<rparr>))
      else Some (ws_clear_queue (ws\<lparr>client_wsi := 0, client_connected := False\<rparr>))) = Some ws' \<and> inv ws'"
proof -
  have "inv (ws_clear_queue (ws\<lparr>client_wsi := 0, client_connected := False\<rparr>))"
    using queued [OF client [OF assms]] by (simp add: ws_clear_queue_def)
  then show ?thesis using disconnect_returns by simp
qed

lemma established_returns:
  assumes "inv ws"
  shows "\<exists>ws'. ws_established connect disconnect wsi ws = Some ws' \<and> conn_inv ws'"
proof -
  obtain ws1 where 1: "(if client_connected ws \<and> client_wsi ws \<noteq> 0 \<and> client_wsi ws \<noteq> wsi
        then do {
          let old_wsi = client_wsi ws;
          let ws = ws_clear_queue (ws\<lparr>client_wsi := 0, client_connected := False\<rparr>);
          ws \<leftarrow> (if ws_on_disconnect ws then disconnect ws else Some ws);
          Some (lws_set_timeout old_wsi ws)
        }
        else Some ws) = Some ws1" and "inv ws1"
  proof (cases "client_connected ws \<and> client_wsi ws \<noteq> 0 \<and> client_wsi ws \<noteq> wsi")
    case True
    obtain ws0 where "(if ws_on_disconnect ws then disconnect (ws_clear_queue (ws\<lparr>client_wsi := 0, client_connected := False\<rparr>))
      else Some (ws_clear_queue (ws\<lparr>client_wsi := 0, client_connected := False\<rparr>))) = Some ws0" "inv ws0"
      using disconnected_returns [OF assms] by blast
    moreover have "inv (lws_set_timeout w ws0)" for w using library [OF calculation(2)] by (simp add: lws_set_timeout_def)
    ultimately show ?thesis using that True by (simp add: Let_def split: if_splits)
  next
    case False
    then show ?thesis using that [of ws] assms by (simp only: if_False)
  qed
  have "inv (ws1\<lparr>client_wsi := wsi, client_connected := True\<rparr>)" using client \<open>inv ws1\<close> .
  from connect_returns [OF this] weaken [OF this] show ?thesis
    using 1 by (simp add: ws_established_def Let_def split del: if_split) (auto split: if_splits)
qed

lemma closed_returns:
  assumes "inv ws"
  shows "\<exists>ws'. ws_closed disconnect wsi ws = Some ws' \<and> inv ws'"
  using disconnected_returns [OF assms, of "ws_on_disconnect ws"] assms by (simp add: ws_closed_def Let_def)

lemma writeable_returns: "inv ws \<Longrightarrow> inv (ws_writeable wsi ws)"
proof (cases "0 < queue_count ws")
  case True
  assume i: "inv ws"
  let ?ws = "ws_writeable wsi ws"
  have eq: "?ws = (ws\<lparr>queue_head := queue_head ws, queue_tail := (queue_tail ws + 1) mod WS_QUEUE_SIZE,
      queue_count := queue_count ws - 1\<rparr>)\<lparr>ws_lws := ws_lws ?ws\<rparr>"
    using ws_writeable_result [OF True, of wsi] by force
  have "inv ((ws\<lparr>queue_head := queue_head ws, queue_tail := (queue_tail ws + 1) mod WS_QUEUE_SIZE,
      queue_count := queue_count ws - 1\<rparr>)\<lparr>ws_lws := ws_lws ?ws\<rparr>)"
    by (rule library [OF queued [OF i]])
      (auto simp: ws_writeable_def lws_write_def lws_callback_on_writable_def lws_ask_def Let_def)
  then show ?thesis by (subst eq)
qed (simp add: ws_writeable_def)

lemma callback_returns:
  "inv ws \<Longrightarrow> \<exists>ws'. ws_callback connect disconnect e ws = Some ws' \<and> conn_inv ws' \<and> (connects [e] = 0 \<longrightarrow> inv ws')"
  using established_returns closed_returns writeable_returns weaken by (cases e) (auto; metis)+

lemma quiet_dispatch_returns:
  "inv ws \<Longrightarrow> connects es = 0 \<Longrightarrow> \<exists>ws'. lws_dispatch (ws_callback connect disconnect) es ws = Some ws' \<and> inv ws'"
proof (induction es arbitrary: ws)
  case (Cons e es)
  have "connects [e] = 0" "connects es = 0" using Cons.prems(2) by (cases e; simp)+
  then show ?case using callback_returns [OF Cons.prems(1), of e] Cons.IH by auto
qed simp

end

lemma quiet_dispatch:
  "connects es = 0 \<Longrightarrow> lws_dispatch (ws_callback connect disconnect) es ws = lws_dispatch (ws_callback connect' disconnect) es ws"
proof (induction es arbitrary: ws)
  case (Cons e es)
  have "connects es = 0" "ws_callback connect disconnect e = ws_callback connect' disconnect e"
    using Cons.prems by (cases e; auto)+
  then show ?case using Cons.IH by (cases "ws_callback connect' disconnect e ws") simp_all
qed simp

section \<open>The callbacks of the server\<close>

text \<open>The events that the library delivers stay \<open>E\<close>; in \<open>going\<close> the next round is number \<open>k\<close>.\<close>

definition live :: "nat \<Rightarrow> (nat \<Rightarrow> lws_event list) \<Rightarrow> AppState \<Rightarrow> bool" where
  "live m E app \<longleftrightarrow> moves m app \<and> lws_events (ws_lws app) = E"

definition going :: "nat \<Rightarrow> (nat \<Rightarrow> lws_event list) \<Rightarrow> nat \<Rightarrow> AppState \<Rightarrow> bool" where
  "going m E k app \<longleftrightarrow> live m E app \<and> lws_rounds (ws_lws app) = k"

lemma start_stream_lws:
  assumes "start_camera_stream env app = Some (ok, app') \<or> start_file_stream env app = Some (ok, app')"
  shows "ws_lws app' = ws_lws app"
proof (cases "streaming_active app")
  case True
  then show ?thesis using assms by (auto simp: start_camera_stream_def start_file_stream_def)
next
  case False
  then show ?thesis using start_stream_step [OF assms] rest_of_fields(9) [of app' app]
    by (simp add: stream_ready_def stream_step_def)
qed

lemma on_android_connect_returns:
  assumes "\<And>x. going m E k x \<Longrightarrow> \<exists>r x'. service x = Some (r, x') \<and> live m E x'" and "going m E k app"
  shows "\<exists>app'. on_android_connect env service app = Some app' \<and> live m E app'"
proof -
  define app1 where "app1 = app\<lparr>android_connected := True\<rparr>"
  have 1: "going m E k app1" using assms(2) by (simp add: app1_def going_def live_def)
  then have "moves m app1" by (simp add: going_def live_def)
  from start_stream_returns [OF this, of env] obtain ok app2
    where 2: "(if app_is_fifo app1 then start_camera_stream env app1 else start_file_stream env app1) = Some (ok, app2)"
      and m2: "moves m app2" by (cases "app_is_fifo app1") auto
  have "ws_lws app2 = ws_lws app1" using start_stream_lws [of env app1 ok app2] 2 by (auto split: if_splits)
  then have g2: "going m E k app2" using 1 m2 by (simp add: going_def live_def)
  define app3 where "app3 = snd (ws_send (ready_message (app_config app2)) app2)"
  have "going m E k app3" using g2
    by (auto simp: app3_def ws_send_def going_def live_def moves_def ws_queue_message_def
      lws_callback_on_writable_def Let_def)
  then obtain r app4 where "service app3 = Some (r, app4)" "live m E app4" using assms(1) by blast
  then have "\<exists>app'. send_stream_ready service app2 = Some app' \<and> live m E app'"
    by (cases "ws_send (ready_message (app_config app2)) app2") (simp add: send_stream_ready_def app3_def)
  moreover have "live m E app1" "live m E app2" using 1 g2 by (simp_all add: going_def)
  moreover have "on_android_connect env service app = (if \<not> python_connected app1 then Some app1
      else do {
        (ok, app) \<leftarrow> (if app_is_fifo app1 then start_camera_stream env app1 else start_file_stream env app1);
        if ok then send_stream_ready service app else Some app
      })"
    by (simp only: on_android_connect_def app1_def Let_def)
  ultimately show ?thesis using 2 by auto
qed

lemma on_android_disconnect_returns:
  assumes "moves m app"
  shows "\<exists>app'. on_android_disconnect app = Some app' \<and> moves m app' \<and> ws_lws app' = ws_lws app"
proof -
  define app1 where "app1 = app\<lparr>android_connected := False\<rparr>"
  have m1: "moves m app1" "ws_lws app1 = ws_lws app" using assms by (simp_all add: app1_def)
  obtain x app2 where 2: "(if python_connected app1 then app_send_stop app1 else Some (0, app1)) = Some (x, app2)"
      and m2: "moves m app2" using app_send_returns(2) [OF m1(1)] m1 by (cases "python_connected app1") auto
  have "ws_lws app2 = ws_lws app1" using 2 app_send_effect(2) [of app1 x app2] by (auto split: if_splits)
  moreover have "moves m (app_stop_ffmpeg app2)" "ws_lws (app_stop_ffmpeg app2) = ws_lws app2"
    using m2 moves_launches [OF app_launches(3)] by (simp_all add: app_stop_ffmpeg_def split: prod.splits)
  ultimately show ?thesis using m1 2
    by (auto simp: on_android_disconnect_def app1_def [symmetric] Let_def)
qed

lemma service_callbacks_return:
  assumes "\<And>x. going m E k x \<Longrightarrow> \<exists>r x'. service x = Some (r, x') \<and> live m E x'"
  shows "ws_returns (going m E k) (live m E) (on_android_connect env service) on_android_disconnect"
proof (unfold_locales, goal_cases)
  case (4 ws)
  show ?case by (rule on_android_connect_returns [OF assms 4])
next
  case (5 ws)
  then show ?case using on_android_disconnect_returns [of m ws] by (fastforce simp: going_def live_def)
qed (auto simp: going_def live_def moves_def)

interpretation quiet: ws_returns "live m E" "live m E" Some on_android_disconnect for m E
proof (unfold_locales, goal_cases)
  case (5 ws)
  then show ?case using on_android_disconnect_returns [of m ws] by (fastforce simp: live_def)
qed (auto simp: live_def moves_def)

lemma dispatch_returns:
  assumes "ws_returns (going m E k) (live m E) connect on_android_disconnect"
  shows "going m E k app \<Longrightarrow> connects es \<le> 1 \<Longrightarrow>
    \<exists>app'. lws_dispatch (ws_callback connect on_android_disconnect) es app = Some app' \<and> live m E app'"
proof (induction es arbitrary: app)
  case Nil
  then show ?case by (simp add: going_def)
next
  case (Cons e es)
  obtain app1 where 1: "ws_callback connect on_android_disconnect e app = Some app1" "live m E app1"
    "connects [e] = 0 \<longrightarrow> going m E k app1"
    using ws_returns.callback_returns [OF assms Cons.prems(1)] by blast
  show ?case
  proof (cases "connects [e] = 0")
    case True
    then have "connects es \<le> 1" using Cons.prems(2) by (cases e) auto
    then show ?thesis using Cons.IH 1 True by simp
  next
    case False
    then have c: "connects es = 0" using Cons.prems(2) by (cases e) auto
    from quiet.quiet_dispatch_returns [OF 1(2) c] show ?thesis
      using 1(1) quiet_dispatch [OF c, of connect on_android_disconnect app1 Some] by simp
  qed
qed

text \<open>Among any \<open>n\<close> rounds in a row there is one in which no application connects, and in none there are two.\<close>

definition calm :: "nat \<Rightarrow> (nat \<Rightarrow> lws_event list) \<Rightarrow> bool" where
  "calm n E \<longleftrightarrow> (\<forall>k. connects (E k) \<le> 1 \<and> (\<exists>i<n. connects (E (k + i)) = 0))"

lemma stream_service_returns:
  assumes "\<And>k. connects (E k) \<le> 1"
  shows "going m E k app \<Longrightarrow> \<exists>i<n. connects (E (k + i)) = 0 \<Longrightarrow>
    \<exists>r app'. stream_service env n app = Some (r, app') \<and> live m E app'"
proof (induction n arbitrary: k app)
  case (Suc n)
  define app1 where "app1 = app\<lparr>ws_lws := (ws_lws app)\<lparr>lws_rounds := Suc k\<rparr>\<rparr>"
  have k: "lws_rounds (ws_lws app) = k" "lws_events (ws_lws app) = E" using Suc.prems(1) by (simp_all add: going_def live_def)
  have g1: "going m E (Suc k) app1" using Suc.prems(1) by (simp add: app1_def going_def live_def moves_def)
  have "\<exists>app2. lws_dispatch (ws_callback (on_android_connect env (stream_service env n)) on_android_disconnect) (E k) app1
      = Some app2 \<and> live m E app2"
  proof (cases "connects (E k) = 0")
    case True
    have "live m E app1" using g1 by (simp add: going_def)
    from quiet.quiet_dispatch_returns [OF this True] show ?thesis using quiet_dispatch [OF True] by metis
  next
    case False
    obtain i where i: "i < Suc n" "connects (E (k + i)) = 0" using Suc.prems(2) by blast
    then obtain j where "i = Suc j" using False by (cases i) auto
    then have "\<exists>i<n. connects (E (Suc k + i)) = 0" using i by auto
    then have "\<exists>r x'. stream_service env n x = Some (r, x') \<and> live m E x'" if "going m E (Suc k) x" for x
      using Suc.IH that by blast
    from dispatch_returns [OF service_callbacks_return [OF this] g1 assms] show ?thesis .
  qed
  then obtain app2 where 2: "lws_dispatch (ws_callback (on_android_connect env (stream_service env n)) on_android_disconnect) (E k) app1
      = Some app2" "live m E app2" by blast
  have "live m E (app2\<lparr>ws_lws := snd (lws_ask (ws_lws app2))\<rparr>)"
    using 2(2) by (simp add: live_def moves_def lws_ask_def)
  moreover have "live m E app" using Suc.prems(1) by (simp add: going_def)
  ultimately show ?case using 2(1) k
    by (auto simp: ws_service_def app1_def Let_def lws_ask_def)
qed simp

lemma calm_service_returns:
  assumes "calm n E" and "live m E app"
  shows "\<exists>r app'. stream_service env n app = Some (r, app') \<and> live m E app'"
  using stream_service_returns [of E m "lws_rounds (ws_lws app)" app n env] assms by (auto simp: calm_def going_def)

section \<open>The loop returns\<close>

lemma live_update [simp]:
  "live m E (app\<lparr>ws_service_counter := k\<rparr>) = live m E app" "live m E (app\<lparr>total_processed := k\<rparr>) = live m E app"
  "live m E (app\<lparr>app_fw := fw\<rparr>) = live m E app" "live m E (app\<lparr>python_connected := b\<rparr>) = live m E app"
  "live m E (app\<lparr>streaming_active := b\<rparr>) = live m E app" "live m E (app\<lparr>app_bridge := br, app_fw := fw\<rparr>) = live m E app"
  "live m E (app\<lparr>app_bridge := br\<rparr>) = live m E app"
  by (simp_all add: live_def moves_def)

lemma live_message: "live m E app \<Longrightarrow> live m E (snd (ws_queue_message x app))"
  by (auto simp: live_def moves_def ws_queue_message_def lws_callback_on_writable_def Let_def)

lemma live_launches: "launches n app app' \<Longrightarrow> ws_lws app' = ws_lws app \<Longrightarrow> live m E app' = live m E app"
  by (simp add: live_def moves_launches)

lemma ipc_recv_message_answers:
  assumes "ipc_recv_message b conn s = (r, msg, conn', s')"
  shows "px_answers s' = px_answers s"
proof -
  have "px_answers (snd (snd (recv_more conn s))) = px_answers s"
    by (auto simp: recv_more_def px_recv_def px_close_def split: received.splits)
  moreover have "px_answers (snd (snd (snd (take_message b conn1 s1)))) = px_answers s1" for conn1 s1
    by (auto simp: take_message_def Let_def split: option.splits prod.splits)
  ultimately show ?thesis using assms
    by (auto simp: ipc_recv_message_def split: if_splits prod.splits bool.splits) (metis snd_conv)+
qed

lemma read_batch_live: "live m E app \<Longrightarrow> live m E (snd (snd (read_batch k l c app)))"
proof (induction k arbitrary: l c app)
  case (Suc k)
  obtain r msg conn s where r: "ipc_recv_message MAX_MSG_SIZE (app_ipc app) (app_px app) = (r, msg, conn, s)"
    by (metis prod_cases4)
  define app1 where "app1 = app\<lparr>app_ipc := conn, app_px := s\<rparr>"
  have 1: "live m E app1"
    using Suc.prems ipc_recv_message_answers [OF r] by (simp add: app1_def live_def moves_def socket_moves_def)
  moreover have "live m E (forward_detection (the msg) app1)"
    using 1 live_message by (simp add: forward_detection_def ws_send_json_def)
  ultimately show ?case using Suc.IH r by (simp add: app_recv_message_def app1_def)
qed simp

lemma serve_python_returns:
  assumes "calm n E" and "live m E app"
  shows "\<exists>w app'. serve_python env n app = Some (w, app') \<and> live m E app'"
proof (cases "python_connected app \<and> ipc_check_client_connected (app_ipc app)")
  case True
  obtain len count app1 where 1: "read_batch 10 0 0 app = (len, count, app1)" by (metis prod_cases3)
  define app2 where "app2 = app1\<lparr>total_processed := total_processed app1 + count\<rparr>"
  have "live m E app2" using read_batch_live [OF assms(2), of 10 0 0] 1 by (simp add: app2_def)
  then obtain app3 where 3: "(if 0 < count then map_option snd (stream_service env n app2) else Some app2) = Some app3"
      and l3: "live m E app3"
    using calm_service_returns [OF assms(1), of m app2 env] by (cases "0 < count") auto
  have "live m E (app_stop_ffmpeg app4)" if "live m E app4" for app4
    using that live_launches [OF app_launches(3)] by (simp add: app_stop_ffmpeg_def split: prod.splits)
  moreover define app4 where "app4 = (if len < 0
      then let app = app3\<lparr>python_connected := False\<rparr>
           in if streaming_active app then (app_stop_ffmpeg app)\<lparr>streaming_active := False\<rparr> else app
      else app3)"
  ultimately have "live m E app4" using l3 by (simp add: Let_def)
  moreover have "serve_python env n app = Some (0 < count, app4)"
    using True 1 3 by (simp add: serve_python_def app2_def [symmetric] app4_def del: if_split)
  ultimately show ?thesis by blast
qed (use assms in \<open>auto simp: serve_python_def\<close>)

lemma check_playback_returns:
  assumes "live m E app"
  shows "\<exists>app'. check_playback app = Some app' \<and> live m E app'"
proof -
  obtain pm s where c: "pm_check_processes (app_pm app) (app_px app) = (pm, s)" by fastforce
  define app1 where "app1 = app\<lparr>app_pm := pm, app_px := s\<rparr>"
  have 1: "live m E app1" using assms pm_spawned(2) [of "app_px app" "app_pm app"] c
    by (simp add: app1_def live_def moves_def same_spawned_def socket_moves_def)
  obtain running app2 where 2: "app_ffmpeg_running app1 = (running, app2)" by fastforce
  have "ws_lws app2 = ws_lws app1" using 2 by (auto simp: app_ffmpeg_running_def split: prod.splits)
  then have l2: "live m E app2" using 1 live_launches [OF app_launches(4) [OF 2]] by simp
  then obtain x app3 where 3: "(if python_connected app2 then app_send_stop app2 else Some (0, app2)) = Some (x, app3)"
      and "moves m app3" using app_send_returns(2) [of m app2] by (cases "python_connected app2") (auto simp: live_def)
  moreover have "ws_lws app3 = ws_lws app2" using 3 app_send_effect(2) [of app2 x app3] by (auto split: if_splits)
  ultimately have "live m E app3" using l2 by (simp add: live_def)
  then show ?thesis using assms c 2 3 l2 by (auto simp: check_playback_def app1_def [symmetric] Let_def)
qed

lemma main_round_returns:
  assumes "calm n E" and "live m E app"
  shows "\<exists>app'. main_round env n app = Some app' \<and> live m E app'"
proof -
  obtain w app1 where 1: "serve_python env n app = Some (w, app1)" "live m E app1"
    using serve_python_returns [OF assms] by blast
  have "\<exists>app2. serve_android env n app1 = Some app2 \<and> live m E app2"
    using calm_service_returns [OF assms(1), of m "app1\<lparr>ws_service_counter := ws_service_counter app1 + 1\<rparr>" env] 1(2)
    by (auto simp: serve_android_def Let_def)
  then obtain app2 where 2: "serve_android env n app1 = Some app2" "live m E app2" by blast
  obtain b app3 x where t: "ddl_bridge_tick (neg_json env) (app_bridge app2) app2 (fw_app (app_fw app2)) = (b, app3, x)"
    by (metis prod_cases3)
  have "live m E app3" using bridge_tick_server [OF t] 2(2) live_message by auto
  then have 3: "live m E (serve_sensors env app2)" using t by (simp add: serve_sensors_def)
  define app4 where "app4 = (if w then serve_sensors env app2 else app_usleep 100 (serve_sensors env app2))"
  have "live m E app4" using 3 live_launches [OF app_launches(5)] by (simp add: app4_def app_usleep_def)
  from check_playback_returns [OF this] show ?thesis
    using 1 2 by (auto simp: main_round_def app4_def Let_def)
qed

lemma main_loop_returns:
  "calm n E \<Longrightarrow> live m E app \<Longrightarrow> \<exists>app'. main_loop env n fs app = Some app' \<and> live m E app'"
proof (induction fs arbitrary: app)
  case (Cons f fs)
  have "live m E (app\<lparr>app_fw := fw\<rparr>)" for fw using Cons.prems(2) by simp
  then show ?case using main_round_returns [OF Cons.prems(1)] Cons.IH [OF Cons.prems(1)]
    by (fastforce simp: bind_eq_Some_conv)
qed simp

end
