(* ===== verification/StreamProps.thy ===== *)
theory StreamProps
  imports StreamLive
begin

text \<open>
  The properties of the streaming server: its invariant from the start on, the forwarding of detections, the
  life without the Python process, the termination of its rounds, and the attempts to start the camera.
\<close>

section \<open>The latest messages\<close>

definition latest :: "nat \<Rightarrow> 'a list \<Rightarrow> 'a list" where
  "latest n xs = drop (length xs - n) xs"

lemma latest_short: "length xs \<le> n \<Longrightarrow> latest n xs = xs"
  by (simp add: latest_def)

lemma latest_length: "length (latest n xs) = min n (length xs)"
  by (simp add: latest_def)

lemma latest_append: "latest n (latest n xs @ ys) = latest n (xs @ ys)"
proof (cases "length xs \<le> n")
  case False
  then have "length xs - n + (length (latest n xs @ ys) - n) = length (xs @ ys) - n"
    by (simp add: latest_length)
  moreover have "latest n xs @ ys = drop (length xs - n) (xs @ ys)" using False by (simp add: latest_def)
  ultimately show ?thesis by (simp add: latest_def add.commute)
qed (simp add: latest_short)

lemma ws_put_latest:
  assumes "ws_serving wsi pre ws" and "length x < WS_MAX_MSG_SIZE"
  shows "ws_messages (ws_put x ws) = latest WS_QUEUE_SIZE (ws_messages ws @ [x])"
proof -
  have "length (ws_messages ws) \<le> WS_QUEUE_SIZE" using wsq.bounded [OF assms(1)] .
  moreover have "ws_messages (ws_put x ws)
      = (if length (ws_messages ws) = WS_QUEUE_SIZE then tl (ws_messages ws) else ws_messages ws) @ [x]"
    using wsq.put_law [OF assms] by simp
  moreover have "tl (ws_messages ws) = drop 1 (ws_messages ws)" by (simp add: drop_Suc)
  moreover have "0 < WS_QUEUE_SIZE" by (simp add: WS_QUEUE_SIZE_def)
  ultimately show ?thesis by (auto simp: latest_def)
qed

section \<open>Forwarding\<close>

text \<open>The result of a call of the receiver and the message it stores.\<close>

lemma take_message_result:
  assumes "take_message b conn s = (r, m, conn', s')"
  shows "case m of None \<Rightarrow> r = 0 | Some l \<Rightarrow> r = int (length l)"
proof (cases "strchr (c_str (recv_buffer conn)) newline")
  case None
  then show ?thesis using assms by (auto simp: take_message_def)
next
  case (Some rest)
  define nl where "nl = length (c_str (recv_buffer conn)) - length rest"
  have "length (c_str buf) \<le> length buf" for buf by (simp add: c_str_def length_takeWhile_le)
  then have "nl \<le> length (recv_buffer conn)" using diff_le_self le_trans unfolding nl_def by blast
  then show ?thesis using assms Some
    by (auto simp: take_message_def nl_def [symmetric] Let_def split: prod.splits)
qed

lemma ipc_recv_message_result:
  assumes "ipc_recv_message b conn s = (r, m, conn', s')"
  shows "case m of None \<Rightarrow> r \<le> 0 | Some l \<Rightarrow> r = int (length l)"
proof (cases "client_fd conn = - 1")
  case False
  obtain ok c1 s1 where 1: "recv_more conn s = (ok, c1, s1)" by (metis prod_cases3)
  then show ?thesis using False assms take_message_result [of b c1 s1 r m conn' s']
    by (auto simp: ipc_recv_message_def split: bool.splits option.splits)
qed (use assms in \<open>auto simp: ipc_recv_message_def\<close>)

text \<open>What a batch of at most \<open>k\<close> messages takes from the socket: the messages, up to the first call without
  one, the text that arrives in its calls, and the connection after it.\<close>

fun batch_lines :: "nat \<Rightarrow> IPCConnection \<Rightarrow> posix \<Rightarrow> string list \<times> string \<times> IPCConnection \<times> posix" where
  "batch_lines 0 conn s = ([], [], conn, s)"
| "batch_lines (Suc k) conn s =
    (let arrived = incoming conn s; (r, m, conn, s) = ipc_recv_message MAX_MSG_SIZE conn s
     in if r \<le> 0 then ([], arrived, conn, s)
        else let (ms, more, conn, s) = batch_lines k conn s in (the m # ms, arrived @ more, conn, s))"

text \<open>The messages are the lines of the text, up to the first empty one.\<close>

lemma batch_lines_split:
  assumes "conn_wf conn" and "batch_lines k conn s = (ms, arrived, conn', s')"
    and "NUL \<notin> set (unread conn @ arrived)"
    and "\<forall>l\<in>set (fst (split_lines (unread conn @ arrived))). length l < MAX_MSG_SIZE"
  shows "\<exists>e. (e = [] \<or> e = [[]]) \<and> length ms \<le> k \<and> (\<forall>l\<in>set ms. l \<noteq> [] \<and> length l < MAX_MSG_SIZE) \<and>
    split_lines (unread conn @ arrived)
      = (ms @ e @ fst (split_lines (unread conn')), snd (split_lines (unread conn')))"
  using assms
proof (induction k arbitrary: conn s ms arrived)
  case (Suc k)
  obtain r m c1 s1 where step: "ipc_recv_message MAX_MSG_SIZE conn s = (r, m, c1, s1)" by (metis prod_cases4)
  obtain more where arrived: "arrived = incoming conn s @ more"
    using Suc.prems(2) step by (auto simp: Let_def split: if_splits prod.splits)
  have "\<forall>l\<in>set (fst (split_lines (unread conn @ incoming conn s))). length l < MAX_MSG_SIZE"
    using Suc.prems(4) split_lines_prefix [of "unread conn @ incoming conn s" more] arrived by auto
  note c = ipc_recv_message_step [OF Suc.prems(1) step _ this]
    and res = ipc_recv_message_result [OF step]
  show ?case
  proof (cases "r \<le> 0")
    case True
    then have a: "ms = []" "arrived = incoming conn s" "conn' = c1" using Suc.prems(2) step by auto
    show ?thesis
    proof (cases m)
      case None
      then show ?thesis using c a Suc.prems(3) by (intro exI [of _ "[]"]) simp
    next
      case (Some l)
      then have "l = []" using res True by simp
      then show ?thesis using c a Suc.prems(3) Some split_lines_line [of "[]" "unread c1"]
        by (intro exI [of _ "[[]]"]) simp
    qed
  next
    case False
    then obtain l where l: "m = Some l" "r = int (length l)" using res by (cases m) auto
    obtain ms1 more1 where run: "batch_lines k c1 s1 = (ms1, more1, conn', s')"
      and a: "ms = l # ms1" "arrived = incoming conn s @ more1"
      using Suc.prems(2) step False l by (auto simp: Let_def split: prod.splits)
    have nul: "NUL \<notin> set (unread conn @ incoming conn s)" using Suc.prems(3) a(2) by auto
    have u: "unread conn @ arrived = l @ newline # unread c1 @ more1" "newline \<notin> set l" and w: "conn_wf c1"
      using c [OF nul] a(2) l by auto
    have sp: "split_lines (unread conn @ arrived)
        = (l # fst (split_lines (unread c1 @ more1)), snd (split_lines (unread c1 @ more1)))"
      unfolding u(1) by (rule split_lines_line [OF u(2)])
    have "NUL \<notin> set (unread c1 @ more1)" using Suc.prems(3) u(1) by auto
    moreover have lines: "\<forall>l\<in>set (fst (split_lines (unread c1 @ more1))). length l < MAX_MSG_SIZE"
      using Suc.prems(4) sp by simp
    ultimately obtain e where e: "e = [] \<or> e = [[]]" "length ms1 \<le> k"
      "\<forall>l\<in>set ms1. l \<noteq> [] \<and> length l < MAX_MSG_SIZE"
      "split_lines (unread c1 @ more1) = (ms1 @ e @ fst (split_lines (unread conn')), snd (split_lines (unread conn')))"
      using Suc.IH [OF w run] by blast
    have "length l < MAX_MSG_SIZE" using Suc.prems(4) sp by simp
    moreover have "l \<noteq> []" using False l(2) by auto
    ultimately show ?thesis using e sp a by (intro exI [of _ e]) simp
  qed
qed auto

lemma ws_put_serving:
  "ws_serving wsi pre ws \<Longrightarrow> length x < WS_MAX_MSG_SIZE \<Longrightarrow> ws_serving wsi pre (ws_put x ws)"
  using wsq.put_law by blast

lemma read_batch_forwards:
  fixes app app' :: AppState
  assumes "ws_serving wsi pre app" and "android_connected app"
    and "read_batch k l c app = (len, count, app')" and "batch_lines k (app_ipc app) (app_px app) = (ms, arrived, conn', s')"
    and "\<forall>x\<in>set ms. length x < MAX_MSG_SIZE"
  shows "ws_serving wsi pre app' \<and> ws_messages app' = latest WS_QUEUE_SIZE (ws_messages app @ ms) \<and>
    app_ipc app' = conn' \<and> app_px app' = s' \<and> count = c + length ms"
  using assms
proof (induction k arbitrary: l c app ms arrived)
  case 0
  have "length (ws_messages app) \<le> WS_QUEUE_SIZE" using wsq.bounded [OF "0.prems"(1)] .
  then show ?case using "0.prems" by (simp add: latest_short)
next
  case (Suc k)
  obtain r m c1 s1 where step: "ipc_recv_message MAX_MSG_SIZE (app_ipc app) (app_px app) = (r, m, c1, s1)"
    by (metis prod_cases4)
  define app1 where "app1 = app\<lparr>app_ipc := c1, app_px := s1\<rparr>"
  have m1: "ws_messages app1 = ws_messages app" by (simp add: app1_def ws_messages_def)
  have v1: "ws_serving wsi pre app1" using Suc.prems(1) by (simp add: app1_def ws_serving_def ws_queue_wf_def)
  show ?case
  proof (cases "r \<le> 0")
    case True
    have "length (ws_messages app) \<le> WS_QUEUE_SIZE" using wsq.bounded [OF Suc.prems(1)] .
    moreover have "ms = []" "conn' = c1" "s' = s1" using Suc.prems(4) step True by auto
    moreover have "app' = app1" "count = c"
      using Suc.prems(3) step True by (auto simp: app_recv_message_def app1_def)
    ultimately show ?thesis using v1 m1 by (simp add: latest_short) (simp add: app1_def)
  next
    case False
    obtain ms1 more where run: "batch_lines k c1 s1 = (ms1, more, conn', s')" and ms: "ms = the m # ms1"
      using Suc.prems(4) step False by (auto simp: Let_def split: prod.splits)
    define app2 where "app2 = ws_put (the m) app1"
    have 2: "forward_detection (the m) app1 = app2" "android_connected app2" "app_ipc app2 = c1" "app_px app2 = s1"
      using Suc.prems(2) by (simp_all add: forward_detection_def ws_send_json_def app1_def app2_def ws_put_def)
    have "length (the m) < WS_MAX_MSG_SIZE" using Suc.prems(5) ms by (simp add: MAX_MSG_SIZE_def WS_MAX_MSG_SIZE_def)
    then have v2: "ws_serving wsi pre app2" and m2: "ws_messages app2 = latest WS_QUEUE_SIZE (ws_messages app1 @ [the m])"
      using ws_put_serving [OF v1] ws_put_latest [OF v1] by (simp_all add: app2_def)
    have "read_batch k r (c + 1) app2 = (len, count, app')"
      using Suc.prems(3) step False 2(1) by (simp add: app_recv_message_def app1_def)
    from Suc.IH [OF v2 2(2) this] run 2(3,4) Suc.prems(5) ms
    have "ws_serving wsi pre app' \<and> ws_messages app' = latest WS_QUEUE_SIZE (ws_messages app2 @ ms1) \<and>
      app_ipc app' = conn' \<and> app_px app' = s' \<and> count = c + 1 + length ms1" by simp
    then show ?thesis using m1 m2 ms by (simp add: latest_append)
  qed
qed

section \<open>Without the Python process\<close>

text \<open>Nothing happens between the callbacks but the bookkeeping of the WebSocket.\<close>

definition idle :: "IPCConnection \<Rightarrow> posix \<Rightarrow> nat \<Rightarrow> AppState \<Rightarrow> bool" where
  "idle conn s k app \<longleftrightarrow> service_inv False conn app \<and> app_px app = s \<and> total_processed app = k"

lemma idle_inactive: "idle conn s k app \<Longrightarrow> \<not> streaming_active app"
  by (auto simp: idle_def service_inv_def stream_ok_def stream_ready_def)

interpretation idle_user: ws_user "idle conn s k" "on_android_connect env service" on_android_disconnect
  for conn s k env service
proof (unfold_locales, goal_cases)
  case (1 ws)
  then show ?case by (simp add: idle_def service_inv_def stream_ok_def)
next
  case (2 ws l)
  then show ?case using stream_user.library by (simp add: idle_def)
next
  case (3 ws)
  then show ?case using stream_user.taken by (simp add: idle_def)
next
  case (4 ws wsi ws')
  have "ws' = ws\<lparr>client_wsi := wsi, client_connected := True, android_connected := True\<rparr>"
    using 4(1,3) by (simp add: idle_def service_inv_def on_android_connect_def)
  moreover have "on_android_connect env (stream_service env 0) (ws\<lparr>client_wsi := wsi, client_connected := True\<rparr>) = Some ws'"
    using 4(1) calculation by (simp add: idle_def service_inv_def on_android_connect_def)
  then have "service_inv False conn ws'"
    using 4(1,2) stream_user.connected [of False conn ws wsi env 0 ws'] by (simp add: idle_def)
  ultimately show ?case using 4(1) by (simp add: idle_def)
next
  case (5 ws ws')
  have "\<not> streaming_active (ws_clear_queue (ws\<lparr>client_wsi := 0, client_connected := False\<rparr>))"
    using idle_inactive [OF 5(1)] by (simp add: ws_clear_queue_def)
  then have "ws' = (ws_clear_queue (ws\<lparr>client_wsi := 0, client_connected := False\<rparr>))\<lparr>android_connected := False\<rparr>"
    using 5(2) by (simp add: on_android_disconnect_def)
  then show ?case using stream_user.disconnected [of False conn ws ws'] 5 by (simp add: idle_def ws_clear_queue_def)
qed

lemma idle_service:
  assumes "idle conn s k app" and "stream_service env n app = Some (r, app')"
  shows "idle conn s k app'"
proof (cases n)
  case (Suc m)
  then show ?thesis using idle_user.service [of conn s k app env "stream_service env m" r app'] assms by simp
qed (use assms in simp)

lemma idle_sensors:
  assumes "idle conn s k app"
  shows "idle conn s k (serve_sensors env app)"
proof -
  obtain b app1 w where t: "ddl_bridge_tick (neg_json env) (app_bridge app) app (fw_app (app_fw app)) = (b, app1, w)"
    by (metis prod_cases3)
  have "app_px app1 = app_px app" "total_processed app1 = total_processed app"
    using bridge_tick_server [OF t]
    by (auto simp: ws_queue_message_def lws_callback_on_writable_def Let_def)
  moreover have "service_inv False conn app1"
    using bridge_tick_server [OF t] assms stream_ok_message by (auto simp: idle_def service_inv_def)
  ultimately show ?thesis using assms t by (simp add: idle_def serve_sensors_def service_inv_def)
qed

lemma idle_round:
  assumes "idle conn s k app" and "main_round env n app = Some app'"
  shows "idle conn (px_usleep 100 s) k app'"
proof -
  have off: "\<not> python_connected app" using assms(1) by (simp add: idle_def service_inv_def)
  obtain app2 where 2: "serve_android env n app = Some app2"
    and 3: "check_playback (app_usleep 100 (serve_sensors env app2)) = Some app'"
    using assms(2) off by (auto simp: main_round_def serve_python_def bind_eq_Some_conv Let_def)
  have upd: "idle conn s k (x\<lparr>ws_service_counter := j\<rparr>) = idle conn s k x" for x j
    by (simp add: idle_def service_inv_def)
  have "idle conn s k app2"
  proof (cases "10 \<le> ws_service_counter app + 1")
    case True
    then obtain r app1 where "stream_service env n (app\<lparr>ws_service_counter := ws_service_counter app + 1\<rparr>) = Some (r, app1)"
      and "app2 = app1\<lparr>ws_service_counter := 0\<rparr>"
      using 2 by (auto simp: serve_android_def)
    then show ?thesis using idle_service upd assms(1) by metis
  next
    case False
    then show ?thesis using 2 upd assms(1) by (auto simp: serve_android_def)
  qed
  from idle_sensors [OF this] have 4: "idle conn (px_usleep 100 s) k (app_usleep 100 (serve_sensors env app2))"
    by (auto simp: idle_def service_inv_def app_usleep_def)
  then show ?thesis using 3 idle_inactive [OF 4] by (simp add: check_playback_def)
qed

lemma idle_loop:
  "idle conn s k app \<Longrightarrow> main_loop env n fs app = Some app' \<Longrightarrow>
    idle conn (s\<lparr>px_slept := px_slept s + 100 * length fs\<rparr>) k app'"
proof (induction fs arbitrary: app s)
  case (Cons f fs)
  obtain app1 where 1: "main_round env n (app\<lparr>app_fw := (app_fw app)\<lparr>fw_app := f (fw_app (app_fw app))\<rparr>\<rparr>) = Some app1"
    and 2: "main_loop env n fs app1 = Some app'" using Cons.prems(2) by (auto simp: bind_eq_Some_conv)
  have "idle conn s k (app\<lparr>app_fw := fw\<rparr>)" for fw using Cons.prems(1) by (simp add: idle_def service_inv_def)
  from Cons.IH [OF idle_round [OF this 1] 2] show ?case by (simp add: px_usleep_def algebra_simps)
qed simp

section \<open>Properties\<close>

text \<open>A server whose Android application is connected, with the system \<open>s\<close>, the Python process connected or not.\<close>

definition demo_stream :: "bool \<Rightarrow> IPCConnection \<Rightarrow> posix \<Rightarrow> AppState" where
  "demo_stream p conn s = \<lparr>ws_lws = demo_lws, ws_context = True, client_wsi = 7, ws_port = 8555, ws_running = True,
     client_connected = True, ws_on_connect = True, ws_on_disconnect = True,
     ws_queue = Some (replicate WS_QUEUE_SIZE \<lparr>msg_data = replicate WS_MAX_MSG_SIZE NUL, msg_len = 0\<rparr>),
     queue_head = 0, queue_tail = 0, queue_count = 0, queue_dropped = 0,
     app_config = config_init_defaults, app_ipc = conn, app_pm = pm_init, app_bridge = None,
     python_connected = p, android_connected = True, streaming_active = False, ws_service_counter = 0,
     total_processed = 0, app_px = s, app_files = no_files, app_fw = board_firmware\<rparr>"

definition demo_env :: env where
  "demo_env = \<lparr>neg_start = False, neg_json = (\<lambda>_. False), env_threads = Some\<rparr>"

lemma demo_stream_ok: "stream_ok (demo_stream p conn s)"
  by (simp add: demo_stream_def stream_ok_def stream_ready_def ws_queue_wf_def pm_wf_def pm_init_def
    WS_QUEUE_SIZE_def WS_MAX_MSG_SIZE_def)

text \<open>C6. Whatever happens, from the start of the server on and between any two rounds of its loop: an application is
  recorded as connected exactly when the WebSocket has a client, a stream is recorded as active only
  while the Python process is connected and FFmpeg is recorded as running, the Python process is
  recorded as connected exactly when its socket is open, the receive buffer and the message queue are
  intact, and a child process is recorded as running exactly when its number is known.\<close>

lemma stream_invariant:
  assumes "boot_servers app = (0, app1)" and "\<not> android_connected app" and "\<not> streaming_active app"
    and "boot_peers env app1 = Some (0, app2)" and "main_loop env n fs app2 = Some app'"
  shows "(client_connected app' \<longleftrightarrow> android_connected app') \<and> (client_connected app' \<longleftrightarrow> client_wsi app' \<noteq> 0) \<and>
    (streaming_active app' \<longrightarrow> python_connected app' \<and> ffmpeg_running (app_pm app')) \<and>
    (python_connected app' \<longleftrightarrow> client_fd (app_ipc app') \<noteq> - 1) \<and> conn_wf (app_ipc app') \<and>
    ws_queue_wf app' \<and> pm_wf (app_pm app')"
  using main_loop_keeps [OF boot_peers_inv [OF boot_servers_up [OF assms(1-3)] assms(4)] assms(5)]
  by (auto simp: stream_inv_def stream_ok_def stream_ready_def)

text \<open>A start on which everything is granted, and mediaMTX answers at once.\<close>

definition up_px :: posix where
  "up_px = px_start (\<lambda>n. if n = 2 then 0 else 1) (\<lambda>_. Recv_error EAGAIN)"

lemma px_asked_up: "px_asked up_px = 0"
  by (simp add: up_px_def px_start_def)

lemma bridge_starts:
  assumes "main_boot fw = (eSTATUS_SUCCESSFUL, fw')" and "px_answers s (px_asked s) \<noteq> 0"
  shows "\<exists>b. ddl_bridge_start threads False period fw s = Some (Some b, fw', s\<lparr>px_asked := Suc (px_asked s)\<rparr>)"
  using assms by (auto simp: main_boot_def ddl_bridge_start_def px_ask_def Let_def split: prod.splits if_splits)

lemma stream_starts:
  "\<exists>app1 app2. boot_servers (demo_stream False demo_conn up_px\<lparr>android_connected := False\<rparr>) = (0, app1) \<and>
    boot_peers demo_env app1 = Some (0, app2)"
proof -
  let ?app = "demo_stream False demo_conn up_px\<lparr>android_connected := False\<rparr>"
  obtain fw where fw: "main_boot board_firmware = (eSTATUS_SUCCESSFUL, fw)"
    using board_boots by (cases "main_boot board_firmware") simp
  have ans: "px_answers up_px n = (if n = 2 then 0 else 1)" for n by (simp add: up_px_def px_start_def)
  have wait: "pm_wait_for_mediamtx_ready 10 s = (0, s\<lparr>px_asked := 3\<rparr>)"
    if "px_answers s = px_answers up_px" "px_asked s = 1" for s
  proof -
    have "pm_wait_for_mediamtx_ready 10 s = wait_ready (Suc 99) s" by (simp add: pm_wait_for_mediamtx_ready_def)
    also have "\<dots> = (0, s\<lparr>px_asked := 3\<rparr>)"
      using that by (simp only: wait_ready.simps) (simp add: px_open_def px_ask_def px_close_def ans Let_def)
    finally show ?thesis .
  qed
  obtain r app1 where 1: "boot_servers ?app = (r, app1)" by fastforce
  then have a1: "r = 0" "px_answers (app_px app1) = px_answers up_px" "px_asked (app_px app1) = 4"
    "app_fw app1 = board_firmware" "app_files app1 = no_files"
    by (auto simp: boot_servers_def wait demo_stream_def pm_start_mediamtx_def px_spawn_def px_ask_def ans
      px_asked_up pm_init_def ws_init_def lws_ask_def demo_lws_def ws_set_callbacks_def Let_def)
  obtain b s where 2: "ddl_bridge_start Some False DDL_BRIDGE_INTERVAL_MS board_firmware (app_px app1) = Some (Some b, fw, s)"
    and s: "s = (app_px app1)\<lparr>px_asked := 5\<rparr>"
    using bridge_starts [OF fw, of "app_px app1" Some DDL_BRIDGE_INTERVAL_MS] a1 ans by auto
  then have "\<exists>app2. boot_peers demo_env app1 = Some (0, app2)"
    using a1 ans
    by (simp add: boot_peers_def demo_env_def ipc_server_init_def ipc_accept_client_def set_nonblocking_def px_open_def
      px_ask_def app_is_fifo_def config_is_fifo_def no_files_def Let_def)
  then show ?thesis using 1 a1(1) by simp
qed

lemma stream_invariant_witness:
  "\<exists>app1 app2. boot_servers (demo_stream False demo_conn up_px\<lparr>android_connected := False\<rparr>) = (0, app1) \<and>
    boot_peers demo_env app1 = Some (0, app2) \<and>
    (python_connected app2 \<longleftrightarrow> client_fd (app_ipc app2) \<noteq> - 1) \<and> conn_wf (app_ipc app2) \<and> ws_queue_wf app2"
proof -
  let ?app = "demo_stream False demo_conn up_px\<lparr>android_connected := False\<rparr>"
  obtain app1 app2 where r: "boot_servers ?app = (0, app1)" "boot_peers demo_env app1 = Some (0, app2)"
    using stream_starts by blast
  moreover have "\<not> android_connected ?app" "\<not> streaming_active ?app" by (simp_all add: demo_stream_def)
  moreover have "main_loop demo_env 1 [] app2 = Some app2" by simp
  ultimately show ?thesis using stream_invariant [of ?app app1 demo_env app2 1 "[]" app2] by blast
qed

text \<open>C5. The detections of a batch reach the queue of the Android application unchanged and in order, provided
  that the application is connected and that what the Python process has sent contains no null character
  and only complete lines shorter than the message buffer of 4096: the server takes at most \<open>k\<close>
  complete lines from it, up to the first empty line, and leaves the rest in its buffer; of the messages
  waiting before and these, the queue then holds the latest \<open>256\<close>.\<close>

lemma detections_forwarded:
  assumes "stream_inv app" and "android_connected app"
    and "batch_lines k (app_ipc app) (app_px app) = (ms, arrived, conn', s')"
    and "NUL \<notin> set (unread (app_ipc app) @ arrived)"
    and "\<forall>l\<in>set (fst (split_lines (unread (app_ipc app) @ arrived))). length l < MAX_MSG_SIZE"
  shows "\<exists>len app' e. read_batch k 0 0 app = (len, length ms, app') \<and> length ms \<le> k \<and> app_ipc app' = conn' \<and>
    (e = [] \<or> e = [[]]) \<and> split_lines (unread (app_ipc app) @ arrived)
      = (ms @ e @ fst (split_lines (unread conn')), snd (split_lines (unread conn'))) \<and>
    ws_messages app' = latest WS_QUEUE_SIZE (ws_messages app @ ms)"
proof -
  obtain len count app' where r: "read_batch k 0 0 app = (len, count, app')" by (metis prod_cases3)
  have "conn_wf (app_ipc app)" using assms(1) by (simp add: stream_inv_def)
  from batch_lines_split [OF this assms(3-5)] obtain e where e: "e = [] \<or> e = [[]]" "length ms \<le> k"
    "\<forall>l\<in>set ms. length l < MAX_MSG_SIZE" "split_lines (unread (app_ipc app) @ arrived)
      = (ms @ e @ fst (split_lines (unread conn')), snd (split_lines (unread conn')))" by blast
  have "ws_serving (client_wsi app) (lws_PRE (ws_lws app)) app"
    using assms(1,2) by (auto simp: stream_inv_def stream_ok_def ws_serving_def)
  from read_batch_forwards [OF this assms(2) r assms(3) e(3)] show ?thesis using r e by auto
qed

lemma demo_batch:
  "\<exists>conn' s'. batch_lines 1 demo_conn (demo_px 0 (''ab'' @ [newline])) = ([''ab''], ''ab'' @ [newline], conn', s')"
proof -
  let ?s = "demo_px 0 (''ab'' @ [newline])"
  obtain ok c1 s1 where 1: "recv_more demo_conn ?s = (ok, c1, s1)" by (metis prod_cases3)
  have in1: "incoming demo_conn ?s = ''ab'' @ [newline]" by (simp add: demo_incoming RECV_BUFFER_SIZE_def)
  note w = recv_more_wf [OF demo_conn_wf(1,2) 1]
  have u: "unread c1 = ''ab'' @ newline # []" using w(2) in1 demo_conn_wf(3) by simp
  have "\<exists>conn'. take_message MAX_MSG_SIZE c1 s1 = (int (length ''ab''), Some ''ab'', conn', s1)"
    using take_message_line [OF w(1) _ u, of MAX_MSG_SIZE s1] u by (auto simp: MAX_MSG_SIZE_def)
  moreover have ok
    using 1 by (simp add: recv_more_def px_recv_def demo_conn_def demo_px_def px_start_def RECV_BUFFER_SIZE_def)
  ultimately show ?thesis using 1 demo_conn_wf(2) in1 by (auto simp: ipc_recv_message_def)
qed

lemma detections_forwarded_witness:
  "\<exists>len app'. read_batch 1 0 0 (demo_stream True demo_conn (demo_px 0 (''ab'' @ [newline]))) = (len, 1, app') \<and>
    ws_messages app' = [''ab'']"
proof -
  let ?app = "demo_stream True demo_conn (demo_px 0 (''ab'' @ [newline]))"
  obtain conn' s' where b: "batch_lines 1 (app_ipc ?app) (app_px ?app) = ([''ab''], ''ab'' @ [newline], conn', s')"
    using demo_batch by (auto simp: demo_stream_def)
  have i: "stream_inv ?app" "android_connected ?app" "ws_messages ?app = []" "unread (app_ipc ?app) = []"
    using demo_stream_ok [of True demo_conn] demo_conn_wf
    by (simp_all add: stream_inv_def) (simp_all add: demo_stream_def ws_messages_def)
  show ?thesis
    using detections_forwarded [OF i(1,2) b] i(3,4)
    by (simp add: MAX_MSG_SIZE_def latest_def WS_QUEUE_SIZE_def) blast
qed

text \<open>C34. A Python process that is gone never comes back: once the server has recorded that it is not connected, then
  through any rounds of the loop, whoever connects, no message is received, nothing is sent to a
  socket, no process is started or stopped and no stream becomes active: of the system, all that
  changes is that each round sleeps 100 microseconds. The server accepts the Python process only
  once, before the loop.\<close>

lemma python_never_returns:
  assumes "stream_inv app" and "\<not> python_connected app" and "main_loop env n fs app = Some app'"
  shows "\<not> python_connected app' \<and> \<not> streaming_active app' \<and> app_ipc app' = app_ipc app \<and>
    total_processed app' = total_processed app \<and>
    app_px app' = (app_px app)\<lparr>px_slept := px_slept (app_px app) + 100 * length fs\<rparr>"
proof -
  have "idle (app_ipc app) (app_px app) (total_processed app) app"
    using assms(1,2) by (simp add: idle_def service_inv_def stream_inv_def)
  from idle_loop [OF this assms(3)] show ?thesis using idle_inactive by (simp add: idle_def service_inv_def)
qed

lemma demo_round:
  assumes "\<not> python_connected app" and "\<not> streaming_active app" and "app_bridge app = None" and "ws_service_counter app < 9"
  shows "\<exists>app'. main_round demo_env 1 app = Some app' \<and> ws_service_counter app' = ws_service_counter app + 1"
  using assms
  by (simp add: main_round_def serve_python_def serve_android_def serve_sensors_def ddl_bridge_tick_def
      check_playback_def app_usleep_def)

lemma python_never_returns_witness:
  "\<exists>app'. main_loop demo_env 1 [\<lambda>w. w] (demo_stream False (demo_conn\<lparr>client_fd := - 1\<rparr>) up_px) = Some app' \<and>
    app_px app' = up_px\<lparr>px_slept := 100\<rparr>"
proof -
  let ?app = "demo_stream False (demo_conn\<lparr>client_fd := - 1\<rparr>) up_px"
  have i: "stream_inv ?app" "\<not> python_connected ?app"
    using demo_stream_ok [of False "demo_conn\<lparr>client_fd := - 1\<rparr>"] demo_conn_wf(1)
    by (simp_all add: stream_inv_def) (simp_all add: demo_stream_def conn_wf_def)
  obtain app' where l: "main_loop demo_env 1 [\<lambda>w. w] ?app = Some app'"
    using demo_round [of ?app] by (auto simp: demo_stream_def)
  have "px_slept (app_px ?app) = 0" "app_px ?app = up_px" by (simp_all add: demo_stream_def up_px_def px_start_def)
  then show ?thesis using python_never_returns [OF i l] l by simp
qed

text \<open>A start of the camera starts FFmpeg at most four times, each time reading the named pipe with the
  arguments of the configuration, and reports success only with the stream active and FFmpeg recorded as
  running.\<close>

lemma camera_start_bounded:
  assumes "stream_inv app" and "start_camera_stream env app = Some (ok, app')"
  shows "\<exists>pids. length pids \<le> MAX_FFMPEG_TRIES \<and> px_spawned (app_px app') = px_spawned (app_px app) @
      map (\<lambda>p. (p, ffmpeg_args (app_files app') (app_config app))) pids \<and>
    (pids = [] \<or> app_is_fifo app') \<and> (ok \<longrightarrow> streaming_active app' \<and> ffmpeg_running (app_pm app'))"
proof -
  have "stream_step ok app app' \<and> stream_ready app'"
    using start_stream_step [of env app ok app'] assms by (simp add: stream_inv_def stream_ok_def)
  then have ok: "ok \<longrightarrow> streaming_active app' \<and> ffmpeg_running (app_pm app')"
    by (simp add: stream_step_def stream_ready_def)
  show ?thesis
  proof (cases "streaming_active app \<or> \<not> python_connected app")
    case True
    then have "app' = app" using assms(2) by (auto simp: start_camera_stream_def split: if_splits)
    then show ?thesis using ok by (intro exI [of _ "[]"]) simp
  next
    case False
    obtain running app0 where 0: "app_ffmpeg_running app = (running, app0)" by fastforce
    define app1 where "app1 = (if running then app_stop_ffmpeg app0 else app0)"
    have l1: "launches 0 app app1"
      using launches_trans [OF app_launches(4) [OF 0] app_launches(3)] app_launches(4) [OF 0] by (simp add: app1_def)
    obtain r app2 where 2: "app_mkfifo (app_unlink app1) = (r, app2)" by fastforce
    have s2: "px_spawned (app_px app2) = px_spawned (app_px app1)" "app_config app2 = app_config app1"
      "r = 0 \<longrightarrow> app_is_fifo app2"
      using 2 by (auto simp: app_mkfifo_def app_unlink_def px_ask_def app_is_fifo_def config_is_fifo_def Let_def)
    have c: "(if r \<noteq> 0 then Some (False, app2) else camera_attempts env MAX_FFMPEG_TRIES 1 app2) = Some (ok, app')"
      using assms(2) False 0 2 by (simp add: start_camera_stream_def app1_def Let_def)
    show ?thesis
    proof (cases "r = 0")
      case False
      then show ?thesis using c s2 l1 ok by (intro exI [of _ "[]"]) (auto simp: launches_def)
    next
      case True
      then have l2: "launches MAX_FFMPEG_TRIES app2 app'" using c camera_attempts_launches by simp
      then have "app_is_fifo app'" using s2(3) True by (simp add: launches_def app_is_fifo_def)
      then show ?thesis using l1 l2 s2 ok by (auto simp: launches_def)
    qed
  qed
qed

lemma camera_start_bounded_witness:
  "\<exists>ok app' pids. start_camera_stream demo_env (demo_stream True demo_conn (px_start (\<lambda>n. if n = 1 then 0 else 5000) (\<lambda>_. Received []))) =
      Some (ok, app') \<and> length pids \<le> 4 \<and> map fst (px_spawned (app_px app')) = pids"
proof -
  let ?s = "px_start (\<lambda>n. if n = 1 then 0 else 5000) (\<lambda>_. Received [])"
  let ?app = "demo_stream True demo_conn ?s"
  have i: "stream_inv ?app" "px_spawned (app_px ?app) = []"
    using demo_stream_ok [of True demo_conn] demo_conn_wf
    by (simp_all add: stream_inv_def) (simp_all add: demo_stream_def px_start_def)
  have "px_answers ?s n \<notin> {0, - EAGAIN} \<or> px_answers ?s (Suc n) \<notin> {0, - EAGAIN}" for n
    by (simp add: px_start_def EAGAIN_def)
  then have "socket_moves 1 ?s"
    unfolding socket_moves_def by (metis One_nat_def add.right_neutral add_Suc_right le_numeral_extra(4) zero_le)
  then have "moves 1 ?app" by (simp add: moves_def demo_stream_def)
  then have "\<exists>ok app'. start_camera_stream demo_env ?app = Some (ok, app')" using start_stream_returns(1) by blast
  then obtain ok app' where r: "start_camera_stream demo_env ?app = Some (ok, app')" by blast
  have "map fst (map (\<lambda>p. (p, x)) pids) = pids" for x pids by (simp add: comp_def)
  then show ?thesis using camera_start_bounded [OF i(1) r] i(2) r by (auto simp: MAX_FFMPEG_TRIES_def)
qed

text \<open>A camera whose named pipe could be removed but not created again is lost: its start fails, and from then on
  the server takes its path for a video file, so that the next Android application makes it start a file
  stream.\<close>

lemma camera_fifo_lost:
  assumes "\<not> streaming_active app" and "python_connected app" and "app_ffmpeg_running app = (False, app1)"
    and "px_answers (app_px app1) (px_asked (app_px app1)) = 0"
    and "px_answers (app_px app1) (Suc (px_asked (app_px app1))) \<noteq> 0"
  shows "\<exists>app2. start_camera_stream env app = Some (False, app2) \<and> \<not> app_is_fifo app2 \<and>
    on_android_connect env service app2 = do {
      (ok, app3) \<leftarrow> start_file_stream env (app2\<lparr>android_connected := True\<rparr>);
      if ok then send_stream_ready service app3 else Some app3
    }"
proof -
  obtain r app2 where 2: "app_mkfifo (app_unlink app1) = (r, app2)" by fastforce
  have r: "r \<noteq> 0" "\<not> app_is_fifo app2"
    using 2 assms(4,5) by (auto simp: app_mkfifo_def app_unlink_def px_ask_def app_is_fifo_def config_is_fifo_def Let_def)
  then have "start_camera_stream env app = Some (False, app2)"
    using assms(1-3) 2 by (simp add: start_camera_stream_def Let_def)
  moreover have "python_connected app2"
    using rest_of_fields(1) [of app2 app] app_ffmpeg_running_step [OF assms(3)] app_file_step(1) [of app1]
      app_file_step(2) [OF 2] assms(2) by (simp add: stream_step_def)
  ultimately show ?thesis using r(2) by (simp add: on_android_connect_def app_is_fifo_def)
qed

lemma camera_fifo_lost_witness:
  "\<exists>app2. start_camera_stream demo_env (demo_stream True demo_conn (px_start (\<lambda>n. if n = 0 then 0 else - 1) (\<lambda>_. Received []))) =
      Some (False, app2) \<and> \<not> app_is_fifo app2"
proof -
  let ?app = "demo_stream True demo_conn (px_start (\<lambda>n. if n = 0 then 0 else - 1) (\<lambda>_. Received []))"
  have "app_ffmpeg_running ?app = (False, ?app)" "\<not> streaming_active ?app" "python_connected ?app"
    "px_answers (app_px ?app) (px_asked (app_px ?app)) = 0" "px_answers (app_px ?app) (Suc (px_asked (app_px ?app))) \<noteq> 0"
    by (simp_all add: app_ffmpeg_running_def pm_is_ffmpeg_running_def pm_check_processes_def demo_stream_def
      pm_init_def px_start_def)
  from camera_fifo_lost [OF this(2,3,1,4,5)] show ?thesis by blast
qed

text \<open>C7. The loop of the server goes on: when the socket of the Python process moves, taking something or failing
  at least once in \<open>m + 1\<close> calls, and when new applications do not come in more than \<open>n - 1\<close> rounds of the
  WebSocket in a row and never two in one round, every round returns, the calls of the service that
  answer a new application from inside the service nesting at most \<open>n\<close> deep.\<close>

lemma rounds_return:
  assumes "socket_moves m (app_px app)" and "calm n (lws_events (ws_lws app))"
  shows "\<exists>app'. main_loop env n fs app = Some app'"
  using main_loop_returns [OF assms(2), of m app env fs] assms(1) by (auto simp: live_def moves_def)

lemma rounds_return_witness:
  "\<exists>app'. main_loop demo_env 1 (replicate 20 (\<lambda>w. w)) (demo_stream True demo_conn (demo_px 1 [])) = Some app'"
proof -
  have "socket_moves 0 (demo_px 1 [])" by (simp add: socket_moves_def demo_px_def px_start_def EAGAIN_def)
  then show ?thesis
    by (intro rounds_return [of 0]) (simp_all add: demo_stream_def demo_lws_def calm_def)
qed

end
