(* ===== verification/FrameTypes.thy ===== *)
theory FrameTypes
  imports DdlBridge
begin

text \<open>
  The ranges of the numbers in the frames of the sensors: whatever the sensors send, the state machines
  of the four modules store numbers of single precision and coordinates of at most 215 degrees, so that
  the message that the bridge builds of their frames always fits its buffer.
\<close>

section \<open>Numbers\<close>

lemma single_range_fl32 [simp]: "single_range (fl32 x)"
  by (rule fl32_single_range)

lemma single_range_special [simp]:
  "single_range NaN" "single_range PInf" "single_range NInf"
  by (simp_all add: single_range_def)

lemma single_range_small: "\<bar>r\<bar> \<le> 180 \<Longrightarrow> single_range (Fin r)"
proof -
  assume "\<bar>r\<bar> \<le> 180"
  moreover have "(180 :: rat) < 2 ^ 128" by simp
  ultimately show ?thesis by (simp add: single_range_def)
qed

lemma single_range_div [simp]: "single_range (f_div fl32 x y)"
  by (rule f_div.cases [of "(fl32, x, y)"]) (auto simp: f_signed_inf_def single_range_small)

lemma single_range_add [simp]: "single_range (f_add fl32 x y)"
  by (cases x; cases y) auto

lemma single_range_sub [simp]: "single_range (f_sub fl32 x y)"
  by (simp add: f_sub_def)

lemma single_range_neg [simp]: "single_range (f_neg x) = single_range x"
  by (cases x) (simp_all add: single_range_def)

text \<open>A coordinate is the number of units of \<open>10\<^sup>-\<^sup>7\<close> degrees that the receiver sends, as a double.\<close>

lemma coordinate_range_scaled:
  assumes "\<bar>i\<bar> \<le> 2 ^ 31"
  shows "coordinate_range (f_mul fl64 (fl64 (of_int i)) (fl64 (1 / 10 ^ 7)))"
proof -
  have i: "fl64 (of_int i) = Fin (of_int i)" using assms by (intro fl64_int) simp
  have c: "fl64 (1 / 10 ^ 7) = Fin (rnd64 (1 / 10 ^ 7))" using fl64_Fin [of "1 / 10 ^ 7" 1] by simp
  have "(2 :: rat) powi (- 1022) \<le> 2 powi (- 24)" by (rule two_powi_le) simp
  also have "\<dots> \<le> \<bar>1 / 10 ^ 7\<bar>" by (simp add: power_int_def power_one_over)
  finally have "\<bar>rnd64 (1 / 10 ^ 7) - 1 / 10 ^ 7\<bar> \<le> \<bar>1 / 10 ^ 7\<bar> / 2 ^ 53" by (rule rnd64_error)
  then have "rnd64 (1 / 10 ^ 7) - 1 / 10 ^ 7 \<le> 1 / 10 ^ 10" "1 / 10 ^ 7 - rnd64 (1 / 10 ^ 7) \<le> 1 / 10 ^ 10"
    unfolding abs_le_iff by simp_all
  then have r: "\<bar>rnd64 (1 / 10 ^ 7)\<bar> \<le> 1001 / 10 ^ 10" by (simp add: abs_le_iff)
  have "\<bar>of_int i * rnd64 (1 / 10 ^ 7)\<bar> \<le> 2 ^ 31 * (1001 / 10 ^ 10)"
    unfolding abs_mult using assms r by (intro mult_mono) (simp_all flip: of_int_abs)
  then have "\<bar>of_int i * rnd64 (1 / 10 ^ 7)\<bar> \<le> of_int 215" by simp
  from fl64_Fin [OF this] show ?thesis using i c by (simp add: coordinate_range_def)
qed

section \<open>The machines\<close>

text \<open>The contract of the state machines holds with the ranges as a part of the invariant.\<close>

definition gps_typed :: "GPSFrame \<Rightarrow> bool" where
  "gps_typed f \<longleftrightarrow> coordinate_range (gf_latitude f) \<and> coordinate_range (gf_longitude f) \<and>
    single_range (gf_altitude f) \<and> single_range (gf_h_acc f)"

lemma distance_update_typed [simp]: "single_range (df_distance (d_frame (update_distance_frame be a fr)))"
  by (simp add: update_distance_frame_def Let_def)

interpretation dist_typed: fsm_machine "distance_states be"
    "\<lambda>a. distance_ok a \<and> single_range (df_distance (d_frame a))" distance_rank 1 for be
proof (unfold_locales, goal_cases)
  case (1 st)
  then show ?case by (cases st) simp_all
next
  case (2 f st T)
  then show ?case by (cases st) (simp_all add: distance_state_defs fsm_codes Let_def)
next
  case (3 f st T)
  then show ?case by (cases st) (auto simp: distance_state_defs fsm_codes Let_def)
next
  case (4 f st T ev)
  then show ?case by (cases st) (auto simp: distance_state_defs Let_def split: prod.split)
next
  case (5 T T' st ev f f')
  show ?case using 5 by (rule dist.handler_mono)
qed

lemma gps_update_typed [simp]: "gps_typed (g_frame (update_gps_frame be a fr))"
proof -
  have "\<bar>from_little_endian_i32 be w\<bar> \<le> 2 ^ 31" for w
    using sint_range_size [of "from_little_endian32 be w"]
    by (auto simp: from_little_endian_i32_def word_size abs_le_iff)
  then show ?thesis
    using coordinate_range_scaled by (simp add: update_gps_frame_def gps_typed_def Let_def del: f_mul.simps)
qed

lemma gps_typed_valid [simp]: "gps_typed (fr\<lparr>gf_valid := v\<rparr>) = gps_typed fr"
  by (simp add: gps_typed_def)

lemma gps_send_frame [simp]: "g_frame (config_send_current_step a) = g_frame a"
  by (simp add: config_send_current_step_def Let_def split: prod.split)

interpretation gps_typed: fsm_machine "gps_states be" "\<lambda>a. gps_ok a \<and> gps_typed (g_frame a)" gps_rank 1 for be
proof (unfold_locales, goal_cases)
  case (1 st)
  then show ?case by (cases st) simp_all
next
  case (2 f st T)
  then show ?case by (cases st) (simp_all add: gps_state_defs fsm_codes Let_def)
next
  case (3 f st T)
  then show ?case by (cases st) (auto simp: gps_state_defs fsm_codes Let_def)
next
  case (4 f st T ev)
  then show ?case by (cases st) (auto simp: gps_state_defs Let_def split: prod.split)
next
  case (5 T T' st ev f f')
  show ?case using 5 by (rule gps.handler_mono)
qed

definition temp_hum_typed :: "TemperatureHumidityFrame \<Rightarrow> bool" where
  "temp_hum_typed f \<longleftrightarrow> single_range (thf_temperature f) \<and> single_range (thf_humidity f)"

lemma temp_hum_typed_valid [simp]: "temp_hum_typed (fr\<lparr>thf_valid := v\<rparr>) = temp_hum_typed fr"
  by (simp add: temp_hum_typed_def)

lemma am2302_read_typed:
  "am2302_read a = Some (st, a') \<Longrightarrow> temp_hum_typed (t_frame a) \<Longrightarrow> temp_hum_typed (t_frame a')"
  by (auto simp: am2302_read_def Let_def am2302_decode_frame_def temp_hum_typed_def split: option.splits if_splits)

lemma read_retry_loop_typed:
  assumes "read_retry_loop a = Some x"
  shows "temp_hum_typed (t_frame a) \<longrightarrow> temp_hum_typed (t_frame (snd x))"
proof (rule read_retry_loop.raw_induct
    [OF _ assms, where P = "\<lambda>a x. temp_hum_typed (t_frame a) \<longrightarrow> temp_hum_typed (t_frame (snd x))"])
  fix f a x
  assume IH: "\<And>a x. f a = Some x \<Longrightarrow> temp_hum_typed (t_frame a) \<longrightarrow> temp_hum_typed (t_frame (snd x))"
    and eq: "(case am2302_read a of
       None \<Rightarrow> None
     | Some (status, aobj) \<Rightarrow>
        if failed status
        then let aobj = aobj\<lparr>t_retry := t_retry aobj + 1\<rparr>
             in if t_retry aobj < eTEMPERATURE_HUMIDITY_RETRY_MAX then f aobj else Some (status, aobj)
        else let aobj = aobj\<lparr>t_frame := (t_frame aobj)\<lparr>thf_valid := True\<rparr>\<rparr>;
                 (now, s) = am2302_get_time_us (t_os aobj)
             in Some (status, aobj\<lparr>t_last_read_tick := now, t_os := s\<rparr>)) = Some x"
  obtain st b where rd: "am2302_read a = Some (st, b)" using eq by (cases "am2302_read a") auto
  have "f (b\<lparr>t_retry := t_retry b + 1\<rparr>) = Some x \<Longrightarrow> temp_hum_typed (t_frame b) \<longrightarrow> temp_hum_typed (t_frame (snd x))"
    using IH by fastforce
  then show "temp_hum_typed (t_frame a) \<longrightarrow> temp_hum_typed (t_frame (snd x))"
    using eq rd am2302_read_typed [OF rd] by (auto simp: Let_def split: if_splits prod.splits)
qed

lemma read_entry_typed:
  "read_entry a = Some a' \<Longrightarrow> temp_hum_typed (t_frame a) \<Longrightarrow> temp_hum_typed (t_frame a')"
  by (auto simp: read_entry_def Let_def split: option.splits if_splits prod.splits dest!: read_retry_loop_typed)

lemma am2302_init_frame: "am2302_init a = (st, a') \<Longrightarrow> t_frame a' = t_frame a"
  by (auto simp: am2302_init_def Let_def split: prod.splits if_splits)

lemma temp_hum_read_typed:
  assumes "clock_ok (t_os (fsm_arg f)) \<and> temp_hum_typed (t_frame (fsm_arg f))"
    and "\<And>a'. clock_ok (t_os a') \<and> temp_hum_typed (t_frame a') \<Longrightarrow>
      \<exists>f''. T temperature_humidity_idle (f\<lparr>fsm_arg := a'\<rparr>) = Some f'' \<and> P f''"
  shows "\<exists>f''. (case read_entry (fsm_arg f) of None \<Rightarrow> None
      | Some aobj \<Rightarrow> T temperature_humidity_idle (f\<lparr>fsm_arg := aobj\<rparr>)) = Some f'' \<and> P f''"
proof -
  obtain a' where a': "read_entry (fsm_arg f) = Some a'" "clock_ok (t_os a')"
    using read_entry_returns clock_ok_mono assms(1) by blast
  then show ?thesis using assms read_entry_typed [OF a'(1)] by simp
qed

interpretation temp_hum_typed: fsm_machine temp_hum_states
    "\<lambda>a. clock_ok (t_os a) \<and> temp_hum_typed (t_frame a)" temp_hum_rank 1
proof (unfold_locales, goal_cases)
  case (1 st)
  then show ?case by (cases st) simp_all
next
  case (2 f st T)
  then show ?case by (cases st) (simp_all add: temp_hum_state_defs fsm_codes Let_def)
next
  case (3 f st T)
  show ?case
  proof (cases st)
    case temperature_humidity_read
    then show ?thesis
      using 3 temp_hum_read_typed [of f T "\<lambda>f'. (clock_ok (t_os (fsm_arg f')) \<and>
        temp_hum_typed (t_frame (fsm_arg f'))) \<and> current_state f' \<noteq> None"]
      by (simp add: temp_hum_state_defs)
  qed (use 3 in \<open>auto simp: temp_hum_state_defs fsm_codes Let_def\<close>)
next
  case (4 f st T ev)
  show ?case
  proof (cases st)
    case temperature_humidity_init
    obtain status b where b: "am2302_init ((fsm_arg f)\<lparr>t_frame := (t_frame (fsm_arg f))\<lparr>thf_valid := False\<rparr>\<rparr>)
        = (status, b)" by fastforce
    then have "clock_ok (t_os b)" "temp_hum_typed (t_frame b)"
      using am2302_init_clock [OF b] am2302_init_frame [OF b] 4(2) [THEN conjunct1] 4(2) [THEN conjunct2]
      by (simp_all add: clock_ok_mono)
    then show ?thesis
      using 4 b temperature_humidity_init by (auto simp: temp_hum_state_defs Let_def)
  next
    case temperature_humidity_read
    then show ?thesis
      using 4 temp_hum_read_typed [of f T "\<lambda>f'. (clock_ok (t_os (fsm_arg f')) \<and>
        temp_hum_typed (t_frame (fsm_arg f'))) \<and> current_state f' \<noteq> None"]
      by (simp add: temp_hum_state_defs)
  qed (use 4 in \<open>auto simp: temp_hum_state_defs Let_def\<close>)
next
  case (5 T T' st ev f f')
  show ?case using 5 by (rule temp_hum.handler_mono)
qed

text \<open>The servos: the angles of the frame, of the scan and of the target.\<close>

definition angles_typed :: "ServoAngles \<Rightarrow> bool" where
  "angles_typed x \<longleftrightarrow> single_range (hor_angle x) \<and> single_range (ver_angle x)"

definition servo_typed :: "ServoObject \<Rightarrow> bool" where
  "servo_typed a \<longleftrightarrow> single_range (sf_hor_angle (s_frame a)) \<and> single_range (sf_ver_angle (s_frame a)) \<and>
    angles_typed (scan_angles a) \<and> angles_typed (target_angles (servo_target a))"

lemma servo_typed_upd [simp]:
  "servo_typed (a\<lparr>s_os := s\<rparr>) = servo_typed a" "servo_typed (a\<lparr>s_i2c := c\<rparr>) = servo_typed a"
  "servo_typed (a\<lparr>angle_direction := d\<rparr>) = servo_typed a" "servo_typed (a\<lparr>last_seq := q\<rparr>) = servo_typed a"
  "servo_typed (a\<lparr>s_timer_arg := y\<rparr>) = servo_typed a" "servo_typed (a\<lparr>s_timer := t\<rparr>) = servo_typed a"
  "servo_typed (a\<lparr>servo_target_mutex := m\<rparr>) = servo_typed a"
  "servo_typed (a\<lparr>s_i2c := c, s_os := s\<rparr>) = servo_typed a"
  "servo_typed (a\<lparr>s_timer := t, s_os := s\<rparr>) = servo_typed a"
  "servo_typed (a\<lparr>servo_target_mutex := m, s_os := s\<rparr>) = servo_typed a"
  by (simp_all add: servo_typed_def)

lemma servo_copy_target_typed:
  "servo_typed a \<Longrightarrow> servo_copy_target a = (t, a') \<Longrightarrow> servo_typed a' \<and> angles_typed (target_angles t)"
  by (auto simp: servo_copy_target_def servo_typed_def Let_def)

lemma servo_set_both_angles_typed:
  "servo_typed a \<Longrightarrow> angles_typed ang \<Longrightarrow> servo_set_both_angles ang a = (st, a') \<Longrightarrow> servo_typed a'"
  by (auto simp: servo_set_both_angles_def servo_typed_def angles_typed_def Let_def split: prod.splits if_splits)

lemma start_angles_typed: "angles_typed \<lparr>hor_angle = Fin 0, ver_angle = Fin 90\<rparr>"
  by (simp add: angles_typed_def single_range_small)

lemma servo_init_angles_typed:
  "servo_typed a \<Longrightarrow> servo_init_angles a = (st, a') \<Longrightarrow> servo_typed a'"
  using start_angles_typed
  by (auto simp: servo_init_angles_def servo_typed_def Let_def split: prod.splits if_splits)

lemma servo_idle_entry_typed: "servo_typed a \<Longrightarrow> servo_typed (servo_idle_entry a)"
  using servo_init_angles_typed [of a]
  by (auto simp: servo_idle_entry_def servo_typed_def angles_typed_def Let_def split: prod.splits)

lemma servo_scan_operation_typed: "angles_typed a \<Longrightarrow> servo_scan_operation (a, d) = (a', d') \<Longrightarrow> angles_typed a'"
  by (auto simp: servo_scan_operation_def angles_typed_def single_range_small servo_constants Let_def split: if_splits)

lemma clampf_typed: "single_range (clampf x SERVO_MIN_ANGLE_DEG SERVO_MAX_ANGLE_DEG)"
  by (cases x) (auto simp: clampf_def servo_constants single_range_small)

lemma servo_get_angle_typed:
  "single_range x \<Longrightarrow> servo_get_angle ch (Some x) c s = (st, h, c', s') \<Longrightarrow> \<exists>y. h = Some y \<and> single_range y"
  using clampf_typed by (auto simp: servo_get_angle_def Let_def split: prod.splits if_splits)

lemma servo_scan_directions_typed:
  assumes "servo_typed a"
  shows "servo_typed (servo_scan_directions a)"
proof -
  obtain ang dir where sc: "servo_scan_operation (scan_angles a, angle_direction a) = (ang, dir)"
    by (cases "servo_scan_operation (scan_angles a, angle_direction a)") auto
  have ang: "angles_typed ang" using servo_scan_operation_typed [OF _ sc] assms by (simp add: servo_typed_def)
  define a1 where "a1 = a\<lparr>scan_angles := ang, angle_direction := dir\<rparr>"
  have 1: "servo_typed a1" using assms ang by (simp add: a1_def servo_typed_def)
  obtain st a2 where 2: "servo_set_both_angles ang a1 = (st, a2)"
    by (cases "servo_set_both_angles ang a1") auto
  have t2: "servo_typed a2" by (rule servo_set_both_angles_typed [OF 1 ang 2])
  then have r: "single_range (hor_angle (scan_angles a2))" "single_range (ver_angle (scan_angles a2))"
    by (simp_all add: servo_typed_def angles_typed_def)
  obtain st3 h c3 s3 where 3: "servo_get_angle eSERVO_HORIZONTAL_CHANNEL
      (Some (hor_angle (scan_angles a2))) (s_i2c a2) (s_os a2) = (st3, h, c3, s3)"
    by (metis prod_cases4)
  obtain st4 v c4 s4 where 4: "servo_get_angle eSERVO_VERTICAL_CHANNEL
      (Some (ver_angle (scan_angles a2))) c3 s3 = (st4, v, c4, s4)"
    by (metis prod_cases4)
  show ?thesis
    using t2 2 3 4 servo_get_angle_typed [OF r(1) 3] servo_get_angle_typed [OF r(2) 4]
    by (auto simp: servo_scan_directions_def sc a1_def [symmetric] Let_def servo_typed_def angles_typed_def)
qed

lemma servo_follow_target_typed: "servo_typed a \<Longrightarrow> servo_typed (servo_follow_target b a)"
proof -
  assume a: "servo_typed a"
  obtain t a1 where 1: "servo_copy_target a = (t, a1)" by fastforce
  note c = servo_copy_target_typed [OF a 1]
  have "servo_typed (snd (servo_set_both_angles (target_angles t) (a1\<lparr>last_seq := q\<rparr>)))" for q
    using servo_set_both_angles_typed [OF _ _ surjective_pairing] c by simp
  then show ?thesis using 1 c by (simp add: servo_follow_target_def)
qed

lemma servo_noise_entry_typed: "servo_typed a \<Longrightarrow> servo_typed (servo_noise_entry a)"
proof -
  assume a: "servo_typed a"
  obtain t a1 where 1: "servo_copy_target a = (t, a1)" by fastforce
  note c = servo_copy_target_typed [OF a 1]
  obtain st a2 where 2: "servo_set_both_angles (target_angles t) (a1\<lparr>scan_angles := target_angles t\<rparr>) = (st, a2)"
    by fastforce
  have "servo_typed (a1\<lparr>scan_angles := target_angles t\<rparr>)" using c by (simp add: servo_typed_def)
  from servo_set_both_angles_typed [OF this _ 2] show ?thesis
    using 1 2 c by (simp add: servo_noise_entry_def Let_def split: prod.split)
qed

lemma servo_init_devices_typed: "servo_typed a \<Longrightarrow> servo_init_devices a = (bad, a') \<Longrightarrow> servo_typed a'"
  by (auto simp: servo_init_devices_def Let_def split: prod.splits if_splits)

lemma servo_init_devices_both:
  "servo_init_devices a = (bad, a') \<Longrightarrow> servo_ok a \<Longrightarrow> servo_typed a \<Longrightarrow> servo_ok a' \<and> servo_typed a'"
  using servo_init_devices_ok servo_init_devices_typed by blast

lemma servo_set_both_angles_scan_typed:
  "servo_typed a \<Longrightarrow> servo_typed (snd (servo_set_both_angles (scan_angles a) a))"
  using servo_set_both_angles_typed [OF _ _ surjective_pairing] by (simp add: servo_typed_def [of a])

interpretation servo_typed: fsm_machine servo_states "\<lambda>a. servo_ok a \<and> servo_typed a" "\<lambda>_. 0" 0
proof (unfold_locales, goal_cases)
  case (1 st)
  then show ?case by simp
next
  case (2 f st T)
  then show ?case
    by (cases st) (auto simp: servo_state_defs fsm_codes Let_def split: prod.split
        intro: servo_ok_quiet timer_quiet)
next
  case (3 f st T)
  then show ?case
    by (cases st)
      (auto simp: servo_state_defs fsm_codes Let_def servo_idle_entry_ok servo_noise_entry_ok
        servo_follow_target_ok servo_idle_entry_typed servo_noise_entry_typed servo_follow_target_typed
        servo_set_both_angles_scan_typed intro: servo_set_both_angles_snd_ok)
next
  case (4 f st T ev)
  then show ?case
    by (cases st)
      (auto simp: servo_state_defs Let_def servo_idle_entry_ok servo_noise_entry_ok
        servo_follow_target_ok servo_scan_directions_ok servo_idle_entry_typed servo_noise_entry_typed
        servo_follow_target_typed servo_scan_directions_typed servo_set_both_angles_scan_typed split: prod.split
        intro: servo_set_both_angles_snd_ok servo_ok_quiet timer_quiet
        dest: servo_init_devices_both)
next
  case (5 T T' st ev f f')
  show ?case using 5 by (rule servo.handler_mono)
qed

section \<open>Property\<close>

text \<open>The events that the threads of the four sensor modules handle, one list for each.\<close>

definition sensors_handle ::
    "bool \<Rightarrow> Event list \<Rightarrow> Event list \<Rightarrow> Event list \<Rightarrow> Event list \<Rightarrow> ddl \<Rightarrow> ddl option" where
  "sensors_handle be dist_events temp_events servo_events gps_events d =
    do {
      fd \<leftarrow> fsm_run (distance_states be) 3 dist_events (active_fsm (m_distance d));
      ft \<leftarrow> fsm_run temp_hum_states 3 temp_events (active_fsm (m_temp_hum d));
      fs \<leftarrow> fsm_run servo_states 3 servo_events (active_fsm (m_servo d));
      fg \<leftarrow> fsm_run (gps_states be) 3 gps_events (active_fsm (m_gps d));
      Some (d\<lparr>m_distance := (m_distance d)\<lparr>active_fsm := fd\<rparr>, m_temp_hum := (m_temp_hum d)\<lparr>active_fsm := ft\<rparr>,
              m_servo := (m_servo d)\<lparr>active_fsm := fs\<rparr>, m_gps := (m_gps d)\<lparr>active_fsm := fg\<rparr>\<rparr>)
    }"

definition sensors_ok :: "ddl \<Rightarrow> bool" where
  "sensors_ok d \<longleftrightarrow>
    current_state (active_fsm (m_distance d)) \<noteq> None \<and> distance_ok (fsm_arg (active_fsm (m_distance d))) \<and>
    current_state (active_fsm (m_temp_hum d)) \<noteq> None \<and> clock_ok (t_os (fsm_arg (active_fsm (m_temp_hum d)))) \<and>
    current_state (active_fsm (m_servo d)) \<noteq> None \<and> servo_ok (fsm_arg (active_fsm (m_servo d))) \<and>
    current_state (active_fsm (m_gps d)) \<noteq> None \<and> gps_ok (fsm_arg (active_fsm (m_gps d))) \<and>
    frame_in_range (live_frame d) \<and> servo_typed (fsm_arg (active_fsm (m_servo d)))"

lemma live_frame_in_range:
  "frame_in_range (live_frame d) \<longleftrightarrow> single_range (df_distance (d_frame (fsm_arg (active_fsm (m_distance d))))) \<and>
    temp_hum_typed (t_frame (fsm_arg (active_fsm (m_temp_hum d)))) \<and>
    single_range (sf_hor_angle (s_frame (fsm_arg (active_fsm (m_servo d))))) \<and>
    single_range (sf_ver_angle (s_frame (fsm_arg (active_fsm (m_servo d))))) \<and>
    gps_typed (g_frame (fsm_arg (active_fsm (m_gps d))))"
  by (auto simp: frame_in_range_def live_frame_def temp_hum_typed_def gps_typed_def)

text \<open>C36. What the drivers store can always be sent: whatever bytes the sensors answer and whatever events the
  four machines handle, each handles them all, the numbers in their frames stay in the range of their
  types (single precision; coordinates of at most 215 degrees; angles of the servos that are numbers of
  single precision or not numbers at all), the machines stay fit for more, and so the message that the
  bridge builds of the live frame always fits its buffer of 1024 characters.\<close>

lemma frames_stay_in_range:
  assumes "sensors_ok d"
  shows "\<exists>d'. sensors_handle be dist_events temp_events servo_events gps_events d = Some d' \<and> sensors_ok d' \<and>
    frame_in_range (live_frame d') \<and> length (json_frame neg now (live_frame d')) < 1024"
proof -
  note r = assms [unfolded sensors_ok_def live_frame_in_range]
  obtain fd where 1: "fsm_run (distance_states be) 3 dist_events (active_fsm (m_distance d)) = Some fd"
    "distance_ok (fsm_arg fd)" "single_range (df_distance (d_frame (fsm_arg fd)))" "current_state fd \<noteq> None"
    using dist_typed.run_total [of "active_fsm (m_distance d)" 3 be dist_events] r by auto
  obtain ft where 2: "fsm_run temp_hum_states 3 temp_events (active_fsm (m_temp_hum d)) = Some ft"
    "clock_ok (t_os (fsm_arg ft))" "temp_hum_typed (t_frame (fsm_arg ft))" "current_state ft \<noteq> None"
    using temp_hum_typed.run_total [of "active_fsm (m_temp_hum d)" 3 temp_events] r by auto
  obtain fs where 3: "fsm_run servo_states 3 servo_events (active_fsm (m_servo d)) = Some fs"
    "servo_ok (fsm_arg fs)" "servo_typed (fsm_arg fs)" "current_state fs \<noteq> None"
    using servo_typed.run_total [of "active_fsm (m_servo d)" 3 servo_events] r by auto
  obtain fg where 4: "fsm_run (gps_states be) 3 gps_events (active_fsm (m_gps d)) = Some fg"
    "gps_ok (fsm_arg fg)" "gps_typed (g_frame (fsm_arg fg))" "current_state fg \<noteq> None"
    using gps_typed.run_total [of "active_fsm (m_gps d)" 3 be gps_events] r by auto
  define d' where "d' = d\<lparr>m_distance := (m_distance d)\<lparr>active_fsm := fd\<rparr>, m_temp_hum := (m_temp_hum d)\<lparr>active_fsm := ft\<rparr>,
    m_servo := (m_servo d)\<lparr>active_fsm := fs\<rparr>, m_gps := (m_gps d)\<lparr>active_fsm := fg\<rparr>\<rparr>"
  have "sensors_handle be dist_events temp_events servo_events gps_events d = Some d'"
    using 1 2 3 4 by (simp add: sensors_handle_def d'_def)
  moreover have "sensors_ok d'"
    using 1 2 3 4 by (simp add: sensors_ok_def live_frame_in_range d'_def) (simp add: servo_typed_def)
  moreover from this have "frame_in_range (live_frame d')" by (simp add: sensors_ok_def)
  ultimately show ?thesis using json_frame_length by blast
qed

definition demo_sensors :: ddl where
  "demo_sensors = (a_ddl demo_app)\<lparr>
     m_distance := (m_distance (a_ddl demo_app))\<lparr>active_fsm := \<lparr>current_state = Some distance_idle, fsm_arg = demo_distance\<rparr>\<rparr>,
     m_temp_hum := (m_temp_hum (a_ddl demo_app))\<lparr>active_fsm := \<lparr>current_state = Some temperature_humidity_idle,
       fsm_arg = demo_temp_hum\<rparr>\<rparr>,
     m_servo := (m_servo (a_ddl demo_app))\<lparr>active_fsm := \<lparr>current_state = Some servo_idle, fsm_arg = demo_servo\<rparr>\<rparr>,
     m_gps := (m_gps (a_ddl demo_app))\<lparr>active_fsm := \<lparr>current_state = Some gps_idle, fsm_arg = demo_gps\<rparr>\<rparr>\<rparr>"

lemma frames_stay_in_range_witness:
  "\<exists>d'. sensors_handle False [\<lparr>etype = eDISTANCE_EVENT_READ\<rparr>, \<lparr>etype = eDISTANCE_EVENT_FRAME_RECEIVED\<rparr>]
      [\<lparr>etype = eTEMPERATURE_HUMIDITY_EVENT_READ\<rparr>] [\<lparr>etype = eSERVO_EVENT_DIRECTIONS\<rparr>] [\<lparr>etype = eGPS_EVENT_READ\<rparr>]
      demo_sensors = Some d' \<and> length (json_frame (\<lambda>_. True) 1 (live_frame d')) < 1024"
proof -
  have "sensors_ok demo_sensors"
    by (simp_all add: sensors_ok_def demo_sensors_def live_frame_def frame_in_range_def coordinate_range_def
        single_range_small servo_typed_def angles_typed_def zero_ddl_frame_def distance_ok_def demo_distance_def gps_ok_def
        demo_gps_def servo_ok_def demo_servo_def boot_os_def uart_wf_def static_uart_def static_uart_device_def uart_codes
        ticking_clock_ok demo_temp_hum_def demo_line_def del: replicate.simps)
  from frames_stay_in_range [OF this] show ?thesis by blast
qed

end
