(* ===== verification/Callbacks.thy ===== *)
theory Callbacks
  imports System
begin

text \<open>
  What other threads call back: the thread of an expired timer and the completion thread of the UART run
  a handler of a module, which posts an event to its object.
\<close>

section \<open>Timers\<close>

text \<open>\<open>call\<close> is what calling a function pointer with an argument does.\<close>

definition timer_expired_handler :: "('h \<Rightarrow> 'a \<Rightarrow> 's \<Rightarrow> 's) \<Rightarrow> ('h, 'a) TimerArg \<Rightarrow> 's \<Rightarrow> 's" where
  "timer_expired_handler call timer_arg x = call (the (handler timer_arg)) (handler_arg timer_arg) x"

text \<open>The handlers of the program, by name, in the memory of the program. The argument is the object that
  registers the handler; any other would be taken for an object of a wrong type.\<close>

fun callback_owner :: "callback \<Rightarrow> u32" where
  "callback_owner Distance_timeout_handler = eAO_DISTANCE"
| "callback_owner Distance_uart_rx_complete_handler = eAO_DISTANCE"
| "callback_owner Gps_timeout_handler = eAO_GPS"
| "callback_owner Gps_uart_rx_complete_handler = eAO_GPS"
| "callback_owner Gps_config_step_done_handler = eAO_GPS"
| "callback_owner Servo_timeout_handler = eAO_SERVO"
| "callback_owner Scheduler_tick_handler = eAO_SCHEDULER"

definition with_distance :: "(distance_ao \<Rightarrow> os \<Rightarrow> eStatus \<times> distance_ao option \<times> os) \<Rightarrow> app \<Rightarrow> app" where
  "with_distance f w =
    (let (_, a, s) = f (m_distance (a_ddl w)) (a_os w) in w\<lparr>a_ddl := (a_ddl w)\<lparr>m_distance := the a\<rparr>, a_os := s\<rparr>)"

definition with_gps :: "(gps_ao \<Rightarrow> os \<Rightarrow> eStatus \<times> gps_ao option \<times> os) \<Rightarrow> app \<Rightarrow> app" where
  "with_gps f w =
    (let (_, a, s) = f (m_gps (a_ddl w)) (a_os w) in w\<lparr>a_ddl := (a_ddl w)\<lparr>m_gps := the a\<rparr>, a_os := s\<rparr>)"

definition with_servo :: "(servo_ao \<Rightarrow> os \<Rightarrow> eStatus \<times> servo_ao option \<times> os) \<Rightarrow> app \<Rightarrow> app" where
  "with_servo f w =
    (let (_, a, s) = f (m_servo (a_ddl w)) (a_os w) in w\<lparr>a_ddl := (a_ddl w)\<lparr>m_servo := the a\<rparr>, a_os := s\<rparr>)"

definition with_scheduler :: "(scheduler_ao \<Rightarrow> os \<Rightarrow> eStatus \<times> scheduler_ao option \<times> os) \<Rightarrow> app \<Rightarrow> app" where
  "with_scheduler f w = (let (_, a, s) = f (a_scheduler w) (a_os w) in w\<lparr>a_scheduler := the a, a_os := s\<rparr>)"

definition app_callback :: "callback \<Rightarrow> u32 \<Rightarrow> app \<Rightarrow> app" where
  "app_callback h arg w =
    (if arg \<noteq> callback_owner h then w\<lparr>a_os := (a_os w)\<lparr>os_ub := True\<rparr>\<rparr>
     else case h of
       Distance_timeout_handler \<Rightarrow> with_distance distance_timeout_handler w
     | Distance_uart_rx_complete_handler \<Rightarrow> with_distance distance_uart_rx_complete_handler w
     | Gps_timeout_handler \<Rightarrow> with_gps gps_timeout_handler w
     | Gps_uart_rx_complete_handler \<Rightarrow> with_gps gps_uart_rx_complete_handler w
     | Gps_config_step_done_handler \<Rightarrow> with_gps config_step_done_handler w
     | Servo_timeout_handler \<Rightarrow> with_servo servo_timeout_handler w
     | Scheduler_tick_handler \<Rightarrow> with_scheduler tick_handler w)"

text \<open>The event that a handler posts.\<close>

fun callback_event :: "callback \<Rightarrow> Event" where
  "callback_event Distance_timeout_handler = \<lparr>etype = eDISTANCE_EVENT_TIMEOUT\<rparr>"
| "callback_event Distance_uart_rx_complete_handler = \<lparr>etype = eDISTANCE_EVENT_FRAME_RECEIVED\<rparr>"
| "callback_event Gps_timeout_handler = \<lparr>etype = eGPS_EVENT_TIMEOUT\<rparr>"
| "callback_event Gps_uart_rx_complete_handler = \<lparr>etype = eGPS_EVENT_FRAME_RECEIVED\<rparr>"
| "callback_event Gps_config_step_done_handler = \<lparr>etype = eGPS_EVENT_CONFIGURED\<rparr>"
| "callback_event Servo_timeout_handler = \<lparr>etype = eSERVO_EVENT_ROTATION_TIMEOUT\<rparr>"
| "callback_event Scheduler_tick_handler = \<lparr>etype = eSCHEDULER_EVENT_TICK\<rparr>"

lemma app_wf_queues: "app_wf w \<Longrightarrow> queues_ok w (a_os w)"
  by (simp add: app_wf_def queues_ok_def queue_inv_def)

lemma module_counts:
  "\<not> eDLL_MODULE_COUNT \<le> eDDL_MODULE_DISTANCE" "\<not> eDLL_MODULE_COUNT \<le> eDDL_MODULE_SERVO"
  "\<not> eDLL_MODULE_COUNT \<le> eDDL_MODULE_GPS" "\<not> eAPP_MODULE_COUNT \<le> eAPP_MODULE_SCHEDULER"
  by (simp_all add: fsm_codes word_le_nat_alt)

text \<open>A handler does what the post function of its module does with that event.\<close>

fun callback_post :: "callback \<Rightarrow> post_fn \<times> u32" where
  "callback_post Scheduler_tick_handler = (App_post, eAPP_MODULE_SCHEDULER)"
| "callback_post Servo_timeout_handler = (Ddl_post, eDDL_MODULE_SERVO)"
| "callback_post h = (Ddl_post, if callback_owner h = eAO_DISTANCE then eDDL_MODULE_DISTANCE else eDDL_MODULE_GPS)"

lemma app_callback_post:
  "app_callback h (callback_owner h) w =
    (case call_post (fst (callback_post h)) (snd (callback_post h)) (callback_event h) w (a_os w) of
       (st, w', s) \<Rightarrow> w'\<lparr>a_os := s\<rparr>)"
  by (cases h; simp add: app_callback_def with_distance_def with_gps_def with_servo_def with_scheduler_def
      distance_timeout_handler_def distance_uart_rx_complete_handler_def gps_timeout_handler_def
      gps_uart_rx_complete_handler_def config_step_done_handler_def servo_timeout_handler_def tick_handler_def
      ddl_post_def ddl_module_post_cases ddl_distance_post_def ddl_gps_post_def ddl_servo_post_def app_post_def
      app_module_post_def app_scheduler_post_def module_counts Let_def case_prod_unfold)

lemma callback_post_target:
  "post_target (fst (callback_post h)) (snd (callback_post h)) = callback_owner h"
  "post_valid (fst (callback_post h)) (snd (callback_post h))"
  by (cases h; simp add: ddl_ao_id_def app_ao_id_def fsm_codes word_less_nat_alt)+

section \<open>Properties\<close>

text \<open>C15. A handler that another thread calls back, on the expiry of a timer or on the completion of a transfer,
  appends the event of its module to the queue of its module, behind the events already there, and
  touches no other queue; but when that queue is full, the event is lost, as the handlers ignore the
  status of the post.\<close>

lemma callbacks_post_events:
  assumes "app_wf w" and "handler timer_arg = Some h" and "handler_arg timer_arg = callback_owner h"
  shows "posted app_queue app_aos (callback_owner h) (callback_event h) w
      (timer_expired_handler app_callback timer_arg w) (a_os w) \<and>
    a_os (timer_expired_handler app_callback timer_arg w) = a_os w \<and>
    a_bus (timer_expired_handler app_callback timer_arg w) = a_bus w \<and>
    live_frame (a_ddl (timer_expired_handler app_callback timer_arg w)) = live_frame (a_ddl w)"
proof -
  obtain w' where c: "call_post (fst (callback_post h)) (snd (callback_post h)) (callback_event h) w (a_os w)
      = (post_status (app_queue (callback_owner h) w), w', a_os w)"
    and p: "posted app_queue app_aos (callback_owner h) (callback_event h) w w' (a_os w)" "same_rest w w'"
    using call_post_queue [OF app_wf_queues [OF assms(1)] callback_post_target(2), of h "callback_event h"]
    by (auto simp: callback_post_target(1))
  have os: "a_os w' = a_os w" using p(2) by (simp add: same_rest_def)
  have "timer_expired_handler app_callback timer_arg w = w'\<lparr>a_os := a_os w\<rparr>"
    using assms(2,3) c by (simp add: timer_expired_handler_def app_callback_post)
  also have "\<dots> = w'" using os by simp
  finally show ?thesis using p by (simp add: same_rest_def)
qed

lemma callbacks_post_events_witness:
  "\<exists>w. queue_list (app_queue eAO_GPS (timer_expired_handler app_callback
      \<lparr>handler = Some Gps_timeout_handler, handler_arg = eAO_GPS\<rparr> w)) = [\<lparr>etype = eGPS_EVENT_TIMEOUT\<rparr>]"
proof -
  obtain w where w: "app_wf w" "\<forall>ao\<in>set app_aos. queue_list (app_queue ao w) = [] \<and> queue_room (app_queue ao w)"
    using demo_app_running by (elim exE conjE) (rule that; assumption)
  have "eAO_GPS \<in> set app_aos" by (simp add: app_aos_def ddl_aos_def)
  then show ?thesis
    using callbacks_post_events [OF w(1), of "\<lparr>handler = Some Gps_timeout_handler, handler_arg = eAO_GPS\<rparr>" Gps_timeout_handler] w(2)
    by (intro exI [of _ w]) (simp add: posted_def queue_room_def)
qed

end
