(* ===== verification/QueueWait.thy ===== *)
theory QueueWait
  imports UtilQueue
begin

text \<open>
  Waiting for an event: \<^verbatim>\<open>util_queue_pop\<close> with its loop around \<^verbatim>\<open>osal_cond_wait\<close>, as a step relation of the
  thread that pops and of the threads that push. \<^verbatim>\<open>pthread_cond_wait\<close> releases the mutex and puts the thread
  to sleep on the condition in one step; a signal on that condition wakes it, or it wakes without one;
  then it takes the mutex again and returns. A signal on a condition on which nobody sleeps is lost.
  An event queue has one thread that pops, the one of its object.
\<close>

section \<open>Sleeping and waking\<close>

text \<open>The operating system, and the condition on which the thread that pops is asleep.\<close>

record sleeping =
  sl_os :: os
  sl_on :: "addr option"

definition sl_lock :: "addr \<Rightarrow> sleeping \<Rightarrow> sleeping" where
  "sl_lock m x = x\<lparr>sl_os := osal_mutex_lock m (sl_os x)\<rparr>"

definition sl_unlock :: "addr \<Rightarrow> sleeping \<Rightarrow> sleeping" where
  "sl_unlock m x = x\<lparr>sl_os := osal_mutex_unlock m (sl_os x)\<rparr>"

definition sl_signal :: "addr \<Rightarrow> sleeping \<Rightarrow> sleeping" where
  "sl_signal c x = x\<lparr>sl_os := osal_cond_signal c (sl_os x), sl_on := (if sl_on x = Some c then None else sl_on x)\<rparr>"

text \<open>The call up to the sleep; the rest of it is the step \<open>Wakes\<close> below.\<close>

definition osal_cond_wait :: "addr \<Rightarrow> addr \<Rightarrow> sleeping \<Rightarrow> sleeping" where
  "osal_cond_wait c m x = x\<lparr>sl_os := osal_mutex_unlock m (sl_os x), sl_on := Some c\<rparr>"

section \<open>The thread that pops\<close>

text \<open>Where the thread is in the function: before the lock, at the test of the loop with the mutex held, in
  \<^verbatim>\<open>osal_cond_wait\<close>, or back with an element.\<close>

datatype 'a pop_pc = Pop_entry | Pop_test | Pop_waiting | Pop_returned 'a

record 'a popping =
  pg_queue :: "'a Queue"
  pg_sleep :: sleeping
  pg_pc :: "'a pop_pc"

definition pop_start :: "'a Queue \<Rightarrow> os \<Rightarrow> 'a popping" where
  "pop_start q s = \<lparr>pg_queue = q, pg_sleep = \<lparr>sl_os = s, sl_on = None\<rparr>, pg_pc = Pop_entry\<rparr>"

text \<open>The mutex can be taken.\<close>

definition mutex_free :: "'a popping \<Rightarrow> bool" where
  "mutex_free p \<longleftrightarrow> q_mutex (pg_queue p) \<notin> set (os_held (sl_os (pg_sleep p)))"

text \<open>What follows the loop, with the mutex held.\<close>

definition pop_extract :: "'a popping \<Rightarrow> 'a popping" where
  "pop_extract p =
    (let q = pg_queue p;
         element = q_slots q ! unat (q_head q);
         q = q\<lparr>q_head := (q_head q + 1) mod q_capacity q\<rparr>;
         q = q\<lparr>q_size := q_size q - 1\<rparr>
     in \<lparr>pg_queue = q, pg_sleep = sl_unlock (q_mutex q) (pg_sleep p), pg_pc = Pop_returned (the element)\<rparr>)"

datatype 'a pop_label = Own | Spurious | Pushed 'a eStatus

inductive pop_step :: "'a popping \<Rightarrow> 'a pop_label \<Rightarrow> 'a popping \<Rightarrow> bool" where
  Enters: "pg_pc p = Pop_entry \<Longrightarrow> mutex_free p \<Longrightarrow>
    pop_step p Own (p\<lparr>pg_sleep := sl_lock (q_mutex (pg_queue p)) (pg_sleep p), pg_pc := Pop_test\<rparr>)"
| Sleeps: "pg_pc p = Pop_test \<Longrightarrow> q_size (pg_queue p) = 0 \<Longrightarrow>
    pop_step p Own (p\<lparr>pg_sleep := osal_cond_wait (q_not_empty (pg_queue p)) (q_mutex (pg_queue p)) (pg_sleep p),
      pg_pc := Pop_waiting\<rparr>)"
| Takes: "pg_pc p = Pop_test \<Longrightarrow> q_size (pg_queue p) \<noteq> 0 \<Longrightarrow> pop_step p Own (pop_extract p)"
| Wakes: "pg_pc p = Pop_waiting \<Longrightarrow> sl_on (pg_sleep p) = None \<Longrightarrow> mutex_free p \<Longrightarrow>
    pop_step p Own (p\<lparr>pg_sleep := sl_lock (q_mutex (pg_queue p)) (pg_sleep p), pg_pc := Pop_test\<rparr>)"
| Wakes_unsignalled: "pg_pc p = Pop_waiting \<Longrightarrow>
    pop_step p Spurious (p\<lparr>pg_sleep := (pg_sleep p)\<lparr>sl_on := None\<rparr>\<rparr>)"
| Pushes: "mutex_free p \<Longrightarrow>
    queue_push_code sl_lock sl_signal sl_unlock (Some (pg_queue p)) e (pg_sleep p) = (st, Some q, x) \<Longrightarrow>
    pop_step p (Pushed e st) (p\<lparr>pg_queue := q, pg_sleep := x\<rparr>)"

inductive pop_run :: "'a popping \<Rightarrow> 'a pop_label list \<Rightarrow> 'a popping \<Rightarrow> bool" where
  Stops: "pop_run p [] p"
| Goes: "pop_step p l p' \<Longrightarrow> pop_run p' ls p'' \<Longrightarrow> pop_run p (l # ls) p''"

inductive_cases pop_run_NilE: "pop_run p [] p'"

fun accepted_by :: "'a pop_label list \<Rightarrow> 'a list" where
  "accepted_by [] = []"
| "accepted_by (Pushed e st # ls) = (if failed st then accepted_by ls else e # accepted_by ls)"
| "accepted_by (_ # ls) = accepted_by ls"

section \<open>The invariant\<close>

text \<open>The thread has the mutex exactly at the test, it sleeps on the condition of the queue, and only while
  there is nothing in the queue.\<close>

definition pop_inv :: "os \<Rightarrow> 'a list \<Rightarrow> 'a popping \<Rightarrow> bool" where
  "pop_inv s xs p \<longleftrightarrow> queue_wf (pg_queue p) \<and> queue_usable (pg_queue p) s \<and>
    sl_os (pg_sleep p) = (if pg_pc p = Pop_test then osal_mutex_lock (q_mutex (pg_queue p)) s else s) \<and>
    (sl_on (pg_sleep p) \<noteq> None \<longrightarrow> pg_pc p = Pop_waiting \<and>
      sl_on (pg_sleep p) = Some (q_not_empty (pg_queue p)) \<and> queue_list (pg_queue p) = []) \<and>
    (case pg_pc p of Pop_returned e \<Rightarrow> xs = e # queue_list (pg_queue p) | _ \<Rightarrow> xs = queue_list (pg_queue p))"

lemma mutex_free_inv: "pop_inv s xs p \<Longrightarrow> mutex_free p \<longleftrightarrow> pg_pc p \<noteq> Pop_test"
  by (auto simp: pop_inv_def mutex_free_def queue_usable_def osal_mutex_lock_def)

text \<open>The push of another thread is the push of the library, and wakes whoever sleeps on the queue.\<close>

lemma push_code_sleeping:
  "queue_push_code sl_lock sl_signal sl_unlock (Some q) e \<lparr>sl_os = s, sl_on = w\<rparr> =
    (case util_queue_push (Some q) e s of (st, q', s') \<Rightarrow>
      (st, q', \<lparr>sl_os = s', sl_on = (if st = eSTATUS_SUCCESSFUL \<and> w = Some (q_not_empty q) then None else w)\<rparr>))"
  by (simp add: util_queue_push_unfold sl_lock_def sl_signal_def sl_unlock_def Let_def)

lemma push_keeps_blocks:
  "util_queue_push (Some q) e s = (st, Some q', s') \<Longrightarrow> q_mutex q' = q_mutex q \<and> q_not_empty q' = q_not_empty q"
  by (auto simp: util_queue_push_unfold Let_def split: if_splits)

lemma pop_extract_takes:
  assumes "queue_wf q" and "queue_usable q s" and "q_size q \<noteq> 0"
  shows "\<exists>y q'. util_queue_pop (Some q) (Some None) s = Some (eSTATUS_SUCCESSFUL, Some (Some y), Some q', s) \<and>
    pop_extract \<lparr>pg_queue = q, pg_sleep = \<lparr>sl_os = osal_mutex_lock (q_mutex q) s, sl_on = None\<rparr>, pg_pc = Pop_test\<rparr> =
      \<lparr>pg_queue = q', pg_sleep = \<lparr>sl_os = s, sl_on = None\<rparr>, pg_pc = Pop_returned y\<rparr> \<and>
    queue_wf q' \<and> queue_list q = y # queue_list q' \<and> queue_usable q' s"
proof -
  obtain y ys where l: "queue_list q = y # ys" using assms(3) queue_list_empty_iff by (metis list.exhaust)
  obtain q' where q': "util_queue_pop (Some q) (Some None) s = Some (eSTATUS_SUCCESSFUL, Some (Some y), Some q', s)"
    "queue_wf q'" "queue_list q' = ys" "queue_usable q' s"
    using util_queue_pop_some [OF assms(1,2) l] assms(2) by blast
  have "pop_extract \<lparr>pg_queue = q, pg_sleep = \<lparr>sl_os = osal_mutex_lock (q_mutex q) s, sl_on = None\<rparr>, pg_pc = Pop_test\<rparr> =
      \<lparr>pg_queue = q', pg_sleep = \<lparr>sl_os = s, sl_on = None\<rparr>, pg_pc = Pop_returned y\<rparr>"
    using q'(1) assms(1,3) by (auto simp: util_queue_pop_def pop_extract_def queue_wf_def sl_unlock_def Let_def)
  then show ?thesis using q' l by auto
qed

lemma pop_step_inv:
  assumes "pop_step p l p'" and "pop_inv s xs p"
  shows "pop_inv s (xs @ accepted_by [l]) p'"
  using assms
proof (cases rule: pop_step.cases)
  case Takes
  have p: "p = \<lparr>pg_queue = pg_queue p, pg_sleep = \<lparr>sl_os = osal_mutex_lock (q_mutex (pg_queue p)) s, sl_on = None\<rparr>,
      pg_pc = Pop_test\<rparr>"
    using assms(2) Takes(3) by (cases p; cases "pg_sleep p") (auto simp: pop_inv_def)
  have "queue_wf (pg_queue p)" "queue_usable (pg_queue p) s" "xs = queue_list (pg_queue p)"
    using assms(2) Takes(3) by (simp_all add: pop_inv_def)
  then show ?thesis using pop_extract_takes [of "pg_queue p" s] Takes p by (auto simp: pop_inv_def)
next
  case (Pushes e st q x)
  have pc: "pg_pc p \<noteq> Pop_test" using Pushes(3) mutex_free_inv [OF assms(2)] by simp
  have i: "queue_wf (pg_queue p)" "queue_usable (pg_queue p) s" using assms(2) by (simp_all add: pop_inv_def)
  obtain w where w: "pg_sleep p = \<lparr>sl_os = s, sl_on = w\<rparr>"
    using assms(2) pc by (cases "pg_sleep p") (auto simp: pop_inv_def)
  obtain s' where u: "util_queue_push (Some (pg_queue p)) e s = (st, Some q, s')"
    "x = \<lparr>sl_os = s', sl_on = (if st = eSTATUS_SUCCESSFUL \<and> w = Some (q_not_empty (pg_queue p)) then None else w)\<rparr>"
    using Pushes(4) by (auto simp: w push_code_sleeping split: prod.splits)
  note b = push_keeps_blocks [OF u(1)]
  show ?thesis
  proof (cases "q_size (pg_queue p) = q_capacity (pg_queue p)")
    case True
    then have "st = eSTATUS_ACTION_FAILED" "q = pg_queue p" "s' = s"
      using util_queue_push_full [OF i] u(1) by auto
    then show ?thesis using assms(2) Pushes u(2) w by (auto simp: pop_inv_def split: pop_pc.splits)
  next
    case False
    then have q: "st = eSTATUS_SUCCESSFUL" "s' = s" "queue_wf q" "queue_list q = queue_list (pg_queue p) @ [e]"
      "queue_usable q s"
      using util_queue_push_room [OF i False, of e] u(1) i(2) by auto
    have "w = None \<or> w = Some (q_not_empty (pg_queue p))" using assms(2) w by (auto simp: pop_inv_def)
    then have "sl_on x = None" "sl_os x = s" using u(2) q(1,2) by auto
    then show ?thesis
      using assms(2) Pushes(1,2) q(1,3-5) pc by (cases "pg_pc p") (simp_all add: pop_inv_def)
  qed
qed (auto simp: pop_inv_def sl_lock_def osal_cond_wait_def queue_list_empty_iff lock_unlock_usable(2))

lemma pop_run_inv: "pop_run p ls p' \<Longrightarrow> pop_inv s xs p \<Longrightarrow> pop_inv s (xs @ accepted_by ls) p'"
proof (induction arbitrary: xs rule: pop_run.induct)
  case (Goes p l p' ls p'')
  have "accepted_by (l # ls) = accepted_by [l] @ accepted_by ls" by (cases l) simp_all
  then show ?case using Goes.IH [OF pop_step_inv [OF Goes.hyps(1) Goes.prems]] by simp
qed simp

text \<open>A thread that finds something in the queue returns with it after at most two steps of its own.\<close>

lemma pop_test_takes:
  assumes "pop_inv s xs p" and "pg_pc p = Pop_test" and "queue_list (pg_queue p) \<noteq> []"
  shows "pop_run p [Own] (pop_extract p) \<and> pg_pc (pop_extract p) = Pop_returned (hd (queue_list (pg_queue p)))"
proof -
  have step: "pop_step p Own (pop_extract p)"
    using assms(2,3) by (intro pop_step.Takes) (auto simp: queue_list_empty_iff)
  have "xs = queue_list (pg_queue p)" using assms(1,2) by (simp add: pop_inv_def)
  then have "pg_pc (pop_extract p) = Pop_returned (hd (queue_list (pg_queue p)))"
    using pop_step_inv [OF step assms(1)] by (auto simp: pop_inv_def pop_extract_def Let_def)
  then show ?thesis using step by (auto intro: pop_run.intros)
qed

lemma pop_can_return:
  assumes "pop_inv s xs p" and "queue_list (pg_queue p) \<noteq> []" and "\<forall>e. pg_pc p \<noteq> Pop_returned e"
  shows "\<exists>k p'. k \<le> 2 \<and> pop_run p (replicate k Own) p' \<and> pg_pc p' = Pop_returned (hd (queue_list (pg_queue p)))"
proof (cases "pg_pc p = Pop_test")
  case True
  then show ?thesis using pop_test_takes [OF assms(1) True assms(2)]
    by (intro exI [of _ 1] exI [of _ "pop_extract p"]) simp
next
  case False
  let ?p = "p\<lparr>pg_sleep := sl_lock (q_mutex (pg_queue p)) (pg_sleep p), pg_pc := Pop_test\<rparr>"
  have "sl_on (pg_sleep p) = None" using assms(1,2) by (auto simp: pop_inv_def)
  moreover have "mutex_free p" using mutex_free_inv [OF assms(1)] False by simp
  moreover have "pg_pc p = Pop_entry \<or> pg_pc p = Pop_waiting" using False assms(3) by (cases "pg_pc p") auto
  ultimately have step: "pop_step p Own ?p" by (auto intro: pop_step.intros)
  then have "pop_inv s xs ?p" using pop_step_inv [OF step assms(1)] by simp
  from pop_test_takes [OF this] assms(2) show ?thesis
    using step by (intro exI [of _ 2] exI [of _ "pop_extract ?p"]) (auto simp: numeral_2_eq_2 intro: pop_run.intros)
qed

section \<open>Properties\<close>

text \<open>C14. No wake-up is lost and none is needed twice: a thread pops while other threads push, in any
  interleaving, and wakes from its wait when the condition of the queue is signalled or without a
  signal. Whenever it is asleep the queue is empty; when it returns, it has taken the oldest element,
  and nothing else has left the queue; and whenever something is in the queue and it has not returned,
  it needs at most two steps of its own to return with the oldest element.\<close>

lemma pop_no_lost_wakeup:
  assumes "queue_wf q" and "queue_usable q s" and "pop_run (pop_start q s) ls p"
  shows "(sl_on (pg_sleep p) \<noteq> None \<longrightarrow> queue_list (pg_queue p) = []) \<and>
    queue_list q @ accepted_by ls =
      (case pg_pc p of Pop_returned e \<Rightarrow> e # queue_list (pg_queue p) | _ \<Rightarrow> queue_list (pg_queue p)) \<and>
    (queue_list (pg_queue p) = [] \<or> (\<exists>e. pg_pc p = Pop_returned e) \<or>
      (\<exists>k p'. k \<le> 2 \<and> pop_run p (replicate k Own) p' \<and>
        pg_pc p' = Pop_returned (hd (queue_list (pg_queue p)))))"
proof -
  have "pop_inv s (queue_list q) (pop_start q s)" using assms(1,2) by (simp add: pop_inv_def pop_start_def)
  from pop_run_inv [OF assms(3) this] have i: "pop_inv s (queue_list q @ accepted_by ls) p" .
  then show ?thesis using pop_can_return [OF i] by (auto simp: pop_inv_def split: pop_pc.splits)
qed

lemma pop_no_lost_wakeup_witness:
  "\<exists>p p' k. pop_run (pop_start demo_queue demo_os) [Own, Own, Spurious, Own, Own, Pushed 7 eSTATUS_SUCCESSFUL] p \<and>
     pop_run p (replicate k Own) p' \<and> pg_pc p' = Pop_returned 7"
proof -
  note steps = pop_start_def mutex_free_def sl_lock_def osal_cond_wait_def demo_queue_def demo_os_def boot_os_def
    osal_defs
  let ?ls = "[Own, Own, Spurious, Own, Own, Pushed 7 eSTATUS_SUCCESSFUL]"
  have "\<exists>p. pop_run (pop_start demo_queue demo_os) ?ls p"
    apply (rule exI)
    apply (rule pop_run.Goes, rule pop_step.Enters, simp add: steps, simp add: steps)
    apply (rule pop_run.Goes, rule pop_step.Sleeps, simp, simp add: steps)
    apply (rule pop_run.Goes, rule pop_step.Wakes_unsignalled, simp)
    apply (rule pop_run.Goes, rule pop_step.Wakes, simp, simp, simp add: steps)
    apply (rule pop_run.Goes, rule pop_step.Sleeps, simp, simp add: steps)
    apply (rule pop_run.Goes, rule pop_step.Pushes, simp add: steps)
     apply (simp add: steps queue_push_code_def sl_signal_def sl_unlock_def Let_def)
    apply (rule pop_run.Stops)
    done
  then obtain p where p: "pop_run (pop_start demo_queue demo_os) ?ls p" by blast
  have "queue_list demo_queue = []" by (simp add: queue_list_def demo_queue_def)
  note facts = pop_no_lost_wakeup [OF demo_queue_ok p, unfolded this, simplified]
  have "\<exists>k p'. pop_run p (replicate k Own) p' \<and> pg_pc p' = Pop_returned 7"
  proof (cases "\<exists>e. pg_pc p = Pop_returned e")
    case True
    then have "pg_pc p = Pop_returned 7" using facts by auto
    then show ?thesis by (intro exI [of _ 0] exI [of _ p]) (simp add: pop_run.Stops)
  next
    case False
    then have l: "queue_list (pg_queue p) = [7]" using facts by (auto split: pop_pc.splits)
    show ?thesis using facts False by (auto simp: l)
  qed
  with p show ?thesis by blast
qed

end
