(* ===== verification/HalUartOld.thy ===== *)
theory HalUartOld
  imports HalUart TransferLoop
begin

text \<open>
  The first UART driver, \<^verbatim>\<open>src/hal_uart_old.c\<close>: blocking reads and writes, which the driver of \<open>HalUart\<close>
  replaced and which some of the experiments use. Its status codes come from a header that the
  repository no longer has; the ones that the functions return are constructors here, under the names
  of \<^verbatim>\<open>hal_uart_old.h\<close>.

  What \<^verbatim>\<open>read\<close> and \<^verbatim>\<open>write\<close> answer is a parameter, as everywhere: a number of bytes, or minus the error
  number. \<open>o_line fd\<close> is the stream of bytes that arrive at a descriptor, \<open>o_taken fd\<close> how many of them
  have been read, and \<open>o_sent fd\<close> what has been written to it.
\<close>

section \<open>State\<close>

datatype eHALReturnValue =
    eRETURN_SUCCESS
  | eRETURN_INVALID_DEVICE
  | eRETURN_NULL_PARAMETER
  | eRETURN_DEVICE_ERROR

record OldUARTDevice =
  o_path :: string
  o_fd :: int
  o_baud :: u32
  o_word_size :: u32
  o_stop_bits :: u16
  o_parity :: u16

record old_uart =
  o_devices :: "OldUARTDevice list"
  o_open_fds :: "int list"
  o_settings :: "int \<Rightarrow> termios option"
  o_line :: "int \<Rightarrow> nat \<Rightarrow> u8"
  o_taken :: "int \<Rightarrow> nat"
  o_sent :: "int \<Rightarrow> u8 list"

definition old_uart_device :: "string \<Rightarrow> OldUARTDevice" where
  "old_uart_device path = \<lparr>o_path = path, o_fd = - 1, o_baud = eBAUD9600, o_word_size = e8BITS_PER_BYTE,
     o_stop_bits = eSINGLE_STOP_BIT, o_parity = eNO_PARITY_BIT\<rparr>"

definition static_old_uart :: "(int \<Rightarrow> nat \<Rightarrow> u8) \<Rightarrow> old_uart" where
  "static_old_uart line = \<lparr>o_devices = [old_uart_device ''/dev/ttyAMA0'', old_uart_device ''/dev/ttyAMA1'',
     old_uart_device ''/dev/ttyAMA2''], o_open_fds = [], o_settings = (\<lambda>_. None), o_line = line,
     o_taken = (\<lambda>_. 0), o_sent = (\<lambda>_. [])\<rparr>"

definition EINTR :: int where "EINTR = 4"
definition EAGAIN :: int where "EAGAIN = 11"

section \<open>Initialisation\<close>

text \<open>The settings of a device. \<^verbatim>\<open>c_cc\<close> is left zero, so a read does not wait for a byte.\<close>

definition old_uart_termios :: "OldUARTDevice \<Rightarrow> termios" where
  "old_uart_termios dev =
    (let t = \<lparr>c_iflag = 0, c_cflag = CLOCAL OR CREAD, c_vmin = 0, c_vtime = 0, c_speed = 0\<rparr>;
         t = t\<lparr>c_cflag := c_cflag t OR word_size_options ! unat (o_word_size dev)\<rparr>;
         t = (if o_stop_bits dev = eSINGLE_STOP_BIT
              then t\<lparr>c_cflag := c_cflag t AND NOT CSTOPB\<rparr>
              else t\<lparr>c_cflag := c_cflag t OR CSTOPB\<rparr>)
     in if o_parity dev = eNO_PARITY_BIT
        then (let t = t\<lparr>c_cflag := c_cflag t AND NOT PARENB\<rparr>
              in t\<lparr>c_iflag := c_iflag t AND NOT INPCK\<rparr>)
        else (let t = t\<lparr>c_cflag := c_cflag t OR PARENB\<rparr>;
                  t = (if o_parity dev = eEVEN_PARITY_BIT
                       then t\<lparr>c_cflag := c_cflag t AND NOT PARODD\<rparr>
                       else t\<lparr>c_cflag := c_cflag t OR PARODD\<rparr>);
                  t = t\<lparr>c_iflag := c_iflag t OR INPCK\<rparr>
              in t\<lparr>c_iflag := c_iflag t OR IGNPAR\<rparr>))"

text \<open>The body of the loop, for one device.\<close>

definition old_uart_setup_device :: "nat \<Rightarrow> old_uart \<Rightarrow> os \<Rightarrow> eHALReturnValue \<times> old_uart \<times> os" where
  "old_uart_setup_device d u s =
    (let dev = o_devices u ! d;
         t = old_uart_termios dev;
         speed = baud_options ! unat (o_baud dev);
         (r1, s) = ask s
     in if r1 < 0 then (eRETURN_DEVICE_ERROR, u, s)
        else let (r2, s) = ask s
     in if r2 < 0 then (eRETURN_DEVICE_ERROR, u, s)
        else let t = t\<lparr>c_speed := speed\<rparr>;
                 (fd, s) = ask s;
                 u = u\<lparr>o_devices := (o_devices u)[d := dev\<lparr>o_fd := fd\<rparr>]\<rparr>
     in if fd < 0 then (eRETURN_DEVICE_ERROR, u, s)
        else let u = u\<lparr>o_open_fds := fd # o_open_fds u\<rparr>;
                 (tty, s) = ask s
     in if tty = 0 then (eRETURN_DEVICE_ERROR, u\<lparr>o_open_fds := remove1 fd (o_open_fds u)\<rparr>, s)
        else let (r3, s) = ask s
     in if r3 \<noteq> 0 then (eRETURN_DEVICE_ERROR, u, s)
        else (eRETURN_SUCCESS, u\<lparr>o_settings := (o_settings u)(fd \<mapsto> t)\<rparr>, s))"

fun old_uart_setup_devices :: "nat list \<Rightarrow> old_uart \<Rightarrow> os \<Rightarrow> eHALReturnValue \<times> old_uart \<times> os" where
  "old_uart_setup_devices [] u s = (eRETURN_SUCCESS, u, s)"
| "old_uart_setup_devices (d # ds) u s =
    (case old_uart_setup_device d u s of
       (st, u, s) \<Rightarrow> if st \<noteq> eRETURN_SUCCESS then (st, u, s) else old_uart_setup_devices ds u s)"

definition old_hal_uart_init :: "old_uart \<Rightarrow> os \<Rightarrow> eHALReturnValue \<times> old_uart \<times> os" where
  "old_hal_uart_init u s = old_uart_setup_devices [0..<unat eUART_DEVICE_COUNT] u s"

section \<open>Reading and writing\<close>

text \<open>The errors after which both loops try again; \<^verbatim>\<open>EWOULDBLOCK\<close> is \<^verbatim>\<open>EAGAIN\<close> here.\<close>

definition uart_again :: "int \<Rightarrow> bool" where
  "uart_again r \<longleftrightarrow> r = - EINTR \<or> r = - EAGAIN"

definition line_bytes :: "int \<Rightarrow> nat \<Rightarrow> old_uart \<Rightarrow> u8 list" where
  "line_bytes fd n u = map (\<lambda>i. o_line u fd (o_taken u fd + i)) [0..<n]"

text \<open>\<^verbatim>\<open>read\<close> of what is missing of \<open>num\<close> bytes into the buffer from index \<open>k\<close> on.\<close>

definition old_read_call ::
    "int \<Rightarrow> nat \<Rightarrow> nat \<Rightarrow> u8 list \<times> old_uart \<times> os \<Rightarrow> int \<times> u8 list \<times> old_uart \<times> os" where
  "old_read_call fd num k x =
    (let (buf, u, s) = x;
         (r, s) = ask s
     in if r < 0 then (r, buf, u, s)
        else let n = min (nat r) (num - k)
             in (int n, take k buf @ line_bytes fd n u @ drop (k + n) buf,
                 u\<lparr>o_taken := (o_taken u)(fd := o_taken u fd + n)\<rparr>,
                 if length buf < k + n then s\<lparr>os_ub := True\<rparr> else s))"

definition old_hal_uart_read ::
    "u32 \<Rightarrow> u8 list option \<Rightarrow> u64 \<Rightarrow> old_uart \<Rightarrow> os
      \<Rightarrow> (eHALReturnValue \<times> u8 list option \<times> old_uart \<times> os) option" where
  "old_hal_uart_read device_index buffer num_bytes u s =
    (if eUART_DEVICE_COUNT \<le> device_index then Some (eRETURN_INVALID_DEVICE, buffer, u, s)
     else case buffer of
            None \<Rightarrow> Some (eRETURN_NULL_PARAMETER, buffer, u, s)
          | Some buf \<Rightarrow>
             map_option (\<lambda>(st, buf, u, s). (st, Some buf, u, s))
               (transfer (unat num_bytes)
                 (old_read_call (o_fd (o_devices u ! unat device_index)) (unat num_bytes))
                 uart_again eRETURN_SUCCESS eRETURN_DEVICE_ERROR 0 (buf, u, s)))"

text \<open>\<^verbatim>\<open>write\<close> of what is left of \<open>num\<close> bytes of the buffer, from index \<open>k\<close> on.\<close>

definition old_write_call :: "int \<Rightarrow> u8 list \<Rightarrow> nat \<Rightarrow> nat \<Rightarrow> old_uart \<times> os \<Rightarrow> int \<times> old_uart \<times> os" where
  "old_write_call fd buf num k x =
    (let (u, s) = x;
         (r, s) = ask s
     in if r < 0 then (r, u, s)
        else let n = min (nat r) (num - k)
             in (int n, u\<lparr>o_sent := (o_sent u)(fd := o_sent u fd @ take n (drop k buf))\<rparr>,
                 if length buf < k + n then s\<lparr>os_ub := True\<rparr> else s))"

definition old_hal_uart_write ::
    "u32 \<Rightarrow> u8 list option \<Rightarrow> u64 \<Rightarrow> old_uart \<Rightarrow> os \<Rightarrow> (eHALReturnValue \<times> old_uart \<times> os) option" where
  "old_hal_uart_write device_index buffer num_bytes u s =
    (if eUART_DEVICE_COUNT \<le> device_index then Some (eRETURN_INVALID_DEVICE, u, s)
     else case buffer of
            None \<Rightarrow> Some (eRETURN_NULL_PARAMETER, u, s)
          | Some buf \<Rightarrow>
             transfer (unat num_bytes)
               (old_write_call (o_fd (o_devices u ! unat device_index)) buf (unat num_bytes))
               uart_again eRETURN_SUCCESS eRETURN_INVALID_DEVICE 0 (u, s))"

section \<open>The contract of the loops\<close>

text \<open>As for a socket: a line that moves, or fails for good, at least once in any \<open>m\<close> calls.\<close>

definition idle :: "int set" where
  "idle = {0, - EINTR, - EAGAIN}"

definition line_moves :: "nat \<Rightarrow> os \<Rightarrow> bool" where
  "line_moves m s \<longleftrightarrow> (\<forall>k. \<exists>j\<le>m. os_answers s (k + j) \<notin> idle)"

definition line_next :: "nat \<Rightarrow> os \<Rightarrow> bool" where
  "line_next m s \<longleftrightarrow> (\<exists>l. line_moves l s) \<and> (\<exists>j\<le>m. os_answers s (os_asked s + j) \<notin> idle)"

definition line_idle :: "os \<Rightarrow> bool" where
  "line_idle s \<longleftrightarrow> (\<forall>i. os_answers s i \<in> idle)"

lemma line_next_exists: "line_moves m s \<Longrightarrow> \<exists>m. line_next m s"
  unfolding line_next_def line_moves_def by blast

text \<open>A call that asks once, with the number of bytes in range.\<close>

definition one_call :: "nat \<Rightarrow> int \<Rightarrow> os \<Rightarrow> os \<Rightarrow> bool" where
  "one_call left n s s' \<longleftrightarrow> os_answers s' = os_answers s \<and> os_asked s' = Suc (os_asked s) \<and>
    (if os_answers s (os_asked s) < 0 then n = os_answers s (os_asked s)
     else n = min (os_answers s (os_asked s)) (int left))"

lemma one_call_idle:
  assumes "one_call left n s s'" and "0 < left"
  shows "n = 0 \<or> n < 0 \<and> uart_again n \<longleftrightarrow> os_answers s (os_asked s) \<in> idle"
  using assms by (auto simp: one_call_def idle_def uart_again_def EINTR_def EAGAIN_def min_def split: if_splits)

lemma one_call_waits:
  assumes "one_call left n s s'" and "0 < left" and "line_next m s" and "n = 0 \<or> n < 0 \<and> uart_again n"
  shows "0 < m \<and> line_next (m - 1) s'"
proof -
  obtain j l where j: "j \<le> m" "os_answers s (os_asked s + j) \<notin> idle" "line_moves l s"
    using assms(3) by (auto simp: line_next_def)
  have "os_answers s (os_asked s) \<in> idle" using one_call_idle [OF assms(1,2)] assms(4) by simp
  then have "j \<noteq> 0" using j(2) by (cases j) auto
  then obtain i where i: "j = Suc i" by (cases j) auto
  have "line_moves l s'" using j(3) assms(1) by (simp add: line_moves_def one_call_def)
  moreover have "i \<le> m - 1" "os_answers s' (os_asked s' + i) \<notin> idle"
    using j i assms(1) by (simp_all add: one_call_def)
  ultimately show ?thesis using j(1) i by (auto simp only: line_next_def)
qed

lemma one_call_goes: "one_call left n s s' \<Longrightarrow> line_next m s \<Longrightarrow> \<exists>m'. line_next m' s'"
proof -
  assume "one_call left n s s'" and "line_next m s"
  then obtain l where "line_moves l s'" by (auto simp: line_next_def line_moves_def one_call_def)
  then show ?thesis by (rule line_next_exists)
qed

lemma one_call_dead:
  "one_call left n s s' \<Longrightarrow> 0 < left \<Longrightarrow> line_idle s \<Longrightarrow> (n = 0 \<or> n < 0 \<and> uart_again n) \<and> line_idle s'"
  using one_call_idle by (auto simp: line_idle_def one_call_def)

text \<open>What a read has put into the buffer from index \<open>k\<close> on, and a write on the line.\<close>

definition has_read :: "int \<Rightarrow> nat \<Rightarrow> nat \<Rightarrow> u8 list \<times> old_uart \<times> os \<Rightarrow> u8 list \<times> old_uart \<times> os \<Rightarrow> bool" where
  "has_read fd k j x x' \<longleftrightarrow> (case (x, x') of ((buf, u, s), (buf', u', s')) \<Rightarrow>
     k + j \<le> length buf \<longrightarrow> buf' = take k buf @ line_bytes fd j u @ drop (k + j) buf \<and>
       u' = u\<lparr>o_taken := (o_taken u)(fd := o_taken u fd + j)\<rparr> \<and> os_ub s' = os_ub s)"

definition has_written ::
    "int \<Rightarrow> u8 list \<Rightarrow> nat \<Rightarrow> nat \<Rightarrow> old_uart \<times> os \<Rightarrow> old_uart \<times> os \<Rightarrow> bool" where
  "has_written fd buf k j x x' \<longleftrightarrow> (case (x, x') of ((u, s), (u', s')) \<Rightarrow>
     u' = u\<lparr>o_sent := (o_sent u)(fd := o_sent u fd @ take j (drop k buf))\<rparr> \<and>
     (k + j \<le> length buf \<longrightarrow> os_ub s' = os_ub s))"

lemma line_bytes_add:
  "line_bytes fd (i + j) u = line_bytes fd i u @ line_bytes fd j (u\<lparr>o_taken := (o_taken u)(fd := o_taken u fd + i)\<rparr>)"
  by (rule nth_equalityI) (auto simp: line_bytes_def nth_append)

lemma line_bytes_length [simp]: "length (line_bytes fd n u) = n"
  by (simp add: line_bytes_def)

lemma old_read_call_one:
  assumes "old_read_call fd num k x = (n, x')"
  shows "one_call (num - k) n (snd (snd x)) (snd (snd x'))"
    "n < 0 \<Longrightarrow> has_read fd k 0 x x'" "0 \<le> n \<Longrightarrow> nat n \<le> num - k \<and> has_read fd k (nat n) x x'"
proof -
  obtain buf u s where x: "x = (buf, u, s)" by (cases x) auto
  show "n < 0 \<Longrightarrow> has_read fd k 0 x x'" "0 \<le> n \<Longrightarrow> nat n \<le> num - k \<and> has_read fd k (nat n) x x'"
    using assms by (auto simp: x old_read_call_def has_read_def ask_def line_bytes_def Let_def split: if_splits)
  have a: "os_answers (snd (snd x')) = os_answers s" "os_asked (snd (snd x')) = Suc (os_asked s)"
    "n = (if os_answers s (os_asked s) < 0 then os_answers s (os_asked s)
          else int (min (nat (os_answers s (os_asked s))) (num - k)))"
    using assms by (auto simp: x old_read_call_def ask_def Let_def split: if_splits)
  show "one_call (num - k) n (snd (snd x)) (snd (snd x'))"
    unfolding one_call_def a(1,2) by (auto simp: x a(3) min_def)
qed

lemma old_write_call_one:
  assumes "old_write_call fd buf num k x = (n, x')"
  shows "one_call (num - k) n (snd x) (snd x')"
    "n < 0 \<Longrightarrow> has_written fd buf k 0 x x'" "0 \<le> n \<Longrightarrow> nat n \<le> num - k \<and> has_written fd buf k (nat n) x x'"
proof -
  obtain u s where x: "x = (u, s)" by (cases x) auto
  show "n < 0 \<Longrightarrow> has_written fd buf k 0 x x'" "0 \<le> n \<Longrightarrow> nat n \<le> num - k \<and> has_written fd buf k (nat n) x x'"
    using assms by (auto simp: x old_write_call_def has_written_def ask_def Let_def split: if_splits)
  have a: "os_answers (snd x') = os_answers s" "os_asked (snd x') = Suc (os_asked s)"
    "n = (if os_answers s (os_asked s) < 0 then os_answers s (os_asked s)
          else int (min (nat (os_answers s (os_asked s))) (num - k)))"
    using assms by (auto simp: x old_write_call_def ask_def Let_def split: if_splits)
  show "one_call (num - k) n (snd x) (snd x')"
    unfolding one_call_def a(1,2) by (auto simp: x a(3) min_def)
qed

interpretation rd: transfer_call num "old_read_call fd num" uart_again "has_read fd"
    "\<lambda>m x. line_next m (snd (snd x))" "\<lambda>x. line_idle (snd (snd x))"
  for fd num
proof (unfold_locales, goal_cases)
  case (1 k x)
  then show ?case by (auto simp: has_read_def line_bytes_def split: prod.split)
next
  case (2 k i x x' j x'')
  then show ?case
    by (auto simp: has_read_def line_bytes_add ac_simps split: prod.splits)
next
  case (3 k x n x')
  then show ?case using old_read_call_one(2) by blast
next
  case (4 k x n x')
  then show ?case using old_read_call_one(3) by blast
next
  case (5 k x n x' m)
  then show ?case using one_call_waits [OF old_read_call_one(1) [OF 5(2)]] by simp
next
  case (6 k x n x' m)
  then show ?case using one_call_goes [OF old_read_call_one(1) [OF 6(2)]] by simp
next
  case (7 k x n x')
  then show ?case using one_call_dead [OF old_read_call_one(1) [OF 7(2)]] by simp
qed

interpretation wr: transfer_call num "old_write_call fd buf num" uart_again "has_written fd buf"
    "\<lambda>m x. line_next m (snd x)" "\<lambda>x. line_idle (snd x)"
  for fd buf num
proof (unfold_locales, goal_cases)
  case (1 k x)
  then show ?case by (auto simp: has_written_def split: prod.split)
next
  case (2 k i x x' j x'')
  have "take (i + j) (drop k buf) = take i (drop k buf) @ take j (drop (k + i) buf)"
    by (simp only: take_add drop_drop add.commute [of k i])
  with 2 show ?case by (auto simp: has_written_def add.assoc split: prod.splits)
next
  case (3 k x n x')
  then show ?case using old_write_call_one(2) by blast
next
  case (4 k x n x')
  then show ?case using old_write_call_one(3) by blast
next
  case (5 k x n x' m)
  then show ?case using one_call_waits [OF old_write_call_one(1) [OF 5(2)]] by simp
next
  case (6 k x n x' m)
  then show ?case using one_call_goes [OF old_write_call_one(1) [OF 6(2)]] by simp
next
  case (7 k x n x')
  then show ?case using one_call_dead [OF old_write_call_one(1) [OF 7(2)]] by simp
qed

section \<open>Results\<close>

abbreviation old_fd :: "u32 \<Rightarrow> old_uart \<Rightarrow> int" where
  "old_fd d u \<equiv> o_fd (o_devices u ! unat d)"

lemma old_read_unfold:
  "d < eUART_DEVICE_COUNT \<Longrightarrow> old_hal_uart_read d (Some buf) n u s =
    map_option (\<lambda>(st, buf, u, s). (st, Some buf, u, s))
      (transfer (unat n) (old_read_call (old_fd d u) (unat n)) uart_again
        eRETURN_SUCCESS eRETURN_DEVICE_ERROR 0 (buf, u, s))"
  by (auto simp: old_hal_uart_read_def dest: leD)

lemma old_write_unfold:
  "d < eUART_DEVICE_COUNT \<Longrightarrow> old_hal_uart_write d (Some buf) n u s =
    transfer (unat n) (old_write_call (old_fd d u) buf (unat n)) uart_again
      eRETURN_SUCCESS eRETURN_INVALID_DEVICE 0 (u, s)"
  by (auto simp: old_hal_uart_write_def dest: leD)

lemma old_read_result:
  assumes "d < eUART_DEVICE_COUNT" and "length buf = unat n"
    and "old_hal_uart_read d (Some buf) n u s = Some (st, buf', u', s')"
  shows "\<exists>j. buf' = Some (line_bytes (old_fd d u) j u @ drop j buf) \<and>
    u' = u\<lparr>o_taken := (o_taken u)(old_fd d u := o_taken u (old_fd d u) + j)\<rparr> \<and> os_ub s' = os_ub s \<and>
    (st = eRETURN_SUCCESS \<and> j = unat n \<or> st = eRETURN_DEVICE_ERROR \<and> j < unat n)"
proof -
  obtain b where b: "buf' = Some b" "transfer (unat n) (old_read_call (old_fd d u) (unat n)) uart_again
      eRETURN_SUCCESS eRETURN_DEVICE_ERROR 0 (buf, u, s) = Some (st, b, u', s')"
    using assms(3) by (auto simp: old_read_unfold [OF assms(1)])
  from rd.transfer_moved [OF b(2)] show ?thesis
    using b(1) assms(2) by (auto simp: has_read_def)
qed

lemma old_read_returns:
  "d < eUART_DEVICE_COUNT \<Longrightarrow> line_moves m s \<Longrightarrow> \<exists>x. old_hal_uart_read d (Some buf) n u s = Some x"
  using line_next_exists [of m s] rd.transfer_returns [of _ "(buf, u, s)"]
  by (fastforce simp: old_read_unfold)

lemma old_read_blocks:
  "d < eUART_DEVICE_COUNT \<Longrightarrow> line_idle s \<Longrightarrow> n \<noteq> 0 \<Longrightarrow> old_hal_uart_read d (Some buf) n u s = None"
  using rd.transfer_blocks [of "(buf, u, s)" 0 "unat n"] by (simp add: old_read_unfold unat_gt_0)

lemma old_write_result:
  assumes "d < eUART_DEVICE_COUNT" and "length buf = unat n"
    and "old_hal_uart_write d (Some buf) n u s = Some (st, u', s')"
  shows "\<exists>j. u' = u\<lparr>o_sent := (o_sent u)(old_fd d u := o_sent u (old_fd d u) @ take j buf)\<rparr> \<and>
    os_ub s' = os_ub s \<and>
    (st = eRETURN_SUCCESS \<and> j = unat n \<or> st = eRETURN_INVALID_DEVICE \<and> j < unat n)"
  using wr.transfer_moved [OF assms(3) [unfolded old_write_unfold [OF assms(1)]]] assms(2)
  by (auto simp: has_written_def)

lemma old_write_returns:
  "d < eUART_DEVICE_COUNT \<Longrightarrow> line_moves m s \<Longrightarrow> \<exists>x. old_hal_uart_write d (Some buf) n u s = Some x"
  using line_next_exists [of m s] wr.transfer_returns [of _ "(u, s)"]
  by (fastforce simp: old_write_unfold)

text \<open>The answers of the line are not changed by reading them.\<close>

lemma old_calls_answers:
  assumes "d < eUART_DEVICE_COUNT"
  shows "old_hal_uart_read d (Some buf) n u s = Some (st, buf', u', s') \<Longrightarrow> os_answers s' = os_answers s"
    "old_hal_uart_write d (Some buf) n u s = Some (st, u', s') \<Longrightarrow> os_answers s' = os_answers s"
proof -
  have "os_answers (snd (snd (snd x))) = os_answers (snd (snd y))"
    if "transfer (unat n) (old_read_call fd (unat n)) uart_again g b k y = Some x" for fd k y x and g b :: eHALReturnValue
    using that
    by (induction rule: transfer_induct) (auto dest!: old_read_call_one(1) simp: one_call_def)
  then show "old_hal_uart_read d (Some buf) n u s = Some (st, buf', u', s') \<Longrightarrow> os_answers s' = os_answers s"
    unfolding old_read_unfold [OF assms] by fastforce
  have "os_answers (snd (snd x)) = os_answers (snd y)"
    if "transfer (unat n) (old_write_call fd buf (unat n)) uart_again g b k y = Some x" for fd k y x and g b :: eHALReturnValue
    using that
    by (induction rule: transfer_induct) (auto dest!: old_write_call_one(1) simp: one_call_def)
  then show "old_hal_uart_write d (Some buf) n u s = Some (st, u', s') \<Longrightarrow> os_answers s' = os_answers s"
    unfolding old_write_unfold [OF assms] by fastforce
qed

text \<open>The settings are those of the later driver, except that this one sets neither the least number of
  bytes of a read nor its timeout.\<close>

lemma old_uart_termios_differs:
  assumes "dev_word_size dev' = o_word_size dev" and "dev_stop_bits dev' = o_stop_bits dev"
    and "dev_parity dev' = o_parity dev"
  shows "old_uart_termios dev = (uart_termios dev')\<lparr>c_vmin := 0, c_vtime := 0\<rparr>"
  using assms by (simp add: old_uart_termios_def uart_termios_def Let_def)

text \<open>A start that succeeds opens and configures every device; one that fails leaves the descriptors of the
  devices before open, and that of the failing one when its settings are refused.\<close>

lemma old_uart_init_leaks:
  "(case old_hal_uart_init (static_old_uart line) (boot_os (\<lambda>n. if n = 4 then 0 else 1) (\<lambda>_. zero_timespec)) of
      (st, u, s) \<Rightarrow> st = eRETURN_DEVICE_ERROR \<and> o_open_fds u = [1, 1])"
  by (simp add: old_hal_uart_init_def old_uart_setup_device_def static_old_uart_def boot_os_def ask_def uart_codes
    old_uart_device_def upt_rec Let_def)

section \<open>Properties\<close>

text \<open>C39. A blocking read: when it reports success, the buffer holds exactly the next bytes of the line, as many
  as asked for and in their order, however the driver delivers them and however often it is
  interrupted; when it reports an error, a proper part of them, and the rest of the buffer is as
  before. It returns on every line that moves or fails again and again, but as the settings make a
  read return at once without a byte, a silent line keeps it in its loop for ever.\<close>

lemma old_uart_reads_exactly:
  assumes "d < eUART_DEVICE_COUNT" and "length buf = unat n"
  shows "(case old_hal_uart_read d (Some buf) n u s of
      None \<Rightarrow> \<forall>m. \<not> line_moves m s
    | Some (st, buf', u', s') \<Rightarrow>
       \<exists>j. buf' = Some (line_bytes (old_fd d u) j u @ drop j buf) \<and>
         u' = u\<lparr>o_taken := (o_taken u)(old_fd d u := o_taken u (old_fd d u) + j)\<rparr> \<and> os_ub s' = os_ub s \<and>
         (st = eRETURN_SUCCESS \<and> j = unat n \<or> st = eRETURN_DEVICE_ERROR \<and> j < unat n)) \<and>
    (line_idle s \<and> n \<noteq> 0 \<longrightarrow> old_hal_uart_read d (Some buf) n u s = None)"
proof (cases "old_hal_uart_read d (Some buf) n u s")
  case None
  then have "\<not> line_moves m s" for m
    using old_read_returns [OF assms(1), of m s buf n u] by auto
  then show ?thesis using None by simp
next
  case (Some x)
  then have "\<not> (line_idle s \<and> n \<noteq> 0)" using old_read_blocks [OF assms(1), of s n buf u] by auto
  then show ?thesis
    using Some old_read_result [OF assms] by (cases x) auto
qed

lemma old_uart_reads_exactly_witness:
  "(\<exists>st j u' s'. old_hal_uart_read 0 (Some [7, 7]) 2 (static_old_uart (\<lambda>_ _. 40))
      (boot_os (\<lambda>i. if i = 0 then - 4 else 1) (\<lambda>_. zero_timespec)) =
        Some (st, Some (replicate j 40 @ drop j [7, 7]), u', s') \<and> (st = eRETURN_SUCCESS \<longrightarrow> j = 2)) \<and>
   old_hal_uart_read 0 (Some [7, 7]) 2 (static_old_uart (\<lambda>_ _. 40)) (boot_os (\<lambda>_. 0) (\<lambda>_. zero_timespec)) = None"
proof -
  have d: "(0 :: u32) < eUART_DEVICE_COUNT" "length [7, 7 :: u8] = unat (2 :: u64)"
    by (simp_all add: uart_codes word_less_nat_alt)
  let ?u = "static_old_uart (\<lambda>_ _. 40)"
  let ?s = "boot_os (\<lambda>i. if i = 0 then - 4 else 1) (\<lambda>_. zero_timespec)"
  have "line_moves 1 ?s"
    unfolding line_moves_def
    by (intro allI exI [of _ 1]) (simp add: boot_os_def idle_def EINTR_def EAGAIN_def)
  moreover have "line_idle (boot_os (\<lambda>_. 0) (\<lambda>_. zero_timespec))"
    by (simp add: line_idle_def idle_def boot_os_def)
  moreover have "line_bytes fd j ?u = replicate j 40" for fd j
    by (simp add: line_bytes_def static_old_uart_def map_replicate_const)
  ultimately show ?thesis
    using old_uart_reads_exactly [OF d, where u = ?u and s = ?s] old_uart_reads_exactly [OF d, where u = ?u and s = "boot_os (\<lambda>_. 0) (\<lambda>_. zero_timespec)"]
    by (auto split: option.splits)
qed

end
