(* ===== verification/ServoReadback.thy ===== *)
theory ServoReadback
  imports Servo
begin

text \<open>
  Reading back what a servo was told. The servos report nothing, but the registers of the PCA9685 keep
  the pulse that was last written; \<^verbatim>\<open>servo_get_angle\<close> computes the angle from it. The controller is not part
  of the program: that it answers with what was last written is a hypothesis on its bytes.
\<close>

section \<open>The registers of the controller\<close>

text \<open>What was last written to the registers from \<open>reg\<close> on, by the messages of the bus.\<close>

definition note_write :: "u8 \<Rightarrow> i2c_msg list \<Rightarrow> u8 list option \<Rightarrow> u8 list option" where
  "note_write reg t acc =
    (case t of [m] \<Rightarrow> (case msg_buf m of r # d \<Rightarrow> if r = reg then Some d else acc | [] \<Rightarrow> acc) | _ \<Rightarrow> acc)"

definition last_written :: "u8 \<Rightarrow> i2c \<Rightarrow> u8 list option" where
  "last_written reg c = fold (note_write reg) (i2c_transfers c) None"

text \<open>The next bytes that the controller sends are those.\<close>

definition answers_last :: "u8 \<Rightarrow> i2c \<Rightarrow> bool" where
  "answers_last reg c \<longleftrightarrow> (\<exists>d. last_written reg c = Some d \<and>
     map (\<lambda>i. i2c_incoming c (i2c_received c + i)) [0..<length d] = d)"

definition channel_reg :: "u8 \<Rightarrow> u8" where
  "channel_reg ch = ucast (LEDn_BASE ch)"

lemma last_written_write:
  "i2c_transfers c' = i2c_transfers c @ [[m]] \<Longrightarrow> msg_buf m = reg # d \<Longrightarrow> last_written reg c' = Some d"
  by (simp add: last_written_def note_write_def)

section \<open>From counts to degrees\<close>

lemma fl32_obtain_signed:
  assumes "- 4000 \<le> x" and "x \<le> 4000"
  obtains y where "fl32 x = Fin y" and "y - x \<le> 1 / 4000" and "x - y \<le> 1 / 4000"
proof -
  have "\<bar>x\<bar> \<le> of_int 4000" using assms by (intro abs_leI) simp_all
  from fl32_bound [OF this] have r: "fl32 x = Fin (rnd32 x)" "\<bar>rnd32 x - x\<bar> \<le> 4000 / 2 ^ 24" by simp_all
  have "(4000 :: rat) / 2 ^ 24 \<le> 1 / 4000" by simp
  then have "rnd32 x - x \<le> 1 / 4000" "x - rnd32 x \<le> 1 / 4000" using r(2) by linarith+
  with r(1) that show ?thesis by blast
qed

lemma fl32_obtain_small:
  assumes "- 2 \<le> x" and "x \<le> 2"
  obtains y where "fl32 x = Fin y" and "y - x \<le> 1 / 8000000" and "x - y \<le> 1 / 8000000"
proof -
  have "\<bar>x\<bar> \<le> of_int 2" using assms by (intro abs_leI) simp_all
  from fl32_bound [OF this] have r: "fl32 x = Fin (rnd32 x)" "\<bar>rnd32 x - x\<bar> \<le> 2 / 2 ^ 24" by simp_all
  have "(2 :: rat) / 2 ^ 24 \<le> 1 / 8000000" by simp
  then have "rnd32 x - x \<le> 1 / 8000000" "x - rnd32 x \<le> 1 / 8000000" using r(2) by linarith+
  with r(1) that show ?thesis by blast
qed

text \<open>The angle of a number of counts, before it is clamped.\<close>

lemma counts_angle:
  assumes "102 \<le> n" and "n \<le> 512"
  obtains r where "f_mul fl32 (f_div fl32 (f_sub fl32 (counts_to_pulse_us (of_nat n)) SERVO_MIN_PULSE_US)
      (f_sub fl32 SERVO_MAX_PULSE_US SERVO_MIN_PULSE_US)) (f_sub fl32 SERVO_MAX_ANGLE_DEG SERVO_MIN_ANGLE_DEG) = Fin r"
    and "r - (of_nat n * (1250 / 256) - 500) * (180 / 2000) \<le> 1 / 1000"
    and "(of_nat n * (1250 / 256) - 500) * (180 / 2000) - r \<le> 1 / 1000"
proof -
  define q :: rat where "q = of_nat n"
  have q: "102 \<le> q" "q \<le> 512" using assms by (simp_all add: q_def)
  have un: "unat (of_nat n :: u16) = n" using assms(2) by (simp add: unat_of_nat)
  obtain k where k: "counts_per_us = Fin k" "\<bar>k - 256 / 1250\<bar> \<le> 1 / 2 ^ 24" by (rule counts_per_us_value)
  have "k - 256 / 1250 \<le> 1 / 2 ^ 24" "- (k - 256 / 1250) \<le> 1 / 2 ^ 24"
    using abs_le_D1 [OF k(2)] abs_le_D2 [OF k(2)] by simp_all
  then have k1: "1 / 5 \<le> k" "k \<le> 1" by simp_all
  have "\<bar>q * (k - 256 / 1250)\<bar> \<le> 512 * (1 / 2 ^ 24)"
    unfolding abs_mult using k(2) q by (intro mult_mono) auto
  then have t: "q * k - q * (256 / 1250) \<le> 512 / 2 ^ 24" "q * (256 / 1250) - q * k \<le> 512 / 2 ^ 24"
    unfolding right_diff_distrib abs_le_iff by linarith+
  have pk: "q / k \<le> q * (1250 / 256) + 1 / 1000" "q * (1250 / 256) - 1 / 1000 \<le> q / k"
  proof -
    have e: "(q * (1250 / 256) + 1 / 1000) * k = (1250 / 256) * (q * k) + k / 1000"
      "(q * (1250 / 256) - 1 / 1000) * k = (1250 / 256) * (q * k) - k / 1000" by (simp_all add: algebra_simps)
    have k0: "0 < k" using k1 by simp
    show "q / k \<le> q * (1250 / 256) + 1 / 1000"
      unfolding pos_divide_le_eq [OF k0] e using t k1 by simp
    show "q * (1250 / 256) - 1 / 1000 \<le> q / k"
      unfolding pos_le_divide_eq [OF k0] e using t k1 by simp
  qed
  have "- 4000 \<le> q / k" "q / k \<le> 4000" using pk q by linarith+
  then obtain p where p: "fl32 (q / k) = Fin p" "p - q / k \<le> 1 / 4000" "q / k - p \<le> 1 / 4000"
    by (rule fl32_obtain_signed)
  have "- 4000 \<le> p - 500" "p - 500 \<le> 4000" using p(2,3) pk q by linarith+
  then obtain d where d: "fl32 (p - 500) = Fin d" "d - (p - 500) \<le> 1 / 4000" "p - 500 - d \<le> 1 / 4000"
    by (rule fl32_obtain_signed)
  have "- 2 \<le> d / 2000" "d / 2000 \<le> 2" using d(2,3) p(2,3) pk q by linarith+
  then obtain e where e: "fl32 (d / 2000) = Fin e" "e - d / 2000 \<le> 1 / 8000000" "d / 2000 - e \<le> 1 / 8000000"
    by (rule fl32_obtain_small)
  have "- 4000 \<le> e * 180" "e * 180 \<le> 4000" using e(2,3) d(2,3) p(2,3) pk q by linarith+
  then obtain r where r: "fl32 (e * 180) = Fin r" "r - e * 180 \<le> 1 / 4000" "e * 180 - r \<le> 1 / 4000"
    by (rule fl32_obtain_signed)
  have c: "fl32 180 = Fin 180" "fl32 2000 = Fin 2000"
    using fl32_int [of 180] fl32_int [of 2000] by simp_all
  have "f_mul fl32 (f_div fl32 (f_sub fl32 (counts_to_pulse_us (of_nat n)) SERVO_MIN_PULSE_US)
      (f_sub fl32 SERVO_MAX_PULSE_US SERVO_MIN_PULSE_US)) (f_sub fl32 SERVO_MAX_ANGLE_DEG SERVO_MIN_ANGLE_DEG) = Fin r"
    using p(1) d(1) e(1) r(1)
    by (simp add: counts_to_pulse_us_def k(1) un q_def servo_constants f_sub_def c)
  moreover have lin: "(q * (1250 / 256) - 500) * (180 / 2000) = q * (225 / 512) - 45" by (simp add: field_simps)
  have "r - (q * (1250 / 256) - 500) * (180 / 2000) \<le> 1 / 1000"
    "(q * (1250 / 256) - 500) * (180 / 2000) - r \<le> 1 / 1000"
    unfolding lin using r(2,3) e(2,3) d(2,3) p(2,3) pk by linarith+
  ultimately show ?thesis using that by (simp add: q_def)
qed

text \<open>A count within the range of the servo is half a count off at most, which is less than a quarter of a
  degree.\<close>

lemma counts_angle_near:
  assumes "0 \<le> a" and "a \<le> 180" and "102 \<le> n" and "n \<le> 512" and "\<bar>of_nat n - nominal_counts a\<bar> \<le> 52 / 100"
  obtains r where "clampf (f_mul fl32 (f_div fl32 (f_sub fl32 (counts_to_pulse_us (of_nat n)) SERVO_MIN_PULSE_US)
      (f_sub fl32 SERVO_MAX_PULSE_US SERVO_MIN_PULSE_US)) (f_sub fl32 SERVO_MAX_ANGLE_DEG SERVO_MIN_ANGLE_DEG))
      SERVO_MIN_ANGLE_DEG SERVO_MAX_ANGLE_DEG = Fin r"
    and "0 \<le> r" and "r \<le> 180" and "\<bar>r - a\<bar> \<le> 23 / 100"
proof -
  obtain q where q: "f_mul fl32 (f_div fl32 (f_sub fl32 (counts_to_pulse_us (of_nat n)) SERVO_MIN_PULSE_US)
      (f_sub fl32 SERVO_MAX_PULSE_US SERVO_MIN_PULSE_US)) (f_sub fl32 SERVO_MAX_ANGLE_DEG SERVO_MIN_ANGLE_DEG) = Fin q"
    "q - (of_nat n * (1250 / 256) - 500) * (180 / 2000) \<le> 1 / 1000"
    "(of_nat n * (1250 / 256) - 500) * (180 / 2000) - q \<le> 1 / 1000"
    by (rule counts_angle [OF assms(3,4)])
  have n: "nominal_counts a = a * (512 / 225) + 512 / 5" by (simp add: nominal_counts_def field_simps)
  have lin: "(of_nat n * (1250 / 256) - 500) * (180 / 2000) = (of_nat n :: rat) * (225 / 512) - 45"
    by (simp add: field_simps)
  have "of_nat n - (a * (512 / 225) + 512 / 5) \<le> 52 / 100" "(a * (512 / 225) + 512 / 5) - of_nat n \<le> 52 / 100"
    using assms(5) unfolding n by linarith+
  then have near: "q - a \<le> 23 / 100" "a - q \<le> 23 / 100" using q(2,3) unfolding lin by linarith+
  define r where "r = max 0 (min 180 q)"
  have "clampf (Fin q) SERVO_MIN_ANGLE_DEG SERVO_MAX_ANGLE_DEG = Fin r"
    by (auto simp: clampf_def servo_constants r_def)
  moreover have "0 \<le> r" "r \<le> 180" "r - a \<le> 23 / 100" "a - r \<le> 23 / 100"
    using near assms(1,2) by (auto simp: r_def max_def min_def)
  moreover from this(3,4) have "\<bar>r - a\<bar> \<le> 23 / 100" by linarith
  ultimately show ?thesis using that q(1) by simp
qed

section \<open>Properties\<close>

lemma servo_get_angle_data:
  assumes "ch \<le> 15" and "answers_last (channel_reg ch) c" and "last_written (channel_reg ch) c = Some (pwm_data 0 (of_nat n))"
    and "n \<le> 512" and "servo_get_angle ch (Some out) c s = (eSTATUS_SUCCESSFUL, v, c', s')"
  shows "v = Some (clampf (f_mul fl32 (f_div fl32 (f_sub fl32 (counts_to_pulse_us (of_nat n)) SERVO_MIN_PULSE_US)
      (f_sub fl32 SERVO_MAX_PULSE_US SERVO_MIN_PULSE_US)) (f_sub fl32 SERVO_MAX_ANGLE_DEG SERVO_MIN_ANGLE_DEG))
      SERVO_MIN_ANGLE_DEG SERVO_MAX_ANGLE_DEG)"
proof -
  have len: "length (pwm_data 0 (of_nat n)) = 4" by (simp add: pwm_data_def)
  have d: "map (\<lambda>i. i2c_incoming c (i2c_received c + i)) [0..<4] = pwm_data 0 (of_nat n)"
    using assms(2,3) len by (auto simp: answers_last_def)
  have "of_nat n < (4096 :: u16)" using assms(4) by (simp add: word_less_nat_alt unat_of_nat)
  then have p: "pwm_counts (pwm_data 0 (of_nat n)) = (0, of_nat n)" by (intro pwm_round_trip) simp_all
  show ?thesis
    using assms(1,5) p
    by (auto simp: servo_get_angle_def pca9685_get_pwm_def hal_i2c_read_reg_def hal_i2c_transfer_def i2c_receive_def
        eSERVO_I2C_DEVICE_def i2c_codes d ask_def Let_def split: prod.splits if_splits)
qed

text \<open>C25. What a servo was told can be read back: if the registers of the controller answer with what was last
  written, then the angle that \<^verbatim>\<open>servo_get_angle\<close> computes, at any time before another pulse is written to
  the channel, is within 0.23 degrees of the commanded angle, clamped to the range of the servo, with
  all roundings of the way there and back.\<close>

lemma servo_reads_back:
  assumes "ch \<le> 15" and "servo_set_angle ch (Fin x) c s = (eSTATUS_SUCCESSFUL, c1, s1)"
    and "last_written (channel_reg ch) c2 = last_written (channel_reg ch) c1" and "answers_last (channel_reg ch) c2"
    and "servo_get_angle ch (Some out) c2 s2 = (eSTATUS_SUCCESSFUL, v, c3, s3)"
  shows "\<exists>r. v = Some (Fin r) \<and> 0 \<le> r \<and> r \<le> 180 \<and> \<bar>r - max 0 (min 180 x)\<bar> \<le> 23 / 100"
proof -
  have "Fin x \<noteq> NaN" by simp
  then obtain a n where a: "0 \<le> a" "a \<le> 180" "\<And>y. Fin x = Fin y \<Longrightarrow> a = max 0 (min 180 y)"
    and n: "102 \<le> n" "n \<le> 512" "\<bar>of_nat n - nominal_counts a\<bar> \<le> 52 / 100"
    and w: "\<And>c s. servo_set_angle ch (Fin x) c s
      = hal_i2c_write_reg eSERVO_I2C_DEVICE (LEDn_BASE ch) 1 (Some (pwm_data 0 (of_nat n))) 4 c s"
    by (rule servo_set_angle_counts [OF _ assms(1)]) blast
  have "last_written (channel_reg ch) c1 = Some (pwm_data 0 (of_nat n))"
    using write_reg_sends [of eSERVO_I2C_DEVICE "pwm_data 0 (of_nat n)" 4 "LEDn_BASE ch" c s eSTATUS_SUCCESSFUL c1 s1]
      assms(2) by (auto simp: w eSERVO_I2C_DEVICE_def i2c_codes pwm_data_def channel_reg_def intro: last_written_write)
  then have "v = Some (clampf (f_mul fl32 (f_div fl32 (f_sub fl32 (counts_to_pulse_us (of_nat n)) SERVO_MIN_PULSE_US)
      (f_sub fl32 SERVO_MAX_PULSE_US SERVO_MIN_PULSE_US)) (f_sub fl32 SERVO_MAX_ANGLE_DEG SERVO_MIN_ANGLE_DEG))
      SERVO_MIN_ANGLE_DEG SERVO_MAX_ANGLE_DEG)"
    using servo_get_angle_data [OF assms(1,4) _ n(2) assms(5)] assms(3) by simp
  moreover have "a = max 0 (min 180 x)" using a(3) by simp
  ultimately show ?thesis
    using counts_angle_near [OF a(1,2) n] by metis
qed

lemma servo_reads_back_witness:
  "\<exists>c c1 s1 r c3 s3. servo_set_angle 0 (Fin 90) c (boot_os (\<lambda>_. 1) (\<lambda>_. zero_timespec)) = (eSTATUS_SUCCESSFUL, c1, s1) \<and>
     servo_get_angle 0 (Some (Fin 0)) c1 s1 = (eSTATUS_SUCCESSFUL, Some (Fin r), c3, s3) \<and> \<bar>r - 90\<bar> \<le> 23 / 100"
proof -
  have "Fin 90 \<noteq> NaN" "(0 :: u8) \<le> 15" by simp_all
  then obtain n where n: "102 \<le> n" "n \<le> 512" and w: "\<And>c s. servo_set_angle 0 (Fin 90) c s
      = hal_i2c_write_reg eSERVO_I2C_DEVICE (LEDn_BASE 0) 1 (Some (pwm_data 0 (of_nat n))) 4 c s"
    by (rule servo_set_angle_counts) blast
  define c where "c = static_i2c (\<lambda>i. pwm_data 0 (of_nat n) ! i)"
  define s where "s = boot_os (\<lambda>_. 1) (\<lambda>_. zero_timespec)"
  obtain c1 s1 where set: "servo_set_angle 0 (Fin 90) c s = (eSTATUS_SUCCESSFUL, c1, s1)"
    and c1: "c1 = c\<lparr>i2c_transfers := [[i2c_message (i2c_devices c ! 0) 0 5 (6 # pwm_data 0 (of_nat n))]]\<rparr>"
    and s1: "s1 = s\<lparr>os_asked := 1\<rparr>"
    by (simp add: w hal_i2c_write_reg_def hal_i2c_transfer_def eSERVO_I2C_DEVICE_def i2c_codes ask_def s_def boot_os_def
      c_def static_i2c_def pwm_data_def write_reg_bytes_1 LEDn_BASE_def REG_LED0_ON_L_def Let_def)
  have l: "last_written (channel_reg 0) c1 = Some (pwm_data 0 (of_nat n))"
    by (simp add: last_written_def note_write_def c1 i2c_message_def channel_reg_def LEDn_BASE_def REG_LED0_ON_L_def)
  have "answers_last (channel_reg 0) c1"
    by (simp add: answers_last_def l) (simp add: c1 c_def static_i2c_def pwm_data_def upt_rec)
  moreover obtain v c3 s3 where get: "servo_get_angle 0 (Some (Fin 0)) c1 s1 = (eSTATUS_SUCCESSFUL, v, c3, s3)"
    by (simp add: servo_get_angle_def pca9685_get_pwm_def hal_i2c_read_reg_def hal_i2c_transfer_def
      eSERVO_I2C_DEVICE_def i2c_codes ask_def s1 s_def boot_os_def i2c_receive_def Let_def case_prod_unfold)
  ultimately obtain r where "v = Some (Fin r)" "\<bar>r - max 0 (min 180 90)\<bar> \<le> 23 / 100"
    using servo_reads_back [OF _ set refl _ get] by auto
  then show ?thesis
    using set get unfolding s_def
    by (intro exI [of _ c] exI [of _ c1] exI [of _ s1] exI [of _ r] exI [of _ c3] exI [of _ s3]) simp
qed

end
