(* ===== verification/PcaExperiment.thy ===== *)
theory PcaExperiment
  imports ServoReadback "HOL-Library.Signed_Division"
begin

text \<open>
  The experiment with the servos, \<^verbatim>\<open>src/experiments/i2c_signal.c\<close>: a program of its own that brings up the
  PCA9685, moves both servos through their range and reads back what it has commanded. It has its own
  copy of the functions for the controller, from which those of \<^verbatim>\<open>servo_fsm.c\<close> come; the section on the
  firmware shows that both do the same on the bus. The registers and the limits of the servos are
  macros with the names and values of \<^verbatim>\<open>servo_config.h\<close>, and are shared with \<open>Servo\<close>.

  The state has what the program does: the messages of the bus, how long it sleeps and after how many
  messages, and what it prints. What the controller answers is the stream of \<open>HalI2c\<close>.
\<close>

section \<open>State\<close>

datatype pca_line =
    Pca_banner u8 cfloat
  | Pca_init_failed
  | Pca_initialised
  | Pca_commanding cfloat
  | Pca_set_failed u8
  | Pca_read_back u8 cfloat
  | Pca_resetting
  | Pca_reset_done
  | Pca_done

record pca_exp =
  x_i2c :: i2c
  x_os :: os
  x_sleeps :: "(nat \<times> int) list"
  x_out :: "pca_line list"

definition pca_boot :: "(nat \<Rightarrow> u8) \<Rightarrow> (nat \<Rightarrow> int) \<Rightarrow> pca_exp" where
  "pca_boot incoming answers = \<lparr>x_i2c = static_i2c incoming, x_os = boot_os answers (\<lambda>_. zero_timespec),
     x_sleeps = [], x_out = []\<rparr>"

definition I2C_DEVICE_INDEX :: u32 where "I2C_DEVICE_INDEX = 0"
definition PCA9685_ADDRESS :: u8 where "PCA9685_ADDRESS = 0x40"
definition SERVO1_CHANNEL :: u8 where "SERVO1_CHANNEL = 0"
definition SERVO2_CHANNEL :: u8 where "SERVO2_CHANNEL = 1"

definition pca_print :: "pca_line \<Rightarrow> pca_exp \<Rightarrow> pca_exp" where
  "pca_print l x = x\<lparr>x_out := x_out x @ [l]\<rparr>"

text \<open>The two fields of the time handed to \<^verbatim>\<open>nanosleep\<close>; the division of C truncates.\<close>

definition sleep_timespec :: "int \<Rightarrow> int \<times> int" where
  "sleep_timespec us = (us sdiv 1000000, (us smod 1000000) * 1000)"

definition exp_sleep_us :: "int \<Rightarrow> pca_exp \<Rightarrow> pca_exp" where
  "exp_sleep_us us x =
    (let (sec, nsec) = sleep_timespec us
     in x\<lparr>x_sleeps := x_sleeps x @ [(length (i2c_transfers (x_i2c x)), sec * 1000000000 + nsec)]\<rparr>)"

text \<open>A call of the driver in this state.\<close>

definition on_bus :: "(i2c \<Rightarrow> os \<Rightarrow> eStatus \<times> i2c \<times> os) \<Rightarrow> pca_exp \<Rightarrow> eStatus \<times> pca_exp" where
  "on_bus f x = (let (st, c, s) = f (x_i2c x) (x_os x) in (st, x\<lparr>x_i2c := c, x_os := s\<rparr>))"

definition on_bus_out :: "(i2c \<Rightarrow> os \<Rightarrow> eStatus \<times> 'a \<times> i2c \<times> os) \<Rightarrow> pca_exp \<Rightarrow> eStatus \<times> 'a \<times> pca_exp" where
  "on_bus_out f x = (let (st, v, c, s) = f (x_i2c x) (x_os x) in (st, v, x\<lparr>x_i2c := c, x_os := s\<rparr>))"

section \<open>The controller\<close>

definition exp_clampf :: "cfloat \<Rightarrow> cfloat \<Rightarrow> cfloat \<Rightarrow> cfloat" where
  "exp_clampf x lo hi = (if f_less x lo then lo else if f_less hi x then hi else x)"

definition exp_write8 :: "u8 \<Rightarrow> u8 \<Rightarrow> pca_exp \<Rightarrow> eStatus \<times> pca_exp" where
  "exp_write8 reg val = on_bus (hal_i2c_write_reg I2C_DEVICE_INDEX (ucast reg) 1 (Some [val]) 1)"

definition exp_read8 :: "u8 \<Rightarrow> u8 option \<Rightarrow> pca_exp \<Rightarrow> eStatus \<times> u8 option \<times> pca_exp" where
  "exp_read8 reg out_value x =
    (case out_value of
       None \<Rightarrow> (eSTATUS_NULL_PARAM, None, x)
     | Some v \<Rightarrow>
        (case on_bus_out (hal_i2c_read_reg I2C_DEVICE_INDEX (ucast reg) 1 (Some [v]) 1) x of
           (st, buf, x) \<Rightarrow> (st, Some (the buf ! 0), x)))"

definition exp_prescale :: "cfloat \<Rightarrow> u8" where
  "exp_prescale freq_hz =
    (let pre_f = f_sub fl32 (f_div fl32 PCA9685_OSC_HZ (f_mul fl32 PCA9685_PWM_STEPS freq_hz)) (Fin 1);
         pre_i = f_trunc (f_add fl32 pre_f (Fin (1 / 2)));
         pre_i = (if pre_i < PCA9685_PRESCALE_MIN then PCA9685_PRESCALE_MIN else pre_i);
         pre_i = (if PCA9685_PRESCALE_MAX < pre_i then PCA9685_PRESCALE_MAX else pre_i)
     in word_of_int pre_i)"

definition exp_set_pwm_freq :: "cfloat \<Rightarrow> pca_exp \<Rightarrow> eStatus \<times> pca_exp" where
  "exp_set_pwm_freq freq_hz x =
    (let prescale = exp_prescale freq_hz;
         (st, old, x) = exp_read8 REG_MODE1 (Some 0) x
     in if st \<noteq> eSTATUS_SUCCESSFUL then (st, x)
        else let mode1_old = the old;
                 mode1_sleep = (mode1_old AND NOT MODE1_RESTART) OR MODE1_SLEEP;
                 (st, x) = exp_write8 REG_MODE1 mode1_sleep x
        in if st \<noteq> eSTATUS_SUCCESSFUL then (st, x)
           else let (st, x) = exp_write8 REG_PRE_SCALE prescale x
           in if st \<noteq> eSTATUS_SUCCESSFUL then (st, x)
              else let (st, x) = exp_write8 REG_MODE1 mode1_old x
              in if st \<noteq> eSTATUS_SUCCESSFUL then (st, x)
                 else let x = exp_sleep_us 500 x
                 in exp_write8 REG_MODE1 (mode1_old OR MODE1_RESTART OR MODE1_AI) x)"

definition exp_pca9685_init :: "pca_exp \<Rightarrow> eStatus \<times> pca_exp" where
  "exp_pca9685_init x =
    (let (st, x) = on_bus hal_i2c_init x
     in if st \<noteq> eSTATUS_SUCCESSFUL then (st, x)
        else let (st, c) = hal_i2c_set_address I2C_DEVICE_INDEX PCA9685_ADDRESS (x_i2c x);
                 x = x\<lparr>x_i2c := c\<rparr>
        in if st \<noteq> eSTATUS_SUCCESSFUL then (st, x)
           else let (st, x) = exp_write8 REG_MODE2 MODE2_OUTDRV x
           in if st \<noteq> eSTATUS_SUCCESSFUL then (st, x)
              else let (st, x) = exp_write8 REG_MODE1 MODE1_ALLCALL x
              in if st \<noteq> eSTATUS_SUCCESSFUL then (st, x)
                 else let x = exp_sleep_us 500 x in exp_set_pwm_freq PWM_FREQ_HZ x)"

definition exp_set_pwm :: "u8 \<Rightarrow> u16 \<Rightarrow> u16 \<Rightarrow> pca_exp \<Rightarrow> eStatus \<times> pca_exp" where
  "exp_set_pwm channel on off x =
    (if 15 < channel then (eSTATUS_INVALID_VALUE, x)
     else let data = [ucast (on AND 0xFF), ucast (drop_bit 8 on AND 0x0F),
                      ucast (off AND 0xFF), ucast (drop_bit 8 off AND 0x0F)]
          in on_bus (hal_i2c_write_reg I2C_DEVICE_INDEX (LEDn_BASE channel) 1 (Some data) 4) x)"

definition exp_get_pwm ::
    "u8 \<Rightarrow> u16 option \<Rightarrow> u16 option \<Rightarrow> pca_exp \<Rightarrow> eStatus \<times> u16 option \<times> u16 option \<times> pca_exp" where
  "exp_get_pwm channel out_on out_off x =
    (if 15 < channel then (eSTATUS_INVALID_VALUE, out_on, out_off, x)
     else let (st, buf, x) = on_bus_out (hal_i2c_read_reg I2C_DEVICE_INDEX (LEDn_BASE channel) 1
                                  (Some [0, 0, 0, 0]) 4) x
     in if st \<noteq> eSTATUS_SUCCESSFUL then (st, out_on, out_off, x)
        else let data = the buf;
                 on = ucast (data ! 0) OR push_bit 8 (ucast (data ! 1) AND 0x0F);
                 off = ucast (data ! 2) OR push_bit 8 (ucast (data ! 3) AND 0x0F)
             in (eSTATUS_SUCCESSFUL, map_option (\<lambda>_. on) out_on, map_option (\<lambda>_. off) out_off, x))"

section \<open>Angles\<close>

definition exp_counts_per_us :: cfloat where
  "exp_counts_per_us = (let period_us = f_div fl32 (Fin 1000000) PWM_FREQ_HZ
     in f_div fl32 PCA9685_PWM_STEPS period_us)"

text \<open>\<open>None\<close> when the conversion to \<^verbatim>\<open>uint16_t\<close> is undefined.\<close>

definition exp_pulse_us_to_counts :: "cfloat \<Rightarrow> u16 option" where
  "exp_pulse_us_to_counts pulse_us =
    (let counts = f_mul fl32 pulse_us exp_counts_per_us;
         counts = (if f_less counts (Fin 0) then Fin 0 else counts);
         counts = (if f_less (Fin 4095) counts then Fin 4095 else counts)
     in case f_add fl32 counts (Fin (1 / 2)) of
          Fin y \<Rightarrow> Some (word_of_int (f_trunc (Fin y)))
        | _ \<Rightarrow> None)"

definition exp_counts_to_pulse_us :: "u16 \<Rightarrow> cfloat" where
  "exp_counts_to_pulse_us counts = f_div fl32 (Fin (of_nat (unat counts))) exp_counts_per_us"

definition exp_set_angle :: "u8 \<Rightarrow> cfloat \<Rightarrow> pca_exp \<Rightarrow> eStatus \<times> pca_exp" where
  "exp_set_angle channel angle_deg x =
    (let angle_deg = exp_clampf angle_deg SERVO_MIN_ANGLE_DEG SERVO_MAX_ANGLE_DEG;
         pulse_us = f_add fl32 SERVO_MIN_PULSE_US
           (f_mul fl32 (f_div fl32 angle_deg (f_sub fl32 SERVO_MAX_ANGLE_DEG SERVO_MIN_ANGLE_DEG))
             (f_sub fl32 SERVO_MAX_PULSE_US SERVO_MIN_PULSE_US))
     in case exp_pulse_us_to_counts pulse_us of
          None \<Rightarrow> (eSTATUS_SUCCESSFUL, x\<lparr>x_os := (x_os x)\<lparr>os_ub := True\<rparr>\<rparr>)
        | Some counts \<Rightarrow> exp_set_pwm channel 0 counts x)"

definition exp_get_angle :: "u8 \<Rightarrow> cfloat option \<Rightarrow> pca_exp \<Rightarrow> eStatus \<times> cfloat option \<times> pca_exp" where
  "exp_get_angle channel out_angle_deg x =
    (if out_angle_deg = None then (eSTATUS_NULL_PARAM, None, x)
     else let (st, _, off_counts, x) = exp_get_pwm channel None (Some 0) x
     in if st \<noteq> eSTATUS_SUCCESSFUL then (st, out_angle_deg, x)
        else let pulse_us = exp_counts_to_pulse_us (the off_counts);
                 angle = f_mul fl32 (f_div fl32 (f_sub fl32 pulse_us SERVO_MIN_PULSE_US)
                           (f_sub fl32 SERVO_MAX_PULSE_US SERVO_MIN_PULSE_US))
                           (f_sub fl32 SERVO_MAX_ANGLE_DEG SERVO_MIN_ANGLE_DEG)
             in (eSTATUS_SUCCESSFUL, Some (exp_clampf angle SERVO_MIN_ANGLE_DEG SERVO_MAX_ANGLE_DEG), x))"

section \<open>The program\<close>

definition exp_command :: "u8 \<Rightarrow> cfloat \<Rightarrow> pca_exp \<Rightarrow> pca_exp" where
  "exp_command channel angle x =
    (let (st, x) = exp_set_angle channel angle x
     in if st \<noteq> eSTATUS_SUCCESSFUL then pca_print (Pca_set_failed channel) x else x)"

text \<open>Reading back into the variable \<open>reported\<close>, and printing it on success.\<close>

definition exp_report :: "u8 \<Rightarrow> cfloat \<times> pca_exp \<Rightarrow> cfloat \<times> pca_exp" where
  "exp_report channel rx =
    (let (reported, x) = rx;
         (st, out, x) = exp_get_angle channel (Some reported) x
     in if st = eSTATUS_SUCCESSFUL then (the out, pca_print (Pca_read_back channel (the out)) x)
        else (the out, x))"

definition exp_position :: "cfloat \<Rightarrow> pca_exp \<Rightarrow> pca_exp" where
  "exp_position angle x =
    (let x = pca_print (Pca_commanding angle) x;
         x = exp_command SERVO1_CHANNEL angle x;
         x = exp_command SERVO2_CHANNEL angle x;
         x = exp_sleep_us (500 * 1000) x;
         (_, x) = exp_report SERVO2_CHANNEL (exp_report SERVO1_CHANNEL (Fin 0, x))
     in exp_sleep_us (500 * 1000) x)"

partial_function (option) exp_sweep :: "cfloat \<Rightarrow> pca_exp \<Rightarrow> pca_exp option" where
  "exp_sweep angle x =
    (if f_less angle (Fin 180) \<or> angle = Fin 180
     then exp_sweep (f_add fl32 angle (Fin 10)) (exp_position angle x)
     else Some x)"

text \<open>The exit status and the state at the end.\<close>

definition pca_main :: "pca_exp \<Rightarrow> (int \<times> pca_exp) option" where
  "pca_main x =
    (let x = pca_print (Pca_banner PCA9685_ADDRESS PWM_FREQ_HZ) x;
         (st, x) = exp_pca9685_init x
     in if st \<noteq> eSTATUS_SUCCESSFUL then Some (1, pca_print Pca_init_failed x)
        else case exp_sweep (Fin 0) (pca_print Pca_initialised x) of
               None \<Rightarrow> None
             | Some x \<Rightarrow>
                let x = pca_print Pca_resetting x;
                    x = exp_command SERVO1_CHANNEL (Fin 0) x;
                    x = exp_command SERVO2_CHANNEL (Fin 0) x;
                    x = pca_print Pca_reset_done x;
                    x = exp_sleep_us (500 * 1000) x;
                    (_, x) = exp_write8 REG_MODE1 (MODE1_SLEEP OR MODE1_ALLCALL) x;
                    x = x\<lparr>x_i2c := hal_i2c_cleanup (x_i2c x)\<rparr>
                in Some (0, pca_print Pca_done x))"

section \<open>The firmware\<close>

text \<open>Both copies of a function do the same on the bus.\<close>

lemmas same_device = I2C_DEVICE_INDEX_def PCA9685_ADDRESS_def eSERVO_I2C_DEVICE_def eSERVO_PCA_ADDRESS_def
  eI2C0_DEVICE_def

lemma on_bus_same: "on_bus f x = (st, x') \<Longrightarrow> f (x_i2c x) (x_os x) = (st, x_i2c x', x_os x')"
  by (auto simp: on_bus_def split: prod.splits)

lemma on_bus_out_same: "on_bus_out f x = (st, v, x') \<Longrightarrow> f (x_i2c x) (x_os x) = (st, v, x_i2c x', x_os x')"
  by (auto simp: on_bus_out_def split: prod.splits)

lemma exp_sleep_us_bus [simp]: "x_i2c (exp_sleep_us us x) = x_i2c x" "x_os (exp_sleep_us us x) = x_os x"
  "x_out (exp_sleep_us us x) = x_out x"
  by (simp_all add: exp_sleep_us_def split: prod.split)

lemma pca_print_bus [simp]: "x_i2c (pca_print l x) = x_i2c x" "x_os (pca_print l x) = x_os x"
  by (simp_all add: pca_print_def)

lemma exp_write8_same:
  "exp_write8 reg v x = (st, x') \<Longrightarrow> pca9685_write8 reg v (x_i2c x) (x_os x) = (st, x_i2c x', x_os x')"
  using on_bus_same by (simp add: exp_write8_def pca9685_write8_def same_device)

lemma exp_read8_same:
  "exp_read8 reg out x = (st, v, x') \<Longrightarrow> pca9685_read8 reg out (x_i2c x) (x_os x) = (st, v, x_i2c x', x_os x')"
  by (auto simp: exp_read8_def pca9685_read8_def same_device split: option.splits prod.splits dest!: on_bus_out_same)

lemma exp_prescale_same: "exp_prescale f = prescale_of f"
  by (simp add: exp_prescale_def prescale_of_def)

lemma exp_set_pwm_freq_same:
  "exp_set_pwm_freq f x = (st, x') \<Longrightarrow> pca9685_set_pwm_freq f (x_i2c x) (x_os x) = (st, x_i2c x', x_os x')"
  by (auto simp: exp_set_pwm_freq_def pca9685_set_pwm_freq_def exp_prescale_same Let_def
      split: prod.splits if_splits dest!: exp_write8_same exp_read8_same)

lemma exp_pca9685_init_same:
  "exp_pca9685_init x = (st, x') \<Longrightarrow> pca9685_init (x_i2c x) (x_os x) = (st, x_i2c x', x_os x')"
  by (auto simp: exp_pca9685_init_def pca9685_init_def same_device Let_def
      split: prod.splits if_splits dest!: on_bus_same exp_write8_same exp_set_pwm_freq_same)

lemma exp_angle_same:
  "exp_clampf = clampf" "exp_counts_per_us = counts_per_us" "exp_pulse_us_to_counts = pulse_us_to_counts"
  "exp_counts_to_pulse_us = counts_to_pulse_us"
  by (auto simp: fun_eq_iff exp_clampf_def clampf_def exp_counts_per_us_def counts_per_us_def
      exp_pulse_us_to_counts_def pulse_us_to_counts_def exp_counts_to_pulse_us_def counts_to_pulse_us_def)

lemma exp_set_angle_same:
  "exp_set_angle ch a x = (st, x') \<Longrightarrow> servo_set_angle ch a (x_i2c x) (x_os x) = (st, x_i2c x', x_os x')"
  by (auto simp: exp_set_angle_def servo_set_angle_def exp_angle_same angle_to_pulse_us_def exp_set_pwm_def
      pca9685_set_pwm_def pwm_data_def same_device Let_def split: option.splits if_splits dest!: on_bus_same)

lemma exp_get_angle_same:
  "exp_get_angle ch out x = (st, v, x') \<Longrightarrow> servo_get_angle ch out (x_i2c x) (x_os x) = (st, v, x_i2c x', x_os x')"
  by (auto simp: exp_get_angle_def servo_get_angle_def exp_angle_same exp_get_pwm_def pca9685_get_pwm_def
      pwm_counts_def same_device Let_def split: if_splits prod.splits dest!: on_bus_out_same)

section \<open>Bringing up the controller\<close>

text \<open>A message as the bus sees it: the address, whether it reads, and the bytes it carries.\<close>

definition on_wire :: "i2c_msg \<Rightarrow> u16 \<times> bool \<times> u8 list" where
  "on_wire m = (msg_addr m, msg_flags m AND I2C_M_RD \<noteq> 0, take (unat (msg_len m)) (msg_buf m))"

definition traffic :: "i2c \<Rightarrow> (u16 \<times> bool \<times> u8 list) list list" where
  "traffic c = map (map on_wire) (i2c_transfers c)"

text \<open>The device, as the functions of the controller leave it; \<open>dev\<close> is fixed once the address is set.\<close>

definition talks_to :: "u8 \<Rightarrow> i2c \<Rightarrow> bool" where
  "talks_to a c \<longleftrightarrow> (\<exists>dev. i2c_devices c = [dev] \<and> i2c_flags dev = 0 \<and> i2c_address dev = a)"

lemma reg_twice [simp]: "ucast (ucast (reg :: u8) :: u16) = reg"
  by (auto simp: bit_simps intro!: bit_word_eqI)

lemma exp_write8_step:
  assumes "exp_write8 reg v x = (eSTATUS_SUCCESSFUL, x')" and "talks_to a (x_i2c x)"
  shows "traffic (x_i2c x') = traffic (x_i2c x) @ [[(ucast a, False, [reg, v])]]" "talks_to a (x_i2c x')"
    "i2c_incoming (x_i2c x') = i2c_incoming (x_i2c x)" "i2c_received (x_i2c x') = i2c_received (x_i2c x)"
    "x_sleeps x' = x_sleeps x" "length (i2c_transfers (x_i2c x')) = Suc (length (i2c_transfers (x_i2c x)))"
  using assms
  by (auto simp: exp_write8_def on_bus_def hal_i2c_write_reg_def hal_i2c_transfer_def I2C_DEVICE_INDEX_def i2c_codes
      write_reg_bytes_1 traffic_def on_wire_def i2c_message_def talks_to_def ask_def Let_def split: if_splits)

lemma exp_read8_step:
  assumes "exp_read8 reg (Some v) x = (eSTATUS_SUCCESSFUL, out, x')" and "talks_to a (x_i2c x)"
  shows "traffic (x_i2c x') = traffic (x_i2c x) @ [[(ucast a, False, [reg]), (ucast a, True, [v])]]"
    "out = Some (i2c_incoming (x_i2c x) (i2c_received (x_i2c x)))" "talks_to a (x_i2c x')"
    "x_sleeps x' = x_sleeps x" "length (i2c_transfers (x_i2c x')) = Suc (length (i2c_transfers (x_i2c x)))"
proof -
  have m: "i2c_message dev 0 1 (reg_memory (ucast reg)) = \<lparr>msg_addr = ucast (i2c_address dev), msg_flags = i2c_flags dev,
      msg_len = 1, msg_buf = [reg, 0]\<rparr>" for dev
    by (auto simp: i2c_message_def reg_memory_def bit_simps intro!: bit_word_eqI)
  show "traffic (x_i2c x') = traffic (x_i2c x) @ [[(ucast a, False, [reg]), (ucast a, True, [v])]]"
    "out = Some (i2c_incoming (x_i2c x) (i2c_received (x_i2c x)))" "talks_to a (x_i2c x')"
    "x_sleeps x' = x_sleeps x" "length (i2c_transfers (x_i2c x')) = Suc (length (i2c_transfers (x_i2c x)))"
    using assms
    by (auto simp: exp_read8_def on_bus_out_def hal_i2c_read_reg_def hal_i2c_transfer_def I2C_DEVICE_INDEX_def i2c_codes
        m traffic_def on_wire_def i2c_receive_def talks_to_def ask_def i2c_message_def [of _ 1] Let_def
        split: if_splits prod.splits)
qed

lemma sleep_500: "x_sleeps (exp_sleep_us 500 x) = x_sleeps x @ [(length (i2c_transfers (x_i2c x)), 500000)]"
  by (simp add: exp_sleep_us_def sleep_timespec_def)

text \<open>The messages of a start of the controller, \<open>m\<close> being the mode that it reports.\<close>

definition bring_up :: "u8 \<Rightarrow> (bool \<times> u8 list) list list" where
  "bring_up m =
    [[(False, [0x01, 0x04])], [(False, [0x00, 0x01])], [(False, [0x00]), (True, [0])],
     [(False, [0x00, (m AND 0x7F) OR 0x10])], [(False, [0xFE, 121])], [(False, [0x00, m])],
     [(False, [0x00, m OR 0x80 OR 0x20])]]"

lemma exp_init_start:
  assumes "on_bus hal_i2c_init x = (eSTATUS_SUCCESSFUL, x1)" and "length (i2c_devices (x_i2c x)) = 1"
    and "i2c_flags (i2c_devices (x_i2c x) ! 0) = 0"
    and "hal_i2c_set_address I2C_DEVICE_INDEX PCA9685_ADDRESS (x_i2c x1) = (st, c)"
  shows "st = eSTATUS_SUCCESSFUL \<and> talks_to 0x40 c \<and> i2c_transfers c = i2c_transfers (x_i2c x) \<and>
    i2c_incoming c = i2c_incoming (x_i2c x) \<and> i2c_received c = i2c_received (x_i2c x) \<and> x_sleeps x1 = x_sleeps x"
proof -
  obtain dev where dev: "i2c_devices (x_i2c x) = [dev]" "i2c_flags dev = 0"
    using assms(2,3) by (auto simp: length_Suc_conv)
  show ?thesis
    using assms(1,4) dev
    by (auto simp: on_bus_def hal_i2c_init_def i2c_setup_device_def hal_i2c_set_address_def ask_def i2c_codes
        talks_to_def I2C_DEVICE_INDEX_def PCA9685_ADDRESS_def Let_def split: if_splits)
qed

lemma exp_freq_traffic:
  assumes "exp_set_pwm_freq PWM_FREQ_HZ x = (eSTATUS_SUCCESSFUL, x')" and "talks_to 0x40 (x_i2c x)"
  shows "traffic (x_i2c x') = traffic (x_i2c x) @ map (map (Pair 0x40))
      (drop 2 (bring_up (i2c_incoming (x_i2c x) (i2c_received (x_i2c x)))))"
    "x_sleeps x' = x_sleeps x @ [(length (i2c_transfers (x_i2c x)) + 4, 500000)]"
proof -
  note f = assms(1) [unfolded exp_set_pwm_freq_def exp_prescale_same prescale_50Hz Let_def]
  obtain m x5 where 5: "exp_read8 REG_MODE1 (Some 0) x = (eSTATUS_SUCCESSFUL, m, x5)"
    using f by (auto split: prod.splits if_splits)
  obtain x6 where 6: "exp_write8 REG_MODE1 ((the m AND NOT MODE1_RESTART) OR MODE1_SLEEP) x5 = (eSTATUS_SUCCESSFUL, x6)"
    using f by (auto simp: 5 split: prod.splits if_splits)
  obtain x7 where 7: "exp_write8 REG_PRE_SCALE 121 x6 = (eSTATUS_SUCCESSFUL, x7)"
    using f by (auto simp: 5 6 split: prod.splits if_splits)
  obtain x8 where 8: "exp_write8 REG_MODE1 (the m) x7 = (eSTATUS_SUCCESSFUL, x8)"
    using f by (auto simp: 5 6 7 split: prod.splits if_splits)
  have 9: "exp_write8 REG_MODE1 (the m OR MODE1_RESTART OR MODE1_AI) (exp_sleep_us 500 x8) = (eSTATUS_SUCCESSFUL, x')"
    using f by (simp add: 5 6 7 8)
  note s5 = exp_read8_step [OF 5 assms(2)]
  note s6 = exp_write8_step [OF 6 s5(3)]
  note s7 = exp_write8_step [OF 7 s6(2)]
  note s8 = exp_write8_step [OF 8 s7(2)]
  have t8: "talks_to 0x40 (x_i2c (exp_sleep_us 500 x8))" using s8(2) by simp
  note s9 = exp_write8_step [OF 9 t8]
  have n7: "(- 129 :: u8) = 0x7F" by simp
  show "traffic (x_i2c x') = traffic (x_i2c x) @ map (map (Pair 0x40))
      (drop 2 (bring_up (i2c_incoming (x_i2c x) (i2c_received (x_i2c x)))))"
    using s9(1) s8(1) s7(1) s6(1) s5(1)
    by (simp add: bring_up_def s5(2) REG_MODE1_def REG_PRE_SCALE_def MODE1_RESTART_def MODE1_SLEEP_def MODE1_AI_def n7)
  show "x_sleeps x' = x_sleeps x @ [(length (i2c_transfers (x_i2c x)) + 4, 500000)]"
    using s9(5) s8(5,6) s7(5,6) s6(5,6) s5(4,5) by (simp add: sleep_500)
qed

text \<open>C38. Bringing up the controller: when it succeeds, seven transfers have gone to address 0x40: the outputs
  are set to totem pole, the oscillator is woken, the mode is read, and then the divider for 50 Hz is
  written between a write that puts the controller to sleep with the restart bit clear, as the data
  sheet asks for, and one that restores the mode, before the last one sets restart and
  auto-increment; the program sleeps half a millisecond after each of the two writes that start the
  oscillator. The bring-up of the firmware does the same on the bus.\<close>

lemma pca_bring_up:
  assumes "length (i2c_devices (x_i2c x)) = 1" and "i2c_flags (i2c_devices (x_i2c x) ! 0) = 0"
    and "exp_pca9685_init x = (eSTATUS_SUCCESSFUL, x')"
  shows "traffic (x_i2c x') = traffic (x_i2c x) @ map (map (Pair 0x40))
      (bring_up (i2c_incoming (x_i2c x) (i2c_received (x_i2c x)))) \<and>
    x_sleeps x' = x_sleeps x @ (let n = length (i2c_transfers (x_i2c x)) in [(n + 2, 500000), (n + 6, 500000)]) \<and>
    pca9685_init (x_i2c x) (x_os x) = (eSTATUS_SUCCESSFUL, x_i2c x', x_os x')"
proof -
  obtain x1 where 1: "on_bus hal_i2c_init x = (eSTATUS_SUCCESSFUL, x1)"
    using assms(3) by (auto simp: exp_pca9685_init_def Let_def split: prod.splits if_splits)
  obtain st c where 2: "hal_i2c_set_address I2C_DEVICE_INDEX PCA9685_ADDRESS (x_i2c x1) = (st, c)"
    by (meson surj_pair)
  note i = exp_init_start [OF 1 assms(1,2) 2]
  define x2 where "x2 = x1\<lparr>x_i2c := c\<rparr>"
  have x2: "talks_to 0x40 (x_i2c x2)" "traffic (x_i2c x2) = traffic (x_i2c x)" "x_sleeps x2 = x_sleeps x"
    "length (i2c_transfers (x_i2c x2)) = length (i2c_transfers (x_i2c x))"
    "i2c_incoming (x_i2c x2) = i2c_incoming (x_i2c x)" "i2c_received (x_i2c x2) = i2c_received (x_i2c x)"
    using i by (simp_all add: x2_def traffic_def)
  obtain x3 where 3: "exp_write8 REG_MODE2 MODE2_OUTDRV x2 = (eSTATUS_SUCCESSFUL, x3)"
    using assms(3) i by (auto simp: exp_pca9685_init_def 1 2 x2_def [symmetric] Let_def split: prod.splits if_splits)
  obtain x4 where 4: "exp_write8 REG_MODE1 MODE1_ALLCALL x3 = (eSTATUS_SUCCESSFUL, x4)"
    using assms(3) i by (auto simp: exp_pca9685_init_def 1 2 3 x2_def [symmetric] Let_def split: prod.splits if_splits)
  have f: "exp_set_pwm_freq PWM_FREQ_HZ (exp_sleep_us 500 x4) = (eSTATUS_SUCCESSFUL, x')"
    using assms(3) i by (simp add: exp_pca9685_init_def 1 2 3 4 x2_def [symmetric] Let_def)
  note s3 = exp_write8_step [OF 3 x2(1)]
  note s4 = exp_write8_step [OF 4 s3(2)]
  have "talks_to 0x40 (x_i2c (exp_sleep_us 500 x4))" using s4(2) by simp
  note s9 = exp_freq_traffic [OF f this]
  have "traffic (x_i2c x') = traffic (x_i2c x) @ map (map (Pair 0x40))
      (bring_up (i2c_incoming (x_i2c x) (i2c_received (x_i2c x))))"
    using s9(1) s4(1,3,4) s3(1,3,4) x2(2,5,6)
    by (simp add: bring_up_def REG_MODE1_def REG_MODE2_def MODE2_OUTDRV_def MODE1_ALLCALL_def)
  then show ?thesis
    using s9(2) s4(5,6) s3(5,6) x2(3,4) exp_pca9685_init_same [OF assms(3)] by (simp add: sleep_500 Let_def)
qed

lemma pca_bring_up_witness:
  "\<exists>x'. exp_pca9685_init (pca_boot (\<lambda>_. 0x11) (\<lambda>_. 1)) = (eSTATUS_SUCCESSFUL, x') \<and>
     traffic (x_i2c x') ! 4 = [(0x40, False, [0xFE, 121])] \<and> x_sleeps x' = [(2, 500000), (6, 500000)]"
proof -
  let ?x = "pca_boot (\<lambda>_. 0x11) (\<lambda>_. 1)"
  obtain x' where x': "exp_pca9685_init ?x = (eSTATUS_SUCCESSFUL, x')"
    by (simp add: exp_pca9685_init_def pca_boot_def on_bus_def hal_i2c_init_def i2c_setup_device_def ask_def boot_os_def
      i2c_codes static_i2c_def hal_i2c_set_address_def same_device exp_write8_def hal_i2c_write_reg_def
      hal_i2c_transfer_def exp_set_pwm_freq_def exp_read8_def on_bus_out_def hal_i2c_read_reg_def i2c_receive_def
      exp_sleep_us_def sleep_timespec_def Let_def)
  have "length (i2c_devices (x_i2c ?x)) = 1" "i2c_flags (i2c_devices (x_i2c ?x) ! 0) = 0"
    "traffic (x_i2c ?x) = []" "i2c_transfers (x_i2c ?x) = []" "x_sleeps ?x = []"
    by (simp_all add: pca_boot_def static_i2c_def traffic_def)
  then show ?thesis
    using x' pca_bring_up [OF _ _ x'] by (simp add: bring_up_def)
qed

section \<open>The run of the program\<close>

fun is_command :: "pca_line \<Rightarrow> bool" where
  "is_command (Pca_commanding a) = True"
| "is_command l = False"

text \<open>What a step of the program leaves alone: the devices, which stay open, and the commands printed.\<close>

definition steady :: "pca_exp \<Rightarrow> pca_exp \<Rightarrow> bool" where
  "steady x x' \<longleftrightarrow> i2c_devices (x_i2c x') = i2c_devices (x_i2c x) \<and> i2c_open (x_i2c x') = i2c_open (x_i2c x) \<and>
    filter is_command (x_out x') = filter is_command (x_out x)"

lemma steady_refl [simp]: "steady x x"
  by (simp add: steady_def)

lemma steady_trans: "steady x y \<Longrightarrow> steady y z \<Longrightarrow> steady x z"
  by (simp add: steady_def)

lemma steady_sleep [simp]: "steady x (exp_sleep_us us x)"
  by (simp add: steady_def exp_sleep_us_def split: prod.split)

lemma steady_print [simp]: "\<not> is_command l \<Longrightarrow> steady x (pca_print l x)"
  by (simp add: steady_def pca_print_def)

lemma steady_write8: "exp_write8 reg v x = (st, x') \<Longrightarrow> steady x x'"
  by (auto simp: exp_write8_def on_bus_def hal_i2c_write_reg_def hal_i2c_transfer_def steady_def Let_def
      split: prod.splits if_splits)

lemma steady_read8: "exp_read8 reg (Some v) x = (st, out, x') \<Longrightarrow> steady x x'"
  by (auto simp: exp_read8_def on_bus_out_def hal_i2c_read_reg_def hal_i2c_transfer_def i2c_receive_def steady_def
      Let_def split: prod.splits if_splits)

lemma steady_set_angle: "exp_set_angle ch a x = (st, x') \<Longrightarrow> steady x x'"
  by (auto simp: exp_set_angle_def exp_set_pwm_def on_bus_def hal_i2c_write_reg_def hal_i2c_transfer_def steady_def
      Let_def split: prod.splits if_splits option.splits)

lemma steady_get_angle: "exp_get_angle ch (Some v) x = (st, out, x') \<Longrightarrow> steady x x' \<and> out \<noteq> None"
  by (auto simp: exp_get_angle_def exp_get_pwm_def on_bus_out_def hal_i2c_read_reg_def hal_i2c_transfer_def
      i2c_receive_def steady_def Let_def split: prod.splits if_splits)

lemma steady_set_pwm_freq: "exp_set_pwm_freq f x = (st, x') \<Longrightarrow> steady x x'"
  by (auto simp: exp_set_pwm_freq_def Let_def split: prod.splits if_splits
      dest!: steady_write8 steady_read8 intro: steady_trans) (auto simp: steady_def)

lemma steady_command: "steady x (exp_command ch a x)"
  by (auto simp: exp_command_def split: prod.split intro: steady_set_angle steady_trans [OF steady_set_angle])

lemma steady_report: "steady (snd rx) (snd (exp_report ch rx))"
  by (cases rx) (auto simp: exp_report_def split: prod.split dest!: steady_get_angle intro: steady_trans)

lemma position_out:
  "i2c_devices (x_i2c (exp_position a x)) = i2c_devices (x_i2c x)"
  "i2c_open (x_i2c (exp_position a x)) = i2c_open (x_i2c x)"
  "filter is_command (x_out (exp_position a x)) = filter is_command (x_out x) @ [Pca_commanding a]"
proof -
  define y where "y = exp_command SERVO2_CHANNEL a (exp_command SERVO1_CHANNEL a (pca_print (Pca_commanding a) x))"
  define z where "z = exp_sleep_us (500 * 1000) y"
  have "steady (pca_print (Pca_commanding a) x) y" unfolding y_def using steady_command steady_trans by blast
  moreover have "exp_position a x =
      exp_sleep_us (500 * 1000) (snd (exp_report SERVO2_CHANNEL (exp_report SERVO1_CHANNEL (Fin 0, z))))"
    by (simp add: exp_position_def y_def z_def Let_def case_prod_unfold)
  moreover have "steady y z" by (simp add: z_def)
  moreover have "steady z (snd (exp_report SERVO2_CHANNEL (exp_report SERVO1_CHANNEL (Fin 0, z))))"
    using steady_trans [OF steady_report [of "(Fin 0, z)" SERVO1_CHANNEL] steady_report [of _ SERVO2_CHANNEL]] by simp
  ultimately have "steady (pca_print (Pca_commanding a) x) (exp_position a x)"
    by (simp add: steady_def)
  then show "i2c_devices (x_i2c (exp_position a x)) = i2c_devices (x_i2c x)"
    "i2c_open (x_i2c (exp_position a x)) = i2c_open (x_i2c x)"
    "filter is_command (x_out (exp_position a x)) = filter is_command (x_out x) @ [Pca_commanding a]"
    by (simp_all add: steady_def pca_print_def)
qed

text \<open>The loop counts in floating point, and its steps are exact.\<close>

lemma exp_sweep_from:
  "k \<le> 19 \<Longrightarrow> exp_sweep (Fin (of_int (10 * int k))) x =
    Some (fold (\<lambda>j. exp_position (Fin (of_int (10 * int j)))) [k..<19] x)"
proof (induction "19 - k" arbitrary: k x)
  case 0
  then have "k = 19" by simp
  then show ?case by (subst exp_sweep.simps) simp
next
  case (Suc n)
  then have k: "k < 19" "n = 19 - Suc k" "Suc k \<le> 19" by simp_all
  have "f_add fl32 (Fin (of_int (10 * int k))) (Fin 10) = Fin (of_int (10 * int (Suc k)))"
    using fl32_int [of "10 * int (Suc k)"] k(1) by (simp add: algebra_simps)
  moreover have "f_less (Fin (of_int (10 * int k))) (Fin 180) \<or> Fin (of_int (10 * int k)) = Fin 180"
    using k(1) by auto
  ultimately show ?case
    using Suc.hyps(1) [OF k(2,3), of "exp_position (Fin (of_int (10 * int k))) x"] k(1)
    by (subst exp_sweep.simps) (simp add: upt_conv_Cons)
qed

lemma sweep_out:
  "i2c_devices (x_i2c (fold (\<lambda>j. exp_position (a j)) js x)) = i2c_devices (x_i2c x)"
  "i2c_open (x_i2c (fold (\<lambda>j. exp_position (a j)) js x)) = i2c_open (x_i2c x)"
  "filter is_command (x_out (fold (\<lambda>j. exp_position (a j)) js x)) =
    filter is_command (x_out x) @ map (\<lambda>j. Pca_commanding (a j)) js"
  by (induction js arbitrary: x) (simp_all add: position_out)

lemma exp_init_opens:
  assumes "exp_pca9685_init x = (eSTATUS_SUCCESSFUL, x')" and "length (i2c_devices (x_i2c x)) = 1"
  shows "\<exists>dev. i2c_devices (x_i2c x') = [dev] \<and> i2c_open (x_i2c x') = i2c_fd dev # i2c_open (x_i2c x) \<and>
    filter is_command (x_out x') = filter is_command (x_out x)"
proof -
  obtain d where d: "i2c_devices (x_i2c x) = [d]" using assms(2) by (auto simp: length_Suc_conv)
  obtain x1 where 1: "on_bus hal_i2c_init x = (eSTATUS_SUCCESSFUL, x1)"
    using assms(1) by (auto simp: exp_pca9685_init_def Let_def split: prod.splits if_splits)
  obtain st c where 2: "hal_i2c_set_address I2C_DEVICE_INDEX PCA9685_ADDRESS (x_i2c x1) = (st, c)"
    by (meson surj_pair)
  define x2 where "x2 = x1\<lparr>x_i2c := c\<rparr>"
  have "\<exists>dev. i2c_devices (x_i2c x2) = [dev] \<and> i2c_open (x_i2c x2) = i2c_fd dev # i2c_open (x_i2c x) \<and>
      x_out x2 = x_out x"
    using 1 2 d
    by (auto simp: x2_def on_bus_def hal_i2c_init_def i2c_setup_device_def hal_i2c_set_address_def ask_def i2c_codes
        I2C_DEVICE_INDEX_def Let_def split: if_splits)
  moreover have "steady x2 x'"
    using assms(1) 1 2
    by (auto simp: exp_pca9685_init_def x2_def Let_def split: prod.splits if_splits
        dest!: steady_write8 steady_set_pwm_freq intro: steady_trans) (auto simp: steady_def)
  ultimately show ?thesis by (auto simp: steady_def)
qed

text \<open>The end of the program, after the sweep.\<close>

definition pca_finish :: "pca_exp \<Rightarrow> pca_exp" where
  "pca_finish x =
    (let x = pca_print Pca_resetting x;
         x = exp_command SERVO1_CHANNEL (Fin 0) x;
         x = exp_command SERVO2_CHANNEL (Fin 0) x;
         x = pca_print Pca_reset_done x;
         x = exp_sleep_us (500 * 1000) x;
         (_, x) = exp_write8 REG_MODE1 (MODE1_SLEEP OR MODE1_ALLCALL) x;
         x = x\<lparr>x_i2c := hal_i2c_cleanup (x_i2c x)\<rparr>
     in pca_print Pca_done x)"

lemma pca_finish_closes:
  assumes "i2c_devices (x_i2c x) = [dev]" and "i2c_open (x_i2c x) = i2c_fd dev # fds"
  shows "i2c_open (x_i2c (pca_finish x)) = fds" "last (x_out (pca_finish x)) = Pca_done"
    "filter is_command (x_out (pca_finish x)) = filter is_command (x_out x)"
proof -
  define y where "y = exp_sleep_us (500 * 1000) (pca_print Pca_reset_done
    (exp_command SERVO2_CHANNEL (Fin 0) (exp_command SERVO1_CHANNEL (Fin 0) (pca_print Pca_resetting x))))"
  define z where "z = snd (exp_write8 REG_MODE1 (MODE1_SLEEP OR MODE1_ALLCALL) y)"
  have "steady y z" unfolding z_def by (rule steady_write8 [OF surjective_pairing])
  moreover have "steady x (pca_print Pca_resetting x)" by simp
  then have "steady x (exp_command SERVO2_CHANNEL (Fin 0) (exp_command SERVO1_CHANNEL (Fin 0)
      (pca_print Pca_resetting x)))"
    using steady_command steady_trans by blast
  then have "steady x y" by (simp add: y_def steady_def pca_print_def)
  moreover have "pca_finish x = pca_print Pca_done (z\<lparr>x_i2c := hal_i2c_cleanup (x_i2c z)\<rparr>)"
    by (simp add: pca_finish_def y_def z_def Let_def case_prod_unfold)
  ultimately show "i2c_open (x_i2c (pca_finish x)) = fds" "last (x_out (pca_finish x)) = Pca_done"
    "filter is_command (x_out (pca_finish x)) = filter is_command (x_out x)"
    using assms by (simp_all add: steady_def hal_i2c_cleanup_def i2c_codes pca_print_def)
qed

text \<open>C40. The program ends: its loop, which counts the angle in single precision, takes exactly the 19 positions
  0, 10, ... 180, whatever the bus answers; then the program closes the bus and exits with 0. It exits
  with 1 exactly when the controller cannot be brought up.\<close>

lemma pca_main_ends:
  assumes "length (i2c_devices (x_i2c x)) = 1"
  shows "\<exists>st x'. pca_main x = Some (st, x') \<and>
    st = (if fst (exp_pca9685_init (pca_print (Pca_banner 0x40 (Fin 50)) x)) = eSTATUS_SUCCESSFUL then 0 else 1) \<and>
    (st = 0 \<longrightarrow> last (x_out x') = Pca_done \<and> i2c_open (x_i2c x') = i2c_open (x_i2c x) \<and>
      filter is_command (x_out x') = filter is_command (x_out x) @
        map (\<lambda>k. Pca_commanding (Fin (of_int (10 * int k)))) [0..<19])"
proof -
  define b where "b = pca_print (Pca_banner PCA9685_ADDRESS PWM_FREQ_HZ) x"
  have b: "b = pca_print (Pca_banner 0x40 (Fin 50)) x" by (simp add: b_def PCA9685_ADDRESS_def PWM_FREQ_HZ_def)
  have x_b: "i2c_devices (x_i2c b) = i2c_devices (x_i2c x)" "i2c_open (x_i2c b) = i2c_open (x_i2c x)"
    "filter is_command (x_out b) = filter is_command (x_out x)"
    by (simp_all add: b_def pca_print_def)
  obtain st x1 where 1: "exp_pca9685_init b = (st, x1)" by (meson surj_pair)
  show ?thesis
  proof (cases "st = eSTATUS_SUCCESSFUL")
    case False
    then show ?thesis using 1 by (auto simp: pca_main_def b_def [symmetric] b [symmetric] Let_def)
  next
    case True
    obtain dev where dev: "i2c_devices (x_i2c x1) = [dev]" "i2c_open (x_i2c x1) = i2c_fd dev # i2c_open (x_i2c x)"
      "filter is_command (x_out x1) = filter is_command (x_out x)"
      using exp_init_opens [of b x1] 1 True assms x_b by auto
    define x2 where "x2 = pca_print Pca_initialised x1"
    define x3 where "x3 = fold (\<lambda>j. exp_position (Fin (of_int (10 * int j)))) [0..<19] x2"
    have sweep: "exp_sweep (Fin 0) x2 = Some x3" using exp_sweep_from [of 0 x2] by (simp add: x3_def)
    have x3: "i2c_devices (x_i2c x3) = [dev]" "i2c_open (x_i2c x3) = i2c_fd dev # i2c_open (x_i2c x)"
      "filter is_command (x_out x3) = filter is_command (x_out x) @
        map (\<lambda>k. Pca_commanding (Fin (of_int (10 * int k)))) [0..<19]"
      using dev by (simp_all only: x3_def sweep_out) (simp_all add: x2_def pca_print_def)
    have "pca_main x = Some (0, pca_finish x3)"
      using 1 True sweep
      by (simp add: pca_main_def pca_finish_def b_def [symmetric] x2_def [symmetric] Let_def case_prod_unfold)
    then show ?thesis
      using pca_finish_closes [OF x3(1,2)] x3(3) 1 True b by (intro exI [of _ 0] exI [of _ "pca_finish x3"]) simp
  qed
qed

lemma pca_main_ends_witness:
  "(\<exists>x'. pca_main (pca_boot (\<lambda>_. 0x11) (\<lambda>_. 1)) = Some (0, x') \<and> last (x_out x') = Pca_done \<and>
     length (filter is_command (x_out x')) = 19) \<and>
   (\<exists>x'. pca_main (pca_boot (\<lambda>_. 0x11) (\<lambda>_. - 1)) = Some (1, x'))"
proof -
  let ?x = "pca_boot (\<lambda>_. 0x11) (\<lambda>_. 1)" and ?y = "pca_boot (\<lambda>_. 0x11) (\<lambda>_. - 1)"
  have "length (i2c_devices (x_i2c ?x)) = 1" "x_out ?x = []" "length (i2c_devices (x_i2c ?y)) = 1"
    by (simp_all add: pca_boot_def static_i2c_def)
  moreover have "fst (exp_pca9685_init (pca_print (Pca_banner 0x40 (Fin 50)) ?x)) = eSTATUS_SUCCESSFUL"
    by (simp add: pca_print_def exp_pca9685_init_def pca_boot_def on_bus_def hal_i2c_init_def i2c_setup_device_def ask_def
      boot_os_def i2c_codes static_i2c_def hal_i2c_set_address_def same_device exp_write8_def hal_i2c_write_reg_def
      hal_i2c_transfer_def exp_set_pwm_freq_def exp_read8_def on_bus_out_def hal_i2c_read_reg_def i2c_receive_def
      exp_sleep_us_def sleep_timespec_def Let_def)
  moreover have "fst (exp_pca9685_init (pca_print (Pca_banner 0x40 (Fin 50)) ?y)) \<noteq> eSTATUS_SUCCESSFUL"
    by (simp add: exp_pca9685_init_def pca_boot_def pca_print_def on_bus_def hal_i2c_init_def i2c_setup_device_def
      ask_def boot_os_def i2c_codes static_i2c_def Let_def)
  ultimately show ?thesis using pca_main_ends [of ?x] pca_main_ends [of ?y] by auto
qed

end
