(* ===== verification/DistanceExperiment.thy ===== *)
theory DistanceExperiment
  imports HalUartOld Distance "HOL-Library.Signed_Division"
begin

text \<open>
  The experiment with the distance sensor, \<^verbatim>\<open>src/experiments/distance_print_new_hal.c\<close>: a loop over the
  blocking driver of \<open>HalUartOld\<close> that asks the sensor, reads sixteen bytes and prints them, and the
  distance. The program includes \<^verbatim>\<open>hal_uart.h\<close>, whose functions take further parameters by now; the interface that it
  calls is the one of that driver. It computes the distance in signed arithmetic where the firmware of \<open>Distance\<close> is unsigned.
\<close>

section \<open>The program\<close>

datatype print_line =
    Uart_init_failed
  | Write_failed
  | Read_failed
  | Raw_bytes "u8 list"
  | Distance_is cfloat
  | Read_unsuccessful

record printer =
  p_buff :: "u8 list"
  p_uart :: old_uart
  p_os :: os
  p_out :: "print_line list"

definition DISTANCE_SENSOR_INDEX :: u32 where "DISTANCE_SENSOR_INDEX = 0"

definition print_command :: "u8 list" where
  "print_command = [0x57, 0x10, 0xff, 0xff, 0x00, 0xff, 0xff, 0x63]"

definition p_print :: "print_line list \<Rightarrow> printer \<Rightarrow> printer" where
  "p_print ls p = p\<lparr>p_out := p_out p @ ls\<rparr>"

text \<open>The formula of the manufacturer, on \<^verbatim>\<open>int32_t\<close>. A byte of 128 or more is shifted into the sign, which the
  compiler of the project defines as the bits say.\<close>

definition print_distance :: "u8 list \<Rightarrow> cfloat" where
  "print_distance b =
    (let raw = push_bit 8 (ucast (b ! 8)) OR push_bit 16 (ucast (b ! 9)) OR push_bit 24 (ucast (b ! 10)) :: u32
     in f_div fl32 (fl32 (of_int (sint raw sdiv 256))) (Fin 1000))"

definition print_frame :: "u8 list \<Rightarrow> print_line list" where
  "print_frame b = [Raw_bytes b,
     if b ! 0 = 0x57 \<and> b ! 1 = 0x00 then Distance_is (print_distance b) else Read_unsuccessful]"

text \<open>The body of the loop: the exit status, if the program ends there. \<open>None\<close> when it waits for ever.\<close>

definition print_round :: "printer \<Rightarrow> (int option \<times> printer) option" where
  "print_round p =
    (case old_hal_uart_write DISTANCE_SENSOR_INDEX (Some print_command) 8 (p_uart p) (p_os p) of
       None \<Rightarrow> None
     | Some (st, u, s) \<Rightarrow>
        let p = p\<lparr>p_uart := u, p_os := s\<rparr>
        in if st \<noteq> eRETURN_SUCCESS then Some (Some 1, p_print [Write_failed] p)
           else (case old_hal_uart_read DISTANCE_SENSOR_INDEX (Some (p_buff p)) 16 u s of
                  None \<Rightarrow> None
                | Some (st, buf, u, s) \<Rightarrow>
                   let p = p\<lparr>p_buff := the buf, p_uart := u, p_os := s\<rparr>
                   in if st \<noteq> eRETURN_SUCCESS then Some (Some 1, p_print [Read_failed] p)
                      else Some (None, p_print (print_frame (p_buff p)) p)))"

text \<open>\<open>n\<close> rounds of the loop, which has no end of its own.\<close>

fun print_rounds :: "nat \<Rightarrow> printer \<Rightarrow> (int option \<times> printer) option" where
  "print_rounds 0 p = Some (None, p)"
| "print_rounds (Suc n) p =
    (case print_round p of
       None \<Rightarrow> None
     | Some (Some e, p) \<Rightarrow> Some (Some e, p)
     | Some (None, p) \<Rightarrow> print_rounds n p)"

definition print_main :: "nat \<Rightarrow> printer \<Rightarrow> (int option \<times> printer) option" where
  "print_main n p =
    (let (st, u, s) = old_hal_uart_init (p_uart p) (p_os p);
         p = p\<lparr>p_uart := u, p_os := s\<rparr>
     in if st \<noteq> eRETURN_SUCCESS then Some (Some 1, p_print [Uart_init_failed] p) else print_rounds n p)"

section \<open>The distance\<close>

lemma print_raw:
  "push_bit 8 (ucast (a :: u8)) OR push_bit 16 (ucast (b :: u8)) OR push_bit 24 (ucast (c :: u8)) =
    (of_nat (256 * (unat a + 256 * unat b + 65536 * unat c)) :: u32)"
proof -
  let ?w = "(0 :: u32) OR push_bit 8 (ucast a) OR push_bit 16 (ucast b) OR push_bit 24 (ucast c)"
  have "?w = push_bit 8 (drop_bit 8 ?w)"
    by (rule bit_word_eqI) (auto simp: bit_simps)
  also have "drop_bit 8 ?w = ?w div 256" by (simp add: drop_bit_eq_div)
  also have "push_bit 8 (?w div 256) = 256 * (?w div 256)" by (simp add: push_bit_eq_mult)
  finally show ?thesis unfolding distance_raw by simp
qed

lemma sdiv_256: "(256 * t) sdiv 256 = (t :: int)"
  by (cases "0 \<le> t") (auto simp: signed_divide_int_def sgn_if abs_mult abs_if)

lemma signed_256:
  assumes "0 \<le> m" and "m < 2 ^ 24"
  shows "signed_take_bit 31 (256 * m) = (if m < 2 ^ 23 then 256 * m else 256 * m - 2 ^ 32 :: int)"
proof (cases "m < 2 ^ 23")
  case True
  then show ?thesis using assms(1) by (simp add: signed_take_bit_int_eq_self)
next
  case False
  then have "bit (256 * m) 31"
  proof -
    have "256 * m div 2 ^ 31 = 1" using False assms(2) by (intro int_div_pos_eq [of _ _ _ "256 * m - 2 ^ 31"]) simp_all
    then show ?thesis by (simp add: bit_iff_odd)
  qed
  then show ?thesis using False assms by (simp add: signed_take_bit_eq_take_bit_minus take_bit_int_eq_self)
qed

lemma print_distance_value:
  "print_distance b = f_div fl32 (fl32 (of_int (if b ! 10 < 128 then int (distance_mm b)
      else int (distance_mm b) - 2 ^ 24))) (Fin 1000)"
proof -
  define m where "m = int (distance_mm b)"
  have byte: "unat (b ! 8) < 256" "unat (b ! 9) < 256" "unat (b ! 10) < 256"
    using unat_lt_2p [of "b ! 8"] unat_lt_2p [of "b ! 9"] unat_lt_2p [of "b ! 10"] by simp_all
  have "b ! 10 < 128 \<longleftrightarrow> unat (b ! 10) < 128" by (simp add: word_less_nat_alt)
  also have "\<dots> \<longleftrightarrow> distance_mm b < 8388608"
    unfolding distance_mm_def
  proof
    assume "unat (b ! 10) < 128"
    then show "unat (b ! 8) + 256 * unat (b ! 9) + 65536 * unat (b ! 10) < 8388608" using byte by linarith
  next
    assume "unat (b ! 8) + 256 * unat (b ! 9) + 65536 * unat (b ! 10) < 8388608"
    then show "unat (b ! 10) < 128" by linarith
  qed
  finally have "b ! 10 < 128 \<longleftrightarrow> distance_mm b < 8388608" .
  moreover have "distance_mm b < 16777216" unfolding distance_mm_def using byte by linarith
  ultimately have r: "m < 2 ^ 24" "0 \<le> m" "b ! 10 < 128 \<longleftrightarrow> m < 2 ^ 23"
    by (simp_all add: m_def)
  have "unat (of_nat (256 * distance_mm b) :: u32) = 256 * distance_mm b"
    using r(1) by (intro unat_of_nat_small) (simp add: m_def)
  then have "uint (of_nat (256 * distance_mm b) :: u32) = 256 * m"
    by (metis m_def of_nat_mult of_nat_numeral of_nat_unat)
  then have "sint (of_nat (256 * distance_mm b) :: u32) = signed_take_bit 31 (256 * m)"
    by (simp only: sint_uint) simp
  also have "\<dots> = (if m < 2 ^ 23 then 256 * m else 256 * m - 2 ^ 32)"
    using signed_256 [OF r(2,1)] .
  finally have "sint (of_nat (256 * distance_mm b) :: u32) = (if m < 2 ^ 23 then 256 * m else 256 * m - 2 ^ 32)" .
  then have "sint (of_nat (256 * distance_mm b) :: u32) sdiv 256 = (if m < 2 ^ 23 then m else m - 2 ^ 24)"
    using sdiv_256 [of m] sdiv_256 [of "m - 2 ^ 24"] by (auto simp: algebra_simps)
  then show ?thesis
    unfolding print_distance_def print_raw by (simp add: distance_mm_def [symmetric] r(3) m_def)
qed

section \<open>The frames of the line\<close>

text \<open>The sixteen bytes of the line of the sensor that the \<open>i\<close>-th round from here reads.\<close>

definition line_frame :: "printer \<Rightarrow> nat \<Rightarrow> u8 list" where
  "line_frame p i = (let fd = old_fd DISTANCE_SENSOR_INDEX (p_uart p)
     in map (\<lambda>j. o_line (p_uart p) fd (o_taken (p_uart p) fd + 16 * i + j)) [0..<16])"

lemma sensor_index: "DISTANCE_SENSOR_INDEX < eUART_DEVICE_COUNT"
  by (simp add: DISTANCE_SENSOR_INDEX_def uart_codes word_less_nat_alt)

lemma print_round_returns:
  assumes "line_moves m (p_os p)"
  shows "\<exists>x. print_round p = Some x"
proof -
  obtain st u s where w: "old_hal_uart_write DISTANCE_SENSOR_INDEX (Some print_command) 8 (p_uart p) (p_os p) = Some (st, u, s)"
    using old_write_returns [OF sensor_index assms, of print_command 8 "p_uart p"] by auto
  have "line_moves m s" using old_calls_answers(2) [OF sensor_index w] assms by (simp add: line_moves_def)
  then show ?thesis
    using old_read_returns [OF sensor_index, of m s "p_buff p" 16 u] by (auto simp: print_round_def w Let_def)
qed

lemma print_round_result:
  assumes "print_round p = Some (r, p')" and "length (p_buff p) = 16"
  shows "os_answers (p_os p') = os_answers (p_os p)"
    "r = None \<and> p_out p' = p_out p @ print_frame (line_frame p 0) \<and> length (p_buff p') = 16 \<and>
       (\<forall>i. line_frame p' i = line_frame p (Suc i)) \<or>
     r = Some 1 \<and> (\<exists>e\<in>{Write_failed, Read_failed}. p_out p' = p_out p @ [e])"
proof -
  have len: "length print_command = unat (8 :: u64)" "length (p_buff p) = unat (16 :: u64)"
    using assms(2) by (simp_all add: print_command_def)
  obtain st u s where w: "old_hal_uart_write DISTANCE_SENSOR_INDEX (Some print_command) 8 (p_uart p) (p_os p) = Some (st, u, s)"
    using assms(1) by (auto simp: print_round_def split: option.splits)
  obtain j where u: "u = (p_uart p)\<lparr>o_sent := j\<rparr>"
    using old_write_result [OF sensor_index len(1) w] by blast
  have "os_answers (p_os p') = os_answers (p_os p) \<and> (r = None \<and> p_out p' = p_out p @ print_frame (line_frame p 0) \<and>
      length (p_buff p') = 16 \<and> (\<forall>i. line_frame p' i = line_frame p (Suc i)) \<or>
     r = Some 1 \<and> (\<exists>e\<in>{Write_failed, Read_failed}. p_out p' = p_out p @ [e]))"
  proof (cases "st = eRETURN_SUCCESS")
    case False
    then show ?thesis
      using assms(1) w old_calls_answers(2) [OF sensor_index w] by (auto simp: print_round_def p_print_def Let_def)
  next
    case True
    obtain st2 b u2 s2 where rd: "old_hal_uart_read DISTANCE_SENSOR_INDEX (Some (p_buff p)) 16 u s = Some (st2, b, u2, s2)"
      using assms(1) w True by (auto simp: print_round_def Let_def split: option.splits)
    have ans: "os_answers s2 = os_answers (p_os p)"
      using old_calls_answers(1) [OF sensor_index rd] old_calls_answers(2) [OF sensor_index w] by simp
    obtain k where k: "b = Some (line_bytes (old_fd DISTANCE_SENSOR_INDEX u) k u @ drop k (p_buff p))"
      "u2 = u\<lparr>o_taken := (o_taken u)(old_fd DISTANCE_SENSOR_INDEX u := o_taken u (old_fd DISTANCE_SENSOR_INDEX u) + k)\<rparr>"
      "st2 = eRETURN_SUCCESS \<and> k = 16 \<or> st2 = eRETURN_DEVICE_ERROR \<and> k < 16"
      using old_read_result [OF sensor_index len(2) rd] by auto
    show ?thesis
    proof (cases "st2 = eRETURN_SUCCESS")
      case False
      then show ?thesis using assms(1) w True rd ans by (auto simp: print_round_def p_print_def Let_def)
    next
      case ok: True
      then have "k = 16" using k(3) by simp
      then have "the b = line_frame p 0" using k(1) assms(2) by (simp add: line_bytes_def line_frame_def u Let_def)
      then show ?thesis
        using assms(1) w True rd ans ok k(2) \<open>k = 16\<close>
        by (auto simp: print_round_def p_print_def Let_def line_frame_def u ac_simps)
    qed
  qed
  then show "os_answers (p_os p') = os_answers (p_os p)"
    "r = None \<and> p_out p' = p_out p @ print_frame (line_frame p 0) \<and> length (p_buff p') = 16 \<and>
       (\<forall>i. line_frame p' i = line_frame p (Suc i)) \<or>
     r = Some 1 \<and> (\<exists>e\<in>{Write_failed, Read_failed}. p_out p' = p_out p @ [e])"
    by blast+
qed

section \<open>Properties\<close>

text \<open>What \<open>n\<close> rounds print: the frames of the line one after the other, up to an error that ends the program.\<close>

definition prints_line :: "nat \<Rightarrow> printer \<Rightarrow> int option \<Rightarrow> printer \<Rightarrow> bool" where
  "prints_line n p r p' \<longleftrightarrow> (\<exists>k\<le>n. \<exists>es. p_out p' = p_out p @ concat (map (print_frame \<circ> line_frame p) [0..<k]) @ es \<and>
     (r = None \<and> k = n \<and> es = [] \<or> r = Some 1 \<and> k < n \<and> es \<in> {[Write_failed], [Read_failed]}))"

lemma print_rounds_returns:
  "line_moves m (p_os p) \<Longrightarrow> length (p_buff p) = 16 \<Longrightarrow> \<exists>x. print_rounds n p = Some x"
proof (induction n arbitrary: p)
  case (Suc n)
  obtain r p' where r: "print_round p = Some (r, p')" using print_round_returns [OF Suc.prems(1)] by auto
  show ?case
  proof (cases r)
    case None
    have "\<exists>x. print_rounds n p' = Some x"
      using print_round_result [OF r Suc.prems(2)] None Suc.prems(1) by (intro Suc.IH) (auto simp: line_moves_def)
    then show ?thesis using r None by simp
  qed (use r in simp)
qed simp

lemma print_rounds_result:
  "print_rounds n p = Some (r, p') \<Longrightarrow> length (p_buff p) = 16 \<Longrightarrow> prints_line n p r p'"
proof (induction n arbitrary: p)
  case 0
  then show ?case by (simp add: prints_line_def)
next
  case (Suc n)
  obtain r1 p1 where r1: "print_round p = Some (r1, p1)" using Suc.prems(1) by (auto split: option.splits)
  note one = print_round_result(2) [OF r1 Suc.prems(2)]
  show ?case
  proof (cases r1)
    case (Some e)
    then have "\<exists>es. p_out p' = p_out p @ es \<and> r = Some 1 \<and> es \<in> {[Write_failed], [Read_failed]}"
      using one r1 Suc.prems(1) by auto
    then show ?thesis unfolding prints_line_def by (intro exI [of _ 0]) auto
  next
    case None
    then have p1: "p_out p1 = p_out p @ print_frame (line_frame p 0)" "length (p_buff p1) = 16"
      "\<And>i. line_frame p1 i = line_frame p (Suc i)" "print_rounds n p1 = Some (r, p')"
      using one r1 Suc.prems(1) by auto
    have "print_frame (line_frame p 0) @ concat (map (print_frame \<circ> line_frame p1) [0..<k]) =
        concat (map (print_frame \<circ> line_frame p) [0..<Suc k])" for k
      by (simp add: p1(3) comp_def upt_conv_Cons map_Suc_upt [symmetric] del: upt_Suc)
    then show ?thesis
      using Suc.IH [OF p1(4,2)] p1(1) unfolding prints_line_def by (metis append.assoc Suc_le_mono Suc_less_eq)
  qed
qed

text \<open>The program that prints distances follows its line: whatever the driver delivers, and in whatever
  pieces, the k-th thing it prints is the k-th sixteen bytes of the line, no byte skipped or printed
  twice, until a call fails for good and the program ends with status 1; it goes on as long as the
  line moves. The distance it prints is that of the firmware for the same frame, when the highest byte
  is below 128; from there on the firmware reads an unsigned number and this program a negative one.\<close>

lemma distance_printer_follows_line:
  assumes "length (p_buff p) = 16" and "length bs = 16"
  shows "(case print_rounds n p of
      None \<Rightarrow> \<forall>m. \<not> line_moves m (p_os p)
    | Some (r, p') \<Rightarrow> prints_line n p r p') \<and>
    print_distance bs =
      (if bs ! 10 < 128 then df_distance (d_frame (update_distance_frame be aobj (tof_load be bs)))
       else f_div fl32 (fl32 (of_int (int (distance_mm bs) - 2 ^ 24))) (Fin 1000))"
proof
  show "case print_rounds n p of None \<Rightarrow> \<forall>m. \<not> line_moves m (p_os p) | Some (r, p') \<Rightarrow> prints_line n p r p'"
    using print_rounds_returns [OF _ assms(1), of _ n] print_rounds_result [OF _ assms(1), of n]
    by (auto split: option.split)
  show "print_distance bs =
      (if bs ! 10 < 128 then df_distance (d_frame (update_distance_frame be aobj (tof_load be bs)))
       else f_div fl32 (fl32 (of_int (int (distance_mm bs) - 2 ^ 24))) (Fin 1000))"
    by (simp add: print_distance_value update_distance_frame_fields(2) [OF assms(2)])
qed

lemma distance_printer_follows_line_witness:
  "(let p = \<lparr>p_buff = replicate 16 0, p_uart = static_old_uart (\<lambda>_ i. of_nat i),
       p_os = boot_os (\<lambda>_. 1) (\<lambda>_. zero_timespec), p_out = []\<rparr>
    in \<exists>r p'. print_rounds 3 p = Some (r, p') \<and> prints_line 3 p r p') \<and>
   print_distance demo_frame_bytes = df_distance (d_frame (update_distance_frame False undefined (tof_load False demo_frame_bytes)))"
proof -
  let ?p = "\<lparr>p_buff = replicate 16 0, p_uart = static_old_uart (\<lambda>_ i. of_nat i),
       p_os = boot_os (\<lambda>_. 1) (\<lambda>_. zero_timespec), p_out = []\<rparr>"
  have l: "length (p_buff ?p) = 16" "length demo_frame_bytes = 16" "demo_frame_bytes ! 10 < 128"
    by (simp_all add: demo_frame_bytes_def)
  have "line_moves 0 (p_os ?p)" by (simp add: line_moves_def idle_def boot_os_def EINTR_def EAGAIN_def)
  then show ?thesis
    using distance_printer_follows_line [OF l(1,2), of 3 False undefined] l(3)
    by (auto simp: Let_def split: option.splits)
qed

end
