(* ===== verification/DistanceTimer.thy ===== *)
theory DistanceTimer
  imports DistanceExperiment
begin

text \<open>
  The experiment with the distance sensor and a timer, \<^verbatim>\<open>src/experiments/distance_print_timer_hal.c\<close>: a program
  on its own descriptor that asks the sensor, waits for the line or a timer of three seconds, whichever
  comes first, and prints what one \<^verbatim>\<open>read\<close> has brought. As elsewhere a call answers a number, minus the error
  number when it fails; \<^verbatim>\<open>poll\<close> is followed by what it reports for the line and for the timer. The pause of a
  second after a printed frame is left out.
\<close>

section \<open>The program\<close>

datatype timer_line =
    Line_not_opened
  | Timer_failed
  | Poll_failed
  | Bytes_read "u8 list"
  | Distance_shown cfloat
  | Timer_not_read
  | Timer_expired

record timer_printer =
  t_buff :: "u8 list"
  t_open_fds :: "int list"
  t_settings :: "termios option"
  t_line :: "nat \<Rightarrow> u8"
  t_taken :: nat
  t_sent :: "u8 list"
  t_armed :: nat
  t_os :: os
  t_out :: "timer_line list"

definition t_ask :: "timer_printer \<Rightarrow> int \<times> timer_printer" where
  "t_ask t = (let (r, s) = ask (t_os t) in (r, t\<lparr>t_os := s\<rparr>))"

definition t_print :: "timer_line list \<Rightarrow> timer_printer \<Rightarrow> timer_printer" where
  "t_print ls t = t\<lparr>t_out := t_out t @ ls\<rparr>"

definition t_close :: "int \<Rightarrow> timer_printer \<Rightarrow> timer_printer" where
  "t_close fd t = t\<lparr>t_open_fds := remove1 fd (t_open_fds t)\<rparr>"

definition timer_termios :: termios where
  "timer_termios = \<lparr>c_iflag = 0, c_cflag = CLOCAL OR CREAD OR word_size_options ! 3, c_vmin = 0, c_vtime = 0,
     c_speed = baud_options ! 13\<rparr>"

text \<open>Up to the loop: the exit status, if the program ends there.\<close>

definition timer_start :: "timer_printer \<Rightarrow> int option \<times> timer_printer" where
  "timer_start t =
    (let (uart_fd, t) = t_ask t
     in if uart_fd < 0 then (Some 1, t_print [Line_not_opened] t)
        else let t = t\<lparr>t_open_fds := uart_fd # t_open_fds t\<rparr>;
                 (tty, t) = t_ask t
     in if tty = 0 then (Some 1, t_close uart_fd t)
        else let (r1, t) = t_ask t
     in if r1 < 0 then (Some 1, t_close uart_fd t)
        else let (r2, t) = t_ask t
     in if r2 < 0 then (Some 1, t_close uart_fd t)
        else let (r3, t) = t_ask t
     in if r3 < 0 then (Some 1, t_close uart_fd t)
        else let t = t\<lparr>t_settings := Some timer_termios\<rparr>;
                 (timer_fd, t) = t_ask t
     in if timer_fd < 0 then (Some 1, t_print [Timer_failed] t)
        else let t = t\<lparr>t_open_fds := timer_fd # t_open_fds t\<rparr>;
                 (r4, t) = t_ask t
     in if r4 < 0 then (Some 1, t_print [Timer_failed] t)
        else (None, t\<lparr>t_armed := Suc (t_armed t)\<rparr>))"

text \<open>What the program does with what it has read, or was in its buffer before.\<close>

definition timer_frame :: "u8 list \<Rightarrow> timer_line list" where
  "timer_frame b = Bytes_read b #
    (if b ! 0 = 0x57 \<and> b ! 1 = 0x00 then [Distance_shown (print_distance b)] else [])"

text \<open>The line is readable: the timer starts again, one \<^verbatim>\<open>read\<close>, whose result is not looked at, and the printing.\<close>

definition timer_serve_line :: "timer_printer \<Rightarrow> int option \<times> timer_printer" where
  "timer_serve_line t =
    (let (r, t) = t_ask t
     in if r < 0 then (Some 1, t_print [Timer_failed] t)
        else let t = t\<lparr>t_armed := Suc (t_armed t)\<rparr>;
                 (n, t) = t_ask t;
                 j = min (nat n) 16;
                 t = t\<lparr>t_buff := map (\<lambda>i. t_line t (t_taken t + i)) [0..<j] @ drop j (t_buff t),
                       t_taken := t_taken t + j\<rparr>
        in (None, t_print (timer_frame (t_buff t)) t))"

definition timer_serve_timer :: "timer_printer \<Rightarrow> int option \<times> timer_printer" where
  "timer_serve_timer t =
    (let (n, t) = t_ask t
     in if n \<noteq> 8 then (Some 0, t_print [Timer_not_read] t) else (None, t_print [Timer_expired] t))"

text \<open>The body of the loop.\<close>

definition timer_round :: "timer_printer \<Rightarrow> int option \<times> timer_printer" where
  "timer_round t =
    (let (w, t) = t_ask t;
         t = t\<lparr>t_sent := t_sent t @ take (nat w) print_command\<rparr>;
         (ret, t) = t_ask t
     in if ret < 0
        then if ret = - EINTR \<or> ret = - EAGAIN then (None, t) else (Some 0, t_print [Poll_failed] t)
        else let (line_ready, t) = t_ask t;
                 (timer_ready, t) = t_ask t;
                 (e, t) = (if line_ready \<noteq> 0 then timer_serve_line t else (None, t))
        in if e \<noteq> None then (e, t)
           else if timer_ready \<noteq> 0 then timer_serve_timer t else (None, t))"

text \<open>\<open>n\<close> rounds of the loop, which has no end of its own.\<close>

fun timer_rounds :: "nat \<Rightarrow> timer_printer \<Rightarrow> int option \<times> timer_printer" where
  "timer_rounds 0 t = (None, t)"
| "timer_rounds (Suc n) t =
    (case timer_round t of
       (Some e, t) \<Rightarrow> (Some e, t)
     | (None, t) \<Rightarrow> timer_rounds n t)"

definition timer_main :: "nat \<Rightarrow> timer_printer \<Rightarrow> int option \<times> timer_printer" where
  "timer_main n t = (case timer_start t of (Some e, t) \<Rightarrow> (Some e, t) | (None, t) \<Rightarrow> timer_rounds n t)"

section \<open>What is printed\<close>

text \<open>The buffers that reads of the sizes \<open>js\<close> leave, one after the other: a short read keeps the rest of the
  buffer before it.\<close>

fun short_reads :: "(nat \<Rightarrow> u8) \<Rightarrow> u8 list \<Rightarrow> nat \<Rightarrow> nat list \<Rightarrow> u8 list list" where
  "short_reads l b k [] = []"
| "short_reads l b k (j # js) =
    (let b = map (\<lambda>i. l (k + i)) [0..<j] @ drop j b in b # short_reads l b (k + j) js)"

definition is_frame_line :: "timer_line \<Rightarrow> bool" where
  "is_frame_line x \<longleftrightarrow> (\<exists>b. x = Bytes_read b) \<or> (\<exists>d. x = Distance_shown d)"

lemma frame_lines [simp]:
  "is_frame_line (Bytes_read b)" "is_frame_line (Distance_shown d)" "\<not> is_frame_line Line_not_opened"
  "\<not> is_frame_line Timer_failed" "\<not> is_frame_line Poll_failed" "\<not> is_frame_line Timer_not_read"
  "\<not> is_frame_line Timer_expired"
  by (simp_all add: is_frame_line_def)

lemma filter_timer_frame [simp]: "filter is_frame_line (timer_frame b) = timer_frame b"
  by (simp add: timer_frame_def)

text \<open>From \<open>t\<close> to \<open>t'\<close>, reads of the sizes \<open>js\<close> were made and printed.\<close>

definition reads_shown :: "nat list \<Rightarrow> timer_printer \<Rightarrow> timer_printer \<Rightarrow> bool" where
  "reads_shown js t t' \<longleftrightarrow> t_line t' = t_line t \<and> t_taken t' = t_taken t + sum_list js \<and>
    filter is_frame_line (t_out t') = filter is_frame_line (t_out t) @
      concat (map timer_frame (short_reads (t_line t) (t_buff t) (t_taken t) js)) \<and>
    t_buff t' = last (t_buff t # short_reads (t_line t) (t_buff t) (t_taken t) js)"

lemma t_ask_same [simp]:
  "t_ask t = (r, t') \<Longrightarrow> reads_shown js t' t'' \<longleftrightarrow> reads_shown js t t''"
  "t_ask t = (r, t') \<Longrightarrow> reads_shown js x t' \<longleftrightarrow> reads_shown js x t"
  by (auto simp: t_ask_def reads_shown_def split: prod.splits)

lemma reads_shown_nil: "reads_shown [] t t"
  by (simp add: reads_shown_def)

lemma reads_shown_Cons:
  "reads_shown [j] t t1 \<Longrightarrow> reads_shown js t1 t' \<Longrightarrow> reads_shown (j # js) t t'"
  by (simp add: reads_shown_def Let_def add.assoc)

lemma timer_round_shows:
  assumes "timer_round t = (e, t')"
  shows "reads_shown [] t t' \<or> (\<exists>j\<le>16. reads_shown [j] t t')"
proof -
  have line: "reads_shown [] x x' \<or> (\<exists>j\<le>16. reads_shown [j] x x')"
    if "timer_serve_line x = (r, x')" for x r x'
    using that
    by (auto simp: timer_serve_line_def t_ask_def ask_def t_print_def reads_shown_def Let_def split: if_splits
      intro!: exI [of _ "min (nat (os_answers (t_os x) (Suc (os_asked (t_os x))))) 16"])
  have timer: "reads_shown js y x' = reads_shown js y x" if "timer_serve_timer x = (r, x')" for js x r x' y
    using that by (auto simp: timer_serve_timer_def t_ask_def ask_def t_print_def reads_shown_def Let_def split: if_splits)
  define x where "x = t\<lparr>t_sent := t_sent t @ take (nat (fst (t_ask t))) print_command,
      t_os := (t_os t)\<lparr>os_asked := Suc (Suc (Suc (Suc (os_asked (t_os t)))))\<rparr>\<rparr>"
  have x: "reads_shown js x y = reads_shown js t y" "reads_shown js y x = reads_shown js y t" for js y
    by (simp_all add: x_def reads_shown_def)
  let ?n = "os_asked (t_os t)" and ?a = "os_answers (t_os t)"
  show ?thesis
  proof (cases "?a (Suc ?n) < 0")
    case True
    then show ?thesis
      using assms
      by (auto simp: timer_round_def t_ask_def ask_def t_print_def reads_shown_def Let_def split: if_splits)
  next
    case False
    then have r: "(e, t') = (let (e, y) = (if ?a (Suc (Suc ?n)) \<noteq> 0 then timer_serve_line x else (None, x))
        in if e \<noteq> None then (e, y) else if ?a (Suc (Suc (Suc ?n))) \<noteq> 0 then timer_serve_timer y else (None, y))"
      using assms by (auto simp: timer_round_def t_ask_def ask_def x_def case_prod_unfold Let_def)
    obtain e1 y where y: "(if ?a (Suc (Suc ?n)) \<noteq> 0 then timer_serve_line x else (None, x)) = (e1, y)" by fastforce
    then have "reads_shown [] t y \<or> (\<exists>j\<le>16. reads_shown [j] t y)"
      using line [of x e1 y] x reads_shown_nil [of x] by (auto split: if_splits)
    then show ?thesis
      using r timer [OF sym, of e t' y] unfolding y by (auto split: if_splits)
  qed
qed

lemma timer_rounds_shows:
  "timer_rounds n t = (e, t') \<Longrightarrow> \<exists>js. length js \<le> n \<and> (\<forall>j\<in>set js. j \<le> 16) \<and> reads_shown js t t'"
proof (induction n arbitrary: t)
  case 0
  then show ?case using reads_shown_nil by auto
next
  case (Suc n)
  obtain e1 t1 where r: "timer_round t = (e1, t1)" by fastforce
  have "\<exists>js. length js \<le> n \<and> (\<forall>j\<in>set js. j \<le> 16) \<and> reads_shown js t1 t'"
    using Suc r reads_shown_nil [of t1] by (cases e1) (auto intro: exI [of _ "[]"])
  then obtain js where js: "length js \<le> n" "\<forall>j\<in>set js. j \<le> 16" "reads_shown js t1 t'" by blast
  from timer_round_shows [OF r] show ?case
  proof
    assume "reads_shown [] t t1"
    then have "reads_shown js t t'" using js(3) by (simp add: reads_shown_def)
    then show ?case using js(1,2) le_SucI by blast
  next
    assume "\<exists>j\<le>16. reads_shown [j] t t1"
    then obtain j where "j \<le> 16" "reads_shown [j] t t1" by blast
    then show ?case using reads_shown_Cons js by (intro exI [of _ "j # js"]) auto
  qed
qed

text \<open>Whole reads show the line, sixteen bytes at a time.\<close>

lemma whole_reads:
  "length b = 16 \<Longrightarrow> short_reads l b k (replicate n 16) = map (\<lambda>i. map (\<lambda>j. l (k + 16 * i + j)) [0..<16]) [0..<n]"
proof (induction n arbitrary: b k)
  case (Suc n)
  have "map (\<lambda>i. map (\<lambda>j. l (k + 16 + 16 * i + j)) [0..<16]) [0..<n] =
      map (\<lambda>i. map (\<lambda>j. l (k + 16 * i + j)) [0..<16]) [Suc 0..<Suc n]"
    by (simp add: map_Suc_upt [symmetric] comp_def ac_simps del: upt_Suc)
  then show ?case using Suc by (simp add: Let_def upt_conv_Cons del: upt_Suc)
qed simp

section \<open>Results\<close>

text \<open>Whatever the calls answer, the frames that are printed are the buffers of a sequence of reads of the
  line, no byte lost or read twice. A frame that comes whole is printed as it came. But the number of
  bytes read is not looked at: a frame that comes in two pieces is printed twice, each time mixed with what
  was in the buffer before, and the first time with a distance that the sensor did not send.\<close>

lemma timer_printer_shows_reads:
  assumes "timer_rounds n t = (e, t')"
  shows "\<exists>js. length js \<le> n \<and> (\<forall>j\<in>set js. j \<le> 16) \<and> t_taken t' = t_taken t + sum_list js \<and>
    filter is_frame_line (t_out t') = filter is_frame_line (t_out t) @
      concat (map timer_frame (short_reads (t_line t) (t_buff t) (t_taken t) js)) \<and>
    (length (t_buff t) = 16 \<and> (\<forall>j\<in>set js. j = 16) \<longrightarrow> short_reads (t_line t) (t_buff t) (t_taken t) js =
      map (\<lambda>i. map (\<lambda>j. t_line t (t_taken t + 16 * i + j)) [0..<16]) [0..<length js])"
proof -
  obtain js where js: "length js \<le> n" "\<forall>j\<in>set js. j \<le> 16" "reads_shown js t t'"
    using timer_rounds_shows [OF assms] by blast
  have "js = replicate (length js) 16" if "\<forall>j\<in>set js. j = 16" using that by (intro replicate_eqI) auto
  then have "short_reads (t_line t) (t_buff t) (t_taken t) js =
      map (\<lambda>i. map (\<lambda>j. t_line t (t_taken t + 16 * i + j)) [0..<16]) [0..<length js]"
    if "length (t_buff t) = 16" and "\<forall>j\<in>set js. j = 16"
    using that whole_reads [OF that(1), of "t_line t" "t_taken t" "length js"] by metis
  then show ?thesis using js by (intro exI [of _ js]) (simp add: reads_shown_def)
qed

lemma piece_of_frame: "k + j \<le> length f \<Longrightarrow> map (\<lambda>i. f ! (k + i)) [0..<j] = take j (drop k f)"
  by (rule nth_equalityI) simp_all

lemma timer_printer_stale_bytes:
  assumes "length f = 16" and "length b = 16"
  defines "t \<equiv> \<lparr>t_buff = b, t_open_fds = [], t_settings = None, t_line = (!) f, t_taken = 0, t_sent = [], t_armed = 0,
      t_os = boot_os (\<lambda>i. [8, 1, 1, 0, 0, 10, 8, 1, 1, 0, 0, 6] ! i) (\<lambda>_. zero_timespec), t_out = []\<rparr>"
  shows "t_out (snd (timer_rounds 2 t)) = timer_frame (take 10 f @ drop 10 b) @
    timer_frame (drop 10 f @ drop 6 (take 10 f @ drop 10 b))"
proof -
  have "timer_round t = (None, t\<lparr>t_buff := take 10 f @ drop 10 b, t_taken := 10, t_sent := print_command, t_armed := 1,
      t_os := (t_os t)\<lparr>os_asked := 6\<rparr>, t_out := timer_frame (take 10 f @ drop 10 b)\<rparr>)" (is "_ = (None, ?t1)")
    using piece_of_frame [of 0 10 f] assms(1)
    by (simp add: timer_round_def t_ask_def ask_def boot_os_def timer_serve_line_def t_print_def t_def print_command_def
      Let_def del: map_eq_conv)
  moreover have "timer_round ?t1 = (None, ?t1\<lparr>t_buff := drop 10 f @ drop 6 (take 10 f @ drop 10 b), t_taken := 16,
      t_sent := print_command @ print_command, t_armed := 2, t_os := (t_os t)\<lparr>os_asked := 12\<rparr>,
      t_out := timer_frame (take 10 f @ drop 10 b) @ timer_frame (drop 10 f @ drop 6 (take 10 f @ drop 10 b))\<rparr>)"
    using piece_of_frame [of 10 6 f] assms(1)
    by (simp add: timer_round_def t_ask_def ask_def boot_os_def timer_serve_line_def t_print_def t_def print_command_def
      Let_def del: map_eq_conv)
  ultimately show ?thesis by (simp add: numeral_2_eq_2)
qed

end
