(* ===== verification/Spec2Isabelle.thy ===== *)
theory Spec2Isabelle
  imports System Hal UnixSocket WebSocket ProcessManager FirmwareLife DdlBridge StreamMain StreamFacts StreamLive
    StreamProps FrameTypes Callbacks QueueWait HalUartOld ServoReadback PcaExperiment DistanceTimer
begin

text \<open>
  Verification library of SnipeIt: the firmware of the sensor board (\<^verbatim>\<open>src/src\<close>) and the server that streams
  its video, detections and sensor readings to the Android application (\<^verbatim>\<open>src/pi-streaming\<close>).

  \<^bold>\<open>The programs.\<close> The firmware is a set of active objects: each has an event queue, a finite state machine and
  a thread that takes events from the queue and hands them to the machine. The objects talk through an
  event bus: a module publishes an event under the number of an object, and the bus calls the post
  function of whoever subscribed. Four modules drive a sensor or an actuator each (distance, GPS,
  temperature and humidity, servos) over the UART, GPIO and I2C drivers; each writes its part of the live
  frame. The scheduler publishes the event of one slot per tick of a timer; the broadcaster copies the
  live frame into the snapshot. The streaming server is one loop: it takes messages of the detection
  process from a Unix socket and queues them for the one client of its WebSocket, starts and stops
  mediaMTX and FFmpeg as child processes, reacts to the application coming and going, and once a second
  sends the snapshot of the firmware, which it runs inside itself through \<^verbatim>\<open>ddl_bridge.c\<close>.

  \<^bold>\<open>Where what is modelled.\<close> Files are given under \<^verbatim>\<open>src/src\<close> first.
  \<^item> \<open>Prelude\<close>, \<open>Bytes\<close>, \<open>Cfloat\<close>, \<open>Cstring\<close>: machine integers as words, status codes (\<^verbatim>\<open>status.h\<close>), memory images of
    integers in either byte order, \<^verbatim>\<open>float\<close> and \<^verbatim>\<open>double\<close> as rounded rationals with infinities and NaN, the
    functions of \<^verbatim>\<open>string.h\<close> and \<^verbatim>\<open>stdio.h\<close> that the programs use on null-terminated texts.
  \<^item> \<open>Osal\<close> (\<^verbatim>\<open>osal/osal.c\<close>) and \<open>Posix\<close>: the operating system as a record of what the program has done to it,
    with a stream of answers that the calls read in order.
  \<^item> \<open>UtilQueue\<close>, \<open>UtilFsm\<close>, \<open>ActiveObject\<close>, \<open>EventBus\<close>, \<open>Log\<close> (\<^verbatim>\<open>util/\<close>): the ring buffer, the machine with nested calls
    of state functions, the object with its thread as a labelled step relation, the subscription table,
    the logger. \<open>QueueWait\<close> has the waiting of \<^verbatim>\<open>util_queue_pop\<close> in \<^verbatim>\<open>osal_cond_wait\<close>, step by step.
  \<^item> \<open>HalGpio\<close>, \<open>HalI2c\<close>, \<open>HalUart\<close>, \<open>Hal\<close> (\<^verbatim>\<open>hal/\<close>): the drivers, the operation slots of the UART with completions as
    steps, and the table of drivers.
  \<^item> \<open>DdlFrame\<close>, \<open>Distance\<close>, \<open>Gps\<close>, \<open>TempHum\<close>, \<open>Servo\<close>, \<open>ServoControl\<close>, \<open>Ddl\<close> (\<^verbatim>\<open>ddl/\<close>): the sensor modules, one state
    function of the source per definition, and the table of modules.
  \<^item> \<open>Broadcaster\<close>, \<open>Scheduler\<close>, \<open>App\<close>, \<open>AppFacts\<close>, \<open>AppRouting\<close>, \<open>System\<close> (\<^verbatim>\<open>app/\<close>): the application layer over the bus,
    with the state of all objects in one record, and its properties. \<open>Callbacks\<close> has what other threads call,
    the handlers of timers and completions.
  \<^item> \<open>Firmware\<close>, \<open>FirmwareLife\<close> (\<^verbatim>\<open>main.c\<close>): start and end of the board program.
  \<^item> \<open>UnixSocket\<close>, \<open>WebSocket\<close>, \<open>Config\<close>, \<open>ProcessManager\<close>, \<open>DdlBridge\<close>, \<open>StreamMain\<close> (\<^verbatim>\<open>src/pi-streaming\<close>, the file of that
    name, and \<^verbatim>\<open>main.c\<close>): the streaming server. \<open>StreamFacts\<close> has its invariant, \<open>StreamLive\<close> its termination,
    \<open>StreamProps\<close> its properties, \<open>FrameTypes\<close> the ranges of the numbers that the bridge sends.
  \<^item> \<open>TransferLoop\<close>: the loop that repeats a system call until all of a buffer has gone through it, which
    \<^verbatim>\<open>sendall\<close> of the streaming server and both transfers of the former UART driver have.
  \<^item> \<open>HalUartOld\<close> (\<^verbatim>\<open>src/hal_uart_old.c\<close>), \<open>PcaExperiment\<close>, \<open>DistanceExperiment\<close>, \<open>DistanceTimer\<close> (\<^verbatim>\<open>i2c_signal.c\<close>,
    \<^verbatim>\<open>distance_print_new_hal.c\<close> and \<^verbatim>\<open>distance_print_timer_hal.c\<close> of \<^verbatim>\<open>src/experiments\<close>): the former UART driver and
    trial programs for the servos and for the distance sensor. \<open>ServoReadback\<close>: reading back an angle.

  A definition carries the name of the function it translates, a record the name of the structure. A
  pointer that may be null is an option, an error status a value of \<open>eStatus\<close>, an output parameter a
  component of the result. Memory that two components share (the bus, the frames, the object of a module)
  is a field of the record that both work on.

  \<^bold>\<open>Contracts.\<close> The locales are the interfaces: \<open>bounded_fifo\<close> (the queue), \<open>ao_module\<close> (posting to a module and
  ending it), \<open>fsm_machine\<close> (a machine whose nested calls end), \<open>polled_sensor\<close> (a sensor whose requests are
  answered or given up), \<open>latest_queue\<close> (a queue that drops its oldest messages), \<open>ws_user\<close> (callbacks of the
  WebSocket server that keep an invariant), \<open>ws_returns\<close> (callbacks that return) and \<open>transfer_call\<close> (a system
  call that moves a part of a buffer). Each is interpreted on
  the definitions of the code that provides it, \<open>fsm_machine\<close> twice for the sensors: with the invariants of the
  objects, and with the ranges of their frames, \<open>transfer_call\<close> for \<^verbatim>\<open>send\<close>, \<^verbatim>\<open>read\<close> and \<^verbatim>\<open>write\<close>.

  \<^bold>\<open>What is shown.\<close>
  \<^item> Queues and events: first in, first out, nothing lost or invented; handling in the order of posting; a
    thread that waits for an event sleeps only while there is none, and returns with the oldest; timers
    and transfers post to their own module; the bus delivers to the subscribers and to nobody else; a tick
    reaches the module of its slot if the queue of that has room; the shutdown reaches every object, or
    none that comes after a full queue.
  \<^item> Sensors: the machines handle every event and every request ends; frames on the wire are accepted exactly
    when header and checksum are right, single damages are detected, and the stored numbers are the
    transmitted ones up to one rounding, for the temperature sensor from the edges on its line on; the servo angles become pulses within a stated error, and the scan
    covers its grid; an angle read back from the controller is the commanded one within a stated error.
  \<^item> Experiments: the bring-up of the servo controller of the experiment and of the firmware are the same
    traffic on the bus; its sweep ends after 19 positions; a blocking read delivers exactly the bytes of
    the line and returns on every line that moves; the programs that print distances show the line
    without losing a byte, and where their distances differ from the firmware.
  \<^item> Drivers and program: operation slots are neither leaked nor shared; the start wires the whole system,
    and the end joins every thread, gives back the memory and closes every device, but for a bus that was
    opened twice.
  \<^item> Streaming: the messages received are the lines of what arrived, however cut; those queued for the
    application are the latest 256, unchanged and in order; sessions begin and end alternately, however
    connections come and go; the configuration round-trips through JSON; a
    child process is ended with escalation within bounded time; the message of the sensors always fits; the
    state of the server is consistent between any two rounds, and every round returns.
  \<^item> Errors of the code that the model shows are stated as theorems next to what holds: a message that is too
    long stops all further messages, a detection process that leaves is never accepted again, a start of
    the bridge that fails in the application leaves its threads behind, among others.

  \<^bold>\<open>Parameters and bounds.\<close> What the outside answers is an argument of the model: the answers of the operating
  system, of libgpiod, of io_uring and of libwebsockets, the bytes on wires and sockets, clocks, the
  events of each round of the WebSocket, and what the threads of the firmware do while the server
  waits for them. Calls between state functions nest at most \<open>3\<close> deep, which \<open>fsm_machine\<close> proves for every
  machine: the depth argument of the machines is enough from there on. The service of the WebSocket
  enters itself when it tells a new application that the stream is ready: the depth of \<open>stream_service\<close>
  is enough when applications do not come in that many rounds in a row (\<open>calm\<close>). Loops of unknown length
  (the busy waits of the temperature sensor and of the delay, the repetition of a send) are partial
  functions, and that they return is proved from what the clock, the socket or the line does. Endless loops of
  the experiments are run for a number of rounds that is an argument. Printing needs the
  sign of a number that prints as zero, which the rationals do not have: it is a parameter of the
  printing functions. Counters that are only printed are natural numbers.

  \<^bold>\<open>Not modelled.\<close> The output to the console (\<^verbatim>\<open>config_print\<close>, the messages of the server), which decides nothing
  else; the kernel side of threads,
  of condition variables and of io_uring, which are steps of the model instead of functions; signals, which
  end the list of rounds of the loop; pauses, except those of \<open>PcaExperiment\<close> and of the child processes. The other
  programs of \<^verbatim>\<open>src/experiments\<close> use drivers that the repository no longer has, or only wait and measure; the
  tests and the vendored test framework are not part of either program; the detection process (Python) and the
  Android application (Kotlin) are the other ends of the two connections and appear as parameters.
\<close>

end
